(* ===== verification/Boi_Prelude.thy ===== *)
theory Boi_Prelude
  imports Main "HOL-Library.Word" "HOL-Library.Signed_Division"
begin

text \<open>
  Shared vocabulary of the boiOS development: the machine types of the 32-bit
  kernel, the error codes of \<^verbatim>\<open>src/src/status.h\<close>, the flat byte memory with
  little-endian 32-bit access, modular address ranges, and the arithmetic
  lemmas on words the components share.  Lemmas that rewrite memory reads are
  collected in \<open>mem_simps\<close>.
\<close>

unbundle bit_operations_syntax

named_theorems mem_simps \<open>reads of an updated memory\<close>

subsection \<open>Machine types\<close>

type_synonym u8 = "8 word"
type_synonym u16 = "16 word"
type_synonym u32 = "32 word"

text \<open>A physical address, and the memory the kernel runs in.\<close>

type_synonym addr = "32 word"
type_synonym memory = "32 word \<Rightarrow> 8 word"

subsection \<open>Error codes\<close>

text \<open>
  The kernel returns \<open>0\<close> or a count on success and the negation of one of these
  codes on failure; the model returns \<open>Inl e\<close> for \<open>- errno e\<close> and \<open>Inr\<close> for
  success.
\<close>

datatype kerror = EIO | EINVARG | ENOMEM | EBADPATH | EFSNOTUS | ERDONLY
  | EUNIMP | EISTKN | EINFORMAT

fun errno :: "kerror \<Rightarrow> int" where
  "errno EIO = 1"
| "errno EINVARG = 2"
| "errno ENOMEM = 3"
| "errno EBADPATH = 4"
| "errno EFSNOTUS = 5"
| "errno ERDONLY = 6"
| "errno EUNIMP = 7"
| "errno EISTKN = 8"
| "errno EINFORMAT = 9"

lemma errno_pos: "0 < errno e"
  by (cases e) auto

lemma errno_inj: "errno a = errno b \<longleftrightarrow> a = b"
  by (cases a; cases b) auto

text \<open>The codes are ordered as their numbers.\<close>

instantiation kerror :: linorder
begin

definition less_eq_kerror :: "kerror \<Rightarrow> kerror \<Rightarrow> bool" where
  "less_eq_kerror a b \<longleftrightarrow> errno a \<le> errno b"

definition less_kerror :: "kerror \<Rightarrow> kerror \<Rightarrow> bool" where
  "less_kerror a b \<longleftrightarrow> errno a < errno b"

instance
  by standard (auto simp: less_eq_kerror_def less_kerror_def errno_inj)

end

subsection \<open>Arithmetic on addresses\<close>

lemma unat32_lt: "unat (a :: u32) < 4294967296"
  using unsigned_less[of a] by simp

lemma unat_add_no_wrap:
  "unat a + unat b < 4294967296 \<Longrightarrow> unat (a + b) = unat a + unat b" for a b :: u32
  by (simp add: unat_word_ariths)

lemma unat_eq_iff32: "unat a = unat b \<longleftrightarrow> a = b" for a b :: u32
  by (simp add: word_unat_eq_iff)

lemma unat_diff32:
  "unat (a - b) = (if unat b \<le> unat a then unat a - unat b
     else unat a + 4294967296 - unat b)" for a b :: u32
  by (simp add: unat_sub_if_size word_size)

lemma unat_of_nat32: "n < 4294967296 \<Longrightarrow> unat (of_nat n :: u32) = n"
  by (simp add: unat_of_nat take_bit_eq_mod)

lemma sint_of_nat32: "n < 2147483648 \<Longrightarrow> sint (of_nat n :: u32) = int n"
  by (simp add: signed_of_nat signed_take_bit_int_eq_self)

lemma sint_eq_unat: "unat x < 2147483648 \<Longrightarrow> sint x = int (unat x)" for x :: u32
  using sint_of_nat32[of "unat x"] by simp

lemma sdiv_nonneg: "0 \<le> a \<Longrightarrow> 0 < b \<Longrightarrow> a sdiv b = a div b" for a b :: int
  by (auto simp: signed_divide_int_def sgn_if)

lemma smod_nonneg: "0 \<le> a \<Longrightarrow> 0 < b \<Longrightarrow> a smod b = a mod b" for a b :: int
  by (auto simp: signed_modulo_int_def sgn_if)

lemma of_nat_eq_iff32:
  "i < 4294967296 \<Longrightarrow> j < 4294967296 \<Longrightarrow> (of_nat i = (of_nat j :: u32)) \<longleftrightarrow> i = j"
  by (metis unat_of_nat32)

lemma addr_eq_offset:
  fixes a p :: u32
  assumes "i < 4294967296"
  shows "a = p + of_nat i \<longleftrightarrow> unat (a - p) = i"
proof -
  have "a = p + of_nat i \<longleftrightarrow> a - p = of_nat i" by (auto simp: algebra_simps)
  also have "\<dots> \<longleftrightarrow> unat (a - p) = unat (of_nat i :: u32)" by (simp add: unat_eq_iff32)
  finally show ?thesis using assms by (simp add: unat_of_nat32)
qed

lemma unat_dec: "len \<noteq> 0 \<Longrightarrow> unat (len - 1) = unat len - 1" for len :: u32
  by (simp add: unat_minus_one)

lemma unat_sub_1_offset:
  fixes a d :: u32
  assumes "a \<noteq> d"
  shows "unat (a - (d + 1)) = unat (a - d) - 1"
proof -
  have "a - (d + 1) = (a - d) - 1" by (simp add: algebra_simps)
  moreover have "a - d \<noteq> 0" using assms by simp
  ultimately show ?thesis by (simp only: unat_dec not_False_eq_True)
qed

lemma unat_minus_1: "unat (- 1 :: u32) = 4294967295"
  by (simp add: unsigned_minus_1_eq_mask mask_eq_exp_minus_1)

text \<open>\<open>in_range p n a\<close>: address \<open>a\<close> is one of the \<open>n\<close> bytes from \<open>p\<close> on (with wrap).\<close>

definition in_range :: "addr \<Rightarrow> nat \<Rightarrow> addr \<Rightarrow> bool" where
  "in_range p n a \<longleftrightarrow> unat (a - p) < n"

lemma in_range_0 [simp]: "\<not> in_range p 0 a"
  by (simp add: in_range_def)

text \<open>A nonempty range is its first address and the range one further on.\<close>

lemma in_range_Suc: "in_range p (Suc n) x \<longleftrightarrow> x = p \<or> in_range (p + 1) n x"
proof (cases "x = p")
  case False
  then have "0 < unat (x - p)" by (simp add: unat_gt_0)
  with False show ?thesis by (auto simp: in_range_def unat_sub_1_offset)
qed (simp add: in_range_def)

lemma in_range_step:
  fixes len :: u32
  assumes "len \<noteq> 0"
  shows "in_range d (unat len) x \<longleftrightarrow> x = d \<or> in_range (d + 1) (unat (len - 1)) x"
proof -
  have "unat len = Suc (unat (len - 1))"
    using assms by (simp add: unat_dec unat_gt_0)
  then show ?thesis by (simp only: in_range_Suc)
qed

lemma in_range_mono: "in_range p n a \<Longrightarrow> n \<le> k \<Longrightarrow> in_range p k a"
  by (simp add: in_range_def)

lemma in_range_offset: "unat k < n \<Longrightarrow> in_range p n (p + k)"
  by (simp add: in_range_def)

lemma in_rangeE:
  assumes "in_range p n a"
  obtains k where "a = p + of_nat k" "k < n"
proof
  show "a = p + of_nat (unat (a - p))" by simp
  show "unat (a - p) < n" using assms by (simp add: in_range_def)
qed

lemma in_range_nat:
  "unat p + n \<le> 4294967296 \<Longrightarrow>
     in_range p n a \<longleftrightarrow> unat p \<le> unat a \<and> unat a < unat p + n"
  using unat32_lt[of a] by (auto simp: in_range_def unat_diff32)

text \<open>Two ranges with no common address.\<close>

definition disjoint_ranges :: "addr \<Rightarrow> nat \<Rightarrow> addr \<Rightarrow> nat \<Rightarrow> bool" where
  "disjoint_ranges p n q k \<longleftrightarrow> (\<forall>a. \<not> (in_range p n a \<and> in_range q k a))"

lemma disjoint_ranges_sym: "disjoint_ranges p n q k \<longleftrightarrow> disjoint_ranges q k p n"
  by (auto simp: disjoint_ranges_def)

lemma disjoint_ranges_natI:
  assumes "unat p + n \<le> 4294967296" and "unat q + k \<le> 4294967296"
    and "unat p + n \<le> unat q \<or> unat q + k \<le> unat p"
  shows "disjoint_ranges p n q k"
  using assms by (auto simp: disjoint_ranges_def in_range_nat)

lemma disjoint_ranges_mono:
  "disjoint_ranges p n q k \<Longrightarrow> n' \<le> n \<Longrightarrow> k' \<le> k \<Longrightarrow> disjoint_ranges p n' q k'"
  unfolding disjoint_ranges_def by (blast intro: in_range_mono)

lemma disjoint_ranges_Suc:
  "disjoint_ranges p (Suc n) q (Suc k) \<Longrightarrow> disjoint_ranges (p + 1) n (q + 1) k"
  by (auto simp: disjoint_ranges_def in_range_Suc)

subsection \<open>Runs of bytes\<close>

fun store_bytes :: "memory \<Rightarrow> addr \<Rightarrow> u8 list \<Rightarrow> memory" where
  "store_bytes m p [] = m"
| "store_bytes m p (b # bs) = store_bytes (m(p := b)) (p + 1) bs"

lemma store_bytes_outside [mem_simps]:
  "\<not> in_range p (length bs) a \<Longrightarrow> store_bytes m p bs a = m a"
  by (induction bs arbitrary: m p) (auto simp: in_range_Suc)

lemma store_bytes_nth:
  assumes "length bs \<le> 4294967296" and "i < length bs"
  shows "store_bytes m p bs (p + of_nat i) = bs ! i"
  using assms
proof (induction bs arbitrary: m p i)
  case (Cons b bs)
  show ?case
  proof (cases i)
    case 0
    have "\<not> in_range (p + 1) (length bs) p"
      using Cons.prems(1) by (simp add: in_range_def unat_minus_1)
    with 0 show ?thesis by (simp add: store_bytes_outside)
  next
    case (Suc j)
    have "store_bytes (m(p := b)) (p + 1) bs (p + 1 + of_nat j) = bs ! j"
      using Cons.prems Suc by (intro Cons.IH) auto
    with Suc show ?thesis by (simp add: ac_simps)
  qed
qed simp

lemma store_bytes_index:
  assumes "s + length bs \<le> 4294967296" "i < 4294967296"
  shows "store_bytes m (p + of_nat s) bs (p + of_nat i) =
     (if s \<le> i \<and> i < s + length bs then bs ! (i - s) else m (p + of_nat i))"
proof (cases "s \<le> i \<and> i < s + length bs")
  case True
  then have "p + of_nat i = (p + of_nat s) + of_nat (i - s)" by (simp add: of_nat_diff)
  moreover have "store_bytes m (p + of_nat s) bs (p + of_nat s + of_nat (i - s)) = bs ! (i - s)"
    using True assms by (intro store_bytes_nth) auto
  ultimately show ?thesis using True by simp
next
  case False
  have "s < 4294967296 \<or> bs = []" using assms(1) by (cases bs) auto
  moreover have "\<not> in_range (p + of_nat s) (length bs) (p + of_nat i)" if "s < 4294967296"
    using False assms that by (auto simp: in_range_def unat_diff32 unat_of_nat32)
  ultimately have "store_bytes m (p + of_nat s) bs (p + of_nat i) = m (p + of_nat i)"
    by (auto simp: store_bytes_outside)
  then show ?thesis by (simp only: False if_False)
qed

text \<open>A NUL-terminated string: the bytes of \<open>s\<close> (none of them NUL), then NUL.\<close>

fun cstr :: "memory \<Rightarrow> addr \<Rightarrow> u8 list \<Rightarrow> bool" where
  "cstr m p [] \<longleftrightarrow> m p = 0"
| "cstr m p (c # s) \<longleftrightarrow> m p = c \<and> c \<noteq> 0 \<and> cstr m (p + 1) s"

lemma cstr_cong:
  "(\<And>a. in_range p (Suc (length s)) a \<Longrightarrow> m a = m' a) \<Longrightarrow> cstr m p s = cstr m' p s"
proof (induction s arbitrary: p)
  case (Cons c s)
  have "in_range p (Suc (length (c # s))) a" if "in_range (p + 1) (Suc (length s)) a" for a
    using that in_range_Suc[of p "Suc (length s)" a] by simp
  then have "cstr m (p + 1) s = cstr m' (p + 1) s" using Cons by blast
  moreover have "m p = m' p" using Cons.prems[of p] by (simp add: in_range_Suc)
  ultimately show ?case by simp
qed (simp add: in_range_Suc)

lemma cstr_upd:
  "\<not> in_range p (Suc (length s)) a \<Longrightarrow> cstr (m(a := x)) p s = cstr m p s"
  by (rule cstr_cong) auto

lemma cstr_no_nul: "cstr m p s \<Longrightarrow> 0 \<notin> set s"
  by (induction s arbitrary: p) auto

lemma cstr_unique: "cstr m p s \<Longrightarrow> cstr m p t \<Longrightarrow> s = t"
proof (induction s arbitrary: p t)
  case Nil
  then show ?case by (cases t) auto
next
  case (Cons c s)
  then show ?case by (cases t) auto
qed

lemma cstr_nth: "cstr m p s \<Longrightarrow> i < length s \<Longrightarrow> m (p + of_nat i) = s ! i"
proof (induction s arbitrary: p i)
  case (Cons c s)
  then show ?case by (cases i) (auto simp: add.assoc [symmetric])
qed simp

lemma cstr_end: "cstr m p s \<Longrightarrow> m (p + of_nat (length s)) = 0"
  by (induction s arbitrary: p) (auto simp: add.assoc [symmetric])

lemma cstr_drop: "cstr m p s \<Longrightarrow> i \<le> length s \<Longrightarrow> cstr m (p + of_nat i) (drop i s)"
proof (induction s arbitrary: p i)
  case (Cons c s)
  then show ?case by (cases i) (auto simp: add.assoc [symmetric])
qed simp

lemma cstr_length: "cstr m p s \<Longrightarrow> length s < 4294967296"
proof (rule ccontr)
  assume s: "cstr m p s" and "\<not> length s < 4294967296"
  then have l: "4294967296 \<le> length s" by simp
  then obtain i where i: "length s = 4294967296 + i" using le_Suc_ex by blast
  have "of_nat (length s) = (of_nat i :: u32)"
    unfolding i by (simp add: word_of_nat_eq_iff take_bit_eq_mod)
  then have "m (p + of_nat i) = 0" using cstr_end[OF s] by simp
  moreover have "s ! i \<in> set s" using i by (intro nth_mem) simp
  then have "s ! i \<noteq> 0" using cstr_no_nul[OF s] by metis
  then have "m (p + of_nat i) \<noteq> 0"
    using cstr_nth[OF s, of i] i by simp
  ultimately show False by simp
qed

lemma cstr_store_bytes:
  "length s < 4294967296 \<Longrightarrow> 0 \<notin> set s \<Longrightarrow> cstr (store_bytes m p (s @ [0])) p s"
proof (induction s arbitrary: m p)
  case (Cons c s)
  have "\<not> in_range (p + 1) (length (s @ [0])) p"
    using Cons.prems(1) by (simp add: in_range_def unat_minus_1)
  then show ?case using Cons by (simp add: store_bytes_outside)
qed simp

subsection \<open>32-bit words in byte memory\<close>

definition read32 :: "memory \<Rightarrow> addr \<Rightarrow> u32" where
  "read32 m a =
     ucast (m a) OR push_bit 8 (ucast (m (a + 1)))
     OR push_bit 16 (ucast (m (a + 2))) OR push_bit 24 (ucast (m (a + 3)))"

definition write32 :: "memory \<Rightarrow> addr \<Rightarrow> u32 \<Rightarrow> memory" where
  "write32 m a v =
     m(a := ucast v, a + 1 := ucast (drop_bit 8 v),
       a + 2 := ucast (drop_bit 16 v), a + 3 := ucast (drop_bit 24 v))"

definition write16 :: "memory \<Rightarrow> addr \<Rightarrow> u16 \<Rightarrow> memory" where
  "write16 m a v = m(a := ucast v, a + 1 := ucast (drop_bit 8 v))"

definition read16 :: "memory \<Rightarrow> addr \<Rightarrow> u16" where
  "read16 m a = ucast (m a) OR push_bit 8 (ucast (m (a + 1)))"

lemma bytes_of_u32:
  "(ucast (ucast v :: u8) :: u32) OR push_bit 8 (ucast (ucast (drop_bit 8 v) :: u8))
     OR push_bit 16 (ucast (ucast (drop_bit 16 v) :: u8))
     OR push_bit 24 (ucast (ucast (drop_bit 24 v) :: u8)) = v" for v :: u32
proof (rule bit_word_eqI)
  fix n
  assume "n < LENGTH(32)"
  then consider "n < 8" | "8 \<le> n" "n < 16" | "16 \<le> n" "n < 24" | "24 \<le> n" "n < 32"
    by fastforce
  then show "bit ((ucast (ucast v :: u8) :: u32)
      OR push_bit 8 (ucast (ucast (drop_bit 8 v) :: u8))
      OR push_bit 16 (ucast (ucast (drop_bit 16 v) :: u8))
      OR push_bit 24 (ucast (ucast (drop_bit 24 v) :: u8))) n = bit v n"
    by cases (auto simp: bit_simps)
qed

lemma read32_write32_same [simp, mem_simps]: "read32 (write32 m a v) a = v"
  using bytes_of_u32[of v] by (simp add: read32_def write32_def)

lemma write32_outside: "\<not> in_range a 4 x \<Longrightarrow> write32 m a v x = m x"
  by (auto simp: write32_def in_range_def)

lemma read32_cong:
  assumes "\<And>x. in_range a 4 x \<Longrightarrow> m x = m' x"
  shows "read32 m a = read32 m' a"
proof -
  have "m a = m' a" "m (a + 1) = m' (a + 1)" "m (a + 2) = m' (a + 2)" "m (a + 3) = m' (a + 3)"
    by (auto intro!: assms simp: in_range_def)
  then show ?thesis by (simp add: read32_def)
qed

lemma read32_write32_disjoint:
  "disjoint_ranges a 4 b 4 \<Longrightarrow> read32 (write32 m b v) a = read32 m a"
  by (rule read32_cong) (auto simp: disjoint_ranges_def intro: write32_outside)

text \<open>Addresses that are multiples of four name disjoint words unless equal.\<close>

abbreviation aligned4 :: "addr \<Rightarrow> bool" where
  "aligned4 a \<equiv> 4 dvd unat a"

lemma in_range4_div:
  assumes "aligned4 a"
  shows "in_range a 4 x \<longleftrightarrow> unat x div 4 = unat a div 4"
proof -
  from assms obtain k where k: "unat a = 4 * k" by (auto elim: dvdE)
  with unat32_lt[of a] have "k < 1073741824" by simp
  with k have "unat a + 4 \<le> 4294967296" by simp
  then have "in_range a 4 x \<longleftrightarrow> unat a \<le> unat x \<and> unat x < unat a + 4"
    by (rule in_range_nat)
  also have "\<dots> \<longleftrightarrow> unat x div 4 = k" unfolding k by linarith
  finally show ?thesis using k by simp
qed

lemma aligned4_disjoint:
  assumes "aligned4 a" "aligned4 b" "a \<noteq> b"
  shows "disjoint_ranges a 4 b 4"
proof -
  from assms obtain k l where "unat a = 4 * k" "unat b = 4 * l" by (auto elim!: dvdE)
  moreover have "unat a \<noteq> unat b" using assms(3) by (simp add: unat_eq_iff32)
  ultimately have "unat a div 4 \<noteq> unat b div 4" by simp
  then show ?thesis using assms(1,2) by (simp add: disjoint_ranges_def in_range4_div)
qed

lemma read32_write32_aligned [mem_simps]:
  "aligned4 a \<Longrightarrow> aligned4 b \<Longrightarrow>
     read32 (write32 m b v) a = (if a = b then v else read32 m a)"
  using read32_write32_disjoint[OF aligned4_disjoint] by auto

lemma dvd4_mod32: "4 dvd n mod 4294967296 \<longleftrightarrow> 4 dvd (n :: nat)"
  by (rule dvd_mod_iff) simp

lemma aligned4_add: "aligned4 a \<Longrightarrow> aligned4 b \<Longrightarrow> aligned4 (a + b)"
  by (simp add: unat_word_ariths dvd4_mod32)

lemma aligned4_mult4: "aligned4 (4 * k)"
  by (simp add: unat_word_ariths dvd4_mod32)

end
