(* ===== verification/Boi_Memory.thy ===== *)
theory Boi_Memory
  imports Boi_Prelude
begin

text \<open>
  The byte routines of \<^verbatim>\<open>src/src/memory/memory.c\<close> on the flat memory:
  \<^verbatim>\<open>memset\<close>, \<^verbatim>\<open>memcmp\<close> and \<^verbatim>\<open>memcpy\<close>.  Each loop is a recursive function
  whose counter is the counter of the C loop; the lemmas give each routine a
  closed form on the bytes it reads and writes.
\<close>

subsection \<open>memset\<close>

text \<open>
  \<^verbatim>\<open>for (i = 0; i < size; i++) c_ptr[i] = (char) c\<close>: the comparison is unsigned,
  \<open>i\<close> is below \<open>size\<close>, hence below \<open>2 ^ 32\<close>.
\<close>

function memset_loop :: "memory \<Rightarrow> addr \<Rightarrow> u8 \<Rightarrow> u32 \<Rightarrow> nat \<Rightarrow> memory" where
  "memset_loop m p c sz i =
     (if i < unat sz then memset_loop (m(p + of_nat i := c)) p c sz (Suc i) else m)"
  by pat_completeness auto
termination
  by (relation "measure (\<lambda>(m, p, c, sz, i). unat sz - i)") auto

declare memset_loop.simps [simp del]

definition memset :: "memory \<Rightarrow> addr \<Rightarrow> int \<Rightarrow> u32 \<Rightarrow> memory" where
  "memset m p c sz = memset_loop m p (word_of_int c) sz 0"

lemma memset_loop_read:
  "memset_loop m p c sz i a =
     (if i \<le> unat (a - p) \<and> unat (a - p) < unat sz then c else m a)"
proof (induction m p c sz i rule: memset_loop.induct)
  case (1 m p c sz i)
  show ?case
  proof (cases "i < unat sz")
    case True
    have a: "a = p + of_nat i \<longleftrightarrow> unat (a - p) = i"
      using True unat32_lt[of sz] by (intro addr_eq_offset) simp
    have "memset_loop m p c sz i a = memset_loop (m(p + of_nat i := c)) p c sz (Suc i) a"
      using True by (simp add: memset_loop.simps[of m p c sz i])
    also have "\<dots> = (if Suc i \<le> unat (a - p) \<and> unat (a - p) < unat sz then c
        else (m(p + of_nat i := c)) a)"
      by (rule 1[OF True])
    also have "\<dots> = (if i \<le> unat (a - p) \<and> unat (a - p) < unat sz then c else m a)"
      unfolding fun_upd_apply a using True by auto
    finally show ?thesis .
  next
    case False
    then show ?thesis by (auto simp: memset_loop.simps[of m p c sz i])
  qed
qed

lemma memset_read [mem_simps]:
  "memset m p c sz a = (if in_range p (unat sz) a then word_of_int c else m a)"
  by (simp add: memset_def memset_loop_read in_range_def)

subsection \<open>memcpy\<close>

text \<open>
  \<^verbatim>\<open>while (len--) *d++ = *s++\<close>: the counter is tested for being nonzero, so a
  negative \<open>len\<close> runs through the whole range of the 32-bit counter.
\<close>

function memcpy :: "memory \<Rightarrow> addr \<Rightarrow> addr \<Rightarrow> u32 \<Rightarrow> memory" where
  "memcpy m d s len =
     (if len \<noteq> 0 then memcpy (m(d := m s)) (d + 1) (s + 1) (len - 1) else m)"
  by pat_completeness auto
termination
  by (relation "measure (\<lambda>(m, d, s, len). unat len)") (auto intro: measure_unat)

declare memcpy.simps [simp del]

text \<open>On disjoint ranges the copy is byte for byte and touches nothing else.\<close>

lemma memcpy_read:
  "disjoint_ranges d (unat len) s (unat len) \<Longrightarrow>
   memcpy m d s len a = (if in_range d (unat len) a then m (s + (a - d)) else m a)"
proof (induction m d s len rule: memcpy.induct)
  case (1 m d s len)
  show ?case
  proof (cases "len = 0")
    case True
    then show ?thesis by (simp add: memcpy.simps[of m d s 0])
  next
    case False
    let ?m = "m(d := m s)"
    note step = in_range_step[OF False]
    have last: "\<not> in_range (x + 1) (unat (len - 1)) x" for x
      using unat32_lt[of len] by (simp add: in_range_def unat_dec[OF False] unat_minus_1)
    have dis: "disjoint_ranges (d + 1) (unat (len - 1)) (s + 1) (unat (len - 1))"
      using "1.prems" last unfolding disjoint_ranges_def step by blast
    have IH: "memcpy ?m (d + 1) (s + 1) (len - 1) a =
        (if in_range (d + 1) (unat (len - 1)) a then ?m (s + 1 + (a - (d + 1))) else ?m a)"
      using "1.IH"[OF False dis] .
    have "s + (a - d) \<noteq> d" if "in_range (d + 1) (unat (len - 1)) a"
    proof
      assume eq: "s + (a - d) = d"
      have "in_range d (unat len) a" using that last[of d] by (auto simp: step)
      then have "in_range s (unat len) (s + (a - d))" by (simp add: in_range_def)
      moreover have "in_range d (unat len) d" by (simp add: step)
      ultimately show False using "1.prems" eq by (auto simp: disjoint_ranges_def)
    qed
    then show ?thesis
      using IH False step[of d a] last[of d]
      by (auto simp: memcpy.simps[of m d s len] algebra_simps)
  qed
qed

subsection \<open>memcmp\<close>

text \<open>
  \<^verbatim>\<open>while (count-- > 0)\<close> compares plain \<^verbatim>\<open>char\<close>s, which are signed on i386, and
  returns \<open>-1\<close> or \<open>1\<close> at the first difference.
\<close>

fun memcmp_loop :: "memory \<Rightarrow> addr \<Rightarrow> addr \<Rightarrow> nat \<Rightarrow> int" where
  "memcmp_loop m c1 c2 0 = 0"
| "memcmp_loop m c1 c2 (Suc n) =
     (if m c1 \<noteq> m c2 then (if sint (m c1) < sint (m c2) then - 1 else 1)
      else memcmp_loop m (c1 + 1) (c2 + 1) n)"

definition memcmp :: "memory \<Rightarrow> addr \<Rightarrow> addr \<Rightarrow> int \<Rightarrow> int" where
  "memcmp m s1 s2 count = memcmp_loop m s1 s2 (nat count)"

lemma memcmp_loop_0_iff:
  "memcmp_loop m c1 c2 n = 0 \<longleftrightarrow> (\<forall>i<n. m (c1 + of_nat i) = m (c2 + of_nat i))"
proof (induction n arbitrary: c1 c2)
  case (Suc n)
  have "(\<forall>i<Suc n. m (c1 + of_nat i) = m (c2 + of_nat i)) \<longleftrightarrow>
      m c1 = m c2 \<and> (\<forall>i<n. m (c1 + 1 + of_nat i) = m (c2 + 1 + of_nat i))"
    by (auto simp: less_Suc_eq_0_disj algebra_simps)
  with Suc show ?case by simp
qed simp

lemma memcmp_0_iff:
  "memcmp m s1 s2 count = 0 \<longleftrightarrow> (\<forall>i<nat count. m (s1 + of_nat i) = m (s2 + of_nat i))"
  by (simp add: memcmp_def memcmp_loop_0_iff)

lemma memcmp_range: "memcmp m s1 s2 count \<in> {- 1, 0, 1}"
proof -
  have "memcmp_loop m c1 c2 n \<in> {- 1, 0, 1}" for c1 c2 n
    by (induction n arbitrary: c1 c2) auto
  then show ?thesis unfolding memcmp_def .
qed

end
