(* ===== verification/Boi_String.thy ===== *)
theory Boi_String
  imports Boi_Memory
begin

text \<open>
  The string routines of \<^verbatim>\<open>src/src/string/string.c\<close>, reading and writing the
  flat memory.  A scan that only stops at a NUL byte is a partial function
  (\<open>None\<close>: it does not return); the lemmas show that on a NUL-terminated string
  (\<open>cstr\<close>) every routine returns, and what it returns.
\<close>

subsection \<open>Lengths\<close>

partial_function (option) strlen_loop :: "memory \<Rightarrow> addr \<Rightarrow> u32 \<Rightarrow> u32 option" where
  "strlen_loop m str len =
     (if m (str + len) \<noteq> 0 then strlen_loop m str (len + 1) else Some len)"

definition strlen :: "memory \<Rightarrow> addr \<Rightarrow> u32 option" where
  "strlen m str = strlen_loop m str 0"

lemma strlen_loop_cstr:
  "cstr m (str + len) s \<Longrightarrow> strlen_loop m str len = Some (len + of_nat (length s))"
proof (induction s arbitrary: len)
  case Nil
  then show ?case by (simp add: strlen_loop.simps [of m str len])
next
  case (Cons c s)
  then have "strlen_loop m str (len + 1) = Some (len + 1 + of_nat (length s))"
    by (intro Cons.IH) (simp add: add.assoc)
  with Cons.prems show ?case by (simp add: strlen_loop.simps [of m str len] ac_simps)
qed

lemma strlen_cstr: "cstr m str s \<Longrightarrow> strlen m str = Some (of_nat (length s))"
  using strlen_loop_cstr[of m str 0 s] by (simp add: strlen_def)

function strnlen_loop :: "memory \<Rightarrow> addr \<Rightarrow> u32 \<Rightarrow> nat \<Rightarrow> nat" where
  "strnlen_loop m str mx i =
     (if i < unat mx then (if m (str + of_nat i) = 0 then i else strnlen_loop m str mx (Suc i))
      else i)"
  by pat_completeness auto
termination
  by (relation "measure (\<lambda>(m, str, mx, i). unat mx - i)") auto

declare strnlen_loop.simps [simp del]

definition strnlen :: "memory \<Rightarrow> addr \<Rightarrow> u32 \<Rightarrow> u32" where
  "strnlen m str mx = of_nat (strnlen_loop m str mx 0)"

lemma strnlen_loop_cstr:
  "cstr m (str + of_nat i) s \<Longrightarrow> i \<le> unat mx \<Longrightarrow>
     strnlen_loop m str mx i = min (unat mx) (i + length s)"
proof (induction s arbitrary: i)
  case Nil
  then show ?case by (simp add: strnlen_loop.simps [of m str mx i])
next
  case (Cons c s)
  show ?case
  proof (cases "i < unat mx")
    case True
    have "cstr m (str + of_nat (Suc i)) s" using Cons.prems(1) by (simp add: ac_simps)
    with Cons.IH[of "Suc i"] True Cons.prems(1) show ?thesis
      by (simp add: strnlen_loop.simps [of m str mx i])
  next
    case False
    with Cons.prems(2) have "i = unat mx" by simp
    then show ?thesis by (simp add: strnlen_loop.simps [of m str mx "unat mx"])
  qed
qed

lemma strnlen_cstr: "cstr m str s \<Longrightarrow> strnlen m str mx = of_nat (min (unat mx) (length s))"
  using strnlen_loop_cstr[of m str 0 s mx] by (simp add: strnlen_def)

partial_function (option) strnlen_terminator_loop ::
    "memory \<Rightarrow> addr \<Rightarrow> u8 \<Rightarrow> u32 \<Rightarrow> u32 option" where
  "strnlen_terminator_loop m str terminator len =
     (if m (str + len) \<noteq> 0 \<and> m (str + len) \<noteq> terminator
      then strnlen_terminator_loop m str terminator (len + 1) else Some len)"

definition strnlen_terminator :: "memory \<Rightarrow> addr \<Rightarrow> u32 \<Rightarrow> u8 \<Rightarrow> u32 option" where
  "strnlen_terminator m str mx terminator =
     map_option (\<lambda>len. if len > mx then mx else len)
       (strnlen_terminator_loop m str terminator 0)"

lemma strnlen_terminator_loop_cstr:
  "cstr m (str + len) s \<Longrightarrow> strnlen_terminator_loop m str t len =
     Some (len + of_nat (length (takeWhile (\<lambda>c. c \<noteq> t) s)))"
proof (induction s arbitrary: len)
  case Nil
  then show ?case by (simp add: strnlen_terminator_loop.simps [of m str t len])
next
  case (Cons c s)
  then have "strnlen_terminator_loop m str t (len + 1) =
      Some (len + 1 + of_nat (length (takeWhile (\<lambda>c. c \<noteq> t) s)))"
    by (intro Cons.IH) (simp add: add.assoc)
  with Cons.prems show ?case
    by (auto simp: strnlen_terminator_loop.simps [of m str t len] ac_simps)
qed

subsection \<open>Character classes\<close>

text \<open>\<^verbatim>\<open>char\<close> is signed: the comparisons read the byte as two's complement.\<close>

definition isdigit :: "u8 \<Rightarrow> bool" where
  "isdigit c \<longleftrightarrow> sint c \<ge> 48 \<and> sint c \<le> 57"

definition tonumericdigit :: "u8 \<Rightarrow> int" where
  "tonumericdigit c = sint c - 48"

definition tolower :: "u8 \<Rightarrow> u8" where
  "tolower c = (if sint c \<ge> 65 \<and> sint c \<le> 90 then c + 32 else c)"

lemma tonumericdigit_range: "isdigit c \<Longrightarrow> 0 \<le> tonumericdigit c \<and> tonumericdigit c \<le> 9"
  by (simp add: isdigit_def tonumericdigit_def)

subsection \<open>Copies\<close>

partial_function (option) strcpy_loop :: "memory \<Rightarrow> addr \<Rightarrow> addr \<Rightarrow> memory option" where
  "strcpy_loop m dest src =
     (if m src \<noteq> 0 then strcpy_loop (m(dest := m src)) (dest + 1) (src + 1)
      else Some (m(dest := 0)))"

definition strcpy :: "memory \<Rightarrow> addr \<Rightarrow> addr \<Rightarrow> memory option" where
  "strcpy m dest src = strcpy_loop m dest src"

lemma strcpy_loop_cstr:
  "cstr m src s \<Longrightarrow> disjoint_ranges dest (Suc (length s)) src (Suc (length s)) \<Longrightarrow>
     strcpy_loop m dest src = Some (store_bytes m dest (s @ [0]))"
proof (induction s arbitrary: m dest src)
  case Nil
  then have "strcpy_loop m dest src = Some (store_bytes m dest ([] @ [0]))"
    by (simp add: strcpy_loop.simps [of m dest src])
  then show ?case .
next
  case (Cons c s)
  have d: "disjoint_ranges (dest + 1) (Suc (length s)) (src + 1) (Suc (length s))"
    using Cons.prems(2) by (auto intro: disjoint_ranges_Suc)
  have "\<not> in_range (src + 1) (Suc (length s)) dest"
    using Cons.prems(2) by (auto simp: disjoint_ranges_def in_range_Suc)
  then have "cstr (m(dest := m src)) (src + 1) s"
    using Cons.prems(1) by (simp add: cstr_upd)
  with Cons.IH[OF _ d] Cons.prems(1) show ?case
    by (simp add: strcpy_loop.simps [of m dest src])
qed

text \<open>\<^verbatim>\<open>strncpy\<close> copies at most \<open>count - 1\<close> bytes and always writes a NUL.\<close>

function strncpy_loop :: "memory \<Rightarrow> addr \<Rightarrow> addr \<Rightarrow> int \<Rightarrow> nat \<Rightarrow> memory" where
  "strncpy_loop m dest src count i =
     (if int i < count - 1 \<and> m (src + of_nat i) \<noteq> 0
      then strncpy_loop (m(dest + of_nat i := m (src + of_nat i))) dest src count (Suc i)
      else m(dest + of_nat i := 0))"
  by pat_completeness auto
termination
  by (relation "measure (\<lambda>(m, dest, src, count, i). nat (count - 1) - i)") auto

declare strncpy_loop.simps [simp del]

definition strncpy :: "memory \<Rightarrow> addr \<Rightarrow> addr \<Rightarrow> int \<Rightarrow> memory" where
  "strncpy m dest src count = strncpy_loop m dest src count 0"

lemma strncpy_loop_cstr:
  assumes "cstr m (src + of_nat i) s"
    and "disjoint_ranges (dest + of_nat i) (Suc (length (take (nat (count - 1) - i) s)))
      (src + of_nat i) (Suc (length s))"
  shows "strncpy_loop m dest src count i =
     store_bytes m (dest + of_nat i) (take (nat (count - 1) - i) s @ [0])"
  using assms
proof (induction s arbitrary: m i)
  case Nil
  then show ?case by (simp add: strncpy_loop.simps [of m dest src count i])
next
  case (Cons c s)
  show ?case
  proof (cases "int i < count - 1")
    case False
    then show ?thesis by (simp add: strncpy_loop.simps [of m dest src count i])
  next
    case True
    let ?k = "nat (count - 1) - Suc i"
    have k: "nat (count - 1) - i = Suc ?k" using True by linarith
    have d: "disjoint_ranges (dest + of_nat (Suc i)) (Suc (length (take ?k s)))
        (src + of_nat (Suc i)) (Suc (length s))"
      using Cons.prems(2) disjoint_ranges_Suc[of "dest + of_nat i" _ "src + of_nat i"]
      by (simp add: k ac_simps)
    have "\<not> in_range (src + of_nat (Suc i)) (Suc (length s)) (dest + of_nat i)"
      using Cons.prems(2)
        in_range_Suc[of "src + of_nat i" "Suc (length s)" "dest + of_nat i"]
      by (auto simp: disjoint_ranges_def in_range_Suc ac_simps)
    then have "cstr (m(dest + of_nat i := c)) (src + of_nat (Suc i)) s"
      using Cons.prems(1) by (simp add: cstr_upd ac_simps)
    with Cons.IH[OF _ d] Cons.prems(1) True show ?thesis
      by (simp add: strncpy_loop.simps [of m dest src count i] k ac_simps)
  qed
qed

lemma strncpy_store:
  assumes "cstr m src s"
    and "disjoint_ranges dest (Suc (length (take (nat (count - 1)) s))) src (Suc (length s))"
  shows "strncpy m dest src count = store_bytes m dest (take (nat (count - 1)) s @ [0])"
  using strncpy_loop_cstr[of m src 0 s dest count] assms by (simp add: strncpy_def)

subsection \<open>Comparisons\<close>

fun istrncmp_loop :: "memory \<Rightarrow> addr \<Rightarrow> addr \<Rightarrow> nat \<Rightarrow> int" where
  "istrncmp_loop m str1 str2 0 = 0"
| "istrncmp_loop m str1 str2 (Suc n) =
     (let u1 = m str1; u2 = m str2 in
      if u1 \<noteq> u2 \<and> tolower u1 \<noteq> tolower u2 then uint u1 - uint u2
      else if u1 = 0 then 0
      else istrncmp_loop m (str1 + 1) (str2 + 1) n)"

definition istrncmp :: "memory \<Rightarrow> addr \<Rightarrow> addr \<Rightarrow> int \<Rightarrow> int" where
  "istrncmp m str1 str2 n = istrncmp_loop m str1 str2 (nat n)"

fun strncmp_loop :: "memory \<Rightarrow> addr \<Rightarrow> addr \<Rightarrow> nat \<Rightarrow> int" where
  "strncmp_loop m str1 str2 0 = 0"
| "strncmp_loop m str1 str2 (Suc n) =
     (let u1 = m str1; u2 = m str2 in
      if u1 \<noteq> u2 then uint u1 - uint u2
      else if u1 = 0 then 0
      else strncmp_loop m (str1 + 1) (str2 + 1) n)"

definition strncmp :: "memory \<Rightarrow> addr \<Rightarrow> addr \<Rightarrow> int \<Rightarrow> int" where
  "strncmp m str1 str2 n = strncmp_loop m str1 str2 (nat n)"

lemma tolower_0_iff: "tolower c = 0 \<longleftrightarrow> c = 0"
proof -
  have "c + 32 \<noteq> 0" if "65 \<le> sint c" "sint c \<le> 90"
  proof
    assume "c + 32 = 0"
    then have "c = - 32" by (simp add: eq_neg_iff_add_eq_0)
    with that show False by simp
  qed
  then show ?thesis by (auto simp: tolower_def)
qed

lemma tolower_0 [simp]: "tolower 0 = 0"
  by (simp add: tolower_0_iff)

lemma uint8_eq_iff: "uint a = uint b \<longleftrightarrow> a = b" for a b :: u8
  by (simp add: word_uint_eq_iff)

lemma uint8_0_iff: "uint a = 0 \<longleftrightarrow> a = 0" "0 = uint a \<longleftrightarrow> a = 0" for a :: u8
  by (auto simp: uint_0_iff dest: sym)

lemma strncmp_loop_0_iff:
  "cstr m p s \<Longrightarrow> cstr m q t \<Longrightarrow> strncmp_loop m p q n = 0 \<longleftrightarrow> take n s = take n t"
proof (induction n arbitrary: p q s t)
  case (Suc n)
  then show ?case
    by (cases s; cases t) (auto simp: Let_def uint8_eq_iff uint8_0_iff)
qed simp

lemma istrncmp_loop_0_iff:
  "cstr m p s \<Longrightarrow> cstr m q t \<Longrightarrow>
     istrncmp_loop m p q n = 0 \<longleftrightarrow> map tolower (take n s) = map tolower (take n t)"
proof (induction n arbitrary: p q s t)
  case (Suc n)
  then show ?case
    by (cases s; cases t) (auto simp: Let_def tolower_0_iff uint8_eq_iff uint8_0_iff eq_commute [of 0])
qed simp

lemma strncmp_0_iff:
  "cstr m p s \<Longrightarrow> cstr m q t \<Longrightarrow> strncmp m p q n = 0 \<longleftrightarrow> take (nat n) s = take (nat n) t"
  by (simp add: strncmp_def strncmp_loop_0_iff)

lemma istrncmp_0_iff:
  "cstr m p s \<Longrightarrow> cstr m q t \<Longrightarrow> istrncmp m p q n = 0 \<longleftrightarrow>
     map tolower (take (nat n) s) = map tolower (take (nat n) t)"
  by (simp add: istrncmp_def istrncmp_loop_0_iff)

end
