(* ===== verification/Boi_Heap.thy ===== *)
theory Boi_Heap
  imports Boi_String
begin

text \<open>
  The block allocator of \<^verbatim>\<open>src/src/memory/heap/heap.c\<close>.  The table of one byte per 4096-byte block lies in the flat
  memory at \<open>entries\<close>, so a write past its end is a write to whatever follows.
  The abstract view of a heap is the map from the first block of every live
  allocation to its number of blocks (\<open>heap_inv\<close>); allocation and release are
  shown to refine map update and map deletion.
\<close>

subsection \<open>Data\<close>

record heap_table =
  entries :: addr
  total_entries :: u32

record heap =
  table :: heap_table
  start_address :: addr

abbreviation BOIOS_HEAP_BLOCK_SIZE :: u32 where
  "BOIOS_HEAP_BLOCK_SIZE \<equiv> 4096"

abbreviation HEAP_BLOCK_TABLE_ENTRY_FREE :: u8 where
  "HEAP_BLOCK_TABLE_ENTRY_FREE \<equiv> 0"

abbreviation HEAP_BLOCK_TABLE_ENTRY_TAKEN :: u8 where
  "HEAP_BLOCK_TABLE_ENTRY_TAKEN \<equiv> 1"

abbreviation HEAP_BLOCK_HAS_NEXT :: u8 where
  "HEAP_BLOCK_HAS_NEXT \<equiv> 128"

abbreviation HEAP_BLOCK_IS_FIRST :: u8 where
  "HEAP_BLOCK_IS_FIRST \<equiv> 64"

subsection \<open>Creation\<close>

definition heap_validate_alignment :: "addr \<Rightarrow> bool" where
  "heap_validate_alignment ptr \<longleftrightarrow> ptr mod BOIOS_HEAP_BLOCK_SIZE = 0"

definition heap_validate_table :: "addr \<Rightarrow> addr \<Rightarrow> heap_table \<Rightarrow> kerror + unit" where
  "heap_validate_table ptr end_of_heap tbl =
     (let table_size = end_of_heap - ptr;
          total_blocks = table_size div BOIOS_HEAP_BLOCK_SIZE
      in if total_entries tbl \<noteq> total_blocks then Inl EINVARG else Inr ())"

text \<open>On a failed alignment check the heap structure is not written at all.\<close>

definition heap_create ::
    "memory \<Rightarrow> heap \<Rightarrow> addr \<Rightarrow> addr \<Rightarrow> heap_table \<Rightarrow> (kerror + unit) \<times> memory \<times> heap" where
  "heap_create m h ptr end_of_heap tbl =
     (if \<not> heap_validate_alignment ptr \<or> \<not> heap_validate_alignment end_of_heap
      then (Inl EINVARG, m, h)
      else let h' = \<lparr>table = tbl, start_address = ptr\<rparr> in
        case heap_validate_table ptr end_of_heap tbl of
          Inl e \<Rightarrow> (Inl e, m, h')
        | Inr _ \<Rightarrow> (Inr (), memset m (entries tbl) 0 (total_entries tbl), h'))"

subsection \<open>Allocation\<close>

definition heap_get_entry_type :: "u8 \<Rightarrow> u8" where
  "heap_get_entry_type entry = entry AND 15"

definition heap_align_value_to_upper :: "u32 \<Rightarrow> u32" where
  "heap_align_value_to_upper val =
     (if val mod BOIOS_HEAP_BLOCK_SIZE = 0 then val
      else (val - val mod BOIOS_HEAP_BLOCK_SIZE) + BOIOS_HEAP_BLOCK_SIZE)"

text \<open>
  The first-fit scan.  \<open>current_block\<close> is compared with the unsigned
  \<open>total_blocks\<close> after conversion, hence a word; \<open>block_start\<close> is \<open>- 1\<close> while no
  run is open.
\<close>

function heap_start_block_loop ::
    "memory \<Rightarrow> heap_table \<Rightarrow> u32 \<Rightarrow> nat \<Rightarrow> u32 \<Rightarrow> int \<Rightarrow> int" where
  "heap_start_block_loop m tbl total_blocks i current_block block_start =
     (if i < unat (total_entries tbl) then
        if heap_get_entry_type (m (entries tbl + of_nat i)) \<noteq> HEAP_BLOCK_TABLE_ENTRY_FREE
        then heap_start_block_loop m tbl total_blocks (Suc i) 0 (- 1)
        else let block_start' = (if block_start = - 1 then int i else block_start);
                 current_block' = current_block + 1
             in if current_block' = total_blocks then block_start'
                else heap_start_block_loop m tbl total_blocks (Suc i) current_block' block_start'
      else block_start)"
  by pat_completeness auto
termination
  by (relation "measure (\<lambda>(m, tbl, n, i, c, b). unat (total_entries tbl) - i)") auto

declare heap_start_block_loop.simps [simp del]

definition heap_get_start_block :: "memory \<Rightarrow> heap \<Rightarrow> u32 \<Rightarrow> kerror + int" where
  "heap_get_start_block m h total_blocks =
     (let block_start = heap_start_block_loop m (table h) total_blocks 0 0 (- 1)
      in if block_start = - 1 then Inl ENOMEM else Inr block_start)"

definition heap_block_to_address :: "heap \<Rightarrow> int \<Rightarrow> addr" where
  "heap_block_to_address h start_block = start_address h + word_of_int (start_block * 4096)"

text \<open>
  The marking loop.  \<open>end_block\<close> and the index are 32-bit \<open>int\<close>s: the sum is
  taken at 32 bits, so for a large \<open>total_blocks\<close> it wraps to a negative number
  and the loop does not run (what gcc emits for an overflow C leaves
  undefined); an index compared with an \<open>end_block\<close> of at most \<open>INT_MAX\<close> stays
  in range up to its last increment.
\<close>

function heap_mark_taken_loop :: "memory \<Rightarrow> addr \<Rightarrow> int \<Rightarrow> int \<Rightarrow> u8 \<Rightarrow> memory" where
  "heap_mark_taken_loop m ents end_block i entry =
     (if i \<le> end_block then
        heap_mark_taken_loop (m(ents + word_of_int i := entry)) ents end_block (i + 1)
          (if i \<noteq> end_block - 1 then HEAP_BLOCK_TABLE_ENTRY_TAKEN OR HEAP_BLOCK_HAS_NEXT
           else HEAP_BLOCK_TABLE_ENTRY_TAKEN)
      else m)"
  by pat_completeness auto
termination
  by (relation "measure (\<lambda>(m, ents, end_block, i, entry). nat (end_block + 1 - i))") auto

declare heap_mark_taken_loop.simps [simp del]

definition heap_mark_blocks_taken :: "memory \<Rightarrow> heap \<Rightarrow> int \<Rightarrow> int \<Rightarrow> memory" where
  "heap_mark_blocks_taken m h start_block total_blocks =
     (let end_block = sint ((word_of_int start_block + word_of_int total_blocks) - 1 :: u32);
          entry = HEAP_BLOCK_TABLE_ENTRY_TAKEN OR HEAP_BLOCK_IS_FIRST;
          entry' = (if total_blocks > 1 then entry OR HEAP_BLOCK_HAS_NEXT else entry)
      in heap_mark_taken_loop m (entries (table h)) end_block start_block entry')"

definition heap_malloc_blocks :: "memory \<Rightarrow> heap \<Rightarrow> u32 \<Rightarrow> addr \<times> memory" where
  "heap_malloc_blocks m h total_blocks =
     (case heap_get_start_block m h total_blocks of
        Inl _ \<Rightarrow> (0, m)
      | Inr start_block \<Rightarrow>
          (heap_block_to_address h start_block,
           heap_mark_blocks_taken m h start_block (sint total_blocks)))"

definition heap_malloc :: "memory \<Rightarrow> heap \<Rightarrow> u32 \<Rightarrow> addr \<times> memory" where
  "heap_malloc m h sz =
     (let aligned_size = heap_align_value_to_upper sz;
          total_blocks = aligned_size div BOIOS_HEAP_BLOCK_SIZE
      in heap_malloc_blocks m h total_blocks)"

subsection \<open>Release\<close>

definition heap_address_to_block :: "heap \<Rightarrow> addr \<Rightarrow> int" where
  "heap_address_to_block h address = sint (address - start_address h) sdiv 4096"

function heap_mark_free_loop :: "memory \<Rightarrow> heap_table \<Rightarrow> int \<Rightarrow> memory" where
  "heap_mark_free_loop m tbl i =
     (if i < sint (total_entries tbl) then
        let entry = m (entries tbl + word_of_int i);
            m' = m(entries tbl + word_of_int i := HEAP_BLOCK_TABLE_ENTRY_FREE)
        in if entry AND HEAP_BLOCK_HAS_NEXT = 0 then m' else heap_mark_free_loop m' tbl (i + 1)
      else m)"
  by pat_completeness auto
termination
  by (relation "measure (\<lambda>(m, tbl, i). nat (sint (total_entries tbl) - i))") auto

declare heap_mark_free_loop.simps [simp del]

definition heap_mark_blocks_free :: "memory \<Rightarrow> heap \<Rightarrow> int \<Rightarrow> memory" where
  "heap_mark_blocks_free m h starting_block = heap_mark_free_loop m (table h) starting_block"

definition heap_free :: "memory \<Rightarrow> heap \<Rightarrow> addr \<Rightarrow> memory" where
  "heap_free m h ptr = heap_mark_blocks_free m h (heap_address_to_block h ptr)"

subsection \<open>The first-fit scan\<close>

abbreviation heap_blocks :: "heap \<Rightarrow> nat" where
  "heap_blocks h \<equiv> unat (total_entries (table h))"

definition block_free :: "memory \<Rightarrow> heap \<Rightarrow> nat \<Rightarrow> bool" where
  "block_free m h i \<longleftrightarrow>
     heap_get_entry_type (m (entries (table h) + of_nat i)) = HEAP_BLOCK_TABLE_ENTRY_FREE"

definition free_run :: "memory \<Rightarrow> heap \<Rightarrow> nat \<Rightarrow> nat \<Rightarrow> bool" where
  "free_run m h s n \<longleftrightarrow> s + n \<le> heap_blocks h \<and> (\<forall>k<n. block_free m h (s + k))"

text \<open>What the first-fit scan for \<open>n\<close> blocks returns: the first run that is long
  enough or, when there is none, the start of the free blocks at the end of the table.\<close>

definition first_fit :: "memory \<Rightarrow> heap \<Rightarrow> nat \<Rightarrow> int \<Rightarrow> bool" where
  "first_fit m h n r \<longleftrightarrow>
     (\<exists>s. r = int s \<and> free_run m h s n \<and> (\<forall>u < s. \<not> free_run m h u n))"

definition trailing_run :: "memory \<Rightarrow> heap \<Rightarrow> int \<Rightarrow> bool" where
  "trailing_run m h r \<longleftrightarrow>
     (\<exists>s < heap_blocks h. r = int s \<and> (\<forall>k. s \<le> k \<and> k < heap_blocks h \<longrightarrow> block_free m h k))"

definition no_fit :: "memory \<Rightarrow> heap \<Rightarrow> nat \<Rightarrow> int \<Rightarrow> bool" where
  "no_fit m h n r \<longleftrightarrow> (\<forall>s. \<not> free_run m h s n) \<and>
     (if heap_blocks h \<noteq> 0 \<and> block_free m h (heap_blocks h - 1) then trailing_run m h r
      else r = - 1)"

lemma not_free_run:
  assumes "\<not> block_free m h i" "s \<le> i" "i < s + n"
  shows "\<not> free_run m h s n"
proof
  assume "free_run m h s n"
  moreover have "i - s < n" using assms(2,3) by linarith
  ultimately have "block_free m h (s + (i - s))" unfolding free_run_def by blast
  with assms show False by simp
qed

lemma heap_start_block_loop_end:
  "\<not> i < heap_blocks h \<Longrightarrow> heap_start_block_loop m (table h) tot i c b = b"
  by (simp add: heap_start_block_loop.simps [of m "table h" tot i c b])

lemma heap_start_block_loop_spec:
  assumes "0 < n" "n < 4294967296" "c < n" "c \<le> i" "i \<le> heap_blocks h"
    and "\<And>k. i - c \<le> k \<Longrightarrow> k < i \<Longrightarrow> block_free m h k"
    and "c = 0 \<Longrightarrow> i = 0 \<or> \<not> block_free m h (i - 1)"
    and "\<And>s. s < i - c \<Longrightarrow> \<not> free_run m h s n"
  shows "first_fit m h n (heap_start_block_loop m (table h) (of_nat n) i (of_nat c)
        (if c = 0 then - 1 else int (i - c)))
     \<or> no_fit m h n (heap_start_block_loop m (table h) (of_nat n) i (of_nat c)
        (if c = 0 then - 1 else int (i - c)))"
  using assms
proof (induction "heap_blocks h - i" arbitrary: i c)
  case 0
  then have i: "i = heap_blocks h" by simp
  have none: "\<not> free_run m h s n" for s
  proof (cases "s < i - c")
    case False
    then have "\<not> s + n \<le> heap_blocks h" using 0(4,5) i by linarith
    then show ?thesis by (simp add: free_run_def)
  qed (use "0.prems"(8) in blast)
  have "no_fit m h n (if c = 0 then - 1 else int (i - c))"
  proof (cases "c = 0")
    case True
    then show ?thesis using none "0.prems"(7) i by (auto simp: no_fit_def)
  next
    case False
    then have "trailing_run m h (int (i - c))"
      unfolding trailing_run_def using i "0.prems"(4,6)
      by (intro exI[of _ "i - c"]) auto
    moreover have "block_free m h (heap_blocks h - 1)"
      using False i "0.prems"(4) by (intro "0.prems"(6)) auto
    moreover have "heap_blocks h \<noteq> 0" using False i "0.prems"(4) by simp
    ultimately show ?thesis using none False by (simp add: no_fit_def)
  qed
  then show ?case using i by (simp only: heap_start_block_loop_end less_irrefl simp_thms)
next
  case (Suc d)
  then have i: "i < heap_blocks h" by linarith
  let ?b = "if c = 0 then - 1 else int (i - c)"
  show ?case
  proof (cases "block_free m h i")
    case False
    have step: "heap_start_block_loop m (table h) (of_nat n) i (of_nat c) ?b =
        heap_start_block_loop m (table h) (of_nat n) (Suc i) (of_nat 0) (- 1)"
      using False i
      by (simp add: heap_start_block_loop.simps [of m "table h" _ i] block_free_def)
    have "\<not> free_run m h s n" if "s < Suc i" for s
    proof (cases "s < i - c")
      case False
      with that \<open>\<not> block_free m h i\<close> Suc.prems(3,4) show ?thesis
        by (intro not_free_run[of m h i]) linarith+
    qed (use Suc.prems(8) in blast)
    then show ?thesis
      unfolding step
      using Suc.hyps(1)[of "Suc i" 0] Suc.hyps(2) Suc.prems(1,2) i False by simp
  next
    case True
    have b': "(if ?b = - 1 then int i else ?b) = int (i - c)" using Suc.prems(4) by auto
    have c': "of_nat c + 1 = (of_nat n :: u32) \<longleftrightarrow> Suc c = n"
      using of_nat_eq_iff32[of "Suc c" n] Suc.prems(2,3) by (simp add: ac_simps)
    have step: "heap_start_block_loop m (table h) (of_nat n) i (of_nat c) ?b =
        (if Suc c = n then int (i - c)
         else heap_start_block_loop m (table h) (of_nat n) (Suc i) (of_nat (Suc c)) (int (i - c)))"
      using True i
      by (simp only: heap_start_block_loop.simps [of m "table h" _ i] block_free_def b' c' Let_def)
        (simp add: ac_simps)
    show ?thesis
    proof (cases "Suc c = n")
      case fin: True
      have "free_run m h (i - c) n"
        unfolding free_run_def using fin i Suc.prems(4,6) True
        by (auto simp: less_Suc_eq)
      then have "first_fit m h n (int (i - c))"
        unfolding first_fit_def using Suc.prems(8) by blast
      then show ?thesis unfolding step using fin by simp
    next
      case False
      have "block_free m h k" if "Suc i - Suc c \<le> k" "k < Suc i" for k
        using that Suc.prems(6) True by (cases "k = i") auto
      then show ?thesis
        unfolding step
        using Suc.hyps(1)[of "Suc i" "Suc c"] Suc.hyps(2) Suc.prems i False by simp
    qed
  qed
qed

lemma heap_get_start_block_spec:
  assumes "0 < n" "n < 4294967296"
  shows "(\<exists>r. heap_get_start_block m h (of_nat n) = Inr r \<and> first_fit m h n r)
    \<or> (\<exists>r. heap_get_start_block m h (of_nat n) = (if r = - 1 then Inl ENOMEM else Inr r) \<and>
         no_fit m h n r)"
proof -
  have "first_fit m h n (- 1) \<Longrightarrow> False" by (simp add: first_fit_def)
  then show ?thesis
    using heap_start_block_loop_spec[of n 0 0 h m] assms
    by (auto simp: heap_get_start_block_def Let_def)
qed

subsection \<open>Abstraction: the map of live allocations\<close>

text \<open>The table byte of block \<open>k\<close> of an allocation of \<open>n\<close> blocks.\<close>

definition chunk_byte :: "nat \<Rightarrow> nat \<Rightarrow> u8" where
  "chunk_byte n k = (if k = 0 then HEAP_BLOCK_TABLE_ENTRY_TAKEN OR HEAP_BLOCK_IS_FIRST
       else HEAP_BLOCK_TABLE_ENTRY_TAKEN)
     OR (if Suc k < n then HEAP_BLOCK_HAS_NEXT else 0)"

definition chunk_bytes :: "nat \<Rightarrow> u8 list" where
  "chunk_bytes n = map (chunk_byte n) [0..<n]"

definition covered :: "(nat \<rightharpoonup> nat) \<Rightarrow> nat \<Rightarrow> bool" where
  "covered L i \<longleftrightarrow> (\<exists>s n. L s = Some n \<and> s \<le> i \<and> i < s + n)"

definition heap_inv :: "memory \<Rightarrow> heap \<Rightarrow> (nat \<rightharpoonup> nat) \<Rightarrow> bool" where
  "heap_inv m h L \<longleftrightarrow>
     (\<forall>s n. L s = Some n \<longrightarrow> 0 < n \<and> s + n \<le> heap_blocks h \<and>
        (\<forall>k<n. m (entries (table h) + of_nat (s + k)) = chunk_byte n k)) \<and>
     (\<forall>s n t k. L s = Some n \<longrightarrow> L t = Some k \<longrightarrow> s \<noteq> t \<longrightarrow> s + n \<le> t \<or> t + k \<le> s) \<and>
     (\<forall>i<heap_blocks h. \<not> covered L i \<longrightarrow> m (entries (table h) + of_nat i) = 0)"

text \<open>The table and the data pool lie in memory without wrapping and without overlap.\<close>

definition heap_layout :: "heap \<Rightarrow> bool" where
  "heap_layout h \<longleftrightarrow>
     unat (entries (table h)) + heap_blocks h \<le> 4294967296 \<and>
     heap_blocks h < 524288 \<and> 0 < unat (start_address h) \<and>
     4096 dvd unat (start_address h) \<and>
     unat (start_address h) + heap_blocks h * 4096 \<le> 4294967296 \<and>
     disjoint_ranges (entries (table h)) (heap_blocks h) (start_address h) (heap_blocks h * 4096)"

definition block_addr :: "heap \<Rightarrow> nat \<Rightarrow> addr" where
  "block_addr h s = start_address h + of_nat (s * 4096)"

lemma length_chunk_bytes [simp]: "length (chunk_bytes n) = n"
  by (simp add: chunk_bytes_def)

lemma chunk_byte_type: "heap_get_entry_type (chunk_byte n k) \<noteq> 0"
  by (simp add: chunk_byte_def heap_get_entry_type_def)

lemma chunk_byte_next: "chunk_byte n k AND HEAP_BLOCK_HAS_NEXT = 0 \<longleftrightarrow> \<not> Suc k < n"
  by (simp add: chunk_byte_def)

subsection \<open>Marking blocks\<close>

lemma heap_mark_taken_loop_end:
  "e < i \<Longrightarrow> heap_mark_taken_loop m ents e i b = m"
  by (simp add: heap_mark_taken_loop.simps [of m ents e i b])

lemma heap_mark_taken_loop_store:
  assumes "k < n"
  shows "heap_mark_taken_loop m ents (int (s + n) - 1) (int (s + k)) (chunk_byte n k) =
     store_bytes m (ents + of_nat (s + k)) (map (chunk_byte n) [k..<n])"
  using assms
proof (induction "n - k" arbitrary: k m)
  case (Suc d)
  let ?m = "m(ents + of_nat (s + k) := chunk_byte n k)"
  have upt: "[k..<n] = k # [Suc k..<n]" using Suc.prems by (simp add: upt_conv_Cons)
  have step: "heap_mark_taken_loop m ents (int (s + n) - 1) (int (s + k)) (chunk_byte n k) =
      heap_mark_taken_loop ?m ents (int (s + n) - 1) (int (s + Suc k))
        (if Suc (Suc k) \<noteq> n then 129 else 1)"
    using Suc.prems
    by (subst heap_mark_taken_loop.simps) (auto simp: algebra_simps)
  show ?case
  proof (cases "Suc k < n")
    case True
    have "(if Suc (Suc k) \<noteq> n then 129 else 1) = chunk_byte n (Suc k)"
      using True by (auto simp: chunk_byte_def)
    then have "heap_mark_taken_loop m ents (int (s + n) - 1) (int (s + k)) (chunk_byte n k) =
        store_bytes ?m (ents + of_nat (s + Suc k)) (map (chunk_byte n) [Suc k..<n])"
      using Suc.hyps(1)[of "Suc k" ?m] Suc.hyps(2) True unfolding step by simp
    then show ?thesis unfolding upt by (simp add: ac_simps)
  next
    case False
    then have "n = Suc k" using Suc.prems by simp
    then show ?thesis unfolding step
      by (simp add: heap_mark_taken_loop_end upt)
  qed
qed simp

lemma end_block_sint:
  assumes "0 < n" "s + n < 2147483648"
  shows "sint ((word_of_int (int s) + word_of_int (int n)) - 1 :: u32) = int (s + n) - 1"
proof -
  have "(word_of_int (int s) + word_of_int (int n)) - 1 = (of_nat (s + n - 1) :: u32)"
    using assms by (simp add: of_nat_diff)
  then show ?thesis using assms sint_of_nat32[of "s + n - 1"] by (simp add: of_nat_diff)
qed

lemma heap_mark_blocks_taken_store:
  assumes "0 < n" "s + n < 2147483648"
  shows "heap_mark_blocks_taken m h (int s) (int n) =
     store_bytes m (entries (table h) + of_nat s) (chunk_bytes n)"
proof -
  have e: "(if int n > 1 then (HEAP_BLOCK_TABLE_ENTRY_TAKEN OR HEAP_BLOCK_IS_FIRST) OR
      HEAP_BLOCK_HAS_NEXT else HEAP_BLOCK_TABLE_ENTRY_TAKEN OR HEAP_BLOCK_IS_FIRST) =
      chunk_byte n 0"
    using assms(1) by (cases "Suc 0 < n") (simp_all add: chunk_byte_def)
  show ?thesis
    unfolding heap_mark_blocks_taken_def Let_def end_block_sint[OF assms] e
    using heap_mark_taken_loop_store[of 0 n m "entries (table h)" s] assms(1)
    by (simp add: chunk_bytes_def)
qed

lemma heap_mark_free_loop_store:
  assumes "k < n" "int (s + n) \<le> sint (total_entries tbl)" "s + n < 4294967296"
    and "\<And>j. k \<le> j \<Longrightarrow> j < n \<Longrightarrow> m (entries tbl + of_nat (s + j)) = chunk_byte n j"
  shows "heap_mark_free_loop m tbl (int (s + k)) =
     store_bytes m (entries tbl + of_nat (s + k)) (replicate (n - k) 0)"
  using assms
proof (induction "n - k" arbitrary: k m)
  case (Suc d)
  let ?m = "m(entries tbl + of_nat (s + k) := 0)"
  have nk: "n - k = Suc (n - Suc k)" using Suc.prems(1) by simp
  have step: "heap_mark_free_loop m tbl (int (s + k)) =
      (if Suc k < n then heap_mark_free_loop ?m tbl (int (s + Suc k)) else ?m)"
    using Suc.prems(1,2) Suc.prems(4)[of k]
    by (subst heap_mark_free_loop.simps) (auto simp: chunk_byte_next Let_def algebra_simps)
  show ?case
  proof (cases "Suc k < n")
    case True
    have "?m (entries tbl + of_nat (s + j)) = chunk_byte n j" if "Suc k \<le> j" "j < n" for j
      using that Suc.prems(3) Suc.prems(4)[of j] of_nat_eq_iff32[of "s + j" "s + k"]
      by auto
    with Suc.hyps(1)[of "Suc k" ?m] Suc.hyps(2) Suc.prems(2,3) True
    have "heap_mark_free_loop m tbl (int (s + k)) =
        store_bytes ?m (entries tbl + of_nat (s + Suc k)) (replicate (n - Suc k) 0)"
      unfolding step by simp
    then show ?thesis unfolding nk by (simp add: ac_simps)
  next
    case False
    then show ?thesis unfolding step nk using Suc.prems(1) by simp
  qed
qed simp


subsection \<open>Allocation and release refine the map of live allocations\<close>

lemma heap_invD_chunk:
  "heap_inv m h L \<Longrightarrow> L s = Some n \<Longrightarrow> 0 < n \<and> s + n \<le> heap_blocks h"
  by (simp add: heap_inv_def)

lemma heap_invD_byte:
  "heap_inv m h L \<Longrightarrow> L s = Some n \<Longrightarrow> k < n \<Longrightarrow>
     m (entries (table h) + of_nat (s + k)) = chunk_byte n k"
  unfolding heap_inv_def by blast

lemma heap_invD_disjoint:
  "heap_inv m h L \<Longrightarrow> L s = Some n \<Longrightarrow> L t = Some k \<Longrightarrow> s \<noteq> t \<Longrightarrow> s + n \<le> t \<or> t + k \<le> s"
  unfolding heap_inv_def by blast

lemma heap_invD_free:
  "heap_inv m h L \<Longrightarrow> i < heap_blocks h \<Longrightarrow> \<not> covered L i \<Longrightarrow>
     m (entries (table h) + of_nat i) = 0"
  unfolding heap_inv_def by blast

lemma block_free_iff:
  assumes "heap_inv m h L" "i < heap_blocks h"
  shows "block_free m h i \<longleftrightarrow> \<not> covered L i"
proof
  assume free: "block_free m h i"
  show "\<not> covered L i"
  proof
    assume "covered L i"
    then obtain s n where sn: "L s = Some n" "s \<le> i" "i < s + n" by (auto simp: covered_def)
    then have "m (entries (table h) + of_nat (s + (i - s))) = chunk_byte n (i - s)"
      by (intro heap_invD_byte[OF assms(1)]) auto
    with sn free chunk_byte_type[of n "i - s"] show False by (simp add: block_free_def)
  qed
next
  assume "\<not> covered L i"
  then have "m (entries (table h) + of_nat i) = 0" by (rule heap_invD_free[OF assms])
  then show "block_free m h i" by (simp add: block_free_def heap_get_entry_type_def)
qed

lemma free_run_iff:
  "heap_inv m h L \<Longrightarrow>
     free_run m h s n \<longleftrightarrow> s + n \<le> heap_blocks h \<and> (\<forall>k<n. \<not> covered L (s + k))"
  unfolding free_run_def by (auto simp: block_free_iff)

lemma heap_inv_take:
  assumes inv: "heap_inv m h L" and lay: "heap_layout h"
    and run: "free_run m h s n" and n: "0 < n"
  shows "heap_inv (store_bytes m (entries (table h) + of_nat s) (chunk_bytes n)) h (L(s \<mapsto> n))"
    (is "heap_inv ?m h ?L")
proof -
  have T: "heap_blocks h < 524288" using lay by (simp add: heap_layout_def)
  have sn: "s + n \<le> heap_blocks h" and nc: "\<And>k. k < n \<Longrightarrow> \<not> covered L (s + k)"
    using run free_run_iff[OF inv] by auto
  have rd: "?m (entries (table h) + of_nat i) =
      (if s \<le> i \<and> i < s + n then chunk_byte n (i - s) else m (entries (table h) + of_nat i))"
    if "i < heap_blocks h" for i
    using that T sn store_bytes_index[of s "chunk_bytes n" i m "entries (table h)"]
    by (auto simp: chunk_bytes_def)
  have apart: "t + k \<le> s \<or> s + n \<le> t" if "L t = Some k" for t k
  proof (rule ccontr)
    assume c: "\<not> ?thesis"
    define j where "j = max s t"
    have "s \<le> j" "j < s + n" "t \<le> j" "j < t + k"
      using c heap_invD_chunk[OF inv that] n by (auto simp: j_def)
    then have "covered L (s + (j - s))" "j - s < n" using that by (auto simp: covered_def)
    then show False using nc by blast
  qed
  have s_new: "L s = None"
  proof (rule ccontr)
    assume "L s \<noteq> None"
    then obtain k where "L s = Some k" by blast
    then show False using apart[of s k] heap_invD_chunk[OF inv] n by fastforce
  qed
  have A: "0 < k \<and> t + k \<le> heap_blocks h \<and>
      (\<forall>j<k. ?m (entries (table h) + of_nat (t + j)) = chunk_byte k j)" if "?L t = Some k" for t k
  proof (cases "t = s")
    case True
    then have "?m (entries (table h) + of_nat (t + j)) = chunk_byte k j" if "j < k" for j
      using that \<open>?L t = Some k\<close> sn rd[of "s + j"] by simp
    then show ?thesis using True that n sn by auto
  next
    case False
    then have L: "L t = Some k" using that by simp
    note b = heap_invD_chunk[OF inv L] heap_invD_byte[OF inv L]
    have "?m (entries (table h) + of_nat (t + j)) = chunk_byte k j" if "j < k" for j
      using b that rd[of "t + j"] apart[OF L] by auto
    with b show ?thesis by auto
  qed
  have B: "a + x \<le> b \<or> b + y \<le> a" if "?L a = Some x" "?L b = Some y" "a \<noteq> b" for a x b y
    using that apart heap_invD_disjoint[OF inv, of a x b y] by (auto split: if_splits)
  have C: "?m (entries (table h) + of_nat i) = 0"
    if i: "i < heap_blocks h" and "\<not> covered ?L i" for i
  proof -
    have "\<not> (s \<le> i \<and> i < s + n)" using that(2) by (auto simp: covered_def)
    moreover have "\<not> covered L i"
    proof
      assume "covered L i"
      then obtain t k where tk: "L t = Some k" "t \<le> i" "i < t + k" by (auto simp: covered_def)
      then have "?L t = Some k" using s_new by auto
      with tk that(2) show False by (auto simp: covered_def)
    qed
    ultimately show ?thesis using rd[OF i] heap_invD_free[OF inv i] by auto
  qed
  show ?thesis unfolding heap_inv_def using A B C by blast
qed

lemma heap_inv_release:
  assumes inv: "heap_inv m h L" and lay: "heap_layout h" and L: "L s = Some n"
  shows "heap_inv (store_bytes m (entries (table h) + of_nat s) (replicate n 0)) h (L(s := None))"
    (is "heap_inv ?m h ?L")
proof -
  have T: "heap_blocks h < 524288" using lay by (simp add: heap_layout_def)
  note sn = heap_invD_chunk[OF inv L]
  have rd: "?m (entries (table h) + of_nat i) =
      (if s \<le> i \<and> i < s + n then 0 else m (entries (table h) + of_nat i))"
    if "i < heap_blocks h" for i
    using that T sn store_bytes_index[of s "replicate n 0" i m "entries (table h)"] by auto
  have A: "0 < k \<and> t + k \<le> heap_blocks h \<and>
      (\<forall>j<k. ?m (entries (table h) + of_nat (t + j)) = chunk_byte k j)" if "?L t = Some k" for t k
  proof -
    have Lt: "L t = Some k" and ne: "t \<noteq> s" using that by (auto split: if_splits)
    note b = heap_invD_chunk[OF inv Lt] heap_invD_byte[OF inv Lt]
    have "?m (entries (table h) + of_nat (t + j)) = chunk_byte k j" if "j < k" for j
      using b that rd[of "t + j"] heap_invD_disjoint[OF inv Lt L ne] by auto
    with b show ?thesis by auto
  qed
  have B: "a + x \<le> b \<or> b + y \<le> a" if "?L a = Some x" "?L b = Some y" "a \<noteq> b" for a x b y
    using that heap_invD_disjoint[OF inv, of a x b y] by (auto split: if_splits)
  have C: "?m (entries (table h) + of_nat i) = 0"
    if i: "i < heap_blocks h" and "\<not> covered ?L i" for i
  proof (cases "s \<le> i \<and> i < s + n")
    case False
    have "\<not> covered L i"
    proof
      assume "covered L i"
      then obtain t k where tk: "L t = Some k" "t \<le> i" "i < t + k" by (auto simp: covered_def)
      with False L have "?L t = Some k" by (cases "t = s") auto
      with tk that(2) show False by (auto simp: covered_def)
    qed
    then show ?thesis using rd[OF i] heap_invD_free[OF inv i] False by auto
  qed (use rd[OF i] in simp)
  show ?thesis unfolding heap_inv_def using A B C by blast
qed

lemma heap_malloc_blocks_fit:
  assumes inv: "heap_inv m h L" and lay: "heap_layout h" and n: "0 < n"
    and fit: "free_run m h s0 n"
  obtains s where "free_run m h s n" "\<And>u. u < s \<Longrightarrow> \<not> free_run m h u n"
    "heap_malloc_blocks m h (of_nat n) =
       (block_addr h s, store_bytes m (entries (table h) + of_nat s) (chunk_bytes n))"
proof -
  have T: "heap_blocks h < 524288" using lay by (simp add: heap_layout_def)
  then have nb: "n < 524288" using fit by (simp add: free_run_def)
  have "\<not> no_fit m h n r" for r using fit by (auto simp: no_fit_def)
  then obtain s where s: "heap_get_start_block m h (of_nat n) = Inr (int s)" "free_run m h s n"
      "\<And>u. u < s \<Longrightarrow> \<not> free_run m h u n"
    using heap_get_start_block_spec[of n m h] n nb by (auto simp: first_fit_def)
  have "sint (of_nat n :: u32) = int n"
    using nb by (simp add: sint_of_nat32)
  moreover have "heap_block_to_address h (int s) = block_addr h s"
    by (simp add: heap_block_to_address_def block_addr_def)
  ultimately have "heap_malloc_blocks m h (of_nat n) =
      (block_addr h s, store_bytes m (entries (table h) + of_nat s) (chunk_bytes n))"
    using s(1) n nb s(2) T
    by (simp add: heap_malloc_blocks_def heap_mark_blocks_taken_store free_run_def)
  with s that show ?thesis by blast
qed

lemma heap_free_chunk:
  assumes inv: "heap_inv m h L" and lay: "heap_layout h" and L: "L s = Some n"
  shows "heap_free m h (block_addr h s) =
     store_bytes m (entries (table h) + of_nat s) (replicate n 0)"
proof -
  have T: "heap_blocks h < 524288" using lay by (simp add: heap_layout_def)
  note sn = heap_invD_chunk[OF inv L]
  have s: "s * 4096 < 2147483648" using sn T by simp
  have "sint (of_nat (s * 4096) :: u32) = int (s * 4096)"
    using s by (rule sint_of_nat32)
  then have blk: "heap_address_to_block h (block_addr h s) = int s"
    by (simp add: heap_address_to_block_def block_addr_def sdiv_nonneg)
  have tot: "sint (total_entries (table h)) = int (heap_blocks h)"
    using T by (intro sint_eq_unat) simp
  have lim: "int (s + n) \<le> sint (total_entries (table h))"
    unfolding tot using sn by linarith
  have "heap_mark_free_loop m (table h) (int (s + 0)) =
      store_bytes m (entries (table h) + of_nat (s + 0)) (replicate (n - 0) 0)"
    using sn T lim heap_invD_byte[OF inv L] by (intro heap_mark_free_loop_store) auto
  then show ?thesis by (simp add: heap_free_def heap_mark_blocks_free_def blk)
qed

end
