(* ===== verification/Boi_Kheap.thy ===== *)
theory Boi_Kheap
  imports Boi_Heap
begin

text \<open>
  The kernel heap of \<^verbatim>\<open>src/src/memory/heap/kheap.c\<close>: the one global heap, its
  set-up and the operations the rest of the kernel allocates with.  The locale
  \<open>page_allocator\<close> states what the clients rely on; the kernel heap is shown to
  provide it.
\<close>

subsection \<open>The kernel heap\<close>

text \<open>
  Kernel memory: the flat memory and the global \<^verbatim>\<open>kernel_heap\<close>.  The kernel state
  of later components extends this record.
\<close>

record kmem =
  mem :: memory
  kernel_heap :: heap

text \<open>\<^verbatim>\<open>kheap_init\<close> also returns the response it would report on the terminal.\<close>

definition kheap_init :: "'z kmem_scheme \<Rightarrow> (kerror + unit) \<times> 'z kmem_scheme" where
  "kheap_init st =
     (let total_table_entries = 104857600 div BOIOS_HEAP_BLOCK_SIZE;
          tbl = \<lparr>entries = 0x7E00, total_entries = total_table_entries\<rparr>;
          end_of_heap = 0x01000000 + 104857600;
          (response, m, h) = heap_create (mem st) (kernel_heap st) 0x01000000 end_of_heap tbl
      in (response, st\<lparr>mem := m, kernel_heap := h\<rparr>))"

definition kmalloc :: "'z kmem_scheme \<Rightarrow> u32 \<Rightarrow> addr \<times> 'z kmem_scheme" where
  "kmalloc st sz =
     (let (ptr, m) = heap_malloc (mem st) (kernel_heap st) sz in (ptr, st\<lparr>mem := m\<rparr>))"

definition kzalloc :: "'z kmem_scheme \<Rightarrow> u32 \<Rightarrow> addr \<times> 'z kmem_scheme" where
  "kzalloc st sz =
     (let (ptr, st') = kmalloc st sz
      in if ptr = 0 then (0, st') else (ptr, st'\<lparr>mem := memset (mem st') ptr 0 sz\<rparr>))"

definition kfree :: "'z kmem_scheme \<Rightarrow> addr \<Rightarrow> 'z kmem_scheme" where
  "kfree st ptr = st\<lparr>mem := heap_free (mem st) (kernel_heap st) ptr\<rparr>"

subsection \<open>Sizes and regions\<close>

definition blocks_for :: "u32 \<Rightarrow> nat" where
  "blocks_for sz = (unat sz + 4095) div 4096"

text \<open>Rounding up is exact up to the last block boundary of the 32-bit range.\<close>

lemma heap_align_blocks:
  assumes "unat sz \<le> 4294963200"
  shows "heap_align_value_to_upper sz div BOIOS_HEAP_BLOCK_SIZE = of_nat (blocks_for sz)"
proof -
  define q where "q = unat sz div 4096"
  define r where "r = unat sz mod 4096"
  have sz: "unat sz = q * 4096 + r" "r < 4096" by (auto simp: q_def r_def)
  have mod: "unat (sz mod 4096) = r" by (simp add: unat_mod r_def)
  show ?thesis
  proof (cases "r = 0")
    case True
    then have "sz mod 4096 = 0" using mod by (simp add: unat_eq_0)
    moreover have "blocks_for sz = q" using sz True by (simp add: blocks_for_def)
    moreover have "sz div 4096 = of_nat q" by (simp add: word_arith_nat_div q_def)
    ultimately show ?thesis by (simp add: heap_align_value_to_upper_def)
  next
    case False
    then have "sz mod 4096 \<noteq> 0" using mod unat_0 by metis
    moreover have "unat (sz - sz mod 4096 + 4096) = (q + 1) * 4096"
    proof -
      have "unat (sz - sz mod 4096) = q * 4096"
        using sz mod by (simp add: unat_diff32)
      moreover have "q < 1048575" using assms sz False by linarith
      then have "q * 4096 + 4096 \<le> 4294963200" by simp
      ultimately show ?thesis using unat_add_no_wrap[of "sz - sz mod 4096" 4096] by simp
    qed
    then have "(sz - sz mod 4096 + 4096) div 4096 = of_nat (q + 1)"
      by (simp add: word_arith_nat_div)
    moreover have "blocks_for sz = q + 1" using sz False by (simp add: blocks_for_def)
    ultimately show ?thesis by (simp add: heap_align_value_to_upper_def)
  qed
qed

lemma blocks_for_bounds:
  "0 < unat sz \<Longrightarrow> 0 < blocks_for sz"
  "unat sz \<le> blocks_for sz * 4096"
  by (auto simp: blocks_for_def)

definition table_byte :: "heap \<Rightarrow> addr \<Rightarrow> bool" where
  "table_byte h a \<longleftrightarrow> in_range (entries (table h)) (heap_blocks h) a"

lemma table_byteI:
  assumes "i < heap_blocks h" "heap_layout h"
  shows "table_byte h (entries (table h) + of_nat i)"
  using assms by (auto simp: table_byte_def in_range_def heap_layout_def unat_of_nat32)

lemma table_range:
  assumes "heap_layout h" "s + n \<le> heap_blocks h"
    and "in_range (entries (table h) + of_nat s) n a"
  shows "table_byte h a"
proof -
  obtain k where "a = entries (table h) + of_nat s + of_nat k" "k < n"
    using assms(3) by (rule in_rangeE)
  then have "a = entries (table h) + of_nat (s + k)" "s + k < heap_blocks h"
    using assms(2) by auto
  then show ?thesis using table_byteI assms(1) by metis
qed

lemma heap_inv_cong:
  assumes "heap_layout h" and "\<And>a. table_byte h a \<Longrightarrow> m a = m' a"
  shows "heap_inv m h L \<longleftrightarrow> heap_inv m' h L"
proof -
  have "m (entries (table h) + of_nat i) = m' (entries (table h) + of_nat i)"
    if "i < heap_blocks h" for i
    using that assms by (auto intro: table_byteI)
  then show ?thesis
    unfolding heap_inv_def by (smt (verit) add_less_cancel_left order_less_le_trans)
qed

lemma block_region:
  assumes "heap_layout h" "s + n \<le> heap_blocks h"
  shows "unat (block_addr h s) = unat (start_address h) + s * 4096 \<or> n = 0"
    and "unat (start_address h) + s * 4096 + n * 4096 \<le> 4294967296"
proof -
  have b: "unat (start_address h) + heap_blocks h * 4096 \<le> 4294967296"
    using assms(1) by (simp add: heap_layout_def)
  show "unat (start_address h) + s * 4096 + n * 4096 \<le> 4294967296" using b assms(2) by linarith
  have "unat (block_addr h s) = unat (start_address h) + s * 4096" if "n \<noteq> 0"
  proof -
    have "unat (start_address h) + s * 4096 < 4294967296" using b assms(2) that by linarith
    moreover from this have "unat (of_nat (s * 4096) :: u32) = s * 4096"
      by (intro unat_of_nat32) simp
    ultimately show ?thesis
      unfolding block_addr_def using unat_add_no_wrap[of "start_address h" "of_nat (s * 4096)"]
      by (simp only:)
  qed
  then show "unat (block_addr h s) = unat (start_address h) + s * 4096 \<or> n = 0" by blast
qed

lemma block_not_table:
  assumes lay: "heap_layout h" and sn: "s + n \<le> heap_blocks h"
    and a: "in_range (block_addr h s) (n * 4096) a"
  shows "\<not> table_byte h a"
proof -
  have n: "n \<noteq> 0" using a by (cases n) auto
  have "in_range (start_address h) (heap_blocks h * 4096) a"
  proof -
    have p: "unat (start_address h) + heap_blocks h * 4096 \<le> 4294967296"
      using lay by (simp add: heap_layout_def)
    have "in_range (block_addr h s) (n * 4096) a \<longleftrightarrow>
        unat (block_addr h s) \<le> unat a \<and> unat a < unat (block_addr h s) + n * 4096"
      using block_region[OF lay sn] n by (intro in_range_nat) auto
    then have "unat (start_address h) + s * 4096 \<le> unat a"
        "unat a < unat (start_address h) + s * 4096 + n * 4096"
      using a block_region(1)[OF lay sn] n by auto
    then show ?thesis using sn by (subst in_range_nat[OF p]) linarith
  qed
  then show ?thesis using lay by (auto simp: heap_layout_def disjoint_ranges_def table_byte_def)
qed


lemma block_addr_nonzero: "heap_layout h \<Longrightarrow> s < heap_blocks h \<Longrightarrow> block_addr h s \<noteq> 0"
  using block_region(1)[of h s 1] by (auto simp: heap_layout_def)

lemma block_addr_aligned:
  assumes "heap_layout h" "s < heap_blocks h"
  shows "4096 dvd unat (block_addr h s)"
proof -
  have "unat (block_addr h s) = unat (start_address h) + s * 4096"
    using block_region(1)[of h s 1] assms by simp
  then show ?thesis using assms(1) by (simp add: heap_layout_def)
qed

lemma blocks_disjoint:
  assumes "heap_layout h" "s + n \<le> heap_blocks h" "t + k \<le> heap_blocks h"
    and "s + n \<le> t \<or> t + k \<le> s"
  shows "disjoint_ranges (block_addr h s) (n * 4096) (block_addr h t) (k * 4096)"
proof (cases "n = 0 \<or> k = 0")
  case False
  then have "unat (block_addr h s) = unat (start_address h) + s * 4096"
      "unat (block_addr h t) = unat (start_address h) + t * 4096"
    using block_region(1) assms(1-3) by blast+
  then show ?thesis
    using block_region(2)[OF assms(1,2)] block_region(2)[OF assms(1,3)] assms(4)
    by (intro disjoint_ranges_natI) auto
qed (auto simp: disjoint_ranges_def)

subsection \<open>The kernel heap in use\<close>

definition kheap_ok :: "'z kmem_scheme \<Rightarrow> (nat \<rightharpoonup> nat) \<Rightarrow> bool" where
  "kheap_ok st L \<longleftrightarrow> heap_layout (kernel_heap st) \<and> heap_inv (mem st) (kernel_heap st) L"

lemma kheap_ok_mem:
  assumes "kheap_ok st L" and "\<And>a. table_byte (kernel_heap st) a \<Longrightarrow> m a = mem st a"
  shows "kheap_ok (st\<lparr>mem := m\<rparr>) L"
  using assms heap_inv_cong[of "kernel_heap st" m "mem st" L] by (simp add: kheap_ok_def)

lemma kmalloc_fit:
  assumes ok: "kheap_ok st L" and sz: "0 < unat sz" "unat sz \<le> 4294963200"
    and fit: "free_run (mem st) (kernel_heap st) s0 (blocks_for sz)"
  obtains s where "free_run (mem st) (kernel_heap st) s (blocks_for sz)"
    "\<And>u. u < s \<Longrightarrow> \<not> free_run (mem st) (kernel_heap st) u (blocks_for sz)"
    "kmalloc st sz = (block_addr (kernel_heap st) s,
       st\<lparr>mem := store_bytes (mem st) (entries (table (kernel_heap st)) + of_nat s)
         (chunk_bytes (blocks_for sz))\<rparr>)"
proof -
  have "heap_malloc (mem st) (kernel_heap st) sz =
      heap_malloc_blocks (mem st) (kernel_heap st) (of_nat (blocks_for sz))"
    using heap_align_blocks[OF sz(2)] by (simp add: heap_malloc_def Let_def)
  moreover obtain s where "free_run (mem st) (kernel_heap st) s (blocks_for sz)"
    "\<And>u. u < s \<Longrightarrow> \<not> free_run (mem st) (kernel_heap st) u (blocks_for sz)"
    "heap_malloc_blocks (mem st) (kernel_heap st) (of_nat (blocks_for sz)) =
       (block_addr (kernel_heap st) s, store_bytes (mem st)
         (entries (table (kernel_heap st)) + of_nat s) (chunk_bytes (blocks_for sz)))"
    using heap_malloc_blocks_fit[of "mem st" "kernel_heap st" L "blocks_for sz" s0]
      ok blocks_for_bounds(1)[OF sz(1)] fit by (auto simp: kheap_ok_def)
  ultimately show ?thesis using that by (simp add: kmalloc_def)
qed

text \<open>
  \<^verbatim>\<open>kzalloc\<close> with room for the request: the first fitting run becomes a live
  allocation, its first \<open>sz\<close> bytes are zero, and outside the table no other byte
  of memory changes.
\<close>

lemma kzalloc_fit:
  assumes ok: "kheap_ok st L" and sz: "0 < unat sz" "unat sz \<le> 4294963200"
    and fit: "free_run (mem st) (kernel_heap st) s0 (blocks_for sz)"
    and call: "kzalloc st sz = (p, st')"
  obtains s where "p = block_addr (kernel_heap st) s" "p \<noteq> 0"
    "free_run (mem st) (kernel_heap st) s (blocks_for sz)"
    "\<And>u. u < s \<Longrightarrow> \<not> free_run (mem st) (kernel_heap st) u (blocks_for sz)"
    "kheap_ok st' (L(s \<mapsto> blocks_for sz))"
    "\<And>a. \<not> table_byte (kernel_heap st) a \<Longrightarrow>
       mem st' a = (if in_range p (unat sz) a then 0 else mem st a)"
    "st' = st\<lparr>mem := mem st'\<rparr>"
proof -
  let ?h = "kernel_heap st" and ?n = "blocks_for sz"
  have lay: "heap_layout ?h" and inv: "heap_inv (mem st) ?h L" using ok by (auto simp: kheap_ok_def)
  obtain s where s: "free_run (mem st) ?h s ?n" "\<And>u. u < s \<Longrightarrow> \<not> free_run (mem st) ?h u ?n"
    and k: "kmalloc st sz = (block_addr ?h s,
       st\<lparr>mem := store_bytes (mem st) (entries (table ?h) + of_nat s) (chunk_bytes ?n)\<rparr>)"
    using kmalloc_fit[OF ok sz fit] by blast
  let ?m = "store_bytes (mem st) (entries (table ?h) + of_nat s) (chunk_bytes ?n)"
  have n: "0 < ?n" using sz(1) by (rule blocks_for_bounds)
  have sn: "s + ?n \<le> heap_blocks ?h" using s(1) by (simp add: free_run_def)
  have nz: "block_addr ?h s \<noteq> 0" using lay sn n by (intro block_addr_nonzero) auto
  have eqs: "p = block_addr ?h s" "st' = st\<lparr>mem := memset ?m (block_addr ?h s) 0 sz\<rparr>"
    using call k nz by (auto simp: kzalloc_def)
  have tab: "\<not> in_range p (unat sz) a" if "table_byte ?h a" for a
    using that block_not_table[OF lay sn, of a] in_range_mono[OF _ blocks_for_bounds(2)]
    by (auto simp: eqs(1))
  have "heap_inv ?m ?h (L(s \<mapsto> ?n))" by (rule heap_inv_take[OF inv lay s(1) n])
  then have "heap_inv (mem st') ?h (L(s \<mapsto> ?n))"
    using tab by (subst heap_inv_cong[OF lay, of _ ?m]) (auto simp: eqs memset_read)
  then have ok': "kheap_ok st' (L(s \<mapsto> ?n))" using lay by (simp add: kheap_ok_def eqs(2))
  have "\<not> in_range (entries (table ?h) + of_nat s) (length (chunk_bytes ?n)) a"
    if "\<not> table_byte ?h a" for a
    using that table_range[OF lay sn] by auto
  then have rd: "mem st' a = (if in_range p (unat sz) a then 0 else mem st a)"
    if "\<not> table_byte ?h a" for a
    using that by (simp add: eqs memset_read store_bytes_outside)
  show ?thesis using that[of s] s nz ok' rd eqs by auto
qed

lemma kfree_live:
  assumes ok: "kheap_ok st L" and L: "L s = Some n"
  shows "kheap_ok (kfree st (block_addr (kernel_heap st) s)) (L(s := None))"
    and "\<not> table_byte (kernel_heap st) a \<Longrightarrow>
      mem (kfree st (block_addr (kernel_heap st) s)) a = mem st a"
proof -
  let ?h = "kernel_heap st"
  have lay: "heap_layout ?h" and inv: "heap_inv (mem st) ?h L" using ok by (auto simp: kheap_ok_def)
  note f = heap_free_chunk[OF inv lay L] and r = heap_inv_release[OF inv lay L]
  show "kheap_ok (kfree st (block_addr ?h s)) (L(s := None))"
    using r lay by (simp add: kheap_ok_def kfree_def f)
  assume a: "\<not> table_byte ?h a"
  have "\<not> in_range (entries (table ?h) + of_nat s) (length (replicate n (0 :: u8))) a"
    using a table_range[OF lay, of s n a] heap_invD_chunk[OF inv L] by auto
  then show "mem (kfree st (block_addr ?h s)) a = mem st a"
    by (simp add: kfree_def f store_bytes_outside)
qed

subsection \<open>Free blocks\<close>

definition avail :: "'z kmem_scheme \<Rightarrow> nat" where
  "avail st =
     length (filter (block_free (mem st) (kernel_heap st)) [0..<heap_blocks (kernel_heap st)])"

lemma avail_card:
  assumes "kheap_ok st L"
  shows "avail st = card {i. i < heap_blocks (kernel_heap st) \<and> \<not> covered L i}"
proof -
  let ?f = "block_free (mem st) (kernel_heap st)" and ?T = "heap_blocks (kernel_heap st)"
  have "avail st = card (set (filter ?f [0..<?T]))"
    unfolding avail_def by (subst distinct_card) auto
  also have "set (filter ?f [0..<?T]) = {i. i < ?T \<and> \<not> covered L i}"
    using assms block_free_iff by (auto simp: kheap_ok_def)
  finally show ?thesis .
qed

lemma covered_upd:
  "L s = None \<Longrightarrow> covered (L(s \<mapsto> n)) i \<longleftrightarrow> covered L i \<or> (s \<le> i \<and> i < s + n)"
  unfolding covered_def by (metis fun_upd_other fun_upd_same option.inject option.distinct(1))

lemma covered_del:
  assumes "heap_inv m h L" "L s = Some n"
  shows "covered L i \<longleftrightarrow> covered (L(s := None)) i \<or> (s \<le> i \<and> i < s + n)"
  using covered_upd[of "L(s := None)" s n i] assms(2) by (simp add: map_upd_triv)

lemma not_covered_None:
  assumes "heap_inv m h L" "\<not> covered L s"
  shows "L s = None"
proof (rule ccontr)
  assume "L s \<noteq> None"
  then obtain n where "L s = Some n" by blast
  then show False using assms heap_invD_chunk[OF assms(1)] by (fastforce simp: covered_def)
qed

lemma card_blocks_upd:
  assumes "L s = None" "s + n \<le> T" "\<And>k. k < n \<Longrightarrow> \<not> covered L (s + k)"
  shows "card {i. i < T \<and> \<not> covered L i} = card {i. i < T \<and> \<not> covered (L(s \<mapsto> n)) i} + n"
proof -
  have nc: "\<not> covered L i" if "s \<le> i" "i < s + n" for i
    using assms(3)[of "i - s"] that by simp
  have "{i. i < T \<and> \<not> covered L i} = {i. i < T \<and> \<not> covered (L(s \<mapsto> n)) i} \<union> {s..<s + n}"
    using assms(2) nc by (auto simp: covered_upd[of L s n, OF assms(1)])
  moreover have "{i. i < T \<and> \<not> covered (L(s \<mapsto> n)) i} \<inter> {s..<s + n} = {}"
    by (auto simp: covered_upd[of L s n, OF assms(1)])
  ultimately show ?thesis by (simp add: card_Un_disjoint)
qed

lemma free_run_1_iff_avail:
  "(\<exists>s. free_run (mem st) (kernel_heap st) s 1) \<longleftrightarrow> 0 < avail st"
  unfolding avail_def free_run_def
  by (auto simp: length_greater_0_conv filter_empty_conv Suc_le_eq)

subsection \<open>Live regions by address\<close>

definition region_map :: "heap \<Rightarrow> (nat \<rightharpoonup> nat) \<Rightarrow> (addr \<rightharpoonup> nat)" where
  "region_map h L a =
     (let d = unat (a - start_address h) in
      if d mod 4096 = 0 then map_option (\<lambda>n. n * 4096) (L (d div 4096)) else None)"

definition live_regions :: "'z kmem_scheme \<Rightarrow> (addr \<rightharpoonup> nat) \<Rightarrow> bool" where
  "live_regions st A \<longleftrightarrow> (\<exists>L. kheap_ok st L \<and> A = region_map (kernel_heap st) L)"

lemma unat_block_offset:
  "heap_layout h \<Longrightarrow> s < heap_blocks h \<Longrightarrow> unat (block_addr h s - start_address h) = s * 4096"
proof -
  assume "heap_layout h" "s < heap_blocks h"
  then have "s * 4096 < 4294967296" by (simp add: heap_layout_def)
  then have "unat (of_nat (s * 4096) :: u32) = s * 4096" by (rule unat_of_nat32)
  then show ?thesis unfolding block_addr_def by (simp only: add_diff_cancel_left')
qed

lemma region_map_block:
  "heap_layout h \<Longrightarrow> s < heap_blocks h \<Longrightarrow>
     region_map h L (block_addr h s) = map_option (\<lambda>n. n * 4096) (L s)"
  by (simp add: region_map_def unat_block_offset Let_def)

lemma region_mapE:
  assumes "region_map h L a = Some x"
  obtains s n where "a = block_addr h s" "L s = Some n" "x = n * 4096"
proof -
  define d where "d = unat (a - start_address h)"
  from assms have d: "d mod 4096 = 0" "map_option (\<lambda>n. n * 4096) (L (d div 4096)) = Some x"
    by (auto simp: region_map_def d_def Let_def split: if_splits)
  have "a = start_address h + of_nat d" by (simp add: d_def)
  moreover have "d = d div 4096 * 4096" using d(1) div_mult_mod_eq[of d 4096] by simp
  ultimately have "a = block_addr h (d div 4096)" unfolding block_addr_def by metis
  with d(2) that show ?thesis by auto
qed

lemma block_addr_inj:
  "heap_layout h \<Longrightarrow> s < heap_blocks h \<Longrightarrow> t < heap_blocks h \<Longrightarrow>
     block_addr h s = block_addr h t \<longleftrightarrow> s = t"
  using unat_block_offset[of h s] unat_block_offset[of h t]
  by (metis mult_cancel2 zero_neq_numeral)

lemma region_map_upd:
  assumes lay: "heap_layout h" and s: "s < heap_blocks h"
  shows "region_map h (L(s := v)) = (region_map h L)(block_addr h s := map_option (\<lambda>n. n * 4096) v)"
proof
  fix a
  define d where "d = unat (a - start_address h)"
  have "s < 524288" using lay s by (simp add: heap_layout_def)
  have "a = block_addr h s \<longleftrightarrow> d = s * 4096"
    using addr_eq_offset[of "s * 4096" a "start_address h"] \<open>s < 524288\<close>
    by (simp add: block_addr_def d_def)
  moreover have "d mod 4096 = 0 \<Longrightarrow> d div 4096 = s \<longleftrightarrow> d = s * 4096"
    using div_mult_mod_eq[of d 4096] by auto
  ultimately show "region_map h (L(s := v)) a =
      ((region_map h L)(block_addr h s := map_option (\<lambda>n. n * 4096) v)) a"
    by (auto simp: region_map_def Let_def d_def [symmetric])
qed

subsection \<open>The interface the kernel allocates through\<close>

text \<open>
  What the rest of the kernel relies on for requests of at most one block:
  while a block is free the request succeeds, its region is zeroed and disjoint
  from every live region, and only the region and the allocator's own bytes
  change; without a free block the request returns NULL and changes nothing.
\<close>

text \<open>
  A byte the allocator will not hand out: not its own, and outside the pool or in
  a live region.
\<close>

definition reserved :: "(addr \<Rightarrow> bool) \<Rightarrow> (addr \<Rightarrow> bool) \<Rightarrow> (addr \<rightharpoonup> nat) \<Rightarrow> addr \<Rightarrow> bool" where
  "reserved own pool_bytes A a \<longleftrightarrow>
     \<not> own a \<and> (\<not> pool_bytes a \<or> (\<exists>q n. A q = Some n \<and> in_range q n a))"

locale page_allocator =
  fixes alloc :: "'s \<Rightarrow> u32 \<Rightarrow> addr \<times> 's"
    and release :: "'s \<Rightarrow> addr \<Rightarrow> 's"
    and memory_of :: "'s \<Rightarrow> memory"
    and private_byte :: "'s \<Rightarrow> addr \<Rightarrow> bool"
    and live :: "'s \<Rightarrow> (addr \<rightharpoonup> nat) \<Rightarrow> bool"
    and free_pages :: "'s \<Rightarrow> nat"
    and pool :: "'s \<Rightarrow> addr \<Rightarrow> bool"
  assumes alloc_page:
      "live s A \<Longrightarrow> 0 < unat sz \<Longrightarrow> unat sz \<le> 4096 \<Longrightarrow> 0 < free_pages s \<Longrightarrow> alloc s sz = (p, s') \<Longrightarrow>
        p \<noteq> 0 \<and> 4096 dvd unat p \<and> A p = None \<and> live s' (A(p \<mapsto> 4096)) \<and>
        free_pages s = Suc (free_pages s') \<and> private_byte s' = private_byte s \<and> pool s' = pool s \<and>
        (\<forall>a. \<not> private_byte s a \<longrightarrow>
           memory_of s' a = (if in_range p (unat sz) a then 0 else memory_of s a))"
    and alloc_none:
      "live s A \<Longrightarrow> 0 < unat sz \<Longrightarrow> unat sz \<le> 4096 \<Longrightarrow> free_pages s = 0 \<Longrightarrow> alloc s sz = (0, s)"
    and release_live:
      "live s A \<Longrightarrow> A p = Some n \<Longrightarrow> live (release s p) (A(p := None)) \<and>
        free_pages (release s p) = free_pages s + n div 4096 \<and>
        private_byte (release s p) = private_byte s \<and> pool (release s p) = pool s \<and>
        (\<forall>a. \<not> private_byte s a \<longrightarrow> memory_of (release s p) a = memory_of s a)"
    and live_apart:
      "live s A \<Longrightarrow> A p = Some n \<Longrightarrow> A q = Some k \<Longrightarrow> p \<noteq> q \<Longrightarrow> disjoint_ranges p n q k"
    and live_private:
      "live s A \<Longrightarrow> A p = Some n \<Longrightarrow> in_range p n a \<Longrightarrow> \<not> private_byte s a"
    and live_pool:
      "live s A \<Longrightarrow> A p = Some n \<Longrightarrow> in_range p n a \<Longrightarrow> pool s a"
begin

text \<open>A live region that is new compared with \<open>A\<close> holds no byte reserved under \<open>A\<close>.\<close>

lemma reserved_not_new:
  assumes "live s B" "reserved (private_byte s) (pool s) A a" "B p = Some n" "A p = None"
    and "\<And>q k. A q = Some k \<Longrightarrow> B q = Some k"
  shows "\<not> in_range p n a"
proof
  assume in_p: "in_range p n a"
  then have "pool s a" using live_pool[OF assms(1,3)] by blast
  then obtain q k where q: "A q = Some k" "in_range q k a" using assms(2) by (auto simp: reserved_def)
  then have "disjoint_ranges p n q k"
    using assms(3-5) by (intro live_apart[OF assms(1)]) auto
  then show False using in_p q(2) by (auto simp: disjoint_ranges_def)
qed


text \<open>The bytes of every live region survive an allocation and the release of another region.\<close>

lemma alloc_keeps_live:
  assumes "live s A" "0 < unat sz" "unat sz \<le> 4096" "0 < free_pages s" "alloc s sz = (p, s')"
    and "A q = Some n" "in_range q n a"
  shows "memory_of s' a = memory_of s a"
proof -
  note law = alloc_page[OF assms(1-5)]
  have "p \<noteq> q" using law assms(6) by auto
  then have "disjoint_ranges p 4096 q n" using law assms(6) by (intro live_apart[of s' "A(p \<mapsto> 4096)"]) auto
  then have "\<not> in_range p (unat sz) a"
    using assms(3,7) in_range_mono by (auto simp: disjoint_ranges_def)
  then show ?thesis using law live_private[OF assms(1,6,7)] by simp
qed

lemma alloc_keeps_reserved:
  assumes "live s A" "0 < unat sz" "unat sz \<le> 4096" "0 < free_pages s" "alloc s sz = (p, s')"
    and "reserved (private_byte s) (pool s) A a"
  shows "memory_of s' a = memory_of s a" "reserved (private_byte s') (pool s') (A(p \<mapsto> 4096)) a"
    "\<not> in_range p 4096 a"
proof -
  note law = alloc_page[OF assms(1-5)]
  have nin: "\<not> in_range p 4096 a"
  proof (rule reserved_not_new[of s' "A(p \<mapsto> 4096)" A])
    show "reserved (private_byte s') (pool s') A a" using law assms(6) by simp
  qed (use law in auto)
  then show "\<not> in_range p 4096 a" .
  have "\<not> in_range p (unat sz) a" using nin in_range_mono[OF _ assms(3)] by blast
  moreover have "\<not> private_byte s a" using assms(6) by (simp add: reserved_def)
  ultimately show "memory_of s' a = memory_of s a" using law by auto
  have "A p = None" using law by blast
  then show "reserved (private_byte s') (pool s') (A(p \<mapsto> 4096)) a"
    using assms(6) law unfolding reserved_def by (metis fun_upd_other option.distinct(1))
qed

lemma release_keeps_reserved:
  assumes "live s A" "A p = Some n" "reserved (private_byte s) (pool s) A a" "\<not> in_range p n a"
  shows "memory_of (release s p) a = memory_of s a"
    "reserved (private_byte (release s p)) (pool (release s p)) (A(p := None)) a"
proof -
  note law = release_live[OF assms(1,2)]
  show "memory_of (release s p) a = memory_of s a" using law assms(3) by (simp add: reserved_def)
  have "(A(p := None)) q = Some k" if "A q = Some k" "in_range q k a" for q k
    using that assms(2,4) by auto
  then show "reserved (private_byte (release s p)) (pool (release s p)) (A(p := None)) a"
    using assms(3) law unfolding reserved_def by metis
qed

lemma alloc_zeroed:
  assumes "live s A" "0 < unat sz" "unat sz \<le> 4096" "0 < free_pages s" "alloc s sz = (p, s')"
    and "in_range p (unat sz) a"
  shows "memory_of s' a = 0"
proof -
  note law = alloc_page[OF assms(1-5)]
  have "in_range p 4096 a" using assms(3,6) by (rule in_range_mono [rotated])
  then have "\<not> private_byte s' a" using law by (intro live_private[of s' "A(p \<mapsto> 4096)" p 4096]) auto
  then show ?thesis using law assms(6) by auto
qed

lemma alloc_new_apart:
  assumes "live s A" "0 < unat sz" "unat sz \<le> 4096" "0 < free_pages s" "alloc s sz = (p, s')"
    and "A q = Some n"
  shows "disjoint_ranges p 4096 q n"
proof -
  note law = alloc_page[OF assms(1-5)]
  then have "p \<noteq> q" using assms(6) by auto
  with law assms(6) show ?thesis by (intro live_apart[of s' "A(p \<mapsto> 4096)"]) auto
qed

text \<open>Allocating and releasing one page gives back the state of the free pages.\<close>

lemma alloc_release:
  assumes "live s A" "0 < unat sz" "unat sz \<le> 4096" "0 < free_pages s" "alloc s sz = (p, s')"
  shows "live (release s' p) A \<and> free_pages (release s' p) = free_pages s"
proof -
  note law = alloc_page[OF assms(1-5)]
  have "live (release s' p) ((A(p \<mapsto> 4096))(p := None)) \<and>
      free_pages (release s' p) = free_pages s' + 4096 div 4096"
    using release_live[of s' "A(p \<mapsto> 4096)" p 4096] law by simp
  moreover have "(A(p \<mapsto> 4096))(p := None) = A" using law by auto
  ultimately show ?thesis using law by simp
qed

end

lemma blocks_for_page: "0 < unat sz \<Longrightarrow> unat sz \<le> 4096 \<Longrightarrow> blocks_for sz = 1"
  by (simp add: blocks_for_def)

lemma kzalloc_page:
  assumes ok: "kheap_ok st L" and sz: "0 < unat sz" "unat sz \<le> 4096" and av: "0 < avail st"
    and call: "kzalloc st sz = (p, st')"
  obtains s where "s < heap_blocks (kernel_heap st)" "p = block_addr (kernel_heap st) s" "p \<noteq> 0"
    "L s = None" "kheap_ok st' (L(s \<mapsto> 1))" "avail st = Suc (avail st')"
    "\<And>a. \<not> table_byte (kernel_heap st) a \<Longrightarrow>
       mem st' a = (if in_range p (unat sz) a then 0 else mem st a)"
    "st' = st\<lparr>mem := mem st'\<rparr>"
proof -
  obtain s0 where "free_run (mem st) (kernel_heap st) s0 (blocks_for sz)"
    using av free_run_1_iff_avail[of st] blocks_for_page[OF sz] by auto
  with kzalloc_fit[OF ok sz(1) _ this call] sz(2) blocks_for_page[OF sz]
  obtain s where s: "p = block_addr (kernel_heap st) s" "p \<noteq> 0"
    "free_run (mem st) (kernel_heap st) s 1" "kheap_ok st' (L(s \<mapsto> 1))"
    "\<And>a. \<not> table_byte (kernel_heap st) a \<Longrightarrow>
       mem st' a = (if in_range p (unat sz) a then 0 else mem st a)"
    "st' = st\<lparr>mem := mem st'\<rparr>" by auto
  have inv: "heap_inv (mem st) (kernel_heap st) L" using ok by (simp add: kheap_ok_def)
  have run: "s + 1 \<le> heap_blocks (kernel_heap st)" "\<not> covered L s"
    using s(3) free_run_iff[OF inv] by auto
  have new: "L s = None" by (rule not_covered_None[OF inv run(2)])
  have "kernel_heap st' = kernel_heap st" using s(6) by (metis kmem.select_convs(2) kmem.surjective kmem.update_convs(1))
  then have av': "avail st = Suc (avail st')"
    using avail_card[OF ok] avail_card[OF s(4)] run(2)
      card_blocks_upd[of L s 1 "heap_blocks (kernel_heap st)", OF new run(1)] by simp
  show ?thesis
    by (rule that[of s, OF _ s(1) s(2) new _ av' s(5) s(6)]) (use run s(4) in auto)
qed

lemma kzalloc_no_page:
  assumes ok: "kheap_ok st L" and sz: "0 < unat sz" "unat sz \<le> 4096" and av: "avail st = 0"
  shows "kzalloc st sz = (0, st)"
proof -
  let ?m = "mem st" and ?h = "kernel_heap st"
  have nf: "\<not> block_free ?m ?h i" if "i < heap_blocks ?h" for i
    using av that by (auto simp: avail_def filter_empty_conv)
  then have "\<not> first_fit ?m ?h 1 r" for r by (auto simp: first_fit_def free_run_def)
  moreover have "no_fit ?m ?h 1 r \<Longrightarrow> r = - 1" for r
    using nf[of "heap_blocks ?h - 1"] by (auto simp: no_fit_def split: if_splits)
  ultimately have "heap_get_start_block ?m ?h 1 = Inl ENOMEM"
    using heap_get_start_block_spec[of 1 ?m ?h] by auto
  moreover have "heap_align_value_to_upper sz div BOIOS_HEAP_BLOCK_SIZE = 1"
    using heap_align_blocks[of sz] blocks_for_page[OF sz] sz(2) by simp
  ultimately have "heap_malloc ?m ?h sz = (0, ?m)"
    by (simp add: heap_malloc_def heap_malloc_blocks_def Let_def)
  then show ?thesis by (simp add: kzalloc_def kmalloc_def)
qed

lemma kernel_heap_mem_update: "st' = st\<lparr>mem := m\<rparr> \<Longrightarrow> kernel_heap st' = kernel_heap st"
  by simp

lemma kernel_heap_kfree [simp]: "kernel_heap (kfree st p) = kernel_heap st"
  by (simp add: kfree_def)

lemma avail_kfree:
  assumes ok: "kheap_ok st L" and L: "L s = Some n"
  shows "avail (kfree st (block_addr (kernel_heap st) s)) = avail st + n"
proof -
  let ?T = "heap_blocks (kernel_heap st)"
  have inv: "heap_inv (mem st) (kernel_heap st) L" using ok by (simp add: kheap_ok_def)
  note sn = heap_invD_chunk[OF inv L]
  have apart: "t + x \<le> s \<or> s + n \<le> t" if "L t = Some x" "t \<noteq> s" for t x
    using heap_invD_disjoint[OF inv that(1) L that(2)] .
  have nc: "\<not> covered (L(s := None)) (s + k)" if "k < n" for k
  proof
    assume "covered (L(s := None)) (s + k)"
    then obtain t x where "L t = Some x" "t \<noteq> s" "t \<le> s + k" "s + k < t + x"
      by (auto simp: covered_def split: if_splits)
    then show False using apart[of t x] that by linarith
  qed
  have "card {i. i < ?T \<and> \<not> covered (L(s := None)) i} =
      card {i. i < ?T \<and> \<not> covered ((L(s := None))(s \<mapsto> n)) i} + n"
    using sn nc by (intro card_blocks_upd) auto
  moreover have "(L(s := None))(s \<mapsto> n) = L" using L by (auto simp: fun_eq_iff)
  ultimately show ?thesis
    using avail_card[OF ok] avail_card[OF kfree_live(1)[OF ok L]] by simp
qed

subsection \<open>The kernel heap provides the interface\<close>

definition pool_byte :: "heap \<Rightarrow> addr \<Rightarrow> bool" where
  "pool_byte h a \<longleftrightarrow> in_range (start_address h) (heap_blocks h * 4096) a"

lemma pool_byte_block:
  assumes lay: "heap_layout h" and sn: "s + n \<le> heap_blocks h"
    and a: "in_range (block_addr h s) (n * 4096) a"
  shows "pool_byte h a"
proof -
  have n: "n \<noteq> 0" using a by (cases n) auto
  have p: "unat (start_address h) + heap_blocks h * 4096 \<le> 4294967296"
    using lay by (simp add: heap_layout_def)
  have "in_range (block_addr h s) (n * 4096) a \<longleftrightarrow>
      unat (block_addr h s) \<le> unat a \<and> unat a < unat (block_addr h s) + n * 4096"
    using block_region[OF lay sn] n by (intro in_range_nat) auto
  then have "unat (start_address h) + s * 4096 \<le> unat a"
      "unat a < unat (start_address h) + s * 4096 + n * 4096"
    using a block_region(1)[OF lay sn] n by auto
  then show ?thesis unfolding pool_byte_def using sn by (subst in_range_nat[OF p]) linarith
qed

interpretation kpages: page_allocator kzalloc kfree mem
  "\<lambda>st. table_byte (kernel_heap st)" live_regions avail "\<lambda>st. pool_byte (kernel_heap st)"
proof (unfold_locales, goal_cases)
  case (1 st A sz p st')
  then obtain L where ok: "kheap_ok st L" and A: "A = region_map (kernel_heap st) L"
    by (auto simp: live_regions_def)
  have lay: "heap_layout (kernel_heap st)" using ok by (simp add: kheap_ok_def)
  obtain s where s: "s < heap_blocks (kernel_heap st)" "p = block_addr (kernel_heap st) s" "p \<noteq> 0"
    "L s = None" "kheap_ok st' (L(s \<mapsto> 1))" "avail st = Suc (avail st')"
    "\<And>a. \<not> table_byte (kernel_heap st) a \<Longrightarrow>
       mem st' a = (if in_range p (unat sz) a then 0 else mem st a)"
    "st' = st\<lparr>mem := mem st'\<rparr>"
    using kzalloc_page[OF ok 1(2,3,4,5)] by blast
  have h: "kernel_heap st' = kernel_heap st" by (rule kernel_heap_mem_update[OF s(8)])
  have "A p = None" using s(1,2,4) by (simp add: A region_map_block[OF lay])
  moreover have "A(p \<mapsto> 4096) = region_map (kernel_heap st') (L(s \<mapsto> 1))"
    using region_map_upd[OF lay s(1), of L "Some 1"] by (simp add: A h s(2))
  then have "live_regions st' (A(p \<mapsto> 4096))" using s(5) by (auto simp: live_regions_def)
  moreover have "4096 dvd unat p" using s(1,2) block_addr_aligned[OF lay] by simp
  ultimately show ?case using s(3,6,7) h by simp
next
  case (2 st A sz)
  then show ?case using kzalloc_no_page by (auto simp: live_regions_def)
next
  case (3 st A p n)
  then obtain L where ok: "kheap_ok st L" and A: "A = region_map (kernel_heap st) L"
    by (auto simp: live_regions_def)
  then obtain s k where s: "p = block_addr (kernel_heap st) s" "L s = Some k" "n = k * 4096"
    using 3(2) by (auto elim: region_mapE)
  have lay: "heap_layout (kernel_heap st)" and inv: "heap_inv (mem st) (kernel_heap st) L"
    using ok by (auto simp: kheap_ok_def)
  have "s < heap_blocks (kernel_heap st)" using heap_invD_chunk[OF inv s(2)] by simp
  then have "A(p := None) = region_map (kernel_heap st) (L(s := None))"
    using region_map_upd[OF lay, of s L None] by (simp add: A s(1))
  then have "live_regions (kfree st p) (A(p := None))"
    using kfree_live(1)[OF ok s(2)] s(1) by (auto simp: live_regions_def)
  then show ?case
    using kfree_live(2)[OF ok s(2)] avail_kfree[OF ok s(2)] s(1,3) by simp
next
  case (4 st A p n q k)
  then obtain L where ok: "kheap_ok st L" and A: "A = region_map (kernel_heap st) L"
    by (auto simp: live_regions_def)
  obtain s i where s: "p = block_addr (kernel_heap st) s" "L s = Some i" "n = i * 4096"
    using 4(2) A by (auto elim: region_mapE)
  obtain t j where t: "q = block_addr (kernel_heap st) t" "L t = Some j" "k = j * 4096"
    using 4(3) A by (auto elim: region_mapE)
  have lay: "heap_layout (kernel_heap st)" and inv: "heap_inv (mem st) (kernel_heap st) L"
    using ok by (auto simp: kheap_ok_def)
  have "s \<noteq> t" using 4(4) s(1) t(1) by auto
  then show ?case
    using heap_invD_chunk[OF inv s(2)] heap_invD_chunk[OF inv t(2)]
      heap_invD_disjoint[OF inv s(2) t(2)] blocks_disjoint[OF lay] s t by simp
next
  case (5 st A p n a)
  then obtain L where ok: "kheap_ok st L" and A: "A = region_map (kernel_heap st) L"
    by (auto simp: live_regions_def)
  obtain s i where s: "p = block_addr (kernel_heap st) s" "L s = Some i" "n = i * 4096"
    using 5(2) A by (auto elim: region_mapE)
  have lay: "heap_layout (kernel_heap st)" and inv: "heap_inv (mem st) (kernel_heap st) L"
    using ok by (auto simp: kheap_ok_def)
  show ?case
    using block_not_table[OF lay] heap_invD_chunk[OF inv s(2)] 5(3) s by blast
next
  case (6 st A p n a)
  then obtain L where ok: "kheap_ok st L" and A: "A = region_map (kernel_heap st) L"
    by (auto simp: live_regions_def)
  obtain s i where s: "p = block_addr (kernel_heap st) s" "L s = Some i" "n = i * 4096"
    using 6(2) A by (auto elim: region_mapE)
  have lay: "heap_layout (kernel_heap st)" and inv: "heap_inv (mem st) (kernel_heap st) L"
    using ok by (auto simp: kheap_ok_def)
  show ?case
    using pool_byte_block[OF lay] heap_invD_chunk[OF inv s(2)] 6(3) s by blast
qed

subsection \<open>Properties\<close>

definition boot_heap :: heap where
  "boot_heap = \<lparr>table = \<lparr>entries = 0x7E00, total_entries = 25600\<rparr>, start_address = 0x01000000\<rparr>"

lemma boot_heap_layout: "heap_layout boot_heap"
  by (auto simp: boot_heap_def heap_layout_def intro: disjoint_ranges_natI)

lemma heap_inv_zero:
  assumes "heap_layout h" "\<And>a. table_byte h a \<Longrightarrow> m a = 0"
  shows "heap_inv m h Map.empty"
  using assms table_byteI[of _ h] by (auto simp: heap_inv_def)

text \<open>
  \<^verbatim>\<open>kheap_init\<close> succeeds from any memory: afterwards the kernel heap is the
  25600-block heap at \<^verbatim>\<open>0x01000000\<close> with its table at \<^verbatim>\<open>0x7E00\<close>, no block is live,
  every block is free, and no byte outside the table has changed.
\<close>

theorem kheap_init_ok:
  "fst (kheap_init st) = Inr () \<and> kernel_heap (snd (kheap_init st)) = boot_heap \<and>
   kheap_ok (snd (kheap_init st)) Map.empty \<and> avail (snd (kheap_init st)) = 25600 \<and>
   (\<forall>a. table_byte boot_heap a \<or> mem (snd (kheap_init st)) a = mem st a)"
proof -
  let ?m = "memset (mem st) 0x7E00 0 25600"
  have i: "kheap_init st = (Inr (), st\<lparr>mem := ?m, kernel_heap := boot_heap\<rparr>)"
    by (simp add: kheap_init_def heap_create_def heap_validate_alignment_def
        heap_validate_table_def boot_heap_def Let_def)
  have z: "?m a = 0" if "table_byte boot_heap a" for a
    using that by (simp add: memset_read table_byte_def boot_heap_def)
  have ok: "kheap_ok (snd (kheap_init st)) Map.empty"
    using heap_inv_zero[OF boot_heap_layout z] boot_heap_layout by (simp add: i kheap_ok_def)
  have "card {k. k < heap_blocks boot_heap \<and> \<not> covered Map.empty k} = 25600"
    by (simp add: covered_def boot_heap_def)
  then have "avail (snd (kheap_init st)) = 25600" using avail_card[OF ok] by (simp add: i)
  then show ?thesis
    using ok by (simp add: i memset_read) (auto simp: table_byte_def boot_heap_def)
qed

text \<open>
  C3: with room for the request, \<^verbatim>\<open>kzalloc\<close> refines the insertion of a live
  allocation: it takes the first run of free blocks that is long enough, returns
  its address, adds exactly that run to the live map, returns \<open>sz\<close> zero bytes and
  leaves every other byte outside the table alone.
\<close>

theorem kzalloc_refines:
  assumes "kheap_ok st L" "0 < unat sz" "unat sz \<le> 4294963200"
    and "free_run (mem st) (kernel_heap st) s0 (blocks_for sz)"
    and "kzalloc st sz = (p, st')"
  shows "\<exists>s. s \<le> s0 \<and> p = block_addr (kernel_heap st) s \<and> L s = None \<and>
     (\<forall>u < s. \<not> free_run (mem st) (kernel_heap st) u (blocks_for sz)) \<and>
     kheap_ok st' (L(s \<mapsto> blocks_for sz)) \<and>
     (\<forall>a. table_byte (kernel_heap st) a \<or>
        mem st' a = (if in_range p (unat sz) a then 0 else mem st a))"
proof -
  obtain s where s: "p = block_addr (kernel_heap st) s"
    "free_run (mem st) (kernel_heap st) s (blocks_for sz)"
    "\<And>u. u < s \<Longrightarrow> \<not> free_run (mem st) (kernel_heap st) u (blocks_for sz)"
    "kheap_ok st' (L(s \<mapsto> blocks_for sz))"
    "\<And>a. \<not> table_byte (kernel_heap st) a \<Longrightarrow>
       mem st' a = (if in_range p (unat sz) a then 0 else mem st a)"
    using kzalloc_fit[OF assms] by blast
  have inv: "heap_inv (mem st) (kernel_heap st) L" using assms(1) by (simp add: kheap_ok_def)
  have "\<not> covered L (s + 0)"
    using s(2) free_run_iff[OF inv] blocks_for_bounds(1)[OF assms(2)] by blast
  then have "L s = None" using not_covered_None[OF inv] by simp
  moreover have "s \<le> s0" using s(3)[of s0] assms(4) by (cases "s \<le> s0") auto
  ultimately show ?thesis using s by blast
qed

definition small_heap :: heap where
  "small_heap = \<lparr>table = \<lparr>entries = 0x7E00, total_entries = 4\<rparr>, start_address = 0x01000000\<rparr>"

definition small_state :: kmem where
  "small_state = \<lparr>mem = \<lambda>_. 0, kernel_heap = small_heap\<rparr>"

lemma small_heap_layout: "heap_layout small_heap"
  by (auto simp: small_heap_def heap_layout_def intro: disjoint_ranges_natI)

lemma small_state_ok: "kheap_ok small_state Map.empty"
  using heap_inv_zero[OF small_heap_layout, of "\<lambda>_. 0"] small_heap_layout
  by (simp add: kheap_ok_def small_state_def)

lemma small_state_run: "free_run (mem small_state) (kernel_heap small_state) 0 (blocks_for 5000)"
  by (simp add: free_run_def small_state_def small_heap_def blocks_for_def block_free_def
      heap_get_entry_type_def)

theorem kzalloc_refines_witness:
  "fst (kzalloc small_state 5000) = block_addr small_heap 0 \<and>
   kheap_ok (snd (kzalloc small_state 5000)) (Map.empty(0 \<mapsto> 2))"
proof -
  have h: "kernel_heap small_state = small_heap" by (simp add: small_state_def)
  have b: "blocks_for 5000 = 2" by (simp add: blocks_for_def)
  show ?thesis
    using kzalloc_refines[OF small_state_ok _ _ small_state_run, of "fst (kzalloc small_state 5000)"
        "snd (kzalloc small_state 5000)"] by (auto simp: h b)
qed

text \<open>
  C4: releasing a live allocation refines its deletion from the live map: all of
  its blocks and no others become free again, and nothing outside the table is
  written.
\<close>

theorem kfree_refines:
  assumes "kheap_ok st L" "L s = Some n"
  shows "kheap_ok (kfree st (block_addr (kernel_heap st) s)) (L(s := None)) \<and>
     avail (kfree st (block_addr (kernel_heap st) s)) = avail st + n \<and>
     (\<forall>a. table_byte (kernel_heap st) a \<or>
        mem (kfree st (block_addr (kernel_heap st) s)) a = mem st a)"
  using kfree_live[OF assms] avail_kfree[OF assms] by blast

definition small_used :: kmem where
  "small_used = \<lparr>mem = (\<lambda>_. 0)(0x7E01 := 0xC1, 0x7E02 := 1), kernel_heap = small_heap\<rparr>"

lemma small_used_ok: "kheap_ok small_used (Map.empty(1 \<mapsto> 2))"
proof -
  have c: "k < 2 \<Longrightarrow> k = 0 \<or> k = 1" "i < 4 \<Longrightarrow> i = 0 \<or> i = 1 \<or> i = 2 \<or> i = 3" for k i :: nat
    by auto
  show ?thesis
    using small_heap_layout
    by (auto simp: kheap_ok_def small_used_def heap_inv_def small_heap_def covered_def
        chunk_byte_def dest!: c)
qed

theorem kfree_refines_witness:
  "kheap_ok (kfree small_used 0x01001000) Map.empty"
proof -
  have "block_addr (kernel_heap small_used) 1 = 0x01001000"
    by (simp add: block_addr_def small_used_def small_heap_def)
  then show ?thesis using kfree_refines[OF small_used_ok, of 1 2] by simp
qed

text \<open>
  C40: a request that no run of free blocks can satisfy is refused with NULL,
  leaving memory as it was, only when the last block of the table is in use.
  When the last block is free, the scan's open run is returned instead: the
  caller gets the address of the free blocks at the end of the pool and the
  marking loop runs past the table, overwriting the byte right after it.  The
  request is of any size for which the end of the run is a 32-bit \<open>int\<close>
  (\<open>heap_malloc\<close> asks for at most \<open>2 ^ 20\<close> blocks).
\<close>

theorem heap_malloc_blocks_no_fit:
  assumes "heap_layout h" "0 < n" "n + heap_blocks h < 2147483648" "0 < heap_blocks h"
    and "\<And>s. \<not> free_run m h s n"
  shows "if block_free m h (heap_blocks h - 1)
     then \<exists>s m'. s < heap_blocks h \<and> heap_malloc_blocks m h (of_nat n) = (block_addr h s, m') \<and>
       block_addr h s \<noteq> 0 \<and> heap_blocks h < s + n \<and>
       m' (entries (table h) + of_nat (heap_blocks h)) = chunk_byte n (heap_blocks h - s)
     else heap_malloc_blocks m h (of_nat n) = (0, m)"
proof -
  let ?T = "heap_blocks h"
  have T: "?T < 524288" using assms(1) by (simp add: heap_layout_def)
  have "\<not> first_fit m h n r" for r using assms(5) by (auto simp: first_fit_def)
  then obtain r where r: "heap_get_start_block m h (of_nat n) =
      (if r = - 1 then Inl ENOMEM else Inr r)" and nf: "no_fit m h n r"
    using heap_get_start_block_spec[of n m h] assms(2,3) by auto
  show ?thesis
  proof (cases "block_free m h (?T - 1)")
    case False
    then have "r = - 1" using nf by (simp add: no_fit_def)
    then show ?thesis using False r by (simp add: heap_malloc_blocks_def)
  next
    case True
    then obtain s where s: "s < ?T" "r = int s" "\<And>k. s \<le> k \<Longrightarrow> k < ?T \<Longrightarrow> block_free m h k"
      using nf assms(4) by (auto simp: no_fit_def trailing_run_def)
    have over: "?T < s + n"
    proof (rule ccontr)
      assume "\<not> ?T < s + n"
      then have "free_run m h s n" using s(3) by (auto simp: free_run_def)
      then show False using assms(5) by blast
    qed
    let ?m = "store_bytes m (entries (table h) + of_nat s) (chunk_bytes n)"
    have blk: "heap_block_to_address h (int s) = block_addr h s"
      by (simp add: heap_block_to_address_def block_addr_def)
    have "sint (of_nat n :: u32) = int n" using assms(3) by (intro sint_of_nat32) simp
    then have "heap_malloc_blocks m h (of_nat n) = (block_addr h s, ?m)"
      using r s assms(2,3) by (simp add: heap_malloc_blocks_def heap_mark_blocks_taken_store blk)
    moreover have "?m (entries (table h) + of_nat ?T) = chunk_byte n (?T - s)"
      using store_bytes_index[of s "chunk_bytes n" ?T m "entries (table h)"] s(1) over T assms(3)
      by (auto simp: chunk_bytes_def)
    ultimately show ?thesis using True s(1) over block_addr_nonzero[OF assms(1) s(1)] by auto
  qed
qed

theorem heap_malloc_blocks_no_fit_witness:
  "\<exists>s m'. heap_malloc_blocks (\<lambda>_. 0) small_heap 5 = (block_addr small_heap s, m') \<and>
     m' 0x7E04 = chunk_byte 5 (4 - s)"
proof -
  have "\<not> free_run (\<lambda>_. 0) small_heap s 5" for s by (simp add: free_run_def small_heap_def)
  from heap_malloc_blocks_no_fit[OF small_heap_layout _ _ _ this]
  show ?thesis
    by (auto simp: small_heap_def block_free_def heap_get_entry_type_def split: if_splits)
qed

lemma heap_mark_free_loop_zeroes: "m a = 0 \<Longrightarrow> heap_mark_free_loop m tbl i a = 0"
proof (induction m tbl i rule: heap_mark_free_loop.induct)
  case (1 m tbl i)
  let ?e = "entries tbl + word_of_int i"
  have IH: "heap_mark_free_loop (m(?e := 0)) tbl (i + 1) a = 0"
    if "i < sint (total_entries tbl)" "m ?e AND HEAP_BLOCK_HAS_NEXT \<noteq> 0"
    by (rule "1.IH"[OF that(1) refl refl that(2)]) (use "1.prems" in simp)
  show ?case
    using IH "1.prems" by (subst heap_mark_free_loop.simps) (auto simp: Let_def)
qed

lemma kfree_null_byte:
  assumes "kernel_heap st = boot_heap"
  shows "mem (kfree st 0) 0x6E00 = 0"
proof -
  have b: "heap_address_to_block boot_heap 0 = - 4096"
    by (simp add: heap_address_to_block_def boot_heap_def signed_divide_int_def)
  let ?m = "mem st"
  have "heap_mark_free_loop ?m (table boot_heap) (- 4096) 0x6E00 = 0"
    using heap_mark_free_loop_zeroes[of "?m(0x6E00 := 0)" "0x6E00" "table boot_heap" "- 4095"]
    by (subst heap_mark_free_loop.simps) (simp add: boot_heap_def Let_def)
  then show ?thesis using assms by (simp add: kfree_def heap_free_def heap_mark_blocks_free_def b)
qed

text \<open>
  \<^verbatim>\<open>kfree\<close> has no guard for NULL: on the kernel heap it indexes the table at
  block \<open>- 4096\<close> and zeroes the byte at \<^verbatim>\<open>0x6E00\<close>, outside the table.
\<close>

theorem kfree_null_out_of_table:
  "mem (kfree (st\<lparr>kernel_heap := boot_heap\<rparr>) 0) 0x6E00 = 0 \<and> \<not> table_byte boot_heap 0x6E00"
  using kfree_null_byte[of "st\<lparr>kernel_heap := boot_heap\<rparr>"]
  by (simp add: table_byte_def boot_heap_def in_range_def)

end
