(* ===== verification/Boi_Paging.thy ===== *)
theory Boi_Paging
  imports Boi_Kheap
begin

text \<open>
  The two-level page tables of \<^verbatim>\<open>src/src/memory/paging/paging.c\<close>.  A directory and
  its 1024 tables are arrays of little-endian 32-bit words in the flat memory,
  allocated on the kernel heap; \<^verbatim>\<open>cr3\<close> and the static \<open>current_directory\<close> are
  fields of the paging state.
\<close>

subsection \<open>Data\<close>

abbreviation PAGING_CACHE_DISABLED :: u32 where "PAGING_CACHE_DISABLED \<equiv> 16"
abbreviation PAGING_WRITE_THROUGH :: u32 where "PAGING_WRITE_THROUGH \<equiv> 8"
abbreviation PAGING_ACCESS_FROM_ALL :: u32 where "PAGING_ACCESS_FROM_ALL \<equiv> 4"
abbreviation PAGING_IS_WRITABLE :: u32 where "PAGING_IS_WRITABLE \<equiv> 2"
abbreviation PAGING_IS_PRESENT :: u32 where "PAGING_IS_PRESENT \<equiv> 1"
abbreviation PAGING_TOTAL_ENTRIES_PER_TABLE :: nat where "PAGING_TOTAL_ENTRIES_PER_TABLE \<equiv> 1024"
abbreviation PAGING_PAGE_SIZE :: u32 where "PAGING_PAGE_SIZE \<equiv> 4096"

text \<open>The mask \<^verbatim>\<open>0xFFFFF000\<close> that clears the flags of an entry.\<close>

abbreviation PAGE_MASK :: u32 where "PAGE_MASK \<equiv> 0xFFFFF000"

record pmem = kmem +
  current_directory :: addr
  cr3 :: addr

subsection \<open>Address arithmetic\<close>

definition paging_is_aligned :: "addr \<Rightarrow> bool" where
  "paging_is_aligned address \<longleftrightarrow> address mod PAGING_PAGE_SIZE = 0"

definition paging_align_address :: "addr \<Rightarrow> addr" where
  "paging_align_address ptr =
     (if ptr mod PAGING_PAGE_SIZE \<noteq> 0 then ptr + PAGING_PAGE_SIZE - ptr mod PAGING_PAGE_SIZE
      else ptr)"

definition paging_align_to_lower_page :: "addr \<Rightarrow> addr" where
  "paging_align_to_lower_page addr = addr - addr mod PAGING_PAGE_SIZE"

definition paging_get_indexes :: "addr \<Rightarrow> kerror + u32 \<times> u32" where
  "paging_get_indexes virtual_address =
     (if \<not> paging_is_aligned virtual_address then Inl EINVARG
      else Inr (virtual_address div (1024 * PAGING_PAGE_SIZE),
                virtual_address mod (1024 * PAGING_PAGE_SIZE) div PAGING_PAGE_SIZE))"

subsection \<open>Reading and writing entries\<close>

definition paging_set :: "memory \<Rightarrow> addr \<Rightarrow> addr \<Rightarrow> u32 \<Rightarrow> kerror + memory" where
  "paging_set m directory virtual_address value_of_entry =
     (if \<not> paging_is_aligned virtual_address then Inl EINVARG
      else case paging_get_indexes virtual_address of
        Inl e \<Rightarrow> Inl e
      | Inr (directory_index, table_index) \<Rightarrow>
          let entry = read32 m (directory + 4 * directory_index);
              tbl = entry AND PAGE_MASK
          in Inr (write32 m (tbl + 4 * table_index) value_of_entry))"

text \<open>\<^verbatim>\<open>paging_get\<close> ignores the response of \<^verbatim>\<open>paging_get_indexes\<close>: both indexes stay 0.\<close>

definition paging_get :: "memory \<Rightarrow> addr \<Rightarrow> addr \<Rightarrow> u32" where
  "paging_get m directory virtual_address =
     (let (directory_index, table_index) =
            (case paging_get_indexes virtual_address of Inl _ \<Rightarrow> (0, 0) | Inr ix \<Rightarrow> ix);
          entry = read32 m (directory + 4 * directory_index);
          tbl = entry AND PAGE_MASK
      in read32 m (tbl + 4 * table_index))"

definition paging_get_physical_address :: "memory \<Rightarrow> addr \<Rightarrow> addr \<Rightarrow> addr" where
  "paging_get_physical_address m directory virt_addr =
     (let virt_addr_new = paging_align_to_lower_page virt_addr;
          difference = virt_addr - virt_addr_new
      in (paging_get m directory virt_addr_new AND PAGE_MASK) + difference)"

subsection \<open>Mapping\<close>

text \<open>A chunk is a one-word structure in memory that holds its directory's address.\<close>

definition paging_4gb_chunk_get_directory :: "memory \<Rightarrow> addr \<Rightarrow> addr" where
  "paging_4gb_chunk_get_directory m chunk = read32 m chunk"

definition paging_map :: "memory \<Rightarrow> addr \<Rightarrow> addr \<Rightarrow> addr \<Rightarrow> u32 \<Rightarrow> kerror + memory" where
  "paging_map m chunk virtual_address physical_address flags =
     (if virtual_address mod PAGING_PAGE_SIZE \<noteq> 0 \<or> physical_address mod PAGING_PAGE_SIZE \<noteq> 0
      then Inl EINVARG
      else paging_set m (read32 m chunk) virtual_address (physical_address OR flags))"

text \<open>
  \<^verbatim>\<open>paging_map_range\<close> stops at the first error; the pages mapped before it stay
  mapped, so the memory is returned with the error.
\<close>

fun paging_map_range ::
    "memory \<Rightarrow> addr \<Rightarrow> addr \<Rightarrow> addr \<Rightarrow> nat \<Rightarrow> u32 \<Rightarrow> (kerror + unit) \<times> memory" where
  "paging_map_range m chunk virtual_address physical_address 0 flags = (Inr (), m)"
| "paging_map_range m chunk virtual_address physical_address (Suc n) flags =
     (case paging_map m chunk virtual_address physical_address flags of
        Inl e \<Rightarrow> (Inl e, m)
      | Inr m' \<Rightarrow> paging_map_range m' chunk (virtual_address + PAGING_PAGE_SIZE)
          (physical_address + PAGING_PAGE_SIZE) n flags)"

definition paging_map_to ::
    "memory \<Rightarrow> addr \<Rightarrow> addr \<Rightarrow> addr \<Rightarrow> addr \<Rightarrow> u32 \<Rightarrow> (kerror + unit) \<times> memory" where
  "paging_map_to m chunk virtual_address physical_address physical_end_address flags =
     (if virtual_address mod PAGING_PAGE_SIZE \<noteq> 0 \<or> physical_address mod PAGING_PAGE_SIZE \<noteq> 0
         \<or> physical_end_address mod PAGING_PAGE_SIZE \<noteq> 0
      then (Inl EINVARG, m)
      else if physical_end_address < physical_address then (Inl EINVARG, m)
      else let total_bytes = physical_end_address - physical_address;
               total_pages = total_bytes div PAGING_PAGE_SIZE
           in paging_map_range m chunk virtual_address physical_address (unat total_pages) flags)"

subsection \<open>A linear 4 GiB address space\<close>

text \<open>The inner loop: entry \<open>j\<close> of the table maps page \<open>offset + j * 4096\<close>.\<close>

function paging_fill_table :: "memory \<Rightarrow> addr \<Rightarrow> u32 \<Rightarrow> u32 \<Rightarrow> nat \<Rightarrow> memory" where
  "paging_fill_table m entry offset flags j =
     (if j < PAGING_TOTAL_ENTRIES_PER_TABLE
      then paging_fill_table
        (write32 m (entry + 4 * of_nat j) ((offset + of_nat j * PAGING_PAGE_SIZE) OR flags))
        entry offset flags (Suc j)
      else m)"
  by pat_completeness auto
termination
  by (relation "measure (\<lambda>(m, entry, offset, flags, j). 1024 - j)") auto

declare paging_fill_table.simps [simp del]

text \<open>
  The outer loop: the directory gets one zeroed and filled table per 4 MiB.  As in
  the source no allocation is checked: a failed one is used at address 0.
\<close>

function paging_fill_directory ::
    "'z kmem_scheme \<Rightarrow> addr \<Rightarrow> u32 \<Rightarrow> u32 \<Rightarrow> nat \<Rightarrow> 'z kmem_scheme" where
  "paging_fill_directory st directory offset flags i =
     (if i < PAGING_TOTAL_ENTRIES_PER_TABLE then
        let (entry, st1) = kzalloc st 4096;
            m1 = paging_fill_table (mem st1) entry offset flags 0;
            m2 = write32 m1 (directory + 4 * of_nat i) (entry OR flags OR PAGING_IS_WRITABLE)
        in paging_fill_directory (st1\<lparr>mem := m2\<rparr>) directory
             (offset + 1024 * PAGING_PAGE_SIZE) flags (Suc i)
      else st)"
  by pat_completeness auto
termination
  by (relation "measure (\<lambda>(st, directory, offset, flags, i). 1024 - i)") auto

declare paging_fill_directory.simps [simp del]

definition paging_new_4gb :: "'z kmem_scheme \<Rightarrow> u8 \<Rightarrow> addr \<times> 'z kmem_scheme" where
  "paging_new_4gb st flags =
     (let (directory, st1) = kzalloc st 4096;
          st2 = paging_fill_directory st1 directory 0 (ucast flags) 0;
          (chunk_4gb, st3) = kzalloc st2 4
      in (chunk_4gb, st3\<lparr>mem := write32 (mem st3) chunk_4gb directory\<rparr>))"

subsection \<open>Release and switching\<close>

function paging_free_tables :: "'z kmem_scheme \<Rightarrow> addr \<Rightarrow> nat \<Rightarrow> 'z kmem_scheme" where
  "paging_free_tables st chunk i =
     (if i < PAGING_TOTAL_ENTRIES_PER_TABLE then
        let entry = read32 (mem st) (read32 (mem st) chunk + 4 * of_nat i);
            tbl = entry AND PAGE_MASK
        in paging_free_tables (kfree st tbl) chunk (Suc i)
      else st)"
  by pat_completeness auto
termination
  by (relation "measure (\<lambda>(st, chunk, i). 1024 - i)") auto

declare paging_free_tables.simps [simp del]

definition paging_free_4gb :: "'z kmem_scheme \<Rightarrow> addr \<Rightarrow> 'z kmem_scheme" where
  "paging_free_4gb st chunk =
     (let st1 = paging_free_tables st chunk 0;
          st2 = kfree st1 (read32 (mem st1) chunk)
      in kfree st2 chunk)"

definition paging_switch :: "'z pmem_scheme \<Rightarrow> addr \<Rightarrow> 'z pmem_scheme" where
  "paging_switch st chunk =
     (let directory = read32 (mem st) chunk
      in st\<lparr>cr3 := directory, current_directory := directory\<rparr>)"

subsection \<open>Slots of a page\<close>

text \<open>Word \<open>k\<close> of the page at \<open>p\<close>.\<close>

abbreviation page_slot :: "addr \<Rightarrow> nat \<Rightarrow> addr" where
  "page_slot p k \<equiv> p + 4 * of_nat k"

abbreviation page_aligned :: "addr \<Rightarrow> bool" where
  "page_aligned p \<equiv> 4096 dvd unat p"

lemma mod_4096_iff: "v mod PAGING_PAGE_SIZE = 0 \<longleftrightarrow> page_aligned v"
  by (simp add: unat_eq_zero [symmetric] unat_mod dvd_eq_mod_eq_0 del: unat_eq_zero)

lemma page_aligned_aligned4: "page_aligned p \<Longrightarrow> aligned4 p"
  by (rule dvd_trans [of 4 4096]) simp_all

lemma unat_page_slot:
  assumes "page_aligned p" "k < 1024"
  shows "unat (page_slot p k) = unat p + 4 * k"
proof -
  obtain a where a: "unat p = 4096 * a" using assms(1) by (auto elim: dvdE)
  then have "a < 1048576" using unat32_lt[of p] by simp
  then have b: "unat p + 4 * k < 4294967296" using a assms(2) by simp
  have "unat (4 * of_nat k :: u32) = unat (of_nat (4 * k) :: u32)" by simp
  also have "\<dots> = 4 * k" using assms(2) by (intro unat_of_nat32) simp
  finally have s: "unat (4 * of_nat k :: u32) = 4 * k" .
  then show ?thesis using unat_add_no_wrap[of p "4 * of_nat k"] b by (simp only:)
qed

lemma page_slot_eq_iff:
  assumes "page_aligned p" "page_aligned q" "k < 1024" "l < 1024"
  shows "page_slot p k = page_slot q l \<longleftrightarrow> p = q \<and> k = l"
proof
  assume eq: "page_slot p k = page_slot q l"
  obtain a b where ab: "unat p = 4096 * a" "unat q = 4096 * b"
    using assms(1,2) by (auto elim!: dvdE)
  have "4096 * a + 4 * k = 4096 * b + 4 * l"
    using eq unat_page_slot[OF assms(1,3)] unat_page_slot[OF assms(2,4)] ab by simp
  moreover from this have "a = b" using assms(3,4) by linarith
  ultimately have "a = b" "k = l" by simp_all
  then show "p = q \<and> k = l" using ab by (simp add: unat_eq_iff32 [symmetric])
qed auto

lemma page_slot_aligned4: "page_aligned p \<Longrightarrow> aligned4 (page_slot p k)"
  by (intro aligned4_add page_aligned_aligned4 aligned4_mult4)

lemma page_slot_range:
  assumes "k < 1024" "in_range (page_slot p k) 4 x"
  shows "in_range p 4096 x"
proof -
  obtain r where r: "x = page_slot p k + of_nat r" "r < 4" using assms(2) by (rule in_rangeE)
  have "x = p + of_nat (4 * k + r)" using r(1) by simp
  then have "unat (x - p) = 4 * k + r"
    using assms(1) r(2) unat_of_nat32[of "4 * k + r"] by (simp only: add_diff_cancel_left')
  then show ?thesis using assms(1) r(2) by (simp add: in_range_def)
qed

lemma read32_page_cong:
  "k < 1024 \<Longrightarrow> (\<And>x. in_range p 4096 x \<Longrightarrow> m x = m' x) \<Longrightarrow>
     read32 m (page_slot p k) = read32 m' (page_slot p k)"
  by (rule read32_cong) (auto intro: page_slot_range)

lemma read32_write32_slot [mem_simps]:
  "page_aligned p \<Longrightarrow> page_aligned q \<Longrightarrow> k < 1024 \<Longrightarrow> l < 1024 \<Longrightarrow>
     read32 (write32 m (page_slot q l) v) (page_slot p k) =
       (if p = q \<and> k = l then v else read32 m (page_slot p k))"
  by (simp add: read32_write32_aligned page_slot_aligned4 page_slot_eq_iff)

lemma page_mask_aligned: "page_aligned (x AND PAGE_MASK)"
proof -
  have "(x AND PAGE_MASK) AND mask 12 = 0"
    by (simp add: mask_eq_exp_minus_1 and.assoc)
  then have "2 ^ 12 dvd unat (x AND PAGE_MASK)" by (simp only: and_mask_dvd_nat)
  then show ?thesis by simp
qed

lemma page_mask_flags:
  assumes "page_aligned p" "unat f < 4096"
  shows "(p OR f) AND PAGE_MASK = p"
proof -
  have p: "p AND 4095 = 0"
    using assms(1) and_mask_dvd_nat[of 12 p] by (simp add: mask_eq_exp_minus_1)
  have f: "f AND 4095 = f"
  proof -
    have "f AND mask 12 = take_bit 12 f" by (simp add: take_bit_eq_mask)
    also have "\<dots> = f" using assms(2) by (simp add: take_bit_eq_mod unat_arith_simps)
    finally show ?thesis by (simp add: mask_eq_exp_minus_1)
  qed
  have m: "PAGE_MASK = NOT 4095" by simp
  have "p AND PAGE_MASK = p"
  proof -
    have "p = (p AND 4095) OR (p AND NOT 4095)"
      by (simp only: bit.conj_disj_distrib [symmetric] bit.disj_cancel_right bit.conj_one_right)
    then show ?thesis unfolding m using p by simp
  qed
  moreover have "f AND PAGE_MASK = 0" unfolding m using f by (metis and.assoc bit.conj_cancel_right bit.conj_zero_right)
  ultimately show ?thesis by (simp add: bit.conj_disj_distrib2)
qed


subsection \<open>Well-formed address spaces\<close>

text \<open>
  The tables a directory names, and the condition under which translations can be
  read and changed one at a time: chunk, directory and tables are distinct pages.
\<close>

definition dir_table :: "memory \<Rightarrow> addr \<Rightarrow> nat \<Rightarrow> addr" where
  "dir_table m dir i = read32 m (page_slot dir i) AND PAGE_MASK"

definition space_ok :: "memory \<Rightarrow> addr \<Rightarrow> bool" where
  "space_ok m chunk \<longleftrightarrow>
     (let dir = read32 m chunk in
      page_aligned chunk \<and> page_aligned dir \<and>
      distinct (chunk # dir # map (dir_table m dir) [0..<1024]))"

text \<open>The entry of \<open>v\<close>: its indexes and its address.\<close>

definition dir_index :: "addr \<Rightarrow> nat" where
  "dir_index v = unat v div 4194304"

definition tab_index :: "addr \<Rightarrow> nat" where
  "tab_index v = unat v mod 4194304 div 4096"

lemma index_bounds: "dir_index v < 1024" "tab_index v < 1024"
  using unat32_lt[of v] by (auto simp: dir_index_def tab_index_def)

lemma index_inj:
  assumes "page_aligned v" "page_aligned w" "dir_index v = dir_index w" "tab_index v = tab_index w"
  shows "v = w"
proof -
  obtain a b where ab: "unat v = 4096 * a" "unat w = 4096 * b"
    using assms(1,2) by (auto elim!: dvdE)
  have "4096 * c div 4194304 = c div 1024" "4096 * c mod 4194304 div 4096 = c mod 1024" for c :: nat
    using div_mult2_eq[of "4096 * c" 4096 1024] mult_mod_right[of 4096 c 1024] by simp_all
  then have "a div 1024 = b div 1024" "a mod 1024 = b mod 1024"
    using assms(3,4) ab by (simp_all add: dir_index_def tab_index_def)
  then have "a = b" by (metis div_mult_mod_eq)
  then show ?thesis using ab by (simp add: unat_eq_iff32 [symmetric])
qed

lemma paging_get_indexes_eq:
  "page_aligned v \<Longrightarrow>
     paging_get_indexes v = Inr (of_nat (dir_index v), of_nat (tab_index v))"
proof -
  assume "page_aligned v"
  have "v div 4194304 = of_nat (dir_index v)"
    by (simp add: dir_index_def word_arith_nat_div)
  moreover have "v mod 4194304 div 4096 = of_nat (tab_index v)"
    by (simp add: tab_index_def word_arith_nat_div unat_mod)
  ultimately show ?thesis
    using \<open>page_aligned v\<close> by (simp add: paging_get_indexes_def paging_is_aligned_def mod_4096_iff)
qed

lemma paging_set_eq:
  "page_aligned v \<Longrightarrow> paging_set m dir v x =
     Inr (write32 m (page_slot (dir_table m dir (dir_index v)) (tab_index v)) x)"
  by (simp add: paging_set_def paging_get_indexes_eq paging_is_aligned_def mod_4096_iff
      dir_table_def Let_def)

lemma paging_set_unaligned: "\<not> page_aligned v \<Longrightarrow> paging_set m dir v x = Inl EINVARG"
  by (simp add: paging_set_def paging_is_aligned_def mod_4096_iff)

lemma paging_get_eq:
  "page_aligned v \<Longrightarrow> paging_get m dir v =
     read32 m (page_slot (dir_table m dir (dir_index v)) (tab_index v))"
  by (simp add: paging_get_def paging_get_indexes_eq dir_table_def Let_def)

lemma space_ok_tables:
  assumes "space_ok m chunk" "i < 1024"
  shows "dir_table m (read32 m chunk) i \<noteq> chunk" "dir_table m (read32 m chunk) i \<noteq> read32 m chunk"
    and "j < 1024 \<Longrightarrow>
      dir_table m (read32 m chunk) i = dir_table m (read32 m chunk) j \<longleftrightarrow> i = j"
proof -
  have i: "dir_table m (read32 m chunk) i \<in> set (map (dir_table m (read32 m chunk)) [0..<1024])"
    using assms(2) by auto
  then show "dir_table m (read32 m chunk) i \<noteq> chunk" "dir_table m (read32 m chunk) i \<noteq> read32 m chunk"
    using assms(1) unfolding space_ok_def Let_def by auto
  show "dir_table m (read32 m chunk) i = dir_table m (read32 m chunk) j \<longleftrightarrow> i = j" if "j < 1024"
    using assms that unfolding space_ok_def Let_def
    by (auto simp: distinct_map dest: inj_onD)
qed

lemma dir_table_aligned: "page_aligned (dir_table m dir i)"
  unfolding dir_table_def by (rule page_mask_aligned)

lemma write_table_entry:
  assumes ok: "space_ok m chunk" and i: "i < 1024" "k < 1024"
    and m': "m' = write32 m (page_slot (dir_table m (read32 m chunk) i) k) x"
  shows "read32 m' chunk = read32 m chunk"
    and "j < 1024 \<Longrightarrow> dir_table m' (read32 m chunk) j = dir_table m (read32 m chunk) j"
    and "space_ok m' chunk"
proof -
  let ?dir = "read32 m chunk" and ?t = "dir_table m (read32 m chunk) i"
  have al: "page_aligned chunk" "page_aligned ?dir" using ok by (auto simp: space_ok_def Let_def)
  note t = space_ok_tables(1,2)[OF ok i(1)] dir_table_aligned[of m ?dir i]
  have "read32 m' (page_slot chunk 0) = read32 m (page_slot chunk 0)"
    using read32_write32_slot[OF al(1) t(3) _ i(2), of 0 m x] t(1) by (auto simp: m')
  then show c: "read32 m' chunk = ?dir" by simp
  show d: "dir_table m' ?dir j = dir_table m ?dir j" if "j < 1024" for j
    using read32_write32_slot[OF al(2) t(3) that i(2), of m x] t(2)
    by (auto simp: dir_table_def m')
  have "map (dir_table m' ?dir) [0..<1024] = map (dir_table m ?dir) [0..<1024]" 
    using d by (intro map_cong) auto
  then show "space_ok m' chunk" using ok by (simp only: space_ok_def Let_def c)
qed

subsection \<open>The interface of a translation table\<close>

text \<open>
  A store of page translations: setting an aligned address always succeeds and
  changes the translation of that page only; an unaligned address is refused.
\<close>

locale translation_table =
  fixes get :: "'m \<Rightarrow> addr \<Rightarrow> u32"
    and set_entry :: "'m \<Rightarrow> addr \<Rightarrow> u32 \<Rightarrow> kerror + 'm"
    and ok :: "'m \<Rightarrow> bool"
  assumes set_aligned:
      "ok m \<Longrightarrow> page_aligned v \<Longrightarrow> \<exists>m'. set_entry m v x = Inr m' \<and> ok m' \<and>
         (\<forall>w. page_aligned w \<longrightarrow> get m' w = (if w = v then x else get m w))"
    and set_unaligned: "\<not> page_aligned v \<Longrightarrow> set_entry m v x = Inl EINVARG"

text \<open>Setting a list of translations in order, stopping at the first error.\<close>

fun set_entries :: "('m \<Rightarrow> addr \<Rightarrow> u32 \<Rightarrow> kerror + 'm) \<Rightarrow> 'm \<Rightarrow> (addr \<times> u32) list \<Rightarrow>
    (kerror + unit) \<times> 'm" where
  "set_entries set_entry m [] = (Inr (), m)"
| "set_entries set_entry m ((v, x) # vs) =
     (case set_entry m v x of Inl e \<Rightarrow> (Inl e, m) | Inr m' \<Rightarrow> set_entries set_entry m' vs)"

context translation_table
begin

lemma set_entries_ok:
  assumes "ok m" "\<forall>(v, x) \<in> set vs. page_aligned v" "distinct (map fst vs)"
  shows "\<exists>m'. set_entries set_entry m vs = (Inr (), m') \<and> ok m' \<and>
     (\<forall>w. page_aligned w \<longrightarrow>
        get m' w = (case map_of vs w of Some x \<Rightarrow> x | None \<Rightarrow> get m w))"
  using assms
proof (induction vs arbitrary: m)
  case (Cons vx vs)
  obtain v x where vx: "vx = (v, x)" by (cases vx)
  with Cons.prems obtain m1 where m1: "set_entry m v x = Inr m1" "ok m1"
    "\<And>w. page_aligned w \<Longrightarrow> get m1 w = (if w = v then x else get m w)"
    using set_aligned[of m v x] by auto
  from Cons.IH[OF m1(2)] Cons.prems(2,3) vx obtain m' where m': "set_entries set_entry m1 vs = (Inr (), m')"
    "ok m'" "\<And>w. page_aligned w \<Longrightarrow>
      get m' w = (case map_of vs w of Some x \<Rightarrow> x | None \<Rightarrow> get m1 w)" by auto
  have "map_of vs v = None" using Cons.prems(3) vx by (simp add: map_of_eq_None_iff)
  then have "get m' w = (case map_of (vx # vs) w of Some x \<Rightarrow> x | None \<Rightarrow> get m w)"
    if "page_aligned w" for w
    using m'(3)[OF that] m1(3)[OF that] vx by (auto split: option.splits)
  then show ?case using m1(1) m'(1,2) vx by simp
qed simp

end

interpretation pspace: translation_table "\<lambda>m v. paging_get m (read32 m chunk) v"
  "\<lambda>m v x. paging_set m (read32 m chunk) v x" "\<lambda>m. space_ok m chunk"
proof (unfold_locales, goal_cases)
  case (1 m v x)
  let ?dir = "read32 m chunk"
  let ?m = "write32 m (page_slot (dir_table m ?dir (dir_index v)) (tab_index v)) x"
  note w = write_table_entry[OF 1(1) index_bounds[of v], of ?m x, OF refl]
  have "paging_get ?m ?dir u = (if u = v then x else paging_get m ?dir u)" if "page_aligned u" for u
  proof -
    let ?t = "dir_table m ?dir (dir_index v)" and ?s = "dir_table m ?dir (dir_index u)"
    have "?s = ?t \<and> tab_index u = tab_index v \<longleftrightarrow> u = v"
      using space_ok_tables(3)[OF 1(1) index_bounds(1)[of u] index_bounds(1)[of v]]
        index_inj[OF that 1(2)] by auto
    then show ?thesis
      using read32_write32_slot[OF dir_table_aligned[of m ?dir "dir_index u"]
          dir_table_aligned[of m ?dir "dir_index v"] index_bounds(2)[of u] index_bounds(2)[of v], of m x]
        w(2)[OF index_bounds(1)[of u]] that
      by (auto simp: paging_get_eq)
  qed
  then show ?case using w(1,3) paging_set_eq[OF 1(2)] by auto
next
  case (2 v m x)
  then show ?case by (rule paging_set_unaligned)
qed

subsection \<open>Ranges of pages\<close>

lemma page_aligned_add:
  assumes "page_aligned v"
  shows "page_aligned (v + of_nat k * 4096)"
proof -
  have "unat (v + of_nat k * 4096) = (unat v + k * 4096) mod 4294967296"
    by (simp add: unat_word_ariths unat_of_nat mod_simps)
  moreover have "(4096::nat) dvd 4294967296" by simp
  ultimately show ?thesis using assms by (simp only: dvd_mod_iff) simp
qed

lemma page_step_inj:
  assumes "k < 1048576" "l < 1048576" "v + of_nat k * 4096 = v + (of_nat l * 4096 :: addr)"
  shows "k = l"
proof -
  have "(of_nat (k * 4096) :: addr) = of_nat (l * 4096)" using assms(3) by simp
  moreover have "k * 4096 < 4294967296" "l * 4096 < 4294967296" using assms(1,2) by simp_all
  ultimately have "k * 4096 = l * 4096" using unat_of_nat32 by metis
  then show ?thesis by simp
qed

definition page_entries :: "addr \<Rightarrow> addr \<Rightarrow> u32 \<Rightarrow> nat \<Rightarrow> (addr \<times> u32) list" where
  "page_entries v p f n =
     map (\<lambda>k. (v + of_nat k * 4096, (p + of_nat k * 4096) OR f)) [0..<n]"

lemma page_entries_Suc:
  "page_entries v p f (Suc n) = (v, p OR f) # page_entries (v + 4096) (p + 4096) f n"
  by (simp add: page_entries_def upt_conv_Cons map_Suc_upt [symmetric] algebra_simps del: upt_Suc)

lemma paging_map_range_entries:
  assumes "space_ok m chunk" "page_aligned v" "page_aligned p"
  shows "paging_map_range m chunk v p n f =
    set_entries (\<lambda>m v x. paging_set m (read32 m chunk) v x) m (page_entries v p f n)"
  using assms
proof (induction n arbitrary: m v p)
  case (Suc n)
  obtain m1 where m1: "paging_set m (read32 m chunk) v (p OR f) = Inr m1" "space_ok m1 chunk"
    using pspace.set_aligned[OF Suc.prems(1,2)] by blast
  have al: "page_aligned (v + 4096)" "page_aligned (p + 4096)"
    using page_aligned_add[of v 1] page_aligned_add[of p 1] Suc.prems by auto
  show ?case
    using Suc.IH[OF m1(2) al] Suc.prems m1(1)
    by (simp add: page_entries_Suc paging_map_def mod_4096_iff)
qed (simp add: page_entries_def)

lemma page_entries_fst: "map fst (page_entries v p f n) = map (\<lambda>k. v + of_nat k * 4096) [0..<n]"
  by (simp add: page_entries_def)

lemma page_entries_distinct: "n \<le> 1048576 \<Longrightarrow> distinct (map fst (page_entries v p f n))"
  unfolding page_entries_fst distinct_map
  by (auto intro!: inj_onI page_step_inj[of _ _ v])

lemma page_entries_lookup:
  assumes "n \<le> 1048576" "k < n"
  shows "map_of (page_entries v p f n) (v + of_nat k * 4096) = Some ((p + of_nat k * 4096) OR f)"
  by (rule map_of_is_SomeI[OF page_entries_distinct[OF assms(1)]])
    (use assms(2) in \<open>auto simp: page_entries_def\<close>)

lemma page_entries_none:
  "(\<And>k. k < n \<Longrightarrow> w \<noteq> v + of_nat k * 4096) \<Longrightarrow> map_of (page_entries v p f n) w = None"
  unfolding map_of_eq_None_iff page_entries_def set_map image_image fst_conv
  by (simp only: set_upt) (blast dest: atLeastLessThan_iff [THEN iffD1])

lemma paging_map_range_ok:
  assumes ok: "space_ok m chunk" and al: "page_aligned v" "page_aligned p" and n: "n \<le> 1048576"
  obtains m' where "paging_map_range m chunk v p n f = (Inr (), m')" "space_ok m' chunk"
    "\<And>k. k < n \<Longrightarrow> paging_get m' (read32 m' chunk) (v + of_nat k * 4096) = (p + of_nat k * 4096) OR f"
    "\<And>w. page_aligned w \<Longrightarrow> (\<And>k. k < n \<Longrightarrow> w \<noteq> v + of_nat k * 4096) \<Longrightarrow>
       paging_get m' (read32 m' chunk) w = paging_get m (read32 m chunk) w"
proof -
  have "\<forall>(a, x)\<in>set (page_entries v p f n). page_aligned a"
    using page_aligned_add[OF al(1)] by (auto simp: page_entries_def)
  from pspace.set_entries_ok[OF ok this page_entries_distinct[OF n]]
  obtain m' where m': "paging_map_range m chunk v p n f = (Inr (), m')" "space_ok m' chunk"
    "\<And>w. page_aligned w \<Longrightarrow> paging_get m' (read32 m' chunk) w =
       (case map_of (page_entries v p f n) w of Some x \<Rightarrow> x | None \<Rightarrow> paging_get m (read32 m chunk) w)"
    unfolding paging_map_range_entries[OF ok al] by blast
  show ?thesis
  proof (rule that[OF m'(1,2)])
    show "paging_get m' (read32 m' chunk) (v + of_nat k * 4096) = (p + of_nat k * 4096) OR f"
      if "k < n" for k
      using m'(3)[OF page_aligned_add[OF al(1), of k]] page_entries_lookup[OF n that, of v p f] by simp
    show "paging_get m' (read32 m' chunk) w = paging_get m (read32 m chunk) w"
      if "page_aligned w" "\<And>k. k < n \<Longrightarrow> w \<noteq> v + of_nat k * 4096" for w
      using m'(3)[OF that(1)] page_entries_none[OF that(2)] by simp
  qed
qed

lemma lower_page:
  "page_aligned (paging_align_to_lower_page a)"
  "unat (a - paging_align_to_lower_page a) < 4096"
proof -
  have m: "unat (a mod 4096) = unat a mod 4096" by (simp add: unat_mod)
  have "unat (a - a mod 4096) = unat a - unat a mod 4096"
    by (subst unat_diff32) (simp_all add: m)
  then have "unat (a - a mod 4096) = unat a div 4096 * 4096"
    by (simp add: minus_mod_eq_div_mult)
  then show "page_aligned (paging_align_to_lower_page a)" by (simp add: paging_align_to_lower_page_def)
  show "unat (a - paging_align_to_lower_page a) < 4096"
    by (simp add: paging_align_to_lower_page_def m)
qed

lemma lower_page_offset:
  assumes "page_aligned v" "unat d < 4096"
  shows "paging_align_to_lower_page (v + d) = v"
proof -
  obtain a where a: "unat v = 4096 * a" using assms(1) by (auto elim: dvdE)
  then have "a < 1048576" using unat32_lt[of v] by simp
  then have "unat (v + d) = 4096 * a + unat d"
    using unat_add_no_wrap[of v d] a assms(2) by simp
  then have "unat ((v + d) mod 4096) = unat d" using assms(2) by (simp add: unat_mod)
  then have "(v + d) mod 4096 = d" by (simp add: unat_eq_iff32 [symmetric])
  then show ?thesis by (simp add: paging_align_to_lower_page_def)
qed

lemma physical_address_offset:
  assumes "page_aligned v" "unat d < 4096" "page_aligned p" "unat f < 4096"
    and "paging_get m dir v = p OR f"
  shows "paging_get_physical_address m dir (v + d) = p + d"
  using assms by (simp add: paging_get_physical_address_def lower_page_offset page_mask_flags)

subsection \<open>Building a linear address space\<close>

lemma paging_fill_table_spec:
  assumes "page_aligned t" "j \<le> 1024"
  shows "\<forall>k < 1024. read32 (paging_fill_table m t off f j) (page_slot t k) =
      (if j \<le> k then (off + of_nat k * 4096) OR f else read32 m (page_slot t k))"
    and "\<forall>a. in_range t 4096 a \<or> paging_fill_table m t off f j a = m a"
  using assms
proof (induction m t off f j rule: paging_fill_table.induct)
  case (1 m t off f j)
  let ?m = "write32 m (page_slot t j) ((off + of_nat j * PAGING_PAGE_SIZE) OR f)"
  { case 1
    show ?case
    proof (cases "j < 1024")
      case True
      then have "\<forall>k < 1024. read32 (paging_fill_table ?m t off f (Suc j)) (page_slot t k) =
          (if Suc j \<le> k then (off + of_nat k * 4096) OR f else read32 ?m (page_slot t k))"
        using "1.IH"(1)[OF True 1(1)] by simp
      moreover have "read32 ?m (page_slot t k) =
          (if k = j then (off + of_nat j * 4096) OR f else read32 m (page_slot t k))" if "k < 1024" for k
        unfolding read32_write32_slot[OF 1(1) 1(1) that True] by auto
      ultimately show ?thesis
        unfolding paging_fill_table.simps[of m t off f j] using True
        by (auto simp: not_less_eq_eq dest: le_antisym)
    qed (use 1 in \<open>subst paging_fill_table.simps, simp\<close>)
  next
    case 2
    show ?case
    proof (cases "j < 1024")
      case True
      then have "\<forall>a. in_range t 4096 a \<or> paging_fill_table ?m t off f (Suc j) a = ?m a"
        using "1.IH"(2)[OF True 2(1)] by simp
      moreover have "?m a = m a" if "\<not> in_range t 4096 a" for a
        using that page_slot_range[OF True] write32_outside by blast
      ultimately show ?thesis
        unfolding paging_fill_table.simps[of m t off f j] if_P[OF True] by metis
    qed (simp add: paging_fill_table.simps[of m t off f j])
  }
qed

text \<open>Adding page regions to a live map.\<close>

definition add_pages :: "(addr \<rightharpoonup> nat) \<Rightarrow> addr set \<Rightarrow> (addr \<rightharpoonup> nat)" where
  "add_pages A S = (\<lambda>a. if a \<in> S then Some 4096 else A a)"

lemma add_pages_insert: "add_pages A (insert a S) = (add_pages A S)(a \<mapsto> 4096)"
  by (auto simp: add_pages_def)

lemma add_pages_Some [simp]: "a \<in> S \<Longrightarrow> add_pages A S a = Some 4096"
  by (simp add: add_pages_def)

lemma avail_cong:
  assumes "heap_layout (kernel_heap st)" "kernel_heap st' = kernel_heap st"
    and "\<And>a. table_byte (kernel_heap st) a \<Longrightarrow> mem st' a = mem st a"
  shows "avail st' = avail st"
proof -
  have "block_free (mem st') (kernel_heap st) i = block_free (mem st) (kernel_heap st) i"
    if "i < heap_blocks (kernel_heap st)" for i
    using assms(3)[OF table_byteI[OF that assms(1)]] by (simp add: block_free_def heap_get_entry_type_def)
  then show ?thesis unfolding avail_def assms(2) by (intro arg_cong[where f = length] filter_cong) auto
qed

lemma live_regions_mem:
  assumes "live_regions st A" "\<And>a. table_byte (kernel_heap st) a \<Longrightarrow> m a = mem st a"
  shows "live_regions (st\<lparr>mem := m\<rparr>) A" "avail (st\<lparr>mem := m\<rparr>) = avail st"
proof -
  obtain L where L: "kheap_ok st L" "A = region_map (kernel_heap st) L"
    using assms(1) by (auto simp: live_regions_def)
  then show "live_regions (st\<lparr>mem := m\<rparr>) A"
    using kheap_ok_mem[OF L(1) assms(2)] by (auto simp: live_regions_def)
  show "avail (st\<lparr>mem := m\<rparr>) = avail st"
    using L(1) assms(2) by (intro avail_cong) (auto simp: kheap_ok_def)
qed

text \<open>
  The directory loop after \<open>i\<close> rounds: tables \<open>t 0\<close>, ..., \<open>t (i - 1)\<close> are pages of
  their own, filled and entered in the directory, and every region live before
  is unchanged.
\<close>

definition tables_filled ::
    "memory \<Rightarrow> addr \<Rightarrow> u32 \<Rightarrow> nat \<Rightarrow> (nat \<Rightarrow> addr) \<Rightarrow> bool" where
  "tables_filled m dir f i t \<longleftrightarrow>
     inj_on t {..<i} \<and> (\<forall>j < i. page_aligned (t j) \<and> t j \<noteq> dir \<and>
       read32 m (page_slot dir j) = t j OR f OR 2 \<and>
       (\<forall>k < 1024. read32 m (page_slot (t j) k) = (of_nat j * 4194304 + of_nat k * 4096) OR f))"

definition filling ::
    "memory \<Rightarrow> (addr \<rightharpoonup> nat) \<Rightarrow> addr \<Rightarrow> u32 \<Rightarrow> 'z kmem_scheme \<Rightarrow> nat \<Rightarrow> (nat \<Rightarrow> addr) \<Rightarrow> bool" where
  "filling m0 A dir f st i t \<longleftrightarrow>
     live_regions st (add_pages A (insert dir (t ` {..<i}))) \<and>
     tables_filled (mem st) dir f i t \<and> (\<forall>j < i. A (t j) = None) \<and>
     (\<forall>q n x. A q = Some n \<longrightarrow> in_range q n x \<longrightarrow> mem st x = m0 x) \<and>
     (\<forall>x. \<not> table_byte (kernel_heap st) x \<longrightarrow> \<not> pool_byte (kernel_heap st) x \<longrightarrow> mem st x = m0 x)"

lemma tables_filled_cong:
  assumes "tables_filled m dir f i t" "i \<le> 1024"
    and "\<And>a. in_range dir 4096 a \<Longrightarrow> m' a = m a"
    and "\<And>j a. j < i \<Longrightarrow> in_range (t j) 4096 a \<Longrightarrow> m' a = m a"
  shows "tables_filled m' dir f i t"
proof -
  have d: "read32 m' (page_slot dir j) = read32 m (page_slot dir j)" if "j < i" for j
    using that assms(2,3) by (intro read32_page_cong) auto
  have t: "read32 m' (page_slot (t j) k) = read32 m (page_slot (t j) k)" if "j < i" "k < 1024" for j k
    using that assms(4) by (intro read32_page_cong) auto
  show ?thesis using assms(1) d t by (simp add: tables_filled_def)
qed


lemma filling_step:
  assumes fl: "filling m0 A dir f st i t" and i: "i < 1024" and dir: "page_aligned dir" "A dir = None"
    and av: "0 < avail st" and call: "kzalloc st 4096 = (e, st1)"
    and m1: "m1 = paging_fill_table (mem st1) e (of_nat i * 4194304) f 0"
    and m2: "m2 = write32 m1 (page_slot dir i) (e OR f OR 2)"
  shows "filling m0 A dir f (st1\<lparr>mem := m2\<rparr>) (Suc i) (t(i := e))"
    and "avail st = Suc (avail (st1\<lparr>mem := m2\<rparr>))"
proof -
  let ?A = "add_pages A (insert dir (t ` {..<i}))"
  have live: "live_regions st ?A" and tf: "tables_filled (mem st) dir f i t"
    and keep: "\<And>q n x. A q = Some n \<Longrightarrow> in_range q n x \<Longrightarrow> mem st x = m0 x"
    and tA: "\<forall>j < i. A (t j) = None"
    using fl by (auto simp: filling_def)
  have sz: "0 < unat (4096 :: u32)" "unat (4096 :: u32) \<le> 4096" by simp_all
  note law = kpages.alloc_page[OF live sz av call]
  have e: "page_aligned e" "?A e = None" and live1: "live_regions st1 (?A(e \<mapsto> 4096))"
    and h: "table_byte (kernel_heap st1) = table_byte (kernel_heap st)" using law by simp_all
  have new: "e \<noteq> dir" "e \<notin> t ` {..<i}" "A e = None"
    using e(2) by (auto simp: add_pages_def split: if_splits)
  have apart: "\<not> in_range e 4096 a" if "?A q = Some n" "in_range q n a" for q n a
    using kpages.alloc_new_apart[OF live sz av call that(1)] that(2) by (auto simp: disjoint_ranges_def)
  have dapart: "\<not> in_range dir 4096 a" if "?A q = Some n" "in_range q n a" "q \<noteq> dir" for q n a
    using kpages.live_apart[OF live, of dir 4096 q n] that by (auto simp: disjoint_ranges_def)
  have deapart: "\<not> in_range dir 4096 a" if "in_range e 4096 a" for a
    using apart[of dir 4096 a] that by auto
  have dslot: "\<not> in_range (page_slot dir i) 4 a" if "\<not> in_range dir 4096 a" for a
    using page_slot_range[OF i] that by blast
  have fill: "read32 m1 (page_slot e k) = (of_nat i * 4194304 + of_nat k * 4096) OR f" if "k < 1024" for k
    using paging_fill_table_spec(1)[OF e(1), of 0 "mem st1" "of_nat i * 4194304" f] that
    by (simp add: m1)
  have m1_out: "m1 a = mem st1 a" if "\<not> in_range e 4096 a" for a
    using paging_fill_table_spec(2)[OF e(1), of 0 "mem st1" "of_nat i * 4194304" f] that
    by (auto simp: m1)
  have st1_old: "mem st1 a = mem st a" if "?A q = Some n" "in_range q n a" for q n a
    using kpages.alloc_keeps_live[OF live sz av call that] .
  have m2_old: "m2 a = mem st a" if "?A q = Some n" "in_range q n a" "q \<noteq> dir" for q n a
    unfolding m2 using write32_outside[OF dslot[OF dapart[OF that]]] m1_out[OF apart[OF that(1,2)]]
      st1_old[OF that(1,2)] by simp
  have m1_old: "m1 a = mem st a" if "?A q = Some n" "in_range q n a" for q n a
    using m1_out[OF apart[OF that]] st1_old[OF that] by simp
  have tab: "m2 a = mem st1 a" if "table_byte (kernel_heap st1) a" for a
  proof -
    have "\<not> in_range e 4096 a" "\<not> in_range dir 4096 a"
      using kpages.live_private[OF live1, of e 4096 a] kpages.live_private[OF live1, of dir 4096 a]
        that new(1) by auto
    then show ?thesis unfolding m2 using write32_outside[OF dslot] m1_out by simp
  qed
  have live2: "live_regions (st1\<lparr>mem := m2\<rparr>) (?A(e \<mapsto> 4096))"
    and av2: "avail (st1\<lparr>mem := m2\<rparr>) = avail st1"
    using live_regions_mem[OF live1 tab] by auto
  then show "avail st = Suc (avail (st1\<lparr>mem := m2\<rparr>))" using law by simp
  have lastd: "read32 m2 (page_slot dir k) =
      (if k = i then e OR f OR 2 else read32 m1 (page_slot dir k))" if "k < 1024" for k
    unfolding m2 read32_write32_slot[OF dir(1) dir(1) that i] by auto
  have lastt: "read32 m2 (page_slot e k) = read32 m1 (page_slot e k)" if "k < 1024" for k
    unfolding m2 read32_write32_slot[OF e(1) dir(1) that i] using new(1) by auto
  have "tables_filled m1 dir f i t"
    using i by (intro tables_filled_cong[OF tf] m1_old[OF add_pages_Some]) auto
  then have tf1: "inj_on t {..<i}" "\<And>j. j < i \<Longrightarrow> page_aligned (t j) \<and> t j \<noteq> dir \<and>
      read32 m1 (page_slot dir j) = t j OR f OR 2 \<and>
      (\<forall>k < 1024. read32 m1 (page_slot (t j) k) = (of_nat j * 4194304 + of_nat k * 4096) OR f)"
    by (simp_all add: tables_filled_def)
  have oldt: "read32 m2 (page_slot (t j) k) = read32 m1 (page_slot (t j) k)" if "j < i" "k < 1024" for j k
    unfolding m2 read32_write32_slot[OF conjunct1[OF tf1(2)[OF that(1)]] dir(1) that(2) i]
    using tf1(2)[OF that(1)] by auto
  have ne: "t j \<noteq> e" if "j < i" for j using new(2) that by auto
  have "inj_on (t(i := e)) {..<Suc i}"
    using tf1(1) new(2) by (auto simp: lessThan_Suc inj_on_fun_updI)
  moreover have "page_aligned ((t(i := e)) j) \<and> (t(i := e)) j \<noteq> dir \<and>
      read32 m2 (page_slot dir j) = (t(i := e)) j OR f OR 2 \<and>
      (\<forall>k < 1024. read32 m2 (page_slot ((t(i := e)) j) k) = (of_nat j * 4194304 + of_nat k * 4096) OR f)"
    if "j < Suc i" for j
  proof (cases "j = i")
    case True
    then show ?thesis using e(1) new(1) lastd[OF i] lastt fill by simp
  next
    case False
    then have j: "j < i" using that by simp
    then show ?thesis using False tf1(2)[OF j] lastd[of j] oldt[OF j] i by simp
  qed
  ultimately have tf2: "tables_filled m2 dir f (Suc i) (t(i := e))"
    by (simp only: tables_filled_def) blast
  have img: "insert dir ((t(i := e)) ` {..<Suc i}) = insert e (insert dir (t ` {..<i}))"
    by (auto simp: less_Suc_eq image_iff)
  have "m2 x = m0 x" if "A q = Some n" "in_range q n x" for q n x
  proof -
    have q: "q \<noteq> dir" "q \<notin> t ` {..<i}" using that(1) dir(2) tA by auto
    then have "?A q = Some n" using that(1) by (simp add: add_pages_def)
    from m2_old[OF this that(2) q(1)] keep[OF that] show ?thesis by simp
  qed
  moreover have "m2 x = m0 x" if x: "\<not> table_byte (kernel_heap st1) x" "\<not> pool_byte (kernel_heap st1) x" for x
  proof -
    have p: "pool_byte (kernel_heap st1) = pool_byte (kernel_heap st)" using law by simp
    have o: "\<not> in_range e 4096 x" "\<not> in_range dir 4096 x"
      using kpages.live_pool[OF live1, of e 4096 x] kpages.live_pool[OF live1, of dir 4096 x] x(2) new(1) by auto
    have "m2 x = mem st1 x" unfolding m2 using write32_outside[OF dslot[OF o(2)]] m1_out[OF o(1)] by simp
    also have "\<dots> = mem st x" using law x(1) o(1) by (simp add: h)
    also have "\<dots> = m0 x" using fl x by (simp add: filling_def h p)
    finally show ?thesis .
  qed
  ultimately show "filling m0 A dir f (st1\<lparr>mem := m2\<rparr>) (Suc i) (t(i := e))"
    unfolding filling_def img add_pages_insert[of A e] using live2 tf2 tA new(3)
    by (simp del: fun_upd_apply) (auto simp: less_Suc_eq)
qed


lemma filling_directory:
  assumes "filling m0 A dir f st i t" "i \<le> 1024" "page_aligned dir" "A dir = None"
    and "1024 - i \<le> avail st"
  shows "\<exists>t'. filling m0 A dir f (paging_fill_directory st dir (of_nat i * 4194304) f i) 1024 t' \<and>
     avail st = avail (paging_fill_directory st dir (of_nat i * 4194304) f i) + (1024 - i)"
  using assms
proof (induction "1024 - i" arbitrary: st i t)
  case 0
  then show ?case by (subst (1 2) paging_fill_directory.simps) auto
next
  case (Suc r)
  then have i: "i < 1024" by simp
  obtain e st1 where call: "kzalloc st 4096 = (e, st1)" by fastforce
  let ?m1 = "paging_fill_table (mem st1) e (of_nat i * 4194304) f 0"
  let ?m2 = "write32 ?m1 (page_slot dir i) (e OR f OR 2)"
  let ?st = "st1\<lparr>mem := ?m2\<rparr>"
  note step = filling_step[OF Suc.prems(1) i Suc.prems(3,4) _ call refl refl]
  have av: "0 < avail st" using Suc.prems(5) i by simp
  have off: "of_nat i * 4194304 + 4194304 = (of_nat (Suc i) * 4194304 :: u32)"
    by (simp add: algebra_simps)
  have unf: "paging_fill_directory st dir (of_nat i * 4194304) f i =
      paging_fill_directory ?st dir (of_nat (Suc i) * 4194304) f (Suc i)"
    by (subst paging_fill_directory.simps) (simp add: i call off Let_def del: of_nat_Suc)
  have "\<exists>t'. filling m0 A dir f (paging_fill_directory ?st dir (of_nat (Suc i) * 4194304) f (Suc i)) 1024 t' \<and>
     avail ?st = avail (paging_fill_directory ?st dir (of_nat (Suc i) * 4194304) f (Suc i)) + (1024 - Suc i)"
    by (rule Suc.hyps(1)) (use Suc.hyps(2) Suc.prems step[OF av] i in auto)
  then show ?case unfolding unf using step(2)[OF av] i by auto
qed

lemma page_or_flags:
  assumes "page_aligned p" "unat f < 4096"
  shows "(p OR f OR 2) AND PAGE_MASK = p"
proof -
  have "f = take_bit 12 f" "(2::u32) = take_bit 12 2"
    using assms(2) by (simp_all add: take_bit_eq_mod unat_arith_simps)
  then have "f OR 2 = take_bit 12 (f OR 2)" by (metis take_bit_or)
  moreover have "unat (take_bit 12 (f OR 2)) < 2 ^ 12"
    by (simp only: unsigned_take_bit_eq take_bit_nat_less_exp)
  ultimately have "unat (f OR 2) < 4096" by simp
  then show ?thesis by (rule page_mask_flags[OF assms(1)])
qed

text \<open>A complete address space whose pages are live allocations.\<close>

definition space_pages :: "memory \<Rightarrow> addr \<Rightarrow> addr set" where
  "space_pages m chunk =
     insert chunk (insert (read32 m chunk) (dir_table m (read32 m chunk) ` {..<1024}))"

definition linear_space :: "memory \<Rightarrow> addr \<Rightarrow> u32 \<Rightarrow> bool" where
  "linear_space m chunk f \<longleftrightarrow> space_ok m chunk \<and>
     (\<forall>v. page_aligned v \<longrightarrow> paging_get m (read32 m chunk) v = v OR f)"

lemma table_entry_offset:
  assumes "page_aligned v"
  shows "(of_nat (dir_index v) * 4194304 + of_nat (tab_index v) * 4096 :: addr) = v"
proof -
  obtain a where a: "unat v = 4096 * a" using assms by (auto elim: dvdE)
  have "dir_index v = a div 1024" "tab_index v = a mod 1024"
    using div_mult2_eq[of "4096 * a" 4096 1024] mult_mod_right[of 4096 a 1024]
    by (simp_all add: dir_index_def tab_index_def a)
  then have "dir_index v * 4194304 + tab_index v * 4096 = unat v"
    using a div_mult_mod_eq[of a 1024] by linarith
  then have "of_nat (dir_index v * 4194304 + tab_index v * 4096) = v" by simp
  then show ?thesis by simp
qed

lemma linear_space_tables:
  assumes tf: "tables_filled m dir f 1024 t" and f: "unat f < 4096"
    and al: "page_aligned chunk" "page_aligned dir" and c: "read32 m chunk = dir"
    and ne: "chunk \<noteq> dir" "chunk \<notin> t ` {..<1024}"
  shows "linear_space m chunk f" "space_pages m chunk = insert chunk (insert dir (t ` {..<1024}))"
proof -
  have t: "page_aligned (t i)" "t i \<noteq> dir" "read32 m (page_slot dir i) = t i OR f OR 2"
    "k < 1024 \<Longrightarrow> read32 m (page_slot (t i) k) = (of_nat i * 4194304 + of_nat k * 4096) OR f"
    if "i < 1024" for i k using tf that by (simp_all add: tables_filled_def)
  have dt: "dir_table m dir i = t i" if "i < 1024" for i
    using page_or_flags[OF t(1) f] t(3) that by (simp add: dir_table_def)
  have "dir_table m dir ` {..<1024} = t ` {..<1024}" using dt by (auto simp: image_iff)
  then show "space_pages m chunk = insert chunk (insert dir (t ` {..<1024}))"
    by (simp add: space_pages_def c)
  have "map (dir_table m dir) [0..<1024] = map t [0..<1024]" using dt by (intro map_cong) auto
  moreover have "distinct (map t [0..<1024])" "dir \<notin> set (map t [0..<1024])"
    "chunk \<notin> set (map t [0..<1024])"
    using tf ne(2) t(2) by (auto simp: distinct_map tables_filled_def atLeast0LessThan)
  ultimately have ok: "space_ok m chunk"
    unfolding space_ok_def Let_def c by (simp only:) (use al ne(1) in simp)
  moreover have "paging_get m dir v = v OR f" if "page_aligned v" for v
    unfolding paging_get_eq[OF that] dt[OF index_bounds(1)]
      t(4)[OF index_bounds(1) index_bounds(2)] table_entry_offset[OF that] by (rule refl)
  ultimately show "linear_space m chunk f" by (simp add: linear_space_def c)
qed

lemma kernel_heap_kzalloc: "kzalloc st sz = (p, st') \<Longrightarrow> kernel_heap st' = kernel_heap st"
  by (auto simp: kzalloc_def kmalloc_def Let_def split: prod.splits if_splits)

lemma paging_fill_directory_heap: "kernel_heap (paging_fill_directory st dir off f i) = kernel_heap st"
proof (induction st dir off f i rule: paging_fill_directory.induct)
  case (1 st dir off f i)
  obtain e st1 where z: "kzalloc st 4096 = (e, st1)" by fastforce
  show ?case
    by (subst paging_fill_directory.simps) (use 1[OF _ z[symmetric]] kernel_heap_kzalloc[OF z] in \<open>simp add: z Let_def\<close>)
qed

lemma paging_new_4gb_ok:
  assumes live: "live_regions st A" and av: "1026 \<le> avail st"
    and call: "paging_new_4gb st flags = (chunk, st')"
  shows "linear_space (mem st') chunk (ucast flags)"
    and "live_regions st' (add_pages A (space_pages (mem st') chunk))"
    and "avail st = avail st' + 1026"
    and "a \<in> space_pages (mem st') chunk \<Longrightarrow> A a = None"
    and "A q = Some n \<Longrightarrow> in_range q n x \<Longrightarrow> mem st' x = mem st x"
    and "\<not> table_byte (kernel_heap st) x \<Longrightarrow> \<not> pool_byte (kernel_heap st) x \<Longrightarrow> mem st' x = mem st x"
proof -
  have sz: "0 < unat (4096 :: u32)" "unat (4096 :: u32) \<le> 4096"
    "0 < unat (4 :: u32)" "unat (4 :: u32) \<le> 4096" by simp_all
  define f :: u32 where "f = ucast flags"
  have f: "unat f < 4096"
  proof -
    have "unat flags < 256" using unsigned_less[of flags] by simp
    then show ?thesis by (simp add: f_def unsigned_ucast_eq take_bit_nat_eq_self)
  qed
  obtain dir st1 where c1: "kzalloc st 4096 = (dir, st1)" by fastforce
  define st2 where "st2 = paging_fill_directory st1 dir 0 f 0"
  obtain ck st3 where c3: "kzalloc st2 4 = (ck, st3)" by fastforce
  have eqs: "chunk = ck" "st' = st3\<lparr>mem := write32 (mem st3) ck dir\<rparr>"
    using call c1 c3 by (auto simp: paging_new_4gb_def st2_def f_def)
  note law1 = kpages.alloc_page[OF live sz(1,2) _ c1]
  have av0: "0 < avail st" using av by simp
  have dir: "page_aligned dir" "A dir = None" "live_regions st1 (A(dir \<mapsto> 4096))"
    "avail st = Suc (avail st1)" using law1[OF av0] by auto
  have "mem st1 x = mem st x" if "\<not> table_byte (kernel_heap st1) x" "\<not> pool_byte (kernel_heap st1) x" for x
    using law1[OF av0] that kpages.live_pool[OF dir(3), of dir 4096 x] by auto
  then have "filling (mem st) A dir f st1 0 t" for t
    using dir kpages.alloc_keeps_live[OF live sz(1,2) av0 c1]
    by (auto simp: filling_def tables_filled_def add_pages_insert) (auto simp: add_pages_def)
  from filling_directory[OF this _ dir(1,2)] dir(4) av
  obtain t where fl: "filling (mem st) A dir f st2 1024 t" and av2: "avail st1 = avail st2 + 1024"
    by (auto simp: st2_def)
  let ?A = "add_pages A (insert dir (t ` {..<1024}))"
  have live2: "live_regions st2 ?A" and tf: "tables_filled (mem st2) dir f 1024 t"
    and tA: "\<forall>j < 1024. A (t j) = None"
    and keep: "\<And>q n x. A q = Some n \<Longrightarrow> in_range q n x \<Longrightarrow> mem st2 x = mem st x"
    using fl by (auto simp: filling_def)
  have av2': "0 < avail st2" using av av2 dir(4) by simp
  note law3 = kpages.alloc_page[OF live2 sz(3,4) av2' c3]
  have ck: "page_aligned ck" "?A ck = None" and live3: "live_regions st3 (?A(ck \<mapsto> 4096))"
    using law3 by auto
  have new: "ck \<noteq> dir" "ck \<notin> t ` {..<1024}" "A ck = None"
    using ck(2) by (auto simp: add_pages_def split: if_splits)
  have slot: "in_range ck 4096 a" if "in_range ck 4 a" for a
    using that by (rule in_range_mono) simp
  have old: "mem st' a = mem st2 a" if "?A q = Some n" "in_range q n a" for q n a
  proof -
    have "\<not> in_range ck 4096 a"
      using kpages.alloc_new_apart[OF live2 sz(3,4) av2' c3 that(1)] that(2)
      by (auto simp: disjoint_ranges_def)
    then have "\<not> in_range ck 4 a" using slot by blast
    then show ?thesis using kpages.alloc_keeps_live[OF live2 sz(3,4) av2' c3 that]
      by (simp add: eqs(2) write32_outside)
  qed
  have tf': "tables_filled (mem st') dir f 1024 t"
    by (intro tables_filled_cong[OF tf] old[OF add_pages_Some]) auto
  have rd: "read32 (mem st') chunk = dir" by (simp add: eqs read32_write32_same)
  note lin = linear_space_tables[OF tf' f _ dir(1) rd]
  show "linear_space (mem st') chunk (ucast flags)"
    using lin(1) ck(1) new by (simp add: eqs f_def)
  have pages: "space_pages (mem st') chunk = insert ck (insert dir (t ` {..<1024}))"
    using lin(2) ck(1) new by (simp add: eqs)
  have tab: "mem st' a = mem st3 a" if "table_byte (kernel_heap st3) a" for a
  proof -
    have "\<not> in_range ck 4 a" using kpages.live_private[OF live3, of ck 4096 a] that slot by auto
    then show ?thesis by (simp add: eqs(2) write32_outside)
  qed
  show "live_regions st' (add_pages A (space_pages (mem st') chunk))"
    unfolding pages add_pages_insert [of A ck] unfolding eqs(2)
    by (rule live_regions_mem(1)[OF live3]) (use tab in \<open>simp add: eqs(2)\<close>)
  show "avail st = avail st' + 1026"
    using live_regions_mem(2)[OF live3 tab] law3 av2 dir(4) by (simp add: eqs(2))
  show "A a = None" if "a \<in> space_pages (mem st') chunk" for a
    using that new(3) dir(2) tA by (auto simp: pages)
  show "mem st' x = mem st x" if "A q = Some n" "in_range q n x" for q n x
  proof -
    have "q \<noteq> dir" "q \<notin> t ` {..<1024}" using that(1) dir(2) tA by auto
    then have "?A q = Some n" using that(1) by (simp add: add_pages_def)
    from old[OF this that(2)] keep[OF that] show ?thesis by simp
  qed
  show "mem st' x = mem st x" if x: "\<not> table_byte (kernel_heap st) x" "\<not> pool_byte (kernel_heap st) x" for x
  proof -
    have h: "kernel_heap st2 = kernel_heap st"
      using kernel_heap_kzalloc[OF c1] paging_fill_directory_heap[of st1 dir 0 f 0] by (simp add: st2_def)
    have p3: "\<not> pool_byte (kernel_heap st3) x" using kernel_heap_kzalloc[OF c3] h x(2) by simp
    have "\<not> in_range ck 4 x" using kpages.live_pool[OF live3, of ck 4096 x] p3 slot by auto
    then have "mem st' x = mem st3 x" by (simp add: eqs(2) write32_outside)
    also have "\<dots> = mem st2 x" using law3 x(1) \<open>\<not> in_range ck 4 x\<close> by (simp add: h)
    also have "\<dots> = mem st x" using fl x by (simp add: filling_def h)
    finally show ?thesis .
  qed
qed

lemma linear_space_identity:
  assumes "linear_space m chunk f" "unat f < 4096"
  shows "paging_get_physical_address m (paging_4gb_chunk_get_directory m chunk) v = v"
  using assms lower_page(1)[of v]
  by (simp add: paging_get_physical_address_def paging_4gb_chunk_get_directory_def
      linear_space_def page_mask_flags)

subsection \<open>Releasing an address space\<close>

lemma paging_free_tables_ok:
  assumes "live_regions st A" "i \<le> 1024" "space_ok (mem st) chunk"
    and "A chunk = Some 4096" "A (read32 (mem st) chunk) = Some 4096"
    and "\<And>j. i \<le> j \<Longrightarrow> j < 1024 \<Longrightarrow> A (dir_table (mem st) (read32 (mem st) chunk) j) = Some 4096"
  shows "live_regions (paging_free_tables st chunk i)
      (\<lambda>a. if a \<in> dir_table (mem st) (read32 (mem st) chunk) ` {i..<1024} then None else A a) \<and>
     avail (paging_free_tables st chunk i) = avail st + (1024 - i) \<and>
     read32 (mem (paging_free_tables st chunk i)) chunk = read32 (mem st) chunk \<and>
     (\<forall>a. table_byte (kernel_heap st) a \<or> mem (paging_free_tables st chunk i) a = mem st a)"
  using assms
proof (induction "1024 - i" arbitrary: st i A)
  case 0
  then have "{i..<1024} = {}" "\<not> i < 1024" by auto
  then show ?case using 0 by (subst (1 2 3 4) paging_free_tables.simps) simp
next
  case (Suc r)
  then have i: "i < 1024" by simp
  let ?dir = "read32 (mem st) chunk"
  let ?t = "dir_table (mem st) ?dir"
  let ?st = "kfree st (?t i)"
  have ti: "A (?t i) = Some 4096" using Suc.prems(6) i by simp
  note rel = kpages.release_live[OF Suc.prems(1) ti]
  have keep: "mem ?st a = mem st a" if "A q = Some n" "in_range q n a" for q n a
    using rel kpages.live_private[OF Suc.prems(1) that] by auto
  have al: "page_aligned chunk" "page_aligned ?dir"
    using Suc.prems(3) by (auto simp: space_ok_def Let_def)
  have c: "read32 (mem ?st) chunk = ?dir"
    using read32_page_cong[of 0 chunk "mem ?st" "mem st"] keep[OF Suc.prems(4)] by simp
  have d: "dir_table (mem ?st) ?dir j = ?t j" if "j < 1024" for j
    using read32_page_cong[OF that, of ?dir "mem ?st" "mem st"] keep[OF Suc.prems(5)]
    by (simp add: dir_table_def)
  have ok: "space_ok (mem ?st) chunk"
  proof -
    have "map (dir_table (mem ?st) ?dir) [0..<1024] = map ?t [0..<1024]"
      using d by (intro map_cong) auto
    then show ?thesis using Suc.prems(3) by (simp only: space_ok_def Let_def c)
  qed
  have ne: "?t j \<noteq> ?t i" if "Suc i \<le> j" "j < 1024" for j
    using space_ok_tables(3)[OF Suc.prems(3) that(2) i] that by simp
  have ch: "chunk \<noteq> ?t i" "?dir \<noteq> ?t i" using space_ok_tables(1,2)[OF Suc.prems(3) i] by auto
  have unf: "paging_free_tables st chunk i = paging_free_tables ?st chunk (Suc i)"
    by (subst paging_free_tables.simps) (simp add: i dir_table_def Let_def)
  have img: "dir_table (mem ?st) ?dir ` {Suc i..<1024} = ?t ` {Suc i..<1024}"
    using d by (intro image_cong) auto
  have ins: "{i..<1024} = insert i {Suc i..<1024}" using i by auto
  have mapeq: "(\<lambda>a. if a \<in> ?t ` {Suc i..<1024} then None else (A(?t i := None)) a) =
      (\<lambda>a. if a \<in> ?t ` {i..<1024} then None else A a)"
    unfolding ins by auto
  have "live_regions (paging_free_tables ?st chunk (Suc i))
      (\<lambda>a. if a \<in> dir_table (mem ?st) (read32 (mem ?st) chunk) ` {Suc i..<1024} then None
           else (A(?t i := None)) a) \<and>
     avail (paging_free_tables ?st chunk (Suc i)) = avail ?st + (1024 - Suc i) \<and>
     read32 (mem (paging_free_tables ?st chunk (Suc i))) chunk = read32 (mem ?st) chunk \<and>
     (\<forall>a. table_byte (kernel_heap ?st) a \<or> mem (paging_free_tables ?st chunk (Suc i)) a = mem ?st a)"
  proof (rule Suc.hyps(1))
    show "r = 1024 - Suc i" using Suc.hyps(2) by simp
    show "live_regions ?st (A(?t i := None))" using rel by blast
    show "Suc i \<le> 1024" using i by simp
    show "space_ok (mem ?st) chunk" by (rule ok)
    show "(A(?t i := None)) chunk = Some 4096" using Suc.prems(4) ch by simp
    show "(A(?t i := None)) (read32 (mem ?st) chunk) = Some 4096" using Suc.prems(5) ch c by simp
    show "(A(?t i := None)) (dir_table (mem ?st) (read32 (mem ?st) chunk) j) = Some 4096"
      if "Suc i \<le> j" "j < 1024" for j
      unfolding c d[OF that(2)] using ne[OF that] Suc.prems(6)[of j] that by simp
  qed
  note rest = this [unfolded c img mapeq]
  have "table_byte (kernel_heap st) a \<or> mem (paging_free_tables ?st chunk (Suc i)) a = mem st a" for a
  proof (cases "table_byte (kernel_heap st) a")
    case False
    then have "mem (paging_free_tables ?st chunk (Suc i)) a = mem ?st a"
      using rest kernel_heap_kfree[of st "?t i"] by metis
    then show ?thesis using rel False by simp
  qed simp
  then show ?case unfolding unf using rest rel i by simp
qed

lemma paging_free_4gb_ok:
  assumes live: "live_regions st A" and ok: "space_ok (mem st) chunk"
    and pages: "\<And>a. a \<in> space_pages (mem st) chunk \<Longrightarrow> A a = Some 4096"
  shows "live_regions (paging_free_4gb st chunk)
      (\<lambda>a. if a \<in> space_pages (mem st) chunk then None else A a)"
    and "avail (paging_free_4gb st chunk) = avail st + 1026"
    and "table_byte (kernel_heap st) a \<or> mem (paging_free_4gb st chunk) a = mem st a"
proof -
  let ?dir = "read32 (mem st) chunk"
  let ?T = "dir_table (mem st) ?dir ` {0..<1024}"
  define st1 where "st1 = paging_free_tables st chunk 0"
  define st2 where "st2 = kfree st1 ?dir"
  let ?A1 = "\<lambda>a. if a \<in> ?T then None else A a"
  have "A chunk = Some 4096" "A ?dir = Some 4096" "\<And>j. j < 1024 \<Longrightarrow> A (dir_table (mem st) ?dir j) = Some 4096"
    using pages by (auto simp: space_pages_def)
  note one = paging_free_tables_ok[OF live _ ok this, of 0, folded st1_def, simplified]
  have ne: "chunk \<notin> ?T" "?dir \<notin> ?T" "chunk \<noteq> ?dir"
    using space_ok_tables(1,2)[OF ok] ok by (auto simp: space_ok_def Let_def)
  have h1: "table_byte (kernel_heap st1) = table_byte (kernel_heap st)"
  proof -
    have "kernel_heap (paging_free_tables s c i) = kernel_heap s" for s :: "'a kmem_scheme" and c i
      by (induction s c i rule: paging_free_tables.induct)
        (subst paging_free_tables.simps, simp add: Let_def)
    then show ?thesis by (simp add: st1_def)
  qed
  have live1: "live_regions st1 ?A1" using one by blast
  have d: "?A1 ?dir = Some 4096" "?A1 chunk = Some 4096"
    using ne pages by (auto simp: space_pages_def)
  note rel2 = kpages.release_live[OF live1 d(1), folded st2_def]
  have ck: "(?A1(?dir := None)) chunk = Some 4096" using d(2) ne(3) by simp
  have live2: "live_regions st2 (?A1(?dir := None))" using rel2 by blast
  note rel3 = kpages.release_live[OF live2 ck]
  have fin: "paging_free_4gb st chunk = kfree st2 chunk"
    using one by (simp add: paging_free_4gb_def st1_def [symmetric] st2_def Let_def)
  have "((?A1(?dir := None))(chunk := None)) =
      (\<lambda>a. if a \<in> space_pages (mem st) chunk then None else A a)"
    by (auto simp: space_pages_def atLeast0LessThan fun_eq_iff)
  then show "live_regions (paging_free_4gb st chunk)
      (\<lambda>a. if a \<in> space_pages (mem st) chunk then None else A a)"
    using rel3 by (simp only: fin)
  show "avail (paging_free_4gb st chunk) = avail st + 1026" using rel3 rel2 one by (simp add: fin)
  show "table_byte (kernel_heap st) a \<or> mem (paging_free_4gb st chunk) a = mem st a"
    using rel3 rel2 one h1 unfolding fin by metis
qed

subsection \<open>Properties\<close>

lemma split_offset:
  fixes b :: addr
  shows "b = of_nat (unat b div 4096) * 4096 + b mod 4096" "unat (b mod 4096) < 4096"
proof -
  show "unat (b mod 4096) < 4096" by (simp add: unat_mod)
  have "unat b = unat b div 4096 * 4096 + unat b mod 4096" by (rule div_mult_mod_eq [symmetric])
  moreover have "of_nat (unat b) = b" by simp
  ultimately have "b = of_nat (unat b div 4096 * 4096 + unat b mod 4096)" by metis
  moreover have "of_nat (unat b mod 4096) = b mod 4096"
    using unat_of_nat32[of "unat b mod 4096"] by (simp add: unat_eq_iff32 [symmetric] unat_mod)
  ultimately show "b = of_nat (unat b div 4096) * 4096 + b mod 4096"
    by (metis of_nat_add of_nat_mult of_nat_numeral)
qed

text \<open>Where the entries of a range of pages are set, every byte of it translates.\<close>

lemma entries_translate:
  assumes al: "page_aligned v" "page_aligned p" and f: "unat f < 4096"
    and get: "\<And>k. k < n \<Longrightarrow> paging_get m dir (v + of_nat k * 4096) = (p + of_nat k * 4096) OR f"
    and b: "unat b < n * 4096"
  shows "paging_get_physical_address m dir (v + b) = p + b"
proof -
  let ?k = "unat b div 4096"
  have "?k < n" using b by (simp add: div_less_iff_less_mult)
  from physical_address_offset[OF page_aligned_add[OF al(1)] split_offset(2)
      page_aligned_add[OF al(2)] f get[OF this]]
  have "paging_get_physical_address m dir (v + (of_nat ?k * 4096 + b mod 4096)) =
      p + (of_nat ?k * 4096 + b mod 4096)" by (simp only: add.assoc)
  then show ?thesis by (simp only: split_offset(1)[of b, symmetric])
qed

lemma aligned_diff_pages:
  assumes "page_aligned p" "page_aligned q" "p \<le> q"
  shows "unat ((q - p) div 4096) * 4096 = unat (q - p)"
proof -
  have "unat (q - p) = unat q - unat p" using assms(3) by (simp add: unat_diff32 word_le_nat_alt)
  then have "4096 dvd unat (q - p)" using assms(1,2) by (simp add: dvd_diff_nat)
  then show ?thesis by (simp add: unat_div)
qed

text \<open>
  C5: on a well-formed address space, \<^verbatim>\<open>paging_map_to\<close> with aligned arguments and
  \<open>p \<le> e\<close> succeeds: byte \<open>b\<close> of the virtual range from \<open>v\<close> on translates to byte \<open>b\<close> of
  the physical range from \<open>p\<close> to \<open>e\<close>, the entries of all other pages keep their
  value, and the address space stays well-formed.
\<close>

theorem paging_map_to_translates:
  assumes "space_ok m chunk" "page_aligned v" "page_aligned p" "page_aligned e" "p \<le> e"
    and "unat flags < 4096"
  shows "\<exists>m'. paging_map_to m chunk v p e flags = (Inr (), m') \<and> space_ok m' chunk \<and>
     (\<forall>b. unat b < unat (e - p) \<longrightarrow>
        paging_get_physical_address m' (paging_4gb_chunk_get_directory m' chunk) (v + b) = p + b) \<and>
     (\<forall>w. page_aligned w \<longrightarrow> unat (w - v) \<ge> unat (e - p) \<longrightarrow>
        paging_get m' (paging_4gb_chunk_get_directory m' chunk) w =
        paging_get m (paging_4gb_chunk_get_directory m chunk) w)"
proof -
  define n where "n = unat ((e - p) div 4096)"
  have n: "n * 4096 = unat (e - p)" unfolding n_def by (rule aligned_diff_pages) (use assms in auto)
  then have n': "n \<le> 1048576" using unat32_lt[of "e - p"] by simp
  obtain m' where m': "paging_map_range m chunk v p n flags = (Inr (), m')" "space_ok m' chunk"
    "\<And>k. k < n \<Longrightarrow> paging_get m' (read32 m' chunk) (v + of_nat k * 4096) = (p + of_nat k * 4096) OR flags"
    "\<And>w. page_aligned w \<Longrightarrow> (\<And>k. k < n \<Longrightarrow> w \<noteq> v + of_nat k * 4096) \<Longrightarrow>
       paging_get m' (read32 m' chunk) w = paging_get m (read32 m chunk) w"
    using paging_map_range_ok[OF assms(1-3) n'] by blast
  have call: "paging_map_to m chunk v p e flags = (Inr (), m')"
    using assms m'(1) by (simp add: paging_map_to_def mod_4096_iff n_def Let_def)
  have tr: "paging_get_physical_address m' (read32 m' chunk) (v + b) = p + b"
    if "unat b < unat (e - p)" for b
  proof (rule entries_translate[OF assms(2,3,6)])
    show "unat b < n * 4096" unfolding n by (rule that)
  qed (rule m'(3))
  have out: "paging_get m' (read32 m' chunk) w = paging_get m (read32 m chunk) w"
    if "page_aligned w" "unat (w - v) \<ge> unat (e - p)" for w
  proof (rule m'(4)[OF that(1)])
    fix k assume k: "k < n"
    have "unat (of_nat (k * 4096) :: addr) = k * 4096"
      by (rule unat_of_nat32) (use k n unat32_lt[of "e - p"] in linarith)
    then show "w \<noteq> v + of_nat k * 4096" using that(2) n k by auto
  qed
  show ?thesis using call m'(2) tr out by (auto simp: paging_4gb_chunk_get_directory_def)
qed

definition boot_state :: kmem where
  "boot_state = \<lparr>mem = \<lambda>_. 0, kernel_heap = boot_heap\<rparr>"

lemma boot_state_live: "live_regions boot_state (region_map boot_heap Map.empty)" "avail boot_state = 25600"
proof -
  have ok: "kheap_ok boot_state Map.empty"
    using heap_inv_zero[OF boot_heap_layout, of "\<lambda>_. 0"] boot_heap_layout
    by (simp add: kheap_ok_def boot_state_def)
  then show "live_regions boot_state (region_map boot_heap Map.empty)"
    by (auto simp: live_regions_def boot_state_def)
  have "card {k. k < heap_blocks boot_heap \<and> \<not> covered Map.empty k} = 25600"
    by (simp add: covered_def boot_heap_def)
  then show "avail boot_state = 25600" using avail_card[OF ok] by (simp add: boot_state_def)
qed

definition boot_space :: "addr \<times> kmem" where
  "boot_space = paging_new_4gb boot_state 7"

lemma boot_space_linear: "linear_space (mem (snd boot_space)) (fst boot_space) 7"
proof -
  have "linear_space (mem (snd boot_space)) (fst boot_space) (ucast (7 :: u8))"
    by (rule paging_new_4gb_ok(1)[OF boot_state_live(1)]) (simp_all add: boot_state_live(2) boot_space_def)
  then show ?thesis by simp
qed

theorem paging_map_to_translates_witness:
  "\<exists>m'. paging_map_to (mem (snd boot_space)) (fst boot_space) 0x400000 0x2000000 0x2002000 7 = (Inr (), m') \<and>
     paging_get_physical_address m' (paging_4gb_chunk_get_directory m' (fst boot_space)) 0x401010 = 0x2001010"
proof -
  have "space_ok (mem (snd boot_space)) (fst boot_space)"
    using boot_space_linear by (simp add: linear_space_def)
  from paging_map_to_translates[OF this, of "0x400000" "0x2000000" "0x2002000" 7]
  obtain m' where "paging_map_to (mem (snd boot_space)) (fst boot_space) 0x400000 0x2000000 0x2002000 7 = (Inr (), m')"
    "\<And>b. unat b < 8192 \<Longrightarrow> paging_get_physical_address m'
       (paging_4gb_chunk_get_directory m' (fst boot_space)) (0x400000 + b) = 0x2000000 + b"
    by auto
  from this(1) this(2)[of "0x1010"] show ?thesis by auto
qed

text \<open>
  \<^verbatim>\<open>paging_map_to\<close> refuses a misaligned virtual, physical or end address and
  an end below the start with \<open>EINVARG\<close>, before changing any entry.
\<close>

theorem paging_map_to_refuses:
  assumes "\<not> page_aligned v \<or> \<not> page_aligned p \<or> \<not> page_aligned e \<or> e < p"
  shows "paging_map_to m chunk v p e flags = (Inl EINVARG, m)"
  using assms by (auto simp: paging_map_to_def mod_4096_iff)

theorem paging_map_to_refuses_witness:
  "paging_map_to (\<lambda>_. 0) 0 0x400000 0x2000000 0x2000800 7 = (Inl EINVARG, \<lambda>_. 0)"
  by (rule paging_map_to_refuses) simp

text \<open>
  C6: with 1026 free blocks, \<^verbatim>\<open>paging_new_4gb\<close> builds a linear address space: its
  chunk, directory and 1024 tables are new live pages, every virtual address
  translates to itself, and no byte of an earlier live allocation changes.
\<close>

theorem paging_new_4gb_identity:
  assumes "live_regions st A" "1026 \<le> avail st" "paging_new_4gb st flags = (chunk, st')"
  shows "(\<forall>v. paging_get_physical_address (mem st')
        (paging_4gb_chunk_get_directory (mem st') chunk) v = v) \<and>
     space_ok (mem st') chunk \<and> avail st = avail st' + 1026 \<and>
     live_regions st' (add_pages A (space_pages (mem st') chunk)) \<and>
     (\<forall>a \<in> space_pages (mem st') chunk. A a = None) \<and>
     (\<forall>q n x. A q = Some n \<longrightarrow> in_range q n x \<longrightarrow> mem st' x = mem st x)"
proof -
  note new = paging_new_4gb_ok[OF assms]
  have "unat flags < 256" using unsigned_less[of flags] by simp
  then have "unat (ucast flags :: u32) < 4096"
    by (simp add: unsigned_ucast_eq take_bit_nat_eq_self)
  from linear_space_identity[OF new(1) this] new show ?thesis by (simp add: linear_space_def)
qed

theorem paging_new_4gb_identity_witness:
  "paging_get_physical_address (mem (snd boot_space))
     (paging_4gb_chunk_get_directory (mem (snd boot_space)) (fst boot_space)) 0xB8000 = 0xB8000"
proof -
  have call: "paging_new_4gb boot_state 7 = (fst boot_space, snd boot_space)" by (simp add: boot_space_def)
  have "1026 \<le> avail boot_state" by (simp add: boot_state_live(2))
  from paging_new_4gb_identity[OF boot_state_live(1) this call] show ?thesis by blast
qed

text \<open>
  C33: \<^verbatim>\<open>paging_free_4gb\<close> gives back every page of the space: creating an address
  space and freeing it restores the live regions and the number of free blocks,
  and leaves the contents of the live regions as they were.
\<close>

theorem paging_new_free:
  assumes "live_regions st A" "1026 \<le> avail st" "paging_new_4gb st flags = (chunk, st')"
  shows "live_regions (paging_free_4gb st' chunk) A \<and>
     avail (paging_free_4gb st' chunk) = avail st \<and>
     (\<forall>q n x. A q = Some n \<longrightarrow> in_range q n x \<longrightarrow> mem (paging_free_4gb st' chunk) x = mem st x)"
proof -
  note new = paging_new_4gb_ok[OF assms]
  let ?S = "space_pages (mem st') chunk"
  have ok: "space_ok (mem st') chunk" using new(1) by (simp add: linear_space_def)
  note free = paging_free_4gb_ok[OF new(2) ok add_pages_Some]
  have "(\<lambda>a. if a \<in> ?S then None else add_pages A ?S a) = A"
    using new(4) by (auto simp: add_pages_def)
  then have "live_regions (paging_free_4gb st' chunk) A" using free(1) by simp
  moreover have "mem (paging_free_4gb st' chunk) x = mem st x" if "A q = Some n" "in_range q n x" for q n x
  proof -
    have "add_pages A ?S q = Some n" using that(1) new(4) by (auto simp: add_pages_def)
    then have "\<not> table_byte (kernel_heap st') x" using kpages.live_private[OF new(2) _ that(2)] by blast
    then show ?thesis using free(3)[of x] new(5)[OF that] by simp
  qed
  ultimately show ?thesis using free(2) new(3) by simp
qed

theorem paging_new_free_witness:
  "avail (paging_free_4gb (snd boot_space) (fst boot_space)) = 25600"
proof -
  have call: "paging_new_4gb boot_state 7 = (fst boot_space, snd boot_space)" by (simp add: boot_space_def)
  have "1026 \<le> avail boot_state" by (simp add: boot_state_live(2))
  from paging_new_free[OF boot_state_live(1) this call] show ?thesis by (simp add: boot_state_live(2))
qed

end
