(* ===== verification/Boi_Gdt.thy ===== *)
theory Boi_Gdt
  imports Boi_Memory
begin

text \<open>
  The global descriptor table of \<^verbatim>\<open>src/src/gdt/gdt.c\<close>: encoding of structured
  descriptors into the eight bytes the processor reads, and the kernel's own table
  from \<^verbatim>\<open>src/src/kernel.c\<close>.
\<close>

subsection \<open>Encoding\<close>

record gdt_structured =
  base :: u32
  limit :: u32
  seg_type :: u8

text \<open>\<open>None\<close> is the call of \<^verbatim>\<open>panic\<close>, which prints its message and never returns.\<close>

definition encode_gdt_entry :: "memory \<Rightarrow> addr \<Rightarrow> gdt_structured \<Rightarrow> memory option" where
  "encode_gdt_entry m target src =
     (if limit src > 65536 \<and> limit src AND 0xFFF \<noteq> 0xFFF then None
      else
        let (lim, m) = (if limit src > 65536 then (drop_bit 12 (limit src), m(target + 6 := 0xC0))
                        else (limit src, m(target + 6 := 0x40)));
            m = m(target := ucast (lim AND 0xFF));
            m = m(target + 1 := ucast (drop_bit 8 lim AND 0xFF));
            m = m(target + 6 := m (target + 6) OR ucast (drop_bit 16 lim AND 0x0F));
            m = m(target + 2 := ucast (base src AND 0xFF));
            m = m(target + 3 := ucast (drop_bit 8 (base src) AND 0xFF));
            m = m(target + 4 := ucast (drop_bit 16 (base src) AND 0xFF));
            m = m(target + 7 := ucast (drop_bit 24 (base src) AND 0xFF));
            m = m(target + 5 := seg_type src)
        in Some m)"

text \<open>The loop over the table; the structured table is a list.\<close>

fun gdt_structured_to_gdt :: "memory \<Rightarrow> addr \<Rightarrow> gdt_structured list \<Rightarrow> memory option" where
  "gdt_structured_to_gdt m gdt [] = Some m"
| "gdt_structured_to_gdt m gdt (s # ss) =
     (case encode_gdt_entry m gdt s of
        None \<Rightarrow> None
      | Some m' \<Rightarrow> gdt_structured_to_gdt m' (gdt + 8) ss)"

text \<open>The kernel's table; \<open>tss\<close> is the address of the static task state segment of 100 bytes.\<close>

definition kernel_gdt :: "addr \<Rightarrow> gdt_structured list" where
  "kernel_gdt tss =
     [\<lparr>base = 0, limit = 0, seg_type = 0\<rparr>,
      \<lparr>base = 0, limit = 0xFFFFFFFF, seg_type = 0x9A\<rparr>,
      \<lparr>base = 0, limit = 0xFFFFFFFF, seg_type = 0x92\<rparr>,
      \<lparr>base = 0, limit = 0xFFFFFFFF, seg_type = 0xF8\<rparr>,
      \<lparr>base = 0, limit = 0xFFFFFFFF, seg_type = 0xF2\<rparr>,
      \<lparr>base = tss, limit = 100, seg_type = 0xE9\<rparr>]"

subsection \<open>What the processor reads\<close>

definition gdt_raw_limit :: "memory \<Rightarrow> addr \<Rightarrow> u32" where
  "gdt_raw_limit m t =
     ucast (m t) OR push_bit 8 (ucast (m (t + 1))) OR push_bit 16 (ucast (m (t + 6) AND 0xF))"

definition gdt_decode :: "memory \<Rightarrow> addr \<Rightarrow> gdt_structured" where
  "gdt_decode m t =
     \<lparr>base = ucast (m (t + 2)) OR push_bit 8 (ucast (m (t + 3)))
        OR push_bit 16 (ucast (m (t + 4))) OR push_bit 24 (ucast (m (t + 7))),
      limit = (if bit (m (t + 6)) 7 then push_bit 12 (gdt_raw_limit m t) OR 0xFFF
               else gdt_raw_limit m t),
      seg_type = m (t + 5)\<rparr>"

lemma and_ff: "w AND 0xFF = take_bit 8 w" "w AND 0xF = take_bit 4 w"
  "w AND 0xFFF = take_bit 12 w" for w :: u32
  by (simp_all add: take_bit_eq_mask mask_eq_exp_minus_1)

lemma and_f8: "w AND 0xF = take_bit 4 w" for w :: u8
  by (simp add: take_bit_eq_mask mask_eq_exp_minus_1)

lemma gdt_raw_limit_encode:
  fixes lim :: u32
  assumes "take_bit 20 lim = lim" "c = 0x40 \<or> c = 0xC0"
  shows "(ucast (ucast (lim AND 0xFF) :: u8) :: u32)
      OR push_bit 8 (ucast (ucast (drop_bit 8 lim AND 0xFF) :: u8))
      OR push_bit 16 (ucast (((c :: u8) OR ucast (drop_bit 16 lim AND 0x0F)) AND 0xF)) = lim"
    (is "?w = lim")
proof (rule bit_word_eqI)
  fix n
  assume "n < LENGTH(32)"
  then consider "n < 8" | "8 \<le> n" "n < 16" | "16 \<le> n" "n < 20" | "20 \<le> n" "n < 32"
    by fastforce
  moreover have "take_bit 4 c = 0" using assms(2) by auto
  then have "take_bit 4 (c OR x) = take_bit 4 x" for x by simp
  ultimately show "bit ?w n = bit lim n"
    using assms(1)
    by cases (auto simp: and_ff and_f8 bit_simps dest: arg_cong[of _ _ "\<lambda>w. bit w n"])
qed

lemma gdt_flag_bit:
  "bit (((c :: u8) OR ucast (drop_bit 16 (lim :: u32) AND 0x0F))) 7 = bit c 7"
  by (simp add: and_ff bit_simps)

lemma gdt_granular:
  fixes w :: u32
  assumes "w AND 0xFFF = 0xFFF"
  shows "push_bit 12 (drop_bit 12 w) OR 0xFFF = w"
proof -
  have "push_bit 12 (drop_bit 12 w) OR take_bit 12 w = w"
    by (rule bit_word_eqI) (auto simp: bit_simps)
  then show ?thesis using assms by (simp add: and_ff)
qed

lemma gdt_base_bytes:
  "(ucast (ucast (v AND 0xFF) :: u8) :: u32) OR push_bit 8 (ucast (ucast (drop_bit 8 v AND 0xFF) :: u8))
     OR push_bit 16 (ucast (ucast (drop_bit 16 v AND 0xFF) :: u8))
     OR push_bit 24 (ucast (ucast (drop_bit 24 v AND 0xFF) :: u8)) = v" for v :: u32
proof -
  have "ucast (x AND 0xFF) = (ucast x :: u8)" for x :: u32
    by (rule bit_word_eqI) (auto simp: and_ff bit_simps)
  then show ?thesis using bytes_of_u32[of v] by simp
qed

definition gdt_limit_field :: "gdt_structured \<Rightarrow> u32" where
  "gdt_limit_field s = (if limit s > 65536 then drop_bit 12 (limit s) else limit s)"

definition gdt_high_flags :: "gdt_structured \<Rightarrow> u8" where
  "gdt_high_flags s = (if limit s > 65536 then 0xC0 else 0x40)"

lemma encode_gdt_entry_memory:
  assumes "encode_gdt_entry m t s = Some m'"
  shows "limit s > 65536 \<longrightarrow> limit s AND 0xFFF = 0xFFF"
    and "m' = m(t := ucast (gdt_limit_field s AND 0xFF),
      t + 1 := ucast (drop_bit 8 (gdt_limit_field s) AND 0xFF),
      t + 6 := gdt_high_flags s OR ucast (drop_bit 16 (gdt_limit_field s) AND 0x0F),
      t + 2 := ucast (base s AND 0xFF), t + 3 := ucast (drop_bit 8 (base s) AND 0xFF),
      t + 4 := ucast (drop_bit 16 (base s) AND 0xFF), t + 7 := ucast (drop_bit 24 (base s) AND 0xFF),
      t + 5 := seg_type s)"
proof -
  show ok: "limit s > 65536 \<longrightarrow> limit s AND 0xFFF = 0xFFF"
    using assms unfolding encode_gdt_entry_def by (metis option.distinct(1))
  have swap: "m(t + 6 := x, t := y, t + 1 := z, t + 6 := v) = m(t := y, t + 1 := z, t + 6 := v)"
    for x y z v by (auto simp: fun_eq_iff)
  have k: "t + 6 \<noteq> t" "t + 6 \<noteq> t + 1" by simp_all
  show "m' = m(t := ucast (gdt_limit_field s AND 0xFF),
      t + 1 := ucast (drop_bit 8 (gdt_limit_field s) AND 0xFF),
      t + 6 := gdt_high_flags s OR ucast (drop_bit 16 (gdt_limit_field s) AND 0x0F),
      t + 2 := ucast (base s AND 0xFF), t + 3 := ucast (drop_bit 8 (base s) AND 0xFF),
      t + 4 := ucast (drop_bit 16 (base s) AND 0xFF), t + 7 := ucast (drop_bit 24 (base s) AND 0xFF),
      t + 5 := seg_type s)"
  proof (cases "limit s > 65536")
    case True
    then have "limit s AND 0xFFF = 0xFFF" using ok by blast
    then show ?thesis using assms True swap k
      by (simp add: encode_gdt_entry_def Let_def gdt_limit_field_def gdt_high_flags_def)
  next
    case False
    then show ?thesis using assms swap k
      by (simp add: encode_gdt_entry_def Let_def gdt_limit_field_def gdt_high_flags_def)
  qed
qed

lemma encode_gdt_entry_outside:
  assumes "encode_gdt_entry m t s = Some m'" "\<not> in_range t 8 a"
  shows "m' a = m a"
proof -
  have "a \<noteq> t + of_nat k" if "k < 8" for k
    using assms(2) in_range_offset[of "of_nat k" 8 t] that by (auto simp: unat_of_nat32)
  from this[of 0] this[of 1] this[of 2] this[of 3] this[of 4] this[of 5] this[of 6] this[of 7]
  show ?thesis by (simp add: encode_gdt_entry_memory(2)[OF assms(1)])
qed

lemma encode_gdt_entry_decode:
  assumes "encode_gdt_entry m t s = Some m'"
  shows "gdt_decode m' t = s"
proof -
  note enc = encode_gdt_entry_memory[OF assms]
  let ?lim = "gdt_limit_field s"
  have "unat ?lim < 2 ^ 20"
  proof (cases "limit s > 65536")
    case True
    then show ?thesis using unat32_lt[of "limit s"]
      by (simp add: gdt_limit_field_def unsigned_drop_bit_eq drop_bit_eq_div unat_div)
  next
    case False
    then show ?thesis by (simp add: gdt_limit_field_def word_less_nat_alt)
  qed
  then have lim: "take_bit 20 ?lim = ?lim"
    by (simp add: unat_eq_iff32 [symmetric] unsigned_take_bit_eq take_bit_nat_eq_self)
  have raw: "gdt_raw_limit m' t = ?lim"
    using gdt_raw_limit_encode[OF lim, of "gdt_high_flags s"]
    by (simp add: enc(2) gdt_raw_limit_def gdt_high_flags_def)
  have flag: "bit (m' (t + 6)) 7 \<longleftrightarrow> limit s > 65536"
    using gdt_flag_bit[of "gdt_high_flags s" ?lim] by (simp add: enc(2) gdt_high_flags_def)
  have "limit (gdt_decode m' t) = limit s"
    using gdt_granular[of "limit s"] enc(1) by (simp add: gdt_decode_def raw flag gdt_limit_field_def)
  moreover have "base (gdt_decode m' t) = base s" "seg_type (gdt_decode m' t) = seg_type s"
    using gdt_base_bytes[of "base s"] by (simp_all add: gdt_decode_def enc(2))
  ultimately show "gdt_decode m' t = s" by simp
qed


lemma encode_gdt_entry_None:
  "encode_gdt_entry m t s = None \<longleftrightarrow> limit s > 65536 \<and> limit s AND 0xFFF \<noteq> 0xFFF"
  by (cases "limit s > 65536") (simp_all add: encode_gdt_entry_def Let_def)

lemma gdt_decode_cong:
  assumes "\<And>a. in_range t 8 a \<Longrightarrow> m a = m' a"
  shows "gdt_decode m t = gdt_decode m' t"
proof -
  have "m t = m' t" "m (t + 1) = m' (t + 1)" "m (t + 2) = m' (t + 2)" "m (t + 3) = m' (t + 3)"
    "m (t + 4) = m' (t + 4)" "m (t + 5) = m' (t + 5)" "m (t + 6) = m' (t + 6)" "m (t + 7) = m' (t + 7)"
    by (auto intro!: assms simp: in_range_def)
  then show ?thesis by (simp add: gdt_decode_def gdt_raw_limit_def)
qed

lemma in_range_shift:
  assumes "in_range (p + of_nat k) n a" "k + n \<le> l" "l \<le> 4294967296"
  shows "in_range p l a"
proof -
  obtain r where r: "a = p + of_nat k + of_nat r" "r < n" using assms(1) by (rule in_rangeE)
  have "a - p = of_nat (k + r)" using r(1) by simp
  moreover have "unat (of_nat (k + r) :: u32) = k + r"
    by (rule unat_of_nat32) (use r(2) assms(2,3) in linarith)
  ultimately show ?thesis using r(2) assms(2) by (simp add: in_range_def)
qed

lemma gdt_first_apart:
  assumes "8 + l \<le> 4294967296" "in_range p 8 a"
  shows "\<not> in_range (p + 8) l a"
proof
  assume "in_range (p + 8) l a"
  then obtain r where r: "a = p + 8 + of_nat r" "r < l" by (rule in_rangeE)
  have "a - p = of_nat (8 + r)" using r(1) by simp
  moreover have "unat (of_nat (8 + r) :: u32) = 8 + r"
    by (rule unat_of_nat32) (use r(2) assms(1) in linarith)
  ultimately show False using assms(2) by (simp add: in_range_def)
qed

lemma gdt_structured_to_gdt_ok:
  assumes "\<forall>s \<in> set ss. limit s > 65536 \<longrightarrow> limit s AND 0xFFF = 0xFFF"
    and "8 * length ss \<le> 4294967296"
  shows "\<exists>m'. gdt_structured_to_gdt m gdt ss = Some m' \<and>
     (\<forall>i < length ss. gdt_decode m' (gdt + of_nat (8 * i)) = ss ! i) \<and>
     (\<forall>a. in_range gdt (8 * length ss) a \<or> m' a = m a)"
  using assms
proof (induction ss arbitrary: m gdt)
  case (Cons s ss)
  obtain m1 where m1: "encode_gdt_entry m gdt s = Some m1"
    using Cons.prems(1) encode_gdt_entry_None[of m gdt s] by auto
  from Cons.IH[of m1 "gdt + 8"] Cons.prems obtain m' where
    m': "gdt_structured_to_gdt m1 (gdt + 8) ss = Some m'"
      "\<And>i. i < length ss \<Longrightarrow> gdt_decode m' (gdt + 8 + of_nat (8 * i)) = ss ! i"
      "\<And>a. in_range (gdt + 8) (8 * length ss) a \<or> m' a = m1 a" by auto
  have "gdt_decode m' gdt = gdt_decode m1 gdt"
    using m'(3) gdt_first_apart[of "8 * length ss" gdt] Cons.prems(2) by (intro gdt_decode_cong) auto
  then have "gdt_decode m' (gdt + of_nat (8 * i)) = (s # ss) ! i" if "i < length (s # ss)" for i
    using encode_gdt_entry_decode[OF m1] m'(2)[of "i - 1"] that by (cases i) (simp_all add: add.assoc)
  moreover have "in_range gdt (8 * length (s # ss)) a \<or> m' a = m a" for a
  proof -
    have "in_range gdt (8 * length (s # ss)) a" if "in_range (gdt + 8) (8 * length ss) a"
      using in_range_shift[of gdt 8 "8 * length ss" a "8 * length (s # ss)"] that Cons.prems(2) by simp
    moreover have "in_range gdt (8 * length (s # ss)) a" if "in_range gdt 8 a"
      using that by (rule in_range_mono) simp
    ultimately show ?thesis using m'(3)[of a] encode_gdt_entry_outside[OF m1, of a]
      by (cases "in_range gdt 8 a") auto
  qed
  ultimately show ?case using m1 m'(1) by (intro exI[of _ m']) simp
qed simp

subsection \<open>Properties\<close>

text \<open>
  C36: when every limit above 64 KiB is a whole number of pages, encoding a table
  succeeds, the processor's reading of entry \<open>i\<close> is exactly structured entry \<open>i\<close>
  (base, byte-granular limit and access byte), and no byte outside the table
  changes.
\<close>

theorem gdt_table_roundtrip:
  assumes "\<forall>s \<in> set ss. limit s > 65536 \<longrightarrow> limit s AND 0xFFF = 0xFFF"
    and "8 * length ss \<le> 4294967296"
  shows "\<exists>m'. gdt_structured_to_gdt m gdt ss = Some m' \<and>
     (\<forall>i < length ss. gdt_decode m' (gdt + of_nat (8 * i)) = ss ! i) \<and>
     (\<forall>a. in_range gdt (8 * length ss) a \<or> m' a = m a)"
  by (rule gdt_structured_to_gdt_ok[OF assms])

theorem gdt_table_roundtrip_witness:
  "\<exists>m'. gdt_structured_to_gdt (\<lambda>_. 0) 0x9000 (kernel_gdt 0xA000) = Some m' \<and>
     gdt_decode m' 0x9028 = \<lparr>base = 0xA000, limit = 100, seg_type = 0xE9\<rparr>"
proof -
  have l: "length (kernel_gdt 0xA000) = 6" by (simp add: kernel_gdt_def)
  have "\<exists>m'. gdt_structured_to_gdt (\<lambda>_. 0) 0x9000 (kernel_gdt 0xA000) = Some m' \<and>
     (\<forall>i < length (kernel_gdt 0xA000).
        gdt_decode m' (0x9000 + of_nat (8 * i)) = kernel_gdt 0xA000 ! i) \<and>
     (\<forall>a. in_range 0x9000 (8 * length (kernel_gdt 0xA000)) a \<or> m' a = (\<lambda>_. 0) a)"
    by (rule gdt_table_roundtrip) (simp_all add: kernel_gdt_def)
  then obtain m' where "gdt_structured_to_gdt (\<lambda>_. 0) 0x9000 (kernel_gdt 0xA000) = Some m'"
    "gdt_decode m' (0x9000 + of_nat (8 * 5)) = kernel_gdt 0xA000 ! 5"
    unfolding l by (elim exE conjE) (erule_tac x = 5 in allE, simp)
  then show ?thesis by (auto simp: kernel_gdt_def)
qed

text \<open>
  encoding panics exactly when the limit is above 64 KiB and its low twelve
  bits are not all ones, that is when the descriptor cannot express it; a table
  panics exactly when one of its entries does.
\<close>

theorem gdt_panic_iff:
  "gdt_structured_to_gdt m gdt ss = None \<longleftrightarrow>
     (\<exists>s \<in> set ss. limit s > 65536 \<and> limit s AND 0xFFF \<noteq> 0xFFF)"
proof (induction ss arbitrary: m gdt)
  case (Cons s ss)
  then show ?case
    using encode_gdt_entry_None[of m gdt s] by (cases "encode_gdt_entry m gdt s") auto
qed simp

end
