(* ===== verification/Boi_Terminal.thy ===== *)
theory Boi_Terminal
  imports Boi_String
begin

text \<open>
  The text terminal of \<^verbatim>\<open>src/src/terminal/terminal.c\<close>: a cursor and 16-bit cells in
  video memory.  The state of an operation is the memory with the terminal record.
\<close>

subsection \<open>Data and operations\<close>

record terminal =
  video_mem :: addr
  terminal_row :: u16
  terminal_col :: u16

abbreviation VGA_WIDTH :: "'a::len word" where "VGA_WIDTH \<equiv> 80"
abbreviation VGA_HEIGHT :: nat where "VGA_HEIGHT \<equiv> 25"

text \<open>A \<^verbatim>\<open>char\<close> is signed: both operands are sign-extended to \<^verbatim>\<open>int\<close>, the result is truncated.\<close>

definition terminal_make_char :: "u8 \<Rightarrow> u8 \<Rightarrow> u16" where
  "terminal_make_char c color = ucast (push_bit 8 (scast color :: u32) OR scast c)"

definition terminal_putchar :: "memory \<Rightarrow> terminal \<Rightarrow> u32 \<Rightarrow> u32 \<Rightarrow> u8 \<Rightarrow> u8 \<Rightarrow> memory" where
  "terminal_putchar m t x y c color =
     write16 m (video_mem t + 2 * (y * VGA_WIDTH + x)) (terminal_make_char c color)"

definition terminal_initialize :: "memory \<Rightarrow> memory \<times> terminal" where
  "terminal_initialize m =
     (let t = \<lparr>video_mem = 0xB8000, terminal_row = 0, terminal_col = 0\<rparr>
      in (foldl (\<lambda>m y. foldl (\<lambda>m x. terminal_putchar m t (of_nat x) (of_nat y) 32 0) m [0..<80])
            m [0..<VGA_HEIGHT], t))"

text \<open>The step back over the cell before the cursor, done twice by \<^verbatim>\<open>terminal_backspace\<close>.\<close>

definition terminal_step_back :: "terminal \<Rightarrow> terminal" where
  "terminal_step_back t =
     (let t = (if terminal_col t = 0
               then t\<lparr>terminal_row := terminal_row t - 1, terminal_col := VGA_WIDTH\<rparr> else t)
      in t\<lparr>terminal_col := terminal_col t - 1\<rparr>)"

function terminal_backspace :: "memory \<times> terminal \<Rightarrow> memory \<times> terminal"
  and terminal_writechar :: "memory \<times> terminal \<Rightarrow> u8 \<Rightarrow> u8 \<Rightarrow> memory \<times> terminal" where
  "terminal_backspace (m, t) =
     (if terminal_col t = 0 \<and> terminal_row t = 0 then (m, t)
      else
        let (m, t) = terminal_writechar (m, terminal_step_back t) 32 15
        in (m, terminal_step_back t))"
| "terminal_writechar (m, t) c color =
     (if c = 10 then (m, t\<lparr>terminal_row := terminal_row t + 1, terminal_col := 0\<rparr>)
      else if c = 9 then
        let t = t\<lparr>terminal_col := terminal_col t + 4\<rparr>
        in (m, if terminal_col t \<ge> VGA_WIDTH
               then t\<lparr>terminal_row := terminal_row t + 1, terminal_col := 0\<rparr> else t)
      else if c = 0x08 then terminal_backspace (m, t)
      else
        let m = terminal_putchar m t (ucast (terminal_col t)) (ucast (terminal_row t)) c color;
            t = t\<lparr>terminal_col := terminal_col t + 1\<rparr>
        in (m, if terminal_col t \<ge> VGA_WIDTH
               then t\<lparr>terminal_col := 0, terminal_row := terminal_row t + 1\<rparr> else t))"
  by pat_completeness auto
termination
  by (relation "measure (\<lambda>x. case x of Inl _ \<Rightarrow> 1 | Inr (_, c, _) \<Rightarrow> if c = 8 then 2 else 0)") auto

declare terminal_backspace.simps [simp del] terminal_writechar.simps [simp del]

text \<open>\<^verbatim>\<open>print\<close>: the length is taken once, the characters are read as the loop runs.\<close>

fun print_loop :: "memory \<times> terminal \<Rightarrow> addr \<Rightarrow> nat \<Rightarrow> memory \<times> terminal" where
  "print_loop s str 0 = s"
| "print_loop s str (Suc n) = print_loop (terminal_writechar s (fst s str) 15) (str + 1) n"

definition print :: "memory \<times> terminal \<Rightarrow> addr \<Rightarrow> (memory \<times> terminal) option" where
  "print s str = (case strlen (fst s) str of None \<Rightarrow> None | Some len \<Rightarrow> Some (print_loop s str (unat len)))"

subsection \<open>Cells and the cursor\<close>

text \<open>The cell under the cursor, counted from the first cell of row 0.\<close>

definition cursor :: "terminal \<Rightarrow> nat" where
  "cursor t = unat (terminal_row t) * 80 + unat (terminal_col t)"

definition cursor_ok :: "terminal \<Rightarrow> bool" where
  "cursor_ok t \<longleftrightarrow> unat (terminal_col t) < 80"

abbreviation cell_addr :: "terminal \<Rightarrow> nat \<Rightarrow> addr" where
  "cell_addr t k \<equiv> video_mem t + 2 * of_nat k"

definition cell :: "memory \<Rightarrow> terminal \<Rightarrow> nat \<Rightarrow> u16" where
  "cell m t k = read16 m (cell_addr t k)"

lemma unat16_lt: "unat (x :: u16) < 65536"
  using unsigned_less[of x] by simp

lemma unat16_Suc: "unat (x :: u16) < 65535 \<Longrightarrow> unat (x + 1) = Suc (unat x)"
  by (simp add: unat_word_ariths)

lemma unat16_dec: "x \<noteq> 0 \<Longrightarrow> unat (x - 1 :: u16) = unat x - 1"
  by (metis unat_minus_one)

lemma read16_write16: "read16 (write16 m a v) a = v"
proof -
  have "(ucast (ucast v :: u8) :: u16) OR push_bit 8 (ucast (ucast (drop_bit 8 v) :: u8)) = v"
  proof (rule bit_word_eqI)
    fix n
    assume "n < LENGTH(16)"
    then consider "n < 8" | "8 \<le> n" "n < 16" by fastforce
    then show "bit ((ucast (ucast v :: u8) :: u16)
        OR push_bit 8 (ucast (ucast (drop_bit 8 v) :: u8))) n = bit v n"
      by cases (auto simp: bit_simps)
  qed
  then show ?thesis by (simp add: read16_def write16_def)
qed

lemma write16_outside: "\<not> in_range a 2 x \<Longrightarrow> write16 m a v x = m x"
  by (auto simp: write16_def in_range_def)

lemma read16_cong: "(\<And>x. in_range a 2 x \<Longrightarrow> m x = m' x) \<Longrightarrow> read16 m a = read16 m' a"
  by (simp add: read16_def in_range_def)

lemma cell_bytes_apart:
  assumes "in_range (cell_addr t k) 2 x" "in_range (cell_addr t l) 2 x"
    and "k < 2147483648" "l < 2147483648"
  shows "k = l"
proof -
  obtain r where r: "x = cell_addr t k + of_nat r" "r < 2" using assms(1) by (rule in_rangeE)
  obtain s where s: "x = cell_addr t l + of_nat s" "s < 2" using assms(2) by (rule in_rangeE)
  have "(of_nat (2 * k + r) :: u32) = x - video_mem t" using r(1) by simp
  also have "\<dots> = of_nat (2 * l + s)" using s(1) by simp
  finally have "unat (of_nat (2 * k + r) :: u32) = unat (of_nat (2 * l + s) :: u32)" by simp
  then have "2 * k + r = 2 * l + s" using r(2) s(2) assms(3,4) by (simp only: unat_of_nat32)
  then show ?thesis using r(2) s(2) by linarith
qed

lemma cell_write16:
  assumes "k < 2147483648" "l < 2147483648"
  shows "cell (write16 m (cell_addr t l) v) t k = (if k = l then v else cell m t k)"
proof (cases "k = l")
  case False
  have "write16 m (cell_addr t l) v x = m x" if "in_range (cell_addr t k) 2 x" for x
    using cell_bytes_apart[OF that _ assms] False write16_outside by blast
  then show ?thesis using False unfolding cell_def by (simp cong: read16_cong)
qed (simp add: cell_def read16_write16)

text \<open>The cell of a 7-bit character, and what the sign extension makes of the others.\<close>

lemma bit_ff00: "bit (0xFF00 :: u16) n \<longleftrightarrow> 8 \<le> n \<and> n < 16"
proof -
  have "(0xFF00 :: u16) = push_bit 8 (mask 8)" by (simp add: mask_eq_exp_minus_1)
  then show ?thesis by (simp only: bit_push_bit_iff bit_mask_iff) auto
qed

lemma terminal_make_char_eq:
  "terminal_make_char c color =
     (if bit c 7 then 0xFF00 OR ucast c else push_bit 8 (ucast color) OR ucast c)"
proof (rule bit_word_eqI)
  fix n
  assume "n < LENGTH(16)"
  then consider "n < 8" | "8 \<le> n" "n < 16" by fastforce
  then show "bit (terminal_make_char c color) n =
      bit (if bit c 7 then 0xFF00 OR ucast c else push_bit 8 (ucast color) OR ucast c :: u16) n"
  proof cases
    case 1
    then have "min n 7 = n" by simp
    with 1 bit_ff00[of n] show ?thesis by (auto simp: terminal_make_char_def bit_simps)
  next
    case 2
    then consider "n = 8" | "n = 9" | "n = 10" | "n = 11" | "n = 12" | "n = 13" | "n = 14" | "n = 15"
      by fastforce
    then show ?thesis by cases (auto simp: terminal_make_char_def bit_simps bit_ff00 dest: bit_imp_le_length)
  qed
qed

subsection \<open>Single characters\<close>

text \<open>The motion of the cursor for each character.\<close>

definition advance :: "u8 \<Rightarrow> nat \<Rightarrow> nat" where
  "advance c p =
     (if c = 10 then (p div 80 + 1) * 80
      else if c = 9 then (if 80 \<le> p mod 80 + 4 then (p div 80 + 1) * 80 else p + 4)
      else if c = 8 then p - 1
      else p + 1)"

lemma cursor_div_mod:
  "cursor_ok t \<Longrightarrow> cursor t div 80 = unat (terminal_row t)"
  "cursor_ok t \<Longrightarrow> cursor t mod 80 = unat (terminal_col t)"
  by (simp_all add: cursor_def cursor_ok_def)

lemma terminal_step_back_ok:
  assumes "cursor_ok t" "0 < cursor t"
  shows "cursor (terminal_step_back t) = cursor t - 1" "cursor_ok (terminal_step_back t)"
    "video_mem (terminal_step_back t) = video_mem t"
proof -
  have row: "terminal_row t \<noteq> 0" if "terminal_col t = 0"
    using assms(2) that by (auto simp: cursor_def)
  show "cursor (terminal_step_back t) = cursor t - 1" "cursor_ok (terminal_step_back t)"
    using assms row unat16_dec[of "terminal_row t"] unat16_dec[of "terminal_col t"]
    by (auto simp: cursor_def cursor_ok_def terminal_step_back_def Let_def unat_eq_0 [symmetric]
        split: if_splits simp del: unat_eq_0)
  show "video_mem (terminal_step_back t) = video_mem t"
    by (simp add: terminal_step_back_def Let_def)
qed

lemma terminal_putchar_cursor:
  "terminal_putchar m t (ucast (terminal_col t)) (ucast (terminal_row t)) c color =
     write16 m (cell_addr t (cursor t)) (terminal_make_char c color)"
proof -
  have "ucast (terminal_row t) * 80 + ucast (terminal_col t) = (of_nat (cursor t) :: u32)"
    by (simp add: cursor_def)
  then show ?thesis by (simp only: terminal_putchar_def)
qed

lemma terminal_writechar_glyph:
  assumes "cursor_ok t" "cursor t < 65535 * 80" "c \<noteq> 8" "c \<noteq> 9" "c \<noteq> 10"
    and "terminal_writechar (m, t) c color = (m', t')"
  shows "m' = write16 m (cell_addr t (cursor t)) (terminal_make_char c color)"
    "cursor t' = cursor t + 1" "cursor_ok t'" "video_mem t' = video_mem t"
proof -
  have row: "unat (terminal_row t) < 65535" using assms(2) by (simp add: cursor_def)
  have col: "unat (terminal_col t + 1) = unat (terminal_col t) + 1"
    using assms(1) by (simp add: unat16_Suc cursor_ok_def)
  have eqs: "m' = write16 m (cell_addr t (cursor t)) (terminal_make_char c color)"
    "t' = (if 80 \<le> unat (terminal_col t) + 1
      then t\<lparr>terminal_col := 0, terminal_row := terminal_row t + 1\<rparr>
      else t\<lparr>terminal_col := terminal_col t + 1\<rparr>)"
    using assms(3-6) col
    by (auto simp: terminal_writechar.simps [of m t] terminal_putchar_cursor Let_def
        word_le_nat_alt split: if_splits)
  show "m' = write16 m (cell_addr t (cursor t)) (terminal_make_char c color)" by (rule eqs)
  show "cursor t' = cursor t + 1" "cursor_ok t'" "video_mem t' = video_mem t"
    using assms(1) row col unat16_Suc[OF row]
    by (auto simp: eqs(2) cursor_def cursor_ok_def)
qed

lemma terminal_backspace_ok:
  assumes "cursor_ok t" "cursor t \<le> 65535 * 80" "terminal_backspace (m, t) = (m', t')"
  shows "cursor t' = cursor t - 1" "cursor_ok t'" "video_mem t' = video_mem t"
    "m' = (if cursor t = 0 then m
           else write16 m (cell_addr t (cursor t - 1)) (terminal_make_char 32 15))"
proof -
  have z: "cursor t = 0 \<longleftrightarrow> terminal_col t = 0 \<and> terminal_row t = 0"
    by (auto simp: cursor_def unat_eq_0)
  have "cursor t' = cursor t - 1 \<and> cursor_ok t' \<and> video_mem t' = video_mem t \<and>
      m' = (if cursor t = 0 then m
           else write16 m (cell_addr t (cursor t - 1)) (terminal_make_char 32 15))"
  proof (cases "cursor t = 0")
    case True
    then show ?thesis
      using assms(1,3) z by (simp add: terminal_backspace.simps)
  next
    case False
    obtain m1 t1 where w: "terminal_writechar (m, terminal_step_back t) 32 15 = (m1, t1)" by fastforce
    note sb = terminal_step_back_ok[OF assms(1)]
    note wr = terminal_writechar_glyph[OF sb(2) _ _ _ _ w]
    have e: "m' = m1" "t' = terminal_step_back t1"
      using assms(3) z False w by (auto simp: terminal_backspace.simps)
    have pos: "0 < cursor t" using False by simp
    have lim: "cursor (terminal_step_back t) < 65535 * 80" using sb(1)[OF pos] assms(2) pos by linarith
    have w': "m1 = write16 m (cell_addr t (cursor t - 1)) (terminal_make_char 32 15)"
      "cursor t1 = cursor t" "cursor_ok t1" "video_mem t1 = video_mem t"
      using wr[OF pos lim] sb[OF pos] pos by simp_all
    then show ?thesis
      using terminal_step_back_ok[OF w'(3)] pos e by simp
  qed
  then show "cursor t' = cursor t - 1" "cursor_ok t'" "video_mem t' = video_mem t"
    "m' = (if cursor t = 0 then m
           else write16 m (cell_addr t (cursor t - 1)) (terminal_make_char 32 15))" by blast+
qed

subsection \<open>Strings\<close>

definition printable :: "u8 \<Rightarrow> bool" where
  "printable c \<longleftrightarrow> c \<noteq> 8 \<and> c \<noteq> 9 \<and> c \<noteq> 10"

text \<open>The screen after a string of printable characters: its cells from \<open>p\<close> on.\<close>

definition shows_string :: "memory \<Rightarrow> memory \<Rightarrow> terminal \<Rightarrow> nat \<Rightarrow> u8 list \<Rightarrow> bool" where
  "shows_string m m' t p cs \<longleftrightarrow>
     (\<forall>k < 2147483648. cell m' t k =
        (if p \<le> k \<and> k < p + length cs then terminal_make_char (cs ! (k - p)) 15 else cell m t k)) \<and>
     (\<forall>a. \<not> in_range (cell_addr t p) (2 * length cs) a \<longrightarrow> m' a = m a)"

lemma cell_in_range:
  assumes "in_range (cell_addr t (p + i)) 2 a" "i < n" "n < 1000000000"
  shows "in_range (cell_addr t p) (2 * n) a"
proof -
  obtain r where r: "a = cell_addr t (p + i) + of_nat r" "r < 2" using assms(1) by (rule in_rangeE)
  have "a - cell_addr t p = of_nat (2 * i + r)" using r(1) by simp
  moreover have "unat (of_nat (2 * i + r) :: u32) = 2 * i + r"
    by (rule unat_of_nat32) (use r(2) assms(2,3) in linarith)
  ultimately show ?thesis using r(2) assms(2) by (simp add: in_range_def)
qed

lemma shows_string_step:
  assumes m1: "m1 = write16 m (cell_addr t p) (terminal_make_char c 15)"
    and sh: "shows_string m1 m' t (Suc p) cs" and b: "p + length cs < 100000000"
  shows "shows_string m m' t p (c # cs)"
proof -
  have "cell m' t k = (if p \<le> k \<and> k < p + length (c # cs)
      then terminal_make_char ((c # cs) ! (k - p)) 15 else cell m t k)" if k: "k < 2147483648" for k
  proof -
    have "cell m1 t k = (if k = p then terminal_make_char c 15 else cell m t k)"
      unfolding m1 using k b by (intro cell_write16) auto
    moreover have "cell m' t k = (if Suc p \<le> k \<and> k < Suc p + length cs
        then terminal_make_char (cs ! (k - Suc p)) 15 else cell m1 t k)"
      using sh k unfolding shows_string_def by blast
    moreover have "(c # cs) ! (k - p) = cs ! (k - Suc p)" if "Suc p \<le> k"
      using that by (simp add: nth_Cons')
    ultimately show ?thesis by (cases "k = p") auto
  qed
  moreover have "m' a = m a" if "\<not> in_range (cell_addr t p) (2 * length (c # cs)) a" for a
  proof -
    have "\<not> in_range (cell_addr t (Suc p)) (2 * length cs) a"
    proof
      assume "in_range (cell_addr t (Suc p)) (2 * length cs) a"
      then obtain r where r: "a = cell_addr t (Suc p) + of_nat r" "r < 2 * length cs" by (rule in_rangeE)
      have "a - cell_addr t p = of_nat (r + 2)" using r(1) by simp
      moreover have "unat (of_nat (r + 2) :: u32) = r + 2"
        by (rule unat_of_nat32) (use r(2) b in linarith)
      ultimately show False using that r(2) by (simp add: in_range_def)
    qed
    then have "m' a = m1 a" using sh unfolding shows_string_def by blast
    moreover have "\<not> in_range (cell_addr t p) 2 a"
      using that cell_in_range[of t p 0 a "length (c # cs)"] b by auto
    ultimately show ?thesis by (simp add: m1 write16_outside)
  qed
  ultimately show ?thesis unfolding shows_string_def by blast
qed

lemma print_loop_shows:
  assumes "cstr m str cs" "\<forall>c \<in> set cs. printable c" "cursor_ok t"
    and "cursor t + length cs \<le> 65535 * 80"
    and "disjoint_ranges (cell_addr t (cursor t)) (2 * length cs) str (Suc (length cs))"
  shows "\<exists>m' t'. print_loop (m, t) str (length cs) = (m', t') \<and> cursor_ok t' \<and>
     cursor t' = cursor t + length cs \<and> video_mem t' = video_mem t \<and>
     shows_string m m' t (cursor t) cs"
  using assms
proof (induction cs arbitrary: m str t)
  case (Cons c cs)
  obtain m1 t1 where w: "terminal_writechar (m, t) (m str) 15 = (m1, t1)" by fastforce
  have c: "m str = c" "cstr m (str + 1) cs" using Cons.prems(1) by auto
  have lim: "cursor t < 65535 * 80" using Cons.prems(4) by simp
  have pr: "c \<noteq> 8" "c \<noteq> 9" "c \<noteq> 10" using Cons.prems(2) by (auto simp: printable_def)
  note wr = terminal_writechar_glyph[OF Cons.prems(3) lim pr w[unfolded c(1)]]
  have sep: "\<not> in_range str (Suc (Suc (length cs))) a" if "in_range (cell_addr t (cursor t)) (2 * Suc (length cs)) a" for a
    using Cons.prems(5) that by (auto simp: disjoint_ranges_def)
  have lim': "length cs < 100000000" "cursor t + length cs < 100000000" using Cons.prems(4) by auto
  have "cstr m1 (str + 1) cs = cstr m (str + 1) cs"
  proof (rule cstr_cong)
    fix a assume "in_range (str + 1) (Suc (length cs)) a"
    then have "in_range str (Suc (Suc (length cs))) a" by (simp add: in_range_Suc[of str "Suc (length cs)"])
    then have "\<not> in_range (cell_addr t (cursor t)) 2 a"
      using sep[of a] in_range_mono[of "cell_addr t (cursor t)" 2 a "2 * Suc (length cs)"] by auto
    then show "m1 a = m a" by (simp add: wr(1) write16_outside)
  qed
  then have s1: "cstr m1 (str + 1) cs" using c(2) by simp
  have "disjoint_ranges (cell_addr t1 (cursor t1)) (2 * length cs) (str + 1) (Suc (length cs))"
  proof -
    have "in_range (cell_addr t (cursor t)) (2 * Suc (length cs)) a"
      if a: "in_range (cell_addr t (Suc (cursor t))) (2 * length cs) a" for a
    proof -
      obtain r where r: "a = cell_addr t (Suc (cursor t)) + of_nat r" "r < 2 * length cs"
        using a by (rule in_rangeE)
      have "a - cell_addr t (cursor t) = of_nat (r + 2)" using r(1) by simp
      moreover have "unat (of_nat (r + 2) :: u32) = r + 2"
        by (rule unat_of_nat32) (use r(2) lim' in linarith)
      ultimately show ?thesis using r(2) by (simp add: in_range_def)
    qed
    then show ?thesis using sep wr
      by (auto simp: disjoint_ranges_def in_range_Suc[of str "Suc (length cs)"])
  qed
  from Cons.IH[OF s1 _ wr(3) _ this] Cons.prems(2,4) wr(2,4) obtain m' t' where
    r: "print_loop (m1, t1) (str + 1) (length cs) = (m', t')" "cursor_ok t'"
      "cursor t' = Suc (cursor t) + length cs" "video_mem t' = video_mem t"
      "shows_string m1 m' t1 (Suc (cursor t)) cs"
    by auto
  have "shows_string m1 m' t (Suc (cursor t)) cs"
    using r(5) by (simp add: shows_string_def cell_def wr(4))
  from shows_string_step[OF wr(1) this lim'(2)] r w show ?case by (auto simp: c(1))
qed (auto simp: shows_string_def)

lemma terminal_initialize_row:
  "n \<le> 80 \<Longrightarrow> y < 25 \<Longrightarrow> video_mem t = 0xB8000 \<Longrightarrow>
     (\<forall>k < 2147483648. cell (foldl (\<lambda>m x. terminal_putchar m t (of_nat x) (of_nat y) 32 0) m [0..<n]) t k =
        (if y * 80 \<le> k \<and> k < y * 80 + n then 32 else cell m t k))"
proof (induction n)
  case (Suc n)
  let ?f = "\<lambda>m x. terminal_putchar m t (of_nat x) (of_nat y) 32 0"
  have p: "?f m' n = write16 m' (cell_addr t (y * 80 + n)) 32" for m'
    by (simp add: terminal_putchar_def terminal_make_char_def)
  have "cell (?f (foldl ?f m [0..<n]) n) t k =
      (if k = y * 80 + n then 32 else cell (foldl ?f m [0..<n]) t k)" if "k < 2147483648" for k
    unfolding p using that Suc.prems by (intro cell_write16) auto
  then show ?case using Suc by auto
qed auto

lemma terminal_initialize_rows:
  assumes "n \<le> 25" "video_mem t = 0xB8000"
  shows "\<forall>k < 2147483648. cell (foldl (\<lambda>m y. foldl (\<lambda>m x. terminal_putchar m t (of_nat x) (of_nat y) 32 0) m [0..<80])
      m [0..<n]) t k = (if k < n * 80 then 32 else cell m t k)"
  using assms
proof (induction n)
  case (Suc n)
  let ?r = "\<lambda>m y. foldl (\<lambda>m x. terminal_putchar m t (of_nat x) (of_nat y) 32 0) m [0..<80]"
  have "cell (?r (foldl ?r m [0..<n]) n) t k =
      (if n * 80 \<le> k \<and> k < n * 80 + 80 then 32 else cell (foldl ?r m [0..<n]) t k)"
    if "k < 2147483648" for k
    using terminal_initialize_row[of 80 n t "foldl ?r m [0..<n]"] that Suc.prems by simp
  then show ?case using Suc by auto
qed simp

subsection \<open>Properties\<close>

text \<open>
  \<^verbatim>\<open>terminal_initialize\<close> blanks all 2000 cells of the screen at \<^verbatim>\<open>0xB8000\<close> and
  puts the cursor on the first one.
\<close>

theorem terminal_initialize_blank:
  "(\<forall>k < 2000. cell (fst (terminal_initialize m)) (snd (terminal_initialize m)) k = 32) \<and>
   cursor_ok (snd (terminal_initialize m)) \<and> cursor (snd (terminal_initialize m)) = 0 \<and>
   video_mem (snd (terminal_initialize m)) = 0xB8000"
  using terminal_initialize_rows[of 25 "\<lparr>video_mem = 0xB8000, terminal_row = 0, terminal_col = 0\<rparr>" m]
  by (simp add: terminal_initialize_def Let_def cursor_ok_def cursor_def)

theorem terminal_initialize_blank_witness:
  "cell (fst (terminal_initialize (\<lambda>_. 1))) (snd (terminal_initialize (\<lambda>_. 1))) 1999 = 32"
  using terminal_initialize_blank[of "\<lambda>_. 1"] by simp

definition home_terminal :: terminal where
  "home_terminal = \<lparr>video_mem = 0xB8000, terminal_row = 0, terminal_col = 0\<rparr>"

text \<open>
  C39: one character moves the cursor as \<open>advance\<close> says (next cell, next row, tab
  stop of four, or one cell back) and changes only the cell it writes; the column
  stays below 80.  The row is not bounded by the 25 rows of the screen: nothing
  scrolls, and a character at cursor 2000 is written behind the video page.
\<close>

theorem terminal_writechar_refines:
  assumes "cursor_ok t" "cursor t < 65535 * 80" "terminal_writechar (m, t) c color = (m', t')"
  shows "cursor_ok t' \<and> cursor t' = advance c (cursor t) \<and> video_mem t' = video_mem t \<and>
     m' = (if c = 10 \<or> c = 9 \<or> c = 8 \<and> cursor t = 0 then m
           else if c = 8 then write16 m (cell_addr t (cursor t - 1)) (terminal_make_char 32 15)
           else write16 m (cell_addr t (cursor t)) (terminal_make_char c color))"
proof -
  have row: "unat (terminal_row t) < 65535" using assms(2) by (simp add: cursor_def)
  note dm = cursor_div_mod[OF assms(1)]
  have col4: "unat (terminal_col t + 4) = unat (terminal_col t) + 4"
    using assms(1) by (simp add: cursor_ok_def unat_word_ariths)
  consider "c = 10" | "c = 9" | "c = 8" | "c \<noteq> 8" "c \<noteq> 9" "c \<noteq> 10" by blast
  then show ?thesis
  proof cases
    case 1
    then show ?thesis using assms(3) row dm
      by (auto simp: terminal_writechar.simps advance_def cursor_def cursor_ok_def unat16_Suc)
  next
    case 2
    then have t': "m' = m" "t' = (if 80 \<le> unat (terminal_col t) + 4
        then t\<lparr>terminal_row := terminal_row t + 1, terminal_col := 0\<rparr>
        else t\<lparr>terminal_col := terminal_col t + 4\<rparr>)"
      using assms(3) col4
      by (auto simp: terminal_writechar.simps Let_def word_le_nat_alt split: if_splits)
    have "advance c (cursor t) = (if 80 \<le> unat (terminal_col t) + 4
        then (unat (terminal_row t) + 1) * 80 else cursor t + 4)"
      using 2 dm by (simp add: advance_def)
    then show ?thesis using 2 t' row col4 unat16_Suc[OF row]
      by (auto simp: cursor_def cursor_ok_def)
  next
    case 3
    then have "terminal_backspace (m, t) = (m', t')" using assms(3) by (simp add: terminal_writechar.simps)
    from terminal_backspace_ok[OF assms(1) _ this] assms(2) 3 show ?thesis by (simp add: advance_def)
  next
    case 4
    from terminal_writechar_glyph[OF assms(1,2) this assms(3)] 4 show ?thesis by (simp add: advance_def)
  qed
qed

theorem terminal_writechar_refines_witness:
  "fst (terminal_writechar (\<lambda>_. 0, home_terminal) 65 15) =
     write16 (\<lambda>_. 0) 0xB8000 (terminal_make_char 65 15)"
  using terminal_writechar_refines[of home_terminal "\<lambda>_. 0" 65 15
      "fst (terminal_writechar (\<lambda>_. 0, home_terminal) 65 15)"
      "snd (terminal_writechar (\<lambda>_. 0, home_terminal) 65 15)"]
  by (simp add: home_terminal_def cursor_ok_def cursor_def)

text \<open>
  a 7-bit character keeps its colour in the cell's high byte; for a character
  with the sign bit set, sign extension overwrites the colour with \<^verbatim>\<open>0xFF\<close>.
\<close>

theorem terminal_make_char_sign:
  "terminal_make_char c color =
     (if bit c 7 then 0xFF00 OR ucast c else push_bit 8 (ucast color) OR ucast c)"
  by (rule terminal_make_char_eq)

text \<open>
  printing a NUL-terminated string of characters other than backspace, tab and
  newline shows its characters in order in white from the cursor on, moves the
  cursor behind them and changes no other memory, as long as the cells do not
  overlap the string itself.
\<close>

theorem print_shows:
  assumes "cstr m str cs" "\<forall>c \<in> set cs. printable c" "cursor_ok t"
    and "cursor t + length cs \<le> 65535 * 80"
    and "disjoint_ranges (cell_addr t (cursor t)) (2 * length cs) str (Suc (length cs))"
  shows "\<exists>m' t'. print (m, t) str = Some (m', t') \<and> cursor_ok t' \<and>
     cursor t' = cursor t + length cs \<and> shows_string m m' t (cursor t) cs"
proof -
  have "unat (of_nat (length cs) :: u32) = length cs" using assms(4) by (intro unat_of_nat32) simp
  then have "print (m, t) str = Some (print_loop (m, t) str (length cs))"
    by (simp add: print_def strlen_cstr[OF assms(1)])
  with print_loop_shows[OF assms] show ?thesis by auto
qed

theorem print_shows_witness:
  "\<exists>m' t'. print ((\<lambda>_. 0)(0x1000 := 72, 0x1001 := 105), home_terminal) 0x1000 = Some (m', t') \<and>
     cursor t' = 2 \<and> cell m' home_terminal 1 = terminal_make_char 105 15"
proof -
  let ?m = "(\<lambda>_. 0)(0x1000 := 72, 0x1001 := 105) :: memory"
  have s: "cstr ?m 0x1000 [72, 105]" by simp
  have d: "disjoint_ranges (cell_addr home_terminal (cursor home_terminal)) (2 * length [72, 105 :: u8])
      0x1000 (Suc (length [72, 105 :: u8]))"
    by (intro disjoint_ranges_natI) (simp_all add: home_terminal_def cursor_def)
  have c: "cursor home_terminal = 0" "cursor_ok home_terminal"
    by (simp_all add: home_terminal_def cursor_def cursor_ok_def)
  have pr: "\<forall>c \<in> set [72, 105]. printable c" by (simp add: printable_def)
  have "\<exists>m' t'. print (?m, home_terminal) 0x1000 = Some (m', t') \<and> cursor_ok t' \<and>
     cursor t' = cursor home_terminal + length [72, 105 :: u8] \<and>
     shows_string ?m m' home_terminal (cursor home_terminal) [72, 105]"
    by (rule print_shows[OF s pr c(2) _ d]) (simp add: c)
  then show ?thesis by (force simp: c shows_string_def)
qed

end
