(* ===== verification/Boi_Pit.thy ===== *)
theory Boi_Pit
  imports Boi_Prelude
begin

text \<open>
  The programmable interval timer of \<^verbatim>\<open>src/src/timer/pit.c\<close>: its tick counter, the
  bytes it sends to the I/O ports, and the busy wait of \<^verbatim>\<open>sleep\<close>.
\<close>

subsection \<open>State and operations\<close>

text \<open>The \<^verbatim>\<open>outb\<close> calls are logged as pairs of a port and a byte.\<close>

record pit =
  time_in_millis :: int
  ticks :: u32
  port_log :: "(nat \<times> u8) list"

definition outb :: "nat \<Rightarrow> u8 \<Rightarrow> 'z pit_scheme \<Rightarrow> 'z pit_scheme" where
  "outb port v p = p\<lparr>port_log := port_log p @ [(port, v)]\<rparr>"

definition pit_callback :: "'z pit_scheme \<Rightarrow> 'z pit_scheme" where
  "pit_callback p = outb 0x20 0x20 (p\<lparr>ticks := ticks p + 1\<rparr>)"

text \<open>
  The clamped frequency is positive, so C's division is \<open>div\<close>; adding 0.5 to an
  integer and truncating is \<open>(2 * divisor + 1) div 2\<close>; \<^verbatim>\<open>1000 / 1193181\<close> is an
  integer division.  \<^verbatim>\<open>outb\<close> takes an \<^verbatim>\<open>unsigned char\<close>, so its arguments are
  truncated to a byte.
\<close>

definition pit_init :: "int \<Rightarrow> 'z pit_scheme \<Rightarrow> 'z pit_scheme" where
  "pit_init hz p =
     (let hz = (if hz \<le> 18 then 18 else hz);
          hz = (if hz \<ge> 1193181 then 1193181 else hz);
          divisor = 1193181 div hz;
          divisor = (2 * divisor + 1) div 2;
          p = p\<lparr>ticks := 0\<rparr>;
          p = p\<lparr>time_in_millis := divisor * (1000 div 1193181)\<rparr>;
          p = outb 0x43 0x36 p;
          p = outb 0x40 (word_of_int divisor AND 0xFF) p
      in outb 0x40 (word_of_int (divisor div 256)) p)"

text \<open>
  \<^verbatim>\<open>sleep\<close> polls \<open>ticks\<close>, which only \<^verbatim>\<open>pit_callback\<close> changes.  The list says how many
  timer interrupts arrive before each poll; \<open>None\<close> means it is still waiting at the
  end of the list.  The result is the state with the polls not used.
\<close>

fun sleep_loop :: "int \<Rightarrow> nat list \<Rightarrow> 'z pit_scheme \<Rightarrow> (nat list \<times> 'z pit_scheme) option" where
  "sleep_loop tot [] p = None"
| "sleep_loop tot (n # ns) p =
     (let p = (pit_callback ^^ n) p
      in if sint (ticks p) < tot then sleep_loop tot ns p else Some (ns, p))"

text \<open>C's division truncates; \<open>millis\<close> is an \<^verbatim>\<open>int\<close>.\<close>

definition sleep :: "u32 \<Rightarrow> nat list \<Rightarrow> 'z pit_scheme \<Rightarrow> (nat list \<times> 'z pit_scheme) option" where
  "sleep millis polls p = sleep_loop (sint millis sdiv 10) polls (p\<lparr>ticks := 0\<rparr>)"

subsection \<open>Counting ticks\<close>

lemma ticks_callbacks: "ticks ((pit_callback ^^ n) p) = ticks p + of_nat n"
  by (induction n) (simp_all add: pit_callback_def outb_def)

lemma sint_ticks_callbacks:
  assumes "sint (ticks p) = int t" "t + n < 2147483648"
  shows "sint (ticks ((pit_callback ^^ n) p)) = int (t + n)"
proof -
  have "ticks p = word_of_int (sint (ticks p))" by simp
  then have "ticks p = of_nat t" using assms(1) by simp
  then have "ticks ((pit_callback ^^ n) p) = of_nat (t + n)" by (simp add: ticks_callbacks)
  then show ?thesis using assms(2) by (simp only: sint_of_nat32)
qed

lemma sleep_loop_first:
  assumes "sint (ticks p) = int t" "t + sum_list ns < 2147483648"
  shows "(\<exists>k < length ns. tot \<le> int (t + sum_list (take (Suc k) ns)) \<and>
        (\<forall>j < k. int (t + sum_list (take (Suc j) ns)) < tot) \<and>
        sleep_loop tot ns p = Some (drop (Suc k) ns, (pit_callback ^^ sum_list (take (Suc k) ns)) p)) \<or>
     ((\<forall>k < length ns. int (t + sum_list (take (Suc k) ns)) < tot) \<and> sleep_loop tot ns p = None)"
  using assms
proof (induction ns arbitrary: p t)
  case (Cons n ns)
  let ?p = "(pit_callback ^^ n) p"
  have tick: "sint (ticks ?p) = int (t + n)"
    by (rule sint_ticks_callbacks) (use Cons.prems in auto)
  have join: "(pit_callback ^^ k) ?p = (pit_callback ^^ (n + k)) p" for k
    by (simp add: add.commute[of n k] funpow_add)
  show ?case
  proof (cases "int (t + n) < tot")
    case False
    then have "sleep_loop tot (n # ns) p = Some (ns, ?p)" using tick by (simp add: Let_def)
    then show ?thesis using False by (intro disjI1 exI[of _ 0]) auto
  next
    case True
    then have unf: "sleep_loop tot (n # ns) p = sleep_loop tot ns ?p" using tick by (simp add: Let_def)
    from Cons.IH[OF tick] Cons.prems(2)
    have "(\<exists>k < length ns. tot \<le> int (t + n + sum_list (take (Suc k) ns)) \<and>
        (\<forall>j < k. int (t + n + sum_list (take (Suc j) ns)) < tot) \<and>
        sleep_loop tot ns ?p = Some (drop (Suc k) ns, (pit_callback ^^ sum_list (take (Suc k) ns)) ?p)) \<or>
     ((\<forall>k < length ns. int (t + n + sum_list (take (Suc k) ns)) < tot) \<and> sleep_loop tot ns ?p = None)"
      by simp
    then show ?thesis
    proof (elim disjE exE conjE)
      fix k
      assume k: "k < length ns" "tot \<le> int (t + n + sum_list (take (Suc k) ns))"
        "\<forall>j < k. int (t + n + sum_list (take (Suc j) ns)) < tot"
        "sleep_loop tot ns ?p = Some (drop (Suc k) ns, (pit_callback ^^ sum_list (take (Suc k) ns)) ?p)"
      have "int (t + sum_list (take (Suc j) (n # ns))) < tot" if "j < Suc k" for j
        using that k(3) True by (cases j) (auto simp: add.assoc)
      then show ?thesis using k(1,2,4)
        by (intro disjI1 exI[of _ "Suc k"])
          (simp add: unf join add.assoc del: sleep_loop.simps)
    next
      assume a: "\<forall>k < length ns. int (t + n + sum_list (take (Suc k) ns)) < tot" "sleep_loop tot ns ?p = None"
      have "int (t + sum_list (take (Suc k) (n # ns))) < tot" if "k < length (n # ns)" for k
        using that a(1) True by (cases k) (auto simp: add.assoc)
      then show ?thesis using a(2) unf by (simp del: sleep_loop.simps)
    qed
  qed
qed simp

subsection \<open>Properties\<close>

text \<open>The reload value the timer counts down from, as its two data bytes give it.\<close>

definition pit_reload :: "(nat \<times> u8) list \<Rightarrow> int" where
  "pit_reload sent = (case map snd (filter (\<lambda>(port, v). port = 0x40) sent) of
     [lo, hi] \<Rightarrow> uint lo + 256 * uint hi | _ \<Rightarrow> - 1)"

lemma pit_bytes:
  assumes "0 \<le> d"
  shows "uint (word_of_int d AND 0xFF :: u8) + 256 * uint (word_of_int (d div 256) :: u8) = d mod 65536"
proof -
  have "(word_of_int d AND 0xFF :: u8) = word_of_int d"
  proof -
    have "(0xFF :: u8) = - 1" by simp
    then show ?thesis by (simp only: and.right_neutral)
  qed
  then have "uint (word_of_int d AND 0xFF :: u8) = d mod 256" by (simp add: uint_word_of_int)
  moreover have "uint (word_of_int (d div 256) :: u8) = d div 256 mod 256" by (simp add: uint_word_of_int)
  moreover have "d mod (256 * 256) = 256 * (d div 256 mod 256) + d mod 256"
    by (rule zmod_zmult2_eq) simp
  ultimately show ?thesis by simp
qed

text \<open>
  \<^verbatim>\<open>pit_init\<close> selects mode 3 of channel 0 and, for frequencies from 19 to
  1193180 Hz, programs the reload value \<open>1193181 div hz\<close>.  At 18 Hz and below the
  divisor 66287 does not fit the 16 bits of the port writes: the reload value is
  751, a rate of 1588 Hz.  In every case \<^verbatim>\<open>time_in_millis\<close> becomes 0.
\<close>

theorem pit_init_reload:
  "take (length (port_log p) + 1) (port_log (pit_init hz p)) = port_log p @ [(0x43, 0x36)] \<and>
   pit_reload (drop (length (port_log p)) (port_log (pit_init hz p))) =
     (if hz \<le> 18 then 751 else if hz \<ge> 1193181 then 1 else 1193181 div hz) \<and>
   ticks (pit_init hz p) = 0 \<and> time_in_millis (pit_init hz p) = 0"
proof -
  define h where "h = (if hz \<le> 18 then 18 else if hz \<ge> 1193181 then 1193181 else hz)"
  have h: "18 \<le> h" "h \<le> 1193181" by (auto simp: h_def)
  define d where "d = 1193181 div h"
  have half: "(2 * d + 1) div 2 = d" by simp
  have d: "0 \<le> d" using h by (simp add: d_def pos_imp_zdiv_nonneg_iff)
  have log: "port_log (pit_init hz p) = port_log p @
      [(0x43, 0x36), (0x40, word_of_int d AND 0xFF), (0x40, word_of_int (d div 256))]"
    "ticks (pit_init hz p) = 0" "time_in_millis (pit_init hz p) = 0"
    by (auto simp: pit_init_def Let_def outb_def h_def d_def)
  have "d mod 65536 = (if hz \<le> 18 then 751 else if hz \<ge> 1193181 then 1 else 1193181 div hz)"
  proof (cases "hz \<le> 18 \<or> hz \<ge> 1193181")
    case False
    then have "19 \<le> h" "h = hz" by (auto simp: h_def)
    then have "d < 65536" using zdiv_mono2[of 1193181 19 h] by (simp add: d_def)
    then show ?thesis using False d by (simp add: d_def h_def)
  qed (auto simp: d_def h_def)
  then show ?thesis using pit_bytes[OF d] log by (simp add: pit_reload_def)
qed

text \<open>
  \<^verbatim>\<open>sleep\<close> returns at the first poll at which the timer interrupts counted since
  its start reach \<open>millis div 10\<close>, and never before; while they stay below, it
  keeps waiting.
\<close>

theorem sleep_returns_first:
  assumes "sint millis \<ge> 0" "sum_list polls < 2147483648"
  shows "(\<exists>k < length polls. sint millis div 10 \<le> int (sum_list (take (Suc k) polls)) \<and>
        (\<forall>j < k. int (sum_list (take (Suc j) polls)) < sint millis div 10) \<and>
        (\<exists>p'. sleep millis polls p = Some (drop (Suc k) polls, p') \<and>
           sint (ticks p') = int (sum_list (take (Suc k) polls)))) \<or>
     ((\<forall>k < length polls. int (sum_list (take (Suc k) polls)) < sint millis div 10) \<and>
        sleep millis polls p = None)"
proof -
  let ?p = "p\<lparr>ticks := 0\<rparr>" and ?tot = "sint millis sdiv 10"
  have q: "?tot = sint millis div 10" using assms(1) by (simp add: sdiv_nonneg)
  have le: "sum_list (take k polls) \<le> sum_list polls" for k
    by (metis append_take_drop_id le_add1 sum_list_append)
  have "sint (ticks ?p) = int 0" by simp
  note first = sleep_loop_first[OF this, of polls ?tot, unfolded add_0, OF assms(2)]
  then show ?thesis
  proof (elim disjE exE conjE)
    fix k
    assume k: "k < length polls" "?tot \<le> int (sum_list (take (Suc k) polls))"
      "\<forall>j < k. int (sum_list (take (Suc j) polls)) < ?tot"
      "sleep_loop ?tot polls ?p = Some (drop (Suc k) polls, (pit_callback ^^ sum_list (take (Suc k) polls)) ?p)"
    have "sint (ticks ((pit_callback ^^ sum_list (take (Suc k) polls)) ?p)) =
        int (0 + sum_list (take (Suc k) polls))"
      by (rule sint_ticks_callbacks) (use assms(2) le[of "Suc k"] in auto)
    then show ?thesis using k unfolding q sleep_def by (intro disjI1 exI[of _ k]) simp
  next
    assume "\<forall>k < length polls. int (sum_list (take (Suc k) polls)) < ?tot"
      "sleep_loop ?tot polls ?p = None"
    then show ?thesis unfolding q sleep_def by simp
  qed
qed

theorem sleep_returns_first_witness:
  "\<exists>p'. sleep 30 [4] \<lparr>time_in_millis = 0, ticks = 7, port_log = []\<rparr> = Some ([], p') \<and>
     sint (ticks p') = 4"
proof -
  have "sint (30 :: u32) = 30" by simp
  with sleep_returns_first[of 30 "[4]" "\<lparr>time_in_millis = 0, ticks = 7, port_log = []\<rparr>"]
  show ?thesis by auto
qed

end
