(* ===== verification/Boi_Path.thy ===== *)
theory Boi_Path
  imports Boi_Paging Boi_String
begin

text \<open>
  The path parser of \<^verbatim>\<open>src/src/fs/pparser.c\<close>: a path such as \<^verbatim>\<open>0:/bin/shell.elf\<close>
  becomes a drive number and a linked list of path parts.  Roots, parts and names
  are kernel-heap allocations in the flat memory, laid out as the structs are: the
  first word of a root is its drive number, of a part its name; the second word
  is the first or next part.  As in the source the results of \<^verbatim>\<open>kzalloc\<close> are not
  checked.
\<close>

subsection \<open>Operations\<close>

abbreviation BOIOS_MAX_PATH :: nat where "BOIOS_MAX_PATH \<equiv> 128"

text \<open>The two bytes after the drive digit are compared with the literal \<^verbatim>\<open>:/\<close>.\<close>

definition pathparser_path_valid_format :: "memory \<Rightarrow> addr \<Rightarrow> bool" where
  "pathparser_path_valid_format m filename =
     (let len = sint (strnlen m filename (of_nat BOIOS_MAX_PATH))
      in (len \<ge> 3 \<and> isdigit (m filename)) \<and> m (filename + 1) = 58 \<and> m (filename + 2) = 47)"

text \<open>The pointer the path argument points to is returned beside the result.\<close>

definition pathparser_get_drive_by_path :: "memory \<Rightarrow> addr \<Rightarrow> (kerror + int) \<times> addr" where
  "pathparser_get_drive_by_path m path =
     (if \<not> pathparser_path_valid_format m path then (Inl EBADPATH, path)
      else (Inr (tonumericdigit (m path)), path + 3))"

definition pathparser_create_root :: "'z kmem_scheme \<Rightarrow> int \<Rightarrow> addr \<times> 'z kmem_scheme" where
  "pathparser_create_root st drive_no =
     (let (path_r, st) = kzalloc st 8;
          m = write32 (mem st) path_r (word_of_int drive_no);
          m = write32 m (path_r + 4) 0
      in (path_r, st\<lparr>mem := m\<rparr>))"

partial_function (option) path_part_loop ::
    "memory \<Rightarrow> addr \<Rightarrow> addr \<Rightarrow> nat \<Rightarrow> (memory \<times> addr \<times> nat) option" where
  "path_part_loop m result_path_part path i =
     (if m path \<noteq> 47 \<and> m path \<noteq> 0
      then path_part_loop (m(result_path_part + of_nat i := m path)) result_path_part (path + 1) (i + 1)
      else Some (m, path, i))"

definition pathparser_get_path_part ::
    "'z kmem_scheme \<Rightarrow> addr \<Rightarrow> (addr \<times> 'z kmem_scheme \<times> addr) option" where
  "pathparser_get_path_part st path =
     (let (result_path_part, st) = kzalloc st (of_nat BOIOS_MAX_PATH)
      in case path_part_loop (mem st) result_path_part path 0 of
        None \<Rightarrow> None
      | Some (m, path, i) \<Rightarrow>
          let st = st\<lparr>mem := m\<rparr>;
              path = (if m path = 47 then path + 1 else path)
          in Some (if i = 0 then (0, kfree st result_path_part, path) else (result_path_part, st, path)))"

definition pathparser_parse_path_part ::
    "'z kmem_scheme \<Rightarrow> addr \<Rightarrow> addr \<Rightarrow> (addr \<times> 'z kmem_scheme \<times> addr) option" where
  "pathparser_parse_path_part st last_part path =
     (case pathparser_get_path_part st path of
        None \<Rightarrow> None
      | Some (path_part_str, st, path) \<Rightarrow>
          if path_part_str = 0 then Some (0, st, path)
          else
            let (part, st) = kzalloc st 8;
                m = write32 (mem st) part path_part_str;
                m = write32 m (part + 4) 0;
                m = (if last_part \<noteq> 0 then write32 m (last_part + 4) part else m)
            in Some (part, st\<lparr>mem := m\<rparr>, path))"

partial_function (option) parse_parts_loop ::
    "'z kmem_scheme \<Rightarrow> addr \<Rightarrow> addr \<Rightarrow> 'z kmem_scheme option" where
  "parse_parts_loop st part path =
     (if part = 0 then Some st
      else case pathparser_parse_path_part st part path of
        None \<Rightarrow> None
      | Some (part, st, path) \<Rightarrow> parse_parts_loop st part path)"

text \<open>\<open>None\<close> is a scan that does not return; the parameter for the current directory is not used.\<close>

definition pathparser_parse :: "'z kmem_scheme \<Rightarrow> addr \<Rightarrow> (addr \<times> 'z kmem_scheme) option" where
  "pathparser_parse st path =
     (case strlen (mem st) path of
        None \<Rightarrow> None
      | Some len \<Rightarrow>
          if len > of_nat BOIOS_MAX_PATH then Some (0, st)
          else case pathparser_get_drive_by_path (mem st) path of
            (Inl _, _) \<Rightarrow> Some (0, st)
          | (Inr drive_no, tmp_path) \<Rightarrow>
              let (path_root, st) = pathparser_create_root st drive_no
              in if path_root = 0 then Some (0, st)
                 else case pathparser_parse_path_part st 0 tmp_path of
                   None \<Rightarrow> None
                 | Some (first_part, st, tmp_path) \<Rightarrow>
                     if first_part = 0 then Some (path_root, st)
                     else
                       let st = st\<lparr>mem := write32 (mem st) (path_root + 4) first_part\<rparr>
                       in case pathparser_parse_path_part st first_part tmp_path of
                         None \<Rightarrow> None
                       | Some (part, st, tmp_path) \<Rightarrow>
                           (case parse_parts_loop st part tmp_path of
                              None \<Rightarrow> None
                            | Some st \<Rightarrow> Some (path_root, st)))"

partial_function (option) free_parts_loop :: "'z kmem_scheme \<Rightarrow> addr \<Rightarrow> 'z kmem_scheme option" where
  "free_parts_loop st part =
     (if part = 0 then Some st
      else
        let next_part = read32 (mem st) (part + 4);
            st = kfree st (read32 (mem st) part);
            st = kfree st part
        in free_parts_loop st next_part)"

definition pathparser_free :: "'z kmem_scheme \<Rightarrow> addr \<Rightarrow> 'z kmem_scheme option" where
  "pathparser_free st root =
     (case free_parts_loop st (read32 (mem st) (root + 4)) of
        None \<Rightarrow> None
      | Some st \<Rightarrow> Some (kfree st root))"

subsection \<open>The parts of a path\<close>

text \<open>
  The specification: the parts between slashes up to the first empty one, where
  parsing stops.
\<close>

definition path_rest :: "u8 list \<Rightarrow> u8 list" where
  "path_rest s = tl (dropWhile (\<lambda>c. c \<noteq> 47) s)"

abbreviation path_name :: "u8 list \<Rightarrow> u8 list" where
  "path_name s \<equiv> takeWhile (\<lambda>c. c \<noteq> 47) s"

lemma path_rest_length: "path_name s \<noteq> [] \<Longrightarrow> length (path_rest s) < length s"
  using length_dropWhile_le[of "\<lambda>c. c \<noteq> 47" s] by (cases s) (auto simp: path_rest_def)

function path_parts :: "u8 list \<Rightarrow> u8 list list" where
  "path_parts s = (if path_name s = [] then [] else path_name s # path_parts (path_rest s))"
  by pat_completeness auto
termination
  by (relation "measure length") (auto dest: path_rest_length)

declare path_parts.simps [simp del]

subsection \<open>Reading one part\<close>

abbreviation kreserved :: "'z kmem_scheme \<Rightarrow> (addr \<rightharpoonup> nat) \<Rightarrow> addr \<Rightarrow> bool" where
  "kreserved st A \<equiv> reserved (table_byte (kernel_heap st)) (pool_byte (kernel_heap st)) A"

text \<open>A string all of whose bytes are reserved.\<close>

definition kstring :: "'z kmem_scheme \<Rightarrow> (addr \<rightharpoonup> nat) \<Rightarrow> addr \<Rightarrow> u8 list \<Rightarrow> bool" where
  "kstring st A p s \<longleftrightarrow> cstr (mem st) p s \<and> (\<forall>a. in_range p (Suc (length s)) a \<longrightarrow> kreserved st A a)"

lemma path_part_loop_spec:
  assumes "cstr m path s" "i + length s < 4294967296"
    and "\<And>a. in_range (res + of_nat i) (length (path_name s)) a \<Longrightarrow> \<not> in_range path (Suc (length s)) a"
  shows "path_part_loop m res path i =
     Some (store_bytes m (res + of_nat i) (path_name s), path + of_nat (length (path_name s)),
       i + length (path_name s))"
  using assms
proof (induction s arbitrary: m path i)
  case Nil
  then show ?case by (subst path_part_loop.simps) simp
next
  case (Cons c s)
  show ?case
  proof (cases "c = 47")
    case True
    then show ?thesis using Cons.prems by (subst path_part_loop.simps) simp
  next
    case False
    let ?m = "m(res + of_nat i := c)"
    have c: "m path = c" "c \<noteq> 0" "cstr m (path + 1) s" using Cons.prems(1) by auto
    have apart: "\<not> in_range path (Suc (Suc (length s))) a"
      if "in_range (res + of_nat i) (Suc (length (path_name s))) a" for a
      using Cons.prems(3)[of a] that False by simp
    have sub: "in_range path (Suc (Suc (length s))) a" if "in_range (path + 1) (Suc (length s)) a" for a
      using that by (simp add: in_range_Suc[of path "Suc (length s)"])
    have "\<not> in_range (path + 1) (Suc (length s)) (res + of_nat i)"
      using apart[of "res + of_nat i"] sub by (auto simp: in_range_Suc)
    then have s': "cstr ?m (path + 1) s" using c(3) by (simp add: cstr_upd)
    have next_res: "res + of_nat (Suc i) = res + of_nat i + 1" by simp
    have "path_part_loop ?m res (path + 1) (Suc i) =
       Some (store_bytes ?m (res + of_nat (Suc i)) (path_name s),
         path + 1 + of_nat (length (path_name s)), Suc i + length (path_name s))"
    proof (rule Cons.IH[OF s'])
      show "Suc i + length s < 4294967296" using Cons.prems(2) by simp
      show "\<not> in_range (path + 1) (Suc (length s)) a"
        if "in_range (res + of_nat (Suc i)) (length (path_name s)) a" for a
        using apart[of a] that sub[of a] unfolding next_res by (auto simp: in_range_Suc)
    qed
    then show ?thesis using False c(1,2)
      by (subst path_part_loop.simps) (simp add: ac_simps)
  qed
qed

lemma path_rest_cstr:
  assumes "cstr m path s"
  shows "cstr m (if m (path + of_nat (length (path_name s))) = 47
     then path + of_nat (length (path_name s)) + 1 else path + of_nat (length (path_name s))) (path_rest s)"
  using assms
proof (induction s arbitrary: path)
  case (Cons c s)
  show ?case
  proof (cases "c = 47")
    case True
    then show ?thesis using Cons.prems by (simp add: path_rest_def)
  next
    case False
    then show ?thesis using Cons.IH[of "path + 1"] Cons.prems
      by (simp add: path_rest_def ac_simps split: if_splits)
  qed
qed (simp add: path_rest_def)

lemma path_rest_range:
  assumes "in_range (if b then path + of_nat (length (path_name s)) + 1
      else path + of_nat (length (path_name s))) (Suc (length (path_rest s))) a"
    and "b \<Longrightarrow> length (path_name s) < length s" "length s < 1000000"
  shows "in_range path (Suc (length s)) a"
proof -
  have len: "length (path_name s) + length (dropWhile (\<lambda>c. c \<noteq> 47) s) = length s"
    by (metis length_append takeWhile_dropWhile_id)
  define k where "k = length (path_name s) + (if b then 1 else 0)"
  have k: "k + Suc (length (path_rest s)) \<le> Suc (length s)"
    using len assms(2) unfolding k_def path_rest_def length_tl by (cases b; simp; linarith)
  have "in_range (path + of_nat k) (Suc (length (path_rest s))) a"
    using assms(1) by (cases b) (simp_all add: k_def ac_simps)
  then obtain r where r: "a = path + of_nat k + of_nat r" "r < Suc (length (path_rest s))"
    by (rule in_rangeE)
  have "a - path = of_nat (k + r)" using r(1) by simp
  moreover have "unat (of_nat (k + r) :: u32) = k + r"
    by (rule unat_of_nat32) (use r(2) k assms(3) in linarith)
  ultimately show ?thesis using r(2) k by (simp add: in_range_def)
qed

lemma path_slash_iff:
  assumes "cstr m path s"
  shows "m (path + of_nat (length (path_name s))) = 47 \<longleftrightarrow> length (path_name s) < length s"
  using assms
proof (induction s arbitrary: path)
  case (Cons c s)
  then show ?case by (cases "c = 47") (auto simp: add.assoc [symmetric])
qed simp

lemma path_name_le: "length (path_name s) \<le> length s"
  by (rule length_takeWhile_le)

lemma kreserved_live:
  "A p = Some n \<Longrightarrow> in_range p n a \<Longrightarrow> live_regions st A \<Longrightarrow> kreserved st A a"
  unfolding reserved_def using kpages.live_private by blast

text \<open>A state that differs only in memory outside the table keeps its live regions.\<close>

lemma live_regions_update:
  assumes "live_regions st A" "\<And>a. m a \<noteq> mem st a \<Longrightarrow> in_range p 4096 a" "A p = Some 4096"
  shows "live_regions (st\<lparr>mem := m\<rparr>) A" "avail (st\<lparr>mem := m\<rparr>) = avail st"
proof -
  have "m a = mem st a" if "table_byte (kernel_heap st) a" for a
    using that assms(2) kpages.live_private[OF assms(1,3)] by blast
  then show "live_regions (st\<lparr>mem := m\<rparr>) A" "avail (st\<lparr>mem := m\<rparr>) = avail st"
    using live_regions_mem[OF assms(1)] by blast+
qed

lemma path_name_cstr: "cstr m path s \<Longrightarrow> 0 \<notin> set (path_name s)"
  using cstr_no_nul set_takeWhileD by metis

lemma cstr_stored:
  "length w < 1000000 \<Longrightarrow> 0 \<notin> set w \<Longrightarrow> m (p + of_nat (length w)) = 0 \<Longrightarrow>
     cstr (store_bytes m p w) p w"
proof (induction w arbitrary: m p)
  case (Cons c w)
  have "unat (of_nat (Suc (length w)) :: u32) = Suc (length w)"
    using Cons.prems(1) by (intro unat_of_nat32) simp
  then have "p + of_nat (Suc (length w)) \<noteq> p" by (metis Zero_not_Suc add_cancel_right_right unat_0)
  then have "(m(p := c)) (p + 1 + of_nat (length w)) = 0"
    using Cons.prems(3) by (simp add: add.assoc)
  then have "cstr (store_bytes (m(p := c)) (p + 1) w) (p + 1) w"
    using Cons.prems by (intro Cons.IH) auto
  moreover have "\<not> in_range (p + 1) (length w) p"
    using Cons.prems(1) by (simp add: in_range_def unat_minus_1)
  ultimately show ?case using Cons.prems(2) by (simp add: store_bytes_outside)
qed simp

text \<open>One call of \<^verbatim>\<open>pathparser_get_path_part\<close> with a free block left.\<close>

lemma get_path_part_spec:
  assumes live: "live_regions st A" and av: "0 < avail st"
    and s: "kstring st A path s" and len: "length s \<le> 127"
  obtains (no_part) st' path' where "path_name s = []"
      "pathparser_get_path_part st path = Some (0, st', path')"
      "live_regions st' A" "avail st' = avail st" "kernel_heap st' = kernel_heap st"
      "\<And>a. kreserved st A a \<Longrightarrow> mem st' a = mem st a"
  | (part) st' path' p where "path_name s \<noteq> []"
      "pathparser_get_path_part st path = Some (p, st', path')"
      "p \<noteq> 0" "page_aligned p" "A p = None"
      "live_regions st' (A(p \<mapsto> 4096))" "avail st = Suc (avail st')" "kernel_heap st' = kernel_heap st"
      "\<And>a. kreserved st A a \<Longrightarrow> mem st' a = mem st a"
      "cstr (mem st') p (path_name s)" "cstr (mem st) path' (path_rest s)"
      "\<And>a. in_range path' (Suc (length (path_rest s))) a \<Longrightarrow> in_range path (Suc (length s)) a"
proof -
  let ?w = "path_name s"
  have sz: "0 < unat (of_nat BOIOS_MAX_PATH :: u32)" "unat (of_nat BOIOS_MAX_PATH :: u32) \<le> 4096" by simp_all
  obtain p st1 where c: "kzalloc st (of_nat BOIOS_MAX_PATH) = (p, st1)" by fastforce
  note law = kpages.alloc_page[OF live sz av c]
  have h: "kernel_heap st1 = kernel_heap st" by (rule kernel_heap_kzalloc[OF c])
  note keep = kpages.alloc_keeps_reserved[OF live sz av c]
  have cs: "cstr (mem st) path s" and res: "\<And>a. in_range path (Suc (length s)) a \<Longrightarrow> kreserved st A a"
    using s by (auto simp: kstring_def)
  have cs1: "cstr (mem st1) path s"
    using cstr_cong[of path s "mem st1" "mem st"] cs res keep(1) by blast
  have wl: "length ?w \<le> 127" using path_name_le[of s] len by simp
  have small: "in_range p 4096 a" if "in_range p (length ?w) a" for a
    using that wl by (auto intro: in_range_mono)
  have apart: "\<not> in_range path (Suc (length s)) a" if "in_range p (length ?w) a" for a
    using small[OF that] keep(3)[of a] res[of a] by blast
  let ?m = "store_bytes (mem st1) p ?w"
  define path1 where "path1 = path + of_nat (length ?w)"
  have loop: "path_part_loop (mem st1) p path 0 = Some (?m, path1, length ?w)"
    using path_part_loop_spec[OF cs1, of 0 p] apart len by (simp add: path1_def)
  have m_res: "?m a = mem st a" if "kreserved st A a" for a
    using keep(1,3)[OF that] small[of a] store_bytes_outside[of p ?w a] by metis
  have p1: "kreserved st A path1"
  proof (rule res)
    show "in_range path (Suc (length s)) path1"
      unfolding path1_def by (rule in_range_offset) (use wl path_name_le[of s] in \<open>simp add: unat_of_nat32\<close>)
  qed
  have slash: "?m path1 = mem st path1" "mem st1 path1 = mem st path1"
    using m_res[OF p1] keep(1)[OF p1] by auto
  define path2 where "path2 = (if mem st path1 = 47 then path1 + 1 else path1)"
  let ?st = "st1\<lparr>mem := ?m\<rparr>"
  have get: "pathparser_get_path_part st path =
      Some (if ?w = [] then (0, kfree ?st p, path2) else (p, ?st, path2))"
    by (simp add: pathparser_get_path_part_def c loop slash path2_def Let_def del: of_nat_numeral)
  have "in_range p 4096 a" if "?m a \<noteq> mem st1 a" for a
    using that small store_bytes_outside by blast
  note live1 = live_regions_update[of st1 "A(p \<mapsto> 4096)" ?m p, OF _ this]
  have live1: "live_regions ?st (A(p \<mapsto> 4096))" "avail ?st = avail st1"
    using live1 law by auto
  have av1: "avail st = Suc (avail ?st)" using law live1(2) by simp
  show thesis
  proof (cases "?w = []")
    case True
    then have st: "?st = st1" by simp
    note rel = kpages.alloc_release[OF live sz av c]
    have "mem (kfree st1 p) a = mem st a" if "kreserved st A a" for a
    proof -
      have "\<not> table_byte (kernel_heap st1) a" using that by (simp add: reserved_def h)
      then show ?thesis
        using kpages.release_live[of st1 "A(p \<mapsto> 4096)" p 4096] law keep(1)[OF that] by auto
    qed
    then show thesis using that(1)[OF True, of "kfree st1 p" path2] get True st rel h by auto
  next
    case False
    have "cstr ?m p ?w"
    proof (rule cstr_stored)
      show "length ?w < 1000000" "0 \<notin> set ?w" using wl path_name_cstr[OF cs] by auto
      show "mem st1 (p + of_nat (length ?w)) = 0"
        by (rule kpages.alloc_zeroed[OF live sz av c in_range_offset]) (use wl in \<open>simp add: unat_of_nat32\<close>)
    qed
    moreover have "cstr (mem st) path2 (path_rest s)"
      unfolding path2_def path1_def by (rule path_rest_cstr[OF cs])
    moreover have "in_range path (Suc (length s)) a"
      if "in_range path2 (Suc (length (path_rest s))) a" for a
      by (rule path_rest_range[of "mem st path1 = 47"])
        (use that path_slash_iff[OF cs] len in \<open>auto simp: path2_def path1_def\<close>)
    ultimately show thesis
      using that(2)[OF False, of p ?st path2] get False law live1 av1 h m_res by auto
  qed
qed

subsection \<open>The list of parts\<close>

text \<open>
  A chain of parts from \<open>p\<close> to \<open>e\<close>: its nodes are the address of a part, the address of
  its name and the name.
\<close>

type_synonym node = "addr \<times> addr \<times> u8 list"

fun chain :: "memory \<Rightarrow> addr \<Rightarrow> node list \<Rightarrow> addr \<Rightarrow> bool" where
  "chain m p [] e \<longleftrightarrow> p = e"
| "chain m p ((q, n, s) # ns) e \<longleftrightarrow>
     p = q \<and> q \<noteq> 0 \<and> page_aligned q \<and> page_aligned n \<and> read32 m q = n \<and> cstr m n s \<and> length s < 128 \<and>
     chain m (read32 m (q + 4)) ns e"

fun node_pages :: "node list \<Rightarrow> addr list" where
  "node_pages [] = []"
| "node_pages ((q, n, s) # ns) = q # n # node_pages ns"

abbreviation node_names :: "node list \<Rightarrow> u8 list list" where
  "node_names ns \<equiv> map (\<lambda>(q, n, s). s) ns"

lemma chain_append: "chain m p (xs @ ys) e \<longleftrightarrow> (\<exists>q. chain m p xs q \<and> chain m q ys e)"
  by (induction xs arbitrary: p) auto

lemma node_pages_append [simp]: "node_pages (xs @ ys) = node_pages xs @ node_pages ys"
  by (induction xs rule: node_pages.induct) auto

lemma read32_slots:
  assumes "page_aligned q" "\<And>a. in_range q 4096 a \<Longrightarrow> m' a = m a"
  shows "read32 m' q = read32 m q" "read32 m' (q + 4) = read32 m (q + 4)"
  using read32_page_cong[of 0 q m' m] read32_page_cong[of 1 q m' m] assms by simp_all

lemma cstr_page_cong:
  assumes "length s < 4096" "\<And>a. in_range p 4096 a \<Longrightarrow> m' a = m a"
  shows "cstr m' p s = cstr m p s"
proof (rule cstr_cong)
  show "m' a = m a" if "in_range p (Suc (length s)) a" for a
    by (rule assms(2), rule in_range_mono[OF that]) (use assms(1) in simp)
qed

lemma chain_cong:
  "(\<And>q a. q \<in> set (node_pages ns) \<Longrightarrow> in_range q 4096 a \<Longrightarrow> m' a = m a) \<Longrightarrow>
     chain m p ns e \<Longrightarrow> chain m' p ns e"
proof (induction ns arbitrary: p)
  case (Cons x ns)
  obtain q n s where x: "x = (q, n, s)" by (cases x)
  have q: "\<And>a. in_range q 4096 a \<Longrightarrow> m' a = m a" and n: "\<And>a. in_range n 4096 a \<Longrightarrow> m' a = m a"
    using Cons.prems(1) x by auto
  show ?case
    using Cons.prems(2) Cons.IH[of "read32 m (q + 4)"] Cons.prems(1)
      read32_slots[OF _ q] cstr_page_cong[OF _ n] x by auto
qed simp

text \<open>Writing the next pointer of the last part prolongs the chain.\<close>

lemma chain_link:
  assumes "chain m p (ns @ [(q, n, s)]) e" "\<And>a. \<not> in_range q 4096 a \<Longrightarrow> m' a = m a"
    and "read32 m' q = n" "read32 m' (q + 4) = e'"
    and "\<And>r a. r \<in> set (node_pages ns) \<Longrightarrow> in_range r 4096 a \<Longrightarrow> \<not> in_range q 4096 a"
    and "\<And>a. in_range n 4096 a \<Longrightarrow> \<not> in_range q 4096 a"
  shows "chain m' p (ns @ [(q, n, s)]) e'"
proof -
  obtain r where r: "chain m p ns r" "chain m r [(q, n, s)] e" using assms(1) by (auto simp: chain_append)
  have "chain m' p ns r" by (rule chain_cong[OF _ r(1)]) (use assms(2,5) in blast)
  moreover have "cstr m' n s = cstr m n s"
    by (rule cstr_page_cong) (use r(2) assms(2,6) in auto)
  ultimately show ?thesis using r(2) assms(3,4) by (auto simp: chain_append)
qed

text \<open>One call of \<^verbatim>\<open>pathparser_parse_path_part\<close> that finds a part.\<close>

lemma parse_path_part_spec:
  assumes live: "live_regions st A" and av: "2 \<le> avail st"
    and s: "kstring st A path s" and len: "length s \<le> 127"
    and last: "l = 0 \<or> A l = Some 4096 \<and> page_aligned l"
  obtains (no_part) st' path' where "path_name s = []"
      "pathparser_parse_path_part st l path = Some (0, st', path')"
      "live_regions st' A" "avail st' = avail st" "kernel_heap st' = kernel_heap st"
      "\<And>a. kreserved st A a \<Longrightarrow> mem st' a = mem st a"
  | (part) st' path' q n where "path_name s \<noteq> []"
      "pathparser_parse_path_part st l path = Some (q, st', path')"
      "q \<noteq> 0" "A q = None" "A n = None" "q \<noteq> n"
      "live_regions st' (A(n \<mapsto> 4096, q \<mapsto> 4096))" "avail st = Suc (Suc (avail st'))"
      "kernel_heap st' = kernel_heap st"
      "\<And>a. kreserved st A a \<Longrightarrow> l = 0 \<or> \<not> in_range l 4096 a \<Longrightarrow> mem st' a = mem st a"
      "l \<noteq> 0 \<Longrightarrow> read32 (mem st') l = read32 (mem st) l"
      "l \<noteq> 0 \<Longrightarrow> read32 (mem st') (l + 4) = q"
      "chain (mem st') q [(q, n, path_name s)] 0"
      "cstr (mem st) path' (path_rest s)"
      "\<And>a. in_range path' (Suc (length (path_rest s))) a \<Longrightarrow> in_range path (Suc (length s)) a"
proof -
  have av1: "0 < avail st" using av by simp
  show thesis
  proof (rule get_path_part_spec[OF live av1 s len], goal_cases)
    case (1 st' path')
    then show thesis using that(1)[of st' path'] by (simp add: pathparser_parse_path_part_def)
  next
    case (2 st1 path1 n)
    have sz: "0 < unat (8 :: u32)" "unat (8 :: u32) \<le> 4096" by simp_all
    obtain q st2 where c: "kzalloc st1 8 = (q, st2)" by fastforce
    have av2: "0 < avail st1" using 2(7) av by simp
    let ?A1 = "A(n \<mapsto> 4096)"
    let ?A2 = "A(n \<mapsto> 4096, q \<mapsto> 4096)"
    note law = kpages.alloc_page[OF 2(6) sz av2 c]
    note keep = kpages.alloc_keeps_reserved[OF 2(6) sz av2 c]
    have q: "q \<noteq> 0" "page_aligned q" "?A1 q = None" and live2: "live_regions st2 ?A2" using law by auto
    have h: "kernel_heap st2 = kernel_heap st" using kernel_heap_kzalloc[OF c] 2(8) by simp
    have qn: "q \<noteq> n" "A q = None" using q(3) by (auto split: if_splits)
    have lq: "l = 0 \<or> l \<noteq> q \<and> l \<noteq> n \<and> ?A1 l = Some 4096" using last qn 2(5) by auto
    define m3 where "m3 = write32 (write32 (mem st2) (page_slot q 0) n) (page_slot q 1) 0"
    define m4 where "m4 = (if l \<noteq> 0 then write32 m3 (page_slot l 1) q else m3)"
    have call: "pathparser_parse_path_part st l path = Some (q, st2\<lparr>mem := m4\<rparr>, path1)"
      using 2(1,2) 2(3) c by (simp add: pathparser_parse_path_part_def m4_def m3_def Let_def)
    have slot: "in_range r 4096 a" if "in_range (page_slot r k) 4 a" "k = 0 \<or> k = 1" for r k a
      using page_slot_range[of k r a] that by auto
    have m3_out: "m3 a = mem st2 a" if "\<not> in_range q 4096 a" for a
    proof -
      have "\<not> in_range (page_slot q 0) 4 a" "\<not> in_range (page_slot q 1) 4 a" using that slot by blast+
      then show ?thesis by (simp add: m3_def write32_outside)
    qed
    have m4_out: "m4 a = mem st2 a" if "\<not> in_range q 4096 a" "l = 0 \<or> \<not> in_range l 4096 a" for a
    proof -
      have "l = 0 \<or> \<not> in_range (page_slot l 1) 4 a" using that(2) slot by blast
      then show ?thesis using m3_out[OF that(1)] by (auto simp: m4_def write32_outside)
    qed
    have q_slots: "read32 m4 q = n" "read32 m4 (q + 4) = 0"
    proof -
      have "read32 m3 (page_slot q 0) = n" "read32 m3 (page_slot q 1) = 0"
        using q(2) by (simp_all only: m3_def read32_write32_slot) simp_all
      moreover have k: "read32 m4 (page_slot q k) = read32 m3 (page_slot q k)" if "k < 1024" for k
        using read32_write32_slot[OF q(2) _ that, of l 1 m3 q] last lq by (auto simp: m4_def)
      ultimately show "read32 m4 q = n" "read32 m4 (q + 4) = 0"
        using k[of 0] k[of 1] by simp_all
    qed
    have nq: "\<not> in_range q 4096 a" if "in_range r 4096 a" "?A1 r = Some 4096" for r a
      using kpages.alloc_new_apart[OF 2(6) sz av2 c that(2)] that(1) by (auto simp: disjoint_ranges_def)
    have l_old: "mem st2 a = mem st a" if "l \<noteq> 0" "in_range l 4096 a" for a
    proof -
      have "kreserved st A a" using kreserved_live[of A l 4096 a st] that last live by auto
      moreover have "mem st2 a = mem st1 a"
        using kpages.alloc_keeps_live[OF 2(6) sz av2 c, of l 4096 a] that lq by auto
      ultimately show ?thesis using 2(9) by simp
    qed
    have l_slots: "read32 m4 l = read32 (mem st) l" "read32 m4 (l + 4) = q" if "l \<noteq> 0"
    proof -
      have al: "page_aligned l" using last that by simp
      have "read32 m3 l = read32 (mem st) l"
      proof (rule read32_slots(1)[OF al])
        fix a assume "in_range l 4096 a"
        then show "m3 a = mem st a" using m3_out[of a] nq[of l a] l_old[OF that] lq that by auto
      qed
      then show "read32 m4 l = read32 (mem st) l"
        using read32_write32_slot[OF al al, of 0 1 m3 q] that by (simp add: m4_def)
      show "read32 m4 (l + 4) = q"
        using read32_write32_slot[OF al al, of 1 1 m3 q] that by (simp add: m4_def)
    qed
    have pages: "\<And>a. m4 a \<noteq> mem st2 a \<Longrightarrow> in_range q 4096 a \<or> l \<noteq> 0 \<and> in_range l 4096 a"
      using m4_out by blast
    have "m4 a = mem st2 a" if "table_byte (kernel_heap st2) a" for a
    proof -
      have "\<not> in_range q 4096 a" using kpages.live_private[OF live2, of q 4096 a] that by auto
      moreover have "l = 0 \<or> \<not> in_range l 4096 a"
        using kpages.live_private[OF live2, of l 4096 a] that lq by auto
      ultimately show ?thesis by (rule m4_out)
    qed
    note live3 = live_regions_mem[OF live2 this]
    have kept: "m4 a = mem st a" if "kreserved st A a" "l = 0 \<or> \<not> in_range l 4096 a" for a
    proof -
      have "kreserved st1 ?A1 a"
      proof -
        have "(?A1) r = Some k" if "A r = Some k" for r k using that 2(5) by auto
        then show ?thesis using \<open>kreserved st A a\<close> unfolding reserved_def 2(8) by blast
      qed
      from keep(1,3)[OF this] show ?thesis using m4_out[of a] that 2(9) by simp
    qed
    have ch: "chain m4 q [(q, n, path_name s)] 0"
    proof -
      have "cstr m4 n (path_name s) = cstr (mem st1) n (path_name s)"
      proof (rule cstr_page_cong)
        show "length (path_name s) < 4096" using path_name_le[of s] len by simp
        fix a assume a: "in_range n 4096 a"
        have "l = 0 \<or> \<not> in_range l 4096 a"
          using kpages.live_apart[OF 2(6), of l 4096 n 4096] lq a by (auto simp: disjoint_ranges_def)
        then show "m4 a = mem st1 a"
          using m4_out[of a] nq[OF a] kpages.alloc_keeps_live[OF 2(6) sz av2 c, of n 4096 a] a by simp
      qed
      then show ?thesis using 2(4,10) q q_slots path_name_le[of s] len by simp
    qed
    show thesis
      by (rule that(2)[OF 2(1) call q(1) qn(2) 2(5) qn(1)])
        (use live3 2(7) law h kept l_slots ch 2(11,12) in auto)
  qed
qed

subsection \<open>Parsing a whole path\<close>

text \<open>
  The heap while a path is parsed: the new pages \<open>ps\<close> are live, all other regions
  are as before, and reserved bytes have kept their value.
\<close>

definition parse_heap ::
    "'z kmem_scheme \<Rightarrow> (addr \<rightharpoonup> nat) \<Rightarrow> 'z kmem_scheme \<Rightarrow> addr list \<Rightarrow> bool" where
  "parse_heap st0 A st ps \<longleftrightarrow>
     live_regions st (add_pages A (set ps)) \<and> distinct ps \<and> (\<forall>p \<in> set ps. A p = None) \<and>
     kernel_heap st = kernel_heap st0 \<and> avail st0 = avail st + length ps \<and>
     (\<forall>a. kreserved st0 A a \<longrightarrow> mem st a = mem st0 a)"

text \<open>The unread path: a string in bytes that were reserved at the start.\<close>

definition unread :: "'z kmem_scheme \<Rightarrow> (addr \<rightharpoonup> nat) \<Rightarrow> 'z kmem_scheme \<Rightarrow> addr \<Rightarrow> u8 list \<Rightarrow> bool" where
  "unread st0 A st path t \<longleftrightarrow> cstr (mem st) path t \<and> length t \<le> 127 \<and>
     (\<forall>a. in_range path (Suc (length t)) a \<longrightarrow> kreserved st0 A a)"

lemma parse_heap_reserved:
  assumes "parse_heap st0 A st ps" "kreserved st0 A a"
  shows "kreserved st (add_pages A (set ps)) a" "p \<in> set ps \<Longrightarrow> \<not> in_range p 4096 a"
proof -
  have live: "live_regions st (add_pages A (set ps))" and h: "kernel_heap st = kernel_heap st0"
    and new: "\<And>p. p \<in> set ps \<Longrightarrow> A p = None" using assms(1) by (auto simp: parse_heap_def)
  have up: "add_pages A (set ps) q = Some k" if "A q = Some k" for q k
    using that new by (auto simp: add_pages_def)
  show "kreserved st (add_pages A (set ps)) a"
    using assms(2) up unfolding reserved_def h by blast
  show "\<not> in_range p 4096 a" if "p \<in> set ps"
  proof (rule kpages.reserved_not_new[OF live])
    show "kreserved st A a" using assms(2) by (simp add: h)
    show "add_pages A (set ps) p = Some 4096" using that by simp
    show "A p = None" by (rule new[OF that])
  qed (rule up)
qed

lemma parse_heap_apart:
  assumes "parse_heap st0 A st ps" "p \<in> set ps" "q \<in> set ps" "p \<noteq> q" "in_range p 4096 a"
  shows "\<not> in_range q 4096 a"
  using kpages.live_apart[of st "add_pages A (set ps)" p 4096 q 4096] assms
  by (auto simp: parse_heap_def disjoint_ranges_def)

lemma unread_next:
  assumes "parse_heap st0 A st ps" "unread st0 A st path t" "parse_heap st0 A st' ps'"
    and "cstr (mem st) path' (path_rest t)" "path_name t \<noteq> []"
    and "\<And>a. in_range path' (Suc (length (path_rest t))) a \<Longrightarrow> in_range path (Suc (length t)) a"
  shows "unread st0 A st' path' (path_rest t)"
proof -
  have res: "kreserved st0 A a" if "in_range path' (Suc (length (path_rest t))) a" for a
    using assms(2,6) that by (auto simp: unread_def)
  have "cstr (mem st') path' (path_rest t) = cstr (mem st) path' (path_rest t)"
    by (rule cstr_cong) (use res assms(1,3) in \<open>auto simp: parse_heap_def\<close>)
  then show ?thesis
    using assms(2,4) path_rest_length[OF assms(5)] res by (auto simp: unread_def)
qed

lemma parse_parts_loop_zero: "parse_parts_loop st 0 path = Some st"
  by (subst parse_parts_loop.simps) simp

lemma add_pages_twice: "(add_pages A S)(n \<mapsto> 4096, q \<mapsto> 4096) = add_pages A (insert n (insert q S))"
  by (auto simp: add_pages_def)

lemma parse_part_step:
  assumes hp: "parse_heap st0 A st ps" and un: "unread st0 A st path t"
    and av: "2 \<le> avail st" and l: "l = 0 \<or> l \<in> set ps \<and> page_aligned l"
  obtains (no_part) st' path' where "path_name t = []"
      "pathparser_parse_path_part st l path = Some (0, st', path')"
      "parse_heap st0 A st' ps"
      "\<And>p a. p \<in> set ps \<Longrightarrow> in_range p 4096 a \<Longrightarrow> mem st' a = mem st a"
  | (part) st' path' q n where "path_name t \<noteq> []"
      "pathparser_parse_path_part st l path = Some (q, st', path')" "q \<noteq> 0"
      "parse_heap st0 A st' (ps @ [q, n])"
      "unread st0 A st' path' (path_rest t)"
      "\<And>p a. p \<in> set ps \<Longrightarrow> p \<noteq> l \<Longrightarrow> in_range p 4096 a \<Longrightarrow> mem st' a = mem st a"
      "l \<noteq> 0 \<Longrightarrow> read32 (mem st') l = read32 (mem st) l"
      "l \<noteq> 0 \<Longrightarrow> read32 (mem st') (l + 4) = q"
      "chain (mem st') q [(q, n, path_name t)] 0"
proof -
  let ?B = "add_pages A (set ps)"
  have live: "live_regions st ?B" and h: "kernel_heap st = kernel_heap st0"
    and dist: "distinct ps" and new: "\<And>p. p \<in> set ps \<Longrightarrow> A p = None"
    and keep: "\<And>a. kreserved st0 A a \<Longrightarrow> mem st a = mem st0 a"
    and av0: "avail st0 = avail st + length ps"
    using hp by (auto simp: parse_heap_def)
  have ks: "kstring st ?B path t"
    using un parse_heap_reserved(1)[OF hp] by (auto simp: unread_def kstring_def)
  have len: "length t \<le> 127" using un by (simp add: unread_def)
  have l': "l = 0 \<or> ?B l = Some 4096 \<and> page_aligned l" using l by auto
  have page_res: "kreserved st ?B a" if "p \<in> set ps" "in_range p 4096 a" for p a
    by (rule kreserved_live[OF add_pages_Some[OF that(1)] that(2) live])
  show thesis
  proof (rule parse_path_part_spec[OF live av ks len l'], goal_cases)
    case (1 st' path')
    have "parse_heap st0 A st' ps"
      using 1 keep dist new h av0 parse_heap_reserved(1)[OF hp] by (auto simp: parse_heap_def)
    then show thesis using no_part[of st' path'] 1 page_res by blast
  next
    case (2 st' path' q n)
    have nq: "q \<notin> set ps" "n \<notin> set ps" "A q = None" "A n = None"
      using 2(4,5) by (auto simp: add_pages_def split: if_splits)
    have hp': "parse_heap st0 A st' (ps @ [q, n])"
    proof -
      have "live_regions st' (add_pages A (set (ps @ [q, n])))"
        using 2(7) by (simp add: add_pages_twice insert_commute)
      moreover have "mem st' a = mem st0 a" if "kreserved st0 A a" for a
      proof -
        have "l = 0 \<or> \<not> in_range l 4096 a" using parse_heap_reserved(2)[OF hp that] l by blast
        then show ?thesis using 2(10)[OF parse_heap_reserved(1)[OF hp that]] keep[OF that] by simp
      qed
      ultimately show ?thesis
        using dist new nq 2(6,8,9) h av0 by (auto simp: parse_heap_def)
    qed
    have "unread st0 A st' path' (path_rest t)"
      by (rule unread_next[OF hp un hp' 2(14) 2(1) 2(15)])
    moreover have "mem st' a = mem st a" if "p \<in> set ps" "p \<noteq> l" "in_range p 4096 a" for p a
    proof -
      have "l = 0 \<or> \<not> in_range l 4096 a"
        using parse_heap_apart[OF hp that(1) _ that(2,3)] l by blast
      then show ?thesis by (rule 2(10)[OF page_res[OF that(1,3)]])
    qed
    ultimately show thesis using part[of q st' path' n] 2 hp' by blast
  qed
qed

lemma parse_parts_loop_spec:
  assumes "parse_heap st0 A st (r # node_pages (ns @ [(l, n, s)]))" "unread st0 A st path t"
    and "chain (mem st) f (ns @ [(l, n, s)]) 0"
    and "2 * length (path_parts t) + 2 \<le> avail st"
  shows "\<exists>st' ns'. parse_parts_loop st l path = Some st' \<and>
     parse_heap st0 A st' (r # node_pages (ns @ [(l, n, s)] @ ns')) \<and>
     chain (mem st') f (ns @ [(l, n, s)] @ ns') 0 \<and> node_names ns' = path_parts t \<and>
     (\<forall>a. in_range r 4096 a \<longrightarrow> mem st' a = mem st a)"
  using assms
proof (induction t arbitrary: st ns l n s path rule: path_parts.induct)
  case (1 t)
  let ?ns = "ns @ [(l, n, s)]"
  let ?ps = "r # node_pages ?ns"
  have lz: "l \<noteq> 0" "page_aligned l" using "1.prems"(3) by (auto simp: chain_append)
  have l: "l = 0 \<or> l \<in> set ?ps \<and> page_aligned l" using lz by simp
  have av: "2 \<le> avail st" using "1.prems"(4) by simp
  have dist: "distinct ?ps" using "1.prems"(1) by (simp only: parse_heap_def)
  then have rl: "r \<noteq> l" by auto
  show ?case
  proof (rule parse_part_step[OF "1.prems"(1,2) av l], goal_cases)
    case (1 st' path')
    have loop: "parse_parts_loop st l path = Some st'"
      using 1(2) lz by (subst parse_parts_loop.simps) (simp add: parse_parts_loop_zero)
    have "chain (mem st') f ?ns 0"
      by (rule chain_cong[OF _ "1.prems"(3)]) (use 1(4) in auto)
    moreover have "path_parts t = []" using 1(1) by (simp add: path_parts.simps)
    moreover have "mem st' a = mem st a" if "in_range r 4096 a" for a
      by (rule 1(4)[OF _ that]) simp
    ultimately show ?case using loop 1(3) by (intro exI[of _ st'] exI[of _ "[]"]) auto
  next
    case (2 st' path' q n')
    have parts: "path_parts t = path_name t # path_parts (path_rest t)"
      using 2(1) by (subst path_parts.simps) simp
    have loop: "parse_parts_loop st l path = parse_parts_loop st' q path'"
      using 2(2) lz by (subst parse_parts_loop.simps) simp
    have "chain (mem st') f (?ns @ [(q, n', path_name t)]) 0"
    proof -
      obtain u where u: "chain (mem st) f ns u" "chain (mem st) u [(l, n, s)] 0"
        using "1.prems"(3) by (auto simp: chain_append)
      have "chain (mem st') f ns u"
        by (rule chain_cong[OF _ u(1)], rule 2(6)) (use dist in auto)
      moreover have "cstr (mem st') n s = cstr (mem st) n s"
        by (rule cstr_page_cong, use u(2) in simp, rule 2(6)) (use dist in auto)
      ultimately have "chain (mem st') f ?ns q" using u(2) 2(7,8) lz by (auto simp: chain_append)
      then show ?thesis unfolding chain_append[of _ _ ?ns] using 2(9) by blast
    qed
    then have ch: "chain (mem st') f (?ns @ [(q, n', path_name t)]) 0" .
    have "avail st = avail st' + 2"
      using 2(4) "1.prems"(1) by (simp add: parse_heap_def)
    then have av': "2 * length (path_parts (path_rest t)) + 2 \<le> avail st'"
      using "1.prems"(4) parts by simp
    have hp': "parse_heap st0 A st' (r # node_pages (?ns @ [(q, n', path_name t)]))"
      using 2(4) by simp
    from "1.IH"[OF 2(1) hp' 2(5) ch av'] obtain st2 ns2 where
      "parse_parts_loop st' q path' = Some st2"
      "parse_heap st0 A st2 (r # node_pages ((?ns @ [(q, n', path_name t)]) @ ns2))"
      "chain (mem st2) f ((?ns @ [(q, n', path_name t)]) @ ns2) 0"
      "node_names ns2 = path_parts (path_rest t)"
      "\<forall>a. in_range r 4096 a \<longrightarrow> mem st2 a = mem st' a"
      by auto
    moreover have "mem st' a = mem st a" if "in_range r 4096 a" for a
      by (rule 2(6)[OF _ rl that]) simp
    ultimately show ?case
      using loop parts by (intro exI[of _ st2] exI[of _ "(q, n', path_name t) # ns2"]) simp
  qed
qed

lemma create_root_spec:
  assumes live: "live_regions st A" and av: "0 < avail st"
    and call: "pathparser_create_root st d = (r, st')"
  shows "parse_heap st A st' [r]" "r \<noteq> 0" "page_aligned r"
    "read32 (mem st') r = word_of_int d" "read32 (mem st') (r + 4) = 0"
proof -
  have sz: "0 < unat (8 :: u32)" "unat (8 :: u32) \<le> 4096" by simp_all
  obtain p st1 where c: "kzalloc st 8 = (p, st1)" by fastforce
  note law = kpages.alloc_page[OF live sz av c]
  note keep = kpages.alloc_keeps_reserved[OF live sz av c]
  define m where "m = write32 (write32 (mem st1) (page_slot p 0) (word_of_int d)) (page_slot p 1) 0"
  have eqs: "r = p" "st' = st1\<lparr>mem := m\<rparr>"
    using call c by (auto simp: pathparser_create_root_def m_def Let_def)
  have out: "m a = mem st1 a" if "\<not> in_range p 4096 a" for a
  proof -
    have "\<not> in_range (page_slot p 0) 4 a" "\<not> in_range (page_slot p 1) 4 a"
      using that page_slot_range[of 0 p a] page_slot_range[of 1 p a] by auto
    then show ?thesis by (simp add: m_def write32_outside)
  qed
  have chg: "in_range p 4096 a" if "m a \<noteq> mem st1 a" for a using that out by blast
  have "live_regions (st1\<lparr>mem := m\<rparr>) (A(p \<mapsto> 4096))" "avail (st1\<lparr>mem := m\<rparr>) = avail st1"
    using live_regions_update[of st1 "A(p \<mapsto> 4096)" m p, OF _ chg] law by auto
  moreover have "mem st' a = mem st a" if "kreserved st A a" for a
    using keep(1,3)[OF that] out[of a] by (simp add: eqs)
  ultimately show "parse_heap st A st' [r]"
    using law kernel_heap_kzalloc[OF c]
    by (auto simp: parse_heap_def eqs add_pages_def fun_upd_def)
  show "r \<noteq> 0" "page_aligned r" using law eqs by auto
  then have "read32 m (page_slot p 0) = word_of_int d" "read32 m (page_slot p 1) = 0"
    unfolding m_def using eqs(1) by (simp_all only: read32_write32_slot) simp_all
  then show "read32 (mem st') r = word_of_int d" "read32 (mem st') (r + 4) = 0" by (simp_all add: eqs)
qed

lemma path_valid_format_iff:
  assumes "cstr m path s" "length s \<le> 128"
  shows "pathparser_path_valid_format m path \<longleftrightarrow> (\<exists>d t. s = d # 58 # 47 # t \<and> isdigit d)"
proof -
  have "unat (of_nat BOIOS_MAX_PATH :: u32) = 128" by simp
  then have "strnlen m path (of_nat BOIOS_MAX_PATH) = of_nat (length s)"
    using strnlen_cstr[OF assms(1), of "of_nat BOIOS_MAX_PATH"] assms(2) by (simp add: min_def)
  then have l: "sint (strnlen m path (of_nat BOIOS_MAX_PATH)) = int (length s)"
    using assms(2) by (simp only: sint_of_nat32)
  consider "length s < 3" | c d e t where "s = c # d # e # t"
    by (metis One_nat_def Suc_1 length_Cons less_Suc_eq less_Suc_eq_0_disj list.exhaust list.size(3) numeral_3_eq_3)
  then show ?thesis
  proof cases
    case 1
    then show ?thesis unfolding pathparser_path_valid_format_def l Let_def by auto
  next
    case 2
    then show ?thesis unfolding pathparser_path_valid_format_def l Let_def
      using assms(1) by (auto simp: add.assoc)
  qed
qed

lemma parse_heap_write_root:
  assumes "parse_heap st0 A st (r # ps)" "page_aligned r"
  shows "parse_heap st0 A (st\<lparr>mem := write32 (mem st) (r + 4) x\<rparr>) (r # ps)"
    "unread st0 A st path t \<Longrightarrow> unread st0 A (st\<lparr>mem := write32 (mem st) (r + 4) x\<rparr>) path t"
    "chain (mem st) f ns 0 \<Longrightarrow> set (node_pages ns) \<subseteq> set ps \<Longrightarrow> chain (write32 (mem st) (r + 4) x) f ns 0"
proof -
  let ?m = "write32 (mem st) (r + 4) x"
  have out: "?m a = mem st a" if "\<not> in_range r 4096 a" for a
    using that page_slot_range[of 1 r a] by (auto intro: write32_outside)
  then have chg: "in_range r 4096 a" if "?m a \<noteq> mem st a" for a using that by blast
  have live: "live_regions st (add_pages A (set (r # ps)))" using assms(1) by (simp only: parse_heap_def)
  have res: "?m a = mem st a" if "kreserved st0 A a" for a
    using out[of a] parse_heap_reserved(2)[OF assms(1) that, of r] by simp
  show "parse_heap st0 A (st\<lparr>mem := ?m\<rparr>) (r # ps)"
    using live_regions_update[OF live chg] assms(1) res by (simp add: parse_heap_def)
  show "unread st0 A (st\<lparr>mem := ?m\<rparr>) path t" if "unread st0 A st path t"
    using that res cstr_cong[of path t ?m "mem st"] by (auto simp: unread_def)
  show "chain ?m f ns 0" if "chain (mem st) f ns 0" "set (node_pages ns) \<subseteq> set ps"
  proof (rule chain_cong[OF _ that(1)])
    fix q a assume q: "q \<in> set (node_pages ns)" "in_range q 4096 a"
    have "q \<noteq> r" using q(1) that(2) assms(1) by (auto simp: parse_heap_def)
    then show "?m a = mem st a"
      using out[of a] parse_heap_apart[OF assms(1), of q r a] q that(2) by auto
  qed
qed

lemma pathparser_parse_spec:
  assumes live: "live_regions st A" and s: "kstring st A path (d # 58 # 47 # t)"
    and d: "isdigit d" and len: "length t \<le> 125" and av: "2 * length (path_parts t) + 3 \<le> avail st"
  obtains r st' ns where "pathparser_parse st path = Some (r, st')" "r \<noteq> 0"
    "read32 (mem st') r = word_of_int (tonumericdigit d)"
    "chain (mem st') (read32 (mem st') (r + 4)) ns 0" "node_names ns = path_parts t"
    "parse_heap st A st' (r # node_pages ns)"
proof -
  have c: "cstr (mem st) path (d # 58 # 47 # t)"
    and res: "\<And>a. in_range path (Suc (length (d # 58 # 47 # t))) a \<Longrightarrow> kreserved st A a"
    using s by (auto simp only: kstring_def)
  have sl: "strlen (mem st) path = Some (of_nat (length t + 3))" using strlen_cstr[OF c] by simp
  have nlong: "\<not> (of_nat (length t + 3) :: u32) > of_nat BOIOS_MAX_PATH"
    using len by (simp only: word_less_nat_alt unat_of_nat32)
  have "pathparser_path_valid_format (mem st) path"
    using path_valid_format_iff[OF c] len d by auto
  then have drive: "pathparser_get_drive_by_path (mem st) path = (Inr (tonumericdigit d), path + 3)"
    using c by (simp add: pathparser_get_drive_by_path_def)
  obtain r st1 where cr: "pathparser_create_root st (tonumericdigit d) = (r, st1)" by fastforce
  have av0: "0 < avail st" using av by simp
  note root = create_root_spec[OF live av0 cr]
  have av1: "avail st = avail st1 + 1" using root(1) by (simp add: parse_heap_def)
  have un1: "unread st A st1 (path + 3) t"
  proof -
    have rng: "in_range path (Suc (length (d # 58 # 47 # t))) a" if a: "in_range (path + 3) (Suc (length t)) a" for a
    proof -
      obtain k where k: "a = path + 3 + of_nat k" "k < Suc (length t)" using a by (rule in_rangeE)
      have "a - path = of_nat (k + 3)" using k(1) by simp
      moreover have "unat (of_nat (k + 3) :: u32) = k + 3"
        by (rule unat_of_nat32) (use k(2) len in linarith)
      ultimately show ?thesis using k(2) by (simp add: in_range_def)
    qed
    have "cstr (mem st) (path + 3) t" using c by (simp add: add.assoc)
    moreover have "cstr (mem st1) (path + 3) t = cstr (mem st) (path + 3) t"
      by (rule cstr_cong) (use rng res root(1) in \<open>auto simp only: parse_heap_def\<close>)
    ultimately show ?thesis using len rng res by (auto simp only: unread_def)
  qed
  have av2: "2 \<le> avail st1" using av av1 by simp
  have zero: "(0::addr) = 0 \<or> 0 \<in> set [r] \<and> page_aligned 0" by simp
  have start: "pathparser_parse st path = (case pathparser_parse_path_part st1 0 (path + 3) of
       None \<Rightarrow> None
     | Some (first_part, st, tmp_path) \<Rightarrow>
         if first_part = 0 then Some (r, st)
         else map_option (\<lambda>st. (r, st))
           (parse_parts_loop (st\<lparr>mem := write32 (mem st) (r + 4) first_part\<rparr>) first_part tmp_path))"
  proof -
    have unf: "(if f = 0 then Some (r, st) else
        let st = st\<lparr>mem := write32 (mem st) (r + 4) f\<rparr>
        in case pathparser_parse_path_part st f q of None \<Rightarrow> None
          | Some (part, st, q) \<Rightarrow> (case parse_parts_loop st part q of None \<Rightarrow> None | Some st \<Rightarrow> Some (r, st))) =
      (if f = 0 then Some (r, st) else
        map_option (\<lambda>st. (r, st)) (parse_parts_loop (st\<lparr>mem := write32 (mem st) (r + 4) f\<rparr>) f q))" for f q and st :: "'a kmem_scheme"
      by (subst parse_parts_loop.simps[of _ f])
        (auto simp: Let_def split: option.splits prod.splits)
    have pre: "pathparser_parse st path = (case pathparser_parse_path_part st1 0 (path + 3) of
        None \<Rightarrow> None
      | Some (f, st, q) \<Rightarrow> (if f = 0 then Some (r, st) else
        let st = st\<lparr>mem := write32 (mem st) (r + 4) f\<rparr>
        in case pathparser_parse_path_part st f q of None \<Rightarrow> None
          | Some (part, st, q) \<Rightarrow> (case parse_parts_loop st part q of None \<Rightarrow> None | Some st \<Rightarrow> Some (r, st))))"
      unfolding pathparser_parse_def
      by (simp add: sl nlong drive cr root(2) del: of_nat_add of_nat_numeral)
    show ?thesis unfolding pre by (simp only: unf)
  qed
  show thesis
  proof (rule parse_part_step[OF root(1) un1 av2 zero], goal_cases)
    case (1 st' path')
    have slots: "read32 (mem st') r = read32 (mem st1) r" "read32 (mem st') (r + 4) = read32 (mem st1) (r + 4)"
      by (rule read32_slots[OF root(3)], rule 1(4), simp, assumption)+
    show thesis
    proof (rule that[of r st' "[]"])
      show "pathparser_parse st path = Some (r, st')" using start 1(2) by simp
      show "r \<noteq> 0" by (rule root(2))
      show "read32 (mem st') r = word_of_int (tonumericdigit d)" using slots root(4) by simp
      show "chain (mem st') (read32 (mem st') (r + 4)) [] 0" using slots root(5) by simp
      show "node_names [] = path_parts t" using 1(1) by (simp add: path_parts.simps)
      show "parse_heap st A st' (r # node_pages [])" using 1(3) by simp
    qed
  next
    case (2 st2 path2 q n)
    let ?m = "write32 (mem st2) (r + 4) q"
    let ?st = "st2\<lparr>mem := ?m\<rparr>"
    have hp2: "parse_heap st A st2 (r # [q, n])" using 2(4) by simp
    note wr = parse_heap_write_root[OF hp2 root(3), where x = q]
    have ch: "chain ?m q [(q, n, path_name t)] 0" by (rule wr(3)[OF 2(9)]) simp
    have parts: "path_parts t = path_name t # path_parts (path_rest t)"
      using 2(1) by (subst path_parts.simps) simp
    have "avail st = avail ?st + 3" using wr(1) by (simp add: parse_heap_def)
    then have av3: "2 * length (path_parts (path_rest t)) + 2 \<le> avail ?st" using av parts by simp
    have hp3: "parse_heap st A ?st (r # node_pages ([] @ [(q, n, path_name t)]))" using wr(1) by simp
    have ch3: "chain (mem ?st) q ([] @ [(q, n, path_name t)]) 0" using ch by simp
    from parse_parts_loop_spec[OF hp3 wr(2)[OF 2(5)] ch3 av3] obtain st3 ns where
      l: "parse_parts_loop ?st q path2 = Some st3"
      "parse_heap st A st3 (r # node_pages ([] @ [(q, n, path_name t)] @ ns))"
      "chain (mem st3) q ([] @ [(q, n, path_name t)] @ ns) 0"
      "node_names ns = path_parts (path_rest t)"
      "\<forall>a. in_range r 4096 a \<longrightarrow> mem st3 a = ?m a" by auto
    have slots: "read32 (mem st3) r = read32 ?m r" "read32 (mem st3) (r + 4) = read32 ?m (r + 4)"
      by (rule read32_slots[OF root(3)], use l(5) in blast)+
    have "read32 ?m r = read32 (mem st2) r"
      using read32_write32_slot[OF root(3) root(3), of 0 1 "mem st2" q] by simp
    moreover have "read32 (mem st2) r = read32 (mem st1) r"
      by (rule read32_slots(1)[OF root(3)], rule 2(6)[of r]) (use root(2) in auto)
    ultimately have dr: "read32 (mem st3) r = word_of_int (tonumericdigit d)" using slots root(4) by simp
    have fst: "read32 (mem st3) (r + 4) = q" using slots(2) by (simp add: read32_write32_same)
    show thesis
    proof (rule that[of r st3 "(q, n, path_name t) # ns"])
      show "pathparser_parse st path = Some (r, st3)" using start 2(2,3) l(1) by simp
      show "r \<noteq> 0" by (rule root(2))
      show "read32 (mem st3) r = word_of_int (tonumericdigit d)" by (rule dr)
      show "chain (mem st3) (read32 (mem st3) (r + 4)) ((q, n, path_name t) # ns) 0"
        using l(3) by (simp only: fst append.simps)
      show "node_names ((q, n, path_name t) # ns) = path_parts t" using l(4) parts by simp
      show "parse_heap st A st3 (r # node_pages ((q, n, path_name t) # ns))" using l(2) by simp
    qed
  qed
qed

subsection \<open>Releasing a path\<close>

lemma parse_heap_kfree:
  assumes "parse_heap st0 A st (xs @ p # ys)"
  shows "parse_heap st0 A (kfree st p) (xs @ ys)"
    and "q \<in> set (xs @ ys) \<Longrightarrow> in_range q 4096 a \<Longrightarrow> mem (kfree st p) a = mem st a"
proof -
  let ?ps = "xs @ p # ys"
  have live: "live_regions st (add_pages A (set ?ps))" and d: "distinct ?ps"
    using assms by (simp_all only: parse_heap_def)
  have pA: "A p = None" using assms by (simp add: parse_heap_def)
  have p: "add_pages A (set ?ps) p = Some 4096" by simp
  note law = kpages.release_live[OF live p]
  have "(add_pages A (set ?ps))(p := None) = add_pages A (set (xs @ ys))"
    using d pA by (auto simp: add_pages_def)
  then have l: "live_regions (kfree st p) (add_pages A (set (xs @ ys)))" using law by simp
  have "mem (kfree st p) a = mem st0 a" if "kreserved st0 A a" for a
    using kpages.release_keeps_reserved(1)[OF live p parse_heap_reserved(1)[OF assms that]]
      parse_heap_reserved(2)[OF assms that, of p] assms that by (simp add: parse_heap_def)
  then show "parse_heap st0 A (kfree st p) (xs @ ys)"
    using l law assms d by (auto simp: parse_heap_def)
  show "mem (kfree st p) a = mem st a" if "q \<in> set (xs @ ys)" "in_range q 4096 a" for q a
    using law kpages.live_private[OF live, of q 4096 a] that by auto
qed

lemma free_parts_loop_spec:
  "parse_heap st0 A st (r # node_pages ns) \<Longrightarrow> chain (mem st) p ns 0 \<Longrightarrow>
     \<exists>st'. free_parts_loop st p = Some st' \<and> parse_heap st0 A st' [r]"
proof (induction ns arbitrary: st p)
  case Nil
  then show ?case by (subst free_parts_loop.simps) simp
next
  case (Cons x ns)
  obtain q n s where x: "x = (q, n, s)" by (cases x)
  have ch: "p = q" "q \<noteq> 0" "page_aligned q" "read32 (mem st) q = n"
    "chain (mem st) (read32 (mem st) (q + 4)) ns 0" using Cons.prems(2) x by auto
  have hp: "parse_heap st0 A st ([r, q] @ n # node_pages ns)" using Cons.prems(1) x by simp
  note k1 = parse_heap_kfree[OF hp]
  have hp1: "parse_heap st0 A (kfree st n) ([r] @ q # node_pages ns)" using k1(1) by simp
  note k2 = parse_heap_kfree[OF hp1]
  let ?st = "kfree (kfree st n) q"
  have "chain (mem ?st) (read32 (mem st) (q + 4)) ns 0"
  proof (rule chain_cong[OF _ ch(5)])
    fix p a assume p: "p \<in> set (node_pages ns)" "in_range p 4096 a"
    show "mem ?st a = mem st a" using k2(2)[OF _ p(2)] k1(2)[OF _ p(2)] p(1) by simp
  qed
  from Cons.IH[OF _ this] k2(1) obtain st' where
    "free_parts_loop ?st (read32 (mem st) (q + 4)) = Some st'" "parse_heap st0 A st' [r]" by auto
  then show ?case
    using ch(1,2,4) by (subst free_parts_loop.simps) (simp add: Let_def)
qed

lemma pathparser_free_spec:
  assumes "parse_heap st0 A st (r # node_pages ns)" "chain (mem st) (read32 (mem st) (r + 4)) ns 0"
  obtains st' where "pathparser_free st r = Some st'" "parse_heap st0 A st' []"
proof -
  obtain st1 where s1: "free_parts_loop st (read32 (mem st) (r + 4)) = Some st1" "parse_heap st0 A st1 [r]"
    using free_parts_loop_spec[OF assms] by blast
  have "parse_heap st0 A (kfree st1 r) ([] @ [])" by (rule parse_heap_kfree) (simp add: s1(2))
  then show thesis using that s1(1) by (simp add: pathparser_free_def)
qed

subsection \<open>Properties\<close>

text \<open>
  C28: on a path \<open>d:/p1/p2/...\<close> of at most 128 characters, with free blocks for the
  root and two per part, \<^verbatim>\<open>pathparser_parse\<close> returns a root with drive number \<open>d\<close>
  and a linked list of exactly the parts \<open>p1, p2, ...\<close> up to the first empty one,
  each in new allocations; no reserved byte (the path, live regions, everything
  outside the pool and the table) changes.
\<close>

theorem pathparser_parse_list:
  assumes "live_regions st A" "kstring st A path (d # 58 # 47 # t)" "isdigit d"
    and "length t \<le> 125" "2 * length (path_parts t) + 3 \<le> avail st"
  shows "\<exists>r st' ns. pathparser_parse st path = Some (r, st') \<and> r \<noteq> 0 \<and>
     read32 (mem st') r = word_of_int (tonumericdigit d) \<and>
     chain (mem st') (read32 (mem st') (r + 4)) ns 0 \<and> node_names ns = path_parts t \<and>
     live_regions st' (add_pages A (set (r # node_pages ns))) \<and>
     (\<forall>p \<in> set (r # node_pages ns). A p = None) \<and>
     avail st = avail st' + 2 * length (path_parts t) + 1 \<and>
     (\<forall>a. kreserved st A a \<longrightarrow> mem st' a = mem st a)"
proof -
  obtain r st' ns where p: "pathparser_parse st path = Some (r, st')" "r \<noteq> 0"
    "read32 (mem st') r = word_of_int (tonumericdigit d)"
    "chain (mem st') (read32 (mem st') (r + 4)) ns 0" "node_names ns = path_parts t"
    "parse_heap st A st' (r # node_pages ns)"
    by (rule pathparser_parse_spec[OF assms])
  have "length (node_pages ns) = 2 * length ns" for ns by (induction ns rule: node_pages.induct) auto
  moreover have "length ns = length (path_parts t)" using p(5) by (metis length_map)
  ultimately have "length (r # node_pages ns) = 2 * length (path_parts t) + 1" by simp
  then have "avail st = avail st' + 2 * length (path_parts t) + 1"
    using p(6) by (simp only: parse_heap_def)
  then show ?thesis using p(1-5) p(6)[unfolded parse_heap_def] by blast
qed

definition path_state :: kmem where
  "path_state = \<lparr>mem = (\<lambda>_. 0)(0x500 := 48, 0x501 := 58, 0x502 := 47, 0x503 := 97,
     0x504 := 47, 0x505 := 98), kernel_heap = boot_heap\<rparr>"

lemma path_state_live:
  "live_regions path_state (region_map boot_heap Map.empty)" "avail path_state = 25600"
proof -
  have z: "mem path_state a = 0" if "table_byte boot_heap a" for a
  proof -
    have r: "in_range 0x7E00 25600 a \<longleftrightarrow> unat (0x7E00 :: addr) \<le> unat a \<and> unat a < unat (0x7E00 :: addr) + 25600"
      by (rule in_range_nat) simp
    show ?thesis using that r
      by (auto simp: table_byte_def boot_heap_def path_state_def)
  qed
  have ok: "kheap_ok path_state Map.empty"
    unfolding kheap_ok_def using heap_inv_zero[OF boot_heap_layout, of "mem path_state"] z boot_heap_layout
    by (auto simp: path_state_def)
  then show "live_regions path_state (region_map boot_heap Map.empty)"
    by (auto simp: live_regions_def path_state_def)
  have "card {k. k < heap_blocks boot_heap \<and> \<not> covered Map.empty k} = 25600"
    by (simp add: covered_def boot_heap_def)
  then show "avail path_state = 25600" using avail_card[OF ok] by (simp add: path_state_def)
qed

lemma path_state_string:
  "kstring path_state (region_map boot_heap Map.empty) 0x500 [48, 58, 47, 97, 47, 98]"
proof -
  have r: "in_range 0x500 7 a \<longleftrightarrow> unat (0x500 :: addr) \<le> unat a \<and> unat a < unat (0x500 :: addr) + 7" for a
    by (rule in_range_nat) simp
  have t: "table_byte boot_heap a \<longleftrightarrow> unat (0x7E00 :: addr) \<le> unat a \<and> unat a < unat (0x7E00 :: addr) + 25600" for a
    unfolding table_byte_def using in_range_nat[of "0x7E00" 25600 a] by (simp add: boot_heap_def)
  have p: "pool_byte boot_heap a \<longleftrightarrow>
      unat (0x1000000 :: addr) \<le> unat a \<and> unat a < unat (0x1000000 :: addr) + 104857600" for a
    unfolding pool_byte_def using in_range_nat[of "0x1000000" 104857600 a] by (simp add: boot_heap_def)
  have "kreserved path_state B a" if "in_range 0x500 7 a" for a B
    using that unfolding reserved_def r path_state_def kmem.simps t p by auto
  moreover have "Suc (length [48, 58, 47, 97, 47, 98 :: u8]) = 7" by simp
  ultimately show ?thesis unfolding kstring_def by (simp only:) (simp add: path_state_def)
qed

lemma path_state_parts: "path_parts [97, 47, 98] = [[97], [98]]"
  by (simp add: path_parts.simps path_rest_def)

theorem pathparser_parse_list_witness:
  "\<exists>r st' ns. pathparser_parse path_state 0x500 = Some (r, st') \<and>
     chain (mem st') (read32 (mem st') (r + 4)) ns 0 \<and> node_names ns = [[97], [98]] \<and> avail st' = 25595"
proof -
  have "\<exists>r st' ns. pathparser_parse path_state 0x500 = Some (r, st') \<and> r \<noteq> 0 \<and>
     read32 (mem st') r = word_of_int (tonumericdigit 48) \<and>
     chain (mem st') (read32 (mem st') (r + 4)) ns 0 \<and> node_names ns = path_parts [97, 47, 98] \<and>
     live_regions st' (add_pages (region_map boot_heap Map.empty) (set (r # node_pages ns))) \<and>
     (\<forall>p \<in> set (r # node_pages ns). region_map boot_heap Map.empty p = None) \<and>
     avail path_state = avail st' + 2 * length (path_parts [97, 47, 98]) + 1 \<and>
     (\<forall>a. kreserved path_state (region_map boot_heap Map.empty) a \<longrightarrow> mem st' a = mem path_state a)"
    by (rule pathparser_parse_list[OF path_state_live(1) path_state_string])
      (simp_all add: isdigit_def path_state_parts path_state_live(2))
  then obtain r st' ns where p: "pathparser_parse path_state 0x500 = Some (r, st')"
    "chain (mem st') (read32 (mem st') (r + 4)) ns 0" "node_names ns = [[97], [98]]"
    "25600 = avail st' + 2 * length [[97], [98 :: u8]] + 1"
    unfolding path_state_parts path_state_live(2) by (elim exE conjE) (rule that)
  have "avail st' = 25595" using p(4) by simp
  with p(1-3) show ?thesis by (intro exI conjI)
qed

text \<open>
  a path longer than 128 characters, or one that does not start with a digit
  and \<^verbatim>\<open>:/\<close>, is refused with NULL before anything is allocated.
\<close>

theorem pathparser_parse_refuses:
  assumes "cstr (mem st) path s" "length s > 128 \<or> \<not> (\<exists>d t. s = d # 58 # 47 # t \<and> isdigit d)"
  shows "pathparser_parse st path = Some (0, st)"
proof -
  have l: "unat (of_nat (length s) :: u32) = length s"
    using cstr_length[OF assms(1)] by (rule unat_of_nat32)
  have sl: "strlen (mem st) path = Some (of_nat (length s))" by (rule strlen_cstr[OF assms(1)])
  show ?thesis
  proof (cases "length s > 128")
    case True
    then have "(of_nat (length s) :: u32) > of_nat BOIOS_MAX_PATH"
      by (simp add: word_less_nat_alt l)
    then show ?thesis by (simp add: pathparser_parse_def sl)
  next
    case False
    then have "\<not> pathparser_path_valid_format (mem st) path"
      using path_valid_format_iff[OF assms(1)] assms(2) by simp
    then show ?thesis by (simp add: pathparser_parse_def sl pathparser_get_drive_by_path_def)
  qed
qed

theorem pathparser_parse_refuses_witness:
  "pathparser_parse (path_state\<lparr>mem := (\<lambda>_. 0)(0x500 := 120)\<rparr>) 0x500 =
     Some (0, path_state\<lparr>mem := (\<lambda>_. 0)(0x500 := 120)\<rparr>)"
  by (rule pathparser_parse_refuses[of _ _ "[120]"]) simp_all

text \<open>
  C29: \<^verbatim>\<open>pathparser_free\<close> undoes a parse: it terminates, gives back every block the
  parse took and restores the live regions.
\<close>

theorem pathparser_parse_free:
  assumes "live_regions st A" "kstring st A path (d # 58 # 47 # t)" "isdigit d"
    and "length t \<le> 125" "2 * length (path_parts t) + 3 \<le> avail st"
    and "pathparser_parse st path = Some (r, st')"
  shows "\<exists>st''. pathparser_free st' r = Some st'' \<and> live_regions st'' A \<and> avail st'' = avail st \<and>
     (\<forall>a. kreserved st A a \<longrightarrow> mem st'' a = mem st a)"
proof -
  obtain ns where p: "chain (mem st') (read32 (mem st') (r + 4)) ns 0"
    "parse_heap st A st' (r # node_pages ns)"
    by (rule pathparser_parse_spec[OF assms(1-5)]) (use assms(6) in auto)
  obtain st'' where f: "pathparser_free st' r = Some st''" "parse_heap st A st'' []"
    by (rule pathparser_free_spec[OF p(2,1)])
  then show ?thesis by (auto simp: parse_heap_def add_pages_def)
qed

theorem pathparser_parse_free_witness:
  "\<exists>r st' st''. pathparser_parse path_state 0x500 = Some (r, st') \<and>
     pathparser_free st' r = Some st'' \<and> avail st'' = 25600"
proof -
  obtain r st' where p: "pathparser_parse path_state 0x500 = Some (r, st')"
    by (rule pathparser_parse_spec[OF path_state_live(1) path_state_string])
      (simp_all add: isdigit_def path_state_parts path_state_live(2))
  have "\<exists>st''. pathparser_free st' r = Some st'' \<and>
     live_regions st'' (region_map boot_heap Map.empty) \<and> avail st'' = avail path_state \<and>
     (\<forall>a. kreserved path_state (region_map boot_heap Map.empty) a \<longrightarrow> mem st'' a = mem path_state a)"
    by (rule pathparser_parse_free[OF path_state_live(1) path_state_string _ _ _ p])
      (simp_all add: isdigit_def path_state_parts path_state_live(2))
  with p show ?thesis by (auto simp: path_state_live(2))
qed

end
