(* ===== verification/Boi_Blocks.thy ===== *)
theory Boi_Blocks
  imports Boi_Path
begin

text \<open>
  Allocations of several blocks of the kernel heap, between the allocator (\<^verbatim>\<open>src/src/memory/heap\<close>) and
  its clients: with few blocks taken a run of free ones exists, and \<open>kzalloc\<close> hands it out.
\<close>

subsection \<open>Allocations of several blocks\<close>

text \<open>With few blocks taken there is a run of \<open>n\<close> free ones: the taken blocks do not hit all runs.\<close>

lemma run_by_count:
  assumes ok: "kheap_ok st L" and n: "0 < n" "n * Suc (heap_blocks (kernel_heap st) - avail st) \<le> heap_blocks (kernel_heap st)"
  shows "\<exists>s. free_run (mem st) (kernel_heap st) s n"
proof (rule ccontr)
  assume no: "\<not> ?thesis"
  let ?T = "heap_blocks (kernel_heap st)" and ?C = "{i. i < heap_blocks (kernel_heap st) \<and> covered L i}"
  let ?U = "?T - avail st"
  have inv: "heap_inv (mem st) (kernel_heap st) L" using ok by (simp add: kheap_ok_def)
  have end_le: "j * n + n \<le> ?T" if "j \<le> ?U" for j
  proof -
    have "Suc j * n \<le> Suc ?U * n" using that by (intro mult_le_mono1) simp
    moreover have "Suc ?U * n \<le> ?T" using n(2) by (simp only: mult.commute)
    ultimately have "Suc j * n \<le> ?T" by (rule le_trans)
    then show ?thesis by (simp add: add.commute)
  qed
  have "\<exists>i. j * n \<le> i \<and> i < j * n + n \<and> covered L i" if j: "j \<le> ?U" for j
  proof -
    have "\<not> free_run (mem st) (kernel_heap st) (j * n) n" using no by blast
    then obtain k where "k < n" "covered L (j * n + k)" using free_run_iff[OF inv] end_le[OF j] by auto
    then show ?thesis by (intro exI[of _ "j * n + k"]) simp
  qed
  then obtain f where f: "\<And>j. j \<le> ?U \<Longrightarrow> j * n \<le> f j \<and> f j < j * n + n \<and> covered L (f j)" by metis
  have "inj_on f {..?U}"
  proof (rule inj_onI)
    fix i j assume ij: "i \<in> {..?U}" "j \<in> {..?U}" "f i = f j"
    have "f i div n = i" "f j div n = j"
      using f[of i] f[of j] ij(1,2) by (auto intro!: div_nat_eqI simp: mult.commute)
    then show "i = j" using ij(3) by metis
  qed
  moreover have "f ` {..?U} \<subseteq> ?C" using f end_le by (fastforce intro: less_le_trans)
  ultimately have "card {..?U} \<le> card ?C" by (intro card_inj_on_le) auto
  moreover have "card ?C + card {i. i < ?T \<and> \<not> covered L i} = ?T"
  proof -
    have "card (?C \<union> {i. i < ?T \<and> \<not> covered L i}) = card ?C + card {i. i < ?T \<and> \<not> covered L i}"
      by (intro card_Un_disjoint) auto
    moreover have "?C \<union> {i. i < ?T \<and> \<not> covered L i} = {..<?T}" by auto
    ultimately show ?thesis by simp
  qed
  ultimately show False using avail_card[OF ok] by simp
qed

definition room_for :: "'z kmem_scheme \<Rightarrow> nat \<Rightarrow> nat \<Rightarrow> bool" where
  "room_for st k n \<longleftrightarrow> k + n \<le> avail st \<and> n * Suc (heap_blocks (kernel_heap st) - (avail st - k)) \<le> heap_blocks (kernel_heap st)"

lemma alloc_blocks:
  assumes live: "live_regions st A" and sz: "0 < unat sz" "unat sz \<le> 4294963200" and room: "room_for st 0 (blocks_for sz)"
    and call: "kzalloc st sz = (p, st')"
  shows "p \<noteq> 0" "page_aligned p" "A p = None" "live_regions st' (A(p \<mapsto> blocks_for sz * 4096))"
    "avail st = avail st' + blocks_for sz" "st' = st\<lparr>mem := mem st'\<rparr>"
    "\<not> table_byte (kernel_heap st) a \<Longrightarrow> mem st' a = (if in_range p (unat sz) a then 0 else mem st a)"
    "kreserved st A a \<Longrightarrow> mem st' a = mem st a"
    "in_range p (blocks_for sz * 4096) a \<Longrightarrow> pool_byte (kernel_heap st) a"
proof -
  obtain L where ok: "kheap_ok st L" and A: "A = region_map (kernel_heap st) L" using live by (auto simp: live_regions_def)
  have lay: "heap_layout (kernel_heap st)" and inv: "heap_inv (mem st) (kernel_heap st) L" using ok by (auto simp: kheap_ok_def)
  let ?n = "blocks_for sz"
  have n: "0 < ?n" using blocks_for_bounds(1)[OF sz(1)] .
  obtain s0 where "free_run (mem st) (kernel_heap st) s0 ?n"
    using run_by_count[OF ok n] room by (auto simp: room_for_def)
  from kzalloc_fit[OF ok sz this call] obtain s where s: "p = block_addr (kernel_heap st) s" "p \<noteq> 0"
    "free_run (mem st) (kernel_heap st) s ?n" "kheap_ok st' (L(s \<mapsto> ?n))"
    "\<And>a. \<not> table_byte (kernel_heap st) a \<Longrightarrow> mem st' a = (if in_range p (unat sz) a then 0 else mem st a)"
    "st' = st\<lparr>mem := mem st'\<rparr>" by blast
  have run: "s + ?n \<le> heap_blocks (kernel_heap st)" "\<And>k. k < ?n \<Longrightarrow> \<not> covered L (s + k)"
    using s(3) free_run_iff[OF inv] by auto
  have new: "L s = None" using not_covered_None[OF inv, of s] run(2)[of 0] n by simp
  have h: "kernel_heap st' = kernel_heap st" by (rule kernel_heap_mem_update[OF s(6)])
  have sb: "s < heap_blocks (kernel_heap st)" using run(1) n by simp
  show "p \<noteq> 0" by (rule s(2))
  show "st' = st\<lparr>mem := mem st'\<rparr>" by (rule s(6))
  show "\<not> table_byte (kernel_heap st) a \<Longrightarrow> mem st' a = (if in_range p (unat sz) a then 0 else mem st a)" for a
    by (rule s(5))
  show "page_aligned p" using block_addr_aligned[OF lay sb] s(1) by simp
  show "A p = None" using region_map_block[OF lay sb] new by (simp add: A s(1))
  have A': "region_map (kernel_heap st) (L(s \<mapsto> ?n)) = A(p \<mapsto> ?n * 4096)"
    using region_map_upd[OF lay sb] by (simp add: A s(1))
  show live': "live_regions st' (A(p \<mapsto> ?n * 4096))" using s(4) A' h by (auto simp: live_regions_def)
  show "avail st = avail st' + ?n"
    using avail_card[OF ok] avail_card[OF s(4)] h card_blocks_upd[OF new run] by simp
  show pool: "in_range p (?n * 4096) a \<Longrightarrow> pool_byte (kernel_heap st) a" for a
    using kpages.live_pool[OF live', of p "?n * 4096" a] h by simp
  show "mem st' a = mem st a" if k: "kreserved st A a" for a
  proof -
    have "\<not> in_range p (?n * 4096) a"
    proof (rule kpages.reserved_not_new[OF live'])
      show "reserved (table_byte (kernel_heap st')) (pool_byte (kernel_heap st')) A a" using k h by simp
      show "(A(p \<mapsto> ?n * 4096)) q = Some k" if "A q = Some k" for q k using that \<open>A p = None\<close> by auto
    qed (simp_all add: \<open>A p = None\<close>)
    then have "\<not> in_range p (unat sz) a" using in_range_mono[OF _ blocks_for_bounds(2)[of sz]] by blast
    then show ?thesis using s(5) k by (simp add: reserved_def)
  qed
qed

text \<open>Room for blocks stays when others are taken.\<close>

lemma room_for_less:
  assumes "room_for s k n" "kernel_heap s' = kernel_heap s" "avail s' + j = avail s" "j \<le> k"
  shows "room_for s' (k - j) n"
proof -
  have "avail s' - (k - j) = avail s - k" using assms by (auto simp: room_for_def)
  then show ?thesis using assms by (auto simp: room_for_def)
qed

lemma room_for_mono:
  assumes "room_for s k n" "k' \<le> k" "n' \<le> n"
  shows "room_for s k' n'"
proof -
  let ?H = "heap_blocks (kernel_heap s)"
  have "?H - (avail s - k') \<le> ?H - (avail s - k)" using assms(2) by simp
  then have "n' * Suc (?H - (avail s - k')) \<le> n * Suc (?H - (avail s - k))" using assms(3) by (intro mult_le_mono) simp_all
  then show ?thesis using assms by (auto simp: room_for_def)
qed

end
