(* ===== verification/Boi_Disk.thy ===== *)
theory Boi_Disk
  imports Boi_Paging "HOL-Library.Monad_Syntax"
begin

text \<open>
  The primary disk (\<^verbatim>\<open>src/src/disk/disk.c\<close>) and the byte stream over it
  (\<^verbatim>\<open>src/src/disk/streamer.c\<close>).  The ATA controller behind the ports is a parameter:
  the values its status port shows and the data words it delivers for a command.
\<close>

subsection \<open>The controller\<close>

text \<open>
  \<open>ata_status d n\<close> is what the \<open>n\<close>-th read of port \<^verbatim>\<open>0x1F7\<close> returns, \<open>ata_data d cmd k\<close>
  the \<open>k\<close>-th word of port \<^verbatim>\<open>0x1F0\<close> after a read command with the bytes \<open>cmd\<close> in ports
  \<^verbatim>\<open>0x1F6\<close> (drive), \<^verbatim>\<open>0x1F2\<close> (count), \<^verbatim>\<open>0x1F3\<close>, \<^verbatim>\<open>0x1F4\<close> and \<^verbatim>\<open>0x1F5\<close> (address).
\<close>

record ata =
  ata_status :: "nat \<Rightarrow> u8"
  ata_data :: "u8 list \<Rightarrow> nat \<Rightarrow> u16"

text \<open>The kernel's side: the bytes sent so far and the number of status reads.\<close>

record disk_io =
  sent :: "(nat \<times> u8) list"
  status_reads :: nat

definition disk_outb :: "nat \<Rightarrow> u8 \<Rightarrow> disk_io \<Rightarrow> disk_io" where
  "disk_outb port v io = io\<lparr>sent := sent io @ [(port, v)]\<rparr>"

text \<open>Polling for the data request bit; \<open>None\<close> is a controller that never gets ready.\<close>

partial_function (option) wait_ready :: "ata \<Rightarrow> disk_io \<Rightarrow> disk_io option" where
  "wait_ready d io =
     (let c = ata_status d (status_reads io);
          io = io\<lparr>status_reads := status_reads io + 1\<rparr>
      in if c AND 0x08 \<noteq> 0 then Some io else wait_ready d io)"

definition word_bytes :: "u16 \<Rightarrow> u8 list" where
  "word_bytes w = [ucast w, ucast (drop_bit 8 w)]"

fun read_sectors :: "ata \<Rightarrow> u8 list \<Rightarrow> nat \<Rightarrow> nat \<Rightarrow> disk_io \<Rightarrow> (u8 list \<times> disk_io) option" where
  "read_sectors d cmd b 0 io = Some ([], io)"
| "read_sectors d cmd b (Suc n) io =
     do {
       io \<leftarrow> wait_ready d io;
       (bytes, io) \<leftarrow> read_sectors d cmd (b + 1) n io;
       Some (concat (map (\<lambda>i. word_bytes (ata_data d cmd (b * 256 + i))) [0..<256]) @ bytes, io)
     }"

text \<open>
  The buffer argument is returned as the list of bytes stored from its start on.
  The result of \<^verbatim>\<open>disc_read_sector\<close> is always 0.
\<close>

definition disc_read_sector :: "ata \<Rightarrow> u32 \<Rightarrow> u32 \<Rightarrow> disk_io \<Rightarrow> (u8 list \<times> disk_io) option" where
  "disc_read_sector d lba total_blocks io =
     (let drive = ucast (drop_bit 24 lba OR 0xE0);
          count = ucast total_blocks;
          low = ucast (lba AND 0xFF);
          mid = ucast (drop_bit 8 lba);
          high = ucast (drop_bit 16 lba);
          io = disk_outb 0x1F6 drive io;
          io = disk_outb 0x1F2 count io;
          io = disk_outb 0x1F3 low io;
          io = disk_outb 0x1F4 mid io;
          io = disk_outb 0x1F5 high io;
          io = disk_outb 0x1F7 0x20 io
      in read_sectors d [drive, count, low, mid, high] 0 (nat (sint total_blocks)) io)"

subsection \<open>The disk\<close>

text \<open>
  There is one object of type \<^verbatim>\<open>struct disk\<close>, so a pointer to a disk is NULL (\<open>None\<close>)
  or points to it.  \<open>filesystem\<close> and \<open>fs_private\<close> are addresses.
\<close>

record disk =
  disk_type :: u32
  sector_size :: int
  disk_id :: int
  filesystem :: addr
  fs_private :: addr

type_synonym disk_ptr = "unit option"

definition disk_get :: "int \<Rightarrow> disk_ptr" where
  "disk_get index = (if index \<noteq> 0 then None else Some ())"

definition disk_read_block ::
    "ata \<Rightarrow> disk_ptr \<Rightarrow> u32 \<Rightarrow> u32 \<Rightarrow> disk_io \<Rightarrow> ((kerror + u8 list) \<times> disk_io) option" where
  "disk_read_block d idisk lba total_n io =
     (if idisk = None then Some (Inl EIO, io)
      else map_option (\<lambda>(bytes, io). (Inr bytes, io)) (disc_read_sector d lba total_n io))"

subsection \<open>Streams\<close>

record disk_stream =
  position :: int
  stream_disk :: disk_ptr

text \<open>The state of the streams: their structs live at addresses of the kernel heap.\<close>

record stream_state = pmem +
  disk_ports :: disk_io
  streams :: "addr \<Rightarrow> disk_stream"

definition diskstreamer_new :: "int \<Rightarrow> 'z stream_state_scheme \<Rightarrow> addr \<times> 'z stream_state_scheme" where
  "diskstreamer_new disk_no s =
     (case disk_get disk_no of
        None \<Rightarrow> (0, s)
      | Some p \<Rightarrow>
          let (streamer, s) = kzalloc s 8
          in (streamer, s\<lparr>streams := (streams s)(streamer := \<lparr>position = 0, stream_disk = Some p\<rparr>)\<rparr>))"

text \<open>\<^verbatim>\<open>diskstreamer_seek\<close> always returns 0.\<close>

definition diskstreamer_seek :: "addr \<Rightarrow> int \<Rightarrow> 'z stream_state_scheme \<Rightarrow> 'z stream_state_scheme" where
  "diskstreamer_seek stream pos s =
     s\<lparr>streams := (streams s)(stream := (streams s stream)\<lparr>position := pos\<rparr>)\<rparr>"

lemma smod_512: "(p :: int) smod 512 < 512" "- 512 < (p :: int) smod 512"
  using smod_int_range[of 512 p] by auto

text \<open>
  The recursion of \<^verbatim>\<open>diskstreamer_read\<close> over the sectors, on the stream itself.  The
  \<open>out\<close> argument is returned as the list of bytes stored from it on; on an error the
  bytes stored before it are returned with the error.  A multiple of the sector
  size reads the following sector too, without taking bytes from it.
\<close>

function stream_read ::
    "ata \<Rightarrow> disk_stream \<Rightarrow> int \<Rightarrow> disk_io \<Rightarrow> ((kerror + unit) \<times> u8 list \<times> disk_stream \<times> disk_io) option" where
  "stream_read d stream total_n io =
     (let sector = position stream sdiv 512;
          offset = position stream smod 512;
          overflow = (offset + total_n \<ge> 512);
          total_to_read = (if overflow then total_n - ((offset + total_n) - 512) else total_n)
      in case disk_read_block d (stream_disk stream) (word_of_int sector) 1 io of
           None \<Rightarrow> None
         | Some (Inl e, io) \<Rightarrow> Some (Inl e, [], stream, io)
         | Some (Inr buf, io) \<Rightarrow>
             let bytes = map (\<lambda>i. buf ! nat (offset + int i)) [0..<nat total_to_read];
                 stream = stream\<lparr>position := position stream + total_to_read\<rparr>
             in if overflow then
                  (case stream_read d stream (total_n - total_to_read) io of
                     None \<Rightarrow> None
                   | Some (response, rest, stream, io) \<Rightarrow> Some (response, bytes @ rest, stream, io))
                else Some (Inr (), bytes, stream, io))"
  by pat_completeness auto

termination
proof (relation "measure (\<lambda>(d, stream, total_n, io). nat total_n)", goal_cases)
  case 1
  then show ?case by simp
next
  case (2 d stream total_n io)
  then show ?case using smod_512(1)[of "position stream"] by auto
qed

declare stream_read.simps [simp del]

definition diskstreamer_read ::
    "ata \<Rightarrow> addr \<Rightarrow> int \<Rightarrow> 'z stream_state_scheme \<Rightarrow>
     ((kerror + unit) \<times> u8 list \<times> 'z stream_state_scheme) option" where
  "diskstreamer_read d stream total_n s =
     map_option (\<lambda>(response, bytes, st, io).
         (response, bytes, s\<lparr>streams := (streams s)(stream := st), disk_ports := io\<rparr>))
       (stream_read d (streams s stream) total_n (disk_ports s))"

definition diskstreamer_close :: "addr \<Rightarrow> 'z stream_state_scheme \<Rightarrow> 'z stream_state_scheme" where
  "diskstreamer_close stream s = kfree s stream"

subsection \<open>A controller that holds an image\<close>

text \<open>
  The documented behaviour of an ATA device in 28-bit mode: it becomes ready again
  and again, and delivers the words of the sectors from the commanded one on.
\<close>

definition ata_ready :: "ata \<Rightarrow> bool" where
  "ata_ready d \<longleftrightarrow> (\<forall>n. \<exists>k \<ge> n. ata_status d k AND 0x08 \<noteq> 0)"

definition image_word :: "(nat \<Rightarrow> u8) \<Rightarrow> nat \<Rightarrow> u16" where
  "image_word img i = ucast (img i) OR push_bit 8 (ucast (img (i + 1)))"

definition holds_image :: "ata \<Rightarrow> (nat \<Rightarrow> u8) \<Rightarrow> bool" where
  "holds_image d img \<longleftrightarrow> ata_ready d \<and>
     (\<forall>lba count k. unat (lba :: u32) < 268435456 \<longrightarrow> k < 256 * unat count \<longrightarrow>
        ata_data d [ucast (drop_bit 24 lba OR 0xE0), count, ucast (lba AND 0xFF),
          ucast (drop_bit 8 lba), ucast (drop_bit 16 lba)] k = image_word img (512 * unat lba + 2 * k))"

lemma wait_ready_returns:
  assumes "ata_ready d"
  shows "\<exists>io'. wait_ready d io = Some io'"
proof -
  obtain k where k: "status_reads io \<le> k" "ata_status d k AND 0x08 \<noteq> 0"
    using assms by (auto simp: ata_ready_def)
  then show ?thesis
  proof (induction "k - status_reads io" arbitrary: io)
    case 0
    then show ?case by (subst wait_ready.simps) (simp add: Let_def)
  next
    case (Suc n)
    then show ?case by (subst wait_ready.simps) (auto simp: Let_def)
  qed
qed

lemma word_bytes_image: "word_bytes (image_word img i) = [img i, img (i + 1)]"
proof -
  have "ucast (ucast a OR push_bit 8 (ucast b) :: u16) = a" for a b :: u8
    by (rule bit_word_eqI) (auto simp: bit_simps)
  moreover have "ucast (drop_bit 8 (ucast a OR push_bit 8 (ucast b) :: u16)) = b" for a b :: u8
    by (rule bit_word_eqI) (auto simp: bit_simps dest: bit_imp_le_length)
  ultimately show ?thesis by (simp add: word_bytes_def image_word_def)
qed

lemma concat_pairs: "concat (map (\<lambda>i. [f (2 * i), f (2 * i + 1)]) [0..<n]) = map f [0..<2 * n]"
  by (induction n) simp_all

lemma read_sectors_image:
  assumes "ata_ready d" "\<And>k. k < 256 * (b + n) \<Longrightarrow> ata_data d cmd k = image_word img (B + 2 * k)"
  shows "\<exists>io'. read_sectors d cmd b n io = Some (map (\<lambda>i. img (B + 512 * b + i)) [0..<512 * n], io')"
  using assms(2)
proof (induction n arbitrary: b io)
  case (Suc n)
  obtain io1 where io1: "wait_ready d io = Some io1" using wait_ready_returns[OF assms(1)] by blast
  have "ata_data d cmd k = image_word img (B + 2 * k)" if "k < 256 * (b + 1 + n)" for k
    using Suc.prems[of k] that by simp
  from Suc.IH[OF this] obtain io2 where
    io2: "read_sectors d cmd (b + 1) n io1 = Some (map (\<lambda>i. img (B + 512 * (b + 1) + i)) [0..<512 * n], io2)"
    by blast
  have "map (\<lambda>i. word_bytes (ata_data d cmd (b * 256 + i))) [0..<256] =
      map (\<lambda>i. [img (B + 512 * b + 2 * i), img (B + 512 * b + (2 * i + 1))]) [0..<256]"
  proof (rule map_cong[OF refl])
    fix i assume i: "i \<in> set [0..<256 :: nat]"
    have "ata_data d cmd (b * 256 + i) = image_word img (B + 2 * (b * 256 + i))"
      by (rule Suc.prems) (use i in auto)
    moreover have "B + 2 * (b * 256 + i) = B + 512 * b + 2 * i" by simp
    ultimately show "word_bytes (ata_data d cmd (b * 256 + i)) =
        [img (B + 512 * b + 2 * i), img (B + 512 * b + (2 * i + 1))]"
      by (simp add: word_bytes_image add.assoc)
  qed
  then have "concat (map (\<lambda>i. word_bytes (ata_data d cmd (b * 256 + i))) [0..<256]) =
      map (\<lambda>i. img (B + 512 * b + i)) [0..<2 * 256]"
    by (simp only: concat_pairs[of "\<lambda>i. img (B + 512 * b + i)" 256])
  then have "concat (map (\<lambda>i. word_bytes (ata_data d cmd (b * 256 + i))) [0..<256]) =
      map (\<lambda>i. img (B + 512 * b + i)) [0..<512]" by simp
  moreover have "map (\<lambda>i. img (B + 512 * b + i)) [0..<512] @ map (\<lambda>i. img (B + 512 * (b + 1) + i)) [0..<512 * n] =
      map (\<lambda>i. img (B + 512 * b + i)) [0..<512 * Suc n]"
  proof -
    have "[0..<512 * Suc n] = [0..<512] @ map (\<lambda>i. 512 + i) [0..<512 * n]"
      using upt_add_eq_append[of 0 512 "512 * n"] map_add_upt[of 512 "512 * n"]
      by (simp add: add.commute)
    then show ?thesis by (simp add: algebra_simps)
  qed
  ultimately show ?case using io1 io2 by (simp del: upt_Suc)
qed simp

lemma disc_read_sector_image:
  assumes img: "holds_image d img" and l: "unat lba < 268435456" and n: "unat n \<le> 255"
  shows "\<exists>io'. disc_read_sector d lba n io =
     Some (map (\<lambda>i. img (512 * unat lba + i)) [0..<512 * unat n], io')"
proof -
  have c: "unat (ucast n :: u8) = unat n" using n by (simp add: unsigned_ucast_eq take_bit_nat_eq_self)
  have t: "nat (sint n) = unat n" using n by (simp add: sint_eq_unat)
  let ?cmd = "[ucast (drop_bit 24 lba OR 0xE0), ucast n, ucast (lba AND 0xFF),
          ucast (drop_bit 8 lba), ucast (drop_bit 16 lba)] :: u8 list"
  have "ata_data d ?cmd k = image_word img (512 * unat lba + 2 * k)" if "k < 256 * (0 + unat n)" for k
    using img l that c by (simp add: holds_image_def)
  moreover have "ata_ready d" using img by (simp add: holds_image_def)
  ultimately show ?thesis
    using read_sectors_image[of d 0 "unat n" ?cmd img "512 * unat lba"]
    by (simp add: disc_read_sector_def Let_def t)
qed

subsection \<open>Streams over an image\<close>

lemma sdiv_smod_512:
  "sint_nat = int p \<Longrightarrow> sint_nat sdiv 512 = int (p div 512) \<and> sint_nat smod 512 = int (p mod 512)"
  by (simp add: sdiv_nonneg smod_nonneg zdiv_int zmod_int)

lemma stream_read_image:
  assumes "holds_image d img" "position st = int p" "stream_disk st = Some ()" "p + n < 2147483648"
  shows "\<exists>io'. stream_read d st (int n) io =
     Some (Inr (), map (\<lambda>i. img (p + i)) [0..<n], st\<lparr>position := int (p + n)\<rparr>, io')"
  using assms(2-4)
proof (induction n arbitrary: p st io rule: less_induct)
  case (less n)
  let ?o = "p mod 512"
  have dm: "position st sdiv 512 = int (p div 512)" "position st smod 512 = int ?o"
    using sdiv_smod_512[OF less.prems(1)] by auto
  have lba': "unat (of_nat (p div 512) :: u32) = p div 512"
    by (rule unat_of_nat32) (use less.prems(3) in linarith)
  then have lba: "unat (word_of_int (int (p div 512)) :: u32) = p div 512" by simp
  have "unat (word_of_int (int (p div 512)) :: u32) < 268435456" using lba less.prems(3) by simp
  from disc_read_sector_image[OF assms(1) this, of 1 io] obtain io1 where
    io1: "disk_read_block d (stream_disk st) (word_of_int (int (p div 512))) 1 io =
       Some (Inr (map (\<lambda>i. img (512 * (p div 512) + i)) [0..<512]), io1)"
    by (auto simp: disk_read_block_def less.prems(2) lba')
  let ?buf = "map (\<lambda>i. img (512 * (p div 512) + i)) [0..<512]"
  have bytes: "map (\<lambda>i. ?buf ! nat (int ?o + int i)) [0..<nat (int k)] = map (\<lambda>i. img (p + i)) [0..<k]"
    if "?o + k \<le> 512" for k
  proof (simp only: nat_int, rule map_cong[OF refl])
    fix i assume "i \<in> set [0..<k]"
    then have "?buf ! (?o + i) = img (512 * (p div 512) + (?o + i))" using that by simp
    moreover have "nat (int ?o + int i) = ?o + i" by (simp only: of_nat_add [symmetric] nat_int)
    moreover have "512 * (p div 512) + (?o + i) = p + i" using mult_div_mod_eq[of 512 p] by simp
    ultimately show "?buf ! nat (int ?o + int i) = img (p + i)" by (simp only:)
  qed
  show ?case
  proof (cases "?o + n \<ge> 512")
    case False
    then have "\<not> (int ?o + int n \<ge> 512)" by linarith
    then have "stream_read d st (int n) io =
        Some (Inr (), map (\<lambda>i. ?buf ! nat (int ?o + int i)) [0..<nat (int n)], st\<lparr>position := position st + int n\<rparr>, io1)"
      by (subst stream_read.simps) (simp only: Let_def dm io1 option.case sum.case prod.case if_False)
    moreover have "map (\<lambda>i. ?buf ! nat (int ?o + int i)) [0..<nat (int n)] = map (\<lambda>i. img (p + i)) [0..<n]"
      by (rule bytes) (use False in simp)
    moreover have "position st + int n = int (p + n)" using less.prems(1) by simp
    ultimately show ?thesis by (simp only:) blast
  next
    case True
    define k where "k = 512 - ?o"
    have k: "?o + k = 512" "0 < k" "k \<le> n" using True by (auto simp: k_def)
    have ov: "int ?o + int n \<ge> 512" using True by linarith
    have kk: "int n - (int ?o + int n - 512) = int k" using k(1) by linarith
    let ?st = "st\<lparr>position := int (p + k)\<rparr>"
    have "\<exists>io'. stream_read d ?st (int (n - k)) io1 =
        Some (Inr (), map (\<lambda>i. img (p + k + i)) [0..<n - k], ?st\<lparr>position := int (p + k + (n - k))\<rparr>, io')"
      by (rule less.IH) (use k less.prems in auto)
    then obtain io2 where io2: "stream_read d ?st (int n - int k) io1 =
        Some (Inr (), map (\<lambda>i. img (p + k + i)) [0..<n - k], st\<lparr>position := int (p + n)\<rparr>, io2)"
      using k(3) by (auto simp: of_nat_diff)
    have pos: "position st + int k = int (p + k)" using less.prems(1) by simp
    have "stream_read d st (int n) io =
        Some (Inr (), map (\<lambda>i. ?buf ! nat (int ?o + int i)) [0..<nat (int k)] @ map (\<lambda>i. img (p + k + i)) [0..<n - k],
          st\<lparr>position := int (p + n)\<rparr>, io2)"
      by (subst stream_read.simps)
        (simp only: Let_def dm io1 option.case sum.case prod.case ov if_True kk pos io2)
    moreover have "map (\<lambda>i. img (p + i)) [0..<k] @ map (\<lambda>i. img (p + k + i)) [0..<n - k] =
        map (\<lambda>i. img (p + i)) [0..<n]"
    proof -
      have "[0..<n] = [0..<k] @ map (\<lambda>i. k + i) [0..<n - k]"
        using upt_add_eq_append[of 0 k "n - k"] map_add_upt[of k "n - k"] k(3) by (simp add: add.commute)
      then show ?thesis by (simp add: add.assoc)
    qed
    moreover have "map (\<lambda>i. ?buf ! nat (int ?o + int i)) [0..<nat (int k)] = map (\<lambda>i. img (p + i)) [0..<k]"
      by (rule bytes) (use k(1) in simp)
    ultimately show ?thesis by (simp only:) blast
  qed
qed


subsection \<open>Properties\<close>

text \<open>
  over a controller that holds an image, \<^verbatim>\<open>diskstreamer_read\<close> succeeds at any byte
  position below 2 GiB: it returns exactly the image's bytes from the position on,
  across sector boundaries, and advances the stream by their number; memory and
  the other streams do not change.
\<close>

theorem diskstreamer_read_image:
  assumes "holds_image d img" "position (streams s stream) = int p"
    and "stream_disk (streams s stream) = disk_get 0" "p + n < 2147483648"
  shows "\<exists>s'. diskstreamer_read d stream (int n) s = Some (Inr (), map (\<lambda>i. img (p + i)) [0..<n], s') \<and>
     position (streams s' stream) = int (p + n) \<and> mem s' = mem s \<and>
     (\<forall>t. t \<noteq> stream \<longrightarrow> streams s' t = streams s t)"
proof -
  have "stream_disk (streams s stream) = Some ()" using assms(3) by (simp add: disk_get_def)
  from stream_read_image[OF assms(1,2) this assms(4)] obtain io' where
    "stream_read d (streams s stream) (int n) (disk_ports s) =
       Some (Inr (), map (\<lambda>i. img (p + i)) [0..<n], (streams s stream)\<lparr>position := int (p + n)\<rparr>, io')"
    by blast
  then show ?thesis by (simp add: diskstreamer_read_def)
qed

text \<open>A controller that is always ready and holds the bytes \<open>i mod 256\<close>.\<close>

definition counting_disk :: ata where
  "counting_disk = \<lparr>ata_status = \<lambda>_. 0x58,
     ata_data = \<lambda>cmd k. case cmd of
       [drive, count, low, mid, high] \<Rightarrow> image_word of_nat (2 * k)
     | _ \<Rightarrow> 0\<rparr>"

lemma of_nat_sector: "(of_nat (512 * q + i) :: u8) = of_nat i"
proof -
  have "(of_nat (512 * q + i) :: u8) = of_nat 512 * of_nat q + of_nat i" by (simp only: of_nat_add of_nat_mult)
  moreover have "(of_nat 512 :: u8) = 0" by simp
  ultimately show ?thesis by (simp only: mult_zero_left add_0)
qed

lemma counting_disk_image: "holds_image counting_disk of_nat"
proof -
  have "image_word of_nat (512 * q + i) = image_word of_nat i" for q i
    using of_nat_sector[of q i] of_nat_sector[of q "i + 1"] by (simp add: image_word_def)
  then show ?thesis by (auto simp: holds_image_def ata_ready_def counting_disk_def)
qed

definition counting_streams :: stream_state where
  "counting_streams = \<lparr>mem = \<lambda>_. 0, kernel_heap = boot_heap, current_directory = 0, cr3 = 0, disk_ports = \<lparr>sent = [], status_reads = 0\<rparr>,
     streams = \<lambda>_. \<lparr>position = 510, stream_disk = Some ()\<rparr>\<rparr>"

theorem diskstreamer_read_image_witness:
  "\<exists>s'. diskstreamer_read counting_disk 0x1000000 4 counting_streams = Some (Inr (), [254, 255, 0, 1], s') \<and>
     position (streams s' 0x1000000) = 514"
proof -
  have "\<exists>s'. diskstreamer_read counting_disk 0x1000000 (int 4) counting_streams =
       Some (Inr (), map (\<lambda>i. of_nat (510 + i)) [0..<4], s') \<and>
     position (streams s' 0x1000000) = int (510 + 4) \<and> mem s' = mem counting_streams \<and>
     (\<forall>t. t \<noteq> 0x1000000 \<longrightarrow> streams s' t = streams counting_streams t)"
    by (rule diskstreamer_read_image[OF counting_disk_image])
      (simp_all add: counting_streams_def disk_get_def)
  moreover have "map (\<lambda>i. of_nat (510 + i)) [0..<4] = [254, 255, 0, 1 :: u8]"
    by (simp add: upt_rec)
  ultimately show ?thesis by auto
qed

text \<open>
  \<^verbatim>\<open>disc_read_sector\<close> returns for every 28-bit sector address and up to 255
  sectors, with the bytes of exactly these sectors.
\<close>

theorem disc_read_sector_bytes:
  assumes "holds_image d img" "unat lba < 268435456" "unat n \<le> 255"
  shows "\<exists>io'. disc_read_sector d lba n io =
     Some (map (\<lambda>i. img (512 * unat lba + i)) [0..<512 * unat n], io')"
  by (rule disc_read_sector_image[OF assms])

theorem disc_read_sector_bytes_witness:
  "\<exists>bytes io'. disc_read_sector counting_disk 7 2 \<lparr>sent = [], status_reads = 0\<rparr> = Some (bytes, io') \<and>
     length bytes = 1024"
proof -
  have "\<exists>io'. disc_read_sector counting_disk 7 2 \<lparr>sent = [], status_reads = 0\<rparr> =
      Some (map (\<lambda>i. of_nat (512 * unat (7 :: u32) + i)) [0..<512 * unat (2 :: u32)], io')"
    by (rule disc_read_sector_bytes[OF counting_disk_image]) simp_all
  then show ?thesis by auto
qed

end
