(* ===== verification/Boi_Fat16.thy ===== *)
theory Boi_Fat16
  imports Boi_Disk Boi_Blocks
begin

text \<open>
  The FAT16 driver of \<^verbatim>\<open>src/src/fs/fat/fat16.c\<close>.  Its objects are kernel-heap
  allocations: addresses come from the allocator on the flat memory, the contents
  of each struct type are a map from addresses.  What a struct is read from is the
  little-endian image on the disk.  Integer responses are 0 or negative error
  numbers as in the source; \<open>None\<close> is a call that does not return.
\<close>

subsection \<open>On-disk structures\<close>

definition le16 :: "u8 list \<Rightarrow> nat \<Rightarrow> u16" where
  "le16 b i = ucast (b ! i) OR push_bit 8 (ucast (b ! (i + 1)))"

definition le32 :: "u8 list \<Rightarrow> nat \<Rightarrow> u32" where
  "le32 b i = ucast (le16 b i) OR push_bit 16 (ucast (le16 b (i + 2)))"

record fat_header =
  short_jmp_ins :: "u8 list"
  oem_id :: "u8 list"
  bytes_per_sector :: u16
  sectors_per_cluster :: u8
  reserved_sectors :: u16
  fat_copies :: u8
  root_entries :: u16
  number_of_sectors :: u16
  media_type :: u8
  sectors_per_fat :: u16
  sectors_per_track :: u16
  number_of_heads :: u16
  hidden_sectors :: u32
  sectors_big :: u32

record fat_header_extended =
  drive_no :: u8
  win_nt_bit :: u8
  signature :: u8
  volume_id :: u32
  volume_id_string :: "u8 list"
  system_id_string :: "u8 list"

record fat_h =
  primary_header :: fat_header
  extended_header :: fat_header_extended

text \<open>The structs are packed: 36 bytes and 26 bytes, 62 together.\<close>

definition fat_h_of_bytes :: "u8 list \<Rightarrow> fat_h" where
  "fat_h_of_bytes b =
     \<lparr>primary_header = \<lparr>short_jmp_ins = take 3 b, oem_id = take 8 (drop 3 b),
        bytes_per_sector = le16 b 11, sectors_per_cluster = b ! 13, reserved_sectors = le16 b 14,
        fat_copies = b ! 16, root_entries = le16 b 17, number_of_sectors = le16 b 19,
        media_type = b ! 21, sectors_per_fat = le16 b 22, sectors_per_track = le16 b 24,
        number_of_heads = le16 b 26, hidden_sectors = le32 b 28, sectors_big = le32 b 32\<rparr>,
      extended_header = \<lparr>drive_no = b ! 36, win_nt_bit = b ! 37, signature = b ! 38,
        volume_id = le32 b 39, volume_id_string = take 11 (drop 43 b),
        system_id_string = take 8 (drop 54 b)\<rparr>\<rparr>"

record fat_directory_item =
  file_name :: "u8 list"
  ext :: "u8 list"
  attributes :: u8
  item_reserved :: u8
  creation_time_tenths_of_a_sec :: u8
  creation_time :: u16
  creation_date :: u16
  last_access :: u16
  high_16_bits_first_cluster :: u16
  last_mode_time :: u16
  last_mod_date :: u16
  low_16_bits_first_cluster :: u16
  file_size :: u32

definition fat_item_of_bytes :: "u8 list \<Rightarrow> fat_directory_item" where
  "fat_item_of_bytes b =
     \<lparr>file_name = take 8 b, ext = take 3 (drop 8 b), attributes = b ! 11, item_reserved = b ! 12,
      creation_time_tenths_of_a_sec = b ! 13, creation_time = le16 b 14, creation_date = le16 b 16,
      last_access = le16 b 18, high_16_bits_first_cluster = le16 b 20, last_mode_time = le16 b 22,
      last_mod_date = le16 b 24, low_16_bits_first_cluster = le16 b 26, file_size = le32 b 28\<rparr>"

text \<open>An array of 32-byte items.\<close>

definition fat_items_of_bytes :: "u8 list \<Rightarrow> fat_directory_item list" where
  "fat_items_of_bytes b = map (\<lambda>i. fat_item_of_bytes (take 32 (drop (32 * i) b))) [0..<length b div 32]"

abbreviation FAT_FILE_READ_ONLY :: u8 where "FAT_FILE_READ_ONLY \<equiv> 0x01"
abbreviation FAT_FILE_SUBDIRECTORY :: u8 where "FAT_FILE_SUBDIRECTORY \<equiv> 0x10"
abbreviation FAT_ITEM_TYPE_DIRECTORY :: u32 where "FAT_ITEM_TYPE_DIRECTORY \<equiv> 0"
abbreviation FAT_ITEM_TYPE_FILE :: u32 where "FAT_ITEM_TYPE_FILE \<equiv> 1"
abbreviation BOIOS_FAT16_BAD_SECTOR :: int where "BOIOS_FAT16_BAD_SECTOR \<equiv> 0xFF7"

subsection \<open>Objects of the driver\<close>

record fat_directory =
  dir_item :: addr
  total_items :: int
  sector_position :: int
  ending_sector_position :: int

text \<open>The union of a file's item and a directory is one pointer.\<close>

record fat_item =
  item_ptr :: addr
  item_type :: u32

record fat_file_descriptor =
  desc_item :: addr
  desc_position :: u32

record fat_private =
  header :: fat_h
  root_directory :: fat_directory
  cluster_read_stream :: addr
  fat_read_stream :: addr
  directory_stream :: addr

record fat_state = stream_state +
  the_disk :: disk
  privates :: "addr \<Rightarrow> fat_private"
  dir_items :: "addr \<Rightarrow> fat_directory_item list"
  directories :: "addr \<Rightarrow> fat_directory"
  fat_items :: "addr \<Rightarrow> fat_item"
  descriptors :: "addr \<Rightarrow> fat_file_descriptor"

text \<open>The private data hangs off the only disk's \<^verbatim>\<open>fs_private\<close>.\<close>

definition disk_private :: "'z fat_state_scheme \<Rightarrow> fat_private" where
  "disk_private s = privates s (fs_private (the_disk s))"

definition zero_directory :: fat_directory where
  "zero_directory = \<lparr>dir_item = 0, total_items = 0, sector_position = 0, ending_sector_position = 0\<rparr>"

definition zero_private :: fat_private where
  "zero_private = \<lparr>header = fat_h_of_bytes (replicate 62 0), root_directory = zero_directory,
     cluster_read_stream = 0, fat_read_stream = 0, directory_stream = 0\<rparr>"

subsection \<open>Resolving a disk\<close>

definition fat16_init_private :: "addr \<Rightarrow> 'z fat_state_scheme \<Rightarrow> 'z fat_state_scheme" where
  "fat16_init_private private s =
     (let (c, s) = diskstreamer_new (disk_id (the_disk s)) s;
          (f, s) = diskstreamer_new (disk_id (the_disk s)) s;
          (d, s) = diskstreamer_new (disk_id (the_disk s)) s
      in s\<lparr>privates := (privates s)(private := zero_private\<lparr>cluster_read_stream := c,
           fat_read_stream := f, directory_stream := d\<rparr>)\<rparr>)"

definition fat16_sector_to_absolute :: "'z fat_state_scheme \<Rightarrow> int \<Rightarrow> int" where
  "fat16_sector_to_absolute s sector = sector * sector_size (the_disk s)"

text \<open>Counting items up to the first blank one; \<^verbatim>\<open>continue\<close> skips the increment.\<close>

partial_function (option) total_items_loop ::
    "ata \<Rightarrow> addr \<Rightarrow> int \<Rightarrow> 'z fat_state_scheme \<Rightarrow> (int \<times> 'z fat_state_scheme) option" where
  "total_items_loop d stream i s =
     do {
       (response, bytes, s) \<leftarrow> diskstreamer_read d stream 32 s;
       if response \<noteq> Inr () then Some (- errno EIO, s)
       else
         let item = fat_item_of_bytes bytes in
         if file_name item ! 0 = 0 then Some (i, s)
         else if file_name item ! 5 = 0xE5 then total_items_loop d stream i s
         else total_items_loop d stream (i + 1) s
     }"

definition fat16_get_total_items_for_directory ::
    "ata \<Rightarrow> int \<Rightarrow> 'z fat_state_scheme \<Rightarrow> (int \<times> 'z fat_state_scheme) option" where
  "fat16_get_total_items_for_directory d directory_start_sector s =
     (let directory_start_pose =
            sint (word_of_int directory_start_sector * word_of_int (sector_size (the_disk s)) :: u32);
          stream = directory_stream (disk_private s);
          s = diskstreamer_seek stream directory_start_pose s
      in total_items_loop d stream 0 s)"

text \<open>The directory argument is the root directory inside the private data.\<close>

definition fat16_get_root_directory ::
    "ata \<Rightarrow> addr \<Rightarrow> 'z fat_state_scheme \<Rightarrow> (int \<times> 'z fat_state_scheme) option" where
  "fat16_get_root_directory d private s =
     (let ph = primary_header (header (privates s private));
          root_dir_sector_pos = uint (fat_copies ph) * uint (sectors_per_fat ph) + uint (reserved_sectors ph);
          root_dir_entries = uint (root_entries ph);
          root_dir_size = root_dir_entries * 32
      in do {
        (items_n, s) \<leftarrow> fat16_get_total_items_for_directory d root_dir_sector_pos s;
        let (dir, s) = kzalloc s (word_of_int root_dir_size);
        if dir = 0 then Some (- errno ENOMEM, s)
        else do {
          let stream = directory_stream (privates s private);
          let s = diskstreamer_seek stream (fat16_sector_to_absolute s root_dir_sector_pos) s;
          (response, bytes, s) \<leftarrow> diskstreamer_read d stream root_dir_size s;
          if response \<noteq> Inr () then Some (- errno EIO, kfree s dir)
          else
            let s = s\<lparr>dir_items := (dir_items s)(dir := fat_items_of_bytes bytes)\<rparr>;
                p = privates s private;
                p = p\<lparr>root_directory := \<lparr>dir_item = dir, total_items = items_n,
                  sector_position = root_dir_sector_pos,
                  ending_sector_position =
                    root_dir_sector_pos + root_dir_size sdiv sector_size (the_disk s)\<rparr>\<rparr>
            in Some (0, s\<lparr>privates := (privates s)(private := p)\<rparr>)
        }
      })"

definition fat16_resolve :: "ata \<Rightarrow> addr \<Rightarrow> 'z fat_state_scheme \<Rightarrow> (int \<times> 'z fat_state_scheme) option" where
  "fat16_resolve d fat16_fs s =
     (let (private, s) = kzalloc s 92;
          s = fat16_init_private private s;
          s = s\<lparr>the_disk := (the_disk s)\<lparr>fs_private := private, filesystem := fat16_fs\<rparr>\<rparr>;
          (stream, s) = diskstreamer_new (disk_id (the_disk s)) s
      in do {
        (response, s) \<leftarrow>
          (if stream = 0 then Some (- errno ENOMEM, s)
           else do {
             (r, bytes, s) \<leftarrow> diskstreamer_read d stream 62 s;
             if r \<noteq> Inr () then Some (- errno EIO, s)
             else do {
               let s = s\<lparr>privates := (privates s)(private :=
                 (privates s private)\<lparr>header := fat_h_of_bytes bytes\<rparr>)\<rparr>;
               if signature (extended_header (header (privates s private))) \<noteq> 0x29
               then Some (- errno EFSNOTUS, s)
               else do {
                 (r, s) \<leftarrow> fat16_get_root_directory d private s;
                 Some (if r \<noteq> 0 then - errno EIO else 0, s)
               }
             }
           });
        let s = (if stream \<noteq> 0 then diskstreamer_close stream s else s);
        Some (response,
          if response < 0
          then (kfree s private)\<lparr>the_disk := (the_disk s)\<lparr>fs_private := 0\<rparr>\<rparr>
          else s)
      })"

subsection \<open>Names\<close>

text \<open>
  The loop of \<^verbatim>\<open>fat16_to_proper_string\<close> from index \<open>i\<close> on: the bytes stored at \<open>out\<close>,
  before the terminating NUL.  A field has \<open>sz\<close> bytes; the last one ends the loop
  before the next byte is read.
\<close>

function proper_string_loop :: "u8 list \<Rightarrow> nat \<Rightarrow> nat \<Rightarrow> u8 list" where
  "proper_string_loop inp sz i =
     (if inp ! i \<noteq> 0 \<and> inp ! i \<noteq> 0x20
      then (if i \<ge> sz - 1 then [inp ! i] else inp ! i # proper_string_loop inp sz (i + 1))
      else [])"
  by pat_completeness auto
termination
  by (relation "measure (\<lambda>(inp, sz, i). sz - i)") auto

declare proper_string_loop.simps [simp del]

definition fat16_to_proper_string :: "u8 list \<Rightarrow> nat \<Rightarrow> u8 list" where
  "fat16_to_proper_string inp sz = proper_string_loop inp sz 0"

text \<open>The buffer \<open>out\<close> of \<open>max_len\<close> bytes, zeroed first; strings written to it follow each other.\<close>

definition fat16_get_full_relative_filename ::
    "fat_directory_item \<Rightarrow> memory \<Rightarrow> addr \<Rightarrow> nat \<Rightarrow> memory" where
  "fat16_get_full_relative_filename item m out max_len =
     (let m = memset m out 0 (of_nat max_len);
          name = fat16_to_proper_string (file_name item) 8;
          m = store_bytes m out (name @ [0])
      in if ext item ! 0 \<noteq> 0 \<and> ext item ! 0 \<noteq> 0x20
         then store_bytes m (out + of_nat (length name)) (46 # fat16_to_proper_string (ext item) 3 @ [0])
         else m)"

subsection \<open>Clusters\<close>

definition fat16_clone_directory_item ::
    "fat_directory_item \<Rightarrow> int \<Rightarrow> 'z fat_state_scheme \<Rightarrow> addr \<times> 'z fat_state_scheme" where
  "fat16_clone_directory_item item sz s =
     (if sz < 32 then (0, s)
      else
        let (item_copy, s) = kzalloc s (word_of_int sz)
        in if item_copy = 0 then (0, s)
           else (item_copy, s\<lparr>dir_items := (dir_items s)(item_copy := [item])\<rparr>))"

definition fat16_get_first_cluster :: "fat_directory_item \<Rightarrow> u32" where
  "fat16_get_first_cluster item =
     ucast (high_16_bits_first_cluster item) OR ucast (low_16_bits_first_cluster item)"

definition fat16_cluster_to_sector :: "fat_private \<Rightarrow> int \<Rightarrow> int" where
  "fat16_cluster_to_sector private cluster =
     ending_sector_position (root_directory private) +
       (cluster - 2) * uint (sectors_per_cluster (primary_header (header private)))"

definition fat16_get_first_fat_sector :: "fat_private \<Rightarrow> u32" where
  "fat16_get_first_fat_sector private = ucast (reserved_sectors (primary_header (header private)))"

definition fat16_get_fat_entry ::
    "ata \<Rightarrow> int \<Rightarrow> 'z fat_state_scheme \<Rightarrow> (int \<times> 'z fat_state_scheme) option" where
  "fat16_get_fat_entry d cluster s =
     (let private = disk_private s;
          stream = fat_read_stream private
      in if stream = 0 then Some (- 1, s)
         else
           let fat_table_position = fat16_get_first_fat_sector private * word_of_int (sector_size (the_disk s));
               s = diskstreamer_seek stream (sint (fat_table_position * word_of_int (cluster * 2))) s
           in do {
             (response, bytes, s) \<leftarrow> diskstreamer_read d stream 2 s;
             Some (case response of Inl e \<Rightarrow> - errno e | Inr _ \<Rightarrow> uint (le16 bytes 0), s)
           })"

text \<open>The loop over the clusters ahead, \<open>n\<close> of them left.\<close>

fun cluster_for_offset_loop ::
    "ata \<Rightarrow> int \<Rightarrow> nat \<Rightarrow> 'z fat_state_scheme \<Rightarrow> (int \<times> 'z fat_state_scheme) option" where
  "cluster_for_offset_loop d cluster_to_use 0 s = Some (cluster_to_use, s)"
| "cluster_for_offset_loop d cluster_to_use (Suc n) s =
     do {
       (entry, s) \<leftarrow> fat16_get_fat_entry d cluster_to_use s;
       if entry = 0xFF8 \<or> entry = 0xFFF then Some (- errno EIO, s)
       else if entry = BOIOS_FAT16_BAD_SECTOR then Some (- errno EIO, s)
       else if entry = 0xFF0 \<or> entry = 0xFF6 then Some (- errno EIO, s)
       else if entry = 0 then Some (- errno EIO, s)
       else cluster_for_offset_loop d entry n s
     }"

definition size_of_cluster_bytes :: "'z fat_state_scheme \<Rightarrow> int" where
  "size_of_cluster_bytes s =
     uint (sectors_per_cluster (primary_header (header (disk_private s)))) * sector_size (the_disk s)"

definition fat16_get_cluster_for_offset ::
    "ata \<Rightarrow> int \<Rightarrow> int \<Rightarrow> 'z fat_state_scheme \<Rightarrow> (int \<times> 'z fat_state_scheme) option" where
  "fat16_get_cluster_for_offset d starting_cluster offset s =
     (let clusters_ahead = offset sdiv size_of_cluster_bytes s
      in cluster_for_offset_loop d starting_cluster (nat clusters_ahead) s)"

subsection \<open>Reading\<close>

text \<open>The bytes stored at \<open>out\<close> are returned; the recursion continues behind them.\<close>

partial_function (option) fat16_read_internal_from_stream ::
    "ata \<Rightarrow> addr \<Rightarrow> int \<Rightarrow> int \<Rightarrow> int \<Rightarrow> 'z fat_state_scheme \<Rightarrow> (int \<times> u8 list \<times> 'z fat_state_scheme) option" where
  "fat16_read_internal_from_stream d stream cluster offset total_n s =
     do {
       (cluster_to_use, s) \<leftarrow> fat16_get_cluster_for_offset d cluster offset s;
       if cluster_to_use < 0 then Some (cluster_to_use, [], s)
       else
         let offset_from_cluster = offset smod size_of_cluster_bytes s;
             starting_sector = fat16_cluster_to_sector (disk_private s) cluster_to_use;
             starting_pos = starting_sector * sector_size (the_disk s) + offset_from_cluster;
             total_to_read = (if total_n > size_of_cluster_bytes s then size_of_cluster_bytes s else total_n);
             s = diskstreamer_seek stream starting_pos s
         in do {
           (response, bytes, s) \<leftarrow> diskstreamer_read d stream total_to_read s;
           case response of
             Inl e \<Rightarrow> Some (- errno e, bytes, s)
           | Inr _ \<Rightarrow>
               if total_n - total_to_read > 0 then do {
                 (response, rest, s) \<leftarrow> fat16_read_internal_from_stream d stream cluster
                   (offset + total_to_read) (total_n - total_to_read) s;
                 Some (response, bytes @ rest, s)
               } else Some (0, bytes, s)
         }
     }"

definition fat16_read_internal ::
    "ata \<Rightarrow> int \<Rightarrow> int \<Rightarrow> int \<Rightarrow> 'z fat_state_scheme \<Rightarrow> (int \<times> u8 list \<times> 'z fat_state_scheme) option" where
  "fat16_read_internal d starting_cluster offset total_n s =
     fat16_read_internal_from_stream d (cluster_read_stream (disk_private s)) starting_cluster offset total_n s"

subsection \<open>Directories and items\<close>

definition fat16_free_directory :: "addr \<Rightarrow> 'z fat_state_scheme \<Rightarrow> 'z fat_state_scheme" where
  "fat16_free_directory directory s =
     (if directory = 0 then s
      else
        let item = dir_item (directories s directory);
            s = (if item \<noteq> 0 then kfree s item else s)
        in kfree s directory)"

definition fat16_fat_item_free :: "addr \<Rightarrow> 'z fat_state_scheme \<Rightarrow> 'z fat_state_scheme" where
  "fat16_fat_item_free item s =
     (let i = fat_items s item;
          s = (if item_type i = FAT_ITEM_TYPE_DIRECTORY then fat16_free_directory (item_ptr i) s
               else if item_type i = FAT_ITEM_TYPE_FILE then kfree s (item_ptr i)
               else s)
      in kfree s item)"

text \<open>As in the source, a directory that could not be loaded is freed and still returned.\<close>

definition fat16_load_fat_directory ::
    "ata \<Rightarrow> fat_directory_item \<Rightarrow> 'z fat_state_scheme \<Rightarrow> (addr \<times> 'z fat_state_scheme) option" where
  "fat16_load_fat_directory d item s =
     (if attributes item AND FAT_FILE_SUBDIRECTORY = 0 then Some (0, fat16_free_directory 0 s)
      else
        let (directory, s) = kzalloc s 16
        in if directory = 0 then Some (0, fat16_free_directory 0 s)
           else
             let s = s\<lparr>directories := (directories s)(directory := zero_directory)\<rparr>;
                 cluster = sint (fat16_get_first_cluster item);
                 cluster_sector = fat16_cluster_to_sector (disk_private s) cluster
             in do {
               (items_n, s) \<leftarrow> fat16_get_total_items_for_directory d cluster_sector s;
               let s = s\<lparr>directories := (directories s)(directory :=
                         (directories s directory)\<lparr>total_items := items_n\<rparr>)\<rparr>;
               let directory_size = items_n * 32;
               let (items, s) = kzalloc s (word_of_int directory_size);
               let s = s\<lparr>directories := (directories s)(directory :=
                         (directories s directory)\<lparr>dir_item := items\<rparr>)\<rparr>;
               if items = 0 then Some (directory, fat16_free_directory directory s)
               else do {
                 (response, bytes, s) \<leftarrow> fat16_read_internal d cluster 0 directory_size s;
                 let s = s\<lparr>dir_items := (dir_items s)(items := fat_items_of_bytes bytes)\<rparr>;
                 Some (directory, if response \<noteq> 0 then fat16_free_directory directory s else s)
               }
             })"

definition fat16_new_fat_item_or_directory_item ::
    "ata \<Rightarrow> fat_directory_item \<Rightarrow> 'z fat_state_scheme \<Rightarrow> (addr \<times> 'z fat_state_scheme) option" where
  "fat16_new_fat_item_or_directory_item d item s =
     (let (f_item, s) = kzalloc s 8
      in if f_item = 0 then Some (0, s)
         else if attributes item AND FAT_FILE_SUBDIRECTORY \<noteq> 0 then do {
           (directory, s) \<leftarrow> fat16_load_fat_directory d item s;
           Some (f_item, s\<lparr>fat_items := (fat_items s)(f_item :=
             \<lparr>item_ptr = directory, item_type = FAT_ITEM_TYPE_DIRECTORY\<rparr>)\<rparr>)
         }
         else
           let (copy, s) = fat16_clone_directory_item item 32 s
           in Some (f_item, s\<lparr>fat_items := (fat_items s)(f_item :=
                \<lparr>item_ptr = copy, item_type = FAT_ITEM_TYPE_FILE\<rparr>)\<rparr>))"

text \<open>
  The scan of a directory: \<open>tmp\<close> is the address of the local \<^verbatim>\<open>tmp_filename\<close>.  The loop
  does not stop at the first match.
\<close>

fun find_item_loop ::
    "ata \<Rightarrow> addr \<Rightarrow> addr \<Rightarrow> fat_directory \<Rightarrow> addr \<Rightarrow> nat \<Rightarrow> nat \<Rightarrow> 'z fat_state_scheme \<Rightarrow>
     (addr \<times> 'z fat_state_scheme) option" where
  "find_item_loop d tmp name directory f_item i 0 s = Some (f_item, s)"
| "find_item_loop d tmp name directory f_item i (Suc n) s =
     (let item = dir_items s (dir_item directory) ! i;
          s = s\<lparr>mem := fat16_get_full_relative_filename item (mem s) tmp 128\<rparr>
      in if istrncmp (mem s) tmp name 128 = 0 then do {
           (f_item, s) \<leftarrow> fat16_new_fat_item_or_directory_item d item s;
           find_item_loop d tmp name directory f_item (i + 1) n s
         } else find_item_loop d tmp name directory f_item (i + 1) n s)"

definition fat16_find_item_in_directory ::
    "ata \<Rightarrow> addr \<Rightarrow> fat_directory \<Rightarrow> addr \<Rightarrow> 'z fat_state_scheme \<Rightarrow> (addr \<times> 'z fat_state_scheme) option" where
  "fat16_find_item_in_directory d tmp directory name s =
     find_item_loop d tmp name directory 0 0 (nat (total_items directory)) s"

text \<open>The walk along the parts of a path; \<open>next_part\<close> is a part in memory.\<close>

partial_function (option) directory_entry_loop ::
    "ata \<Rightarrow> addr \<Rightarrow> addr \<Rightarrow> addr \<Rightarrow> 'z fat_state_scheme \<Rightarrow> (addr \<times> 'z fat_state_scheme) option" where
  "directory_entry_loop d tmp current_item next_part s =
     (if next_part = 0 then Some (current_item, s)
      else if item_type (fat_items s current_item) \<noteq> FAT_ITEM_TYPE_DIRECTORY then Some (0, s)
      else do {
        (tmp_item, s) \<leftarrow> fat16_find_item_in_directory d tmp
           (directories s (item_ptr (fat_items s current_item))) (read32 (mem s) next_part) s;
        let s = fat16_fat_item_free current_item s;
        directory_entry_loop d tmp tmp_item (read32 (mem s) (next_part + 4)) s
      })"

definition fat16_get_directory_entry ::
    "ata \<Rightarrow> addr \<Rightarrow> addr \<Rightarrow> 'z fat_state_scheme \<Rightarrow> (addr \<times> 'z fat_state_scheme) option" where
  "fat16_get_directory_entry d tmp path s =
     do {
       (root_item, s) \<leftarrow> fat16_find_item_in_directory d tmp (root_directory (disk_private s))
          (read32 (mem s) path) s;
       if root_item = 0 then Some (0, s)
       else directory_entry_loop d tmp root_item (read32 (mem s) (path + 4)) s
     }"

subsection \<open>The file operations\<close>

datatype file_mode = FILE_MODE_READ | FILE_MODE_WRITE | FILE_MODE_APPEND | FILE_MODE_INVALID

text \<open>\<^verbatim>\<open>ERROR(err_code)\<close> is a negative number as a pointer.\<close>

definition ERROR :: "int \<Rightarrow> addr" where
  "ERROR err = word_of_int err"

definition ISERR :: "addr \<Rightarrow> bool" where
  "ISERR p \<longleftrightarrow> sint p < 0"

definition fat16_open ::
    "ata \<Rightarrow> addr \<Rightarrow> addr \<Rightarrow> file_mode \<Rightarrow> 'z fat_state_scheme \<Rightarrow> (addr \<times> 'z fat_state_scheme) option" where
  "fat16_open d tmp path mode s =
     (let (descriptor, s) = kzalloc s 8;
          fail = (\<lambda>e s. (ERROR (- errno e), if descriptor \<noteq> 0 then kfree s descriptor else s))
      in if mode \<noteq> FILE_MODE_READ then Some (fail ERDONLY s)
         else if descriptor = 0 then Some (fail ENOMEM s)
         else do {
           (item, s) \<leftarrow> fat16_get_directory_entry d tmp path s;
           if item = 0 then Some (fail EIO s)
           else Some (descriptor, s\<lparr>descriptors := (descriptors s)(descriptor :=
             \<lparr>desc_item = item, desc_position = 0\<rparr>)\<rparr>)
         })"

record file_stat =
  stat_flags :: u32
  stat_file_size :: u32

definition fat16_stat :: "addr \<Rightarrow> file_stat \<Rightarrow> 'z fat_state_scheme \<Rightarrow> int \<times> file_stat" where
  "fat16_stat private stat s =
     (let it = fat_items s (desc_item (descriptors s private))
      in if item_type it \<noteq> FAT_ITEM_TYPE_FILE then (- errno EINVARG, stat)
         else
           let ritem = dir_items s (item_ptr it) ! 0;
               stat = stat\<lparr>stat_file_size := file_size ritem, stat_flags := 0\<rparr>
           in (0, if attributes ritem AND FAT_FILE_READ_ONLY \<noteq> 0
                  then stat\<lparr>stat_flags := stat_flags stat OR 1\<rparr> else stat))"

text \<open>The loop of \<^verbatim>\<open>fat16_read\<close>; the bytes go to \<open>out\<close>, an \<^verbatim>\<open>int\<close> offset is advanced.\<close>

fun fat16_read_loop ::
    "ata \<Rightarrow> fat_directory_item \<Rightarrow> int \<Rightarrow> u32 \<Rightarrow> nat \<Rightarrow> addr \<Rightarrow> 'z fat_state_scheme \<Rightarrow>
     (int \<times> 'z fat_state_scheme) option" where
  "fat16_read_loop d item offset sz 0 out s = Some (0, s)"
| "fat16_read_loop d item offset sz (Suc n) out s =
     do {
       (response, bytes, s) \<leftarrow> fat16_read_internal d (sint (fat16_get_first_cluster item)) offset (sint sz) s;
       let s = s\<lparr>mem := store_bytes (mem s) out bytes\<rparr>;
       if response < 0 then Some (response, s)
       else fat16_read_loop d item (sint (word_of_int offset + sz)) sz n (out + sz) s
     }"

definition fat16_read ::
    "ata \<Rightarrow> addr \<Rightarrow> u32 \<Rightarrow> u32 \<Rightarrow> addr \<Rightarrow> 'z fat_state_scheme \<Rightarrow> (int \<times> 'z fat_state_scheme) option" where
  "fat16_read d descriptor sz nmemb out s =
     (let desc = descriptors s descriptor;
          item = dir_items s (item_ptr (fat_items s (desc_item desc))) ! 0
      in do {
        (response, s) \<leftarrow> fat16_read_loop d item (sint (desc_position desc)) sz (unat nmemb) out s;
        Some (if response < 0 then response else sint nmemb, s)
      })"

definition fat16_seek :: "addr \<Rightarrow> u32 \<Rightarrow> u32 \<Rightarrow> 'z fat_state_scheme \<Rightarrow> int \<times> 'z fat_state_scheme" where
  "fat16_seek private offset seek_mode s =
     (let desc = descriptors s private;
          it = fat_items s (desc_item desc)
      in if item_type it \<noteq> FAT_ITEM_TYPE_FILE then (- errno EINVARG, s)
         else
           let ritem = dir_items s (item_ptr it) ! 0
           in if offset \<ge> file_size ritem then (- errno EIO, s)
              else if seek_mode = 0 then
                (0, s\<lparr>descriptors := (descriptors s)(private := desc\<lparr>desc_position := offset\<rparr>)\<rparr>)
              else if seek_mode = 2 then (- errno EUNIMP, s)
              else if seek_mode = 1 then
                (0, s\<lparr>descriptors := (descriptors s)(private :=
                   desc\<lparr>desc_position := desc_position desc + offset\<rparr>)\<rparr>)
              else (- errno EINVARG, s))"

definition fat16_free_file_descriptor :: "addr \<Rightarrow> 'z fat_state_scheme \<Rightarrow> 'z fat_state_scheme" where
  "fat16_free_file_descriptor desc s =
     kfree (fat16_fat_item_free (desc_item (descriptors s desc)) s) desc"

definition fat16_close :: "addr \<Rightarrow> 'z fat_state_scheme \<Rightarrow> int \<times> 'z fat_state_scheme" where
  "fat16_close private s = (0, fat16_free_file_descriptor private s)"

subsection \<open>Reading within a cluster\<close>

lemma read_image:
  assumes "holds_image d img" "position (streams s st) = int p" "stream_disk (streams s st) = Some ()"
    and "p + n < 2147483648"
  obtains io where "diskstreamer_read d st (int n) s =
     Some (Inr (), map (\<lambda>i. img (p + i)) [0..<n],
       s\<lparr>streams := (streams s)(st := (streams s st)\<lparr>position := int (p + n)\<rparr>), disk_ports := io\<rparr>)"
proof -
  obtain io where "stream_read d (streams s st) (int n) (disk_ports s) =
      Some (Inr (), map (\<lambda>i. img (p + i)) [0..<n], (streams s st)\<lparr>position := int (p + n)\<rparr>, io)"
    using stream_read_image[OF assms] by blast
  then show thesis by (intro that[of io]) (simp add: diskstreamer_read_def)
qed

lemma seek_read_image:
  assumes "holds_image d img" "stream_disk (streams s st) = Some ()" "p + n < 2147483648"
  obtains io where "diskstreamer_read d st (int n) (diskstreamer_seek st (int p) s) =
     Some (Inr (), map (\<lambda>i. img (p + i)) [0..<n],
       s\<lparr>streams := (streams s)(st := (streams s st)\<lparr>position := int (p + n)\<rparr>), disk_ports := io\<rparr>)"
proof -
  let ?s = "diskstreamer_seek st (int p) s"
  have "position (streams ?s st) = int p" "stream_disk (streams ?s st) = Some ()"
    using assms(2) by (simp_all add: diskstreamer_seek_def)
  from read_image[OF assms(1) this assms(3)] obtain io where
    "diskstreamer_read d st (int n) ?s = Some (Inr (), map (\<lambda>i. img (p + i)) [0..<n],
       ?s\<lparr>streams := (streams ?s)(st := (streams ?s st)\<lparr>position := int (p + n)\<rparr>), disk_ports := io\<rparr>)"
    by blast
  then show thesis by (intro that[of io]) (simp add: diskstreamer_seek_def)
qed

text \<open>
  A disk whose private data describe clusters of \<open>cs\<close> bytes, with cluster \<open>c\<close> at byte
  \<open>B\<close> of the image: clusters are numbered from 2, the first behind the root directory.
\<close>

definition cluster_at :: "'z fat_state_scheme \<Rightarrow> int \<Rightarrow> nat \<Rightarrow> nat \<Rightarrow> bool" where
  "cluster_at s c cs B \<longleftrightarrow>
     (let sectors = uint (sectors_per_cluster (primary_header (header (disk_private s))));
          data_start = ending_sector_position (root_directory (disk_private s))
      in sector_size (the_disk s) = 512 \<and> sectors * 512 = int cs \<and> 0 < cs \<and> 0 \<le> c \<and>
         (data_start + (c - 2) * sectors) * 512 = int B \<and>
         stream_disk (streams s (cluster_read_stream (disk_private s))) = Some ())"

text \<open>The driver computes the same size and the same sector.\<close>

lemma cluster_at_driver:
  "cluster_at s c cs B \<longleftrightarrow>
     sector_size (the_disk s) = 512 \<and> size_of_cluster_bytes s = int cs \<and> 0 < cs \<and> 0 \<le> c \<and>
     fat16_cluster_to_sector (disk_private s) c * 512 = int B \<and>
     stream_disk (streams s (cluster_read_stream (disk_private s))) = Some ()"
  by (auto simp: cluster_at_def Let_def size_of_cluster_bytes_def fat16_cluster_to_sector_def)

lemma cluster_at_streams:
  "cluster_at (s\<lparr>streams := (streams s)(t := (streams s t)\<lparr>position := x\<rparr>), disk_ports := io\<rparr>) c cs B =
     cluster_at s c cs B"
  "cluster_at (s\<lparr>mem := m\<rparr>) c cs B = cluster_at s c cs B"
  by (auto simp: cluster_at_def disk_private_def size_of_cluster_bytes_def)

lemma read_internal_cluster:
  assumes img: "holds_image d img" and cl: "cluster_at s c cs B"
    and n: "p + n \<le> cs" "0 < n" "B + p + n < 2147483648"
  obtains io x where "fat16_read_internal d c (int p) (int n) s =
     Some (0, map (\<lambda>i. img (B + p + i)) [0..<n],
       s\<lparr>streams := (streams s)(cluster_read_stream (disk_private s) :=
           (streams s (cluster_read_stream (disk_private s)))\<lparr>position := x\<rparr>), disk_ports := io\<rparr>)"
proof -
  let ?st = "cluster_read_stream (disk_private s)"
  have c: "sector_size (the_disk s) = 512" "size_of_cluster_bytes s = int cs" "0 \<le> c"
    "fat16_cluster_to_sector (disk_private s) c * 512 = int B" "stream_disk (streams s ?st) = Some ()"
    using cl by (auto simp: cluster_at_driver)
  have q: "int p sdiv int cs = 0" "int p smod int cs = int p"
    using n by (simp_all add: sdiv_nonneg smod_nonneg)
  have pos: "int B + int p = int (B + p)" by simp
  obtain io where rd: "diskstreamer_read d ?st (int n) (diskstreamer_seek ?st (int (B + p)) s) =
     Some (Inr (), map (\<lambda>i. img (B + p + i)) [0..<n],
       s\<lparr>streams := (streams s)(?st := (streams s ?st)\<lparr>position := int (B + p + n)\<rparr>), disk_ports := io\<rparr>)"
    by (rule seek_read_image[OF img c(5), of "B + p" n]) (use n in auto)
  have "fat16_read_internal d c (int p) (int n) s =
     Some (0, map (\<lambda>i. img (B + p + i)) [0..<n],
       s\<lparr>streams := (streams s)(?st := (streams s ?st)\<lparr>position := int (B + p + n)\<rparr>), disk_ports := io\<rparr>)"
    unfolding fat16_read_internal_def
    by (subst fat16_read_internal_from_stream.simps)
      (use c n q in \<open>simp add: fat16_get_cluster_for_offset_def pos rd del: of_nat_add\<close>)
  then show thesis by (rule that)
qed

text \<open>Storing two runs one behind the other is storing their concatenation.\<close>

lemma store_bytes_append:
  "store_bytes m a (xs @ ys) = store_bytes (store_bytes m a xs) (a + of_nat (length xs)) ys"
  by (induction xs arbitrary: m a) (simp_all add: add.assoc)

lemma read_loop_cluster:
  assumes img: "holds_image d img" and cl: "cluster_at s (sint (fat16_get_first_cluster item)) cs B"
    and n: "p + n * k \<le> cs" "0 < n" "B + p + n * k < 2147483648"
  shows "\<exists>st io. fat16_read_loop d item (int p) (of_nat n) k out s =
     Some (0, s\<lparr>mem := store_bytes (mem s) out (map (\<lambda>i. img (B + p + i)) [0..<n * k]), streams := st, disk_ports := io\<rparr>) \<and>
     (\<forall>x. stream_disk (st x) = stream_disk (streams s x))"
  using cl n(1,3)
proof (induction k arbitrary: p out s)
  case (Suc k)
  have fits: "p + n \<le> cs" "B + p + n < 2147483648" "n < 2147483648" "p + n < 2147483648"
    using Suc.prems(2,3) by (auto simp: algebra_simps)
  let ?st = "cluster_read_stream (disk_private s)"
  obtain io x where rd: "fat16_read_internal d (sint (fat16_get_first_cluster item)) (int p) (int n) s =
     Some (0, map (\<lambda>i. img (B + p + i)) [0..<n],
       s\<lparr>streams := (streams s)(?st := (streams s ?st)\<lparr>position := x\<rparr>), disk_ports := io\<rparr>)"
    by (rule read_internal_cluster[OF img Suc.prems(1) fits(1) n(2) fits(2)])
  let ?b = "map (\<lambda>i. img (B + p + i)) [0..<n]"
  let ?s1 = "s\<lparr>streams := (streams s)(?st := (streams s ?st)\<lparr>position := x\<rparr>), disk_ports := io\<rparr>"
  let ?s = "?s1\<lparr>mem := store_bytes (mem s) out ?b\<rparr>"
  have sz: "sint (of_nat n :: u32) = int n" using fits(3) by (rule sint_of_nat32)
  have off: "sint (word_of_int (int p) + of_nat n :: u32) = int (p + n)"
  proof -
    have "(word_of_int (int p) + of_nat n :: u32) = of_nat (p + n)" by simp
    then show ?thesis using fits(4) by (simp only: sint_of_nat32)
  qed
  have cl: "cluster_at ?s (sint (fat16_get_first_cluster item)) cs B"
    using Suc.prems(1) by (simp add: cluster_at_streams)
  have more: "p + n + n * k \<le> cs" "B + (p + n) + n * k < 2147483648" using Suc.prems(2,3) by simp_all
  obtain st io' where s': "fat16_read_loop d item (int (p + n)) (of_nat n) k (out + of_nat n) ?s = Some (0, ?s\<lparr>mem :=
      store_bytes (mem ?s) (out + of_nat n) (map (\<lambda>i. img (B + (p + n) + i)) [0..<n * k]), streams := st, disk_ports := io'\<rparr>)"
    "\<forall>x. stream_disk (st x) = stream_disk (streams ?s x)"
    using Suc.IH[OF cl more, of "out + of_nat n"] by blast
  have "map (\<lambda>i. img (B + p + i)) [0..<n * Suc k] = ?b @ map (\<lambda>i. img (B + (p + n) + i)) [0..<n * k]"
  proof -
    have "[0..<n * Suc k] = [0..<n] @ map (\<lambda>i. n + i) [0..<n * k]"
      using upt_add_eq_append[of 0 n "n * k"] map_add_upt[of n "n * k"] by (simp add: add.commute)
    then show ?thesis by (simp add: ac_simps)
  qed
  then have b: "store_bytes (mem ?s) (out + of_nat n) (map (\<lambda>i. img (B + (p + n) + i)) [0..<n * k]) =
      store_bytes (mem s) out (map (\<lambda>i. img (B + p + i)) [0..<n * Suc k])"
    by (simp add: store_bytes_append)
  have "fat16_read_loop d item (int p) (of_nat n) (Suc k) out s =
      fat16_read_loop d item (int (p + n)) (of_nat n) k (out + of_nat n) ?s"
    unfolding fat16_read_loop.simps(2) sz rd using off by simp
  also note s'(1)[unfolded b]
  finally show ?case using s'(2) by (intro exI[of _ st] exI[of _ io']) auto
next
  case 0
  show ?case by (intro exI[of _ "streams s"] exI[of _ "disk_ports s"]) simp
qed

subsection \<open>The allocation table and directories\<close>

lemma le16_image: "uint (le16 (map (\<lambda>i. img (p + i)) [0..<2]) 0) = uint (image_word img p)"
  by (simp add: le16_def image_word_def upt_rec)

lemma get_fat_entry_position:
  assumes "holds_image d img" "fat_read_stream (disk_private s) \<noteq> 0"
    and "stream_disk (streams s (fat_read_stream (disk_private s))) = Some ()"
    and "sint (fat16_get_first_fat_sector (disk_private s) * word_of_int (sector_size (the_disk s))
           * word_of_int (cluster * 2)) = int p" "p + 2 < 2147483648"
  shows "\<exists>s'. fat16_get_fat_entry d cluster s = Some (uint (image_word img p), s')"
proof -
  let ?st = "fat_read_stream (disk_private s)"
  obtain io where "diskstreamer_read d ?st (int 2) (diskstreamer_seek ?st (int p) s) =
     Some (Inr (), map (\<lambda>i. img (p + i)) [0..<2],
       s\<lparr>streams := (streams s)(?st := (streams s ?st)\<lparr>position := int (p + 2)\<rparr>), disk_ports := io\<rparr>)"
    by (rule seek_read_image[OF assms(1,3,5)])
  then show ?thesis using assms(2,4) le16_image[of img p] by (simp add: fat16_get_fat_entry_def Let_def)
qed

lemma item_of_image:
  "file_name (fat_item_of_bytes (map (\<lambda>i. img (p + i)) [0..<32])) ! 0 = img p"
  "file_name (fat_item_of_bytes (map (\<lambda>i. img (p + i)) [0..<32])) ! 5 = img (p + 5)"
  by (simp_all add: fat_item_of_bytes_def)

lemma total_items_loop_counts:
  assumes img: "holds_image d img"
  shows "position (streams s st) = int b \<Longrightarrow> stream_disk (streams s st) = Some () \<Longrightarrow>
     b + 32 * (k + 1) < 2147483648 \<Longrightarrow> \<forall>j < k. img (b + 32 * j) \<noteq> 0 \<Longrightarrow> img (b + 32 * k) = 0 \<Longrightarrow>
     \<exists>x io. total_items_loop d st i s =
       Some (i + int (length (filter (\<lambda>j. img (b + 32 * j + 5) \<noteq> 0xE5) [0..<k])),
         s\<lparr>streams := (streams s)(st := (streams s st)\<lparr>position := x\<rparr>), disk_ports := io\<rparr>)"
proof (induction k arbitrary: b i s)
  case 0
  then obtain io where "diskstreamer_read d st (int 32) s =
     Some (Inr (), map (\<lambda>i. img (b + i)) [0..<32],
       s\<lparr>streams := (streams s)(st := (streams s st)\<lparr>position := int (b + 32)\<rparr>), disk_ports := io\<rparr>)"
    using read_image[OF img, of s st b 32] by auto
  then show ?case using 0(5)
    by (subst total_items_loop.simps) (auto simp: item_of_image Let_def)
next
  case (Suc k)
  obtain io where rd: "diskstreamer_read d st (int 32) s =
     Some (Inr (), map (\<lambda>i. img (b + i)) [0..<32],
       s\<lparr>streams := (streams s)(st := (streams s st)\<lparr>position := int (b + 32)\<rparr>), disk_ports := io\<rparr>)"
    using read_image[OF img Suc.prems(1,2), of 32] Suc.prems(3) by auto
  let ?s = "s\<lparr>streams := (streams s)(st := (streams s st)\<lparr>position := int (b + 32)\<rparr>), disk_ports := io\<rparr>"
  have nz: "img b \<noteq> 0" using Suc.prems(4) by (force dest: spec[of _ 0])
  have nx: "\<forall>j < k. img (b + 32 + 32 * j) \<noteq> 0" using Suc.prems(4) by (auto dest: spec[of _ "Suc _"] simp: add.assoc)
  have "img (b + 32 + 32 * k) = 0" using Suc.prems(5) by (simp add: add.assoc)
  with Suc.IH[of ?s "b + 32" "if img (b + 5) = 0xE5 then i else i + 1"] Suc.prems(2,3) nx
  obtain x io' where s': "total_items_loop d st (if img (b + 5) = 0xE5 then i else i + 1) ?s =
      Some ((if img (b + 5) = 0xE5 then i else i + 1) +
        int (length (filter (\<lambda>j. img (b + 32 + 32 * j + 5) \<noteq> 0xE5) [0..<k])),
        s\<lparr>streams := (streams s)(st := (streams s st)\<lparr>position := x\<rparr>), disk_ports := io'\<rparr>)"
    by (auto simp: fun_upd_def cong: if_cong)
  have "length (filter (\<lambda>j. img (b + 32 * j + 5) \<noteq> 0xE5) [0..<Suc k]) =
      (if img (b + 5) = 0xE5 then 0 else 1) + length (filter (\<lambda>j. img (b + 32 + 32 * j + 5) \<noteq> 0xE5) [0..<k])"
    by (simp add: upt_conv_Cons filter_map o_def map_Suc_upt [symmetric] add.assoc add.commute del: upt_Suc)
  then show ?case using s' rd nz
    by (subst total_items_loop.simps) (auto simp: item_of_image Let_def split: if_splits)
qed

subsection \<open>Names\<close>

text \<open>A field of a directory entry up to its first NUL or space.\<close>

definition trimmed :: "u8 list \<Rightarrow> u8 list" where
  "trimmed b = takeWhile (\<lambda>c. c \<noteq> 0 \<and> c \<noteq> 0x20) b"

lemma proper_string_loop_trimmed:
  "i < sz \<Longrightarrow> length b = sz \<Longrightarrow> proper_string_loop b sz i = trimmed (drop i b)"
proof (induction b sz i rule: proper_string_loop.induct)
  case (1 b sz i)
  have d: "drop i b = b ! i # drop (Suc i) b" using 1(2,3) by (simp add: Cons_nth_drop_Suc)
  show ?case
  proof (cases "b ! i \<noteq> 0 \<and> b ! i \<noteq> 0x20 \<and> \<not> i \<ge> sz - 1")
    case True
    then show ?thesis using 1 d by (subst proper_string_loop.simps) (auto simp: trimmed_def)
  next
    case False
    then show ?thesis using 1(2,3) d by (subst proper_string_loop.simps) (auto simp: trimmed_def)
  qed
qed

lemma proper_string_trimmed: "length b = sz \<Longrightarrow> 0 < sz \<Longrightarrow> fat16_to_proper_string b sz = trimmed b"
  by (simp add: fat16_to_proper_string_def proper_string_loop_trimmed)

definition item_name :: "fat_directory_item \<Rightarrow> u8 list" where
  "item_name item = trimmed (file_name item) @
     (if trimmed (ext item) = [] then [] else 46 # trimmed (ext item))"

definition item_wf :: "fat_directory_item \<Rightarrow> bool" where
  "item_wf item \<longleftrightarrow> length (file_name item) = 8 \<and> length (ext item) = 3"

lemma trimmed_props: "0 \<notin> set (trimmed b)" "length (trimmed b) \<le> length b"
  by (auto simp: trimmed_def length_takeWhile_le dest: set_takeWhileD)

lemma cstr_store_append:
  assumes "0 \<notin> set xs" "0 \<notin> set ys" "length xs + length ys < 1000000"
  shows "cstr (store_bytes (store_bytes m p (xs @ [0])) (p + of_nat (length xs)) (ys @ [0])) p (xs @ ys)"
proof -
  have "store_bytes (store_bytes m p (xs @ [0])) (p + of_nat (length xs)) (ys @ [0]) =
      store_bytes (store_bytes m p xs) (p + of_nat (length xs)) (ys @ [0])"
    by (cases ys) (simp_all add: store_bytes_append)
  also have "\<dots> = store_bytes m p ((xs @ ys) @ [0])" by (simp add: store_bytes_append)
  finally show ?thesis using cstr_store_bytes[of "xs @ ys" m p] assms by simp
qed

lemma full_relative_filename_cstr:
  assumes "item_wf item"
  shows "cstr (fat16_get_full_relative_filename item m out 128) out (item_name item)"
    and "\<not> in_range out 128 a \<Longrightarrow> fat16_get_full_relative_filename item m out 128 a = m a"
proof -
  let ?n = "trimmed (file_name item)" and ?e = "trimmed (ext item)"
  let ?m = "memset m out 0 (of_nat 128)"
  have w: "length (file_name item) = 8" "length (ext item) = 3" using assms by (auto simp: item_wf_def)
  have len: "length ?n \<le> 8" "length ?e \<le> 3" using trimmed_props(2)[of "file_name item"] trimmed_props(2)[of "ext item"] w by auto
  have e0: "ext item ! 0 \<noteq> 0 \<and> ext item ! 0 \<noteq> 0x20 \<longleftrightarrow> ?e \<noteq> []"
    using w(2) by (cases "ext item") (auto simp: trimmed_def)
  have eq: "fat16_get_full_relative_filename item m out 128 =
      (if ?e \<noteq> [] then store_bytes (store_bytes ?m out (?n @ [0])) (out + of_nat (length ?n)) ((46 # ?e) @ [0])
       else store_bytes ?m out (?n @ [0]))"
    using e0 w by (simp add: fat16_get_full_relative_filename_def proper_string_trimmed Let_def)
  show "cstr (fat16_get_full_relative_filename item m out 128) out (item_name item)"
    using cstr_store_append[of ?n "46 # ?e" ?m out] cstr_store_bytes[of ?n ?m out]
      trimmed_props(1)[of "file_name item"] trimmed_props(1)[of "ext item"] len
    by (auto simp: eq item_name_def)
  show "fat16_get_full_relative_filename item m out 128 a = m a" if "\<not> in_range out 128 a"
  proof -
    have z: "?m a = m a" using that by (simp add: memset_read)
    have h1: "\<not> in_range out (length (?n @ [0])) a" using that len by (auto intro: in_range_mono)
    have h2: "\<not> in_range (out + of_nat (length ?n)) (length ((46 # ?e) @ [0])) a"
    proof
      assume "in_range (out + of_nat (length ?n)) (length ((46 # ?e) @ [0])) a"
      then obtain r where r: "a = out + of_nat (length ?n) + of_nat r" "r < 5" using len by (auto elim!: in_rangeE)
      have "a - out = of_nat (length ?n + r)" using r(1) by simp
      moreover have "unat (of_nat (length ?n + r) :: u32) = length ?n + r"
        by (rule unat_of_nat32) (use r(2) len in linarith)
      ultimately show False using that r(2) len by (simp add: in_range_def)
    qed
    show ?thesis
      by (simp only: eq if_distrib[of "\<lambda>f. f a"] store_bytes_outside[OF h2]
          store_bytes_outside[OF h1] z if_cancel)
  qed
qed

subsection \<open>Finding an item\<close>

definition item_matches :: "fat_directory_item \<Rightarrow> u8 list \<Rightarrow> bool" where
  "item_matches item t \<longleftrightarrow> map tolower (item_name item) = map tolower (take 128 t)"

text \<open>The items of a directory in the store.\<close>

abbreviation nth_item :: "'z fat_state_scheme \<Rightarrow> fat_directory \<Rightarrow> nat \<Rightarrow> fat_directory_item" where
  "nth_item s directory i \<equiv> dir_items s (dir_item directory) ! i"

lemma item_name_length: "item_wf item \<Longrightarrow> length (item_name item) \<le> 12"
  using trimmed_props(2)[of "file_name item"] trimmed_props(2)[of "ext item"]
  by (auto simp: item_name_def item_wf_def)

lemma find_match_iff:
  assumes wf: "item_wf item" and t: "cstr m name t"
    and apart: "\<And>a. in_range name (Suc (length t)) a \<Longrightarrow> \<not> in_range tmp 128 a"
    and m': "m' = fat16_get_full_relative_filename item m tmp 128"
  shows "istrncmp m' tmp name 128 = 0 \<longleftrightarrow> item_matches item t" "cstr m' name t"
    "\<And>a. \<not> in_range tmp 128 a \<Longrightarrow> m' a = m a"
proof -
  show out: "m' a = m a" if "\<not> in_range tmp 128 a" for a
    unfolding m' by (rule full_relative_filename_cstr(2)[OF wf that])
  have "cstr m' name t = cstr m name t" by (rule cstr_cong) (use out apart in blast)
  then show n: "cstr m' name t" using t by simp
  have "cstr m' tmp (item_name item)" unfolding m' by (rule full_relative_filename_cstr(1)[OF wf])
  from istrncmp_0_iff[OF this n, of 128] show "istrncmp m' tmp name 128 = 0 \<longleftrightarrow> item_matches item t"
    using item_name_length[OF wf] by (simp add: item_matches_def)
qed

lemma find_item_skip:
  assumes "cstr (mem s) name t" "\<And>a. in_range name (Suc (length t)) a \<Longrightarrow> \<not> in_range tmp 128 a"
    and "\<And>j. i \<le> j \<Longrightarrow> j < i + n \<Longrightarrow> item_wf (nth_item s directory j) \<and> \<not> item_matches (nth_item s directory j) t"
  shows "\<exists>m'. (\<forall>a. \<not> in_range tmp 128 a \<longrightarrow> m' a = mem s a) \<and>
     find_item_loop d tmp name directory f i (n + k) s =
     find_item_loop d tmp name directory f (i + n) k (s\<lparr>mem := m'\<rparr>)"
  using assms(1,3)
proof (induction n arbitrary: i s)
  case 0
  show ?case by (intro exI[of _ "mem s"]) simp
next
  case (Suc n)
  let ?item = "nth_item s directory i"
  let ?m = "fat16_get_full_relative_filename ?item (mem s) tmp 128"
  let ?s = "s\<lparr>mem := ?m\<rparr>"
  have item: "item_wf ?item" "\<not> item_matches ?item t" using Suc.prems(2)[of i] by auto
  note m = find_match_iff[OF item(1) Suc.prems(1) assms(2) refl]
  have "\<exists>m'. (\<forall>a. \<not> in_range tmp 128 a \<longrightarrow> m' a = mem ?s a) \<and>
     find_item_loop d tmp name directory f (Suc i) (n + k) ?s =
     find_item_loop d tmp name directory f (Suc i + n) k (?s\<lparr>mem := m'\<rparr>)"
  proof (rule Suc.IH)
    show "cstr (mem ?s) name t" using m(2) by simp
    show "item_wf (nth_item ?s directory j) \<and> \<not> item_matches (nth_item ?s directory j) t"
      if "Suc i \<le> j" "j < Suc i + n" for j using Suc.prems(2)[of j] that by simp
  qed
  then obtain m' where m': "\<And>a. \<not> in_range tmp 128 a \<Longrightarrow> m' a = ?m a"
    "find_item_loop d tmp name directory f (Suc i) (n + k) ?s =
     find_item_loop d tmp name directory f (Suc i + n) k (s\<lparr>mem := m'\<rparr>)" by auto
  have "find_item_loop d tmp name directory f i (Suc (n + k)) s =
      find_item_loop d tmp name directory f (i + 1) (n + k) ?s"
    using m(1) item(2) by (simp add: Let_def)
  then show ?case using m' m(3) by (intro exI[of _ m']) simp
qed

lemma kzalloc_only_mem: "kzalloc st sz = (p, st') \<Longrightarrow> st' = st\<lparr>mem := mem st'\<rparr>"
  by (auto simp: kzalloc_def kmalloc_def Let_def split: prod.splits if_splits)

text \<open>One round of the scan on a plain file of the name: a new item with a copy of the entry.\<close>

lemma find_item_hit:
  assumes live: "live_regions s A" and av: "2 \<le> avail s" and dir: "A (dir_item directory) \<noteq> None"
    and wf: "item_wf (nth_item s directory j)" and match: "item_matches (nth_item s directory j) t"
    and plain: "attributes (nth_item s directory j) AND FAT_FILE_SUBDIRECTORY = 0"
    and t: "kstring s A name t" and tmp: "\<And>a. in_range tmp 128 a \<Longrightarrow> \<not> in_range name (Suc (length t)) a"
    and tmp_res: "\<And>a. in_range tmp 128 a \<Longrightarrow> \<not> table_byte (kernel_heap s) a"
  obtains f c s' where "find_item_loop d tmp name directory found j (Suc k) s = find_item_loop d tmp name directory f (Suc j) k s'"
    "f \<noteq> 0" "f \<noteq> c" "A f = None" "A c = None" "live_regions s' (A(f \<mapsto> 4096, c \<mapsto> 4096))" "avail s = avail s' + 2"
    "kstring s' (A(f \<mapsto> 4096, c \<mapsto> 4096)) name t"
    "\<forall>a. kreserved s A a \<longrightarrow> kreserved s' (A(f \<mapsto> 4096, c \<mapsto> 4096)) a"
    "\<forall>a. kreserved s A a \<and> \<not> in_range tmp 128 a \<longrightarrow> mem s' a = mem s a"
    "s' = s\<lparr>mem := mem s', dir_items := (dir_items s)(c := [nth_item s directory j]),
       fat_items := (fat_items s)(f := \<lparr>item_ptr = c, item_type = FAT_ITEM_TYPE_FILE\<rparr>)\<rparr>"
proof -
  let ?item = "nth_item s directory j"
  have name: "cstr (mem s) name t" and nres: "\<And>a. in_range name (Suc (length t)) a \<Longrightarrow> kreserved s A a"
    using t by (auto simp: kstring_def)
  have sep: "\<not> in_range tmp 128 a" if "in_range name (Suc (length t)) a" for a using tmp[of a] that by blast
  let ?m2 = "fat16_get_full_relative_filename ?item (mem s) tmp 128"
  let ?s2 = "s\<lparr>mem := ?m2\<rparr>"
  note f2 = find_match_iff[OF wf name sep refl]
  have m2_tab: "?m2 a = mem s a" if "table_byte (kernel_heap s) a" for a using f2(3) tmp_res that by blast
  note live2 = live_regions_mem[OF live m2_tab]
  have sz: "0 < unat (8 :: u32)" "unat (8 :: u32) \<le> 4096" "0 < unat (32 :: u32)" "unat (32 :: u32) \<le> 4096"
    by simp_all
  obtain f s3 where c3: "kzalloc ?s2 8 = (f, s3)" by fastforce
  have av2: "0 < avail ?s2" using av live2(2) by simp
  note law3 = kpages.alloc_page[OF live2(1) sz(1,2) av2 c3]
  obtain c s4 where c4: "kzalloc s3 32 = (c, s4)" by fastforce
  have live3: "live_regions s3 (A(f \<mapsto> 4096))" and av3: "0 < avail s3"
    using law3 live2(2) av by auto
  note law4 = kpages.alloc_page[OF live3 sz(3,4) av3 c4]
  have s4: "s4 = s\<lparr>mem := mem s4\<rparr>"
    using kzalloc_only_mem[OF c3] kzalloc_only_mem[OF c4] by (cases s3; cases s4; cases s) simp
  have fc: "f \<noteq> 0" "A f = None" "A c = None" "f \<noteq> c" "c \<noteq> 0"
    using law3 law4 by (auto split: if_splits)
  let ?s5 = "s4\<lparr>dir_items := (dir_items s)(c := [?item]), fat_items := (fat_items s)(f :=
      \<lparr>item_ptr = c, item_type = FAT_ITEM_TYPE_FILE\<rparr>)\<rparr>"
  have new: "fat16_new_fat_item_or_directory_item d ?item ?s2 = Some (f, ?s5)"
  proof -
    have "dir_items s4 = dir_items s" "fat_items s4 = fat_items s" by (subst s4, simp)+
    then show ?thesis
      using c3 c4 fc plain
      by (simp add: fat16_new_fat_item_or_directory_item_def fat16_clone_directory_item_def)
  qed
  have keep: "mem s4 a = ?m2 a" "kreserved s4 (A(f \<mapsto> 4096, c \<mapsto> 4096)) a" if "kreserved s A a" for a
  proof -
    have k: "kreserved ?s2 A a" using that by simp
    have "mem s3 a = ?m2 a" "kreserved s3 (A(f \<mapsto> 4096)) a"
      using kpages.alloc_keeps_reserved(1,2)[OF live2(1) sz(1,2) av2 c3 k] by simp_all
    with kpages.alloc_keeps_reserved(1,2)[OF live3 sz(3,4) av3 c4]
    show "mem s4 a = ?m2 a" "kreserved s4 (A(f \<mapsto> 4096, c \<mapsto> 4096)) a" by simp_all
  qed
  have "cstr (mem s4) name t = cstr ?m2 name t" by (rule cstr_cong) (use keep(1) nres in blast)
  then have name5: "cstr (mem s4) name t" using f2(2) by simp
  show thesis
  proof (rule that[of f ?s5 c])
    show "find_item_loop d tmp name directory found j (Suc k) s = find_item_loop d tmp name directory f (Suc j) k ?s5"
      using f2(1) match new by (simp add: Let_def)
    show "live_regions ?s5 (A(f \<mapsto> 4096, c \<mapsto> 4096))" "avail s = avail ?s5 + 2"
      using law3 law4 live2(2) by (auto simp: live_regions_def kheap_ok_def avail_def)
    show "kstring ?s5 (A(f \<mapsto> 4096, c \<mapsto> 4096)) name t"
      using name5 keep(2) nres by (auto simp: kstring_def)
    show "?s5 = s\<lparr>mem := mem ?s5, dir_items := (dir_items s)(c := [?item]),
       fat_items := (fat_items s)(f := \<lparr>item_ptr = c, item_type = FAT_ITEM_TYPE_FILE\<rparr>)\<rparr>"
      by (subst s4) simp
  qed (use fc keep f2(3) in simp_all)
qed

lemma find_item_in_directory_file:
  assumes live: "live_regions s A" and av: "2 \<le> avail s"
    and dir: "A (dir_item directory) \<noteq> None" and n: "nat (total_items directory) = n" "j < n"
    and wf: "\<And>i. i < n \<Longrightarrow> item_wf (nth_item s directory i)"
    and match: "\<And>i. i < n \<Longrightarrow> item_matches (nth_item s directory i) t \<longleftrightarrow> i = j"
    and plain: "attributes (nth_item s directory j) AND FAT_FILE_SUBDIRECTORY = 0"
    and t: "kstring s A name t" and tmp: "\<And>a. in_range tmp 128 a \<Longrightarrow> \<not> in_range name (Suc (length t)) a"
    and tmp_res: "\<And>a. in_range tmp 128 a \<Longrightarrow> \<not> table_byte (kernel_heap s) a"
  shows "\<exists>f c s'. fat16_find_item_in_directory d tmp directory name s = Some (f, s') \<and> f \<noteq> 0 \<and> f \<noteq> c \<and>
     A f = None \<and> A c = None \<and> fat_items s' f = \<lparr>item_ptr = c, item_type = FAT_ITEM_TYPE_FILE\<rparr> \<and>
     dir_items s' c = [nth_item s directory j] \<and>
     live_regions s' (A(f \<mapsto> 4096, c \<mapsto> 4096)) \<and> avail s = avail s' + 2 \<and>
     (\<forall>a. kreserved s A a \<and> \<not> in_range tmp 128 a \<longrightarrow> mem s' a = mem s a) \<and>
     s' = s\<lparr>mem := mem s', dir_items := (dir_items s)(c := [nth_item s directory j]),
       fat_items := (fat_items s)(f := \<lparr>item_ptr = c, item_type = FAT_ITEM_TYPE_FILE\<rparr>)\<rparr>"
proof -
  let ?item = "nth_item s directory j"
  have name: "cstr (mem s) name t" using t by (simp add: kstring_def)
  have sep: "\<not> in_range tmp 128 a" if "in_range name (Suc (length t)) a" for a using tmp[of a] that by blast
  obtain m1 where m1: "\<And>a. \<not> in_range tmp 128 a \<Longrightarrow> m1 a = mem s a"
    "find_item_loop d tmp name directory 0 0 (j + Suc (n - Suc j)) s =
     find_item_loop d tmp name directory 0 (0 + j) (Suc (n - Suc j)) (s\<lparr>mem := m1\<rparr>)"
    using find_item_skip[of s name t tmp 0 j directory d 0 "Suc (n - Suc j)"] name sep wf match n(2) by auto
  let ?s1 = "s\<lparr>mem := m1\<rparr>"
  have tab: "m1 a = mem s a" if "table_byte (kernel_heap s) a" for a using m1(1) tmp_res that by blast
  note live1 = live_regions_mem[OF live tab]
  have "cstr m1 name t" using name cstr_cong[of name t m1 "mem s"] m1(1) sep by blast
  then have t1: "kstring ?s1 A name t" using t by (simp add: kstring_def)
  have hit: "2 \<le> avail ?s1" "item_wf (nth_item ?s1 directory j)" "item_matches (nth_item ?s1 directory j) t"
    "attributes (nth_item ?s1 directory j) AND FAT_FILE_SUBDIRECTORY = 0"
    "\<And>a. in_range tmp 128 a \<Longrightarrow> \<not> table_byte (kernel_heap ?s1) a"
    using live1(2) av wf[OF n(2)] match[OF n(2)] plain tmp_res by simp_all
  obtain f c s5 where s5: "find_item_loop d tmp name directory 0 j (Suc (n - Suc j)) ?s1 =
      find_item_loop d tmp name directory f (Suc j) (n - Suc j) s5"
    "f \<noteq> 0" "f \<noteq> c" "A f = None" "A c = None" "live_regions s5 (A(f \<mapsto> 4096, c \<mapsto> 4096))" "avail ?s1 = avail s5 + 2"
    "kstring s5 (A(f \<mapsto> 4096, c \<mapsto> 4096)) name t"
    "\<forall>a. kreserved ?s1 A a \<and> \<not> in_range tmp 128 a \<longrightarrow> mem s5 a = mem ?s1 a"
    and e5: "s5 = ?s1\<lparr>mem := mem s5, dir_items := (dir_items ?s1)(c := [nth_item ?s1 directory j]),
       fat_items := (fat_items ?s1)(f := \<lparr>item_ptr = c, item_type = FAT_ITEM_TYPE_FILE\<rparr>)\<rparr>"
    by (rule find_item_hit[OF live1(1) hit(1) dir hit(2-4) t1 tmp hit(5), where d = d and tmp = tmp and found = 0 and k = "n - Suc j"])
      (assumption | rule that)+
  have d5: "dir_items s5 = (dir_items s)(c := [?item])" "kernel_heap s5 = kernel_heap s"
    "fat_items s5 f = \<lparr>item_ptr = c, item_type = FAT_ITEM_TYPE_FILE\<rparr>"
    by (subst e5, simp)+
  have cd: "c \<noteq> dir_item directory" using dir s5(5) by auto
  have "\<exists>m'. (\<forall>a. \<not> in_range tmp 128 a \<longrightarrow> m' a = mem s5 a) \<and>
     find_item_loop d tmp name directory f (Suc j) ((n - Suc j) + 0) s5 =
     find_item_loop d tmp name directory f (Suc j + (n - Suc j)) 0 (s5\<lparr>mem := m'\<rparr>)"
  proof (rule find_item_skip[OF _ sep])
    show "cstr (mem s5) name t" using s5(8) by (simp add: kstring_def)
    show "item_wf (nth_item s5 directory i) \<and> \<not> item_matches (nth_item s5 directory i) t"
      if "Suc j \<le> i" "i < Suc j + (n - Suc j)" for i
      using wf[of i] match[of i] that cd by (simp add: d5)
  qed
  then obtain m6 where m6: "\<And>a. \<not> in_range tmp 128 a \<Longrightarrow> m6 a = mem s5 a"
     "find_item_loop d tmp name directory f (Suc j) (n - Suc j) s5 = Some (f, s5\<lparr>mem := m6\<rparr>)"
    by auto
  have "j + Suc (n - Suc j) = n" using n(2) by simp
  then have res: "fat16_find_item_in_directory d tmp directory name s = Some (f, s5\<lparr>mem := m6\<rparr>)"
    using m1(2) m6(2) s5(1) n(1) by (simp add: fat16_find_item_in_directory_def)
  have "m6 a = mem s5 a" if "table_byte (kernel_heap s5) a" for a
    using m6(1) tmp_res that d5(2) by auto
  note live6 = live_regions_mem[OF s5(6) this]
  have "m6 a = mem s a" if "kreserved s A a" "\<not> in_range tmp 128 a" for a
    using m6(1)[OF that(2)] s5(9) m1(1)[OF that(2)] that by simp
  moreover have "s5\<lparr>mem := m6\<rparr> = s\<lparr>mem := mem (s5\<lparr>mem := m6\<rparr>), dir_items := (dir_items s)(c := [?item]),
       fat_items := (fat_items s)(f := \<lparr>item_ptr = c, item_type = FAT_ITEM_TYPE_FILE\<rparr>)\<rparr>"
    by (subst e5) simp
  ultimately show ?thesis
    using res s5(2-7) live6 live1(2) d5 by (intro exI[of _ f] exI[of _ c] exI[of _ "s5\<lparr>mem := m6\<rparr>"]) simp
qed

text \<open>
  The whole scan: every matching file costs two blocks and replaces the item found before it, so the
  last one is returned and the others stay allocated.  What was live is not touched.
\<close>

definition found_copy ::
    "'z fat_state_scheme \<Rightarrow> (addr \<rightharpoonup> nat) \<Rightarrow> addr \<Rightarrow> fat_directory_item \<Rightarrow> bool" where
  "found_copy s A f item \<longleftrightarrow>
     (\<exists>c. f \<noteq> 0 \<and> f \<noteq> c \<and> A f = Some 4096 \<and> A c = Some 4096 \<and>
        fat_items s f = \<lparr>item_ptr = c, item_type = FAT_ITEM_TYPE_FILE\<rparr> \<and> dir_items s c = [item])"

lemma found_copy_frame:
  assumes "found_copy s A f item" "A \<subseteq>\<^sub>m B"
    and "\<forall>p. A p \<noteq> None \<longrightarrow> fat_items s' p = fat_items s p \<and> dir_items s' p = dir_items s p"
  shows "found_copy s' B f item"
  using assms unfolding found_copy_def by (metis map_le_def domI option.distinct(1))

lemma find_item_loop_last:
  assumes tmp: "\<And>a. in_range tmp 128 a \<Longrightarrow> \<not> in_range name (Suc (length t)) a"
  shows "live_regions s A \<Longrightarrow> 2 * length (filter (\<lambda>i. item_matches (nth_item s directory i) t) [i..<i + k]) \<le> avail s \<Longrightarrow>
     A (dir_item directory) \<noteq> None \<Longrightarrow>
     (\<forall>j. i \<le> j \<and> j < i + k \<longrightarrow> item_wf (nth_item s directory j) \<and>
        (item_matches (nth_item s directory j) t \<longrightarrow> attributes (nth_item s directory j) AND FAT_FILE_SUBDIRECTORY = 0)) \<Longrightarrow>
     kstring s A name t \<Longrightarrow> (\<forall>a. in_range tmp 128 a \<longrightarrow> \<not> table_byte (kernel_heap s) a) \<Longrightarrow>
     \<exists>f s' A'. find_item_loop d tmp name directory found i k s = Some (f, s') \<and> live_regions s' A' \<and> A \<subseteq>\<^sub>m A' \<and>
       avail s = avail s' + 2 * length (filter (\<lambda>i. item_matches (nth_item s directory i) t) [i..<i + k]) \<and>
       (\<forall>a. kreserved s A a \<and> \<not> in_range tmp 128 a \<longrightarrow> mem s' a = mem s a) \<and>
       (\<forall>p. A p \<noteq> None \<longrightarrow> fat_items s' p = fat_items s p \<and> dir_items s' p = dir_items s p) \<and>
       (if filter (\<lambda>i. item_matches (nth_item s directory i) t) [i..<i + k] = [] then f = found
        else A f = None \<and> A (item_ptr (fat_items s' f)) = None \<and> found_copy s' A' f
          (nth_item s directory (last (filter (\<lambda>i. item_matches (nth_item s directory i) t) [i..<i + k]))))"
proof (induction k arbitrary: s A i found)
  case 0
  then show ?case by (intro exI[of _ found] exI[of _ s] exI[of _ A]) simp
next
  case (Suc k)
  let ?item = "nth_item s directory i"
  let ?M = "\<lambda>i. item_matches (nth_item s directory i) t"
  have upt: "[i..<i + Suc k] = i # [Suc i..<Suc i + k]" by (simp add: upt_rec)
  define F where "F = filter ?M [Suc i..<Suc i + k]"
  have F: "filter ?M [i..<i + Suc k] = (if ?M i then i # F else F)" unfolding upt F_def by simp
  have item: "item_wf ?item" "?M i \<Longrightarrow> attributes ?item AND FAT_FILE_SUBDIRECTORY = 0" using Suc.prems(4) by simp_all
  show ?case
  proof (cases "?M i")
    case False
    have name: "cstr (mem s) name t" using Suc.prems(5) by (simp add: kstring_def)
    have sep: "\<not> in_range tmp 128 a" if "in_range name (Suc (length t)) a" for a using tmp[of a] that by blast
    let ?m = "fat16_get_full_relative_filename ?item (mem s) tmp 128"
    let ?s = "s\<lparr>mem := ?m\<rparr>"
    note m = find_match_iff[OF item(1) name sep refl]
    have "?m a = mem s a" if "table_byte (kernel_heap s) a" for a using m(3) Suc.prems(6) that by blast
    note live1 = live_regions_mem[OF Suc.prems(1) this]
    have fl: "dir_items ?s = dir_items s" "fat_items ?s = fat_items s" "mem ?s = ?m" "kernel_heap ?s = kernel_heap s"
      by simp_all
    have av1: "avail ?s = avail s" by (rule live1(2))
    have t1: "kstring ?s A name t" using m(2) Suc.prems(5) by (simp add: kstring_def)
    have "\<exists>f s' A'. find_item_loop d tmp name directory found (Suc i) k ?s = Some (f, s') \<and> live_regions s' A' \<and> A \<subseteq>\<^sub>m A' \<and>
       avail ?s = avail s' + 2 * length (filter (\<lambda>i. item_matches (nth_item ?s directory i) t) [Suc i..<Suc i + k]) \<and>
       (\<forall>a. kreserved ?s A a \<and> \<not> in_range tmp 128 a \<longrightarrow> mem s' a = mem ?s a) \<and>
       (\<forall>p. A p \<noteq> None \<longrightarrow> fat_items s' p = fat_items ?s p \<and> dir_items s' p = dir_items ?s p) \<and>
       (if filter (\<lambda>i. item_matches (nth_item ?s directory i) t) [Suc i..<Suc i + k] = [] then f = found
        else A f = None \<and> A (item_ptr (fat_items s' f)) = None \<and> found_copy s' A' f
          (nth_item ?s directory (last (filter (\<lambda>i. item_matches (nth_item ?s directory i) t) [Suc i..<Suc i + k]))))"
    proof (rule Suc.IH[OF live1(1) _ Suc.prems(3) _ t1])
      show "2 * length (filter (\<lambda>i. item_matches (nth_item ?s directory i) t) [Suc i..<Suc i + k]) \<le> avail ?s"
        using Suc.prems(2) False live1(2) unfolding upt fl by (simp del: upt_Suc)
    qed (use Suc.prems(4,6) in auto)
    then obtain f s' A' where r: "find_item_loop d tmp name directory found (Suc i) k ?s = Some (f, s')"
       "live_regions s' A'" "A \<subseteq>\<^sub>m A'" "avail s = avail s' + 2 * length (filter ?M [Suc i..<Suc i + k])"
       "\<forall>a. kreserved s A a \<and> \<not> in_range tmp 128 a \<longrightarrow> mem s' a = ?m a"
       "\<forall>p. A p \<noteq> None \<longrightarrow> fat_items s' p = fat_items s p \<and> dir_items s' p = dir_items s p"
       "if filter ?M [Suc i..<Suc i + k] = [] then f = found
        else A f = None \<and> A (item_ptr (fat_items s' f)) = None \<and> found_copy s' A' f (nth_item s directory (last (filter ?M [Suc i..<Suc i + k])))"
      unfolding fl av1 by blast
    have "find_item_loop d tmp name directory found i (Suc k) s = Some (f, s')"
      using m(1) False r(1) by (simp add: Let_def)
    then show ?thesis unfolding F using r[folded F_def] False m(3)
      by (intro exI[of _ f] exI[of _ s'] exI[of _ A']) simp
  next
    case True
    have av: "2 \<le> avail s" using Suc.prems(2) True unfolding upt by simp
    have hit6: "\<And>a. in_range tmp 128 a \<Longrightarrow> \<not> table_byte (kernel_heap s) a" using Suc.prems(6) by blast
    obtain f c s1 where s1: "find_item_loop d tmp name directory found i (Suc k) s =
        find_item_loop d tmp name directory f (Suc i) k s1"
      "f \<noteq> 0" "f \<noteq> c" "A f = None" "A c = None" "live_regions s1 (A(f \<mapsto> 4096, c \<mapsto> 4096))" "avail s = avail s1 + 2"
      "kstring s1 (A(f \<mapsto> 4096, c \<mapsto> 4096)) name t"
      "\<forall>a. kreserved s A a \<longrightarrow> kreserved s1 (A(f \<mapsto> 4096, c \<mapsto> 4096)) a"
      "\<forall>a. kreserved s A a \<and> \<not> in_range tmp 128 a \<longrightarrow> mem s1 a = mem s a"
      and e1: "s1 = s\<lparr>mem := mem s1, dir_items := (dir_items s)(c := [?item]),
         fat_items := (fat_items s)(f := \<lparr>item_ptr = c, item_type = FAT_ITEM_TYPE_FILE\<rparr>)\<rparr>"
      by (rule find_item_hit[OF Suc.prems(1) av Suc.prems(3) item(1) True item(2)[OF True] Suc.prems(5) tmp hit6,
            where d = d and tmp = tmp and found = found and k = k]) (assumption | rule that)+
    let ?B = "A(f \<mapsto> 4096, c \<mapsto> 4096)"
    have d1: "dir_items s1 = (dir_items s)(c := [?item])" "kernel_heap s1 = kernel_heap s"
      "fat_items s1 = (fat_items s)(f := \<lparr>item_ptr = c, item_type = FAT_ITEM_TYPE_FILE\<rparr>)"
      by (subst e1, simp)+
    have dir: "nth_item s1 directory = nth_item s directory" using Suc.prems(3) s1(5) d1(1) by auto
    have AB: "A \<subseteq>\<^sub>m ?B" using s1(4,5) by (auto simp: map_le_def)
    have cp: "found_copy s1 ?B f ?item" unfolding found_copy_def by (rule exI[of _ c]) (use s1(2,3) in \<open>simp add: d1\<close>)
    have old: "fat_items s1 p = fat_items s p" "dir_items s1 p = dir_items s p" if "A p \<noteq> None" for p
      using that s1(4,5) by (auto simp: d1)
    have "\<exists>g s' A'. find_item_loop d tmp name directory f (Suc i) k s1 = Some (g, s') \<and> live_regions s' A' \<and> ?B \<subseteq>\<^sub>m A' \<and>
       avail s1 = avail s' + 2 * length (filter (\<lambda>i. item_matches (nth_item s1 directory i) t) [Suc i..<Suc i + k]) \<and>
       (\<forall>a. kreserved s1 ?B a \<and> \<not> in_range tmp 128 a \<longrightarrow> mem s' a = mem s1 a) \<and>
       (\<forall>p. ?B p \<noteq> None \<longrightarrow> fat_items s' p = fat_items s1 p \<and> dir_items s' p = dir_items s1 p) \<and>
       (if filter (\<lambda>i. item_matches (nth_item s1 directory i) t) [Suc i..<Suc i + k] = [] then g = f
        else ?B g = None \<and> ?B (item_ptr (fat_items s' g)) = None \<and> found_copy s' A' g
          (nth_item s1 directory (last (filter (\<lambda>i. item_matches (nth_item s1 directory i) t) [Suc i..<Suc i + k]))))"
    proof (rule Suc.IH[OF s1(6) _ _ _ s1(8)])
      show "2 * length (filter (\<lambda>i. item_matches (nth_item s1 directory i) t) [Suc i..<Suc i + k]) \<le> avail s1"
        using Suc.prems(2) True s1(7) unfolding upt dir by (simp del: upt_Suc)
    qed (use Suc.prems(3,4,6) in \<open>auto simp: dir d1(2)\<close>)
    then obtain g s' A' where r: "find_item_loop d tmp name directory f (Suc i) k s1 = Some (g, s')"
       "live_regions s' A'" "?B \<subseteq>\<^sub>m A'" "avail s1 = avail s' + 2 * length (filter ?M [Suc i..<Suc i + k])"
       "\<forall>a. kreserved s1 ?B a \<and> \<not> in_range tmp 128 a \<longrightarrow> mem s' a = mem s1 a"
       "\<forall>p. ?B p \<noteq> None \<longrightarrow> fat_items s' p = fat_items s1 p \<and> dir_items s' p = dir_items s1 p"
       "if filter ?M [Suc i..<Suc i + k] = [] then g = f
        else ?B g = None \<and> ?B (item_ptr (fat_items s' g)) = None \<and> found_copy s' A' g (nth_item s directory (last (filter ?M [Suc i..<Suc i + k])))"
      unfolding dir by blast
    have ff: "fat_items s' f = \<lparr>item_ptr = c, item_type = FAT_ITEM_TYPE_FILE\<rparr>"
      using r(6)[rule_format, of f] s1(3) by (simp add: d1)
    have last: "A g = None \<and> A (item_ptr (fat_items s' g)) = None \<and> found_copy s' A' g (nth_item s directory (last (filter ?M [i..<i + Suc k])))"
      using r(7)[folded F_def] True s1(4,5) ff found_copy_frame[OF cp r(3,6)] unfolding F by (auto split: if_splits)
    have "mem s' a = mem s a" if "kreserved s A a" "\<not> in_range tmp 128 a" for a
      using r(5) s1(9,10) that by auto
    moreover have "fat_items s' p = fat_items s p \<and> dir_items s' p = dir_items s p" if "A p \<noteq> None" for p
      using r(6)[rule_format, of p] old[OF that] that by auto
    ultimately show ?thesis
      using s1(1,7) r(1,2) r(4)[folded F_def] last map_le_trans[OF AB r(3)] True unfolding F
      by (intro exI[of _ g] exI[of _ s'] exI[of _ A']) simp
  qed
qed

subsection \<open>A controller for any image\<close>

definition command_sector :: "u8 list \<Rightarrow> u32" where
  "command_sector cmd = (case cmd of
     [drive, count, low, mid, high] \<Rightarrow>
       ucast low OR push_bit 8 (ucast mid) OR push_bit 16 (ucast high) OR push_bit 24 (ucast (drive AND 0xF))
   | _ \<Rightarrow> 0)"

definition image_disk :: "(nat \<Rightarrow> u8) \<Rightarrow> ata" where
  "image_disk img = \<lparr>ata_status = \<lambda>_. 0x58,
     ata_data = \<lambda>cmd k. image_word img (512 * unat (command_sector cmd) + 2 * k)\<rparr>"

lemma and_take: "x AND 0xFF = take_bit 8 x" "(y :: u8) AND 0xF = take_bit 4 y" for x :: u32
  by (simp_all add: take_bit_eq_mask mask_eq_exp_minus_1)

lemma e0_bits: "n < 4 \<Longrightarrow> \<not> bit (0xE0 :: u32) n"
proof -
  assume "n < 4"
  then consider "n = 0" | "n = 1" | "n = 2" | "n = 3" by fastforce
  then show ?thesis by cases simp_all
qed

lemma command_sector_lba:
  assumes "unat (lba :: u32) < 268435456"
  shows "command_sector [ucast (drop_bit 24 lba OR 0xE0), count, ucast (lba AND 0xFF),
     ucast (drop_bit 8 lba), ucast (drop_bit 16 lba)] = lba"
proof -
  have t: "take_bit 28 lba = lba"
    using assms by (simp add: unat_eq_iff32 [symmetric] unsigned_take_bit_eq take_bit_nat_eq_self)
  have high: "\<not> bit lba n" if "28 \<le> n" for n
  proof
    assume "bit lba n"
    then have "bit (take_bit 28 lba) n" by (simp only: t)
    then show False using that by (simp add: bit_take_bit_iff)
  qed
  show ?thesis
    unfolding command_sector_def list.case
  proof (rule bit_word_eqI)
    fix n
    assume "n < LENGTH(32)"
    then consider "n < 8" | "8 \<le> n" "n < 16" | "16 \<le> n" "n < 24" | "24 \<le> n" "n < 28" | "28 \<le> n" "n < 32"
      by fastforce
    then show "bit (ucast (ucast (lba AND 0xFF) :: u8) OR push_bit 8 (ucast (ucast (drop_bit 8 lba) :: u8)) OR
       push_bit 16 (ucast (ucast (drop_bit 16 lba) :: u8)) OR
       push_bit 24 (ucast ((ucast (drop_bit 24 lba OR 0xE0) :: u8) AND 0xF)) :: u32) n = bit lba n"
      by cases (use high e0_bits[of "n - 24"] in \<open>auto simp: and_take bit_simps\<close>)
  qed
qed

lemma image_disk_holds: "holds_image (image_disk img) img"
  using command_sector_lba by (auto simp: holds_image_def ata_ready_def image_disk_def)

definition sample_streams :: "addr \<Rightarrow> disk_stream" where
  "sample_streams = (\<lambda>_. \<lparr>position = 0, stream_disk = Some ()\<rparr>)"

text \<open>A driver state with one-sector clusters from sector 10 on and a directory at sector 4.\<close>

definition sample_item :: fat_directory_item where
  "sample_item = \<lparr>file_name = [65, 32, 32, 32, 32, 32, 32, 32], ext = [66, 32, 32], attributes = 0,
     item_reserved = 0, creation_time_tenths_of_a_sec = 0, creation_time = 0, creation_date = 0,
     last_access = 0, high_16_bits_first_cluster = 0, last_mode_time = 0, last_mod_date = 0,
     low_16_bits_first_cluster = 3, file_size = 100\<rparr>"

definition sample_private :: fat_private where
  "sample_private = zero_private\<lparr>header := (header zero_private)\<lparr>primary_header :=
       (primary_header (header zero_private))\<lparr>sectors_per_cluster := 1, reserved_sectors := 2\<rparr>\<rparr>,
     root_directory := \<lparr>dir_item = 0x1000000, total_items = 1, sector_position = 4, ending_sector_position = 10\<rparr>,
     cluster_read_stream := 1, fat_read_stream := 2, directory_stream := 3\<rparr>"

definition sample_fat :: fat_state where
  "sample_fat = \<lparr>mem = (mem path_state)(0x504 := 46), kernel_heap = boot_heap, current_directory = 0, cr3 = 0,
     disk_ports = \<lparr>sent = [], status_reads = 0\<rparr>, streams = sample_streams,
     the_disk = \<lparr>disk_type = 0, sector_size = 512, disk_id = 0, filesystem = 0, fs_private = 9\<rparr>,
     privates = \<lambda>_. sample_private, dir_items = \<lambda>_. [sample_item],
     directories = \<lambda>_. zero_directory, fat_items = \<lambda>_. \<lparr>item_ptr = 0x1000000, item_type = 1\<rparr>,
     descriptors = \<lambda>_. \<lparr>desc_item = 0x1000000, desc_position = 10\<rparr>\<rparr>"

lemma sample_cluster: "cluster_at sample_fat (sint (fat16_get_first_cluster sample_item)) 512 5632"
  by (simp add: cluster_at_def sample_fat_def size_of_cluster_bytes_def disk_private_def sample_private_def
      fat16_cluster_to_sector_def fat16_get_first_cluster_def sample_item_def sample_streams_def)

subsection \<open>Properties\<close>

lemma first_cluster_low:
  assumes "high_16_bits_first_cluster item = 0"
  shows "sint (fat16_get_first_cluster item) = uint (low_16_bits_first_cluster item)"
proof -
  let ?l = "low_16_bits_first_cluster item"
  have l: "unat ?l < 65536" using unsigned_less[of ?l, where 'a = nat] by simp
  then have u: "unat (ucast ?l :: u32) = unat ?l" by (simp add: unsigned_ucast_eq take_bit_nat_eq_self)
  then show ?thesis using assms l by (simp add: fat16_get_first_cluster_def sint_eq_unat)
qed

text \<open>
  C35: reading \<open>k\<close> records of \<open>n\<close> bytes at an offset such that they lie in the first
  cluster of the file, the one the low half of the cluster number in its directory entry
  names (the high half is 0 on a FAT16 volume), stores exactly the bytes of that cluster at
  \<open>out\<close> and reports \<open>k\<close>.  The position of the descriptor does not move: the next read returns the
  same bytes.
\<close>

theorem fat16_read_first_cluster:
  assumes "holds_image d img" "desc = descriptors s private"
    and "item = dir_items s (item_ptr (fat_items s (desc_item desc))) ! 0"
    and "high_16_bits_first_cluster item = 0" "cluster_at s (uint (low_16_bits_first_cluster item)) cs B"
    and "p = unat (desc_position desc)" "p + n * k \<le> cs" "0 < n" "k < 2147483648"
    and "B + p + n * k < 2147483648"
  shows "\<exists>s'. fat16_read d private (of_nat n) (of_nat k) out s = Some (int k, s') \<and>
     mem s' = store_bytes (mem s) out (map (\<lambda>i. img (B + p + i)) [0..<n * k]) \<and>
     descriptors s' = descriptors s"
proof -
  have c: "cluster_at s (sint (fat16_get_first_cluster item)) cs B"
    using assms(4,5) by (simp add: first_cluster_low)
  have p: "sint (desc_position desc) = int p"
    using assms(6,10) by (simp add: sint_eq_unat)
  have k: "unat (of_nat k :: u32) = k" "sint (of_nat k :: u32) = int k"
    using assms(9) by (auto simp only: sint_of_nat32 intro: unat_of_nat32)
  show ?thesis
    using read_loop_cluster[OF assms(1) c assms(7,8,10), of out] k p by (auto simp: fat16_read_def assms(2,3) [symmetric] Let_def)
qed

theorem fat16_read_first_cluster_witness:
  "\<exists>s'. fat16_read (image_disk of_nat) 5 3 2 0x2000 sample_fat = Some (2, s') \<and> mem s' 0x2001 = 11"
proof -
  have "\<exists>s'. fat16_read (image_disk of_nat) 5 (of_nat 3) (of_nat 2) 0x2000 sample_fat = Some (int 2, s') \<and>
     mem s' = store_bytes (mem sample_fat) 0x2000 (map (\<lambda>i. of_nat (5632 + 10 + i)) [0..<3 * 2]) \<and>
     descriptors s' = descriptors sample_fat"
    by (rule fat16_read_first_cluster[OF image_disk_holds refl refl, where cs = 512])
      (use sample_cluster in \<open>simp_all add: sample_fat_def first_cluster_low sample_item_def\<close>)
  then show ?thesis
    using store_bytes_nth[of "map (\<lambda>i. of_nat (5632 + 10 + i)) [0..<3 * 2]" 1 "mem sample_fat" "0x2000"]
    by auto
qed

text \<open>
  the number of items of a directory is counted up to the first item whose
  first byte is 0, leaving out the items whose byte 5 is \<^verbatim>\<open>0xE5\<close>: the marker of a
  deleted item is looked for in the sixth byte of the name, not in the first.
\<close>

theorem fat16_total_items:
  assumes "holds_image d img" "stream_disk (streams s (directory_stream (disk_private s))) = Some ()"
    and "sector_size (the_disk s) = 512" "b = 512 * nat sector" "0 \<le> sector"
    and "b + 32 * (k + 1) < 2147483648" "\<forall>j < k. img (b + 32 * j) \<noteq> 0" "img (b + 32 * k) = 0"
  shows "\<exists>s'. fat16_get_total_items_for_directory d sector s =
     Some (int (length (filter (\<lambda>j. img (b + 32 * j + 5) \<noteq> 0xE5) [0..<k])), s')"
proof -
  let ?st = "directory_stream (disk_private s)"
  obtain q where q: "sector = int q" using assms(5) by (rule nonneg_int_cases)
  then have "word_of_int sector * word_of_int 512 = (of_nat b :: u32)"
    by (simp add: assms(4) mult.commute)
  moreover have "sint (of_nat b :: u32) = int b" by (rule sint_of_nat32) (use assms(6) in simp)
  ultimately have pos: "sint (word_of_int sector * word_of_int (sector_size (the_disk s)) :: u32) = int b"
    using assms(3) by simp
  let ?s = "diskstreamer_seek ?st (int b) s"
  have "\<exists>x io. total_items_loop d ?st 0 ?s =
       Some (0 + int (length (filter (\<lambda>j. img (b + 32 * j + 5) \<noteq> 0xE5) [0..<k])),
         ?s\<lparr>streams := (streams ?s)(?st := (streams ?s ?st)\<lparr>position := x\<rparr>), disk_ports := io\<rparr>)"
    by (rule total_items_loop_counts[OF assms(1) _ _ assms(6-8)])
      (use assms(2) in \<open>simp_all add: diskstreamer_seek_def\<close>)
  then show ?thesis using pos by (auto simp: fat16_get_total_items_for_directory_def Let_def)
qed

theorem fat16_total_items_witness:
  "\<exists>s'. fat16_get_total_items_for_directory (image_disk (\<lambda>i. if i < 2080 then 1 else if i = 2085 then 0xE5
     else if i < 2112 then 2 else 0)) 4 sample_fat = Some (1, s')"
proof -
  let ?img = "\<lambda>i :: nat. if i < 2080 then 1 else if i = 2085 then 0xE5 else if i < 2112 then 2 else 0 :: u8"
  have "\<exists>s'. fat16_get_total_items_for_directory (image_disk ?img) 4 sample_fat =
     Some (int (length (filter (\<lambda>j. ?img (2048 + 32 * j + 5) \<noteq> 0xE5) [0..<2])), s')"
    by (rule fat16_total_items[OF image_disk_holds, of _ 2048])
      (auto simp: sample_fat_def disk_private_def sample_private_def sample_streams_def)
  moreover have "[0..<2] = [0, 1 :: nat]" by (simp add: upt_rec)
  ultimately show ?thesis by simp
qed

text \<open>
  the table entry of a cluster is read at the byte position of the table times
  the entry's offset; the two should be added.
\<close>

theorem fat16_fat_entry_position:
  assumes "holds_image d img" "fat_read_stream (disk_private s) \<noteq> 0"
    and "stream_disk (streams s (fat_read_stream (disk_private s))) = Some ()"
    and "sector_size (the_disk s) = 512" "r = unat (fat16_get_first_fat_sector (disk_private s))"
    and "r * 512 * (2 * c) + 2 < 2147483648"
  shows "\<exists>s'. fat16_get_fat_entry d (int c) s = Some (uint (image_word img (r * 512 * (2 * c))), s')"
proof -
  let ?p = "r * 512 * (2 * c)"
  have "fat16_get_first_fat_sector (disk_private s) = of_nat r" by (simp add: assms(5))
  then have "fat16_get_first_fat_sector (disk_private s) * word_of_int (sector_size (the_disk s))
      * word_of_int (int c * 2) = (of_nat ?p :: u32)" by (simp add: assms(4))
  moreover have "sint (of_nat ?p :: u32) = int ?p" by (rule sint_of_nat32) (use assms(6) in simp)
  ultimately show ?thesis using get_fat_entry_position[OF assms(1-3), of "int c" ?p] assms(6) by simp
qed

theorem fat16_fat_entry_position_witness:
  "\<exists>s'. fat16_get_fat_entry (image_disk (\<lambda>i. if i = 6144 then 7 else 9)) 3 sample_fat = Some (2311, s')"
proof -
  have "\<exists>s'. fat16_get_fat_entry (image_disk (\<lambda>i. if i = 6144 then 7 else 9)) (int 3) sample_fat =
      Some (uint (image_word (\<lambda>i. if i = 6144 then 7 else 9) (2 * 512 * (2 * 3))), s')"
    by (rule fat16_fat_entry_position[OF image_disk_holds])
      (simp_all add: sample_fat_def disk_private_def sample_private_def sample_streams_def fat16_get_first_fat_sector_def)
  then show ?thesis by (simp add: image_word_def)
qed

text \<open>
  C20: the search compares the requested name with every entry of a directory, without regard to case, as
  \<^verbatim>\<open>NAME.EXT\<close> without padding.  When entries have the name, all of them files, the result is a new item of
  type file with a copy of the last of them: the loop does not stop at the first.  Every one takes two blocks, so
  the items made for the ones before stay allocated with nothing pointing to them.  No reserved byte outside
  of the scratch buffer \<open>tmp\<close> changes.
\<close>

theorem fat16_find_file:
  assumes "live_regions s A" "A (dir_item directory) \<noteq> None" "nat (total_items directory) = n"
    and "M = filter (\<lambda>i. item_matches (nth_item s directory i) t) [0..<n]" "M \<noteq> []" "2 * length M \<le> avail s"
    and "\<And>i. i < n \<Longrightarrow> item_wf (nth_item s directory i)"
    and "\<And>i. i \<in> set M \<Longrightarrow> attributes (nth_item s directory i) AND FAT_FILE_SUBDIRECTORY = 0"
    and "kstring s A name t" "\<And>a. in_range tmp 128 a \<Longrightarrow> \<not> in_range name (Suc (length t)) a"
    and "\<And>a. in_range tmp 128 a \<Longrightarrow> \<not> table_byte (kernel_heap s) a"
  shows "\<exists>f c s' A'. fat16_find_item_in_directory d tmp directory name s = Some (f, s') \<and> f \<noteq> 0 \<and> f \<noteq> c \<and>
     A f = None \<and> A c = None \<and> fat_items s' f = \<lparr>item_ptr = c, item_type = FAT_ITEM_TYPE_FILE\<rparr> \<and>
     dir_items s' c = [nth_item s directory (last M)] \<and>
     live_regions s' A' \<and> A \<subseteq>\<^sub>m A' \<and> A' f = Some 4096 \<and> A' c = Some 4096 \<and> avail s = avail s' + 2 * length M \<and>
     (\<forall>a. kreserved s A a \<and> \<not> in_range tmp 128 a \<longrightarrow> mem s' a = mem s a)"
proof -
  let ?M = "filter (\<lambda>i. item_matches (nth_item s directory i) t) [0..<0 + n]"
  have M: "?M = M" using assms(4) by simp
  have "\<exists>f s' A'. find_item_loop d tmp name directory 0 0 n s = Some (f, s') \<and> live_regions s' A' \<and> A \<subseteq>\<^sub>m A' \<and>
       avail s = avail s' + 2 * length ?M \<and>
       (\<forall>a. kreserved s A a \<and> \<not> in_range tmp 128 a \<longrightarrow> mem s' a = mem s a) \<and>
       (\<forall>p. A p \<noteq> None \<longrightarrow> fat_items s' p = fat_items s p \<and> dir_items s' p = dir_items s p) \<and>
       (if ?M = [] then f = 0
        else A f = None \<and> A (item_ptr (fat_items s' f)) = None \<and> found_copy s' A' f (nth_item s directory (last ?M)))"
    by (rule find_item_loop_last[OF assms(10) assms(1) _ assms(2) _ assms(9)])
      (use assms(4,6-8,11) in auto)
  then obtain f s' A' where r: "find_item_loop d tmp name directory 0 0 n s = Some (f, s')" "live_regions s' A'"
      "A \<subseteq>\<^sub>m A'" "avail s = avail s' + 2 * length M"
      "\<forall>a. kreserved s A a \<and> \<not> in_range tmp 128 a \<longrightarrow> mem s' a = mem s a"
      "A f = None" "A (item_ptr (fat_items s' f)) = None" "found_copy s' A' f (nth_item s directory (last M))"
    unfolding M using assms(5) by auto
  then show ?thesis
    using assms(3) unfolding found_copy_def fat16_find_item_in_directory_def by fastforce
qed

lemma sample_fat_live:
  "live_regions sample_fat (region_map boot_heap Map.empty)" "avail sample_fat = 25600"
proof -
  have t: "table_byte boot_heap a \<longleftrightarrow> unat (0x7E00 :: addr) \<le> unat a \<and> unat a < unat (0x7E00 :: addr) + 25600" for a
    unfolding table_byte_def using in_range_nat[of "0x7E00" 25600 a] by (simp add: boot_heap_def)
  have z: "mem sample_fat a = 0" if "table_byte boot_heap a" for a
    using that by (auto simp: t sample_fat_def path_state_def)
  have ok: "kheap_ok sample_fat Map.empty"
    unfolding kheap_ok_def using heap_inv_zero[OF boot_heap_layout, of "mem sample_fat"] z boot_heap_layout
    by (auto simp: sample_fat_def)
  then show "live_regions sample_fat (region_map boot_heap Map.empty)"
    by (auto simp: live_regions_def sample_fat_def)
  have "card {k. k < heap_blocks boot_heap \<and> \<not> covered Map.empty k} = 25600"
    by (simp add: covered_def boot_heap_def)
  then show "avail sample_fat = 25600" using avail_card[OF ok] by (simp add: sample_fat_def)
qed

lemma sample_fat_name:
  "kstring sample_fat (region_map boot_heap Map.empty) 0x503 [97, 46, 98]"
proof -
  have r: "in_range 0x503 4 a \<longleftrightarrow> unat (0x503 :: addr) \<le> unat a \<and> unat a < unat (0x503 :: addr) + 4" for a
    by (rule in_range_nat) simp
  have t: "table_byte boot_heap a \<longleftrightarrow> unat (0x7E00 :: addr) \<le> unat a \<and> unat a < unat (0x7E00 :: addr) + 25600" for a
    unfolding table_byte_def using in_range_nat[of "0x7E00" 25600 a] by (simp add: boot_heap_def)
  have p: "pool_byte boot_heap a \<longleftrightarrow>
      unat (0x1000000 :: addr) \<le> unat a \<and> unat a < unat (0x1000000 :: addr) + 104857600" for a
    unfolding pool_byte_def using in_range_nat[of "0x1000000" 104857600 a] by (simp add: boot_heap_def)
  have h: "kernel_heap sample_fat = boot_heap" by (simp add: sample_fat_def)
  have "kreserved sample_fat B a" if "in_range 0x503 4 a" for a B
    using that unfolding reserved_def h r t p by auto
  moreover have "Suc (length [97, 46, 98 :: u8]) = 4" by simp
  moreover have "cstr (mem sample_fat) 0x503 [97, 46, 98]" by (simp add: sample_fat_def path_state_def)
  ultimately show ?thesis unfolding kstring_def by (simp only:) blast
qed

lemma sample_match: "item_matches sample_item [97, 46, 98]"
  by (simp add: item_matches_def item_name_def trimmed_def sample_item_def tolower_def)

text \<open>The sample state with a page for the directory's items.\<close>

definition sample_dir_page :: "addr \<times> fat_state" where
  "sample_dir_page = kzalloc sample_fat 4096"

text \<open>A directory with two files of the same name.\<close>

definition twin_fat :: fat_state where
  "twin_fat = (snd sample_dir_page)\<lparr>dir_items := \<lambda>_. [sample_item, sample_item\<lparr>file_size := 7\<rparr>]\<rparr>"

theorem fat16_find_file_witness:
  "\<exists>f s'. fat16_find_item_in_directory (image_disk of_nat) 0x600
     \<lparr>dir_item = fst sample_dir_page, total_items = 2, sector_position = 4, ending_sector_position = 10\<rparr>
     0x503 twin_fat = Some (f, s') \<and> f \<noteq> 0 \<and> avail s' = 25595 \<and>
     file_size (dir_items s' (item_ptr (fat_items s' f)) ! 0) = 7"
proof -
  let ?A = "region_map boot_heap Map.empty" and ?s = "snd sample_dir_page" and ?p = "fst sample_dir_page"
  let ?d = "\<lparr>dir_item = ?p, total_items = 2, sector_position = 4, ending_sector_position = 10\<rparr>"
  have c: "kzalloc sample_fat 4096 = (?p, ?s)" by (simp add: sample_dir_page_def)
  have sz: "0 < unat (4096 :: u32)" "unat (4096 :: u32) \<le> 4096" "0 < avail sample_fat"
    by (simp_all add: sample_fat_live(2))
  note law = kpages.alloc_page[OF sample_fat_live(1) sz c]
  note keep = kpages.alloc_keeps_reserved[OF sample_fat_live(1) sz c]
  have twin: "mem twin_fat = mem ?s" "kernel_heap twin_fat = kernel_heap ?s" "avail twin_fat = avail ?s"
    "live_regions twin_fat B = live_regions ?s B"
    "dir_items twin_fat q = [sample_item, sample_item\<lparr>file_size := 7\<rparr>]" for B q
    by (simp_all add: twin_fat_def avail_def live_regions_def kheap_ok_def)
  have name: "kstring twin_fat (?A(?p \<mapsto> 4096)) 0x503 [97, 46, 98]"
  proof -
    have k: "kreserved sample_fat ?A a" if "in_range 0x503 (Suc (length [97, 46, 98 :: u8])) a" for a
      using sample_fat_name that unfolding kstring_def by blast
    have "cstr (mem ?s) 0x503 [97, 46, 98] = cstr (mem sample_fat) 0x503 [97, 46, 98]"
      by (rule cstr_cong) (rule keep(1)[OF k])
    then have "cstr (mem ?s) 0x503 [97, 46, 98]" using sample_fat_name unfolding kstring_def by blast
    moreover have "kreserved ?s (?A(?p \<mapsto> 4096)) a" if "in_range 0x503 (Suc (length [97, 46, 98 :: u8])) a" for a
      by (rule keep(2)[OF k[OF that]])
    ultimately show ?thesis unfolding kstring_def twin by blast
  qed
  have r: "in_range 0x600 128 a \<longleftrightarrow> unat (0x600 :: addr) \<le> unat a \<and> unat a < unat (0x600 :: addr) + 128" for a
    by (rule in_range_nat) simp
  have n: "in_range 0x503 4 a \<longleftrightarrow> unat (0x503 :: addr) \<le> unat a \<and> unat a < unat (0x503 :: addr) + 4" for a
    by (rule in_range_nat) simp
  have h: "kernel_heap ?s = boot_heap" using kernel_heap_kzalloc[OF c] by (simp add: sample_fat_def)
  have t: "table_byte boot_heap a \<longleftrightarrow> unat (0x7E00 :: addr) \<le> unat a \<and> unat a < unat (0x7E00 :: addr) + 25600" for a
    unfolding table_byte_def using in_range_nat[of "0x7E00" 25600 a] by (simp add: boot_heap_def)
  have two: "\<And>i. i < 2 \<Longrightarrow> i = 0 \<or> i = (1 :: nat)" by auto
  have m: "item_matches (sample_item\<lparr>file_size := 7\<rparr>) [97, 46, 98]"
  proof -
    have "item_name (sample_item\<lparr>file_size := 7\<rparr>) = item_name sample_item" by (simp add: item_name_def)
    then show ?thesis using sample_match unfolding item_matches_def by simp
  qed
  have M: "[0, 1] = filter (\<lambda>i. item_matches (nth_item twin_fat ?d i) [97, 46, 98]) [0..<2]"
    using sample_match m by (simp add: twin upt_rec)
  have "\<exists>f c s' A'. fat16_find_item_in_directory (image_disk of_nat) 0x600 ?d 0x503 twin_fat = Some (f, s') \<and>
     f \<noteq> 0 \<and> f \<noteq> c \<and> (?A(?p \<mapsto> 4096)) f = None \<and> (?A(?p \<mapsto> 4096)) c = None \<and>
     fat_items s' f = \<lparr>item_ptr = c, item_type = FAT_ITEM_TYPE_FILE\<rparr> \<and>
     dir_items s' c = [nth_item twin_fat ?d (last [0, 1])] \<and>
     live_regions s' A' \<and> ?A(?p \<mapsto> 4096) \<subseteq>\<^sub>m A' \<and> A' f = Some 4096 \<and> A' c = Some 4096 \<and>
     avail twin_fat = avail s' + 2 * length [0, 1 :: nat] \<and>
     (\<forall>a. kreserved twin_fat (?A(?p \<mapsto> 4096)) a \<and> \<not> in_range 0x600 128 a \<longrightarrow> mem s' a = mem twin_fat a)"
  proof (rule fat16_find_file[OF _ _ _ M _ _ _ _ name])
    show "live_regions twin_fat (?A(?p \<mapsto> 4096))" using law unfolding twin by blast
    show "2 * length [0, 1 :: nat] \<le> avail twin_fat" using law sample_fat_live(2) by (simp add: twin)
    show "\<not> in_range 0x503 (Suc (length [97, 46, 98 :: u8])) a" if "in_range 0x600 128 a" for a
    proof -
      have "Suc (length [97, 46, 98 :: u8]) = 4" by simp
      then show ?thesis using that unfolding r by (simp only: n) simp
    qed
    show "\<not> table_byte (kernel_heap twin_fat) a" if "in_range 0x600 128 a" for a
      using that unfolding twin h t r by simp
    show "item_wf (nth_item twin_fat ?d i)" if "i < 2" for i
      using two[OF that] by (auto simp: twin item_wf_def sample_item_def)
    show "attributes (nth_item twin_fat ?d i) AND FAT_FILE_SUBDIRECTORY = 0" if "i \<in> set [0, 1]" for i
      using that by (auto simp: twin sample_item_def)
  qed simp_all
  moreover have "avail twin_fat = 25599" using law sample_fat_live(2) by (simp add: twin)
  ultimately obtain f c s' where "fat16_find_item_in_directory (image_disk of_nat) 0x600 ?d 0x503 twin_fat = Some (f, s')"
     "f \<noteq> 0" "fat_items s' f = \<lparr>item_ptr = c, item_type = FAT_ITEM_TYPE_FILE\<rparr>"
     "dir_items s' c = [sample_item\<lparr>file_size := 7\<rparr>]" "avail s' = 25595"
    by (auto simp: twin)
  then show ?thesis by (intro exI[of _ f] exI[of _ s']) simp
qed

text \<open>
  \<^verbatim>\<open>fat16_seek\<close> on a file moves the position only for an offset below the file
  size: to the offset for \<^verbatim>\<open>SEEK_SET\<close>, ahead by it for \<^verbatim>\<open>SEEK_CUR\<close> (where the sum is
  not compared with the file size); \<^verbatim>\<open>SEEK_END\<close> is not implemented, and every refusal
  leaves the state alone.
\<close>

theorem fat16_seek_spec:
  assumes "desc = descriptors s private" "it = fat_items s (desc_item desc)"
    and "item = dir_items s (item_ptr it) ! 0"
  shows "fat16_seek private offset mode s =
    (if item_type it = FAT_ITEM_TYPE_FILE \<and> offset < file_size item \<and> (mode = 0 \<or> mode = 1)
     then (0, s\<lparr>descriptors := (descriptors s)(private := desc\<lparr>desc_position :=
       if mode = 0 then offset else desc_position desc + offset\<rparr>)\<rparr>)
     else (if item_type it \<noteq> FAT_ITEM_TYPE_FILE then - 2
           else if file_size item \<le> offset then - 1 else if mode = 2 then - 7 else - 2, s))"
  using assms by (auto simp: fat16_seek_def Let_def)

theorem fat16_seek_spec_witness:
  "fst (fat16_seek 5 99 0 sample_fat) = 0 \<and> fst (fat16_seek 5 100 0 sample_fat) = - 1"
  using fat16_seek_spec[OF refl refl refl, of 5 99 0 sample_fat]
    fat16_seek_spec[OF refl refl refl, of 5 100 0 sample_fat]
  by (simp add: sample_fat_def sample_item_def)

end
