(* ===== verification/Boi_Mount.thy ===== *)
theory Boi_Mount
  imports Boi_Fat16
begin

text \<open>
  Mounting a disk: what \<^verbatim>\<open>fat16_resolve\<close> (\<^verbatim>\<open>src/src/fs/fat/fat16.c\<close>) makes of an image.  It accepts an
  image with the FAT16 signature and reads the header and the root directory into the heap; any other it refuses,
  and then the three streams of the private data stay allocated.
\<close>

subsection \<open>Mounting a volume\<close>

text \<open>
  What the boot sector says, in numbers computed from the bytes of the image: where the root directory starts,
  how many bytes it has, and which entry ends it (the first with a name of byte 0).
\<close>

definition image_half :: "(nat \<Rightarrow> u8) \<Rightarrow> nat \<Rightarrow> nat" where
  "image_half img i = unat (img i) + 256 * unat (img (i + 1))"

definition root_sector :: "(nat \<Rightarrow> u8) \<Rightarrow> nat" where
  "root_sector img = unat (img 16) * image_half img 22 + image_half img 14"

definition root_bytes :: "(nat \<Rightarrow> u8) \<Rightarrow> nat" where
  "root_bytes img = 32 * image_half img 17"

definition root_ends :: "(nat \<Rightarrow> u8) \<Rightarrow> nat \<Rightarrow> bool" where
  "root_ends img k \<longleftrightarrow> 0 < root_bytes img \<and> 512 * root_sector img + root_bytes img < 2147483648 \<and>
     (\<forall>j < k. img (512 * root_sector img + 32 * j) \<noteq> 0) \<and> img (512 * root_sector img + 32 * k) = 0 \<and>
     512 * root_sector img + 32 * (k + 1) < 2147483648"

text \<open>The items the driver counts.\<close>

definition root_count :: "(nat \<Rightarrow> u8) \<Rightarrow> nat \<Rightarrow> nat" where
  "root_count img k = length (filter (\<lambda>j. img (512 * root_sector img + 32 * j + 5) \<noteq> 0xE5) [0..<k])"

lemma uint_le16:
  assumes "i + 1 < length b"
  shows "uint (le16 b i) = int (unat (b ! i) + 256 * unat (b ! (i + 1)))"
proof -
  have "le16 b i = ucast (b ! i) + push_bit 8 (ucast (b ! (i + 1)))"
    unfolding le16_def
    by (rule disjunctive_add [symmetric]) (auto simp: bit_simps dest: bit_imp_le_length)
  also have "\<dots> = of_nat (unat (b ! i) + 256 * unat (b ! (i + 1)))"
    by (simp add: push_bit_eq_mult)
  finally have e: "le16 b i = of_nat (unat (b ! i) + 256 * unat (b ! (i + 1)))" .
  have "unat (b ! i) < 256" "unat (b ! (i + 1)) < 256"
    using unsigned_less[of "b ! i", where 'a = nat] unsigned_less[of "b ! (i + 1)", where 'a = nat] by simp_all
  then have "unat (b ! i) + 256 * unat (b ! (i + 1)) < 65536" by simp
  then show ?thesis unfolding e by (simp add: uint_nat unsigned_of_nat take_bit_nat_eq_self del: of_nat_add)
qed

lemma boot_header:
  assumes "b = map img [0..<62]"
  shows "uint (fat_copies (primary_header (fat_h_of_bytes b))) * uint (sectors_per_fat (primary_header (fat_h_of_bytes b))) +
      uint (reserved_sectors (primary_header (fat_h_of_bytes b))) = int (root_sector img)"
    "uint (root_entries (primary_header (fat_h_of_bytes b))) * 32 = int (root_bytes img)"
    "signature (extended_header (fat_h_of_bytes b)) = img 38"
proof -
  have n: "b ! i = img i" if "i < 62" for i using that by (simp add: assms)
  have l: "length b = 62" by (simp add: assms)
  have h: "uint (le16 b i) = int (image_half img i)" if "i + 1 < 62" for i
    using uint_le16[of i b] that l by (simp add: n image_half_def)
  show "uint (fat_copies (primary_header (fat_h_of_bytes b))) * uint (sectors_per_fat (primary_header (fat_h_of_bytes b))) +
      uint (reserved_sectors (primary_header (fat_h_of_bytes b))) = int (root_sector img)"
    by (simp add: fat_h_of_bytes_def h n root_sector_def)
  show "uint (root_entries (primary_header (fat_h_of_bytes b))) * 32 = int (root_bytes img)"
    by (simp add: fat_h_of_bytes_def h root_bytes_def)
  show "signature (extended_header (fat_h_of_bytes b)) = img 38" by (simp add: fat_h_of_bytes_def n)
qed

lemma root_bytes_less: "root_bytes img < 2097152"
  using unsigned_less[of "img 17", where 'a = nat] unsigned_less[of "img 18", where 'a = nat]
  by (simp add: root_bytes_def image_half_def)

lemma heap_same:
  assumes "mem s' = mem s" "kernel_heap s' = kernel_heap s"
  shows "live_regions s' A = live_regions s A" "avail s' = avail s" "room_for s' k n = room_for s k n"
  using assms by (simp_all add: live_regions_def kheap_ok_def avail_def room_for_def)

text \<open>A stream at the start of the disk.\<close>

abbreviation new_stream :: disk_stream where
  "new_stream \<equiv> \<lparr>position = 0, stream_disk = Some ()\<rparr>"

lemma diskstreamer_new_ok:
  assumes "live_regions s A" "0 < avail s"
  obtains p m where "diskstreamer_new 0 s = (p, s\<lparr>mem := m, streams := (streams s)(p := new_stream)\<rparr>)"
    "p \<noteq> 0" "A p = None" "live_regions (s\<lparr>mem := m\<rparr>) (A(p \<mapsto> 4096))" "avail s = Suc (avail (s\<lparr>mem := m\<rparr>))"
proof -
  obtain p s1 where c: "kzalloc s 8 = (p, s1)" by fastforce
  obtain m where m: "s1 = s\<lparr>mem := m\<rparr>" using kzalloc_only_mem[OF c] by blast
  have "0 < unat (8 :: u32)" "unat (8 :: u32) \<le> 4096" by simp_all
  note law = kpages.alloc_page[OF assms(1) this assms(2) c]
  show thesis
    by (rule that[of p m]) (use c m law in \<open>auto simp: diskstreamer_new_def disk_get_def\<close>)
qed

lemma fat16_init_private_ok:
  assumes live: "live_regions s A" and av: "3 \<le> avail s" and disk: "disk_id (the_disk s) = 0"
  obtains c f e m where "fat16_init_private private s =
      s\<lparr>mem := m, streams := (streams s)(c := new_stream, f := new_stream, e := new_stream),
        privates := (privates s)(private := zero_private\<lparr>cluster_read_stream := c, fat_read_stream := f, directory_stream := e\<rparr>)\<rparr>"
    "distinct [c, f, e, 0]" "A c = None" "A f = None" "A e = None"
    "live_regions (s\<lparr>mem := m\<rparr>) (A(c \<mapsto> 4096, f \<mapsto> 4096, e \<mapsto> 4096))" "avail s = avail (s\<lparr>mem := m\<rparr>) + 3"
proof -
  have "0 < avail s" using av by simp
  from diskstreamer_new_ok[OF live this] obtain c m1 where c: "diskstreamer_new 0 s =
      (c, s\<lparr>mem := m1, streams := (streams s)(c := new_stream)\<rparr>)" "c \<noteq> 0" "A c = None"
      "live_regions (s\<lparr>mem := m1\<rparr>) (A(c \<mapsto> 4096))" "avail s = Suc (avail (s\<lparr>mem := m1\<rparr>))" by metis
  let ?s1 = "s\<lparr>mem := m1, streams := (streams s)(c := new_stream)\<rparr>"
  have "live_regions ?s1 (A(c \<mapsto> 4096))" "0 < avail ?s1" and a1: "avail ?s1 = avail (s\<lparr>mem := m1\<rparr>)"
    using c(4,5) av by (simp_all add: heap_same[of ?s1 "s\<lparr>mem := m1\<rparr>"])
  from diskstreamer_new_ok[OF this(1,2)] obtain f m2 where f: "diskstreamer_new 0 ?s1 =
      (f, ?s1\<lparr>mem := m2, streams := (streams ?s1)(f := new_stream)\<rparr>)" "f \<noteq> 0" "(A(c \<mapsto> 4096)) f = None"
      "live_regions (?s1\<lparr>mem := m2\<rparr>) (A(c \<mapsto> 4096, f \<mapsto> 4096))" "avail ?s1 = Suc (avail (?s1\<lparr>mem := m2\<rparr>))" by metis
  let ?s2 = "s\<lparr>mem := m2, streams := (streams s)(c := new_stream, f := new_stream)\<rparr>"
  have "live_regions ?s2 (A(c \<mapsto> 4096, f \<mapsto> 4096))" "0 < avail ?s2" and a2: "avail ?s2 = avail (?s1\<lparr>mem := m2\<rparr>)"
    using f(4,5) c(5) a1 av by (simp_all add: heap_same[of ?s2 "?s1\<lparr>mem := m2\<rparr>"])
  from diskstreamer_new_ok[OF this(1,2)] obtain e m3 where e: "diskstreamer_new 0 ?s2 =
      (e, ?s2\<lparr>mem := m3, streams := (streams ?s2)(e := new_stream)\<rparr>)" "e \<noteq> 0" "(A(c \<mapsto> 4096, f \<mapsto> 4096)) e = None"
      "live_regions (?s2\<lparr>mem := m3\<rparr>) (A(c \<mapsto> 4096, f \<mapsto> 4096, e \<mapsto> 4096))" "avail ?s2 = Suc (avail (?s2\<lparr>mem := m3\<rparr>))" by metis
  have h3: "live_regions (s\<lparr>mem := m3\<rparr>) B = live_regions (?s2\<lparr>mem := m3\<rparr>) B" "avail (s\<lparr>mem := m3\<rparr>) = avail (?s2\<lparr>mem := m3\<rparr>)" for B
    by (simp_all add: heap_same[of "s\<lparr>mem := m3\<rparr>" "?s2\<lparr>mem := m3\<rparr>"])
  show thesis
  proof (rule that[where m = m3 and c = c and f = f and e = e])
    show "fat16_init_private private s =
      s\<lparr>mem := m3, streams := (streams s)(c := new_stream, f := new_stream, e := new_stream),
        privates := (privates s)(private := zero_private\<lparr>cluster_read_stream := c, fat_read_stream := f, directory_stream := e\<rparr>)\<rparr>"
      using c(1) f(1) e(1) disk by (simp add: fat16_init_private_def)
  qed (use c f e a1 a2 h3 in \<open>auto split: if_splits\<close>)
qed


text \<open>The root directory of the image, read into the heap.\<close>

definition root_of :: "(nat \<Rightarrow> u8) \<Rightarrow> nat \<Rightarrow> addr \<Rightarrow> fat_directory" where
  "root_of img k items = \<lparr>dir_item = items, total_items = int (root_count img k),
     sector_position = int (root_sector img),
     ending_sector_position = int (root_sector img) + int (root_bytes img div 512)\<rparr>"

definition root_entries_of :: "(nat \<Rightarrow> u8) \<Rightarrow> fat_directory_item list" where
  "root_entries_of img = fat_items_of_bytes (map (\<lambda>i. img (512 * root_sector img + i)) [0..<root_bytes img])"

definition root_blocks :: "(nat \<Rightarrow> u8) \<Rightarrow> nat" where
  "root_blocks img = blocks_for (of_nat (root_bytes img))"

lemma root_directory_ok:
  assumes live: "live_regions s A" and img: "holds_image d img" "root_ends img k"
    and disk: "fs_private (the_disk s) = private" "sector_size (the_disk s) = 512"
    and priv: "header (privates s private) = fat_h_of_bytes (map img [0..<62])"
      "directory_stream (privates s private) = e" "stream_disk (streams s e) = Some ()"
    and room: "room_for s 0 (root_blocks img)"
  obtains items m x io where "fat16_get_root_directory d private s =
      Some (0, s\<lparr>mem := m, disk_ports := io, streams := (streams s)(e := (streams s e)\<lparr>position := x\<rparr>),
        dir_items := (dir_items s)(items := root_entries_of img),
        privates := (privates s)(private := (privates s private)\<lparr>root_directory := root_of img k items\<rparr>)\<rparr>)"
    "items \<noteq> 0" "A items = None" "live_regions (s\<lparr>mem := m\<rparr>) (A(items \<mapsto> root_blocks img * 4096))"
    "avail s = avail (s\<lparr>mem := m\<rparr>) + root_blocks img"
proof -
  let ?R = "root_sector img" and ?n = "root_bytes img"
  note ends = img(2)[unfolded root_ends_def]
  note hd = boot_header[OF refl, of img]
  have pos: "sint (word_of_int (int ?R) * word_of_int 512 :: u32) = int (512 * ?R)"
  proof -
    have "word_of_int (int ?R) * word_of_int 512 = (of_nat (512 * ?R) :: u32)" by (simp add: mult.commute)
    then show ?thesis using sint_of_nat32[of "512 * ?R"] ends by (simp only:) simp
  qed
  have sd: "stream_disk (streams s e) = Some ()" by (rule priv(3))
  let ?s0 = "diskstreamer_seek e (int (512 * ?R)) s"
  have sk: "position (streams ?s0 e) = int (512 * ?R)" "stream_disk (streams ?s0 e) = Some ()"
    using sd by (simp_all add: diskstreamer_seek_def)
  from total_items_loop_counts[OF img(1) sk, of k 0] ends obtain x1 io1 where
    cnt: "total_items_loop d e 0 ?s0 = Some (int (root_count img k),
       ?s0\<lparr>streams := (streams ?s0)(e := (streams ?s0 e)\<lparr>position := x1\<rparr>), disk_ports := io1\<rparr>)"
    unfolding root_count_def by auto
  let ?s1 = "s\<lparr>streams := (streams s)(e := (streams s e)\<lparr>position := x1\<rparr>), disk_ports := io1\<rparr>"
  have s1: "fat16_get_total_items_for_directory d (int ?R) s = Some (int (root_count img k), ?s1)"
    using cnt disk priv(2) pos
    by (simp add: fat16_get_total_items_for_directory_def disk_private_def Let_def diskstreamer_seek_def)
  obtain items s2 where c: "kzalloc ?s1 (of_nat ?n) = (items, s2)" by fastforce
  have n: "unat (of_nat ?n :: u32) = ?n" using root_bytes_less[of img] by (intro unat_of_nat32) simp
  have h1: "live_regions ?s1 A" "avail ?s1 = avail s" "room_for ?s1 0 (root_blocks img)"
    using live room heap_same[of ?s1 s] by simp_all
  have sz: "0 < unat (of_nat ?n :: u32)" "unat (of_nat ?n :: u32) \<le> 4294963200"
    using ends root_bytes_less[of img] unfolding n by simp_all
  note a = alloc_blocks[OF h1(1) sz h1(3)[unfolded root_blocks_def] c, folded root_blocks_def]
  obtain m where m: "s2 = ?s1\<lparr>mem := m\<rparr>" using a(6) by blast
  let ?s3 = "diskstreamer_seek e (int (512 * ?R)) s2"
  have "stream_disk (streams s2 e) = Some ()" using sd by (simp add: m)
  from seek_read_image[OF img(1) this, of "512 * ?R" ?n] ends obtain io2 where
    rd: "diskstreamer_read d e (int ?n) ?s3 = Some (Inr (), map (\<lambda>i. img (512 * ?R + i)) [0..<?n],
       s2\<lparr>streams := (streams s2)(e := (streams s2 e)\<lparr>position := int (512 * ?R + ?n)\<rparr>), disk_ports := io2\<rparr>)"
    by blast
  have w: "word_of_int (int ?n) = (of_nat ?n :: u32)" by simp
  have q: "int ?n sdiv 512 = int (?n div 512)" by (simp add: sdiv_nonneg zdiv_int)
  have h2: "live_regions (s\<lparr>mem := m\<rparr>) B = live_regions s2 B" "avail (s\<lparr>mem := m\<rparr>) = avail s2" for B
    using heap_same[of "s\<lparr>mem := m\<rparr>" s2] by (simp_all add: m)
  show thesis
  proof (rule that[where items = items and m = m and x = "int (512 * ?R + ?n)" and io = io2])
    have hp: "header (privates s private) = fat_h_of_bytes (map img [0..<62])" by (rule priv(1))
    have ab: "fat16_sector_to_absolute s2 (int ?R) = int (512 * ?R)"
      using disk(2) by (simp add: fat16_sector_to_absolute_def m)
    have dp: "directory_stream (privates s2 private) = e" using priv(2) by (simp add: m)
    show "fat16_get_root_directory d private s =
      Some (0, s\<lparr>mem := m, disk_ports := io2, streams := (streams s)(e := (streams s e)\<lparr>position := int (512 * ?R + ?n)\<rparr>),
        dir_items := (dir_items s)(items := root_entries_of img),
        privates := (privates s)(private := (privates s private)\<lparr>root_directory := root_of img k items\<rparr>)\<rparr>)"
      unfolding fat16_get_root_directory_def Let_def hp hd(1,2) s1 w
      using c a(1) ab dp rd disk(2) q
      by (simp add: root_of_def root_entries_of_def m del: of_nat_add of_nat_mult)
    show "items \<noteq> 0" "A items = None" by (rule a(1), rule a(3))
    show "live_regions (s\<lparr>mem := m\<rparr>) (A(items \<mapsto> root_blocks img * 4096))" using a(4) h2 by simp
    show "avail s = avail (s\<lparr>mem := m\<rparr>) + root_blocks img" using a(5) h1(2) h2(2) by simp
  qed
qed

text \<open>The first half of \<^verbatim>\<open>fat16_resolve\<close>: the private data and four streams are made and the header is read.\<close>

lemma resolve_header:
  assumes live: "live_regions s A" and av: "5 \<le> avail s" and img: "holds_image d img"
    and disk: "disk_id (the_disk s) = 0"
  obtains pv c f e st m S io t where
    "t = s\<lparr>mem := m, disk_ports := io, streams := S,
       the_disk := (the_disk s)\<lparr>fs_private := pv, filesystem := fs\<rparr>,
       privates := (privates s)(pv := zero_private\<lparr>cluster_read_stream := c, fat_read_stream := f,
         directory_stream := e, header := fat_h_of_bytes (map img [0..<62])\<rparr>)\<rparr>"
    "fat16_resolve d fs s =
       do {
         (response, s) \<leftarrow>
           (if img 38 \<noteq> 0x29 then Some (- errno EFSNOTUS, t)
            else do {
              (r, s) \<leftarrow> fat16_get_root_directory d pv t;
              Some (if r \<noteq> 0 then - errno EIO else 0, s)
            });
         let s = kfree s st;
         Some (response,
           if response < 0 then (kfree s pv)\<lparr>the_disk := (the_disk s)\<lparr>fs_private := 0\<rparr>\<rparr> else s)
       }"
    "distinct [pv, c, f, e, st, 0]" "A pv = None" "A c = None" "A f = None" "A e = None" "A st = None"
    "live_regions t (A(pv \<mapsto> 4096, c \<mapsto> 4096, f \<mapsto> 4096, e \<mapsto> 4096, st \<mapsto> 4096))" "avail s = avail t + 5"
    "\<forall>x \<in> {c, f, e}. stream_disk (S x) = Some ()"
proof -
  obtain pv s0 where z: "kzalloc s 92 = (pv, s0)" by fastforce
  obtain m0 where m0: "s0 = s\<lparr>mem := m0\<rparr>" using kzalloc_only_mem[OF z] by blast
  have sz: "0 < unat (92 :: u32)" "unat (92 :: u32) \<le> 4096" "0 < avail s" using av by simp_all
  note law = kpages.alloc_page[OF live sz z]
  have l0: "live_regions s0 (A(pv \<mapsto> 4096))" "3 \<le> avail s0" "disk_id (the_disk s0) = 0"
    using law av disk m0 by auto
  obtain c f e m1 where i: "fat16_init_private pv s0 =
      s0\<lparr>mem := m1, streams := (streams s0)(c := new_stream, f := new_stream, e := new_stream),
        privates := (privates s0)(pv := zero_private\<lparr>cluster_read_stream := c, fat_read_stream := f, directory_stream := e\<rparr>)\<rparr>"
    "distinct [c, f, e, 0]" "(A(pv \<mapsto> 4096)) c = None" "(A(pv \<mapsto> 4096)) f = None" "(A(pv \<mapsto> 4096)) e = None"
    "live_regions (s0\<lparr>mem := m1\<rparr>) (A(pv \<mapsto> 4096, c \<mapsto> 4096, f \<mapsto> 4096, e \<mapsto> 4096))" "avail s0 = avail (s0\<lparr>mem := m1\<rparr>) + 3"
    by (rule fat16_init_private_ok[OF l0]) (rule that)
  let ?S1 = "(streams s)(c := new_stream, f := new_stream, e := new_stream)"
  let ?D = "(the_disk s)\<lparr>fs_private := pv, filesystem := fs\<rparr>"
  let ?P1 = "(privates s)(pv := zero_private\<lparr>cluster_read_stream := c, fat_read_stream := f, directory_stream := e\<rparr>)"
  let ?s2 = "s\<lparr>mem := m1, streams := ?S1, privates := ?P1, the_disk := ?D\<rparr>"
  have h2: "live_regions ?s2 (A(pv \<mapsto> 4096, c \<mapsto> 4096, f \<mapsto> 4096, e \<mapsto> 4096))" "0 < avail ?s2"
    and a2: "avail s0 = avail ?s2 + 3"
    using i(6,7) law av m0 heap_same[of ?s2 "s0\<lparr>mem := m1\<rparr>"] by auto
  obtain st m2 where n: "diskstreamer_new 0 ?s2 = (st, ?s2\<lparr>mem := m2, streams := (streams ?s2)(st := new_stream)\<rparr>)"
    "st \<noteq> 0" "(A(pv \<mapsto> 4096, c \<mapsto> 4096, f \<mapsto> 4096, e \<mapsto> 4096)) st = None"
    "live_regions (?s2\<lparr>mem := m2\<rparr>) (A(pv \<mapsto> 4096, c \<mapsto> 4096, f \<mapsto> 4096, e \<mapsto> 4096, st \<mapsto> 4096))"
    "avail ?s2 = Suc (avail (?s2\<lparr>mem := m2\<rparr>))"
    by (rule diskstreamer_new_ok[OF h2]) (rule that)
  let ?s3 = "?s2\<lparr>mem := m2, streams := ?S1(st := new_stream)\<rparr>"
  have "position (streams ?s3 st) = int 0" "stream_disk (streams ?s3 st) = Some ()" by simp_all
  from read_image[OF img this, of 62] obtain io where rd: "diskstreamer_read d st (int 62) ?s3 =
     Some (Inr (), map (\<lambda>i. img (0 + i)) [0..<62],
       ?s3\<lparr>streams := (streams ?s3)(st := (streams ?s3 st)\<lparr>position := int (0 + 62)\<rparr>), disk_ports := io\<rparr>)"
    by auto
  let ?S = "?S1(st := \<lparr>position = 62, stream_disk = Some ()\<rparr>)"
  let ?t = "s\<lparr>mem := m2, disk_ports := io, streams := ?S, the_disk := ?D,
       privates := (privates s)(pv := zero_private\<lparr>cluster_read_stream := c, fat_read_stream := f,
         directory_stream := e, header := fat_h_of_bytes (map img [0..<62])\<rparr>)\<rparr>"
  have hd: "signature (extended_header (fat_h_of_bytes (map img [0..<62]))) = img 38" by (rule boot_header(3)[OF refl])
  have dist: "distinct [pv, c, f, e, st, 0]" using law i(2-5) n(2,3) by (auto split: if_splits)
  have rd': "diskstreamer_read d st 62 ?s3 = Some (Inr (), map img [0..<62],
       ?s3\<lparr>streams := ?S, disk_ports := io\<rparr>)" using rd by simp
  have i': "fat16_init_private pv s0 = s\<lparr>mem := m1, streams := ?S1, privates := ?P1\<rparr>" using i(1) by (simp add: m0)
  have n': "diskstreamer_new 0 ?s2 = (st, ?s3)" using n(1) by simp
  obtain t where t: "t = ?t" by blast
  have t3: "?s3\<lparr>streams := ?S, disk_ports := io, privates := (privates ?s3)(pv :=
      (privates ?s3 pv)\<lparr>header := fat_h_of_bytes (map img [0..<62])\<rparr>)\<rparr> = t"
    unfolding t by (cases s) simp
  show thesis
  proof (rule that[OF t])
    show "fat16_resolve d fs s =
       do {
         (response, s) \<leftarrow>
           (if img 38 \<noteq> 0x29 then Some (- errno EFSNOTUS, t)
            else do {
              (r, s) \<leftarrow> fat16_get_root_directory d pv t;
              Some (if r \<noteq> 0 then - errno EIO else 0, s)
            });
         let s = kfree s st;
         Some (response,
           if response < 0 then (kfree s pv)\<lparr>the_disk := (the_disk s)\<lparr>fs_private := 0\<rparr>\<rparr> else s)
       }"
      unfolding fat16_resolve_def z i' Let_def prod.case
      using n' rd' n(2) hd disk t3 by (simp add: diskstreamer_close_def cong: if_cong prod.case_cong)
    show "distinct [pv, c, f, e, st, 0]" by (rule dist)
    show "A pv = None" "A c = None" "A f = None" "A e = None" "A st = None"
      using law i(3-5) n(3) by (auto split: if_splits)
    have "mem t = mem (?s2\<lparr>mem := m2\<rparr>)" "kernel_heap t = kernel_heap (?s2\<lparr>mem := m2\<rparr>)" by (simp_all add: t)
    note h = heap_same[OF this]
    show "live_regions t (A(pv \<mapsto> 4096, c \<mapsto> 4096, f \<mapsto> 4096, e \<mapsto> 4096, st \<mapsto> 4096))" using n(4) h by simp
    show "avail s = avail t + 5" using law a2 n(5) h by simp
    show "\<forall>x \<in> {c, f, e}. stream_disk (?S x) = Some ()" by simp
  qed
qed

text \<open>The disk's private data describe the volume of the image.\<close>

definition volume_mounted :: "'z fat_state_scheme \<Rightarrow> (nat \<Rightarrow> u8) \<Rightarrow> nat \<Rightarrow> bool" where
  "volume_mounted s img k \<longleftrightarrow>
     (let p = disk_private s; items = dir_item (root_directory p)
      in header p = fat_h_of_bytes (map img [0..<62]) \<and> items \<noteq> 0 \<and> root_directory p = root_of img k items \<and>
         dir_items s items = root_entries_of img \<and>
         (\<forall>x \<in> {cluster_read_stream p, fat_read_stream p, directory_stream p}. x \<noteq> 0 \<and> stream_disk (streams s x) = Some ()))"

lemma kfree_only_mem: "\<exists>m. kfree s p = s\<lparr>mem := m\<rparr>"
  by (auto simp: kfree_def)

lemma fat16_resolve_image:
  assumes live: "live_regions s A" and room: "room_for s 5 (root_blocks img)" and img: "holds_image d img"
    and disk: "disk_id (the_disk s) = 0" "sector_size (the_disk s) = 512"
    and ends: "img 38 = 0x29 \<Longrightarrow> root_ends img k"
  obtains s' A' m io S di P D where
    "fat16_resolve d fs s = Some (if img 38 = 0x29 then 0 else - errno EFSNOTUS, s')"
    "s' = s\<lparr>mem := m, disk_ports := io, streams := S, dir_items := di, privates := P, the_disk := D\<rparr>"
    "live_regions s' A'" "A \<subseteq>\<^sub>m A'" "avail s = avail s' + (if img 38 = 0x29 then 4 + root_blocks img else 3)"
    "if img 38 = 0x29 then D = (the_disk s)\<lparr>fs_private := fs_private D, filesystem := fs\<rparr> \<and> fs_private D \<noteq> 0 \<and> volume_mounted s' img k
     else D = (the_disk s)\<lparr>fs_private := 0, filesystem := fs\<rparr>"
proof -
  have "5 \<le> avail s" using room by (simp add: room_for_def)
  then obtain pv c f e st m S io t where h: "t = s\<lparr>mem := m, disk_ports := io, streams := S,
       the_disk := (the_disk s)\<lparr>fs_private := pv, filesystem := fs\<rparr>,
       privates := (privates s)(pv := zero_private\<lparr>cluster_read_stream := c, fat_read_stream := f,
         directory_stream := e, header := fat_h_of_bytes (map img [0..<62])\<rparr>)\<rparr>"
    "fat16_resolve d fs s =
       do {
         (response, s) \<leftarrow>
           (if img 38 \<noteq> 0x29 then Some (- errno EFSNOTUS, t)
            else do {
              (r, s) \<leftarrow> fat16_get_root_directory d pv t;
              Some (if r \<noteq> 0 then - errno EIO else 0, s)
            });
         let s = kfree s st;
         Some (response,
           if response < 0 then (kfree s pv)\<lparr>the_disk := (the_disk s)\<lparr>fs_private := 0\<rparr>\<rparr> else s)
       }"
    "distinct [pv, c, f, e, st, 0]" "A pv = None" "A c = None" "A f = None" "A e = None" "A st = None"
    "live_regions t (A(pv \<mapsto> 4096, c \<mapsto> 4096, f \<mapsto> 4096, e \<mapsto> 4096, st \<mapsto> 4096))" "avail s = avail t + 5"
    "\<forall>x \<in> {c, f, e}. stream_disk (S x) = Some ()"
    by (rule resolve_header[OF live _ img disk(1)]) (rule that)
  let ?B = "A(pv \<mapsto> 4096, c \<mapsto> 4096, f \<mapsto> 4096, e \<mapsto> 4096, st \<mapsto> 4096)"
  show thesis
  proof (cases "img 38 = 0x29")
    case False
    let ?u = "kfree t st"
    have "?B st = Some 4096" by simp
    note r1 = kpages.release_live[OF h(9) this]
    have "(?B(st := None)) pv = Some 4096" using h(3) by auto
    note r2 = kpages.release_live[OF conjunct1[OF r1] this]
    obtain m' where m': "kfree ?u pv = t\<lparr>mem := m'\<rparr>"
      using kfree_only_mem[of t st] kfree_only_mem[of ?u pv] by auto
    let ?D = "(the_disk s)\<lparr>fs_private := 0, filesystem := fs\<rparr>"
    have t_u: "the_disk ?u = the_disk t" using kfree_only_mem[of t st] by auto
    define s' where "s' = (kfree ?u pv)\<lparr>the_disk := (the_disk ?u)\<lparr>fs_private := 0\<rparr>\<rparr>"
    have hs: "mem s' = mem (kfree ?u pv)" "kernel_heap s' = kernel_heap (kfree ?u pv)" by (simp_all add: s'_def)
    note live' = heap_same[OF hs]
    show thesis
    proof (rule that[where s' = s' and A' = "?B(st := None, pv := None)" and m = m' and io = io and S = S and di = "dir_items s"
          and P = "privates t" and D = ?D])
      show "fat16_resolve d fs s = Some (if img 38 = 0x29 then 0 else - errno EFSNOTUS, s')"
        using h(2) False by (simp add: s'_def Let_def)
      show "s' = s\<lparr>mem := m', disk_ports := io, streams := S, dir_items := dir_items s, privates := privates t, the_disk := ?D\<rparr>"
        unfolding s'_def t_u m' unfolding h(1) by (cases s) simp
      show "live_regions s' (?B(st := None, pv := None))"
        using conjunct1[OF r2] unfolding live'(1) .
      show "A \<subseteq>\<^sub>m ?B(st := None, pv := None)" using h(4-8) by (auto simp: map_le_def)
      show "avail s = avail s' + (if img 38 = 0x29 then 4 + root_blocks img else 3)"
        using r1 r2 h(10) live'(2) False by simp
    qed (use False in simp)
  next
    case True
    have dt: "fs_private (the_disk t) = pv" "sector_size (the_disk t) = 512"
      "header (privates t pv) = fat_h_of_bytes (map img [0..<62])" "directory_stream (privates t pv) = e"
      "stream_disk (streams t e) = Some ()"
      using disk(2) h(11) by (simp_all add: h(1))
    have room_t: "room_for t 0 (root_blocks img)"
      using room_for_less[OF room, of t 5] h(1,10) by simp
    obtain items m1 x io1 where g: "fat16_get_root_directory d pv t =
      Some (0, t\<lparr>mem := m1, disk_ports := io1, streams := (streams t)(e := (streams t e)\<lparr>position := x\<rparr>),
        dir_items := (dir_items t)(items := root_entries_of img),
        privates := (privates t)(pv := (privates t pv)\<lparr>root_directory := root_of img k items\<rparr>)\<rparr>)"
      "items \<noteq> 0" "?B items = None" "live_regions (t\<lparr>mem := m1\<rparr>) (?B(items \<mapsto> root_blocks img * 4096))"
      "avail t = avail (t\<lparr>mem := m1\<rparr>) + root_blocks img"
      by (rule root_directory_ok[OF h(9) img ends[OF True] dt room_t]) (rule that)
    let ?v = "t\<lparr>mem := m1, disk_ports := io1, streams := (streams t)(e := (streams t e)\<lparr>position := x\<rparr>),
        dir_items := (dir_items t)(items := root_entries_of img),
        privates := (privates t)(pv := (privates t pv)\<lparr>root_directory := root_of img k items\<rparr>)\<rparr>"
    have "mem ?v = mem (t\<lparr>mem := m1\<rparr>)" "kernel_heap ?v = kernel_heap (t\<lparr>mem := m1\<rparr>)" by simp_all
    note hv = heap_same[OF this]
    have lv: "live_regions ?v (?B(items \<mapsto> root_blocks img * 4096))" using g(4) hv by simp
    have "(?B(items \<mapsto> root_blocks img * 4096)) st = Some 4096" using g(3) by auto
    note r = kpages.release_live[OF lv this]
    obtain m' where m': "kfree ?v st = ?v\<lparr>mem := m'\<rparr>" using kfree_only_mem[of ?v st] by blast
    let ?D = "(the_disk s)\<lparr>fs_private := pv, filesystem := fs\<rparr>"
    show thesis
    proof (rule that[where s' = "kfree ?v st" and A' = "?B(items \<mapsto> root_blocks img * 4096, st := None)" and m = m' and io = io1
          and S = "streams ?v" and di = "dir_items ?v" and P = "privates ?v" and D = ?D])
      show "fat16_resolve d fs s = Some (if img 38 = 0x29 then 0 else - errno EFSNOTUS, kfree ?v st)"
        using h(2) g(1) True by (simp add: Let_def)
      show "kfree ?v st = s\<lparr>mem := m', disk_ports := io1, streams := streams ?v, dir_items := dir_items ?v, privates := privates ?v, the_disk := ?D\<rparr>"
        unfolding m' unfolding h(1) by (cases s) simp
      show "live_regions (kfree ?v st) (?B(items \<mapsto> root_blocks img * 4096, st := None))"
        by (rule conjunct1[OF r])
      show "A \<subseteq>\<^sub>m ?B(items \<mapsto> root_blocks img * 4096, st := None)"
        using h(4-8) g(3) by (auto simp: map_le_def split: if_splits)
      show "avail s = avail (kfree ?v st) + (if img 38 = 0x29 then 4 + root_blocks img else 3)"
        using r h(10) g(5) hv(2) True by simp
      have vm: "volume_mounted (kfree ?v st) img k"
        using h(3,11) g(2) unfolding m' by (auto simp: volume_mounted_def h(1) disk_private_def root_of_def Let_def)
      have "pv \<noteq> 0" using h(3) by auto
      with vm True show "if img 38 = 0x29 then ?D = (the_disk s)\<lparr>fs_private := fs_private ?D, filesystem := fs\<rparr> \<and>
          fs_private ?D \<noteq> 0 \<and> volume_mounted (kfree ?v st) img k else ?D = (the_disk s)\<lparr>fs_private := 0, filesystem := fs\<rparr>"
        by simp
    qed
  qed
qed

end
