(* ===== verification/Boi_File.thy ===== *)
theory Boi_File
  imports Boi_Fat16
begin

text \<open>
  The file layer (\<^verbatim>\<open>src/src/fs/file.c\<close>): the table of file systems, the table of open
  files and the operations that dispatch to the file system of a disk, and
  \<^verbatim>\<open>disk_search_and_init\<close> of \<^verbatim>\<open>src/src/disk/disk.c\<close>, which mounts the disk.
\<close>

subsection \<open>Tables\<close>

abbreviation BOIOS_MAX_FILESYSTEMS :: nat where "BOIOS_MAX_FILESYSTEMS \<equiv> 12"
abbreviation BOIOS_MAX_FILE_DESCRIPTORS :: nat where "BOIOS_MAX_FILE_DESCRIPTORS \<equiv> 512"

text \<open>
  The function pointers of \<^verbatim>\<open>struct filesystem\<close>.  There is one disk, so the disk
  argument is left out; a result \<open>None\<close> is a call that does not return.
\<close>

record 's filesystem_ops =
  resolve_op :: "'s \<Rightarrow> (int \<times> 's) option"
  open_op :: "addr \<Rightarrow> file_mode \<Rightarrow> 's \<Rightarrow> (addr \<times> 's) option"
  read_op :: "addr \<Rightarrow> u32 \<Rightarrow> u32 \<Rightarrow> addr \<Rightarrow> 's \<Rightarrow> (int \<times> 's) option"
  seek_op :: "addr \<Rightarrow> u32 \<Rightarrow> u32 \<Rightarrow> 's \<Rightarrow> int \<times> 's"
  stat_op :: "addr \<Rightarrow> file_stat \<Rightarrow> 's \<Rightarrow> int \<times> file_stat"
  close_op :: "addr \<Rightarrow> 's \<Rightarrow> int \<times> 's"

record file_descriptor =
  fd_index :: int
  fd_filesystem :: addr
  fd_private :: addr
  fd_disk :: disk_ptr

record file_state = fat_state +
  fat16_name :: "u8 list"
  filesystems :: "addr list"
  file_descriptors :: "addr list"
  file_descs :: "addr \<Rightarrow> file_descriptor"

text \<open>The static \<^verbatim>\<open>fat16_fs\<close>; \<open>tmp\<close> is the stack buffer of its directory search.\<close>

definition fat16_filesystem :: "ata \<Rightarrow> addr \<Rightarrow> addr \<Rightarrow> ('z file_state_scheme) filesystem_ops" where
  "fat16_filesystem d tmp fat16_fs =
     \<lparr>resolve_op = fat16_resolve d fat16_fs, open_op = fat16_open d tmp, read_op = fat16_read d,
      seek_op = fat16_seek, stat_op = fat16_stat, close_op = fat16_close\<rparr>"

definition fat16_init :: "addr \<Rightarrow> 'z file_state_scheme \<Rightarrow> addr \<times> 'z file_state_scheme" where
  "fat16_init fat16_fs s = (fat16_fs, s\<lparr>fat16_name := [70, 65, 84, 49, 54, 0]\<rparr>)"

subsection \<open>File systems\<close>

fun free_slot :: "addr list \<Rightarrow> nat \<Rightarrow> nat option" where
  "free_slot [] i = None"
| "free_slot (p # ps) i = (if p = 0 then Some i else free_slot ps (i + 1))"

definition fs_get_free_filesystem :: "'z file_state_scheme \<Rightarrow> nat option" where
  "fs_get_free_filesystem s = free_slot (filesystems s) 0"

text \<open>A full table stops the kernel: \<open>None\<close>.\<close>

definition fs_insert_filesystem :: "addr \<Rightarrow> 'z file_state_scheme \<Rightarrow> 'z file_state_scheme option" where
  "fs_insert_filesystem fs s =
     (case fs_get_free_filesystem s of
        None \<Rightarrow> None
      | Some i \<Rightarrow> Some (s\<lparr>filesystems := (filesystems s)[i := fs]\<rparr>))"

definition fs_static_load :: "addr \<Rightarrow> 'z file_state_scheme \<Rightarrow> 'z file_state_scheme option" where
  "fs_static_load fat16_fs s = (let (fs, s) = fat16_init fat16_fs s in fs_insert_filesystem fs s)"

definition fs_load :: "addr \<Rightarrow> 'z file_state_scheme \<Rightarrow> 'z file_state_scheme option" where
  "fs_load fat16_fs s = fs_static_load fat16_fs s"

definition fs_init :: "addr \<Rightarrow> 'z file_state_scheme \<Rightarrow> 'z file_state_scheme option" where
  "fs_init fat16_fs s =
     fs_load fat16_fs (s\<lparr>filesystems := replicate BOIOS_MAX_FILESYSTEMS 0,
       file_descriptors := replicate BOIOS_MAX_FILE_DESCRIPTORS 0\<rparr>)"

fun fs_resolve_loop ::
    "(addr \<Rightarrow> ('z file_state_scheme) filesystem_ops) \<Rightarrow> nat \<Rightarrow> nat \<Rightarrow> 'z file_state_scheme \<Rightarrow>
     (addr \<times> 'z file_state_scheme) option" where
  "fs_resolve_loop ops i 0 s = Some (0, s)"
| "fs_resolve_loop ops i (Suc n) s =
     (let fs = filesystems s ! i
      in if fs \<noteq> 0
         then (case resolve_op (ops fs) s of
                 None \<Rightarrow> None
               | Some (r, s) \<Rightarrow> if r = 0 then Some (filesystems s ! i, s) else fs_resolve_loop ops (i + 1) n s)
         else fs_resolve_loop ops (i + 1) n s)"

definition fs_resolve ::
    "(addr \<Rightarrow> ('z file_state_scheme) filesystem_ops) \<Rightarrow> 'z file_state_scheme \<Rightarrow>
     (addr \<times> 'z file_state_scheme) option" where
  "fs_resolve ops s = fs_resolve_loop ops 0 BOIOS_MAX_FILESYSTEMS s"

definition disk_search_and_init ::
    "(addr \<Rightarrow> ('z file_state_scheme) filesystem_ops) \<Rightarrow> 'z file_state_scheme \<Rightarrow>
     'z file_state_scheme option" where
  "disk_search_and_init ops s =
     (let s = s\<lparr>the_disk := \<lparr>disk_type = 0, sector_size = 512, disk_id = 0, filesystem = 0, fs_private = 0\<rparr>\<rparr>
      in case fs_resolve ops s of
           None \<Rightarrow> None
         | Some (fs, s) \<Rightarrow> Some (s\<lparr>the_disk := (the_disk s)\<lparr>filesystem := fs\<rparr>\<rparr>))"

subsection \<open>Descriptors\<close>

text \<open>As in the source the result of \<^verbatim>\<open>kzalloc\<close> is not checked.\<close>

definition file_new_descriptor ::
    "'z file_state_scheme \<Rightarrow> (kerror + addr) \<times> 'z file_state_scheme" where
  "file_new_descriptor s =
     (case free_slot (file_descriptors s) 0 of
        None \<Rightarrow> (Inl ENOMEM, s)
      | Some i \<Rightarrow>
          let (desc, s) = kzalloc s 16;
              d = \<lparr>fd_index = int i + 1, fd_filesystem = 0, fd_private = 0, fd_disk = None\<rparr>
          in (Inr desc, s\<lparr>file_descs := (file_descs s)(desc := d),
                file_descriptors := (file_descriptors s)[i := desc]\<rparr>))"

definition file_get_descriptor :: "int \<Rightarrow> 'z file_state_scheme \<Rightarrow> addr" where
  "file_get_descriptor fd s =
     (if fd \<le> 0 \<or> fd \<ge> int BOIOS_MAX_FILE_DESCRIPTORS then 0
      else file_descriptors s ! nat (fd - 1))"

definition file_free_descriptor :: "addr \<Rightarrow> 'z file_state_scheme \<Rightarrow> 'z file_state_scheme" where
  "file_free_descriptor desc s =
     kfree (s\<lparr>file_descriptors := (file_descriptors s)[nat (fd_index (file_descs s desc) - 1) := 0]\<rparr>) desc"

text \<open>
  The mode is the first character of the string: \<^verbatim>\<open>strncmp\<close> with count 1 compares one
  byte with the literal's (\<open>strncmp_one\<close>).
\<close>

definition file_get_mode_by_string :: "memory \<Rightarrow> addr \<Rightarrow> file_mode" where
  "file_get_mode_by_string m str =
     (if m str = 114 then FILE_MODE_READ
      else if m str = 119 then FILE_MODE_WRITE
      else if m str = 97 then FILE_MODE_APPEND
      else FILE_MODE_INVALID)"

subsection \<open>File operations\<close>

definition fopen ::
    "(addr \<Rightarrow> ('z file_state_scheme) filesystem_ops) \<Rightarrow> addr \<Rightarrow> addr \<Rightarrow> 'z file_state_scheme \<Rightarrow>
     (int \<times> 'z file_state_scheme) option" where
  "fopen ops filename mode_str s =
     (case pathparser_parse s filename of
        None \<Rightarrow> None
      | Some (root_path, s) \<Rightarrow>
          if root_path = 0 then Some (0, s)
          else if read32 (mem s) (root_path + 4) = 0 then Some (0, s)
          else if disk_get (sint (read32 (mem s) root_path)) = None then Some (0, s)
          else if filesystem (the_disk s) = 0 then Some (0, s)
          else
            let mode = file_get_mode_by_string (mem s) mode_str
            in if mode = FILE_MODE_INVALID then Some (0, s)
               else case open_op (ops (filesystem (the_disk s))) (read32 (mem s) (root_path + 4)) mode s of
                 None \<Rightarrow> None
               | Some (private, s) \<Rightarrow>
                   if ISERR private then Some (0, s)
                   else case file_new_descriptor s of
                     (Inl _, s) \<Rightarrow> Some (0, s)
                   | (Inr desc, s) \<Rightarrow>
                       let dr = (file_descs s desc)\<lparr>fd_filesystem := filesystem (the_disk s),
                                  fd_private := private, fd_disk := Some ()\<rparr>
                       in Some (fd_index dr, s\<lparr>file_descs := (file_descs s)(desc := dr)\<rparr>))"

definition fstat ::
    "(addr \<Rightarrow> ('z file_state_scheme) filesystem_ops) \<Rightarrow> int \<Rightarrow> file_stat \<Rightarrow> 'z file_state_scheme \<Rightarrow>
     int \<times> file_stat" where
  "fstat ops fd stat s =
     (let desc = file_get_descriptor fd s
      in if desc = 0 then (- errno EIO, stat)
         else stat_op (ops (fd_filesystem (file_descs s desc))) (fd_private (file_descs s desc)) stat s)"

definition fseek ::
    "(addr \<Rightarrow> ('z file_state_scheme) filesystem_ops) \<Rightarrow> int \<Rightarrow> int \<Rightarrow> u32 \<Rightarrow> 'z file_state_scheme \<Rightarrow>
     int \<times> 'z file_state_scheme" where
  "fseek ops fd offset whence s =
     (let desc = file_get_descriptor fd s
      in if desc = 0 then (- errno EIO, s)
         else seek_op (ops (fd_filesystem (file_descs s desc))) (fd_private (file_descs s desc))
                (word_of_int offset) whence s)"

definition fread ::
    "(addr \<Rightarrow> ('z file_state_scheme) filesystem_ops) \<Rightarrow> addr \<Rightarrow> u32 \<Rightarrow> u32 \<Rightarrow> int \<Rightarrow> 'z file_state_scheme \<Rightarrow>
     (int \<times> 'z file_state_scheme) option" where
  "fread ops ptr sz nmemb fd s =
     (if sz = 0 \<or> nmemb = 0 \<or> fd < 1 then Some (- errno EINVARG, s)
      else
        let desc = file_get_descriptor fd s
        in if desc = 0 then Some (- errno EINVARG, s)
           else read_op (ops (fd_filesystem (file_descs s desc))) (fd_private (file_descs s desc))
                  sz nmemb ptr s)"

definition fclose ::
    "(addr \<Rightarrow> ('z file_state_scheme) filesystem_ops) \<Rightarrow> int \<Rightarrow> 'z file_state_scheme \<Rightarrow>
     int \<times> 'z file_state_scheme" where
  "fclose ops fd s =
     (let desc = file_get_descriptor fd s
      in if desc = 0 then (- errno EIO, s)
         else
           let (response, s) = close_op (ops (fd_filesystem (file_descs s desc)))
                                 (fd_private (file_descs s desc)) s
           in (response, if response = 0 then file_free_descriptor desc s else s))"

subsection \<open>What the file system must leave alone\<close>

definition file_tables :: "'z file_state_scheme \<Rightarrow> addr list \<times> addr list \<times> (addr \<Rightarrow> file_descriptor)" where
  "file_tables s = (filesystems s, file_descriptors s, file_descs s)"

named_theorems tables_simps

lemma file_tables_updates [tables_simps]:
  "file_tables (s\<lparr>mem := m\<rparr>) = file_tables s"
  "file_tables (s\<lparr>streams := st\<rparr>) = file_tables s"
  "file_tables (s\<lparr>disk_ports := io\<rparr>) = file_tables s"
  "file_tables (s\<lparr>privates := pv\<rparr>) = file_tables s"
  "file_tables (s\<lparr>the_disk := di\<rparr>) = file_tables s"
  "file_tables (s\<lparr>dir_items := it\<rparr>) = file_tables s"
  "file_tables (s\<lparr>directories := dr\<rparr>) = file_tables s"
  "file_tables (s\<lparr>fat_items := fi\<rparr>) = file_tables s"
  "file_tables (s\<lparr>descriptors := de\<rparr>) = file_tables s"
  "file_tables (s\<lparr>kernel_heap := h\<rparr>) = file_tables s"
  by (simp_all add: file_tables_def)

lemma kzalloc_tables [tables_simps]: "file_tables (snd (kzalloc s n)) = file_tables s"
  by (auto simp: kzalloc_def kmalloc_def file_tables_def Let_def split: prod.split)

lemma kzalloc_tables' : "kzalloc s n = (p, s') \<Longrightarrow> file_tables s' = file_tables s"
  using kzalloc_tables[of s n] by simp

lemma kfree_tables [tables_simps]: "file_tables (kfree s p) = file_tables s"
  by (simp add: kfree_def file_tables_def)

lemma streamer_tables [tables_simps]:
  "file_tables (diskstreamer_seek st p s) = file_tables s"
  "file_tables (diskstreamer_close st s) = file_tables s"
  "file_tables (snd (diskstreamer_new n s)) = file_tables s"
  by (auto simp: diskstreamer_seek_def diskstreamer_close_def diskstreamer_new_def tables_simps
      kzalloc_tables' Let_def split: option.splits prod.splits)

lemma diskstreamer_read_tables:
  "diskstreamer_read d st n s = Some (r, b, s') \<Longrightarrow> file_tables s' = file_tables s"
  by (auto simp: diskstreamer_read_def tables_simps)

lemma diskstreamer_new_tables': "diskstreamer_new n s = (p, s') \<Longrightarrow> file_tables s' = file_tables s"
  using streamer_tables(3)[of n s] by simp

text \<open>The operations of the driver change none of the tables of the file layer.\<close>

lemma total_items_tables:
  "total_items_loop d st i s = Some (r, s') \<Longrightarrow> file_tables s' = file_tables s"
proof -
  assume "total_items_loop d st i s = Some (r, s')"
  then have "file_tables (snd (r, s')) = file_tables s"
  proof (rule total_items_loop.raw_induct[rotated, where P = "\<lambda>d st i s y. file_tables (snd y) = file_tables s"], goal_cases)
    case (1 f d st i s y)
    from 1(2) show ?case
      by (auto simp: Let_def dest!: 1(1) diskstreamer_read_tables split: Option.bind_splits if_splits prod.splits)
  qed
  then show ?thesis by simp
qed

lemma get_total_items_tables:
  "fat16_get_total_items_for_directory d sec s = Some (r, s') \<Longrightarrow> file_tables s' = file_tables s"
  by (auto simp: fat16_get_total_items_for_directory_def Let_def tables_simps dest: total_items_tables)

lemma get_root_directory_tables:
  "fat16_get_root_directory d p s = Some (r, s') \<Longrightarrow> file_tables s' = file_tables s"
  by (auto simp: fat16_get_root_directory_def Let_def tables_simps
      dest!: get_total_items_tables diskstreamer_read_tables kzalloc_tables'
      split: Option.bind_splits if_splits prod.splits)

lemma init_private_tables [tables_simps]: "file_tables (fat16_init_private p s) = file_tables s"
  by (auto simp: fat16_init_private_def Let_def tables_simps dest!: diskstreamer_new_tables' split: prod.splits)

lemma fat16_resolve_tables:
  "fat16_resolve d f s = Some (r, s') \<Longrightarrow> file_tables s' = file_tables s"
  by (auto simp: fat16_resolve_def Let_def tables_simps
      dest!: get_root_directory_tables diskstreamer_read_tables kzalloc_tables' diskstreamer_new_tables'
      split: Option.bind_splits if_splits prod.splits)

lemma get_fat_entry_tables:
  "fat16_get_fat_entry d c s = Some (r, s') \<Longrightarrow> file_tables s' = file_tables s"
  by (auto simp: fat16_get_fat_entry_def Let_def tables_simps dest!: diskstreamer_read_tables
      split: Option.bind_splits if_splits prod.splits)

lemma cluster_loop_tables:
  "cluster_for_offset_loop d c n s = Some (r, s') \<Longrightarrow> file_tables s' = file_tables s"
  by (induction n arbitrary: c s)
    (auto dest!: get_fat_entry_tables split: Option.bind_splits if_splits prod.splits)

lemma get_cluster_tables:
  "fat16_get_cluster_for_offset d c off s = Some (r, s') \<Longrightarrow> file_tables s' = file_tables s"
  by (auto simp: fat16_get_cluster_for_offset_def Let_def dest: cluster_loop_tables)

lemma read_stream_tables:
  "fat16_read_internal_from_stream d st c off n s = Some (r, b, s') \<Longrightarrow> file_tables s' = file_tables s"
proof -
  assume "fat16_read_internal_from_stream d st c off n s = Some (r, b, s')"
  then have "file_tables (snd (snd (r, b, s'))) = file_tables s"
  proof (rule fat16_read_internal_from_stream.raw_induct[rotated,
        where P = "\<lambda>d st c off n s y. file_tables (snd (snd y)) = file_tables s"], goal_cases)
    case (1 f d st c off n s y)
    from 1(2) show ?case
      by (auto simp: Let_def tables_simps dest!: 1(1) diskstreamer_read_tables get_cluster_tables
          split: Option.bind_splits if_splits prod.splits sum.splits)
  qed
  then show ?thesis by simp
qed

lemma read_internal_tables:
  "fat16_read_internal d c off n s = Some (r, b, s') \<Longrightarrow> file_tables s' = file_tables s"
  by (auto simp: fat16_read_internal_def dest: read_stream_tables)

lemma free_directory_tables [tables_simps]: "file_tables (fat16_free_directory p s) = file_tables s"
  by (simp add: fat16_free_directory_def Let_def tables_simps)

lemma item_free_tables [tables_simps]: "file_tables (fat16_fat_item_free p s) = file_tables s"
  by (simp add: fat16_fat_item_free_def Let_def tables_simps)

lemma clone_tables: "fat16_clone_directory_item it n s = (p, s') \<Longrightarrow> file_tables s' = file_tables s"
  by (auto simp: fat16_clone_directory_item_def Let_def tables_simps dest!: kzalloc_tables'
      split: if_splits prod.splits)

lemma load_directory_tables:
  "fat16_load_fat_directory d it s = Some (p, s') \<Longrightarrow> file_tables s' = file_tables s"
  by (auto simp: fat16_load_fat_directory_def Let_def tables_simps
      dest!: get_total_items_tables read_internal_tables kzalloc_tables'
      split: Option.bind_splits if_splits prod.splits)

lemma new_item_tables:
  "fat16_new_fat_item_or_directory_item d it s = Some (p, s') \<Longrightarrow> file_tables s' = file_tables s"
  by (auto simp: fat16_new_fat_item_or_directory_item_def Let_def tables_simps
      dest!: load_directory_tables clone_tables kzalloc_tables'
      split: Option.bind_splits if_splits prod.splits)

lemma find_item_tables:
  "find_item_loop d tmp nm dir fi i n s = Some (p, s') \<Longrightarrow> file_tables s' = file_tables s"
  by (induction n arbitrary: fi i s)
    (auto simp: Let_def tables_simps dest!: new_item_tables split: Option.bind_splits if_splits prod.splits)

lemma directory_entry_tables:
  "directory_entry_loop d tmp it part s = Some (p, s') \<Longrightarrow> file_tables s' = file_tables s"
proof -
  assume "directory_entry_loop d tmp it part s = Some (p, s')"
  then have "file_tables (snd (p, s')) = file_tables s"
  proof (rule directory_entry_loop.raw_induct[rotated,
        where P = "\<lambda>d tmp it part s y. file_tables (snd y) = file_tables s"], goal_cases)
    case (1 f d tmp it part s y)
    from 1(2) show ?case
      by (auto simp: Let_def tables_simps fat16_find_item_in_directory_def dest!: 1(1) find_item_tables
          split: Option.bind_splits if_splits prod.splits)
  qed
  then show ?thesis by simp
qed

lemma fat16_open_tables: "fat16_open d tmp p md s = Some (q, s') \<Longrightarrow> file_tables s' = file_tables s"
  by (auto simp: fat16_open_def fat16_get_directory_entry_def fat16_find_item_in_directory_def Let_def
      tables_simps dest!: directory_entry_tables find_item_tables kzalloc_tables'
      split: Option.bind_splits if_splits prod.splits)

lemma read_loop_tables:
  "fat16_read_loop d it off sz n out s = Some (r, s') \<Longrightarrow> file_tables s' = file_tables s"
  by (induction n arbitrary: off out s)
    (auto simp: Let_def tables_simps dest!: read_internal_tables split: Option.bind_splits if_splits prod.splits)

lemma fat16_read_tables: "fat16_read d p sz n out s = Some (r, s') \<Longrightarrow> file_tables s' = file_tables s"
  by (auto simp: fat16_read_def Let_def dest!: read_loop_tables split: Option.bind_splits)

lemma fat16_seek_tables: "file_tables (snd (fat16_seek p off md s)) = file_tables s"
  by (simp add: fat16_seek_def Let_def tables_simps)

lemma fat16_close_tables: "file_tables (snd (fat16_close p s)) = file_tables s"
  by (simp add: fat16_close_def fat16_free_file_descriptor_def tables_simps)

text \<open>Parsing a path changes the memory only.\<close>

lemma kzalloc_mem: "kzalloc st sz = (p, st') \<Longrightarrow> \<exists>m. st' = st\<lparr>mem := m\<rparr>"
  using kzalloc_only_mem by blast

lemma kfree_mem: "\<exists>m. kfree st p = st\<lparr>mem := m\<rparr>"
  by (auto simp: kfree_def)

lemma get_path_part_mem: "pathparser_get_path_part st p = Some (q, st', p') \<Longrightarrow> \<exists>m. st' = st\<lparr>mem := m\<rparr>"
  by (auto simp: pathparser_get_path_part_def Let_def kfree_def dest!: kzalloc_mem
      split: prod.splits option.splits if_splits)

lemma parse_path_part_mem:
  "pathparser_parse_path_part st l p = Some (q, st', p') \<Longrightarrow> \<exists>m. st' = st\<lparr>mem := m\<rparr>"
  by (auto simp: pathparser_parse_path_part_def Let_def dest!: get_path_part_mem kzalloc_mem
      split: prod.splits option.splits if_splits)

lemma mem_same: "\<exists>m. st = st\<lparr>mem := m\<rparr>" for st :: "'z kmem_scheme"
  by (intro exI[of _ "mem st"]) simp

lemma parse_parts_loop_mem:
  assumes "parse_parts_loop st l p = Some st'"
  shows "\<exists>m. st' = st\<lparr>mem := m\<rparr>"
  using assms
proof (rule parse_parts_loop.raw_induct[rotated, where P = "\<lambda>st l p st'. \<exists>m. st' = st\<lparr>mem := m\<rparr>"], goal_cases)
  case (1 f st l p y)
  from 1(2) show ?case
    by (auto intro: mem_same dest!: 1(1) parse_path_part_mem split: if_splits option.splits prod.splits)
qed

lemma pathparser_parse_mem: "pathparser_parse st p = Some (r, st') \<Longrightarrow> \<exists>m. st' = st\<lparr>mem := m\<rparr>"
  by (auto intro: mem_same simp: pathparser_parse_def pathparser_create_root_def Let_def
      dest!: kzalloc_mem parse_path_part_mem parse_parts_loop_mem
      split: if_splits option.splits prod.splits sum.splits)

lemma pathparser_parse_tables: "pathparser_parse s p = Some (r, s') \<Longrightarrow> file_tables s' = file_tables s"
  using pathparser_parse_mem by (force simp: tables_simps)

subsection \<open>The contract of a file system\<close>

text \<open>
  What the file layer relies on: the operations of a file system leave the tables of
  the file layer alone, and closing succeeds.
\<close>

locale filesystem_driver =
  fixes driver :: "('z file_state_scheme) filesystem_ops"
  assumes resolve_tables: "resolve_op driver s = Some (r, s') \<Longrightarrow> file_tables s' = file_tables s"
    and open_tables: "open_op driver p md s = Some (q, s') \<Longrightarrow> file_tables s' = file_tables s"
    and read_tables: "read_op driver p sz n out s = Some (r, s') \<Longrightarrow> file_tables s' = file_tables s"
    and seek_tables: "file_tables (snd (seek_op driver p off whence s)) = file_tables s"
    and close_tables: "file_tables (snd (close_op driver p s)) = file_tables s"
    and close_succeeds: "fst (close_op driver p s) = 0"

locale file_layer =
  fixes ops :: "addr \<Rightarrow> ('z file_state_scheme) filesystem_ops"
  assumes drivers: "filesystem_driver (ops a)"
begin

lemma fopen_cases:
  assumes "fopen ops f md s = Some (r, s')"
  obtains (failed) "r = 0" "file_tables s' = file_tables s"
  | (opened) i desc pv where "free_slot (file_descriptors s) 0 = Some i" "r = int i + 1"
      "\<not> ISERR pv" "filesystems s' = filesystems s"
      "file_descriptors s' = (file_descriptors s)[i := desc]"
      "file_descs s' = (file_descs s)(desc := \<lparr>fd_index = r, fd_filesystem = filesystem (the_disk s'),
         fd_private = pv, fd_disk = Some ()\<rparr>)"
proof -
  obtain root s1 where p: "pathparser_parse s f = Some (root, s1)"
    using assms by (auto simp: fopen_def split: option.splits)
  note t1 = pathparser_parse_tables[OF p]
  show thesis
  proof (cases "r = 0")
    case True
    have "file_tables s' = file_tables s"
    proof -
      have "free_slot (file_descriptors s2) 0 \<noteq> None \<Longrightarrow> file_new_descriptor s2 = (Inl e, s3) \<Longrightarrow> False" for s2 s3 e
        by (auto simp: file_new_descriptor_def Let_def split: prod.splits)
      then show ?thesis
      using assms p t1 True
      by (auto simp: fopen_def Let_def file_new_descriptor_def
          dest!: filesystem_driver.open_tables[OF drivers] split: option.splits if_splits prod.splits sum.splits)
    qed
    then show ?thesis using True failed by blast
  next
    case False
    then obtain pv s2 where o: "open_op (ops (filesystem (the_disk s1)))
        (read32 (mem s1) (root + 4)) (file_get_mode_by_string (mem s1) md) s1 = Some (pv, s2)" "\<not> ISERR pv"
      and rest: "(case file_new_descriptor s2 of
                     (Inl _, s) \<Rightarrow> Some (0, s)
                   | (Inr desc, s) \<Rightarrow>
                       let dr = (file_descs s desc)\<lparr>fd_filesystem := filesystem (the_disk s),
                                  fd_private := pv, fd_disk := Some ()\<rparr>
                       in Some (fd_index dr, s\<lparr>file_descs := (file_descs s)(desc := dr)\<rparr>)) = Some (r, s')"
      using assms p by (auto simp: fopen_def Let_def split: option.splits if_splits prod.splits)
    have t2: "file_tables s2 = file_tables s"
      using filesystem_driver.open_tables[OF drivers o(1)] t1 by simp
    obtain i where i: "free_slot (file_descriptors s2) 0 = Some i"
      using rest False by (auto simp: file_new_descriptor_def split: option.splits)
    obtain desc s3 where z: "kzalloc s2 16 = (desc, s3)" by fastforce
    have t3: "file_tables s3 = file_tables s" using kzalloc_tables'[OF z] t2 by simp
    show ?thesis
      using rest i z t2 t3 o(2) by (intro opened[of i pv desc]) (auto simp: file_new_descriptor_def file_tables_def Let_def)
  qed
qed

end

lemma free_slot_Some:
  "free_slot ps k = Some i \<longleftrightarrow> k \<le> i \<and> i - k < length ps \<and> ps ! (i - k) = 0 \<and> (\<forall>j < i - k. ps ! j \<noteq> 0)"
proof (induction ps arbitrary: k)
  case (Cons p ps)
  show ?case
  proof (cases "p = 0")
    case True
    show ?thesis
    proof (cases "k < i")
      case less: True
      then have "\<not> (\<forall>j < i - k. (p # ps) ! j \<noteq> 0)" using True by (auto intro!: exI[of _ 0])
      then show ?thesis using True less by simp
    next
      case False
      then show ?thesis using True by auto
    qed
  next
    case False
    have "k \<le> i \<and> i - k < length (p # ps) \<and> (p # ps) ! (i - k) = 0 \<and> (\<forall>j < i - k. (p # ps) ! j \<noteq> 0) \<longleftrightarrow>
        Suc k \<le> i \<and> i - Suc k < length ps \<and> ps ! (i - Suc k) = 0 \<and> (\<forall>j < i - Suc k. ps ! j \<noteq> 0)"
    proof (cases "k < i")
      case True
      then obtain n where n: "i = Suc (k + n)" by (auto dest: less_imp_Suc_add)
      show ?thesis using \<open>p \<noteq> 0\<close> by (simp add: n All_less_Suc2)
    next
      case False
      then show ?thesis using \<open>p \<noteq> 0\<close> by auto
    qed
    then show ?thesis using False Cons.IH[of "Suc k"] by simp
  qed
qed simp

lemma free_slot_0: "free_slot ps 0 = Some i \<longleftrightarrow> i < length ps \<and> ps ! i = 0 \<and> (\<forall>j < i. ps ! j \<noteq> 0)"
  using free_slot_Some[of ps 0 i] by simp

context file_layer
begin

lemma fclose_open:
  assumes "file_get_descriptor fd s = desc" "desc \<noteq> 0"
  shows "\<exists>s'. fclose ops fd s = (0, s') \<and> filesystems s' = filesystems s \<and> file_descs s' = file_descs s \<and>
     file_descriptors s' = (file_descriptors s)[nat (fd_index (file_descs s desc) - 1) := 0]"
proof -
  let ?d = "file_descs s desc"
  obtain r s1 where c: "close_op (ops (fd_filesystem ?d)) (fd_private ?d) s = (r, s1)" by fastforce
  have "r = 0" "file_tables s1 = file_tables s"
    using filesystem_driver.close_succeeds[OF drivers, of "fd_filesystem ?d" "fd_private ?d" s]
      filesystem_driver.close_tables[OF drivers, of "fd_filesystem ?d" "fd_private ?d" s] c by auto
  then show ?thesis
    using c assms by (auto simp: fclose_def Let_def file_free_descriptor_def kfree_def file_tables_def)
qed

lemma fclose_closed: "file_get_descriptor fd s = 0 \<Longrightarrow> fclose ops fd s = (- 1, s)"
  by (simp add: fclose_def)

lemma fopen_fclose:
  assumes o: "fopen ops f md s = Some (r, s1)" and r: "0 < r" "r < 512" "length (file_descriptors s) = 512"
    and d: "file_get_descriptor r s1 \<noteq> 0"
  shows "\<exists>s2. fclose ops r s1 = (0, s2) \<and> file_descriptors s2 = file_descriptors s \<and>
     filesystems s2 = filesystems s \<and> fclose ops r s2 = (- 1, s2)"
  using o
proof (cases rule: fopen_cases)
  case failed
  then show ?thesis using r by simp
next
  case (opened i desc pv)
  have i: "i < 512" "file_descriptors s ! i = 0" "nat r = Suc i" "nat (r - 1) = i"
    using opened(1,2) r by (auto simp: free_slot_0)
  have g: "file_get_descriptor r s1 = desc"
    using opened(5) i r by (simp add: file_get_descriptor_def)
  have "\<exists>s2. fclose ops r s1 = (0, s2) \<and> filesystems s2 = filesystems s1 \<and> file_descs s2 = file_descs s1 \<and>
     file_descriptors s2 = (file_descriptors s1)[nat (fd_index (file_descs s1 desc) - 1) := 0]"
    using g d by (intro fclose_open) simp_all
  moreover have "nat (fd_index (file_descs s1 desc) - 1) = i" using opened(6) i by simp
  ultimately obtain s2 where s2: "fclose ops r s1 = (0, s2)" "filesystems s2 = filesystems s"
    "file_descriptors s2 = (file_descriptors s1)[i := 0]" using opened(4) by auto
  have fd: "file_descriptors s2 = file_descriptors s"
    using s2(3) opened(5) i(2) by (metis list_update_id list_update_overwrite)
  then have "file_get_descriptor r s2 = 0" using i r by (simp add: file_get_descriptor_def)
  with s2 fd fclose_closed[of r s2] show ?thesis by blast
qed

lemma fread_tables: "fread ops p sz n fd s = Some (r, s') \<Longrightarrow> file_tables s' = file_tables s"
  by (auto simp: fread_def Let_def split: if_splits dest: filesystem_driver.read_tables[OF drivers])

lemma fseek_tables: "file_tables (snd (fseek ops fd off w s)) = file_tables s"
  by (auto simp: fseek_def Let_def filesystem_driver.seek_tables[OF drivers])

end

lemma fat16_close_succeeds: "fst (fat16_close p s) = 0"
  by (simp add: fat16_close_def)

interpretation fat16_driver: filesystem_driver "fat16_filesystem d tmp fs"
  by unfold_locales (auto simp: fat16_filesystem_def fat16_seek_tables
      fat16_close_tables fat16_close_succeeds
      dest: fat16_resolve_tables fat16_open_tables fat16_read_tables)

text \<open>The kernel knows one file system: whatever pointer is in the table, it is FAT16.\<close>

interpretation fat16_files: file_layer "\<lambda>_. fat16_filesystem d tmp fs"
  by (rule file_layer.intro) (rule fat16_driver.filesystem_driver_axioms)

subsection \<open>Opening a file\<close>

lemma path_parts_single: "47 \<notin> set name \<Longrightarrow> name \<noteq> [] \<Longrightarrow> path_parts name = [name]"
proof -
  assume n: "47 \<notin> set name" "name \<noteq> []"
  have name: "path_name name = name" using n(1) by (simp add: takeWhile_eq_all_conv) blast
  have "dropWhile (\<lambda>c. c \<noteq> 47) name = []" using n(1) by (auto simp: dropWhile_eq_Nil_conv)
  then have rest: "path_rest name = []" by (simp only: path_rest_def list.sel)
  have "path_parts [] = []" by (simp add: path_parts.simps)
  with n(2) show ?thesis by (simp only: path_parts.simps[of name] name rest if_False)
qed

lemma live_reserved:
  "live_regions st A \<Longrightarrow> A p = Some n \<Longrightarrow> in_range p n a \<Longrightarrow> kreserved st A a \<and> pool_byte (kernel_heap st) a"
  using kpages.live_private[of st A p n a] kpages.live_pool[of st A p n a] by (auto simp: reserved_def)

lemma low_not_error: "unat p < 2147483648 \<Longrightarrow> \<not> ISERR p"
  by (simp add: ISERR_def sint_eq_unat)

lemma fat16_open_file:
  assumes live: "live_regions s A" and av: "3 \<le> avail s"
    and ch: "chain (mem s) q [(q, nm, name)] 0" "A q = Some 4096" "A nm = Some 4096"
    and directory: "directory = root_directory (disk_private s)"
    and dir: "A (dir_item directory) \<noteq> None" and n: "nat (total_items directory) = n" "j < n"
    and wf: "\<And>i. i < n \<Longrightarrow> item_wf (nth_item s directory i)"
    and match: "\<And>i. i < n \<Longrightarrow> item_matches (nth_item s directory i) name \<longleftrightarrow> i = j"
    and plain: "attributes (nth_item s directory j) AND FAT_FILE_SUBDIRECTORY = 0"
    and tmp: "\<And>a. in_range tmp 128 a \<Longrightarrow> \<not> table_byte (kernel_heap s) a \<and> \<not> pool_byte (kernel_heap s) a"
  obtains de f c s' where "fat16_open d tmp q FILE_MODE_READ s = Some (de, s')" "pool_byte (kernel_heap s) de"
    "de \<noteq> 0" "descriptors s' de = \<lparr>desc_item = f, desc_position = 0\<rparr>"
    "fat_items s' f = \<lparr>item_ptr = c, item_type = FAT_ITEM_TYPE_FILE\<rparr>"
    "dir_items s' c = [nth_item s directory j]"
    "live_regions s' (A(de \<mapsto> 4096, f \<mapsto> 4096, c \<mapsto> 4096))" "avail s = avail s' + 3"
    "A de = None" "A f = None" "A c = None" "distinct [de, f, c]"
    "s' = s\<lparr>mem := mem s', dir_items := (dir_items s)(c := [nth_item s directory j]),
       fat_items := (fat_items s)(f := \<lparr>item_ptr = c, item_type = FAT_ITEM_TYPE_FILE\<rparr>),
       descriptors := (descriptors s)(de := \<lparr>desc_item = f, desc_position = 0\<rparr>)\<rparr>"
    "\<And>a. kreserved s A a \<Longrightarrow> \<not> in_range tmp 128 a \<Longrightarrow> mem s' a = mem s a"
proof -
  have sz: "0 < unat (8 :: u32)" "unat (8 :: u32) \<le> 4096" "0 < avail s" using av by simp_all
  obtain de s1 where c1: "kzalloc s 8 = (de, s1)" by fastforce
  note law = kpages.alloc_page[OF live sz c1]
  let ?A = "A(de \<mapsto> 4096)"
  have live1: "live_regions s1 ?A" and new: "de \<noteq> 0" "A de = None" and av1: "avail s = Suc (avail s1)" using law by auto
  have s1: "s1 = s\<lparr>mem := mem s1\<rparr>" by (rule kzalloc_only_mem[OF c1])
  have same: "kernel_heap s1 = kernel_heap s" "disk_private s1 = disk_private s" "dir_items s1 = dir_items s"
    by (subst s1, simp add: disk_private_def)+
  have keep: "mem s1 a = mem s a" if "A p = Some 4096" "in_range p 4096 a" for p a
    using kpages.alloc_keeps_reserved(1)[OF live sz c1] live_reserved[OF live that] by blast
  have ch1: "chain (mem s1) q [(q, nm, name)] 0"
    by (rule chain_cong[OF _ ch(1)]) (use keep ch(2,3) in auto)
  have q1: "?A q = Some 4096" "?A nm = Some 4096" using ch(2,3) new(2) by auto
  have name_len: "length name < 128" using ch1 by simp
  have in_nm: "in_range nm 4096 a" if "in_range nm (Suc (length name)) a" for a
    by (rule in_range_mono[OF that]) (use name_len in simp)
  have name1: "kstring s1 ?A nm name"
    unfolding kstring_def
  proof (intro conjI allI impI)
    show "cstr (mem s1) nm name" using ch1 by simp
    show "kreserved s1 ?A a" if "in_range nm (Suc (length name)) a" for a
      using live_reserved[OF live1 q1(2) in_nm[OF that]] by (rule conjunct1)
  qed
  have nm_q: "read32 (mem s1) q = nm" "read32 (mem s1) (q + 4) = 0" "page_aligned q" using ch1 by auto
  have not_tmp: "\<not> in_range tmp 128 a" if "?A p = Some 4096" "in_range p 4096 a" for p a
    using tmp[of a] live_reserved[OF live1 that] same(1) by auto
  have "\<exists>f c s'. fat16_find_item_in_directory d tmp directory nm s1 = Some (f, s') \<and> f \<noteq> 0 \<and> f \<noteq> c \<and>
     ?A f = None \<and> ?A c = None \<and> fat_items s' f = \<lparr>item_ptr = c, item_type = FAT_ITEM_TYPE_FILE\<rparr> \<and>
     dir_items s' c = [nth_item s1 directory j] \<and>
     live_regions s' (?A(f \<mapsto> 4096, c \<mapsto> 4096)) \<and> avail s1 = avail s' + 2 \<and>
     (\<forall>a. kreserved s1 ?A a \<and> \<not> in_range tmp 128 a \<longrightarrow> mem s' a = mem s1 a) \<and>
     s' = s1\<lparr>mem := mem s', dir_items := (dir_items s1)(c := [nth_item s1 directory j]),
       fat_items := (fat_items s1)(f := \<lparr>item_ptr = c, item_type = FAT_ITEM_TYPE_FILE\<rparr>)\<rparr>"
  proof (rule find_item_in_directory_file[OF live1 _ _ n _ _ _ name1])
    show "2 \<le> avail s1" using av av1 by simp
    show "?A (dir_item directory) \<noteq> None" using dir by simp
    show "\<not> in_range nm (Suc (length name)) a" if "in_range tmp 128 a" for a
      using that not_tmp[OF q1(2)] in_nm by blast
    show "\<not> table_byte (kernel_heap s1) a" if "in_range tmp 128 a" for a
      using tmp[OF that] same(1) by simp
  qed (use wf match plain same(3) in auto)
  then obtain f c s2 where f: "fat16_find_item_in_directory d tmp directory nm s1 = Some (f, s2)" "f \<noteq> 0"
     "fat_items s2 f = \<lparr>item_ptr = c, item_type = FAT_ITEM_TYPE_FILE\<rparr>"
     "dir_items s2 c = [nth_item s1 directory j]"
     "live_regions s2 (?A(f \<mapsto> 4096, c \<mapsto> 4096))" "avail s1 = avail s2 + 2"
     "\<And>a. kreserved s1 ?A a \<Longrightarrow> \<not> in_range tmp 128 a \<Longrightarrow> mem s2 a = mem s1 a"
     "f \<noteq> c" "?A f = None" "?A c = None"
     "s2 = s1\<lparr>mem := mem s2, dir_items := (dir_items s1)(c := [nth_item s1 directory j]),
       fat_items := (fat_items s1)(f := \<lparr>item_ptr = c, item_type = FAT_ITEM_TYPE_FILE\<rparr>)\<rparr>" by blast
  have "read32 (mem s2) (q + 4) = read32 (mem s1) (q + 4)"
  proof (rule read32_slots(2)[OF nm_q(3)])
    show "mem s2 a = mem s1 a" if "in_range q 4096 a" for a
      using f(7) live_reserved[OF live1 q1(1) that] not_tmp[OF q1(1) that] by blast
  qed
  then have "fat16_get_directory_entry d tmp q s1 = Some (f, s2)"
    using f(1,2) nm_q directory same(2)
    by (simp add: fat16_get_directory_entry_def directory_entry_loop.simps)
  let ?s = "s2\<lparr>descriptors := (descriptors s2)(de := \<lparr>desc_item = f, desc_position = 0\<rparr>)\<rparr>"
  have pool: "pool_byte (kernel_heap s) de"
    using live_reserved[OF live1, of de 4096 de] same(1) by (simp add: in_range_def)
  have o: "fat16_open d tmp q FILE_MODE_READ s = Some (de, ?s)"
    using \<open>fat16_get_directory_entry d tmp q s1 = Some (f, s2)\<close> c1 new(1) f(2) by (simp add: fat16_open_def)
  have cf: "descriptors ?s de = \<lparr>desc_item = f, desc_position = 0\<rparr>" "fat_items ?s f = \<lparr>item_ptr = c, item_type = FAT_ITEM_TYPE_FILE\<rparr>"
    "dir_items ?s c = [nth_item s directory j]" "live_regions ?s (?A(f \<mapsto> 4096, c \<mapsto> 4096))" "avail s = avail ?s + 3"
    using f(3-6) same(3) av1 by (simp_all add: live_regions_def kheap_ok_def avail_def)
  have st: "?s = s\<lparr>mem := mem ?s, dir_items := (dir_items s)(c := [nth_item s directory j]),
       fat_items := (fat_items s)(f := \<lparr>item_ptr = c, item_type = FAT_ITEM_TYPE_FILE\<rparr>),
       descriptors := (descriptors s)(de := \<lparr>desc_item = f, desc_position = 0\<rparr>)\<rparr>"
  proof -
    obtain m1 where m1: "s1 = s\<lparr>mem := m1\<rparr>" using s1 by blast
    obtain m2 where m2: "s2 = s1\<lparr>mem := m2, dir_items := (dir_items s1)(c := [nth_item s1 directory j]),
       fat_items := (fat_items s1)(f := \<lparr>item_ptr = c, item_type = FAT_ITEM_TYPE_FILE\<rparr>)\<rparr>" using f(11) by blast
    show ?thesis by (simp add: m2 m1)
  qed
  have mm: "mem ?s a = mem s a" if "kreserved s A a" "\<not> in_range tmp 128 a" for a
    using kpages.alloc_keeps_reserved(1,2)[OF live sz c1 that(1)] f(7) that(2) by simp
  have n: "A f = None" "A c = None" "distinct [de, f, c]" using f(8-10) by (auto split: if_splits)
  show thesis by (rule that[OF o pool new(1) cf new(2) n st mm])
qed

lemma fopen_file_spec:
  assumes live: "live_regions s A" and av: "7 \<le> avail s"
    and path: "kstring s A path (48 # 58 # 47 # name)" "name \<noteq> []" "47 \<notin> set name" "length name \<le> 125"
    and md: "kreserved s A mode_str" "mem s mode_str = 114"
    and fs: "filesystem (the_disk s) \<noteq> 0" and directory: "directory = root_directory (disk_private s)"
    and dir: "A (dir_item directory) \<noteq> None" and n: "nat (total_items directory) = n" "j < n"
    and wf: "\<And>k. k < n \<Longrightarrow> item_wf (nth_item s directory k)"
    and match: "\<And>k. k < n \<Longrightarrow> item_matches (nth_item s directory k) name \<longleftrightarrow> k = j"
    and plain: "attributes (nth_item s directory j) AND FAT_FILE_SUBDIRECTORY = 0"
    and tmp: "\<And>a. in_range tmp 128 a \<Longrightarrow> \<not> table_byte (kernel_heap s) a \<and> \<not> pool_byte (kernel_heap s) a"
    and low: "\<And>a. pool_byte (kernel_heap s) a \<Longrightarrow> unat a < 2147483648"
    and slot: "free_slot (file_descriptors s) 0 = Some i"
  obtains s' desc pv f c B where
    "fopen (\<lambda>_. fat16_filesystem d tmp fs) path mode_str s = Some (int i + 1, s')"
    "file_descriptors s' = (file_descriptors s)[i := desc]" "desc \<noteq> 0"
    "file_descs s' desc = \<lparr>fd_index = int i + 1, fd_filesystem = filesystem (the_disk s'),
       fd_private = pv, fd_disk = Some ()\<rparr>"
    "descriptors s' pv = \<lparr>desc_item = f, desc_position = 0\<rparr>"
    "fat_items s' f = \<lparr>item_ptr = c, item_type = FAT_ITEM_TYPE_FILE\<rparr>"
    "dir_items s' c = [nth_item s directory j]"
    "live_regions s' B" "avail s = avail s' + 7" "\<And>p n. A p = Some n \<Longrightarrow> B p = Some n"
    "\<forall>p \<in> {desc, pv, f, c}. A p = None \<and> B p = Some 4096" "distinct [desc, pv, f, c]"
    "s' = s\<lparr>mem := mem s', dir_items := (dir_items s)(c := [nth_item s directory j]),
       fat_items := (fat_items s)(f := \<lparr>item_ptr = c, item_type = FAT_ITEM_TYPE_FILE\<rparr>),
       descriptors := (descriptors s)(pv := \<lparr>desc_item = f, desc_position = 0\<rparr>),
       file_descs := (file_descs s)(desc := \<lparr>fd_index = int i + 1, fd_filesystem = filesystem (the_disk s),
         fd_private = pv, fd_disk = Some ()\<rparr>),
       file_descriptors := (file_descriptors s)[i := desc]\<rparr>"
    "\<And>a. kreserved s A a \<Longrightarrow> \<not> in_range tmp 128 a \<Longrightarrow> mem s' a = mem s a"
proof -
  have parts: "path_parts name = [name]" by (rule path_parts_single[OF path(3,2)])
  obtain r s1 ns where p: "pathparser_parse s path = Some (r, s1)" "r \<noteq> 0"
    "read32 (mem s1) r = word_of_int (tonumericdigit 48)"
    "chain (mem s1) (read32 (mem s1) (r + 4)) ns 0" "node_names ns = [name]"
    "parse_heap s A s1 (r # node_pages ns)"
    by (rule pathparser_parse_spec[OF live path(1) _ path(4)])
      (use av in \<open>simp_all add: isdigit_def parts\<close>)
  obtain q nm where ns: "ns = [(q, nm, name)]" using p(5) by auto
  let ?A = "add_pages A {r, q, nm}"
  have h: "live_regions s1 ?A" "kernel_heap s1 = kernel_heap s" "avail s = avail s1 + 3"
    "\<And>a. kreserved s A a \<Longrightarrow> mem s1 a = mem s a" "\<forall>p \<in> {r, q, nm}. A p = None"
    using p(6) by (auto simp: parse_heap_def ns)
  obtain m where m: "s1 = s\<lparr>mem := m\<rparr>" using pathparser_parse_mem[OF p(1)] by blast
  have q: "read32 (mem s1) (r + 4) = q" "q \<noteq> 0" using p(4) by (auto simp: ns)
  have mode: "file_get_mode_by_string (mem s1) mode_str = FILE_MODE_READ"
    using h(4)[OF md(1)] md(2) by (simp add: file_get_mode_by_string_def)
  have same: "disk_private s1 = disk_private s" "dir_items s1 = dir_items s" "the_disk s1 = the_disk s"
    by (simp_all add: m disk_private_def)
  have ch: "chain (mem s1) q [(q, nm, name)] 0" "?A q = Some 4096" "?A nm = Some 4096"
    using p(4) q(1) by (simp_all add: ns)
  have dir1: "?A (dir_item directory) \<noteq> None" using dir by (simp add: add_pages_def)
  obtain de f c s2 where o: "fat16_open d tmp q FILE_MODE_READ s1 = Some (de, s2)" "pool_byte (kernel_heap s1) de"
    "de \<noteq> 0" "descriptors s2 de = \<lparr>desc_item = f, desc_position = 0\<rparr>"
    "fat_items s2 f = \<lparr>item_ptr = c, item_type = FAT_ITEM_TYPE_FILE\<rparr>"
    "dir_items s2 c = [nth_item s1 directory j]"
    "live_regions s2 (?A(de \<mapsto> 4096, f \<mapsto> 4096, c \<mapsto> 4096))" "avail s1 = avail s2 + 3"
    "?A de = None" "?A f = None" "?A c = None" "distinct [de, f, c]"
    "s2 = s1\<lparr>mem := mem s2, dir_items := (dir_items s1)(c := [nth_item s1 directory j]),
       fat_items := (fat_items s1)(f := \<lparr>item_ptr = c, item_type = FAT_ITEM_TYPE_FILE\<rparr>),
       descriptors := (descriptors s1)(de := \<lparr>desc_item = f, desc_position = 0\<rparr>)\<rparr>"
    "\<And>a. kreserved s1 ?A a \<Longrightarrow> \<not> in_range tmp 128 a \<Longrightarrow> mem s2 a = mem s1 a"
  proof (rule fat16_open_file[OF h(1) _ ch _ dir1 n])
    show "3 \<le> avail s1" using av h(3) by simp
  qed (use directory wf match plain tmp same h(2) in auto)
  have t2: "file_tables s2 = file_tables s"
    using fat16_open_tables[OF o(1)] by (simp add: m tables_simps)
  obtain desc s3 where z: "kzalloc s2 16 = (desc, s3)" by fastforce
  have s3: "s3 = s2\<lparr>mem := mem s3\<rparr>" by (rule kzalloc_only_mem[OF z])
  let ?B = "?A(de \<mapsto> 4096, f \<mapsto> 4096, c \<mapsto> 4096)"
  have sz: "0 < unat (16 :: u32)" "unat (16 :: u32) \<le> 4096" "0 < avail s2" using av h(3) o(8) by simp_all
  note law = kpages.alloc_page[OF o(7) sz z]
  have desc: "desc \<noteq> 0" "?B desc = None" "live_regions s3 (?B(desc \<mapsto> 4096))" "avail s2 = Suc (avail s3)"
    using law by auto
  have t3: "file_tables s3 = file_tables s" using kzalloc_tables'[OF z] t2 by simp
  have keep: "descriptors s3 = descriptors s2" "fat_items s3 = fat_items s2" "dir_items s3 = dir_items s2"
    by (subst s3, simp)+
  obtain m3 where m3: "s3 = s2\<lparr>mem := m3\<rparr>" using s3 by blast
  obtain m2 where m2: "s2 = s1\<lparr>mem := m2, dir_items := (dir_items s1)(c := [nth_item s1 directory j]),
       fat_items := (fat_items s1)(f := \<lparr>item_ptr = c, item_type = FAT_ITEM_TYPE_FILE\<rparr>),
       descriptors := (descriptors s1)(de := \<lparr>desc_item = f, desc_position = 0\<rparr>)\<rparr>" using o(13) by blast
  let ?d = "\<lparr>fd_index = int i + 1, fd_filesystem = filesystem (the_disk s3), fd_private = de, fd_disk = Some ()\<rparr>"
  let ?s = "s3\<lparr>file_descs := (file_descs s)(desc := ?d), file_descriptors := (file_descriptors s)[i := desc]\<rparr>"
  have new: "file_new_descriptor s2 = (Inr desc, s3\<lparr>file_descs := (file_descs s)(desc :=
      \<lparr>fd_index = int i + 1, fd_filesystem = 0, fd_private = 0, fd_disk = None\<rparr>),
      file_descriptors := (file_descriptors s)[i := desc]\<rparr>)"
    using slot t2 t3 z by (simp add: file_new_descriptor_def file_tables_def)
  have "\<not> ISERR de" using low_not_error low o(2) h(2) by simp
  then have "fopen (\<lambda>_. fat16_filesystem d tmp fs) path mode_str s = Some (int i + 1, ?s)"
    using p(1-3) q mode fs same(3) o(1) new
    by (simp add: fopen_def disk_get_def tonumericdigit_def fat16_filesystem_def Let_def)
  moreover have "live_regions ?s (?B(desc \<mapsto> 4096))" "avail s = avail ?s + 7"
    using desc(3,4) h(3) o(8) by (simp_all add: live_regions_def kheap_ok_def avail_def)
  moreover have "(?B(desc \<mapsto> 4096)) p = Some n" if "A p = Some n" for p n
    using that desc(2) o(9-11) h(5) by (auto simp: add_pages_def split: if_splits)
  moreover have "\<forall>p \<in> {desc, de, f, c}. A p = None \<and> (?B(desc \<mapsto> 4096)) p = Some 4096" "distinct [desc, de, f, c]"
    using desc(2) o(9-12) h(5) by (auto simp: add_pages_def split: if_splits)
  moreover have "?s = s\<lparr>mem := mem ?s, dir_items := (dir_items s)(c := [nth_item s directory j]),
       fat_items := (fat_items s)(f := \<lparr>item_ptr = c, item_type = FAT_ITEM_TYPE_FILE\<rparr>),
       descriptors := (descriptors s)(de := \<lparr>desc_item = f, desc_position = 0\<rparr>),
       file_descs := (file_descs s)(desc := ?d),
       file_descriptors := (file_descriptors s)[i := desc]\<rparr>"
    by (simp add: m2 m3 m)
  moreover have "the_disk s3 = the_disk s" by (simp add: m2 m3 m)
  moreover have "mem ?s a = mem s a" if "kreserved s A a" "\<not> in_range tmp 128 a" for a
  proof -
    have sub: "?A p = Some n" "?B p = Some n" if "A p = Some n" for p n
      using that o(9-11) h(5) by (auto simp: add_pages_def split: if_splits)
    have r1: "kreserved s1 ?A a" using that(1) sub(1) unfolding reserved_def h(2) by blast
    have k2: "kernel_heap s2 = kernel_heap s" by (simp add: m2 m)
    have r2: "kreserved s2 ?B a" using that(1) sub(2) unfolding reserved_def k2 by blast
    show ?thesis using kpages.alloc_keeps_reserved(1)[OF o(7) sz z r2] o(14)[OF r1 that(2)] h(4)[OF that(1)] by simp
  qed
  ultimately show ?thesis
    using desc(1) o(4-6) keep same(2) by (intro that[of ?s desc de f c "?B(desc \<mapsto> 4096)"]) simp_all
qed

subsection \<open>A mounted disk\<close>

lemma boot_heap_live:
  assumes "kernel_heap s = boot_heap" "\<And>a. table_byte boot_heap a \<Longrightarrow> mem s a = 0"
  shows "live_regions s (region_map boot_heap Map.empty)" "avail s = 25600"
proof -
  have ok: "kheap_ok s Map.empty"
    unfolding kheap_ok_def using heap_inv_zero[OF boot_heap_layout, of "mem s"] assms boot_heap_layout by auto
  then show "live_regions s (region_map boot_heap Map.empty)" using assms(1) by (auto simp: live_regions_def)
  have "card {k. k < heap_blocks boot_heap \<and> \<not> covered Map.empty k} = 25600"
    by (simp add: covered_def boot_heap_def)
  then show "avail s = 25600" using avail_card[OF ok] assms(1) by simp
qed

lemma boot_ranges:
  "table_byte boot_heap a \<longleftrightarrow> 0x7E00 \<le> unat a \<and> unat a < 0xE200"
  "pool_byte boot_heap a \<longleftrightarrow> 0x1000000 \<le> unat a \<and> unat a < 0x7400000"
  using in_range_nat[of "0x7E00" 25600 a] in_range_nat[of "0x1000000" 104857600 a]
  by (simp_all add: table_byte_def pool_byte_def boot_heap_def)

lemma low_range: "n < 4096 \<Longrightarrow> in_range (0x500) n a \<longleftrightarrow> 0x500 \<le> unat a \<and> unat a < 0x500 + n"
  using in_range_nat[of "0x500" n a] by simp

lemma boot_low_reserved:
  "kernel_heap s = boot_heap \<Longrightarrow> unat a < 0x7E00 \<Longrightarrow> kreserved s A a"
  by (simp add: reserved_def boot_ranges)

text \<open>
  The kernel after mounting: the path \<^verbatim>\<open>0:/a.b\<close> is at \<open>0x500\<close>, the mode \<^verbatim>\<open>r\<close> at \<open>0x508\<close>,
  and the root directory with the entry \<^verbatim>\<open>A.B\<close> in the page the heap hands out first.
\<close>

definition boot_files :: file_state where
  "boot_files = \<lparr>mem = (mem path_state)(0x504 := 46, 0x508 := 114), kernel_heap = boot_heap, current_directory = 0, cr3 = 0,
     disk_ports = \<lparr>sent = [], status_reads = 0\<rparr>, streams = sample_streams,
     the_disk = \<lparr>disk_type = 0, sector_size = 512, disk_id = 0, filesystem = 0x9000, fs_private = 9\<rparr>,
     privates = \<lambda>_. sample_private, dir_items = \<lambda>_. [sample_item],
     directories = \<lambda>_. zero_directory, fat_items = \<lambda>_. \<lparr>item_ptr = 0, item_type = 0\<rparr>,
     descriptors = \<lambda>_. \<lparr>desc_item = 0, desc_position = 0\<rparr>, fat16_name = [],
     filesystems = 0x9000 # replicate 11 0, file_descriptors = replicate 512 0,
     file_descs = \<lambda>_. \<lparr>fd_index = 0, fd_filesystem = 0, fd_private = 0, fd_disk = None\<rparr>\<rparr>"

definition mounted_root :: addr where
  "mounted_root = fst (kzalloc boot_files 4096)"

definition mounted :: file_state where
  "mounted = (snd (kzalloc boot_files 4096))\<lparr>privates := \<lambda>_. sample_private\<lparr>root_directory :=
     \<lparr>dir_item = mounted_root, total_items = 1, sector_position = 4, ending_sector_position = 10\<rparr>\<rparr>\<rparr>"

abbreviation mounted_live :: "addr \<rightharpoonup> nat" where
  "mounted_live \<equiv> (region_map boot_heap Map.empty)(mounted_root \<mapsto> 4096)"

lemma mounted_heap:
  "live_regions mounted mounted_live" "avail mounted = 25599" "kernel_heap mounted = boot_heap"
  "unat a < 0x7E00 \<Longrightarrow> mem mounted a = mem boot_files a"
proof -
  let ?A = "region_map boot_heap Map.empty"
  obtain s1 where c: "kzalloc boot_files 4096 = (mounted_root, s1)"
    by (metis mounted_root_def prod.collapse)
  have z: "mem boot_files a = 0" if "table_byte boot_heap a" for a
    using that by (auto simp: boot_ranges boot_files_def path_state_def)
  have h: "kernel_heap boot_files = boot_heap" by (simp add: boot_files_def)
  note live = boot_heap_live[OF h z]
  have sz: "0 < unat (4096 :: u32)" "unat (4096 :: u32) \<le> 4096" "0 < avail boot_files"
    by (simp_all add: live(2))
  note law = kpages.alloc_page[OF live(1) sz c]
  have ext: "live_regions mounted B = live_regions s1 B" "avail mounted = avail s1" "mem mounted = mem s1"
    "kernel_heap mounted = kernel_heap s1" for B
    by (simp_all add: mounted_def c live_regions_def kheap_ok_def avail_def)
  show "live_regions mounted mounted_live" "avail mounted = 25599"
    using law live(2) ext by auto
  show "kernel_heap mounted = boot_heap" using kernel_heap_kzalloc[OF c] h ext by simp
  show "mem mounted a = mem boot_files a" if "unat a < 0x7E00"
    using kpages.alloc_keeps_reserved(1)[OF live(1) sz c boot_low_reserved[OF h that]] ext by simp
qed

lemma mounted_fields:
  "disk_private mounted = sample_private\<lparr>root_directory :=
     \<lparr>dir_item = mounted_root, total_items = 1, sector_position = 4, ending_sector_position = 10\<rparr>\<rparr>"
  "dir_items mounted = (\<lambda>_. [sample_item])" "filesystem (the_disk mounted) = 0x9000"
  "file_descriptors mounted = replicate 512 0"
proof -
  obtain s1 where c: "kzalloc boot_files 4096 = (mounted_root, s1)"
    by (metis mounted_root_def prod.collapse)
  have snd: "snd (kzalloc boot_files 4096) = s1" by (simp add: c)
  obtain m where "s1 = boot_files\<lparr>mem := m\<rparr>" using kzalloc_mem[OF c] by blast
  note m = mounted_def[unfolded snd this]
  show "disk_private mounted = sample_private\<lparr>root_directory :=
     \<lparr>dir_item = mounted_root, total_items = 1, sector_position = 4, ending_sector_position = 10\<rparr>\<rparr>"
  "dir_items mounted = (\<lambda>_. [sample_item])" "filesystem (the_disk mounted) = 0x9000"
  "file_descriptors mounted = replicate 512 0"
    by (simp_all add: m disk_private_def) (simp_all add: boot_files_def)
qed

lemma mounted_path: "kstring mounted mounted_live 0x500 [48, 58, 47, 97, 46, 98]"
proof -
  have low: "unat a < 0x7E00" if "in_range 0x500 7 a" for a using that low_range[of 7 a] by simp
  have s: "Suc (length [48, 58, 47, 97, 46, 98 :: u8]) = 7" by simp
  have "cstr (mem mounted) 0x500 [48, 58, 47, 97, 46, 98] = cstr (mem boot_files) 0x500 [48, 58, 47, 97, 46, 98]"
  proof (rule cstr_cong, unfold s)
    show "mem mounted a = mem boot_files a" if "in_range 0x500 7 a" for a
      by (rule mounted_heap(4)[OF low[OF that]])
  qed
  then have "cstr (mem mounted) 0x500 [48, 58, 47, 97, 46, 98]" by (simp add: boot_files_def path_state_def)
  moreover have "kreserved mounted mounted_live a" if "in_range 0x500 7 a" for a
    by (rule boot_low_reserved[OF mounted_heap(3) low[OF that]])
  ultimately show ?thesis unfolding kstring_def s by blast
qed

text \<open>What opening the file on the mounted disk needs.\<close>

lemma mounted_setting:
  "7 \<le> avail mounted" "[97, 46, 98 :: u8] \<noteq> []" "47 \<notin> set [97, 46, 98 :: u8]" "length [97, 46, 98 :: u8] \<le> 125"
  "kreserved mounted mounted_live 0x508" "mem mounted 0x508 = 114" "filesystem (the_disk mounted) \<noteq> 0"
  "mounted_live (dir_item (root_directory (disk_private mounted))) \<noteq> None"
  "nat (total_items (root_directory (disk_private mounted))) = 1" "0 < (1 :: nat)"
  "k < 1 \<Longrightarrow> item_wf (nth_item mounted (root_directory (disk_private mounted)) k)"
  "k < 1 \<Longrightarrow> item_matches (nth_item mounted (root_directory (disk_private mounted)) k) [97, 46, 98] \<longleftrightarrow> k = 0"
  "attributes (nth_item mounted (root_directory (disk_private mounted)) 0) AND FAT_FILE_SUBDIRECTORY = 0"
  "in_range 0x600 128 a \<Longrightarrow> \<not> table_byte (kernel_heap mounted) a \<and> \<not> pool_byte (kernel_heap mounted) a"
  "pool_byte (kernel_heap mounted) a \<Longrightarrow> unat a < 2147483648"
  "free_slot (file_descriptors mounted) 0 = Some 0"
proof -
  show "kreserved mounted mounted_live 0x508" by (rule boot_low_reserved[OF mounted_heap(3)]) simp
  show "mem mounted 0x508 = 114" using mounted_heap(4)[of "0x508"] by (simp add: boot_files_def)
  show "in_range 0x600 128 a \<Longrightarrow> \<not> table_byte (kernel_heap mounted) a \<and> \<not> pool_byte (kernel_heap mounted) a"
    using in_range_nat[of "0x600" 128 a] by (simp add: mounted_heap(3) boot_ranges)
  show "free_slot (file_descriptors mounted) 0 = Some 0"
    unfolding free_slot_0 mounted_fields(4) by simp
qed (use sample_match in \<open>simp_all add: mounted_heap mounted_fields boot_ranges item_wf_def sample_item_def\<close>)

subsection \<open>Properties\<close>

text \<open>
  C18: on a mounted FAT16 disk, \<^verbatim>\<open>fopen\<close> of \<^verbatim>\<open>0:/name\<close> for reading, where the root
  directory holds exactly one entry of that name and it is a file, returns the
  number of the first free descriptor plus one; the descriptor leads to an open
  file at position 0 with a copy of that directory entry.
\<close>

theorem fopen_finds:
  assumes live: "live_regions s A" and av: "7 \<le> avail s"
    and path: "kstring s A path (48 # 58 # 47 # name)" "name \<noteq> []" "47 \<notin> set name" "length name \<le> 125"
    and md: "kreserved s A mode_str" "mem s mode_str = 114"
    and fs: "filesystem (the_disk s) \<noteq> 0" and directory: "directory = root_directory (disk_private s)"
    and dir: "A (dir_item directory) \<noteq> None" and n: "nat (total_items directory) = n" "j < n"
    and wf: "\<And>k. k < n \<Longrightarrow> item_wf (nth_item s directory k)"
    and match: "\<And>k. k < n \<Longrightarrow> item_matches (nth_item s directory k) name \<longleftrightarrow> k = j"
    and plain: "attributes (nth_item s directory j) AND FAT_FILE_SUBDIRECTORY = 0"
    and tmp: "\<And>a. in_range tmp 128 a \<Longrightarrow> \<not> table_byte (kernel_heap s) a \<and> \<not> pool_byte (kernel_heap s) a"
    and low: "\<And>a. pool_byte (kernel_heap s) a \<Longrightarrow> unat a < 2147483648"
    and slot: "free_slot (file_descriptors s) 0 = Some i"
  shows "\<exists>s' desc private f c. fopen (\<lambda>_. fat16_filesystem d tmp fs) path mode_str s = Some (int i + 1, s') \<and>
     file_descriptors s' = (file_descriptors s)[i := desc] \<and> desc \<noteq> 0 \<and>
     file_descs s' desc = \<lparr>fd_index = int i + 1, fd_filesystem = filesystem (the_disk s'),
       fd_private = private, fd_disk = Some ()\<rparr> \<and>
     descriptors s' private = \<lparr>desc_item = f, desc_position = 0\<rparr> \<and>
     fat_items s' f = \<lparr>item_ptr = c, item_type = FAT_ITEM_TYPE_FILE\<rparr> \<and>
     dir_items s' c = [nth_item s directory j]"
  by (rule fopen_file_spec[OF assms]) blast+

theorem fopen_finds_witness:
  "\<exists>s'. fopen (\<lambda>_. fat16_filesystem (image_disk of_nat) 0x600 0x9000) 0x500 0x508 mounted = Some (1, s') \<and>
     file_get_descriptor 1 s' \<noteq> 0"
proof -
  have "\<exists>s' desc private f c. fopen (\<lambda>_. fat16_filesystem (image_disk of_nat) 0x600 0x9000) 0x500 0x508 mounted =
       Some (int 0 + 1, s') \<and>
     file_descriptors s' = (file_descriptors mounted)[0 := desc] \<and> desc \<noteq> 0 \<and>
     file_descs s' desc = \<lparr>fd_index = int 0 + 1, fd_filesystem = filesystem (the_disk s'),
       fd_private = private, fd_disk = Some ()\<rparr> \<and>
     descriptors s' private = \<lparr>desc_item = f, desc_position = 0\<rparr> \<and>
     fat_items s' f = \<lparr>item_ptr = c, item_type = FAT_ITEM_TYPE_FILE\<rparr> \<and>
     dir_items s' c = [nth_item mounted (root_directory (disk_private mounted)) 0]"
    by (rule fopen_finds[OF mounted_heap(1) mounted_setting(1) mounted_path mounted_setting(2-7) refl
          mounted_setting(8-16)])
  then show ?thesis by (auto simp: file_get_descriptor_def mounted_fields(4))
qed

text \<open>
  \<^verbatim>\<open>fopen\<close> either returns 0 and leaves the tables of the file layer as they were, or
  it returns the number of the first free slot plus one and puts a descriptor with
  that number, the disk's file system and its private data there; nothing else in the
  tables changes.
\<close>

theorem fopen_table:
  assumes "fopen (\<lambda>_. fat16_filesystem d tmp fs) path mode_str s = Some (r, s')"
  shows "(r = 0 \<and> file_tables s' = file_tables s) \<or>
     (\<exists>i desc private. i < length (file_descriptors s) \<and> file_descriptors s ! i = 0 \<and>
       (\<forall>k < i. file_descriptors s ! k \<noteq> 0) \<and> r = int i + 1 \<and> \<not> ISERR private \<and>
       filesystems s' = filesystems s \<and> file_descriptors s' = (file_descriptors s)[i := desc] \<and>
       file_descs s' = (file_descs s)(desc := \<lparr>fd_index = r, fd_filesystem = filesystem (the_disk s'),
         fd_private = private, fd_disk = Some ()\<rparr>))"
  using assms
proof (cases rule: fat16_files.fopen_cases)
  case failed
  then show ?thesis by blast
next
  case (opened i desc pv)
  then show ?thesis
    by (intro disjI2 exI[of _ i] exI[of _ desc] exI[of _ pv]) (simp add: free_slot_0)
qed

lemma mounted_opens:
  obtains s' where "fopen (\<lambda>_. fat16_filesystem (image_disk of_nat) 0x600 0x9000) 0x500 0x508 mounted = Some (1, s')"
    "file_get_descriptor 1 s' \<noteq> 0"
proof (rule fopen_file_spec[OF mounted_heap(1) mounted_setting(1) mounted_path mounted_setting(2-7) refl
          mounted_setting(8-16)])
  fix s' desc
  assume "fopen (\<lambda>_. fat16_filesystem (image_disk of_nat) 0x600 0x9000) 0x500 0x508 mounted = Some (int 0 + 1, s')"
    and "file_descriptors s' = (file_descriptors mounted)[0 := desc]" "desc \<noteq> 0"
  then show thesis by (intro that[of s']) (simp_all add: file_get_descriptor_def mounted_fields(4))
qed

theorem fopen_table_witness:
  "\<exists>s' desc. fopen (\<lambda>_. fat16_filesystem (image_disk of_nat) 0x600 0x9000) 0x500 0x508 mounted = Some (1, s') \<and>
     file_descriptors s' = (replicate 512 0)[0 := desc]"
proof -
  obtain s' where o: "fopen (\<lambda>_. fat16_filesystem (image_disk of_nat) 0x600 0x9000) 0x500 0x508 mounted = Some (1, s')"
    by (rule mounted_opens)
  from fopen_table[OF o] obtain i desc where "(1 :: int) = int i + 1"
    "file_descriptors s' = (file_descriptors mounted)[i := desc]" by auto
  then have "file_descriptors s' = (replicate 512 0)[0 := desc]" by (simp add: mounted_fields(4))
  with o show ?thesis by blast
qed

text \<open>
  C19: closing a descriptor that \<^verbatim>\<open>fopen\<close> returned gives its slot back, so that the
  table is as before opening, and closing it again is refused with EIO.  The last
  slot is the exception: its number 512 is not accepted by any operation, so that
  file can never be closed.
\<close>

theorem fopen_fclose_restores:
  assumes "fopen (\<lambda>_. fat16_filesystem d tmp fs) path mode_str s = Some (r, s1)" "0 < r"
    and "length (file_descriptors s) = 512"
  shows "(r < 512 \<and> file_get_descriptor r s1 \<noteq> 0 \<longrightarrow>
       (\<exists>s2. fclose (\<lambda>_. fat16_filesystem d tmp fs) r s1 = (0, s2) \<and> file_descriptors s2 = file_descriptors s \<and>
         filesystems s2 = filesystems s \<and> fclose (\<lambda>_. fat16_filesystem d tmp fs) r s2 = (- 1, s2))) \<and>
     (\<not> r < 512 \<longrightarrow> r = 512 \<and> fclose (\<lambda>_. fat16_filesystem d tmp fs) r s1 = (- 1, s1))"
proof (intro conjI impI)
  assume "r < 512 \<and> file_get_descriptor r s1 \<noteq> 0"
  then show "\<exists>s2. fclose (\<lambda>_. fat16_filesystem d tmp fs) r s1 = (0, s2) \<and>
      file_descriptors s2 = file_descriptors s \<and> filesystems s2 = filesystems s \<and>
      fclose (\<lambda>_. fat16_filesystem d tmp fs) r s2 = (- 1, s2)"
    using fat16_files.fopen_fclose[OF assms(1,2) _ assms(3)] by blast
next
  assume "\<not> r < 512"
  from assms(1) show "r = 512"
  proof (cases rule: fat16_files.fopen_cases)
    case (opened i desc pv)
    then show ?thesis using \<open>\<not> r < 512\<close> assms(3) by (simp add: free_slot_0)
  qed (use assms(2) in simp)
next
  assume "\<not> r < 512"
  then have "file_get_descriptor r s1 = 0" by (simp add: file_get_descriptor_def)
  then show "fclose (\<lambda>_. fat16_filesystem d tmp fs) r s1 = (- 1, s1)" by (rule fat16_files.fclose_closed)
qed

theorem fopen_fclose_restores_witness:
  "\<exists>s1 s2. fopen (\<lambda>_. fat16_filesystem (image_disk of_nat) 0x600 0x9000) 0x500 0x508 mounted = Some (1, s1) \<and>
     fclose (\<lambda>_. fat16_filesystem (image_disk of_nat) 0x600 0x9000) 1 s1 = (0, s2) \<and>
     file_descriptors s2 = replicate 512 0"
proof -
  obtain s' where o: "fopen (\<lambda>_. fat16_filesystem (image_disk of_nat) 0x600 0x9000) 0x500 0x508 mounted = Some (1, s')"
    "file_get_descriptor 1 s' \<noteq> 0" by (rule mounted_opens)
  with fopen_fclose_restores[OF o(1)] show ?thesis by (auto simp: mounted_fields(4))
qed

end
