(* ===== verification/Boi_Elf.thy ===== *)
theory Boi_Elf
  imports Boi_File
begin

text \<open>
  ELF images: the structs of \<^verbatim>\<open>src/src/loader/formats/elf.h\<close>, read from the memory the
  file was loaded to, and the loader \<^verbatim>\<open>src/src/loader/formats/elfloader.c\<close>.
\<close>

subsection \<open>Headers in memory\<close>

record elf32_header =
  e_ident :: "u8 list"
  e_type :: u16
  e_machine :: u16
  e_version :: u32
  e_entry :: u32
  e_phoff :: u32
  e_shoff :: u32
  e_flags :: u32
  e_ehsize :: u16
  e_phentsie :: u16
  e_phnum :: u16
  e_shentsize :: u16
  e_shnum :: u16
  e_shstrndx :: u16

record elf32_phdr =
  p_type :: u32
  p_offset :: u32
  p_vaddr :: u32
  p_paddr :: u32
  p_filesz :: u32
  p_memsz :: u32
  p_flags :: u32
  p_align :: u32

record elf32_shdr =
  sh_name :: u32
  sh_type :: u32
  sh_flags :: u32
  sh_addr :: u32
  sh_offset :: u32
  sh_size :: u32
  sh_link :: u32
  sh_info :: u32
  sh_addralign :: u32
  sh_entsize :: u32

text \<open>The structs are packed: their fields follow each other without padding.\<close>

definition elf32_header_at :: "memory \<Rightarrow> addr \<Rightarrow> elf32_header" where
  "elf32_header_at m h =
     \<lparr>e_ident = map (\<lambda>i. m (h + of_nat i)) [0..<16], e_type = read16 m (h + 16),
      e_machine = read16 m (h + 18), e_version = read32 m (h + 20), e_entry = read32 m (h + 24),
      e_phoff = read32 m (h + 28), e_shoff = read32 m (h + 32), e_flags = read32 m (h + 36),
      e_ehsize = read16 m (h + 40), e_phentsie = read16 m (h + 42), e_phnum = read16 m (h + 44),
      e_shentsize = read16 m (h + 46), e_shnum = read16 m (h + 48), e_shstrndx = read16 m (h + 50)\<rparr>"

definition elf32_phdr_at :: "memory \<Rightarrow> addr \<Rightarrow> elf32_phdr" where
  "elf32_phdr_at m p =
     \<lparr>p_type = read32 m p, p_offset = read32 m (p + 4), p_vaddr = read32 m (p + 8),
      p_paddr = read32 m (p + 12), p_filesz = read32 m (p + 16), p_memsz = read32 m (p + 20),
      p_flags = read32 m (p + 24), p_align = read32 m (p + 28)\<rparr>"

definition elf32_shdr_at :: "memory \<Rightarrow> addr \<Rightarrow> elf32_shdr" where
  "elf32_shdr_at m p =
     \<lparr>sh_name = read32 m p, sh_type = read32 m (p + 4), sh_flags = read32 m (p + 8),
      sh_addr = read32 m (p + 12), sh_offset = read32 m (p + 16), sh_size = read32 m (p + 20),
      sh_link = read32 m (p + 24), sh_info = read32 m (p + 28), sh_addralign = read32 m (p + 32),
      sh_entsize = read32 m (p + 36)\<rparr>"

abbreviation PF_W :: u32 where "PF_W \<equiv> 0x02"
abbreviation PT_LOAD :: u32 where "PT_LOAD \<equiv> 1"
abbreviation ET_EXEC :: u16 where "ET_EXEC \<equiv> 2"
abbreviation BOIOS_PROGRAM_VIRTUAL_ADDRESS :: addr where "BOIOS_PROGRAM_VIRTUAL_ADDRESS \<equiv> 0x400000"

definition elf_get_entry :: "elf32_header \<Rightarrow> u32" where
  "elf_get_entry h = e_entry h"

definition elf_get_entry_pointer :: "elf32_header \<Rightarrow> addr" where
  "elf_get_entry_pointer h = e_entry h"

subsection \<open>Checks\<close>

definition elf_valid_signature :: "memory \<Rightarrow> addr \<Rightarrow> bool" where
  "elf_valid_signature m buffer \<longleftrightarrow>
     m buffer = 0x7F \<and> m (buffer + 1) = 0x45 \<and> m (buffer + 2) = 0x4C \<and> m (buffer + 3) = 0x46"

definition elf_valid_class :: "elf32_header \<Rightarrow> bool" where
  "elf_valid_class h \<longleftrightarrow> e_ident h ! 4 = 0 \<or> e_ident h ! 4 = 1"

definition elf_valid_encoding :: "elf32_header \<Rightarrow> bool" where
  "elf_valid_encoding h \<longleftrightarrow> e_ident h ! 5 = 0 \<or> e_ident h ! 5 = 1"

definition elf_is_executable :: "elf32_header \<Rightarrow> bool" where
  "elf_is_executable h \<longleftrightarrow> e_type h = ET_EXEC \<and> e_entry h \<ge> BOIOS_PROGRAM_VIRTUAL_ADDRESS"

definition elf_has_program_header :: "elf32_header \<Rightarrow> bool" where
  "elf_has_program_header h \<longleftrightarrow> e_phoff h \<noteq> 0"

text \<open>\<^verbatim>\<open>elf_is_executable\<close> is not called by the loader.\<close>

definition elf_validate_loaded :: "memory \<Rightarrow> addr \<Rightarrow> int" where
  "elf_validate_loaded m hdr =
     (let h = elf32_header_at m hdr
      in if elf_valid_signature m hdr \<and> elf_valid_class h \<and> elf_valid_encoding h \<and> elf_has_program_header h
         then 0 else - errno EINFORMAT)"

subsection \<open>Tables of the image\<close>

definition elf_sheader :: "memory \<Rightarrow> addr \<Rightarrow> addr" where
  "elf_sheader m hdr = hdr + e_shoff (elf32_header_at m hdr)"

definition elf_pheader :: "memory \<Rightarrow> addr \<Rightarrow> addr" where
  "elf_pheader m hdr =
     (if \<not> elf_has_program_header (elf32_header_at m hdr) then 0
      else hdr + e_phoff (elf32_header_at m hdr))"

definition elf_program_header :: "memory \<Rightarrow> addr \<Rightarrow> nat \<Rightarrow> addr" where
  "elf_program_header m hdr index =
     (if \<not> elf_has_program_header (elf32_header_at m hdr) then 0
      else elf_pheader m hdr + 32 * of_nat index)"

definition elf_section :: "memory \<Rightarrow> addr \<Rightarrow> nat \<Rightarrow> addr" where
  "elf_section m hdr index = elf_sheader m hdr + 40 * of_nat index"

definition elf_str_table :: "memory \<Rightarrow> addr \<Rightarrow> addr" where
  "elf_str_table m hdr =
     hdr + sh_offset (elf32_shdr_at m (elf_section m hdr (unat (e_shstrndx (elf32_header_at m hdr)))))"

subsection \<open>Loaded files\<close>

record elf_file =
  elf_filename :: "u8 list"
  in_memory_size :: int
  elf_memory_ptr :: addr
  virtual_base_address :: addr
  virtual_end_address :: addr
  physical_base_address :: addr
  physical_end_address :: addr

definition zero_elf_file :: elf_file where
  "zero_elf_file = \<lparr>elf_filename = replicate 128 0, in_memory_size = 0, elf_memory_ptr = 0,
     virtual_base_address = 0, virtual_end_address = 0, physical_base_address = 0, physical_end_address = 0\<rparr>"

definition elf_memory :: "elf_file \<Rightarrow> addr" where "elf_memory file = elf_memory_ptr file"
definition elf_header :: "elf_file \<Rightarrow> addr" where "elf_header file = elf_memory_ptr file"
definition elf_virtual_base :: "elf_file \<Rightarrow> addr" where "elf_virtual_base file = virtual_base_address file"
definition elf_virtual_end :: "elf_file \<Rightarrow> addr" where "elf_virtual_end file = virtual_end_address file"
definition elf_physical_base :: "elf_file \<Rightarrow> addr" where "elf_physical_base file = physical_base_address file"
definition elf_physical_end :: "elf_file \<Rightarrow> addr" where "elf_physical_end file = physical_end_address file"

definition elf_phdr_phys_address :: "elf_file \<Rightarrow> elf32_phdr \<Rightarrow> addr" where
  "elf_phdr_phys_address file phdr = elf_memory file + p_offset phdr"

definition elf_process_phdr_pt_load :: "elf_file \<Rightarrow> elf32_phdr \<Rightarrow> elf_file" where
  "elf_process_phdr_pt_load f phdr =
     (let f = (if virtual_base_address f \<ge> p_vaddr phdr \<or> virtual_base_address f = 0
               then f\<lparr>virtual_base_address := p_vaddr phdr,
                      physical_base_address := elf_memory f + p_offset phdr\<rparr> else f);
          end_virtual_address = p_vaddr phdr + p_filesz phdr
      in if virtual_end_address f \<le> end_virtual_address \<or> virtual_end_address f = 0
         then f\<lparr>virtual_end_address := end_virtual_address,
                physical_end_address := elf_memory f + p_offset phdr + p_filesz phdr\<rparr> else f)"

definition elf_process_pheader :: "elf_file \<Rightarrow> elf32_phdr \<Rightarrow> elf_file" where
  "elf_process_pheader f phdr = (if p_type phdr = PT_LOAD then elf_process_phdr_pt_load f phdr else f)"

text \<open>The headers are processed from index \<open>i\<close> on, \<open>n\<close> of them; no step fails.\<close>

fun elf_process_pheaders_loop :: "memory \<Rightarrow> addr \<Rightarrow> elf_file \<Rightarrow> nat \<Rightarrow> nat \<Rightarrow> elf_file" where
  "elf_process_pheaders_loop m hdr f i 0 = f"
| "elf_process_pheaders_loop m hdr f i (Suc n) =
     elf_process_pheaders_loop m hdr
       (elf_process_pheader f (elf32_phdr_at m (elf_program_header m hdr i))) (i + 1) n"

definition elf_process_pheaders :: "memory \<Rightarrow> elf_file \<Rightarrow> elf_file" where
  "elf_process_pheaders m f =
     elf_process_pheaders_loop m (elf_header f) f 0 (unat (e_phnum (elf32_header_at m (elf_header f))))"

definition elf_process_loaded :: "memory \<Rightarrow> elf_file \<Rightarrow> int \<times> elf_file" where
  "elf_process_loaded m f =
     (let res = elf_validate_loaded m (elf_header f)
      in if res < 0 then (res, f) else (0, elf_process_pheaders m f))"

record elf_state = file_state +
  elf_files :: "addr \<Rightarrow> elf_file"

text \<open>
  \<open>r_str\<close> is the address of the literal \<^verbatim>\<open>"r"\<close>.  The file written through \<^verbatim>\<open>file_out\<close>
  on success is returned; a failed load still holds its allocations.
\<close>

definition elf_load ::
    "(addr \<Rightarrow> ('z elf_state_scheme) filesystem_ops) \<Rightarrow> addr \<Rightarrow> addr \<Rightarrow> 'z elf_state_scheme \<Rightarrow>
     (int \<times> addr option \<times> 'z elf_state_scheme) option" where
  "elf_load ops r_str filename s =
     (let (elf_file, s) = kzalloc s 152;
          s = s\<lparr>elf_files := (elf_files s)(elf_file := zero_elf_file)\<rparr>;
          out = (\<lambda>fd res file s. Some (res, file, snd (fclose ops fd s)))
      in do {
        (res, s) \<leftarrow> fopen ops filename r_str s;
        if res \<le> 0 then out 0 (- errno EIO) None s
        else
          let fd = res;
              (res, stat) = fstat ops fd \<lparr>stat_flags = 0, stat_file_size = 0\<rparr> s
          in if res < 0 then out fd res None s
             else
               let (p, s) = kzalloc s (stat_file_size stat);
                   s = s\<lparr>elf_files := (elf_files s)(elf_file := (elf_files s elf_file)\<lparr>elf_memory_ptr := p\<rparr>)\<rparr>
               in do {
                 (res, s) \<leftarrow> fread ops p (stat_file_size stat) 1 fd s;
                 if res < 0 then out fd res None s
                 else
                   let (res, f) = elf_process_loaded (mem s) (elf_files s elf_file);
                       s = s\<lparr>elf_files := (elf_files s)(elf_file := f)\<rparr>
                   in if res < 0 then out fd res None s else out fd res (Some elf_file) s
               }
      })"

definition elf_close :: "addr \<Rightarrow> 'z elf_state_scheme \<Rightarrow> 'z elf_state_scheme" where
  "elf_close elf_file s =
     (if elf_file = 0 then s
      else kfree (kfree s (elf_memory_ptr (elf_files s elf_file))) elf_file)"

subsection \<open>The bounds of the loaded image\<close>

text \<open>The program headers of an image and its loadable segments.\<close>

definition elf_phdrs :: "memory \<Rightarrow> addr \<Rightarrow> elf32_phdr list" where
  "elf_phdrs m hdr = map (\<lambda>i. elf32_phdr_at m (elf_program_header m hdr i))
     [0..<unat (e_phnum (elf32_header_at m hdr))]"

definition load_segments :: "memory \<Rightarrow> addr \<Rightarrow> elf32_phdr list" where
  "load_segments m hdr = filter (\<lambda>p. p_type p = PT_LOAD) (elf_phdrs m hdr)"

definition segment_end :: "elf32_phdr \<Rightarrow> addr" where
  "segment_end p = p_vaddr p + p_filesz p"

lemma process_pheaders_loop_foldl:
  "elf_process_pheaders_loop m hdr f i n =
     foldl elf_process_pheader f (map (\<lambda>k. elf32_phdr_at m (elf_program_header m hdr k)) [i..<i + n])"
proof (induction n arbitrary: f i)
  case (Suc n)
  have "[i..<i + Suc n] = i # [Suc i..<Suc i + n]" by (simp add: upt_conv_Cons)
  then show ?case using Suc.IH[of "elf_process_pheader f (elf32_phdr_at m (elf_program_header m hdr i))" "Suc i"]
    by (simp only: elf_process_pheaders_loop.simps list.map foldl_Cons add_Suc_right One_nat_def add_0_right)
qed simp

lemma foldl_loadable:
  "foldl elf_process_pheader f ps =
     foldl elf_process_phdr_pt_load f (filter (\<lambda>p. p_type p = PT_LOAD) ps)"
  by (induction ps arbitrary: f) (simp_all add: elf_process_pheader_def)

lemma process_pheaders_segments:
  "elf_process_pheaders m f = foldl elf_process_phdr_pt_load f (load_segments m (elf_memory_ptr f))"
  by (simp add: elf_process_pheaders_def process_pheaders_loop_foldl foldl_loadable load_segments_def
      elf_phdrs_def elf_header_def)

text \<open>A loaded file whose bounds are tight around the segments \<open>L\<close>.\<close>

definition bounds_tight :: "addr \<Rightarrow> elf32_phdr list \<Rightarrow> elf_file \<Rightarrow> bool" where
  "bounds_tight base_addr L f \<longleftrightarrow>
     (\<exists>s \<in> set L. virtual_base_address f = p_vaddr s \<and> physical_base_address f = base_addr + p_offset s) \<and>
     (\<exists>s \<in> set L. virtual_end_address f = segment_end s \<and>
        physical_end_address f = base_addr + p_offset s + p_filesz s) \<and>
     (\<forall>s \<in> set L. virtual_base_address f \<le> p_vaddr s \<and> segment_end s \<le> virtual_end_address f)"

lemma pt_load_memory [simp]: "elf_memory_ptr (elf_process_phdr_pt_load f p) = elf_memory_ptr f"
  by (simp add: elf_process_phdr_pt_load_def Let_def)

lemma pt_load_first:
  assumes "virtual_base_address f = 0" "virtual_end_address f = 0"
  shows "bounds_tight (elf_memory_ptr f) [p] (elf_process_phdr_pt_load f p)"
  using assms by (simp add: bounds_tight_def elf_process_phdr_pt_load_def elf_memory_def segment_end_def Let_def)

lemma pt_load_next:
  assumes "bounds_tight (elf_memory_ptr f) L f" "\<forall>s \<in> set L. p_vaddr s \<noteq> 0 \<and> segment_end s \<noteq> 0"
  shows "bounds_tight (elf_memory_ptr f) (p # L) (elf_process_phdr_pt_load f p)"
proof -
  have nz: "virtual_base_address f \<noteq> 0" "virtual_end_address f \<noteq> 0"
    using assms by (auto simp: bounds_tight_def)
  show ?thesis
    using assms(1) nz
    by (auto simp: bounds_tight_def elf_process_phdr_pt_load_def elf_memory_def segment_end_def Let_def
        intro: order_trans)
qed

lemma pt_load_all:
  "bounds_tight (elf_memory_ptr f) M f \<Longrightarrow> \<forall>s \<in> set (L @ M). p_vaddr s \<noteq> 0 \<and> segment_end s \<noteq> 0 \<Longrightarrow>
     bounds_tight (elf_memory_ptr f) (rev L @ M) (foldl elf_process_phdr_pt_load f L)"
proof (induction L arbitrary: f M)
  case (Cons p L)
  have "bounds_tight (elf_memory_ptr f) (p # M) (elf_process_phdr_pt_load f p)"
    using Cons.prems by (intro pt_load_next) auto
  with Cons.IH[of "elf_process_phdr_pt_load f p" "p # M"] Cons.prems(2) show ?case by simp
qed simp

lemma process_loaded_bounds:
  assumes "elf_validate_loaded m (elf_memory_ptr f) = 0"
    and "virtual_base_address f = 0" "virtual_end_address f = 0"
    and "load_segments m (elf_memory_ptr f) = L" "L \<noteq> []"
    and "\<forall>s \<in> set L. p_vaddr s \<noteq> 0 \<and> segment_end s \<noteq> 0"
  shows "fst (elf_process_loaded m f) = 0" "bounds_tight (elf_memory_ptr f) L (snd (elf_process_loaded m f))"
proof -
  obtain p M where L: "L = p # M" using assms(5) by (cases L) auto
  have "bounds_tight (elf_memory_ptr f) (rev M @ [p]) (foldl elf_process_phdr_pt_load f L)"
    using pt_load_all[of "elf_process_phdr_pt_load f p" "[p]" M] pt_load_first[OF assms(2,3)] assms(6)
    by (simp add: L)
  then have "bounds_tight (elf_memory_ptr f) L (foldl elf_process_phdr_pt_load f L)"
    by (auto simp: bounds_tight_def L)
  then show "fst (elf_process_loaded m f) = 0" "bounds_tight (elf_memory_ptr f) L (snd (elf_process_loaded m f))"
    using assms(1,4) by (simp_all add: elf_process_loaded_def elf_header_def process_pheaders_segments)
qed

subsection \<open>The descriptor of the loader\<close>

context file_layer
begin

lemma fclose_after:
  assumes o: "fopen ops f md s = Some (r, s1)" and r: "0 < r" "r < 512" "length (file_descriptors s) = 512"
    and t: "file_tables s2 = file_tables s1"
  shows "file_descriptors (snd (fclose ops r s2)) = file_descriptors s"
    "filesystems (snd (fclose ops r s2)) = filesystems s"
proof -
  have "file_descriptors (snd (fclose ops r s2)) = file_descriptors s \<and>
      filesystems (snd (fclose ops r s2)) = filesystems s"
    using o
  proof (cases rule: fopen_cases)
    case failed
    then show ?thesis using r by simp
  next
    case (opened i desc pv)
    have i: "i < 512" "file_descriptors s ! i = 0" "nat r = Suc i" "nat (r - 1) = i"
      using opened(1,2) r by (auto simp: free_slot_0)
    have same: "file_descriptors s2 = (file_descriptors s)[i := desc]" "filesystems s2 = filesystems s"
      "file_descs s2 desc = file_descs s1 desc"
      using t opened by (simp_all add: file_tables_def)
    have g: "file_get_descriptor r s2 = desc" using same(1) i r by (simp add: file_get_descriptor_def)
    show ?thesis
    proof (cases "desc = 0")
      case True
      then have "file_descriptors s2 = file_descriptors s" using same(1) i(2) by (metis list_update_id)
      then show ?thesis using fclose_closed[of r s2] g True same(2) by simp
    next
      case False
      have "\<exists>s3. fclose ops r s2 = (0, s3) \<and> filesystems s3 = filesystems s2 \<and> file_descs s3 = file_descs s2 \<and>
          file_descriptors s3 = (file_descriptors s2)[nat (fd_index (file_descs s2 desc) - 1) := 0]"
        using g False by (intro fclose_open)
      moreover have "nat (fd_index (file_descs s2 desc) - 1) = i" using same(3) opened(6) i by simp
      moreover have "(file_descriptors s2)[i := 0] = file_descriptors s"
        using same(1) i(2) by (metis list_update_id list_update_overwrite)
      ultimately show ?thesis using same(2) by auto
    qed
  qed
  then show "file_descriptors (snd (fclose ops r s2)) = file_descriptors s"
    "filesystems (snd (fclose ops r s2)) = filesystems s" by blast+
qed

end

lemma elf_files_tables [tables_simps]: "file_tables (s\<lparr>elf_files := e\<rparr>) = file_tables s"
  by (simp add: file_tables_def)

lemma elf_load_tables:
  assumes l: "elf_load (\<lambda>_. fat16_filesystem d tmp fs) r_str filename s = Some (res, file_out, s')"
    and len: "length (file_descriptors s) = 512"
  shows "filesystems s' = filesystems s \<and> (res = 0 \<longleftrightarrow> file_out \<noteq> None) \<and> res \<le> 0 \<and>
     (file_descriptors s' = file_descriptors s \<or>
      free_slot (file_descriptors s) 0 = Some 511 \<and> file_out = None \<and>
        (\<exists>desc. file_descriptors s' = (file_descriptors s)[511 := desc]))"
proof -
  let ?ops = "\<lambda>_. fat16_filesystem d tmp fs"
  obtain ef s0 where z: "kzalloc s 152 = (ef, s0)" by fastforce
  let ?s0 = "s0\<lparr>elf_files := (elf_files s0)(ef := zero_elf_file)\<rparr>"
  have t0: "file_tables ?s0 = file_tables s" using kzalloc_tables'[OF z] by (simp add: tables_simps)
  obtain r s1 where o: "fopen ?ops filename r_str ?s0 = Some (r, s1)"
    using l z by (auto simp: elf_load_def split: Option.bind_splits)
  show ?thesis
  proof (cases "r \<le> 0")
    case True
    have "file_tables s1 = file_tables ?s0" using o
      by (cases rule: fat16_files.fopen_cases) (use True in auto)
    moreover have "fclose ?ops 0 s1 = (- 1, s1)" by (rule fat16_files.fclose_closed) (simp add: file_get_descriptor_def)
    ultimately show ?thesis using l z o True t0 by (simp add: elf_load_def file_tables_def)
  next
    case False
    obtain i desc where i: "free_slot (file_descriptors s) 0 = Some i" "r = int i + 1"
      "file_descriptors s1 = (file_descriptors s)[i := desc]" "filesystems s1 = filesystems s"
      using o by (cases rule: fat16_files.fopen_cases) (use False t0 in \<open>auto simp: file_tables_def\<close>)
    then have i512: "i < 512" using len by (simp add: free_slot_0)
    show ?thesis
    proof (cases "i = 511")
      case True
      then have "file_get_descriptor r s1 = 0" using i(2) by (simp add: file_get_descriptor_def)
      moreover from this have "fclose ?ops r s1 = (- 1, s1)" by (rule fat16_files.fclose_closed)
      ultimately have "res = - errno EIO" "file_out = None" "s' = s1"
        using l z o False by (simp_all add: elf_load_def fstat_def)
      then show ?thesis using i True by auto
    next
    case last: False
    have r: "0 < r" "r < 512" using i(2) i512 last by simp_all
    have "\<exists>s2. s' = snd (fclose ?ops r s2) \<and> file_tables s2 = file_tables s1 \<and>
        (res = 0 \<longleftrightarrow> file_out \<noteq> None) \<and> res \<le> 0"
      using l z o False
      by (auto simp: elf_load_def Let_def elf_process_loaded_def elf_validate_loaded_def
          dest!: fat16_files.fread_tables kzalloc_tables' split: prod.splits if_splits Option.bind_splits)
        (rule exI, rule conjI, rule refl, simp add: tables_simps)+
    then obtain s2 where s2: "s' = snd (fclose ?ops r s2)" "file_tables s2 = file_tables s1"
      "(res = 0 \<longleftrightarrow> file_out \<noteq> None) \<and> res \<le> 0" by blast
    have "length (file_descriptors ?s0) = 512" using t0 len by (simp add: file_tables_def)
    note c = fat16_files.fclose_after[OF o r this s2(2)]
    show ?thesis using c t0 s2(1,3) by (simp add: file_tables_def)
    qed
  qed
qed

subsection \<open>Properties\<close>

text \<open>
  C31: for a valid image whose loadable segments \<open>L\<close> do not start or end at address
  0, processing succeeds, and the recorded bounds are tight: the virtual base is the
  least start and the virtual end the greatest end of the segments, and the physical
  base and end are the places in the loaded file of segments that attain them.
\<close>

theorem elf_process_loaded_bounds:
  assumes "elf_validate_loaded m (elf_memory_ptr f) = 0"
    and "virtual_base_address f = 0" "virtual_end_address f = 0"
    and "load_segments m (elf_memory_ptr f) = L" "L \<noteq> []"
    and "\<forall>s \<in> set L. p_vaddr s \<noteq> 0 \<and> segment_end s \<noteq> 0"
  shows "\<exists>f'. elf_process_loaded m f = (0, f') \<and>
     (\<exists>s \<in> set L. virtual_base_address f' = p_vaddr s \<and>
        physical_base_address f' = elf_memory_ptr f + p_offset s) \<and>
     (\<exists>s \<in> set L. virtual_end_address f' = segment_end s \<and>
        physical_end_address f' = elf_memory_ptr f + p_offset s + p_filesz s) \<and>
     (\<forall>s \<in> set L. virtual_base_address f' \<le> p_vaddr s \<and> segment_end s \<le> virtual_end_address f')"
  using process_loaded_bounds[OF assms] unfolding bounds_tight_def by (metis prod.collapse)

definition sample_elf_bytes :: memory where
  "sample_elf_bytes = (\<lambda>_. 0)(0x1000 := 0x7F, 0x1001 := 0x45, 0x1002 := 0x4C, 0x1003 := 0x46,
     0x1004 := 1, 0x1005 := 1, 0x101C := 0x34, 0x102C := 2,
     0x1034 := 1, 0x103D := 0x20, 0x103E := 0x40, 0x1044 := 0x10,
     0x1054 := 1, 0x105E := 0x40, 0x1064 := 0x80)"

definition sample_phdr :: "u32 \<Rightarrow> u32 \<Rightarrow> elf32_phdr" where
  "sample_phdr v n = \<lparr>p_type = 1, p_offset = 0, p_vaddr = v, p_paddr = 0, p_filesz = n, p_memsz = 0,
     p_flags = 0, p_align = 0\<rparr>"

lemma sample_phdrs:
  "elf32_phdr_at sample_elf_bytes 0x1034 = sample_phdr 0x402000 0x10"
  "elf32_phdr_at sample_elf_bytes 0x1054 = sample_phdr 0x400000 0x80"
  by (simp_all add: elf32_phdr_at_def read32_def sample_elf_bytes_def sample_phdr_def)

lemma sample_header:
  "e_phnum (elf32_header_at sample_elf_bytes 0x1000) = 2"
  "e_phoff (elf32_header_at sample_elf_bytes 0x1000) = 0x34"
  by (simp_all add: elf32_header_at_def read32_def read16_def sample_elf_bytes_def)

lemma sample_valid: "elf_validate_loaded sample_elf_bytes 0x1000 = 0"
  using sample_header
  by (simp add: elf_validate_loaded_def elf_valid_signature_def elf_valid_class_def elf_valid_encoding_def
      elf_has_program_header_def) (simp add: elf32_header_at_def sample_elf_bytes_def)

lemma sample_elf_segments:
  "load_segments sample_elf_bytes 0x1000 = [sample_phdr 0x402000 0x10, sample_phdr 0x400000 0x80]"
proof -
  have u: "[0..<2] = [0, Suc 0]" by (simp add: upt_conv_Cons)
  show ?thesis
    by (simp add: load_segments_def elf_phdrs_def sample_header u elf_program_header_def elf_pheader_def
        elf_has_program_header_def sample_phdrs) (simp add: sample_phdr_def)
qed

theorem elf_process_loaded_bounds_witness:
  "\<exists>f'. elf_process_loaded sample_elf_bytes (zero_elf_file\<lparr>elf_memory_ptr := 0x1000\<rparr>) = (0, f') \<and>
     virtual_base_address f' = 0x400000 \<and> virtual_end_address f' = 0x402010"
proof -
  let ?f = "zero_elf_file\<lparr>elf_memory_ptr := 0x1000\<rparr>"
  have "elf_validate_loaded sample_elf_bytes (elf_memory_ptr ?f) = 0" by (simp add: sample_valid)
  from elf_process_loaded_bounds[OF this _ _ _ list.distinct(2),
      of "sample_phdr 0x402000 0x10" "[sample_phdr 0x400000 0x80]"] sample_elf_segments
  obtain f' where f': "elf_process_loaded sample_elf_bytes ?f = (0, f')"
    "virtual_base_address f' \<in> {0x402000, 0x400000}" "virtual_end_address f' \<in> {0x402010, 0x400080}"
    "virtual_base_address f' \<le> 0x400000" "0x402010 \<le> virtual_end_address f'"
    by (auto simp: zero_elf_file_def sample_phdr_def segment_end_def)
  then show ?thesis by (intro exI[of _ f']) auto
qed

end
