(* ===== verification/Boi_Task.thy ===== *)
theory Boi_Task
  imports Boi_Elf
begin

text \<open>
  Tasks (\<^verbatim>\<open>src/src/task/task.c\<close>): the address space and the saved registers of a
  process, the list of tasks, switching between address spaces, and copies from the
  memory of a task.  \<^verbatim>\<open>kernel_page\<close> of \<^verbatim>\<open>src/src/kernel.c\<close> is here, and so is
  \<^verbatim>\<open>struct process\<close>, which a task points to.
\<close>

subsection \<open>State\<close>

record registers =
  r_edi :: u32
  r_esi :: u32
  r_ebp :: u32
  r_ebx :: u32
  r_edx :: u32
  r_ecx :: u32
  r_eax :: u32
  r_ip :: u32
  r_cs :: u32
  r_flags :: u32
  r_esp :: u32
  r_ss :: u32

record interrupt_frame =
  f_edi :: u32
  f_esi :: u32
  f_ebp :: u32
  f_reserved :: u32
  f_ebx :: u32
  f_edx :: u32
  f_ecx :: u32
  f_eax :: u32
  f_ip :: u32
  f_cs :: u32
  f_flags :: u32
  f_esp :: u32
  f_ss :: u32

record task =
  t_page_directory :: addr
  t_registers :: registers
  t_next :: addr
  t_prev :: addr
  t_process :: addr

record process_allocation =
  alloc_ptr :: addr
  alloc_size :: u32

record keyboard_buffer =
  kb_buffer :: "u8 list"
  kb_tail :: u32
  kb_head :: u32

abbreviation BOIOS_MAX_PROGRAM_ALLOCATIONS :: nat where "BOIOS_MAX_PROGRAM_ALLOCATIONS \<equiv> 1024"
abbreviation BOIOS_KEYBOARD_BUFFER_SIZE :: nat where "BOIOS_KEYBOARD_BUFFER_SIZE \<equiv> 1024"

text \<open>\<open>pr_ptr\<close> is the union of the program data and the ELF file.\<close>

record process =
  pr_pid :: u16
  pr_filename :: "u8 list"
  pr_task :: addr
  pr_allocations :: "process_allocation list"
  pr_filetype :: u8
  pr_ptr :: addr
  pr_stack :: addr
  pr_size :: u32
  pr_keyboard :: keyboard_buffer
  pr_argc :: u32
  pr_argv :: addr

abbreviation PROCESS_FILE_TYPE_ELF :: u8 where "PROCESS_FILE_TYPE_ELF \<equiv> 0"
abbreviation PROCESS_FILE_TYPE_BIN :: u8 where "PROCESS_FILE_TYPE_BIN \<equiv> 1"

definition zero_registers :: registers where
  "zero_registers = \<lparr>r_edi = 0, r_esi = 0, r_ebp = 0, r_ebx = 0, r_edx = 0, r_ecx = 0, r_eax = 0,
     r_ip = 0, r_cs = 0, r_flags = 0, r_esp = 0, r_ss = 0\<rparr>"

definition zero_task :: task where
  "zero_task = \<lparr>t_page_directory = 0, t_registers = zero_registers, t_next = 0, t_prev = 0, t_process = 0\<rparr>"

definition zero_process :: process where
  "zero_process = \<lparr>pr_pid = 0, pr_filename = replicate 128 0, pr_task = 0,
     pr_allocations = replicate BOIOS_MAX_PROGRAM_ALLOCATIONS \<lparr>alloc_ptr = 0, alloc_size = 0\<rparr>,
     pr_filetype = 0, pr_ptr = 0, pr_stack = 0, pr_size = 0,
     pr_keyboard = \<lparr>kb_buffer = replicate BOIOS_KEYBOARD_BUFFER_SIZE 0, kb_tail = 0, kb_head = 0\<rparr>,
     pr_argc = 0, pr_argv = 0\<rparr>"

text \<open>
  \<open>user_mode\<close> records the registers the processor was last sent to user mode with.
\<close>

record task_state = elf_state +
  tasks :: "addr \<Rightarrow> task"
  procs :: "addr \<Rightarrow> process"
  current_task :: addr
  task_tail :: addr
  task_head :: addr
  kernel_chunk :: addr
  user_mode :: "registers option"

definition upd_task :: "addr \<Rightarrow> (task \<Rightarrow> task) \<Rightarrow> 'z task_state_scheme \<Rightarrow> 'z task_state_scheme" where
  "upd_task t f s = s\<lparr>tasks := (tasks s)(t := f (tasks s t))\<rparr>"

definition upd_proc :: "addr \<Rightarrow> (process \<Rightarrow> process) \<Rightarrow> 'z task_state_scheme \<Rightarrow> 'z task_state_scheme" where
  "upd_proc p f s = s\<lparr>procs := (procs s)(p := f (procs s p))\<rparr>"

subsection \<open>The task list\<close>

definition task_get_next :: "'z task_state_scheme \<Rightarrow> addr" where
  "task_get_next s =
     (if t_next (tasks s (current_task s)) = 0 then task_head s else t_next (tasks s (current_task s)))"

definition task_list_remove :: "addr \<Rightarrow> 'z task_state_scheme \<Rightarrow> 'z task_state_scheme" where
  "task_list_remove task s =
     (let s = (if t_prev (tasks s task) \<noteq> 0
               then upd_task (t_prev (tasks s task)) (\<lambda>p. p\<lparr>t_next := t_next (tasks s task)\<rparr>) s else s);
          s = (if task = task_head s then s\<lparr>task_head := t_next (tasks s task)\<rparr> else s);
          s = (if task = task_tail s then s\<lparr>task_tail := t_prev (tasks s task)\<rparr> else s)
      in if task = current_task s then s\<lparr>current_task := task_get_next s\<rparr> else s)"

definition task_free :: "addr \<Rightarrow> 'z task_state_scheme \<Rightarrow> 'z task_state_scheme" where
  "task_free task s =
     kfree (task_list_remove task (paging_free_4gb s (t_page_directory (tasks s task)))) task"

text \<open>The flags are \<^verbatim>\<open>PAGING_IS_PRESENT | PAGING_ACCESS_FROM_ALL\<close>.\<close>

definition task_init :: "addr \<Rightarrow> addr \<Rightarrow> 'z task_state_scheme \<Rightarrow> int \<times> 'z task_state_scheme" where
  "task_init task process s =
     (let s = upd_task task (\<lambda>_. zero_task) s;
          (chunk, s) = paging_new_4gb s 5;
          s = upd_task task (\<lambda>t. t\<lparr>t_page_directory := chunk\<rparr>) s
      in if chunk = 0 then (- errno EIO, s)
         else
           let p = procs s process;
               ip = (if pr_filetype p = PROCESS_FILE_TYPE_ELF
                     then e_entry (elf32_header_at (mem s) (elf_header (elf_files s (pr_ptr p))))
                     else BOIOS_PROGRAM_VIRTUAL_ADDRESS)
           in (0, upd_task task (\<lambda>t. t\<lparr>t_registers := (t_registers t)\<lparr>r_ip := ip, r_ss := 0x23, r_cs := 0x1B,
                 r_esp := 0x3FF000\<rparr>, t_process := process\<rparr>) s))"

text \<open>The part of \<^verbatim>\<open>task_new\<close> that links the initialised task.\<close>

definition task_list_insert :: "addr \<Rightarrow> 'z task_state_scheme \<Rightarrow> 'z task_state_scheme" where
  "task_list_insert task s =
     (if task_head s = 0 then s\<lparr>task_head := task, task_tail := task, current_task := task\<rparr>
      else
        let s = upd_task (task_tail s) (\<lambda>t. t\<lparr>t_next := task\<rparr>) s;
            s = upd_task task (\<lambda>t. t\<lparr>t_prev := task_tail s\<rparr>) s
        in s\<lparr>task_tail := task\<rparr>)"

text \<open>The result is a task or a negative error code as a pointer.\<close>

definition task_new :: "addr \<Rightarrow> 'z task_state_scheme \<Rightarrow> addr \<times> 'z task_state_scheme" where
  "task_new process s =
     (let (task, s) = kzalloc s 64
      in if task = 0 then (ERROR (- errno ENOMEM), task_free task s)
         else
           let (response, s) = task_init task process s
           in if response \<noteq> 0 then (ERROR response, task_free task s)
              else (task, task_list_insert task s))"

subsection \<open>Switching\<close>

text \<open>Loading the segment registers is assembly and changes none of this state.\<close>

definition kernel_page :: "'z task_state_scheme \<Rightarrow> 'z task_state_scheme" where
  "kernel_page s = paging_switch s (kernel_chunk s)"

definition task_switch :: "addr \<Rightarrow> 'z task_state_scheme \<Rightarrow> 'z task_state_scheme" where
  "task_switch task s =
     (let s = s\<lparr>current_task := task\<rparr> in paging_switch s (t_page_directory (tasks s task)))"

definition task_current :: "'z task_state_scheme \<Rightarrow> addr" where
  "task_current s = current_task s"

definition task_page :: "'z task_state_scheme \<Rightarrow> 'z task_state_scheme" where
  "task_page s = task_switch (current_task s) s"

definition task_page_task :: "addr \<Rightarrow> 'z task_state_scheme \<Rightarrow> 'z task_state_scheme" where
  "task_page_task task s = paging_switch s (t_page_directory (tasks s task))"

definition user_mode_enter :: "registers \<Rightarrow> 'z task_state_scheme \<Rightarrow> 'z task_state_scheme" where
  "user_mode_enter regs s = s\<lparr>user_mode := Some regs\<rparr>"

text \<open>A panic does not return: \<open>None\<close>.\<close>

definition task_run_first_ever_task :: "'z task_state_scheme \<Rightarrow> 'z task_state_scheme option" where
  "task_run_first_ever_task s =
     (if current_task s = 0 then None
      else
        let s = task_switch (task_head s) s
        in Some (user_mode_enter (t_registers (tasks s (task_head s))) s))"

definition task_next :: "'z task_state_scheme \<Rightarrow> 'z task_state_scheme option" where
  "task_next s =
     (let next_task = task_get_next s
      in if next_task = 0 then None
         else
           let s = task_switch next_task s
           in Some (user_mode_enter (t_registers (tasks s next_task)) s))"

definition task_save_state :: "addr \<Rightarrow> interrupt_frame \<Rightarrow> 'z task_state_scheme \<Rightarrow> 'z task_state_scheme" where
  "task_save_state task frame s =
     upd_task task (\<lambda>t. t\<lparr>t_registers := \<lparr>r_edi = f_edi frame, r_esi = f_esi frame, r_ebp = f_ebp frame,
       r_ebx = f_ebx frame, r_edx = f_edx frame, r_ecx = f_ecx frame, r_eax = f_eax frame, r_ip = f_ip frame,
       r_cs = f_cs frame, r_flags = f_flags frame, r_esp = f_esp frame, r_ss = f_ss frame\<rparr>\<rparr>) s"

definition task_current_save_state ::
    "interrupt_frame \<Rightarrow> 'z task_state_scheme \<Rightarrow> 'z task_state_scheme option" where
  "task_current_save_state frame s =
     (if task_current s = 0 then None else Some (task_save_state (task_current s) frame s))"

subsection \<open>Memory of a task\<close>

text \<open>
  With the page directory \<open>dir\<close> loaded, an access to a virtual address reaches the byte
  the tables translate it to.  Page faults are not modelled: an entry is taken as
  present.
\<close>

definition virtual_memory :: "memory \<Rightarrow> addr \<Rightarrow> memory" where
  "virtual_memory m dir va = m (paging_get_physical_address m dir va)"

function strncpy_virtual_loop :: "addr \<Rightarrow> memory \<Rightarrow> addr \<Rightarrow> addr \<Rightarrow> int \<Rightarrow> nat \<Rightarrow> memory" where
  "strncpy_virtual_loop dir m dest src count i =
     (if int i < count - 1 \<and> virtual_memory m dir (src + of_nat i) \<noteq> 0
      then strncpy_virtual_loop dir
        (m(paging_get_physical_address m dir (dest + of_nat i) := virtual_memory m dir (src + of_nat i)))
        dest src count (Suc i)
      else m(paging_get_physical_address m dir (dest + of_nat i) := 0))"
  by pat_completeness auto
termination
  by (relation "measure (\<lambda>(dir, m, dest, src, count, i). nat (count - 1) - i)") auto

declare strncpy_virtual_loop.simps [simp del]

definition copy_string_from_task ::
    "addr \<Rightarrow> addr \<Rightarrow> addr \<Rightarrow> int \<Rightarrow> 'z task_state_scheme \<Rightarrow> int \<times> 'z task_state_scheme" where
  "copy_string_from_task task virtual_address physical_address mx s =
     (if mx \<ge> 4096 then (- errno EINVARG, s)
      else
        let (tmp, s) = kzalloc s (word_of_int mx)
        in if tmp = 0 then (- errno ENOMEM, s)
           else
             let chunk = t_page_directory (tasks s task);
                 task_directory = read32 (mem s) chunk;
                 old_entry = paging_get (mem s) task_directory tmp;
                 s = (case paging_map (mem s) chunk tmp tmp 7 of Inl _ \<Rightarrow> s | Inr m \<Rightarrow> s\<lparr>mem := m\<rparr>);
                 s = paging_switch s chunk;
                 s = s\<lparr>mem := strncpy_virtual_loop (current_directory s) (mem s) tmp virtual_address mx 0\<rparr>;
                 s = kernel_page s
             in case paging_set (mem s) task_directory tmp old_entry of
                  Inl _ \<Rightarrow> (- errno EIO, kfree s tmp)
                | Inr m \<Rightarrow> (0, kfree (s\<lparr>mem := strncpy m physical_address tmp mx\<rparr>) tmp))"

definition task_get_stack_item :: "addr \<Rightarrow> nat \<Rightarrow> 'z task_state_scheme \<Rightarrow> u32 \<times> 'z task_state_scheme" where
  "task_get_stack_item task index s =
     (let sp_ptr = r_esp (t_registers (tasks s task));
          s = task_page_task task s;
          res = read32 (virtual_memory (mem s) (current_directory s)) (sp_ptr + 4 * of_nat index)
      in (res, kernel_page s))"

definition task_virtual_address_to_physical :: "addr \<Rightarrow> addr \<Rightarrow> 'z task_state_scheme \<Rightarrow> addr" where
  "task_virtual_address_to_physical task virt_addr s =
     paging_get_physical_address (mem s) (read32 (mem s) (t_page_directory (tasks s task))) virt_addr"

subsection \<open>The list of tasks as an abstract list\<close>

abbreviation first_or :: "addr \<Rightarrow> addr list \<Rightarrow> addr" where
  "first_or n ts \<equiv> (if ts = [] then n else hd ts)"

abbreviation last_or :: "addr \<Rightarrow> addr list \<Rightarrow> addr" where
  "last_or p ts \<equiv> (if ts = [] then p else last ts)"

text \<open>
  A linked segment with \<open>p\<close> before it and \<open>n\<close> behind it.  The \<^verbatim>\<open>next\<close> pointers are right, and the \<^verbatim>\<open>prev\<close>
  pointers of all tasks but those of \<open>S\<close>, whose predecessors have been removed.
\<close>

fun dseg :: "(addr \<Rightarrow> task) \<Rightarrow> addr set \<Rightarrow> addr \<Rightarrow> addr list \<Rightarrow> addr \<Rightarrow> bool" where
  "dseg h S p [] n \<longleftrightarrow> True"
| "dseg h S p (t # ts) n \<longleftrightarrow> (t \<in> S \<or> t_prev (h t) = p) \<and> t_next (h t) = first_or n ts \<and> dseg h S t ts n"

definition task_links :: "'z task_state_scheme \<Rightarrow> addr set \<Rightarrow> addr list \<Rightarrow> bool" where
  "task_links s S ts \<longleftrightarrow> distinct ts \<and> 0 \<notin> set ts \<and> task_head s = first_or 0 ts \<and>
     task_tail s = last_or 0 ts \<and> dseg (tasks s) S 0 ts 0"

abbreviation task_list :: "'z task_state_scheme \<Rightarrow> addr list \<Rightarrow> bool" where
  "task_list s ts \<equiv> task_links s {} ts"

lemma dseg_append:
  "dseg h S p (xs @ ys) n \<longleftrightarrow> dseg h S p xs (first_or n ys) \<and> dseg h S (last_or p xs) ys n"
  by (induction xs arbitrary: p) auto

lemma dseg_cong: "(\<And>t. t \<in> set ts \<Longrightarrow> h t = h' t) \<Longrightarrow> dseg h S p ts n = dseg h' S p ts n"
  by (induction ts arbitrary: p) auto

lemma dseg_upd [simp]: "t \<notin> set ts \<Longrightarrow> dseg (h(t := x)) S p ts n = dseg h S p ts n"
  by (rule dseg_cong) auto

lemma task_list_insert_ok:
  assumes "task_links s S ts" "t \<noteq> 0" "t \<notin> set ts" "t_next (tasks s t) = 0" "t_prev (tasks s t) = 0"
  shows "task_links (task_list_insert t s) S (ts @ [t])"
    "current_task (task_list_insert t s) = (if ts = [] then t else current_task s)"
proof -
  show "current_task (task_list_insert t s) = (if ts = [] then t else current_task s)"
    using assms by (cases ts) (auto simp: task_list_insert_def task_links_def upd_task_def Let_def)
  show "task_links (task_list_insert t s) S (ts @ [t])"
  proof (cases ts rule: rev_cases)
    case Nil
    then show ?thesis using assms by (simp add: task_list_insert_def task_links_def)
  next
    case (snoc us u)
    have d: "dseg (tasks s) S 0 us u" "u \<in> S \<or> t_prev (tasks s u) = last_or 0 us" "u \<notin> set us" "t \<noteq> u" "t \<notin> set us"
      using assms(1,3) by (auto simp: task_links_def snoc dseg_append)
    have hd: "task_head s \<noteq> 0" "task_tail s = u" using assms(1) by (cases us; auto simp: task_links_def snoc)+
    show ?thesis
      using assms d hd
      by (cases us) (auto simp: task_list_insert_def task_links_def snoc upd_task_def dseg_append Let_def)
  qed
qed

text \<open>
  Removing a task links its neighbours in the forward direction and moves the head,
  the tail and the current task; the task behind it keeps its \<^verbatim>\<open>prev\<close> pointer.
\<close>

lemma task_list_remove_tasks:
  "tasks (task_list_remove t s) =
     (if t_prev (tasks s t) \<noteq> 0
      then (tasks s)(t_prev (tasks s t) := (tasks s (t_prev (tasks s t)))\<lparr>t_next := t_next (tasks s t)\<rparr>)
      else tasks s)"
  by (simp add: task_list_remove_def upd_task_def Let_def)

lemma task_list_remove_tail:
  "task_tail (task_list_remove t s) =
     (if t = task_tail s then t_prev (tasks s t) else task_tail s)"
proof -
  have "tasks (s\<lparr>tasks := f\<rparr>) = f" "task_tail (s\<lparr>tasks := f\<rparr>) = task_tail s" "task_head (s\<lparr>tasks := f\<rparr>) = task_head s" for f
    by simp_all
  then show ?thesis
    by (cases "t = task_tail s"; cases "t = task_head s"; cases "t_prev (tasks s t) = 0")
      (auto simp: task_list_remove_def upd_task_def Let_def)
qed

lemma task_list_remove_split:
  assumes "task_links s S (xs @ t # ys)" "t \<notin> S"
  shows "dseg (tasks (task_list_remove t s)) S 0 xs (first_or 0 ys)"
    "dseg (tasks (task_list_remove t s)) S t ys 0"
    "task_head (task_list_remove t s) = first_or 0 (xs @ ys)"
    "task_tail (task_list_remove t s) = last_or 0 (xs @ ys)"
    "current_task (task_list_remove t s) =
       (if current_task s = t then first_or (first_or 0 xs) ys else current_task s)"
proof -
  have d: "dseg (tasks s) S 0 xs t" "t_prev (tasks s t) = last_or 0 xs" "t_next (tasks s t) = first_or 0 ys"
    "dseg (tasks s) S t ys 0" "distinct (xs @ t # ys)" "0 \<notin> set (xs @ t # ys)"
    "task_head s = first_or t xs" "task_tail s = last_or t ys"
    using assms by (simp_all add: task_links_def dseg_append)
  let ?s = "task_list_remove t s"
  show "dseg (tasks ?s) S 0 xs (first_or 0 ys)"
  proof (cases xs rule: rev_cases)
    case (snoc us u)
    then show ?thesis using d by (auto simp: task_list_remove_tasks dseg_append)
  qed simp
  show "dseg (tasks ?s) S t ys 0"
  proof (cases xs rule: rev_cases)
    case Nil
    then show ?thesis using d by (simp add: task_list_remove_tasks)
  next
    case (snoc us u)
    then show ?thesis using d by (auto simp: task_list_remove_tasks)
  qed
  have xs0: "t \<noteq> task_head s" if "xs \<noteq> []" using d(5,7) that by (cases xs) auto
  have ys0: "t \<noteq> task_tail s" if "ys \<noteq> []" using d(5,8) that last_in_set[OF that] by auto
  show h: "task_head ?s = first_or 0 (xs @ ys)" "task_tail ?s = last_or 0 (xs @ ys)"
    using d xs0 ys0 by (auto simp: task_list_remove_def upd_task_def Let_def)
  show "current_task ?s = (if current_task s = t then first_or (first_or 0 xs) ys else current_task s)"
  proof (cases "current_task s = t")
    case True
    have tn: "t_next (tasks ?s t) = first_or 0 ys"
    proof (cases xs rule: rev_cases)
      case Nil
      then show ?thesis using d by (simp add: task_list_remove_tasks)
    next
      case (snoc us u)
      then show ?thesis using d by (auto simp: task_list_remove_tasks)
    qed
    have "current_task ?s = (if t_next (tasks ?s t) = 0 then task_head ?s else t_next (tasks ?s t))"
      using True by (simp add: task_list_remove_def task_get_next_def upd_task_def Let_def)
    moreover have "hd ys \<noteq> 0" if "ys \<noteq> []" using d(6) hd_in_set[OF that] by auto
    ultimately show ?thesis using True tn h(1) by auto
  next
    case False
    then show ?thesis by (auto simp: task_list_remove_def upd_task_def Let_def)
  qed
qed

text \<open>The task behind the removed one is now among those with a stale pointer.\<close>

lemma dseg_stale:
  "dseg h S p ts n \<Longrightarrow> dseg h (S \<union> set (take 1 ts)) q ts n"
proof -
  have mono: "dseg h S p us n \<Longrightarrow> S \<subseteq> S' \<Longrightarrow> dseg h S' p us n" for S S' p us
    by (induction us arbitrary: p) auto
  assume "dseg h S p ts n"
  then have "dseg h (S \<union> set (take 1 ts)) p ts n" by (rule mono) simp
  then show ?thesis by (cases ts) auto
qed

lemma dseg_mono: "dseg h S p ts n \<Longrightarrow> S \<subseteq> S' \<Longrightarrow> dseg h S' p ts n"
  by (induction ts arbitrary: p) auto

lemma task_links_remove:
  assumes "task_links s S (xs @ t # ys)" "t \<notin> S"
  shows "task_links (task_list_remove t s) (S \<union> set (take 1 ys)) (xs @ ys)"
  using task_list_remove_split[OF assms] assms(1) dseg_stale[of _ S t ys 0]
  by (auto simp: task_links_def dseg_append intro: dseg_mono)

subsection \<open>Round robin\<close>

lemma dseg_nth:
  "dseg h S p ts n \<Longrightarrow> i < length ts \<Longrightarrow>
     t_next (h (ts ! i)) = (if Suc i < length ts then ts ! Suc i else n)"
proof (induction ts arbitrary: p i)
  case (Cons t ts)
  show ?case
  proof (cases i)
    case 0
    then show ?thesis using Cons.prems by (auto simp: hd_conv_nth)
  next
    case (Suc j)
    then show ?thesis using Cons by auto
  qed
qed simp

lemma dseg_nth_prev:
  "dseg h S p ts n \<Longrightarrow> i < length ts \<Longrightarrow> ts ! i \<in> S \<or> t_prev (h (ts ! i)) = (if i = 0 then p else ts ! (i - 1))"
proof (induction ts arbitrary: p i)
  case (Cons t ts)
  show ?case
  proof (cases i)
    case 0
    then show ?thesis using Cons.prems by auto
  next
    case (Suc j)
    then show ?thesis using Cons.IH[of t j] Cons.prems by (cases j) auto
  qed
qed simp

lemma task_get_next_nth:
  assumes "task_links s S ts" "current_task s = ts ! i" "i < length ts"
  shows "task_get_next s = ts ! (Suc i mod length ts)"
proof (cases "Suc i < length ts")
  case True
  then have "ts ! Suc i \<in> set ts" by simp
  then have "ts ! Suc i \<noteq> 0" using assms(1) by (auto simp: task_links_def)
  then show ?thesis
    using dseg_nth[of "tasks s" S 0 ts 0 i] assms True by (simp add: task_get_next_def task_links_def)
next
  case False
  then have "Suc i = length ts" using assms(3) by simp
  moreover have "hd ts = ts ! 0" using assms(3) by (intro hd_conv_nth) auto
  ultimately show ?thesis
    using dseg_nth[of "tasks s" S 0 ts 0 i] assms by (auto simp: task_get_next_def task_links_def)
qed

lemma task_switch_list:
  "task_links (task_switch t s) S ts = task_links s S ts" "current_task (task_switch t s) = t"
  "tasks (task_switch t s) = tasks s"
  by (simp_all add: task_switch_def paging_switch_def task_links_def Let_def)

lemma task_list_user_mode [simp]: "task_links (s\<lparr>user_mode := u\<rparr>) S ts = task_links s S ts"
  by (simp add: task_links_def)

lemma task_next_nth:
  assumes "task_links s S ts" "current_task s = ts ! i" "i < length ts"
  obtains s' where "task_next s = Some s'" "task_links s' S ts" "tasks s' = tasks s"
    "current_task s' = ts ! (Suc i mod length ts)"
    "user_mode s' = Some (t_registers (tasks s (ts ! (Suc i mod length ts))))"
    "current_directory s' = read32 (mem s) (t_page_directory (tasks s (ts ! (Suc i mod length ts))))"
proof -
  let ?t = "ts ! (Suc i mod length ts)"
  have "?t \<in> set ts" using assms(3) by (intro nth_mem mod_less_divisor) linarith
  then have "?t \<noteq> 0" using assms(1) by (auto simp: task_links_def)
  then have n: "task_next s = Some (user_mode_enter (t_registers (tasks s ?t)) (task_switch ?t s))"
    using task_get_next_nth[OF assms] by (simp add: task_next_def task_switch_list Let_def)
  have "task_links (user_mode_enter r (task_switch ?t s)) S ts" for r
    using assms(1) by (simp add: user_mode_enter_def task_switch_list(1))
  then show thesis
    by (intro that[OF n]) (simp_all add: user_mode_enter_def task_switch_list,
        simp add: task_switch_def paging_switch_def Let_def)
qed

fun task_next_times :: "nat \<Rightarrow> 'z task_state_scheme \<Rightarrow> 'z task_state_scheme option" where
  "task_next_times 0 s = Some s"
| "task_next_times (Suc k) s = (case task_next s of None \<Rightarrow> None | Some s \<Rightarrow> task_next_times k s)"

lemma task_next_times_nth:
  assumes "task_links s S ts" "current_task s = ts ! i" "i < length ts"
  shows "\<exists>s'. task_next_times k s = Some s' \<and> task_links s' S ts \<and> tasks s' = tasks s \<and>
     current_task s' = ts ! ((i + k) mod length ts)"
  using assms
proof (induction k arbitrary: s i)
  case 0
  then show ?case by simp
next
  case (Suc k)
  obtain s1 where s1: "task_next s = Some s1" "task_links s1 S ts" "tasks s1 = tasks s"
    "current_task s1 = ts ! (Suc i mod length ts)" by (rule task_next_nth[OF Suc.prems])
  have "Suc i mod length ts < length ts" using Suc.prems(3) by (intro mod_less_divisor) linarith
  from Suc.IH[OF s1(2,4) this] s1(1,3) show ?case by (auto simp: mod_add_left_eq)
qed

subsection \<open>Runs of the scheduler\<close>

text \<open>
  The steps of the scheduler on a state with the ghost list of its tasks and the ghost set of those with a stale
  \<^verbatim>\<open>prev\<close> pointer: a new task, linked after its initialisation; a switch to the next task; the
  state of the current task saved on an interrupt; and the exit of a task whose predecessor is still the one
  it was linked behind.
\<close>

type_synonym sched_state = "addr list \<times> addr set \<times> task_state"

inductive sched_step :: "sched_state \<Rightarrow> sched_state \<Rightarrow> bool" where
  create: "t \<noteq> 0 \<Longrightarrow> t \<notin> set ts \<Longrightarrow> t_next (tasks s t) = 0 \<Longrightarrow> t_prev (tasks s t) = 0 \<Longrightarrow>
     sched_step (ts, S, s) (ts @ [t], S, task_list_insert t s)"
| yield: "task_next s = Some s' \<Longrightarrow> ts \<noteq> [] \<Longrightarrow> sched_step (ts, S, s) (ts, S, s')"
| save: "task_current_save_state frame s = Some s' \<Longrightarrow> sched_step (ts, S, s) (ts, S, s')"
| exit: "t \<notin> S \<Longrightarrow> sched_step (xs @ t # ys, S, s) (xs @ ys, S \<union> set (take 1 ys), task_list_remove t s)"

inductive sched_run :: "sched_state \<Rightarrow> sched_state \<Rightarrow> bool" where
  run_refl: "sched_run x x"
| run_step: "sched_run x y \<Longrightarrow> sched_step y z \<Longrightarrow> sched_run x z"

definition sched_ok :: "sched_state \<Rightarrow> bool" where
  "sched_ok x \<longleftrightarrow> (case x of (ts, S, s) \<Rightarrow>
     S \<subseteq> set ts \<and> task_links s S ts \<and> (ts \<noteq> [] \<longrightarrow> current_task s \<in> set ts))"

lemma task_links_save:
  "task_links (task_save_state t frame s) S ts = task_links s S ts"
proof -
  have "dseg (tasks (task_save_state t frame s)) S p us n = dseg (tasks s) S p us n" for p us n
    by (induction us arbitrary: p) (auto simp: task_save_state_def upd_task_def)
  then show ?thesis by (simp add: task_links_def) (simp add: task_save_state_def upd_task_def)
qed

lemma sched_step_ok:
  assumes step: "sched_step (ts, S, s) (ts', S', s')" and ok: "sched_ok (ts, S, s)"
  shows "sched_ok (ts', S', s')"
  using step
proof cases
  case (create t)
  then show ?thesis using ok task_list_insert_ok[of s S ts t] by (auto simp: sched_ok_def)
next
  case yield
  then obtain i where i: "i < length ts" "current_task s = ts ! i"
    using ok by (auto simp: sched_ok_def in_set_conv_nth)
  have "task_links s S ts" using ok by (simp add: sched_ok_def)
  then obtain s1 where "task_next s = Some s1" "task_links s1 S ts" "current_task s1 = ts ! (Suc i mod length ts)"
    using task_next_nth[OF _ i(2,1)] by metis
  moreover have "Suc i mod length ts < length ts" using i(1) by (intro mod_less_divisor) linarith
  ultimately show ?thesis using yield ok by (auto simp: sched_ok_def)
next
  case (save frame)
  then show ?thesis using ok
    by (auto simp: sched_ok_def task_current_save_state_def task_links_save split: if_splits)
      (auto simp: task_save_state_def upd_task_def)
next
  case (exit t xs ys)
  then have l: "task_links s S (xs @ t # ys)" and S: "S \<subseteq> set (xs @ t # ys)" and c: "current_task s \<in> set (xs @ t # ys)"
    using ok by (auto simp: sched_ok_def)
  have "current_task (task_list_remove t s) =
      (if current_task s = t then first_or (first_or 0 xs) ys else current_task s)"
    by (rule task_list_remove_split(5)[OF l exit(5)])
  then have "xs @ ys \<noteq> [] \<Longrightarrow> current_task (task_list_remove t s) \<in> set (xs @ ys)"
    using c by (cases xs; cases ys) auto
  moreover have "S \<union> set (take 1 ys) \<subseteq> set (xs @ ys)" using S exit(5) by (cases ys) auto
  ultimately show ?thesis using task_links_remove[OF l exit(5)] exit by (simp add: sched_ok_def)
qed

lemma sched_run_ok: "sched_run x y \<Longrightarrow> sched_ok x \<Longrightarrow> sched_ok y"
proof (induction rule: sched_run.induct)
  case (run_step x y z)
  then show ?case using sched_step_ok by (cases y; cases z) blast
qed

subsection \<open>Creating a task\<close>

lemma live_nonzero: "live_regions st A \<Longrightarrow> A p = Some n \<Longrightarrow> p \<noteq> 0"
proof -
  assume l: "live_regions st A" and p: "A p = Some n"
  obtain L where L: "heap_layout (kernel_heap st)" "heap_inv (mem st) (kernel_heap st) L"
    "A = region_map (kernel_heap st) L" using l by (auto simp: live_regions_def kheap_ok_def)
  obtain s k where s: "L s = Some k" "p = block_addr (kernel_heap st) s"
    using region_mapE[OF p[unfolded L(3)]] by metis
  then have "s < heap_blocks (kernel_heap st)" using heap_invD_chunk[OF L(2) s(1)] by linarith
  then show "p \<noteq> 0" using block_addr_nonzero[OF L(1)] s(2) by simp
qed

lemma paging_fill_directory_mem: "\<exists>m. paging_fill_directory st dir off f i = st\<lparr>mem := m\<rparr>"
proof (induction "1024 - i" arbitrary: st off i)
  case 0
  then show ?case by (subst paging_fill_directory.simps) (simp add: mem_same)
next
  case (Suc k)
  then have i: "i < 1024" "k = 1024 - Suc i" by auto
  obtain p st1 where z: "kzalloc st 4096 = (p, st1)" by fastforce
  obtain m where m: "st1 = st\<lparr>mem := m\<rparr>" using kzalloc_mem[OF z] by blast
  let ?m = "write32 (paging_fill_table m p off f 0) (dir + 4 * of_nat i) (p OR f OR PAGING_IS_WRITABLE)"
  obtain m' where "paging_fill_directory (st\<lparr>mem := ?m\<rparr>) dir (off + 1024 * 4096) f (Suc i) = st\<lparr>mem := ?m\<rparr>\<lparr>mem := m'\<rparr>"
    using Suc.hyps(1)[OF i(2)] by blast
  then have "paging_fill_directory st dir off f i = st\<lparr>mem := m'\<rparr>"
    using i(1) z m by (subst paging_fill_directory.simps) (simp add: Let_def)
  then show ?case by blast
qed

lemma paging_new_4gb_mem:
  assumes "paging_new_4gb st f = (c, st')"
  shows "\<exists>m. st' = st\<lparr>mem := m\<rparr>"
proof -
  obtain d st1 where z: "kzalloc st 4096 = (d, st1)" by fastforce
  obtain m1 where m1: "st1 = st\<lparr>mem := m1\<rparr>" using kzalloc_mem[OF z] by blast
  obtain m2 where m2: "paging_fill_directory st1 d 0 (ucast f) 0 = st1\<lparr>mem := m2\<rparr>"
    using paging_fill_directory_mem by blast
  obtain e st3 where z3: "kzalloc (st1\<lparr>mem := m2\<rparr>) 4 = (e, st3)" by fastforce
  obtain m3 where m3: "st3 = st1\<lparr>mem := m2\<rparr>\<lparr>mem := m3\<rparr>" using kzalloc_mem[OF z3] by blast
  show ?thesis using assms z m2 z3 m3 m1 by (auto simp: paging_new_4gb_def Let_def)
qed

text \<open>The task that \<^verbatim>\<open>task_init\<close> sets up.\<close>

definition init_task :: "addr \<Rightarrow> u32 \<Rightarrow> addr \<Rightarrow> task" where
  "init_task chunk ip p = zero_task\<lparr>t_page_directory := chunk, t_registers := zero_registers\<lparr>r_ip := ip,
     r_ss := 0x23, r_cs := 0x1B, r_esp := 0x3FF000\<rparr>, t_process := p\<rparr>"

lemma task_heap_cong [simp]:
  "live_regions (s\<lparr>tasks := x\<rparr>) A = live_regions s A" "avail (s\<lparr>tasks := x\<rparr>) = avail s"
  by (simp_all add: live_regions_def kheap_ok_def avail_def)

text \<open>Where a new task of the process starts: at the entry of its ELF image or at the fixed address of binaries.\<close>

definition entry_point :: "memory \<Rightarrow> addr \<Rightarrow> 'z task_state_scheme \<Rightarrow> u32" where
  "entry_point m p s =
     (if pr_filetype (procs s p) = PROCESS_FILE_TYPE_ELF
      then e_entry (elf32_header_at m (elf_header (elf_files s (pr_ptr (procs s p)))))
      else BOIOS_PROGRAM_VIRTUAL_ADDRESS)"

lemma task_init_ok:
  assumes live: "live_regions s A" and av: "1026 \<le> avail s"
  obtains chunk m ip where
    "task_init t p s = (0, s\<lparr>mem := m, tasks := (tasks s)(t := init_task chunk ip p)\<rparr>)"
    "ip = entry_point m p s"
    "linear_space m chunk 5" "live_regions (s\<lparr>mem := m\<rparr>) (add_pages A (space_pages m chunk))"
    "avail s = avail (s\<lparr>mem := m\<rparr>) + 1026" "\<And>a. a \<in> space_pages m chunk \<Longrightarrow> A a = None"
    "\<And>q n a. A q = Some n \<Longrightarrow> in_range q n a \<Longrightarrow> m a = mem s a"
proof -
  let ?s = "s\<lparr>tasks := (tasks s)(t := zero_task)\<rparr>"
  obtain chunk s1 where c: "paging_new_4gb ?s 5 = (chunk, s1)" by fastforce
  obtain m where m: "s1 = ?s\<lparr>mem := m\<rparr>" using paging_new_4gb_mem[OF c] by blast
  have l: "live_regions ?s A" "1026 \<le> avail ?s" using live av by simp_all
  note new = paging_new_4gb_ok[OF l c]
  have same: "live_regions s1 B = live_regions (s\<lparr>mem := m\<rparr>) B" "avail s1 = avail (s\<lparr>mem := m\<rparr>)" "mem s1 = m" for B
    by (simp_all add: m live_regions_def kheap_ok_def avail_def)
  have "chunk \<in> space_pages (mem s1) chunk" by (simp add: space_pages_def)
  then have c0: "chunk \<noteq> 0" using live_nonzero[OF new(2), of chunk 4096] by (simp add: add_pages_def)
  have "task_init t p s = (0, s\<lparr>mem := m, tasks := (tasks s)(t := init_task chunk (entry_point m p s) p)\<rparr>)"
    using c c0 by (simp add: task_init_def upd_task_def init_task_def zero_task_def entry_point_def m Let_def)
  then show thesis
    using new same by (intro that[where chunk = chunk and m = m]) simp_all
qed

lemma task_list_insert_state:
  "\<exists>tk h tl ct. task_list_insert t s = s\<lparr>tasks := tk, task_head := h, task_tail := tl, current_task := ct\<rparr>"
proof (cases "task_head s = 0")
  case True
  then show ?thesis unfolding task_list_insert_def
    by (intro exI[of _ "tasks s"] exI[of _ t] exI[of _ t] exI[of _ t]) simp
next
  case False
  have "task_list_insert t s = s\<lparr>tasks := tasks (task_list_insert t s), task_head := task_head s, task_tail := t,
      current_task := current_task s\<rparr>"
    using False by (simp add: task_list_insert_def upd_task_def Let_def)
  then show ?thesis by blast
qed

lemma task_new_ok:
  assumes live: "live_regions s A" and av: "1027 \<le> avail s"
    and ts: "task_links s S ts" "\<forall>t \<in> set ts. A t \<noteq> None"
  obtains t chunk m ip s' where "task_new p s = (t, s')" "t \<noteq> 0" "A t = None"
    "task_links s' S (ts @ [t])" "tasks s' t = (init_task chunk ip p)\<lparr>t_prev := last_or 0 ts\<rparr>"
    "linear_space (mem s') chunk 5"
    "live_regions s' (add_pages (A(t \<mapsto> 4096)) (space_pages (mem s') chunk))" "avail s = avail s' + 1027"
    "\<And>q n a. A q = Some n \<Longrightarrow> in_range q n a \<Longrightarrow> mem s' a = mem s a"
    "kernel_heap s' = kernel_heap s" "procs s' = procs s"
    "ip = entry_point (mem s') p s"
    "\<exists>tk h tl ct. s' = s\<lparr>mem := mem s', tasks := tk, task_head := h, task_tail := tl, current_task := ct\<rparr>"
    "\<And>a. a \<in> space_pages (mem s') chunk \<Longrightarrow> a \<noteq> t \<and> A a = None"
proof -
  obtain t s1 where z: "kzalloc s 64 = (t, s1)" by fastforce
  have sz: "0 < unat (64 :: u32)" "unat (64 :: u32) \<le> 4096" "0 < avail s" using av by simp_all
  note law = kpages.alloc_page[OF live sz z]
  obtain m0 where m0: "s1 = s\<lparr>mem := m0\<rparr>" using kzalloc_mem[OF z] by blast
  have live1: "live_regions s1 (A(t \<mapsto> 4096))" "1026 \<le> avail s1" using law av by auto
  obtain chunk m ip where i: "task_init t p s1 = (0, s1\<lparr>mem := m, tasks := (tasks s1)(t := init_task chunk ip p)\<rparr>)"
    "ip = entry_point m p s1"
    "linear_space m chunk 5" "live_regions (s1\<lparr>mem := m\<rparr>) (add_pages (A(t \<mapsto> 4096)) (space_pages m chunk))"
    "avail s1 = avail (s1\<lparr>mem := m\<rparr>) + 1026" "\<And>q n a. (A(t \<mapsto> 4096)) q = Some n \<Longrightarrow> in_range q n a \<Longrightarrow> m a = mem s1 a"
    "\<And>a. a \<in> space_pages m chunk \<Longrightarrow> (A(t \<mapsto> 4096)) a = None"
    by (rule task_init_ok[OF live1, of t p]) blast
  let ?s2 = "s1\<lparr>mem := m, tasks := (tasks s1)(t := init_task chunk ip p)\<rparr>"
  have t: "t \<noteq> 0" "A t = None" "t \<notin> set ts" using law ts(2) by auto
  have "dseg (tasks ?s2) S 0 ts 0 = dseg (tasks s) S 0 ts 0" using t(3) by (simp add: m0)
  then have l2: "task_links ?s2 S ts" using ts(1) by (simp add: task_links_def m0)
  have n: "t_next (tasks ?s2 t) = 0" "t_prev (tasks ?s2 t) = 0" by (simp_all add: init_task_def zero_task_def)
  note ins = task_list_insert_ok[OF l2 t(1,3) n]
  have new: "task_new p s = (t, task_list_insert t ?s2)" using z t(1) i(1) by (simp add: task_new_def)
  have tl: "t \<noteq> task_tail ?s2" if "task_head ?s2 \<noteq> 0" using l2 t that by (auto simp: task_links_def split: if_splits)
  have hd: "task_head ?s2 = 0 \<longleftrightarrow> ts = []" "ts \<noteq> [] \<Longrightarrow> task_tail ?s2 = last ts"
    using l2 by (cases ts; auto simp: task_links_def)+
  have f: "mem (task_list_insert t ?s2) = m" "tasks (task_list_insert t ?s2) t = (init_task chunk ip p)\<lparr>t_prev := last_or 0 ts\<rparr>"
    "\<And>B. live_regions (task_list_insert t ?s2) B = live_regions (s1\<lparr>mem := m\<rparr>) B"
    "avail (task_list_insert t ?s2) = avail (s1\<lparr>mem := m\<rparr>)"
    "kernel_heap (task_list_insert t ?s2) = kernel_heap s" "procs (task_list_insert t ?s2) = procs s"
    using tl hd by (auto simp: task_list_insert_def upd_task_def live_regions_def kheap_ok_def avail_def Let_def
        init_task_def zero_task_def m0)
  have keep: "m a = mem s a" if "A q = Some n" "in_range q n a" for q n a
  proof -
    have "(A(t \<mapsto> 4096)) q = Some n" using that(1) t(2) by auto
    then have "m a = mem s1 a" using i(6) that(2) by blast
    then show ?thesis using kpages.alloc_keeps_live[OF live sz z that] by simp
  qed
  have av2: "avail s = avail (s1\<lparr>mem := m\<rparr>) + 1027" using law i(5) by simp
  have ip: "ip = entry_point (mem (task_list_insert t ?s2)) p s" using i(2) f(1) by (simp add: m0 entry_point_def)
  have st: "\<exists>tk h tl ct. task_list_insert t ?s2 = s\<lparr>mem := mem (task_list_insert t ?s2), tasks := tk, task_head := h, task_tail := tl, current_task := ct\<rparr>"
  proof -
    obtain tk h tl ct where "task_list_insert t ?s2 = ?s2\<lparr>tasks := tk, task_head := h, task_tail := tl, current_task := ct\<rparr>"
      using task_list_insert_state by blast
    then show ?thesis by (simp add: m0) blast
  qed
  have sp: "linear_space (mem (task_list_insert t ?s2)) chunk 5"
    "live_regions (task_list_insert t ?s2) (add_pages (A(t \<mapsto> 4096)) (space_pages (mem (task_list_insert t ?s2)) chunk))"
    "avail s = avail (task_list_insert t ?s2) + 1027"
    using i(3,4) f av2 by simp_all
  have kp: "mem (task_list_insert t ?s2) a = mem s a" if "A q = Some n" "in_range q n a" for q n a using keep[OF that] f(1) by simp
  have np: "a \<noteq> t \<and> A a = None" if "a \<in> space_pages (mem (task_list_insert t ?s2)) chunk" for a
    using i(7)[of a] that f(1) by (auto split: if_splits)
  show thesis by (rule that[OF new t(1,2) ins(1) f(2) sp kp f(5,6) ip st np])
qed

subsection \<open>Properties\<close>

definition sample_tasks :: task_state where
  "sample_tasks = \<lparr>mem = \<lambda>_. 0, kernel_heap = boot_heap, current_directory = 0, cr3 = 0,
     disk_ports = \<lparr>sent = [], status_reads = 0\<rparr>, streams = sample_streams,
     the_disk = \<lparr>disk_type = 0, sector_size = 512, disk_id = 0, filesystem = 0x9000, fs_private = 9\<rparr>,
     privates = \<lambda>_. sample_private, dir_items = \<lambda>_. [sample_item],
     directories = \<lambda>_. zero_directory, fat_items = \<lambda>_. \<lparr>item_ptr = 0, item_type = 0\<rparr>,
     descriptors = \<lambda>_. \<lparr>desc_item = 0, desc_position = 0\<rparr>, fat16_name = [],
     filesystems = 0x9000 # replicate 11 0, file_descriptors = replicate 512 0,
     file_descs = \<lambda>_. \<lparr>fd_index = 0, fd_filesystem = 0, fd_private = 0, fd_disk = None\<rparr>,
     elf_files = \<lambda>_. zero_elf_file, tasks = \<lambda>_. zero_task, procs = \<lambda>_. zero_process,
     current_task = 0, task_tail = 0, task_head = 0, kernel_chunk = 0, user_mode = None\<rparr>"

lemma sample_tasks_heap:
  "live_regions sample_tasks (region_map boot_heap Map.empty)" "avail sample_tasks = 25600"
  by (rule boot_heap_live; simp add: sample_tasks_def)+

lemma sample_tasks_empty: "task_list sample_tasks []"
  by (simp add: task_links_def sample_tasks_def)

text \<open>
  C16: with room on the heap, \<^verbatim>\<open>task_new\<close> appends a new task to the list: the task is a
  fresh allocation that belongs to the process, starts at its entry with the user segments and
  stack, and has an own address space that maps every page to itself without write
  access; the bytes of every live region are kept.
\<close>

theorem task_new_appends:
  assumes "live_regions s A" "1027 \<le> avail s" "task_links s S ts" "\<forall>t \<in> set ts. A t \<noteq> None"
  shows "\<exists>t s'. task_new p s = (t, s') \<and> t \<noteq> 0 \<and> A t = None \<and> task_links s' S (ts @ [t]) \<and>
     t_process (tasks s' t) = p \<and> r_cs (t_registers (tasks s' t)) = 0x1B \<and>
     r_ss (t_registers (tasks s' t)) = 0x23 \<and> r_esp (t_registers (tasks s' t)) = 0x3FF000 \<and>
     r_ip (t_registers (tasks s' t)) = entry_point (mem s') p s \<and>
     linear_space (mem s') (t_page_directory (tasks s' t)) 5 \<and>
     live_regions s' (add_pages (A(t \<mapsto> 4096)) (space_pages (mem s') (t_page_directory (tasks s' t)))) \<and>
     avail s = avail s' + 1027 \<and> (\<forall>q n a. A q = Some n \<and> in_range q n a \<longrightarrow> mem s' a = mem s a)"
proof -
  obtain t chunk ip s' where n: "task_new p s = (t, s')" "t \<noteq> 0" "A t = None"
    "task_links s' S (ts @ [t])" "tasks s' t = (init_task chunk ip p)\<lparr>t_prev := last_or 0 ts\<rparr>"
    "linear_space (mem s') chunk 5"
    "live_regions s' (add_pages (A(t \<mapsto> 4096)) (space_pages (mem s') chunk))" "avail s = avail s' + 1027"
    "\<And>q n a. A q = Some n \<Longrightarrow> in_range q n a \<Longrightarrow> mem s' a = mem s a"
    "ip = entry_point (mem s') p s"
    by (rule task_new_ok[OF assms, of p]) (rule that; assumption)
  have "t_page_directory (tasks s' t) = chunk" by (simp add: n(5) init_task_def)
  then show ?thesis using n by (intro exI[of _ t] exI[of _ s']) (auto simp: init_task_def)
qed

theorem task_new_appends_witness:
  "\<exists>t s'. task_new 0 sample_tasks = (t, s') \<and> t \<noteq> 0 \<and> task_list s' [t] \<and> avail s' = 24573"
proof -
  have "1027 \<le> avail sample_tasks" "\<forall>t \<in> set []. region_map boot_heap Map.empty t \<noteq> None"
    by (simp_all add: sample_tasks_heap)
  from task_new_appends[OF sample_tasks_heap(1) this(1) sample_tasks_empty this(2), of 0]
  show ?thesis by (auto simp: sample_tasks_heap(2))
qed

text \<open>
  C17: after any run of the scheduler from an empty list, in which tasks are created, switched to, saved on
  interrupts, and exit unless their predecessor did before, the \<^verbatim>\<open>next\<close> pointers lead from the head through
  exactly the tasks that are left to a null pointer, the tail is the last of them, the current task is one of them, and
  only tasks whose predecessor exited have a wrong \<^verbatim>\<open>prev\<close> pointer.
\<close>

theorem sched_run_safe:
  assumes "sched_run ([], {}, s0) (ts, S, s)" "task_head s0 = 0" "task_tail s0 = 0"
  shows "distinct ts \<and> task_head s = (if ts = [] then 0 else hd ts) \<and> task_tail s = (if ts = [] then 0 else last ts) \<and>
    (ts \<noteq> [] \<longrightarrow> current_task s \<in> set ts) \<and>
    (\<forall>i < length ts. t_next (tasks s (ts ! i)) = (if Suc i < length ts then ts ! Suc i else 0) \<and>
      (ts ! i \<in> S \<or> t_prev (tasks s (ts ! i)) = (if i = 0 then 0 else ts ! (i - 1))))"
proof -
  have "sched_ok ([], {}, s0)" using assms(2,3) by (simp add: sched_ok_def task_links_def)
  with sched_run_ok[OF assms(1)] have "sched_ok (ts, S, s)" by blast
  then have l: "task_links s S ts" "ts \<noteq> [] \<longrightarrow> current_task s \<in> set ts" by (auto simp: sched_ok_def)
  then have "dseg (tasks s) S 0 ts 0" by (simp add: task_links_def)
  with l dseg_nth[of "tasks s" S 0 ts 0] dseg_nth_prev[of "tasks s" S 0 ts 0] show ?thesis
    unfolding task_links_def by simp
qed

theorem sched_run_safe_witness:
  "\<exists>s. sched_run ([], {}, sample_tasks) ([0x2000, 0x4000], {0x4000}, s) \<and>
     t_next (tasks s 0x2000) = 0x4000 \<and> task_tail s = 0x4000 \<and> current_task s \<in> {0x2000, 0x4000}"
proof -
  let ?s1 = "task_list_insert 0x2000 sample_tasks"
  let ?s2 = "task_list_insert 0x3000 ?s1"
  let ?s3 = "task_list_insert 0x4000 ?s2"
  have h: "task_head ?s1 = 0x2000" "task_tail ?s1 = 0x2000" "tasks ?s1 = tasks sample_tasks"
    by (simp_all add: task_list_insert_def sample_tasks_def)
  have z: "t_next (tasks sample_tasks t) = 0" "t_prev (tasks sample_tasks t) = 0" for t
    by (simp_all add: sample_tasks_def zero_task_def)
  have z2: "t_next (tasks ?s2 0x4000) = 0" "t_prev (tasks ?s2 0x4000) = 0"
    using h z by (simp_all add: task_list_insert_def[of "0x3000"] upd_task_def Let_def)
  have "sched_step ([], {}, sample_tasks) ([] @ [0x2000], {}, ?s1)"
    by (rule sched_step.create) (simp_all add: z)
  moreover have "sched_step ([0x2000], {}, ?s1) ([0x2000] @ [0x3000], {}, ?s2)"
    by (rule sched_step.create) (simp_all add: z h)
  moreover have "sched_step ([0x2000, 0x3000], {}, ?s2) ([0x2000, 0x3000] @ [0x4000], {}, ?s3)"
    by (rule sched_step.create) (simp_all add: z2)
  moreover have "sched_step ([0x2000] @ 0x3000 # [0x4000], {}, ?s3) ([0x2000] @ [0x4000], {} \<union> set (take 1 [0x4000]), task_list_remove 0x3000 ?s3)"
    by (rule sched_step.exit) simp
  ultimately have run: "sched_run ([], {}, sample_tasks) ([0x2000, 0x4000], {0x4000}, task_list_remove 0x3000 ?s3)"
    using run_step[OF run_step[OF run_step[OF run_step[OF run_refl]]]] by simp
  have "task_head sample_tasks = 0" "task_tail sample_tasks = 0" by (simp_all add: sample_tasks_def)
  note r = sched_run_safe[OF run this]
  then have "t_next (tasks (task_list_remove 0x3000 ?s3) 0x2000) = 0x4000" by (auto dest: spec[of _ 0])
  with r run show ?thesis by (intro exI[of _ "task_list_remove 0x3000 ?s3"]) auto
qed

text \<open>
  C27: switching is round robin: on a list of \<open>n\<close> tasks, \<open>k\<close> calls of
  \<^verbatim>\<open>task_next\<close> from task \<open>i\<close> never panic and lead to task \<open>(i + k) mod n\<close>, so every task
  is reached within \<open>n\<close> switches.
\<close>

theorem task_next_round_robin:
  assumes "task_links s S ts" "current_task s = ts ! i" "i < length ts"
  shows "\<exists>s'. task_next_times k s = Some s' \<and> task_links s' S ts \<and>
     current_task s' = ts ! ((i + k) mod length ts)"
  using task_next_times_nth[OF assms, of k] by blast

theorem task_next_round_robin_witness:
  "\<exists>s'. task_next_times 2 (task_list_insert 0x2000 sample_tasks) = Some s' \<and> current_task s' = 0x2000"
proof -
  have "task_list (task_list_insert 0x2000 sample_tasks) ([] @ [0x2000])"
    "current_task (task_list_insert 0x2000 sample_tasks) = 0x2000"
    using task_list_insert_ok[OF sample_tasks_empty, of "0x2000"] by (simp_all add: sample_tasks_def zero_task_def)
  with task_next_round_robin[of "task_list_insert 0x2000 sample_tasks" "{}" "[0x2000]" 0 2] show ?thesis by auto
qed

text \<open>
  removing a task does not correct the \<^verbatim>\<open>prev\<close> pointer of the task behind it.  So
  after the exit of two neighbours, the second from the end and then the last, the
  tail is the first of them and the task before them is still followed by the
  second: the scheduler goes on to a task that was freed.
\<close>

theorem task_list_remove_stale:
  assumes "task_list s (xs @ [b, c])" "xs \<noteq> []"
  shows "task_tail (task_list_remove c (task_list_remove b s)) = b \<and>
     t_next (tasks (task_list_remove c (task_list_remove b s)) (last xs)) = c"
proof -
  note r = task_list_remove_split[of s "{}" xs b "[c]", OF assms(1), simplified]
  let ?s1 = "task_list_remove b s"
  have d: "distinct (xs @ [b, c])" "b \<noteq> 0" using assms(1) by (auto simp: task_links_def)
  have c: "t_prev (tasks ?s1 c) = b" "t_next (tasks ?s1 c) = 0" "task_tail ?s1 = c" using r(2,4) by simp_all
  obtain us u where xs: "xs = us @ [u]" using assms(2) by (cases xs rule: rev_cases) auto
  have "t_next (tasks ?s1 u) = c" using r(1) by (simp add: xs dseg_append)
  then have "t_next (tasks (task_list_remove c ?s1) u) = c" using c d by (simp add: task_list_remove_tasks xs)
  moreover have "task_tail (task_list_remove c ?s1) = b"
    using task_list_remove_tail[of c ?s1] c by simp
  ultimately show ?thesis by (simp add: xs)
qed

definition three_tasks :: task_state where
  "three_tasks = task_list_insert 0x4000 (task_list_insert 0x3000 (task_list_insert 0x2000 sample_tasks))"

theorem task_list_remove_stale_witness:
  "t_next (tasks (task_list_remove 0x4000 (task_list_remove 0x3000 three_tasks)) 0x2000) = 0x4000"
proof -
  let ?s1 = "task_list_insert 0x2000 sample_tasks"
  let ?s2 = "task_list_insert 0x3000 ?s1"
  have h: "task_head ?s1 = 0x2000" "task_tail ?s1 = 0x2000" "tasks ?s1 = tasks sample_tasks"
    by (simp_all add: task_list_insert_def sample_tasks_def)
  have z: "t_next (tasks sample_tasks t) = 0" "t_prev (tasks sample_tasks t) = 0" for t
    by (simp_all add: sample_tasks_def zero_task_def)
  have z2: "t_next (tasks ?s2 0x4000) = 0" "t_prev (tasks ?s2 0x4000) = 0"
    using h z by (simp_all add: task_list_insert_def[of "0x3000"] upd_task_def Let_def)
  have l1: "task_list ?s1 ([] @ [0x2000])" by (rule task_list_insert_ok(1)[OF sample_tasks_empty]) (simp_all add: z)
  have l2: "task_list ?s2 (([] @ [0x2000]) @ [0x3000])" by (rule task_list_insert_ok(1)[OF l1]) (simp_all add: h z)
  have "task_list three_tasks ((([] @ [0x2000]) @ [0x3000]) @ [0x4000])"
    unfolding three_tasks_def by (rule task_list_insert_ok(1)[OF l2]) (simp_all add: z2)
  with task_list_remove_stale[of three_tasks "[0x2000]" "0x3000" "0x4000"] show ?thesis by simp
qed

end
