(* ===== verification/Boi_Process.thy ===== *)
theory Boi_Process
  imports Boi_Task
begin

text \<open>
  Processes (\<^verbatim>\<open>src/src/task/process.c\<close>): the table of processes, loading a program from
  a file and mapping it, the memory a program allocates, its arguments, and
  termination.
\<close>

subsection \<open>State\<close>

abbreviation BOIOS_MAX_PROCESSES :: nat where "BOIOS_MAX_PROCESSES \<equiv> 12"
abbreviation BOIOS_USER_PROGRAM_STACK_SIZE :: u32 where "BOIOS_USER_PROGRAM_STACK_SIZE \<equiv> 16384"

record process_state = task_state +
  current_process :: addr
  processes :: "addr list"

text \<open>A result of the paging code as the C code sees it.\<close>

definition map_to ::
    "addr \<Rightarrow> addr \<Rightarrow> addr \<Rightarrow> addr \<Rightarrow> u32 \<Rightarrow> 'z task_state_scheme \<Rightarrow> int \<times> 'z task_state_scheme" where
  "map_to chunk virt phys phys_end flags s =
     (let (r, m) = paging_map_to (mem s) chunk virt phys phys_end flags
      in (case r of Inl e \<Rightarrow> - errno e | Inr _ \<Rightarrow> 0, s\<lparr>mem := m\<rparr>))"

definition process_current :: "'z process_state_scheme \<Rightarrow> addr" where
  "process_current s = current_process s"

definition process_get :: "int \<Rightarrow> 'z process_state_scheme \<Rightarrow> addr" where
  "process_get pid s = (if pid < 0 \<or> pid \<ge> int BOIOS_MAX_PROCESSES then 0 else processes s ! nat pid)"

definition process_get_free_slot :: "'z process_state_scheme \<Rightarrow> int" where
  "process_get_free_slot s =
     (case free_slot (processes s) 0 of None \<Rightarrow> - errno EISTKN | Some i \<Rightarrow> int i)"

definition process_init :: "addr \<Rightarrow> 'z process_state_scheme \<Rightarrow> 'z process_state_scheme" where
  "process_init process s = upd_proc process (\<lambda>_. zero_process) s"

definition process_switch :: "addr \<Rightarrow> 'z process_state_scheme \<Rightarrow> 'z process_state_scheme" where
  "process_switch process s = s\<lparr>current_process := process\<rparr>"

subsection \<open>Program data\<close>

definition process_load_elf ::
    "(addr \<Rightarrow> ('z process_state_scheme) filesystem_ops) \<Rightarrow> addr \<Rightarrow> addr \<Rightarrow> addr \<Rightarrow> 'z process_state_scheme \<Rightarrow>
     (int \<times> 'z process_state_scheme) option" where
  "process_load_elf ops r_str filename process s =
     (case elf_load ops r_str filename s of
        None \<Rightarrow> None
      | Some (res, file_out, s) \<Rightarrow>
          Some (res, if res < 0 then s
            else upd_proc process (\<lambda>p. p\<lparr>pr_filetype := PROCESS_FILE_TYPE_ELF,
                   pr_ptr := (case file_out of None \<Rightarrow> 0 | Some f \<Rightarrow> f)\<rparr>) s))"

definition process_load_binary ::
    "(addr \<Rightarrow> ('z process_state_scheme) filesystem_ops) \<Rightarrow> addr \<Rightarrow> addr \<Rightarrow> addr \<Rightarrow> 'z process_state_scheme \<Rightarrow>
     (int \<times> 'z process_state_scheme) option" where
  "process_load_binary ops r_str filename process s =
     do {
       (fd, s) \<leftarrow> fopen ops filename r_str s;
       if fd = 0 then Some (- errno EIO, snd (fclose ops fd s))
       else
         let (res, stat) = fstat ops fd \<lparr>stat_flags = 0, stat_file_size = 0\<rparr> s
         in if res \<noteq> 0 then Some (res, snd (fclose ops fd s))
            else
              let (program_data_ptr, s) = kzalloc s (stat_file_size stat)
              in if program_data_ptr = 0 then Some (- errno ENOMEM, snd (fclose ops fd s))
                 else do {
                   (n, s) \<leftarrow> fread ops program_data_ptr (stat_file_size stat) 1 fd s;
                   if n \<noteq> 1 then Some (- errno EIO, snd (fclose ops fd (kfree s program_data_ptr)))
                   else
                     let s = upd_proc process (\<lambda>p. p\<lparr>pr_filetype := PROCESS_FILE_TYPE_BIN,
                               pr_ptr := program_data_ptr, pr_size := stat_file_size stat\<rparr>) s
                     in Some (res, snd (fclose ops fd s))
                 }
     }"

definition process_load_data ::
    "(addr \<Rightarrow> ('z process_state_scheme) filesystem_ops) \<Rightarrow> addr \<Rightarrow> addr \<Rightarrow> addr \<Rightarrow> 'z process_state_scheme \<Rightarrow>
     (int \<times> 'z process_state_scheme) option" where
  "process_load_data ops r_str filename process s =
     do {
       (res, s) \<leftarrow> process_load_elf ops r_str filename process s;
       if res = - errno EINFORMAT then process_load_binary ops r_str filename process s
       else Some (res, s)
     }"

definition process_free_binary_data :: "addr \<Rightarrow> 'z process_state_scheme \<Rightarrow> int \<times> 'z process_state_scheme" where
  "process_free_binary_data process s = (0, kfree s (pr_ptr (procs s process)))"

definition process_free_elf_data :: "addr \<Rightarrow> 'z process_state_scheme \<Rightarrow> int \<times> 'z process_state_scheme" where
  "process_free_elf_data process s = (0, elf_close (pr_ptr (procs s process)) s)"

definition process_free_program_data :: "addr \<Rightarrow> 'z process_state_scheme \<Rightarrow> int \<times> 'z process_state_scheme" where
  "process_free_program_data process s =
     (if pr_filetype (procs s process) = PROCESS_FILE_TYPE_BIN then process_free_binary_data process s
      else if pr_filetype (procs s process) = PROCESS_FILE_TYPE_ELF then process_free_elf_data process s
      else (- errno EINVARG, s))"

subsection \<open>Mapping\<close>

definition segment_flags :: "elf32_phdr \<Rightarrow> u32" where
  "segment_flags phdr =
     (let flags = PAGING_IS_PRESENT OR PAGING_ACCESS_FROM_ALL
      in if p_flags phdr AND PF_W \<noteq> 0 then flags OR PAGING_IS_WRITABLE else flags)"

text \<open>The headers are mapped from \<open>i\<close> on, \<open>n\<close> of them, up to the first error.\<close>

fun process_map_elf_loop ::
    "addr \<Rightarrow> elf_file \<Rightarrow> addr \<Rightarrow> nat \<Rightarrow> nat \<Rightarrow> 'z process_state_scheme \<Rightarrow> int \<times> 'z process_state_scheme" where
  "process_map_elf_loop process f phdrs i 0 s = (0, s)"
| "process_map_elf_loop process f phdrs i (Suc n) s =
     (let phdr = elf32_phdr_at (mem s) (phdrs + 32 * of_nat i);
          phys = elf_phdr_phys_address f phdr;
          (res, s) = map_to (t_page_directory (tasks s (pr_task (procs s process))))
            (paging_align_to_lower_page (p_vaddr phdr)) (paging_align_to_lower_page phys)
            (paging_align_address (phys + p_memsz phdr)) (segment_flags phdr) s
      in if res < 0 then (res, s) else process_map_elf_loop process f phdrs (i + 1) n s)"

definition process_map_elf :: "addr \<Rightarrow> 'z process_state_scheme \<Rightarrow> int \<times> 'z process_state_scheme" where
  "process_map_elf process s =
     (let f = elf_files s (pr_ptr (procs s process));
          hdr = elf_header f;
          phdrs = elf_pheader (mem s) hdr
      in process_map_elf_loop process f phdrs 0 (unat (e_phnum (elf32_header_at (mem s) hdr))) s)"

definition process_map_binary :: "addr \<Rightarrow> 'z process_state_scheme \<Rightarrow> int \<times> 'z process_state_scheme" where
  "process_map_binary process s =
     (let p = procs s process
      in map_to (t_page_directory (tasks s (pr_task p))) BOIOS_PROGRAM_VIRTUAL_ADDRESS (pr_ptr p)
           (paging_align_address (pr_ptr p + pr_size p)) 7 s)"

definition process_map_stack :: "addr \<Rightarrow> 'z process_state_scheme \<Rightarrow> int \<times> 'z process_state_scheme" where
  "process_map_stack process s =
     (let p = procs s process
      in map_to (t_page_directory (tasks s (pr_task p))) (0x3FF000 - BOIOS_USER_PROGRAM_STACK_SIZE) (pr_stack p)
           (paging_align_address (pr_stack p + BOIOS_USER_PROGRAM_STACK_SIZE)) 7 s)"

text \<open>An unknown file type panics: \<open>None\<close>.\<close>

definition process_map_memory :: "addr \<Rightarrow> 'z process_state_scheme \<Rightarrow> (int \<times> 'z process_state_scheme) option" where
  "process_map_memory process s =
     do {
       (res, s) \<leftarrow>
         (if pr_filetype (procs s process) = PROCESS_FILE_TYPE_ELF then Some (process_map_elf process s)
          else if pr_filetype (procs s process) = PROCESS_FILE_TYPE_BIN then Some (process_map_binary process s)
          else None);
       Some (if res < 0 then (res, s) else process_map_stack process s)
     }"

subsection \<open>Loading\<close>

fun bytes_until_nul :: "memory \<Rightarrow> addr \<Rightarrow> nat \<Rightarrow> u8 list" where
  "bytes_until_nul m p 0 = []"
| "bytes_until_nul m p (Suc n) = (if m p = 0 then [] else m p # bytes_until_nul m (p + 1) n)"

text \<open>
  The value of the local \<^verbatim>\<open>_process\<close> before its assignment is the parameter \<open>uninit\<close>;
  it is read when the slot is taken.  The process is returned on success.
\<close>

definition process_load_for_slot ::
    "(addr \<Rightarrow> ('z process_state_scheme) filesystem_ops) \<Rightarrow> addr \<Rightarrow> addr \<Rightarrow> addr \<Rightarrow> int \<Rightarrow>
     'z process_state_scheme \<Rightarrow> (int \<times> addr option \<times> 'z process_state_scheme) option" where
  "process_load_for_slot ops r_str uninit filename process_slot s =
     (let out = (\<lambda>process res s. Some (res, None :: addr option,
            if res < 0 \<and> process \<noteq> 0 \<and> pr_task (procs s process) \<noteq> 0
            then task_free (pr_task (procs s process)) s else s))
      in if process_get process_slot s \<noteq> 0 then out uninit (- errno EISTKN) s
         else
           let (process, s) = kzalloc s 9384
           in if process = 0 then out process (- errno ENOMEM) s
              else do {
                let s = process_init process s;
                (res, s) \<leftarrow> process_load_data ops r_str filename process s;
                if res < 0 then out process res s
                else
                  let (program_stack_ptr, s) = kzalloc s BOIOS_USER_PROGRAM_STACK_SIZE
                  in if program_stack_ptr = 0 then out process (- errno ENOMEM) s
                     else
                       let name = bytes_until_nul (mem s) filename 127;
                           s = upd_proc process (\<lambda>p. p\<lparr>pr_filename := name @ replicate (128 - length name) 0,
                                 pr_stack := program_stack_ptr, pr_pid := word_of_int process_slot\<rparr>) s;
                           (task, s) = task_new process s
                       in if task = 0 then out process 0 s
                          else do {
                            let s = upd_proc process (\<lambda>p. p\<lparr>pr_task := task\<rparr>) s;
                            (res, s) \<leftarrow> process_map_memory process s;
                            if res < 0 then out process res s
                            else Some (res, Some process,
                              s\<lparr>processes := (processes s)[nat process_slot := process]\<rparr>)
                          }
              })"

definition process_load ::
    "(addr \<Rightarrow> ('z process_state_scheme) filesystem_ops) \<Rightarrow> addr \<Rightarrow> addr \<Rightarrow> addr \<Rightarrow>
     'z process_state_scheme \<Rightarrow> (int \<times> addr option \<times> 'z process_state_scheme) option" where
  "process_load ops r_str uninit filename s =
     (let process_slot = process_get_free_slot s
      in if process_slot < 0 then Some (- errno ENOMEM, None, s)
         else process_load_for_slot ops r_str uninit filename process_slot s)"

text \<open>\<open>process\<close> is the value of the caller's variable, kept when nothing is written to it.\<close>

definition process_load_switch ::
    "(addr \<Rightarrow> ('z process_state_scheme) filesystem_ops) \<Rightarrow> addr \<Rightarrow> addr \<Rightarrow> addr \<Rightarrow> addr \<Rightarrow>
     'z process_state_scheme \<Rightarrow> (int \<times> addr \<times> 'z process_state_scheme) option" where
  "process_load_switch ops r_str uninit filename process s =
     do {
       (res, loaded, s) \<leftarrow> process_load ops r_str uninit filename s;
       let process = (case loaded of None \<Rightarrow> process | Some p \<Rightarrow> p);
       Some (res, process, if res = 0 then process_switch process s else s)
     }"

subsection \<open>Memory of a program\<close>

text \<open>The first slot of the allocation table with a pointer, from index \<open>i\<close> on.\<close>

fun find_allocation :: "process_allocation list \<Rightarrow> addr \<Rightarrow> nat \<Rightarrow> nat option" where
  "find_allocation [] ptr i = None"
| "find_allocation (a # as) ptr i = (if alloc_ptr a = ptr then Some i else find_allocation as ptr (i + 1))"

definition process_find_free_allocation_index :: "addr \<Rightarrow> 'z process_state_scheme \<Rightarrow> int" where
  "process_find_free_allocation_index process s =
     (case find_allocation (pr_allocations (procs s process)) 0 0 of None \<Rightarrow> - errno ENOMEM | Some i \<Rightarrow> int i)"

definition process_malloc :: "addr \<Rightarrow> u32 \<Rightarrow> 'z process_state_scheme \<Rightarrow> addr \<times> 'z process_state_scheme" where
  "process_malloc process sz s =
     (let (ptr, s) = kzalloc s sz
      in if ptr = 0 then (0, s)
         else
           let index = process_find_free_allocation_index process s
           in if index < 0 then (0, kfree s ptr)
              else
                let (res, s) = map_to (t_page_directory (tasks s (pr_task (procs s process)))) ptr ptr
                      (paging_align_address (ptr + sz)) 7 s
                in if res < 0 then (0, kfree s ptr)
                   else (ptr, upd_proc process (\<lambda>p. p\<lparr>pr_allocations :=
                     (pr_allocations p)[nat index := \<lparr>alloc_ptr = ptr, alloc_size = sz\<rparr>]\<rparr>) s))"

definition process_is_process_ptr :: "addr \<Rightarrow> addr \<Rightarrow> 'z process_state_scheme \<Rightarrow> bool" where
  "process_is_process_ptr process ptr s \<longleftrightarrow>
     find_allocation (pr_allocations (procs s process)) ptr 0 \<noteq> None"

definition process_allocation_unjoin :: "addr \<Rightarrow> addr \<Rightarrow> 'z process_state_scheme \<Rightarrow> 'z process_state_scheme" where
  "process_allocation_unjoin process ptr s =
     upd_proc process (\<lambda>p. p\<lparr>pr_allocations := map (\<lambda>a. if alloc_ptr a = ptr
       then \<lparr>alloc_ptr = 0, alloc_size = 0\<rparr> else a) (pr_allocations p)\<rparr>) s"

definition process_get_allocation_by_addr :: "addr \<Rightarrow> addr \<Rightarrow> 'z process_state_scheme \<Rightarrow> process_allocation option" where
  "process_get_allocation_by_addr process ptr s =
     map_option (\<lambda>i. pr_allocations (procs s process) ! i)
       (find_allocation (pr_allocations (procs s process)) ptr 0)"

definition process_free :: "addr \<Rightarrow> addr \<Rightarrow> 'z process_state_scheme \<Rightarrow> 'z process_state_scheme" where
  "process_free process ptr s =
     (case process_get_allocation_by_addr process ptr s of
        None \<Rightarrow> s
      | Some allocation \<Rightarrow>
          let (res, s) = map_to (t_page_directory (tasks s (pr_task (procs s process))))
                (alloc_ptr allocation) (alloc_ptr allocation)
                (paging_align_address (alloc_ptr allocation + alloc_size allocation)) 0 s
          in if res < 0 then s else kfree (process_allocation_unjoin process ptr s) ptr)"

subsection \<open>Arguments\<close>

definition process_get_arguments :: "addr \<Rightarrow> 'z process_state_scheme \<Rightarrow> u32 \<times> addr" where
  "process_get_arguments process s = (pr_argc (procs s process), pr_argv (procs s process))"

text \<open>
  A \<^verbatim>\<open>struct command_argument\<close> in memory: 512 bytes of text, then the next argument.
\<close>

partial_function (option) process_count_command_arguments :: "memory \<Rightarrow> addr \<Rightarrow> u32 \<Rightarrow> u32 option" where
  "process_count_command_arguments m current count =
     (if current = 0 then Some count
      else process_count_command_arguments m (read32 m (current + 512)) (count + 1))"

partial_function (option) inject_arguments_loop ::
    "addr \<Rightarrow> addr \<Rightarrow> addr \<Rightarrow> u32 \<Rightarrow> 'z process_state_scheme \<Rightarrow> (int \<times> 'z process_state_scheme) option" where
  "inject_arguments_loop process argv current i s =
     (if current = 0 then Some (0, s)
      else
        let (argument_str, s) = process_malloc process 512 s
        in if argument_str = 0 then Some (- errno ENOMEM, s)
           else
             let m = strncpy (mem s) argument_str current 512;
                 m = write32 m (argv + 4 * i) argument_str
             in inject_arguments_loop process argv (read32 m (current + 512)) (i + 1) (s\<lparr>mem := m\<rparr>))"

definition process_inject_arguments ::
    "addr \<Rightarrow> addr \<Rightarrow> 'z process_state_scheme \<Rightarrow> (int \<times> 'z process_state_scheme) option" where
  "process_inject_arguments process root_argument s =
     do {
       argc \<leftarrow> process_count_command_arguments (mem s) root_argument 0;
       if argc = 0 then Some (- errno EIO, s)
       else
         let (argv, s) = process_malloc process (4 * argc) s
         in if argv = 0 then Some (- errno ENOMEM, s)
            else do {
              (res, s) \<leftarrow> inject_arguments_loop process argv root_argument 0 s;
              Some (if res < 0 then (res, s)
                else (0, upd_proc process (\<lambda>p. p\<lparr>pr_argc := argc, pr_argv := argv\<rparr>) s))
            }
     }"

subsection \<open>Termination\<close>

fun terminate_allocations_loop :: "addr \<Rightarrow> nat \<Rightarrow> nat \<Rightarrow> 'z process_state_scheme \<Rightarrow> 'z process_state_scheme" where
  "terminate_allocations_loop process i 0 s = s"
| "terminate_allocations_loop process i (Suc n) s =
     terminate_allocations_loop process (i + 1) n
       (process_free process (alloc_ptr (pr_allocations (procs s process) ! i)) s)"

definition process_terminate_allocations :: "addr \<Rightarrow> 'z process_state_scheme \<Rightarrow> int \<times> 'z process_state_scheme" where
  "process_terminate_allocations process s =
     (0, terminate_allocations_loop process 0 BOIOS_MAX_PROGRAM_ALLOCATIONS s)"

fun switch_to_any_loop :: "addr list \<Rightarrow> 'z process_state_scheme \<Rightarrow> 'z process_state_scheme option" where
  "switch_to_any_loop [] s = None"
| "switch_to_any_loop (p # ps) s = (if p \<noteq> 0 then Some (process_switch p s) else switch_to_any_loop ps s)"

text \<open>Without any process the kernel panics: \<open>None\<close>.\<close>

definition process_switch_to_any :: "'z process_state_scheme \<Rightarrow> 'z process_state_scheme option" where
  "process_switch_to_any s = switch_to_any_loop (processes s) s"

definition process_unlink :: "addr \<Rightarrow> 'z process_state_scheme \<Rightarrow> 'z process_state_scheme option" where
  "process_unlink process s =
     (let s = s\<lparr>processes := (processes s)[unat (pr_pid (procs s process)) := 0]\<rparr>
      in if current_process s = process then process_switch_to_any s else Some s)"

text \<open>The struct of the process itself is not freed.\<close>

definition process_terminate :: "addr \<Rightarrow> 'z process_state_scheme \<Rightarrow> (int \<times> 'z process_state_scheme) option" where
  "process_terminate process s =
     (let (res, s) = process_terminate_allocations process s
      in if res < 0 then Some (0, s)
         else
           let (res, s) = process_free_program_data process s
           in if res < 0 then Some (0, s)
              else
                let s = kfree s (pr_stack (procs s process));
                    s = task_free (pr_task (procs s process)) s
                in map_option (\<lambda>s. (0, s)) (process_unlink process s))"

subsection \<open>Mapping keeps everything but the tables\<close>

text \<open>A byte of one of the page tables of an address space.\<close>

definition space_table_byte :: "memory \<Rightarrow> addr \<Rightarrow> addr \<Rightarrow> bool" where
  "space_table_byte m chunk a \<longleftrightarrow> (\<exists>i < 1024. in_range (dir_table m (read32 m chunk) i) 4096 a)"

lemma space_table_byte_page:
  "space_table_byte m chunk a \<Longrightarrow> \<exists>q \<in> space_pages m chunk. in_range q 4096 a"
  by (auto simp: space_table_byte_def space_pages_def)

lemma space_cong:
  assumes same: "\<forall>q \<in> space_pages m chunk. \<forall>a. in_range q 4096 a \<longrightarrow> m' a = m a"
  shows "read32 m' chunk = read32 m chunk"
    "i < 1024 \<Longrightarrow> dir_table m' (read32 m chunk) i = dir_table m (read32 m chunk) i"
    "space_pages m' chunk = space_pages m chunk" "space_ok m' chunk = space_ok m chunk"
    "page_aligned v \<Longrightarrow> paging_get m' (read32 m' chunk) v = paging_get m (read32 m chunk) v"
proof -
  have "read32 m' (page_slot chunk 0) = read32 m (page_slot chunk 0)"
    by (rule read32_page_cong) (use same in \<open>auto simp: space_pages_def\<close>)
  then show c: "read32 m' chunk = read32 m chunk" by simp
  have d: "dir_table m' (read32 m chunk) i = dir_table m (read32 m chunk) i" if "i < 1024" for i
    using that unfolding dir_table_def
    by (intro arg_cong[where f = "\<lambda>x. x AND PAGE_MASK"] read32_page_cong) (use same in \<open>auto simp: space_pages_def\<close>)
  then show "i < 1024 \<Longrightarrow> dir_table m' (read32 m chunk) i = dir_table m (read32 m chunk) i" .
  show "space_pages m' chunk = space_pages m chunk" using d by (auto simp: space_pages_def c)
  have "map (dir_table m' (read32 m chunk)) [0..<1024] = map (dir_table m (read32 m chunk)) [0..<1024]"
    using d by (intro map_cong) auto
  then show "space_ok m' chunk = space_ok m chunk" by (simp only: space_ok_def Let_def c)
  show "paging_get m' (read32 m' chunk) v = paging_get m (read32 m chunk) v" if "page_aligned v"
    unfolding paging_get_eq[OF that] c d[OF index_bounds(1)]
    using index_bounds(1)[of v]
    by (intro read32_page_cong[OF index_bounds(2)]) (use same in \<open>auto simp: space_pages_def\<close>)
qed

lemma paging_set_frame:
  assumes ok: "space_ok m chunk" and v: "page_aligned v"
    and set: "paging_set m (read32 m chunk) v x = Inr m'"
  shows "space_pages m' chunk = space_pages m chunk" "space_ok m' chunk" "read32 m' chunk = read32 m chunk"
    "\<not> space_table_byte m chunk a \<Longrightarrow> m' a = m a"
    "space_table_byte m' chunk a = space_table_byte m chunk a"
proof -
  have m': "m' = write32 m (page_slot (dir_table m (read32 m chunk) (dir_index v)) (tab_index v)) x"
    using set by (simp add: paging_set_eq[OF v])
  note w = write_table_entry[OF ok index_bounds[of v] m']
  show "space_pages m' chunk = space_pages m chunk" using w by (auto simp: space_pages_def)
  show "space_ok m' chunk" "read32 m' chunk = read32 m chunk" using w by simp_all
  show "space_table_byte m' chunk a = space_table_byte m chunk a" using w by (auto simp: space_table_byte_def)
  show "m' a = m a" if "\<not> space_table_byte m chunk a"
    unfolding m' using that page_slot_range[OF index_bounds(2)[of v]] index_bounds(1)[of v]
    by (intro write32_outside) (auto simp: space_table_byte_def)
qed

lemma paging_map_range_frame:
  assumes "space_ok m chunk" "page_aligned v" "page_aligned p"
    and "paging_map_range m chunk v p n f = (r, m')"
  shows "space_pages m' chunk = space_pages m chunk \<and> (\<not> space_table_byte m chunk a \<longrightarrow> m' a = m a)"
  using assms
proof (induction n arbitrary: m v p)
  case (Suc n)
  obtain m1 where m1: "paging_set m (read32 m chunk) v (p OR f) = Inr m1"
    using pspace.set_aligned[OF Suc.prems(1,2)] by blast
  note fr = paging_set_frame[OF Suc.prems(1,2) m1]
  have al: "page_aligned (v + 4096)" "page_aligned (p + 4096)"
    using page_aligned_add[of v 1] page_aligned_add[of p 1] Suc.prems(2,3) by simp_all
  have "paging_map_range m1 chunk (v + 4096) (p + 4096) n f = (r, m')"
    using Suc.prems m1 by (simp add: paging_map_def mod_4096_iff)
  from Suc.IH[OF fr(2) al this] show ?case using fr by simp
qed simp

text \<open>The pages of an address space are live allocations.\<close>

definition space_live :: "'z kmem_scheme \<Rightarrow> (addr \<rightharpoonup> nat) \<Rightarrow> addr \<Rightarrow> bool" where
  "space_live s A chunk \<longleftrightarrow> space_ok (mem s) chunk \<and> (\<forall>q \<in> space_pages (mem s) chunk. A q = Some 4096)"

lemma space_live_keep:
  assumes "space_live s A chunk" "\<And>q n a. A q = Some n \<Longrightarrow> in_range q n a \<Longrightarrow> mem s' a = mem s a"
    and "\<And>q n. A q = Some n \<Longrightarrow> A' q = Some n"
  shows "space_live s' A' chunk"
    "page_aligned v \<Longrightarrow> paging_get (mem s') (read32 (mem s') chunk) v = paging_get (mem s) (read32 (mem s) chunk) v"
proof -
  have "\<forall>q \<in> space_pages (mem s) chunk. \<forall>a. in_range q 4096 a \<longrightarrow> mem s' a = mem s a"
    using assms(1,2) by (auto simp: space_live_def)
  note c = space_cong[of "mem s" chunk "mem s'", OF this]
  show "space_live s' A' chunk" using assms(1,3) c(3,4) by (auto simp: space_live_def)
  show "page_aligned v \<Longrightarrow> paging_get (mem s') (read32 (mem s') chunk) v = paging_get (mem s) (read32 (mem s) chunk) v"
    by (rule c(5))
qed

lemma map_to_ok:
  assumes live: "live_regions s A" and sp: "space_live s A chunk"
    and al: "page_aligned v" "page_aligned p" and n: "unat p + n * 4096 < 4294967296"
    and e: "e = p + of_nat (n * 4096)"
  obtains m where "map_to chunk v p e f s = (0, s\<lparr>mem := m\<rparr>)"
    "live_regions (s\<lparr>mem := m\<rparr>) A" "avail (s\<lparr>mem := m\<rparr>) = avail s" "space_live (s\<lparr>mem := m\<rparr>) A chunk"
    "\<And>k. k < n \<Longrightarrow> paging_get m (read32 m chunk) (v + of_nat k * 4096) = (p + of_nat k * 4096) OR f"
    "\<And>w. page_aligned w \<Longrightarrow> (\<And>k. k < n \<Longrightarrow> w \<noteq> v + of_nat k * 4096) \<Longrightarrow>
       paging_get m (read32 m chunk) w = paging_get (mem s) (read32 (mem s) chunk) w"
    "\<And>a. \<not> space_table_byte (mem s) chunk a \<Longrightarrow> m a = mem s a"
    "space_pages m chunk = space_pages (mem s) chunk"
proof -
  have ok: "space_ok (mem s) chunk" using sp by (simp add: space_live_def)
  have n': "n \<le> 1048576" using n by linarith
  obtain m where m: "paging_map_range (mem s) chunk v p n f = (Inr (), m)" "space_ok m chunk"
    "\<And>k. k < n \<Longrightarrow> paging_get m (read32 m chunk) (v + of_nat k * 4096) = (p + of_nat k * 4096) OR f"
    "\<And>w. page_aligned w \<Longrightarrow> (\<And>k. k < n \<Longrightarrow> w \<noteq> v + of_nat k * 4096) \<Longrightarrow>
       paging_get m (read32 m chunk) w = paging_get (mem s) (read32 (mem s) chunk) w"
    by (rule paging_map_range_ok[OF ok al n']) blast
  note fr = paging_map_range_frame[OF ok al m(1)]
  have of: "unat (of_nat (n * 4096) :: u32) = n * 4096" using n by (intro unat_of_nat32) linarith
  have ue: "unat e = unat p + n * 4096" using unat_add_no_wrap[of p "of_nat (n * 4096)"] n of e by simp
  have pe: "\<not> e < p" using ue by (simp add: word_less_nat_alt)
  have ea: "page_aligned e" using ue al(2) by simp
  have cnt: "unat ((e - p) div 4096) = n" using of by (simp add: e unat_div)
  have "map_to chunk v p e f s = (0, s\<lparr>mem := m\<rparr>)"
    using m(1) pe ea al cnt by (simp add: map_to_def paging_map_to_def mod_4096_iff Let_def)
  moreover have keep: "m a = mem s a" if "table_byte (kernel_heap s) a" for a
  proof -
    have "\<not> space_table_byte (mem s) chunk a"
      using that sp kpages.live_private[OF live] space_table_byte_page[of "mem s" chunk a]
      by (auto simp: space_live_def)
    then show ?thesis using fr by simp
  qed
  moreover note live_regions_mem[OF live keep]
  moreover have "space_live (s\<lparr>mem := m\<rparr>) A chunk" using sp fr m(2) by (simp add: space_live_def)
  ultimately show thesis using m(3,4) fr by (intro that[where m = m]) simp_all
qed

subsection \<open>Allocation for a program\<close>

lemma paging_align_address_up:
  assumes "page_aligned p"
  shows "paging_align_address (p + d) = p + of_nat (blocks_for d * 4096)"
proof -
  define q where "q = unat d div 4096"
  define r where "r = unat d mod 4096"
  have d: "unat d = q * 4096 + r" "r < 4096" by (simp_all add: q_def r_def)
  obtain k where k: "unat p = 4096 * k" using assms by (auto elim: dvdE)
  have "unat ((p + d) mod 4096) = (unat p + unat d) mod 4294967296 mod 4096"
    by (simp add: unat_mod unat_word_ariths)
  also have "\<dots> = (unat p + unat d) mod 4096" by (rule mod_mod_cancel) simp
  also have "\<dots> = r" using k by (simp add: r_def mod_add_eq[symmetric])
  finally have m: "unat ((p + d) mod 4096) = r" .
  then have mr: "(p + d) mod 4096 = of_nat r" by (metis of_nat_unat ucast_id)
  have dw: "d = of_nat q * 4096 + of_nat r"
  proof -
    have "d = of_nat (q * 4096 + r)" using d(1) by (metis of_nat_unat ucast_id)
    then show ?thesis by simp
  qed
  show ?thesis
  proof (cases "r = 0")
    case True
    then have "blocks_for d = q" using d(1) by (simp add: blocks_for_def)
    then show ?thesis using mr dw True by (simp add: paging_align_address_def)
  next
    case False
    then have b: "blocks_for d = Suc q" using d by (simp add: blocks_for_def)
    have "(p + d) mod 4096 \<noteq> 0" using m False by (metis unat_0)
    then show ?thesis unfolding paging_align_address_def mr b by (simp add: dw algebra_simps)
  qed
qed

lemma proc_heap_cong [simp]:
  "live_regions (s\<lparr>procs := x\<rparr>) A = live_regions s A" "avail (s\<lparr>procs := x\<rparr>) = avail s"
  "space_live (s\<lparr>procs := x\<rparr>) A chunk = space_live s A chunk"
  "avail (s\<lparr>procs := x, mem := m\<rparr>) = avail (s\<lparr>mem := m\<rparr>)"
  by (simp_all add: live_regions_def kheap_ok_def avail_def space_live_def)

abbreviation proc_chunk :: "addr \<Rightarrow> 'z task_state_scheme \<Rightarrow> addr" where
  "proc_chunk process s \<equiv> t_page_directory (tasks s (pr_task (procs s process)))"

text \<open>The translation of a page in the address space of a process.\<close>

definition proc_entry :: "addr \<Rightarrow> 'z task_state_scheme \<Rightarrow> addr \<Rightarrow> u32" where
  "proc_entry process s v = paging_get (mem s) (read32 (mem s) (proc_chunk process s)) v"

lemma boot_live_low:
  assumes "live_regions s A" "kernel_heap s = boot_heap" "A p = Some n" "0 < n"
  shows "unat p < 0x7400000"
proof -
  have "in_range p n p" using assms(4) by (simp add: in_range_def)
  then have "pool_byte (kernel_heap s) p" using kpages.live_pool[OF assms(1,3)] by blast
  then show ?thesis using assms(2) by (simp add: boot_ranges)
qed

lemma find_allocation_Some:
  "find_allocation as x k = Some i \<Longrightarrow>
     k \<le> i \<and> i - k < length as \<and> alloc_ptr (as ! (i - k)) = x \<and> (\<forall>j < i - k. alloc_ptr (as ! j) \<noteq> x)"
proof (induction as arbitrary: k)
  case (Cons a as)
  show ?case
  proof (cases "alloc_ptr a = x")
    case False
    then have f: "find_allocation as x (k + 1) = Some i" using Cons.prems by simp
    note ih = Cons.IH[OF f]
    have "i - k = Suc (i - (k + 1))" using ih by linarith
    then show ?thesis using ih False by (auto simp: less_Suc_eq_0_disj)
  qed (use Cons.prems in simp)
qed simp

lemma find_allocation_first:
  "i < length as \<Longrightarrow> alloc_ptr (as ! i) = x \<Longrightarrow> (\<And>j. j < i \<Longrightarrow> alloc_ptr (as ! j) \<noteq> x) \<Longrightarrow>
     find_allocation as x k = Some (k + i)"
proof (induction as arbitrary: i k)
  case (Cons a as)
  show ?case
  proof (cases i)
    case (Suc i')
    have "alloc_ptr a \<noteq> x" using Cons.prems(3)[of 0] Suc by simp
    then show ?thesis using Cons.IH[of i' "k + 1"] Cons.prems Suc by fastforce
  qed (use Cons.prems in simp)
qed simp

lemma process_malloc_runs:
  assumes live: "live_regions s A" and kh: "kernel_heap s = boot_heap"
    and sp: "space_live s A (proc_chunk process s)"
    and sz: "0 < unat sz" "unat sz \<le> 4096" and av: "0 < avail s"
    and slot: "find_allocation (pr_allocations (procs s process)) 0 0 = Some i"
  obtains p m where
    "process_malloc process sz s = (p, upd_proc process (\<lambda>q. q\<lparr>pr_allocations :=
       (pr_allocations q)[i := \<lparr>alloc_ptr = p, alloc_size = sz\<rparr>]\<rparr>) (s\<lparr>mem := m\<rparr>))"
    "p \<noteq> 0" "A p = None" "page_aligned p" "unat p < 0x7400000"
    "live_regions (s\<lparr>mem := m\<rparr>) (A(p \<mapsto> 4096))" "avail s = Suc (avail (s\<lparr>mem := m\<rparr>))"
    "space_live (s\<lparr>mem := m\<rparr>) (A(p \<mapsto> 4096)) (proc_chunk process s)"
    "proc_entry process (s\<lparr>mem := m\<rparr>) p = p OR 7"
    "\<And>w. page_aligned w \<Longrightarrow> w \<noteq> p \<Longrightarrow> proc_entry process (s\<lparr>mem := m\<rparr>) w = proc_entry process s w"
    "\<And>a. in_range p (unat sz) a \<Longrightarrow> m a = 0"
    "\<And>q n a. A q = Some n \<Longrightarrow> in_range q n a \<Longrightarrow> \<not> space_table_byte (mem s) (proc_chunk process s) a \<Longrightarrow> m a = mem s a"
    "space_pages m (proc_chunk process s) = space_pages (mem s) (proc_chunk process s)"
proof -
  let ?chunk = "proc_chunk process s"
  obtain p s1 where z: "kzalloc s sz = (p, s1)" by fastforce
  obtain m0 where s1: "s1 = s\<lparr>mem := m0\<rparr>" using kzalloc_mem[OF z] by blast
  note law = kpages.alloc_page[OF live sz av z]
  note keep1 = kpages.alloc_keeps_live[OF live sz av z]
  have kept: "\<And>q n. A q = Some n \<Longrightarrow> (A(p \<mapsto> 4096)) q = Some n" using law by auto
  have sp1: "space_live s1 (A(p \<mapsto> 4096)) ?chunk"
    "page_aligned v \<Longrightarrow> paging_get (mem s1) (read32 (mem s1) ?chunk) v = paging_get (mem s) (read32 (mem s) ?chunk) v" for v
    using space_live_keep[where s' = s1, OF sp] keep1 kept by blast+
  have live1: "live_regions s1 (A(p \<mapsto> 4096))" using law by simp
  have low: "unat p < 0x7400000" using boot_live_low[OF live1, of p 4096] kh by (simp add: s1)
  have al: "page_aligned p" using law by simp
  have e: "paging_align_address (p + sz) = p + of_nat (1 * 4096)"
    using paging_align_address_up[OF al, of sz] blocks_for_page[OF sz] by simp
  have n: "unat p + 1 * 4096 < 4294967296" using low by simp
  obtain m where m: "map_to ?chunk p p (paging_align_address (p + sz)) 7 s1 = (0, s1\<lparr>mem := m\<rparr>)"
    "live_regions (s1\<lparr>mem := m\<rparr>) (A(p \<mapsto> 4096))" "avail (s1\<lparr>mem := m\<rparr>) = avail s1"
    "space_live (s1\<lparr>mem := m\<rparr>) (A(p \<mapsto> 4096)) ?chunk"
    "\<And>k. k < 1 \<Longrightarrow> paging_get m (read32 m ?chunk) (p + of_nat k * 4096) = (p + of_nat k * 4096) OR 7"
    "\<And>w. page_aligned w \<Longrightarrow> (\<And>k. k < 1 \<Longrightarrow> w \<noteq> p + of_nat k * 4096) \<Longrightarrow>
       paging_get m (read32 m ?chunk) w = paging_get (mem s1) (read32 (mem s1) ?chunk) w"
    "\<And>a. \<not> space_table_byte (mem s1) ?chunk a \<Longrightarrow> m a = mem s1 a"
    and pages: "space_pages m ?chunk = space_pages (mem s1) ?chunk"
    by (rule map_to_ok[OF live1 sp1(1) al al n e, where f = 7]) blast
  have kq: "\<forall>q \<in> space_pages (mem s) ?chunk. \<forall>a. in_range q 4096 a \<longrightarrow> mem s1 a = mem s a"
    using keep1 sp by (auto simp: space_live_def)
  have tb: "space_table_byte (mem s1) ?chunk a = space_table_byte (mem s) ?chunk a" for a
    using space_cong(1,2)[of "mem s" ?chunk "mem s1", OF kq] by (auto simp: space_table_byte_def)
  have fresh: "\<not> space_table_byte (mem s) ?chunk a" if "in_range p 4096 a" for a
  proof
    assume "space_table_byte (mem s) ?chunk a"
    then obtain q where "q \<in> space_pages (mem s) ?chunk" "in_range q 4096 a" using space_table_byte_page by blast
    then show False
      using sp that kpages.alloc_new_apart[OF live sz av z, of q 4096] by (auto simp: space_live_def disjoint_ranges_def)
  qed
  have idx: "process_find_free_allocation_index process (s\<lparr>mem := m0\<rparr>) = int i"
    using slot by (simp add: process_find_free_allocation_index_def)
  have call: "process_malloc process sz s = (p, upd_proc process (\<lambda>q. q\<lparr>pr_allocations :=
       (pr_allocations q)[i := \<lparr>alloc_ptr = p, alloc_size = sz\<rparr>]\<rparr>) (s\<lparr>mem := m\<rparr>))"
    using z law m(1) idx by (simp add: process_malloc_def s1)
  show thesis
  proof (rule that[OF call _ _ al low])
    show "p \<noteq> 0" "A p = None" using law by simp_all
    show "space_pages m ?chunk = space_pages (mem s) ?chunk"
      using pages space_cong(3)[of "mem s" ?chunk "mem s1", OF kq] by simp
    show "live_regions (s\<lparr>mem := m\<rparr>) (A(p \<mapsto> 4096))" "space_live (s\<lparr>mem := m\<rparr>) (A(p \<mapsto> 4096)) ?chunk"
      using m(2,4) by (simp_all add: s1)
    show "avail s = Suc (avail (s\<lparr>mem := m\<rparr>))" using m(3) law by (simp add: s1)
    show "proc_entry process (s\<lparr>mem := m\<rparr>) p = p OR 7" using m(5)[of 0] by (simp add: proc_entry_def)
    show "proc_entry process (s\<lparr>mem := m\<rparr>) w = proc_entry process s w" if "page_aligned w" "w \<noteq> p" for w
      using m(6)[OF that(1)] that(2) sp1(2)[OF that(1)] by (simp add: proc_entry_def)
    show "m a = 0" if a: "in_range p (unat sz) a" for a
    proof -
      have "in_range p 4096 a" using a sz by (auto simp: in_range_def)
      then show ?thesis using m(7)[of a] tb fresh kpages.alloc_zeroed[OF live sz av z a] by simp
    qed
    show "m a = mem s a" if "A q = Some n" "in_range q n a" "\<not> space_table_byte (mem s) ?chunk a" for q n a
      using m(7)[of a] tb that keep1[OF that(1,2)] by simp
  qed
qed

text \<open>
  The allocation table of a process agrees with the heap: a used slot holds a live
  region that is no page of the address space, each in one slot only; an unused one
  is clear.
\<close>

definition alloc_ok :: "(addr \<rightharpoonup> nat) \<Rightarrow> addr set \<Rightarrow> process_allocation \<Rightarrow> bool" where
  "alloc_ok A S a \<longleftrightarrow>
     (if alloc_ptr a = 0 then alloc_size a = 0
      else 0 < unat (alloc_size a) \<and> A (alloc_ptr a) = Some (blocks_for (alloc_size a) * 4096) \<and> alloc_ptr a \<notin> S)"

definition allocs_ok :: "(addr \<rightharpoonup> nat) \<Rightarrow> addr set \<Rightarrow> process_allocation list \<Rightarrow> bool" where
  "allocs_ok A S as \<longleftrightarrow> length as = BOIOS_MAX_PROGRAM_ALLOCATIONS \<and> (\<forall>a \<in> set as. alloc_ok A S a) \<and>
     (\<forall>i < length as. \<forall>j < length as. alloc_ptr (as ! i) = alloc_ptr (as ! j) \<longrightarrow> alloc_ptr (as ! i) \<noteq> 0 \<longrightarrow> i = j)"

definition proc_mem_ok :: "addr \<Rightarrow> 'z task_state_scheme \<Rightarrow> (addr \<rightharpoonup> nat) \<Rightarrow> bool" where
  "proc_mem_ok process s A \<longleftrightarrow> live_regions s A \<and> kernel_heap s = boot_heap \<and>
     space_live s A (proc_chunk process s) \<and>
     allocs_ok A (space_pages (mem s) (proc_chunk process s)) (pr_allocations (procs s process))"

lemma allocs_ok_insert:
  assumes "allocs_ok A S as" "i < length as" "alloc_ptr (as ! i) = 0" "p \<noteq> 0" "A p = None" "p \<notin> S"
    and "0 < unat sz" "n = blocks_for sz * 4096"
  shows "allocs_ok (A(p \<mapsto> n)) S (as[i := \<lparr>alloc_ptr = p, alloc_size = sz\<rparr>])"
proof -
  let ?bs = "as[i := \<lparr>alloc_ptr = p, alloc_size = sz\<rparr>]"
  have new: "alloc_ptr (as ! j) \<noteq> p" if "j < length as" for j
    using assms(1,4,5) nth_mem[OF that] by (auto simp: allocs_ok_def alloc_ok_def split: if_splits)
  have "\<forall>a \<in> set as. alloc_ok (A(p \<mapsto> n)) S a"
    using assms(1,5) by (auto simp: allocs_ok_def alloc_ok_def)
  then have "\<forall>a \<in> set ?bs. alloc_ok (A(p \<mapsto> n)) S a"
    using assms by (auto simp: alloc_ok_def dest!: set_update_subset_insert[THEN subsetD])
  moreover have "j = k" if "j < length as" "k < length as" "alloc_ptr (?bs ! j) = alloc_ptr (?bs ! k)"
    "alloc_ptr (?bs ! j) \<noteq> 0" for j k
    using that new[of j] new[of k] assms(1,2) by (auto simp: allocs_ok_def nth_list_update split: if_splits)
  ultimately show ?thesis using assms(1) by (simp add: allocs_ok_def)
qed

text \<open>\<^verbatim>\<open>process_allocation_unjoin\<close> on a table with each pointer once clears one slot.\<close>

definition unjoin_list :: "addr \<Rightarrow> process_allocation list \<Rightarrow> process_allocation list" where
  "unjoin_list p as = map (\<lambda>a. if alloc_ptr a = p then \<lparr>alloc_ptr = 0, alloc_size = 0\<rparr> else a) as"

lemma unjoin_list_ok:
  assumes "allocs_ok A S as"
  shows "allocs_ok (A(p := None)) S (unjoin_list p as)"
proof -
  have "\<forall>a \<in> set (unjoin_list p as). alloc_ok (A(p := None)) S a"
    using assms by (auto simp: allocs_ok_def alloc_ok_def unjoin_list_def)
  then show ?thesis using assms by (auto simp: allocs_ok_def unjoin_list_def split: if_splits)
qed

lemma unjoin_list_insert:
  assumes "allocs_ok A S as" "i < length as" "alloc_ptr (as ! i) = 0" "p \<noteq> 0" "A p = None"
  shows "unjoin_list p (as[i := \<lparr>alloc_ptr = p, alloc_size = sz\<rparr>]) = as"
proof (rule nth_equalityI)
  have new: "alloc_ptr (as ! j) \<noteq> p" if "j < length as" for j
    using assms(1,4,5) nth_mem[OF that] by (auto simp: allocs_ok_def alloc_ok_def split: if_splits)
  have z: "as ! i = \<lparr>alloc_ptr = 0, alloc_size = 0\<rparr>"
    using assms(1,3) nth_mem[OF assms(2)] by (auto simp: allocs_ok_def alloc_ok_def)
  show "unjoin_list p (as[i := \<lparr>alloc_ptr = p, alloc_size = sz\<rparr>]) ! j = as ! j"
    if "j < length (unjoin_list p (as[i := \<lparr>alloc_ptr = p, alloc_size = sz\<rparr>]))" for j
    using that new[of j] z by (cases "j = i") (auto simp: unjoin_list_def)
qed (simp add: unjoin_list_def)

lemma process_free_runs:
  assumes ok: "proc_mem_ok process s A" and slot: "find_allocation (pr_allocations (procs s process)) p 0 = Some i"
    and p: "p \<noteq> 0"
  obtains m where
    "process_free process p s = upd_proc process (\<lambda>q. q\<lparr>pr_allocations := unjoin_list p (pr_allocations q)\<rparr>) (s\<lparr>mem := m\<rparr>)"
    "proc_mem_ok process (process_free process p s) (A(p := None))"
    "avail (s\<lparr>mem := m\<rparr>) = avail s + blocks_for (alloc_size (pr_allocations (procs s process) ! i))"
    "\<And>k. k < blocks_for (alloc_size (pr_allocations (procs s process) ! i)) \<Longrightarrow>
       proc_entry process (process_free process p s) (p + of_nat k * 4096) = p + of_nat k * 4096"
    "\<And>w. page_aligned w \<Longrightarrow>
       (\<And>k. k < blocks_for (alloc_size (pr_allocations (procs s process) ! i)) \<Longrightarrow> w \<noteq> p + of_nat k * 4096) \<Longrightarrow>
       proc_entry process (process_free process p s) w = proc_entry process s w"
    "space_pages m (proc_chunk process s) = space_pages (mem s) (proc_chunk process s)"
    "\<And>a. \<not> table_byte boot_heap a \<Longrightarrow> (\<forall>q \<in> space_pages (mem s) (proc_chunk process s). \<not> in_range q 4096 a) \<Longrightarrow>
       m a = mem s a"
proof -
  let ?chunk = "proc_chunk process s" and ?as = "pr_allocations (procs s process)"
  define sz where "sz = alloc_size (?as ! i)"
  define n where "n = blocks_for sz"
  have i: "i < length ?as" "alloc_ptr (?as ! i) = p" using find_allocation_Some[OF slot] by simp_all
  have live: "live_regions s A" and kh: "kernel_heap s = boot_heap" and sp: "space_live s A ?chunk"
    and as: "allocs_ok A (space_pages (mem s) ?chunk) ?as"
    using ok by (simp_all add: proc_mem_ok_def)
  have "alloc_ok A (space_pages (mem s) ?chunk) (?as ! i)" using as i by (auto simp: allocs_ok_def)
  then have Ap: "A p = Some (n * 4096)" "p \<notin> space_pages (mem s) ?chunk" "0 < unat sz"
    using i p by (simp_all add: alloc_ok_def sz_def n_def)
  have n0: "0 < n" using blocks_for_bounds(1) Ap(3) by (simp add: n_def)
  obtain L where L: "kheap_ok s L" "A = region_map (kernel_heap s) L" using live by (auto simp: live_regions_def)
  obtain st k where b: "p = block_addr boot_heap st" "L st = Some k" "n * 4096 = k * 4096"
    using region_mapE[of "kernel_heap s" L p "n * 4096"] Ap(1) L(2) kh by metis
  have hi: "heap_inv (mem s) boot_heap L" using L(1) kh by (simp add: kheap_ok_def)
  have fit: "st + n \<le> 25600" "0 < n"
    using hi b(2,3) by (auto simp: heap_inv_def boot_heap_def)
  have up: "unat p = 0x1000000 + st * 4096"
    using block_region(1)[OF boot_heap_layout, of st n] fit b(1) by (simp add: boot_heap_def)
  have al: "page_aligned p"
    using block_addr_aligned[OF boot_heap_layout, of st] fit b(1) by (simp add: boot_heap_def)
  have e: "paging_align_address (p + sz) = p + of_nat (n * 4096)"
    using paging_align_address_up[OF al] by (simp add: n_def)
  have bd: "unat p + n * 4096 < 4294967296" using up fit by simp
  obtain m where m: "map_to ?chunk p p (paging_align_address (p + sz)) 0 s = (0, s\<lparr>mem := m\<rparr>)"
    "live_regions (s\<lparr>mem := m\<rparr>) A" "avail (s\<lparr>mem := m\<rparr>) = avail s" "space_live (s\<lparr>mem := m\<rparr>) A ?chunk"
    "\<And>k. k < n \<Longrightarrow> paging_get m (read32 m ?chunk) (p + of_nat k * 4096) = (p + of_nat k * 4096) OR 0"
    "\<And>w. page_aligned w \<Longrightarrow> (\<And>k. k < n \<Longrightarrow> w \<noteq> p + of_nat k * 4096) \<Longrightarrow>
       paging_get m (read32 m ?chunk) w = paging_get (mem s) (read32 (mem s) ?chunk) w"
    "\<And>a. \<not> space_table_byte (mem s) ?chunk a \<Longrightarrow> m a = mem s a"
    and pages: "space_pages m ?chunk = space_pages (mem s) ?chunk"
    by (rule map_to_ok[OF live sp al al bd e, where f = 0]) blast
  let ?s1 = "s\<lparr>mem := m\<rparr>"
  note rel = kpages.release_live[OF m(2) Ap(1)]
  define m2 where "m2 = heap_free m (kernel_heap s) p"
  have m2: "kfree ?s1 p = ?s1\<lparr>mem := m2\<rparr>" by (simp add: m2_def kfree_def)
  have call: "process_free process p s =
      upd_proc process (\<lambda>q. q\<lparr>pr_allocations := unjoin_list p (pr_allocations q)\<rparr>) (s\<lparr>mem := m2\<rparr>)"
    using slot i m(1)
    by (simp add: process_free_def process_get_allocation_by_addr_def process_allocation_unjoin_def
        unjoin_list_def[abs_def] sz_def upd_proc_def kfree_def m2_def)
  have keep: "\<forall>q \<in> space_pages m ?chunk. \<forall>a. in_range q 4096 a \<longrightarrow> m2 a = m a"
  proof (intro ballI allI impI)
    show "m2 a = m a" if "q \<in> space_pages m ?chunk" "in_range q 4096 a" for q a
      using rel m2 kpages.live_private[OF m(2), of q 4096 a] m(4) that by (simp add: space_live_def)
  qed
  note c = space_cong[of m ?chunk m2, OF keep]
  have ok': "proc_mem_ok process (process_free process p s) (A(p := None))"
    using rel m2 kh c(3,4) pages m(4) Ap(2) unjoin_list_ok[OF as, of p]
    by (auto simp: call proc_mem_ok_def upd_proc_def space_live_def live_regions_def kheap_ok_def)
  have ent: "proc_entry process (process_free process p s) w = paging_get m (read32 m ?chunk) w" if "page_aligned w" for w
    using c(5)[OF that] by (simp add: call proc_entry_def upd_proc_def)
  have frame: "m2 a = mem s a"
    if "\<not> table_byte boot_heap a" "\<forall>q \<in> space_pages (mem s) ?chunk. \<not> in_range q 4096 a" for a
  proof -
    have "\<not> space_table_byte (mem s) ?chunk a" using that(2) space_table_byte_page by blast
    then show ?thesis using rel m2 m(7) that(1) kh by simp
  qed
  show thesis
    using m(3,5,6) rel m2 ok' ent page_aligned_add[OF al] c(3) pages frame
    by (intro that[OF call]) (simp_all add: n_def sz_def proc_entry_def)
qed

subsection \<open>The table of processes\<close>

text \<open>
  Every process is in the slot its identifier names, and the current one is in the table.
\<close>

definition process_table_ok :: "'z process_state_scheme \<Rightarrow> bool" where
  "process_table_ok s \<longleftrightarrow> length (processes s) = BOIOS_MAX_PROCESSES \<and>
     (\<forall>i < BOIOS_MAX_PROCESSES. processes s ! i \<noteq> 0 \<longrightarrow> unat (pr_pid (procs s (processes s ! i))) = i) \<and>
     current_process s \<in> set (processes s) - {0}"

lemma switch_to_any_loop_run:
  "switch_to_any_loop ps s = None \<longleftrightarrow> set ps \<subseteq> {0}"
  "switch_to_any_loop ps s = Some s' \<Longrightarrow> \<exists>p \<in> set ps - {0}. s' = process_switch p s"
  by (induction ps) (auto split: if_splits)

lemma process_slot_unique:
  assumes "process_table_ok s" "i < BOIOS_MAX_PROCESSES" "processes s ! i = p" "p \<noteq> 0"
  shows "i = unat (pr_pid (procs s p))"
  using assms by (auto simp: process_table_ok_def)

lemma process_get_free_slot_range:
  assumes "length (processes s) = BOIOS_MAX_PROCESSES" "0 \<le> process_get_free_slot s"
  shows "process_get (process_get_free_slot s) s = 0" "process_get_free_slot s < 12"
  using assms free_slot_Some[of "processes s" 0]
  by (auto simp: process_get_free_slot_def process_get_def split: option.splits)

lemma process_unlink_runs:
  assumes "process_table_ok s" "p \<in> set (processes s) - {0}"
  shows "case process_unlink p s of
      None \<Rightarrow> set (processes s) \<subseteq> {0, p}
    | Some s' \<Rightarrow> process_table_ok s' \<and> set (processes s') - {0} = set (processes s) - {0, p} \<and>
        (current_process s \<noteq> p \<longrightarrow> current_process s' = current_process s)"
proof -
  define i where "i = unat (pr_pid (procs s p))"
  have len: "length (processes s) = 12" using assms(1) by (simp add: process_table_ok_def)
  obtain j where j: "j < 12" "processes s ! j = p" using assms(2) len by (auto simp: in_set_conv_nth)
  then have ij: "j = i" using process_slot_unique[OF assms(1)] assms(2) by (simp add: i_def)
  let ?ps = "(processes s)[i := 0]"
  have nth: "?ps ! k = (if k = i then 0 else processes s ! k)" if "k < 12" for k using that len by simp
  have other: "processes s ! k \<noteq> p" if "k < 12" "k \<noteq> i" for k
    using process_slot_unique[OF assms(1) that(1)] that(2) assms(2) by (auto simp: i_def)
  have set: "set ?ps - {0} = set (processes s) - {0, p}"
  proof (intro equalityI subsetI)
    fix x assume "x \<in> set ?ps - {0}"
    then obtain k where "k < 12" "?ps ! k = x" "x \<noteq> 0" using len by (auto simp: in_set_conv_nth)
    then show "x \<in> set (processes s) - {0, p}" using nth other len by (auto split: if_splits)
  next
    fix x assume "x \<in> set (processes s) - {0, p}"
    then obtain k where k: "k < 12" "processes s ! k = x" "x \<noteq> 0" "x \<noteq> p" using len by (auto simp: in_set_conv_nth)
    then have "?ps ! k = x" using nth j ij by auto
    then show "x \<in> set ?ps - {0}" using k len nth_mem[of k ?ps] by auto
  qed
  have slots: "unat (pr_pid (procs s (?ps ! k))) = k" if "k < 12" "?ps ! k \<noteq> 0" for k
    using that nth assms(1) by (auto simp: process_table_ok_def split: if_splits)
  show ?thesis
  proof (cases "current_process s = p")
    case True
    show ?thesis
    proof (cases "switch_to_any_loop ?ps (s\<lparr>processes := ?ps\<rparr>)")
      case None
      then have "set ?ps - {0} = {}" by (auto simp: switch_to_any_loop_run(1))
      then show ?thesis using None True set
        by (auto simp: process_unlink_def process_switch_to_any_def i_def)
    next
      case (Some s')
      then obtain q where q: "q \<in> set ?ps - {0}" "s' = process_switch q (s\<lparr>processes := ?ps\<rparr>)"
        using switch_to_any_loop_run(2) by blast
      then have "q \<in> set (processes s)" "q \<noteq> p" "q \<noteq> 0" using set by auto
      then show ?thesis using q Some True set slots len
        by (simp add: process_unlink_def process_switch_to_any_def i_def process_table_ok_def process_switch_def)
    qed
  next
    case False
    then have "current_process s \<in> set ?ps - {0}" "current_process s \<in> set (processes s)"
      using assms(1) set by (auto simp: process_table_ok_def)
    then show ?thesis using False set slots len by (simp add: process_unlink_def i_def process_table_ok_def)
  qed
qed

subsection \<open>Properties\<close>

text \<open>
  C26: unlinking a process empties exactly its slot.  The table stays consistent, and
  the current process is again one of the table; the kernel panics only when the
  process was the last one.
\<close>

theorem process_unlink_ok:
  assumes "process_table_ok s" "p \<in> set (processes s) - {0}"
  shows "case process_unlink p s of
      None \<Rightarrow> set (processes s) \<subseteq> {0, p}
    | Some s' \<Rightarrow> process_table_ok s' \<and> set (processes s') - {0} = set (processes s) - {0, p} \<and>
        (current_process s \<noteq> p \<longrightarrow> current_process s' = current_process s)"
  using assms by (rule process_unlink_runs)

definition sample_procs :: process_state where
  "sample_procs = \<lparr>mem = \<lambda>_. 0, kernel_heap = boot_heap, current_directory = 0, cr3 = 0,
     disk_ports = \<lparr>sent = [], status_reads = 0\<rparr>, streams = sample_streams,
     the_disk = \<lparr>disk_type = 0, sector_size = 512, disk_id = 0, filesystem = 0x9000, fs_private = 9\<rparr>,
     privates = \<lambda>_. sample_private, dir_items = \<lambda>_. [sample_item],
     directories = \<lambda>_. zero_directory, fat_items = \<lambda>_. \<lparr>item_ptr = 0, item_type = 0\<rparr>,
     descriptors = \<lambda>_. \<lparr>desc_item = 0, desc_position = 0\<rparr>, fat16_name = [],
     filesystems = 0x9000 # replicate 11 0, file_descriptors = replicate 512 0,
     file_descs = \<lambda>_. \<lparr>fd_index = 0, fd_filesystem = 0, fd_private = 0, fd_disk = None\<rparr>,
     elf_files = \<lambda>_. zero_elf_file, tasks = \<lambda>_. zero_task, procs = \<lambda>_. zero_process,
     current_task = 0, task_tail = 0, task_head = 0, kernel_chunk = 0, user_mode = None,
     current_process = 0, processes = replicate 12 0\<rparr>"

definition two_procs :: process_state where
  "two_procs = sample_procs\<lparr>procs := (\<lambda>_. zero_process)(0x6000 := zero_process\<lparr>pr_pid := 1\<rparr>),
     processes := 0x5000 # 0x6000 # replicate 10 0, current_process := 0x6000\<rparr>"

lemma two_procs_ok: "process_table_ok two_procs"
  by (auto simp: process_table_ok_def two_procs_def sample_procs_def zero_process_def nth_Cons split: nat.splits)

theorem process_unlink_ok_witness:
  "\<exists>s'. process_unlink 0x6000 two_procs = Some s' \<and> set (processes s') - {0} = {0x5000}"
proof -
  have p: "0x6000 \<in> set (processes two_procs) - {0}" by (simp add: two_procs_def)
  have ps: "set (processes two_procs) - {0, 0x6000} = {0x5000}" "\<not> set (processes two_procs) \<subseteq> {0, 0x6000}"
    by (auto simp: two_procs_def)
  show ?thesis using process_unlink_ok[OF two_procs_ok p] ps by (cases "process_unlink 0x6000 two_procs") auto
qed

text \<open>
  loading a program never reads the uninitialised local \<^verbatim>\<open>_process\<close>: the slot that
  \<^verbatim>\<open>process_load\<close> picks is always free, so the branch that would read it is dead, and
  the outcome does not depend on its value.
\<close>

theorem process_load_initialised:
  assumes "length (processes s) = BOIOS_MAX_PROCESSES"
  shows "process_load ops r_str u filename s = process_load ops r_str u' filename s"
proof (cases "process_get_free_slot s < 0")
  case False
  then have "process_get (process_get_free_slot s) s = 0" using process_get_free_slot_range(1)[OF assms] by simp
  then show ?thesis by (simp add: process_load_def process_load_for_slot_def Let_def)
qed (simp add: process_load_def)

theorem process_load_initialised_witness:
  "process_load (\<lambda>_. fat16_filesystem (image_disk of_nat) 0x600 0x9000) 0x508 1 0x500 sample_procs =
     process_load (\<lambda>_. fat16_filesystem (image_disk of_nat) 0x600 0x9000) 0x508 2 0x500 sample_procs"
  by (rule process_load_initialised) (simp add: sample_procs_def)

text \<open>A process whose new task has its own address space.\<close>

definition loaded_procs :: process_state where
  "loaded_procs = (let (t, s) = task_new 0x5000 sample_procs in upd_proc 0x5000 (\<lambda>p. p\<lparr>pr_task := t\<rparr>) s)"

lemma sample_procs_heap:
  "live_regions sample_procs (region_map boot_heap Map.empty)" "avail sample_procs = 25600"
  "task_list sample_procs []"
  by (rule boot_heap_live; simp add: sample_procs_def)+ (simp add: task_links_def sample_procs_def)

lemma zero_process_allocs: "allocs_ok A S (pr_allocations zero_process)"
  by (auto simp: allocs_ok_def alloc_ok_def zero_process_def)

lemma first_process_ok:
  assumes s: "live_regions s A" "avail s = 25600" "kernel_heap s = boot_heap" "task_list s []"
    and p: "procs s p = zero_process"
    and new: "task_new p s = (t, s')"
  defines "s2 \<equiv> upd_proc p (\<lambda>q. q\<lparr>pr_task := t\<rparr>) s'"
  obtains B where "proc_mem_ok p s2 B" "avail s2 = 24573" "procs s2 p = zero_process\<lparr>pr_task := t\<rparr>"
    "linear_space (mem s2) (t_page_directory (tasks s2 t)) 5" "t_process (tasks s2 t) = p" "t \<noteq> 0"
proof -
  have av: "1027 \<le> avail s" "\<forall>t \<in> set []. A t \<noteq> None" by (simp_all add: s)
  obtain t' chunk m ip s1 where n: "task_new p s = (t', s1)" "t' \<noteq> 0"
    "tasks s1 t' = (init_task chunk ip p)\<lparr>t_prev := last_or 0 []\<rparr>" "linear_space (mem s1) chunk 5"
    "live_regions s1 (add_pages (A(t' \<mapsto> 4096)) (space_pages (mem s1) chunk))"
    "avail s = avail s1 + 1027" "kernel_heap s1 = kernel_heap s" "procs s1 = procs s"
    by (rule task_new_ok[OF s(1) av(1) s(4) av(2), of p]) blast
  have eq: "t' = t" "s1 = s'" using n(1) new by simp_all
  note n = n[unfolded eq]
  let ?B = "add_pages (A(t \<mapsto> 4096)) (space_pages (mem s') chunk)"
  have c: "proc_chunk p s2 = chunk" "t_page_directory (tasks s2 t) = chunk" "t_process (tasks s2 t) = p"
    using n(3) by (simp_all add: s2_def upd_proc_def init_task_def)
  have pr: "procs s2 p = zero_process\<lparr>pr_task := t\<rparr>" using n(8) p by (simp add: s2_def upd_proc_def)
  have "space_live s' ?B chunk" using n(4) by (simp add: space_live_def linear_space_def)
  then have "proc_mem_ok p s2 ?B"
    using n(5,7) zero_process_allocs s(3)
    unfolding proc_mem_ok_def c unfolding pr by (simp add: s2_def upd_proc_def)
  moreover have "avail s2 = 24573" using n(6) s(2) by (simp add: s2_def upd_proc_def)
  moreover have "linear_space (mem s2) chunk 5" using n(4) by (simp add: s2_def upd_proc_def)
  ultimately show thesis using that[of ?B] pr c n(2) by simp
qed

lemma loaded_procs_ok:
  obtains A where "proc_mem_ok 0x5000 loaded_procs A" "avail loaded_procs = 24573"
    "procs loaded_procs 0x5000 = zero_process\<lparr>pr_task := pr_task (procs loaded_procs 0x5000)\<rparr>"
proof -
  obtain t s' where n: "task_new 0x5000 sample_procs = (t, s')" by fastforce
  have k: "kernel_heap sample_procs = boot_heap" "procs sample_procs 0x5000 = zero_process"
    by (simp_all add: sample_procs_def)
  have l: "loaded_procs = upd_proc 0x5000 (\<lambda>p. p\<lparr>pr_task := t\<rparr>) s'" using n by (simp add: loaded_procs_def)
  obtain B where B: "proc_mem_ok 0x5000 loaded_procs B" "avail loaded_procs = 24573"
    "procs loaded_procs 0x5000 = zero_process\<lparr>pr_task := t\<rparr>"
    unfolding l by (rule first_process_ok[OF sample_procs_heap(1,2) k(1) sample_procs_heap(3) k(2) n]) blast
  then show thesis using that by simp
qed

lemma process_malloc_spec:
  assumes "proc_mem_ok process s A" "0 < unat sz" "unat sz \<le> 4096" "0 < avail s"
    and "find_allocation (pr_allocations (procs s process)) 0 0 = Some i"
  shows "\<exists>p s'. process_malloc process sz s = (p, s') \<and> p \<noteq> 0 \<and> A p = None \<and>
     proc_mem_ok process s' (A(p \<mapsto> 4096)) \<and> avail s = Suc (avail s') \<and>
     pr_allocations (procs s' process) =
       (pr_allocations (procs s process))[i := \<lparr>alloc_ptr = p, alloc_size = sz\<rparr>] \<and>
     proc_entry process s' p = p OR PAGING_IS_WRITABLE OR PAGING_IS_PRESENT OR PAGING_ACCESS_FROM_ALL \<and>
     (\<forall>w. page_aligned w \<and> w \<noteq> p \<longrightarrow> proc_entry process s' w = proc_entry process s w) \<and>
     (\<forall>a. in_range p (unat sz) a \<longrightarrow> mem s' a = 0)"
proof -
  let ?c = "proc_chunk process s"
  have ok: "live_regions s A" "kernel_heap s = boot_heap" "space_live s A ?c"
    "allocs_ok A (space_pages (mem s) ?c) (pr_allocations (procs s process))"
    using assms(1) by (simp_all add: proc_mem_ok_def)
  obtain p m where c: "process_malloc process sz s = (p, upd_proc process (\<lambda>q. q\<lparr>pr_allocations :=
       (pr_allocations q)[i := \<lparr>alloc_ptr = p, alloc_size = sz\<rparr>]\<rparr>) (s\<lparr>mem := m\<rparr>))"
    "p \<noteq> 0" "A p = None" "live_regions (s\<lparr>mem := m\<rparr>) (A(p \<mapsto> 4096))" "avail s = Suc (avail (s\<lparr>mem := m\<rparr>))"
    "space_live (s\<lparr>mem := m\<rparr>) (A(p \<mapsto> 4096)) ?c" "proc_entry process (s\<lparr>mem := m\<rparr>) p = p OR 7"
    "\<And>w. page_aligned w \<Longrightarrow> w \<noteq> p \<Longrightarrow> proc_entry process (s\<lparr>mem := m\<rparr>) w = proc_entry process s w"
    "\<And>a. in_range p (unat sz) a \<Longrightarrow> m a = 0" "space_pages m ?c = space_pages (mem s) ?c"
    by (rule process_malloc_runs[OF ok(1-3) assms(2-5)]) blast
  have "p \<notin> space_pages (mem s) ?c" using ok(3) c(3) by (auto simp: space_live_def)
  then have al: "allocs_ok (A(p \<mapsto> 4096)) (space_pages (mem s) ?c)
      ((pr_allocations (procs s process))[i := \<lparr>alloc_ptr = p, alloc_size = sz\<rparr>])"
    using find_allocation_Some[OF assms(5)] blocks_for_page[OF assms(2,3)] assms(2) c(2,3)
    by (intro allocs_ok_insert[OF ok(4)]) simp_all
  show ?thesis
    using c al ok(2) by (simp add: proc_mem_ok_def upd_proc_def proc_entry_def)
qed

text \<open>
  C7: with an unused slot and a free block, \<^verbatim>\<open>process_malloc\<close> of up to a page returns new
  zeroed memory that the process may write: the region is live and recorded in the
  first unused slot, its page maps to itself for the user, all other pages translate
  as before, and the allocation table still agrees with the heap.
\<close>

theorem process_malloc_ok:
  assumes "proc_mem_ok process s A" "0 < unat sz" "unat sz \<le> 4096" "0 < avail s"
    and "find_allocation (pr_allocations (procs s process)) 0 0 = Some i"
  shows "\<exists>p s'. process_malloc process sz s = (p, s') \<and> p \<noteq> 0 \<and> A p = None \<and>
     proc_mem_ok process s' (A(p \<mapsto> 4096)) \<and> avail s = Suc (avail s') \<and>
     pr_allocations (procs s' process) =
       (pr_allocations (procs s process))[i := \<lparr>alloc_ptr = p, alloc_size = sz\<rparr>] \<and>
     proc_entry process s' p = p OR PAGING_IS_WRITABLE OR PAGING_IS_PRESENT OR PAGING_ACCESS_FROM_ALL \<and>
     (\<forall>w. page_aligned w \<and> w \<noteq> p \<longrightarrow> proc_entry process s' w = proc_entry process s w) \<and>
     (\<forall>a. in_range p (unat sz) a \<longrightarrow> mem s' a = 0)"
  using assms by (rule process_malloc_spec)

theorem process_malloc_ok_witness:
  "\<exists>p s'. process_malloc 0x5000 512 loaded_procs = (p, s') \<and> p \<noteq> 0 \<and>
     proc_entry 0x5000 s' p = p OR 7 \<and> avail s' = 24572"
proof -
  obtain A where A: "proc_mem_ok 0x5000 loaded_procs A" "avail loaded_procs = 24573"
    "procs loaded_procs 0x5000 = zero_process\<lparr>pr_task := pr_task (procs loaded_procs 0x5000)\<rparr>"
    by (rule loaded_procs_ok)
  have "pr_allocations (procs loaded_procs 0x5000) = replicate 1024 \<lparr>alloc_ptr = 0, alloc_size = 0\<rparr>"
    by (subst A(3)) (simp add: zero_process_def)
  then have "find_allocation (pr_allocations (procs loaded_procs 0x5000)) 0 0 = Some (0 + 0)"
    by (intro find_allocation_first) simp_all
  from process_malloc_ok[OF A(1), of 512, OF _ _ _ this] A(2) show ?thesis by auto
qed

text \<open>
  C8: \<^verbatim>\<open>process_free\<close> of memory from \<^verbatim>\<open>process_malloc\<close> takes it all back: the live regions,
  the free blocks and the allocation table are those before the allocation, and of the
  translations only that of the freed page differs, which now has no permission left.
\<close>

theorem process_malloc_free:
  assumes "proc_mem_ok process s A" "0 < unat sz" "unat sz \<le> 4096" "0 < avail s"
    and "find_allocation (pr_allocations (procs s process)) 0 0 = Some i"
    and "process_malloc process sz s = (p, s')"
  shows "proc_mem_ok process (process_free process p s') A \<and> avail (process_free process p s') = avail s \<and>
     pr_allocations (procs (process_free process p s') process) = pr_allocations (procs s process) \<and>
     proc_entry process (process_free process p s') p = p \<and>
     (\<forall>w. page_aligned w \<and> w \<noteq> p \<longrightarrow> proc_entry process (process_free process p s') w = proc_entry process s w)"
proof -
  let ?c = "proc_chunk process s" and ?as = "pr_allocations (procs s process)"
  let ?bs = "?as[i := \<lparr>alloc_ptr = p, alloc_size = sz\<rparr>]"
  have ok: "live_regions s A" "kernel_heap s = boot_heap" "space_live s A ?c" "allocs_ok A (space_pages (mem s) ?c) ?as"
    using assms(1) by (simp_all add: proc_mem_ok_def)
  obtain m where c: "s' = upd_proc process (\<lambda>q. q\<lparr>pr_allocations :=
       (pr_allocations q)[i := \<lparr>alloc_ptr = p, alloc_size = sz\<rparr>]\<rparr>) (s\<lparr>mem := m\<rparr>)"
    "p \<noteq> 0" "A p = None" "live_regions (s\<lparr>mem := m\<rparr>) (A(p \<mapsto> 4096))" "avail s = Suc (avail (s\<lparr>mem := m\<rparr>))"
    "space_live (s\<lparr>mem := m\<rparr>) (A(p \<mapsto> 4096)) ?c"
    "\<And>w. page_aligned w \<Longrightarrow> w \<noteq> p \<Longrightarrow> proc_entry process (s\<lparr>mem := m\<rparr>) w = proc_entry process s w"
    "space_pages m ?c = space_pages (mem s) ?c"
    by (rule process_malloc_runs[OF ok(1-3) assms(2-5)]) (use assms(6) in fastforce)
  have i: "i < length ?as" "alloc_ptr (?as ! i) = 0" using find_allocation_Some[OF assms(5)] by simp_all
  have "p \<notin> space_pages (mem s) ?c" using ok(3) c(3) by (auto simp: space_live_def)
  then have al: "allocs_ok (A(p \<mapsto> 4096)) (space_pages (mem s) ?c) ?bs"
    using blocks_for_page[OF assms(2,3)] assms(2) c(2,3) i by (intro allocs_ok_insert[OF ok(4)]) simp_all
  have ok': "proc_mem_ok process s' (A(p \<mapsto> 4096))"
    using al ok(2) c by (simp add: proc_mem_ok_def upd_proc_def)
  have bs: "pr_allocations (procs s' process) = ?bs" by (simp add: c(1) upd_proc_def)
  have new: "alloc_ptr (?bs ! j) \<noteq> p" if "j < i" for j
    using that i(1) ok(4) c(2,3) nth_mem[of j ?as] by (auto simp: allocs_ok_def alloc_ok_def split: if_splits)
  have slot: "find_allocation (pr_allocations (procs s' process)) p 0 = Some i"
    using find_allocation_first[of i ?bs p 0] i(1) new by (simp add: bs)
  have one: "blocks_for (alloc_size (pr_allocations (procs s' process) ! i)) = 1"
    using i(1) blocks_for_page[OF assms(2,3)] by (simp add: bs)
  obtain m2 where f: "process_free process p s' = upd_proc process (\<lambda>q. q\<lparr>pr_allocations := unjoin_list p (pr_allocations q)\<rparr>) (s'\<lparr>mem := m2\<rparr>)"
    "proc_mem_ok process (process_free process p s') ((A(p \<mapsto> 4096))(p := None))"
    "avail (s'\<lparr>mem := m2\<rparr>) = avail s' + 1"
    "\<And>k. k < 1 \<Longrightarrow> proc_entry process (process_free process p s') (p + of_nat k * 4096) = p + of_nat k * 4096"
    "\<And>w. page_aligned w \<Longrightarrow> (\<And>k. k < 1 \<Longrightarrow> w \<noteq> p + of_nat k * 4096) \<Longrightarrow>
       proc_entry process (process_free process p s') w = proc_entry process s' w"
    by (rule process_free_runs[OF ok' slot c(2)]) (simp only: one; blast)
  have A: "(A(p \<mapsto> 4096))(p := None) = A" using c(3) by auto
  have un: "unjoin_list p ?bs = ?as" by (rule unjoin_list_insert[OF ok(4) i c(2,3)])
  have ent: "proc_entry process s' w = proc_entry process s w" if "page_aligned w" "w \<noteq> p" for w
    using c(7)[OF that] by (simp add: c(1) proc_entry_def upd_proc_def)
  show ?thesis
  proof (intro conjI allI impI)
    show "proc_mem_ok process (process_free process p s') A" using f(2) by (simp only: A)
    show "avail (process_free process p s') = avail s" unfolding f(1) using f(3) c(1,5) by (simp add: upd_proc_def)
    show "pr_allocations (procs (process_free process p s') process) = ?as"
      unfolding f(1) by (simp add: c(1) upd_proc_def un)
    show "proc_entry process (process_free process p s') p = p" using f(4)[of 0] by simp
    show "proc_entry process (process_free process p s') w = proc_entry process s w"
      if "page_aligned w \<and> w \<noteq> p" for w
      using f(5)[of w] ent[of w] that by simp
  qed
qed

theorem process_malloc_free_witness:
  "\<exists>p s'. process_malloc 0x5000 512 loaded_procs = (p, s') \<and> avail (process_free 0x5000 p s') = 24573"
proof -
  obtain A where A: "proc_mem_ok 0x5000 loaded_procs A" "avail loaded_procs = 24573"
    "procs loaded_procs 0x5000 = zero_process\<lparr>pr_task := pr_task (procs loaded_procs 0x5000)\<rparr>"
    by (rule loaded_procs_ok)
  have "pr_allocations (procs loaded_procs 0x5000) = replicate 1024 \<lparr>alloc_ptr = 0, alloc_size = 0\<rparr>"
    by (subst A(3)) (simp add: zero_process_def)
  then have slot: "find_allocation (pr_allocations (procs loaded_procs 0x5000)) 0 0 = Some (0 + 0)"
    by (intro find_allocation_first) simp_all
  obtain p s' where c: "process_malloc 0x5000 512 loaded_procs = (p, s')" by fastforce
  from process_malloc_free[OF A(1), of 512, OF _ _ _ slot c] A(2) c show ?thesis by auto
qed

lemma process_map_binary_runs:
  assumes "live_regions s A" "space_live s A (proc_chunk process s)"
    and "pr_filetype (procs s process) = PROCESS_FILE_TYPE_BIN"
    and "page_aligned (pr_ptr (procs s process))" "page_aligned (pr_stack (procs s process))"
    and "unat (pr_size (procs s process)) \<le> 104857600"
    and "unat (pr_ptr (procs s process)) < 0x7400000" "unat (pr_stack (procs s process)) < 0x7400000"
  obtains m where "process_map_memory process s = Some (0, s\<lparr>mem := m\<rparr>)" "live_regions (s\<lparr>mem := m\<rparr>) A"
    "avail (s\<lparr>mem := m\<rparr>) = avail s" "space_live (s\<lparr>mem := m\<rparr>) A (proc_chunk process s)"
    "space_pages m (proc_chunk process s) = space_pages (mem s) (proc_chunk process s)"
    "\<And>b. unat b < unat (pr_size (procs s process)) \<Longrightarrow>
        task_virtual_address_to_physical (pr_task (procs s process)) (0x400000 + b) (s\<lparr>mem := m\<rparr>) =
          pr_ptr (procs s process) + b"
    "\<And>b. unat b < 16384 \<Longrightarrow>
        task_virtual_address_to_physical (pr_task (procs s process)) (0x3FB000 + b) (s\<lparr>mem := m\<rparr>) =
          pr_stack (procs s process) + b"
    "\<And>a. (\<forall>q \<in> space_pages (mem s) (proc_chunk process s). \<not> in_range q 4096 a) \<Longrightarrow> m a = mem s a"
proof -
  let ?p = "procs s process" and ?c = "proc_chunk process s"
  let ?n = "blocks_for (pr_size ?p)"
  have n: "?n \<le> 25600" using assms(6) by (simp add: blocks_for_def)
  have bd: "unat (pr_ptr ?p) + ?n * 4096 < 4294967296" "unat (pr_stack ?p) + 4 * 4096 < 4294967296"
    using n assms(7,8) by simp_all
  have e: "paging_align_address (pr_ptr ?p + pr_size ?p) = pr_ptr ?p + of_nat (?n * 4096)"
    "paging_align_address (pr_stack ?p + 16384) = pr_stack ?p + of_nat (4 * 4096)"
    using paging_align_address_up[OF assms(4)] paging_align_address_up[OF assms(5), of 16384]
    by (simp_all add: blocks_for_def)
  have al: "page_aligned (0x400000 :: addr)" "page_aligned (0x3FB000 :: addr)" by simp_all
  obtain m1 where m1: "map_to ?c 0x400000 (pr_ptr ?p) (paging_align_address (pr_ptr ?p + pr_size ?p)) 7 s = (0, s\<lparr>mem := m1\<rparr>)"
    "live_regions (s\<lparr>mem := m1\<rparr>) A" "avail (s\<lparr>mem := m1\<rparr>) = avail s" "space_live (s\<lparr>mem := m1\<rparr>) A ?c"
    "\<And>k. k < ?n \<Longrightarrow> paging_get m1 (read32 m1 ?c) (0x400000 + of_nat k * 4096) = (pr_ptr ?p + of_nat k * 4096) OR 7"
    "\<And>a. \<not> space_table_byte (mem s) ?c a \<Longrightarrow> m1 a = mem s a" "space_pages m1 ?c = space_pages (mem s) ?c"
    by (rule map_to_ok[OF assms(1,2) al(1) assms(4) bd(1) e(1), where f = 7]) blast
  obtain m2 where m2: "map_to ?c 0x3FB000 (pr_stack ?p) (paging_align_address (pr_stack ?p + 16384)) 7 (s\<lparr>mem := m1\<rparr>) =
      (0, s\<lparr>mem := m1\<rparr>\<lparr>mem := m2\<rparr>)"
    "live_regions (s\<lparr>mem := m1\<rparr>\<lparr>mem := m2\<rparr>) A" "avail (s\<lparr>mem := m1\<rparr>\<lparr>mem := m2\<rparr>) = avail (s\<lparr>mem := m1\<rparr>)"
    "\<And>k. k < 4 \<Longrightarrow> paging_get m2 (read32 m2 ?c) (0x3FB000 + of_nat k * 4096) = (pr_stack ?p + of_nat k * 4096) OR 7"
    "\<And>w. page_aligned w \<Longrightarrow> (\<And>k. k < 4 \<Longrightarrow> w \<noteq> 0x3FB000 + of_nat k * 4096) \<Longrightarrow>
       paging_get m2 (read32 m2 ?c) w = paging_get m1 (read32 m1 ?c) w"
    "space_live (s\<lparr>mem := m1\<rparr>\<lparr>mem := m2\<rparr>) A ?c"
    "\<And>a. \<not> space_table_byte (mem (s\<lparr>mem := m1\<rparr>)) ?c a \<Longrightarrow> m2 a = mem (s\<lparr>mem := m1\<rparr>) a"
    "space_pages m2 ?c = space_pages (mem (s\<lparr>mem := m1\<rparr>)) ?c"
    by (rule map_to_ok[OF m1(2,4) al(2) assms(5) bd(2) e(2), where f = 7]) simp
  have call: "process_map_memory process s = Some (0, s\<lparr>mem := m2\<rparr>)"
    using assms(3) m1(1) m2(1)
    by (simp add: process_map_memory_def process_map_binary_def process_map_stack_def)
  have apart: "0x400000 + of_nat k * 4096 \<noteq> (0x3FB000 + of_nat j * 4096 :: addr)" if "k < ?n" "j < 4" for k j
  proof -
    have "unat (of_nat (k * 4096) :: u32) = k * 4096" "unat (of_nat (j * 4096) :: u32) = j * 4096"
      using that n by (intro unat_of_nat32; linarith)+
    then have "unat (0x400000 + of_nat (k * 4096) :: u32) = 0x400000 + k * 4096"
      "unat (0x3FB000 + of_nat (j * 4096) :: u32) = 0x3FB000 + j * 4096"
      using unat_add_no_wrap[of "0x400000" "of_nat (k * 4096)"] unat_add_no_wrap[of "0x3FB000" "of_nat (j * 4096)"] that n
      by simp_all
    moreover have "0x400000 + k * 4096 \<noteq> 0x3FB000 + j * 4096" using that(2) by linarith
    ultimately have "(0x400000 + of_nat (k * 4096) :: u32) \<noteq> 0x3FB000 + of_nat (j * 4096)" by metis
    then show ?thesis by simp
  qed
  have g1: "paging_get m2 (read32 m2 ?c) (0x400000 + of_nat k * 4096) = (pr_ptr ?p + of_nat k * 4096) OR 7" if "k < ?n" for k
    using m2(5)[OF page_aligned_add[OF al(1)]] apart[OF that] m1(5)[OF that] by simp
  have b1: "paging_get_physical_address m2 (read32 m2 ?c) (0x400000 + b) = pr_ptr ?p + b" if "unat b < unat (pr_size ?p)" for b
  proof (rule entries_translate[OF al(1) assms(4) _ g1])
    show "unat b < ?n * 4096" by (rule less_le_trans[OF that blocks_for_bounds(2)])
  qed simp_all
  have b2: "paging_get_physical_address m2 (read32 m2 ?c) (0x3FB000 + b) = pr_stack ?p + b" if "unat b < 16384" for b
  proof (rule entries_translate[OF al(2) assms(5) _ m2(4)])
    show "unat b < 4 * 4096" using that by (simp del: word_less_nat_alt)
  qed simp_all
  have keep: "m2 a = mem s a" if "\<forall>q \<in> space_pages (mem s) ?c. \<not> in_range q 4096 a" for a
  proof -
    have "\<not> space_table_byte (mem s) ?c a" "\<not> space_table_byte m1 ?c a"
      using that space_table_byte_page[of "mem s" ?c a] space_table_byte_page[of m1 ?c a] m1(7) by auto
    then show ?thesis using m1(6) m2(7) by simp
  qed
  show thesis
    by (rule that[OF call]) (use m1(3,7) m2(2,3,6,8) b1 b2 keep in \<open>simp_all add: task_virtual_address_to_physical_def\<close>)
qed

text \<open>
  a program loaded as a binary is visible where it expects to be: after
  \<^verbatim>\<open>process_map_memory\<close> byte \<open>b\<close> of the program is at \<open>0x400000 + b\<close> and byte \<open>b\<close> of the
  stack at \<open>0x3FB000 + b\<close> in the address space of its task; both mappings succeed and
  no live allocation is lost.
\<close>

theorem process_map_memory_binary:
  assumes "live_regions s A" "space_live s A (proc_chunk process s)"
    and "pr_filetype (procs s process) = PROCESS_FILE_TYPE_BIN"
    and "page_aligned (pr_ptr (procs s process))" "page_aligned (pr_stack (procs s process))"
    and "unat (pr_size (procs s process)) \<le> 104857600"
    and "unat (pr_ptr (procs s process)) < 0x7400000" "unat (pr_stack (procs s process)) < 0x7400000"
  shows "\<exists>s'. process_map_memory process s = Some (0, s') \<and> live_regions s' A \<and> avail s' = avail s \<and>
     (\<forall>b. unat b < unat (pr_size (procs s process)) \<longrightarrow>
        task_virtual_address_to_physical (pr_task (procs s process)) (0x400000 + b) s' =
          pr_ptr (procs s process) + b) \<and>
     (\<forall>b. unat b < 16384 \<longrightarrow>
        task_virtual_address_to_physical (pr_task (procs s process)) (0x3FB000 + b) s' =
          pr_stack (procs s process) + b)"
proof (rule process_map_binary_runs[OF assms], goal_cases)
  case (1 m)
  then show ?case by (intro exI[of _ "s\<lparr>mem := m\<rparr>"]) simp
qed

text \<open>A process with a binary of 6000 bytes and its stack.\<close>

definition binary_procs :: process_state where
  "binary_procs = upd_proc 0x5000 (\<lambda>p. p\<lparr>pr_filetype := PROCESS_FILE_TYPE_BIN, pr_ptr := 0x2000000,
     pr_size := 6000, pr_stack := 0x3000000\<rparr>) loaded_procs"

theorem process_map_memory_binary_witness:
  "\<exists>s'. process_map_memory 0x5000 binary_procs = Some (0, s') \<and>
     task_virtual_address_to_physical (pr_task (procs loaded_procs 0x5000)) 0x401010 s' = 0x2001010"
proof -
  obtain A where A: "proc_mem_ok 0x5000 loaded_procs A" by (rule loaded_procs_ok)
  have p: "procs binary_procs 0x5000 = (procs loaded_procs 0x5000)\<lparr>pr_filetype := PROCESS_FILE_TYPE_BIN,
      pr_ptr := 0x2000000, pr_size := 6000, pr_stack := 0x3000000\<rparr>" "tasks binary_procs = tasks loaded_procs"
    by (simp_all add: binary_procs_def upd_proc_def)
  have "live_regions binary_procs A" "space_live binary_procs A (proc_chunk 0x5000 binary_procs)"
    using A unfolding p proc_mem_ok_def by (simp_all add: binary_procs_def upd_proc_def)
  from process_map_memory_binary[OF this] p obtain s' where
    s': "process_map_memory 0x5000 binary_procs = Some (0, s')"
    "\<And>b. unat b < 6000 \<Longrightarrow> task_virtual_address_to_physical (pr_task (procs loaded_procs 0x5000)) (0x400000 + b) s' =
       0x2000000 + b" by auto
  from s'(2)[of "0x1010"] have
    "task_virtual_address_to_physical (pr_task (procs loaded_procs 0x5000)) 0x401010 s' = 0x2001010" by simp
  with s'(1) show ?thesis by blast
qed

subsection \<open>Counting arguments\<close>

text \<open>A list of arguments in memory, ending in a null pointer.\<close>

fun argument_list :: "memory \<Rightarrow> addr \<Rightarrow> addr list \<Rightarrow> bool" where
  "argument_list m p [] \<longleftrightarrow> p = 0"
| "argument_list m p (a # as) \<longleftrightarrow> p = a \<and> a \<noteq> 0 \<and> argument_list m (read32 m (a + 512)) as"

lemma process_count_loop:
  "argument_list m p as \<Longrightarrow> process_count_command_arguments m p c = Some (c + of_nat (length as))"
  by (induction as arbitrary: p c)
    (subst process_count_command_arguments.simps, simp add: add.commute add.left_commute)+

text \<open>
  the walk over the command arguments ends on every list that ends in a null
  pointer, and counts its elements.
\<close>

theorem process_count_arguments_ends:
  assumes "argument_list m p as"
  shows "process_count_command_arguments m p 0 = Some (of_nat (length as))"
  using process_count_loop[OF assms, of 0] by simp

theorem process_count_arguments_ends_witness:
  "process_count_command_arguments (write32 (\<lambda>_. 0) 0x2200 0x3000) 0x2000 0 = Some 2"
proof -
  have "argument_list (write32 (\<lambda>_. 0) 0x2200 0x3000) 0x2000 [0x2000, 0x3000]"
    by (simp add: read32_write32_aligned) (simp add: read32_def)
  from process_count_arguments_ends[OF this] show ?thesis by simp
qed

text \<open>
  freeing the pointer of an unused slot, as \<^verbatim>\<open>process_terminate_allocations\<close> does
  for every slot that was never used, maps nothing, leaves the table as it is and
  passes the null pointer on to \<^verbatim>\<open>kfree\<close>, which has no guard for it and clears bytes
  outside the heap table.
\<close>

theorem process_free_unused_slot:
  assumes "kernel_heap s = boot_heap" "find_allocation (pr_allocations (procs s process)) 0 0 = Some i"
    and "\<forall>a \<in> set (pr_allocations (procs s process)). alloc_ptr a = 0 \<longrightarrow> alloc_size a = 0"
  shows "process_free process 0 s = kfree s 0 \<and> mem (process_free process 0 s) 0x6E00 = 0"
proof -
  let ?as = "pr_allocations (procs s process)"
  have i: "i < length ?as" "alloc_ptr (?as ! i) = 0" using find_allocation_Some[OF assms(2)] by simp_all
  then have z: "alloc_size (?as ! i) = 0" using assms(3) nth_mem by blast
  have "map (\<lambda>a. if alloc_ptr a = 0 then \<lparr>alloc_ptr = 0, alloc_size = 0\<rparr> else a) ?as = ?as"
    using assms(3) by (intro map_idI) simp
  then have un: "process_allocation_unjoin process 0 s = s"
    by (simp add: process_allocation_unjoin_def upd_proc_def)
  have "map_to c 0 0 (paging_align_address 0) 0 s = (0, s)" for c
    by (simp add: map_to_def paging_map_to_def paging_align_address_def)
  then have "process_free process 0 s = kfree s 0"
    using assms(2) i z un by (simp add: process_free_def process_get_allocation_by_addr_def)
  then show ?thesis using kfree_null_byte[OF assms(1)] by simp
qed

theorem process_free_unused_slot_witness:
  "mem (process_free 0x5000 0 sample_procs) 0x6E00 = 0"
proof -
  have "pr_allocations (procs sample_procs 0x5000) = replicate 1024 \<lparr>alloc_ptr = 0, alloc_size = 0\<rparr>"
    by (simp add: sample_procs_def zero_process_def)
  moreover from this have slot: "find_allocation (pr_allocations (procs sample_procs 0x5000)) 0 0 = Some (0 + 0)"
    by (intro find_allocation_first) simp_all
  moreover have "kernel_heap sample_procs = boot_heap" by (simp add: sample_procs_def)
  ultimately show ?thesis using process_free_unused_slot[of sample_procs "0x5000" "0 + 0"] by auto
qed

end
