(* ===== verification/Boi_Lifecycle.thy ===== *)
theory Boi_Lifecycle
  imports Boi_Process
begin

text \<open>
  The end of a process and the mapping of its program: what \<^verbatim>\<open>process_terminate\<close>
  (\<^verbatim>\<open>src/src/task/process.c\<close>) gives back, and where the segments of an ELF image appear in the
  address space of its task.
\<close>

subsection \<open>Freeing the allocations of a process\<close>

text \<open>
  \<^verbatim>\<open>process_terminate_allocations\<close> frees the pointer of every slot, so \<^verbatim>\<open>kfree\<close> gets the null
  pointer for an unused one and clears the byte at \<open>0x6E00\<close>, in front of the heap table.
  It stops there when that byte has no continuation bit.
\<close>

definition null_entry_quiet :: "'z kmem_scheme \<Rightarrow> bool" where
  "null_entry_quiet s \<longleftrightarrow> mem s 0x6E00 AND HEAP_BLOCK_HAS_NEXT = 0"

lemma kfree_null_quiet:
  assumes "kernel_heap s = boot_heap" "null_entry_quiet s"
  shows "kfree s 0 = s\<lparr>mem := (mem s)(0x6E00 := 0)\<rparr>"
proof -
  have b: "heap_address_to_block boot_heap 0 = - 4096"
    by (simp add: heap_address_to_block_def boot_heap_def signed_divide_int_def)
  have "heap_mark_free_loop (mem s) (table boot_heap) (- 4096) = (mem s)(0x6E00 := 0)"
    using assms(2)
    by (subst heap_mark_free_loop.simps) (simp add: boot_heap_def Let_def null_entry_quiet_def)
  then show ?thesis using assms(1) by (simp add: kfree_def heap_free_def heap_mark_blocks_free_def b)
qed

text \<open>What a process keeps when bytes outside of the heap table and its page tables change.\<close>

lemma space_pages_pool:
  assumes "proc_mem_ok process s A" "q \<in> space_pages (mem s) (proc_chunk process s)" "in_range q 4096 a"
  shows "pool_byte boot_heap a" "\<not> table_byte boot_heap a"
  using assms kpages.live_pool[of s A q 4096 a] kpages.live_private[of s A q 4096 a]
  by (auto simp: proc_mem_ok_def space_live_def)

lemma null_entry_apart:
  "\<not> table_byte boot_heap 0x6E00" "\<not> pool_byte boot_heap 0x6E00"
  "proc_mem_ok process s A \<Longrightarrow> q \<in> space_pages (mem s) (proc_chunk process s) \<Longrightarrow> \<not> in_range q 4096 0x6E00"
proof -
  show p: "\<not> table_byte boot_heap 0x6E00" "\<not> pool_byte boot_heap 0x6E00" by (simp_all add: boot_ranges)
  show "proc_mem_ok process s A \<Longrightarrow> q \<in> space_pages (mem s) (proc_chunk process s) \<Longrightarrow> \<not> in_range q 4096 0x6E00"
    using space_pages_pool(1) p(2) by metis
qed

lemma proc_mem_ok_cong:
  assumes ok: "proc_mem_ok process s A"
    and same: "\<And>a. table_byte boot_heap a \<or> (\<exists>q \<in> space_pages (mem s) (proc_chunk process s). in_range q 4096 a) \<Longrightarrow>
      m a = mem s a"
  shows "proc_mem_ok process (s\<lparr>mem := m\<rparr>) A" "avail (s\<lparr>mem := m\<rparr>) = avail s"
    "space_pages m (proc_chunk process s) = space_pages (mem s) (proc_chunk process s)"
proof -
  have "\<forall>q \<in> space_pages (mem s) (proc_chunk process s). \<forall>a. in_range q 4096 a \<longrightarrow> m a = mem s a"
    using same by blast
  note c = space_cong[OF this]
  have live: "live_regions s A" and kh: "kernel_heap s = boot_heap" using ok by (simp_all add: proc_mem_ok_def)
  show p: "space_pages m (proc_chunk process s) = space_pages (mem s) (proc_chunk process s)" by (rule c(3))
  show "avail (s\<lparr>mem := m\<rparr>) = avail s" using live_regions_mem(2)[OF live, of m] same kh by simp
  have "live_regions (s\<lparr>mem := m\<rparr>) A" using live_regions_mem(1)[OF live, of m] same kh by simp
  then show "proc_mem_ok process (s\<lparr>mem := m\<rparr>) A"
    using ok c(4) p by (simp add: proc_mem_ok_def space_live_def)
qed

lemma unjoin_list_update:
  assumes "allocs_ok A S as" "i < length as" "alloc_ptr (as ! i) = p" "p \<noteq> 0"
  shows "unjoin_list p as = as[i := \<lparr>alloc_ptr = 0, alloc_size = 0\<rparr>]"
  using assms by (intro nth_equalityI) (auto simp: unjoin_list_def allocs_ok_def nth_list_update)

lemma find_allocation_some: "i < length as \<Longrightarrow> alloc_ptr (as ! i) = x \<Longrightarrow> \<exists>j. find_allocation as x k = Some j"
proof (induction as arbitrary: i k)
  case (Cons a as)
  then show ?case by (cases i) auto
qed simp

lemma upd_proc_id [simp]: "upd_proc process (\<lambda>q. q) s = s"
  by (simp add: upd_proc_def)

lemma upd_proc_mem [simp]: "mem (upd_proc process f s) = mem s" "procs (upd_proc process f s) process = f (procs s process)"
  "kernel_heap (upd_proc process f s) = kernel_heap s" "tasks (upd_proc process f s) = tasks s"
  "avail (upd_proc process f s) = avail s"
  by (simp_all add: upd_proc_def)

abbreviation set_allocs :: "addr \<Rightarrow> process_allocation list \<Rightarrow> memory \<Rightarrow> 'z task_state_scheme \<Rightarrow> 'z task_state_scheme" where
  "set_allocs process as m s \<equiv> upd_proc process (\<lambda>q. q\<lparr>pr_allocations := as\<rparr>) (s\<lparr>mem := m\<rparr>)"

text \<open>Freeing one slot, used or not.\<close>

lemma free_slot_ok:
  fixes s :: "'z process_state_scheme"
  assumes ok: "proc_mem_ok process s A" and quiet: "null_entry_quiet s"
    and i: "i < BOIOS_MAX_PROGRAM_ALLOCATIONS"
  defines "as \<equiv> pr_allocations (procs s process)" and "S \<equiv> space_pages (mem s) (proc_chunk process s)"
  obtains m where
    "process_free process (alloc_ptr (as ! i)) s = set_allocs process (as[i := \<lparr>alloc_ptr = 0, alloc_size = 0\<rparr>]) m s"
    "proc_mem_ok process (process_free process (alloc_ptr (as ! i)) s) (A(alloc_ptr (as ! i) := None))"
    "avail (s\<lparr>mem := m\<rparr>) = avail s + blocks_for (alloc_size (as ! i))"
    "space_pages m (proc_chunk process s) = S" "m 0x6E00 AND HEAP_BLOCK_HAS_NEXT = 0"
    "\<And>a. \<not> table_byte boot_heap a \<Longrightarrow> a \<noteq> 0x6E00 \<Longrightarrow> (\<forall>q \<in> S. \<not> in_range q 4096 a) \<Longrightarrow> m a = mem s a"
proof (cases "alloc_ptr (as ! i) = 0")
  case False
  have as: "allocs_ok A S as" "length as = BOIOS_MAX_PROGRAM_ALLOCATIONS"
    using ok by (simp_all add: proc_mem_ok_def as_def S_def allocs_ok_def)
  have "alloc_ptr (as ! j) \<noteq> alloc_ptr (as ! i)" if "j < i" for j
  proof
    assume e: "alloc_ptr (as ! j) = alloc_ptr (as ! i)"
    have "j < length as" "i < length as" using that i as(2) by simp_all
    then have "j = i" using as(1) e False unfolding allocs_ok_def by metis
    then show False using that by simp
  qed
  then have "find_allocation as (alloc_ptr (as ! i)) 0 = Some (0 + i)"
    using i as(2) by (intro find_allocation_first) auto
  then have slot: "find_allocation (pr_allocations (procs s process)) (alloc_ptr (as ! i)) 0 = Some i"
    by (simp add: as_def)
  note un = unjoin_list_update[OF as(1) _ refl False]
  have low: "\<not> table_byte boot_heap 0x6E00" "\<forall>q \<in> S. \<not> in_range q 4096 0x6E00"
    using null_entry_apart(1) null_entry_apart(3)[OF ok] by (auto simp: S_def)
  show thesis
  proof (rule process_free_runs[OF ok slot False], goal_cases)
    case (1 m)
    show ?case
    proof (rule that[of m])
      show "process_free process (alloc_ptr (as ! i)) s = set_allocs process (as[i := \<lparr>alloc_ptr = 0, alloc_size = 0\<rparr>]) m s"
        using 1(1) un i as(2) by (simp add: as_def upd_proc_def)
    qed (use 1 low quiet in \<open>simp_all add: as_def S_def null_entry_quiet_def\<close>)
  qed
next
  case True
  let ?m = "(mem s)(0x6E00 := 0)"
  have kh: "kernel_heap s = boot_heap" and live: "live_regions s A" using ok by (simp_all add: proc_mem_ok_def)
  have as: "allocs_ok A S as" "length as = BOIOS_MAX_PROGRAM_ALLOCATIONS"
    using ok by (simp_all add: proc_mem_ok_def as_def S_def allocs_ok_def)
  have z: "\<forall>a \<in> set as. alloc_ptr a = 0 \<longrightarrow> alloc_size a = 0"
    using as by (auto simp: allocs_ok_def alloc_ok_def)
  have zi: "as ! i = \<lparr>alloc_ptr = 0, alloc_size = 0\<rparr>" using True z i as(2) nth_mem[of i as] by simp
  have "\<exists>j. find_allocation as 0 0 = Some j"
    using i as(2) True by (metis find_allocation_some)
  then obtain j where j: "find_allocation as 0 0 = Some j" ..
  then have zj: "as ! j = \<lparr>alloc_ptr = 0, alloc_size = 0\<rparr>"
    using z find_allocation_Some[OF j] nth_mem[of j as] by simp
  have "map (\<lambda>a. if alloc_ptr a = 0 then \<lparr>alloc_ptr = 0, alloc_size = 0\<rparr> else a) as = as"
    using z by (intro map_idI) simp
  then have un: "process_allocation_unjoin process 0 s = s"
    by (simp add: process_allocation_unjoin_def upd_proc_def as_def)
  have "map_to c 0 0 (paging_align_address 0) 0 s = (0, s)" for c
    by (simp add: map_to_def paging_map_to_def paging_align_address_def)
  then have "process_free process 0 s = kfree s 0"
    using j zj un by (simp add: process_free_def process_get_allocation_by_addr_def as_def)
  then have call: "process_free process 0 s = s\<lparr>mem := ?m\<rparr>" using kfree_null_quiet[OF kh quiet] by simp
  have set: "set_allocs process (as[i := \<lparr>alloc_ptr = 0, alloc_size = 0\<rparr>]) ?m s = s\<lparr>mem := ?m\<rparr>"
    using zi[symmetric] by (simp add: as_def upd_proc_def)
  have same: "?m a = mem s a"
    if "table_byte boot_heap a \<or> (\<exists>q \<in> S. in_range q 4096 a)" for a
    using that null_entry_apart(1) null_entry_apart(3)[OF ok] unfolding S_def by (metis fun_upd_other)
  note cong = proc_mem_ok_cong[OF ok, of ?m, OF same[unfolded S_def]]
  have "A 0 = None" using live_nonzero[OF live, of 0] by (cases "A 0") auto
  then have A0: "A(0 := None) = A" by (rule fun_upd_idem)
  show thesis
    by (rule that[of ?m])
      (use cong call set zi True A0 in \<open>simp_all add: S_def as_def blocks_for_def\<close>)
qed

abbreviation allocs_blocks :: "process_allocation list \<Rightarrow> nat" where
  "allocs_blocks as \<equiv> sum_list (map (\<lambda>a. blocks_for (alloc_size a)) as)"

lemma terminate_allocations_loop_ok:
  fixes s :: "'z process_state_scheme"
  assumes "proc_mem_ok process s A" "null_entry_quiet s" "i + n = BOIOS_MAX_PROGRAM_ALLOCATIONS"
  shows "\<exists>m. terminate_allocations_loop process i n s =
        set_allocs process (take i (pr_allocations (procs s process)) @ replicate n \<lparr>alloc_ptr = 0, alloc_size = 0\<rparr>) m s \<and>
     proc_mem_ok process (terminate_allocations_loop process i n s)
        (A |` (- alloc_ptr ` set (drop i (pr_allocations (procs s process))))) \<and>
     avail (s\<lparr>mem := m\<rparr>) = avail s + allocs_blocks (drop i (pr_allocations (procs s process))) \<and>
     space_pages m (proc_chunk process s) = space_pages (mem s) (proc_chunk process s) \<and>
     m 0x6E00 AND HEAP_BLOCK_HAS_NEXT = 0 \<and>
     (\<forall>a. \<not> table_byte boot_heap a \<longrightarrow> a \<noteq> 0x6E00 \<longrightarrow>
        (\<forall>q \<in> space_pages (mem s) (proc_chunk process s). \<not> in_range q 4096 a) \<longrightarrow> m a = mem s a)"
  using assms
proof (induction n arbitrary: i s A)
  case 0
  let ?as = "pr_allocations (procs s process)"
  have "length ?as = BOIOS_MAX_PROGRAM_ALLOCATIONS" using 0(1) by (simp add: proc_mem_ok_def allocs_ok_def)
  then have l: "length ?as = i" using 0(3) by simp
  have "set_allocs process ?as (mem s) s = s" by (simp add: upd_proc_def)
  then show ?case using 0 l by (intro exI[of _ "mem s"]) (simp add: null_entry_quiet_def)
next
  case (Suc n)
  let ?as = "pr_allocations (procs s process)" and ?c = "proc_chunk process s"
  let ?p = "alloc_ptr (?as ! i)" and ?z = "\<lparr>alloc_ptr = 0, alloc_size = 0\<rparr>"
  have len: "length ?as = BOIOS_MAX_PROGRAM_ALLOCATIONS" using Suc(2) by (simp add: proc_mem_ok_def allocs_ok_def)
  have i: "i < BOIOS_MAX_PROGRAM_ALLOCATIONS" using Suc(4) by simp
  obtain m where m: "process_free process ?p s = set_allocs process (?as[i := ?z]) m s"
    "proc_mem_ok process (process_free process ?p s) (A(?p := None))"
    "avail (s\<lparr>mem := m\<rparr>) = avail s + blocks_for (alloc_size (?as ! i))"
    "space_pages m ?c = space_pages (mem s) ?c" "m 0x6E00 AND HEAP_BLOCK_HAS_NEXT = 0"
    "\<And>a. \<not> table_byte boot_heap a \<Longrightarrow> a \<noteq> 0x6E00 \<Longrightarrow>
       (\<forall>q \<in> space_pages (mem s) ?c. \<not> in_range q 4096 a) \<Longrightarrow> m a = mem s a"
    by (rule free_slot_ok[OF Suc(2,3) i]) blast
  define s1 where "s1 = process_free process ?p s"
  have f: "mem s1 = m" "proc_chunk process s1 = ?c" "pr_allocations (procs s1 process) = ?as[i := ?z]"
    "avail s1 = avail (s\<lparr>mem := m\<rparr>)"
    using m(1) by (simp_all add: s1_def)
  have q1: "null_entry_quiet s1" using m(5) f(1) by (simp add: null_entry_quiet_def)
  have d: "drop (Suc i) (?as[i := ?z]) = drop (Suc i) ?as" "drop i ?as = ?as ! i # drop (Suc i) ?as"
    "take (Suc i) (?as[i := ?z]) @ replicate n ?z = take i ?as @ replicate (Suc n) ?z"
    using i len by (simp_all add: Cons_nth_drop_Suc take_Suc_conv_app_nth)
  have A: "(A(?p := None)) |` (- alloc_ptr ` set (drop (Suc i) ?as)) = A |` (- alloc_ptr ` set (drop i ?as))"
    unfolding d(2) by (auto simp: restrict_map_def fun_eq_iff)
  have "Suc i + n = BOIOS_MAX_PROGRAM_ALLOCATIONS" using Suc(4) by simp
  from Suc.IH[OF m(2)[folded s1_def] q1 this, unfolded f d(1,3) A] obtain m2 where m2:
    "terminate_allocations_loop process (Suc i) n s1 = set_allocs process (take i ?as @ replicate (Suc n) ?z) m2 s1"
    "proc_mem_ok process (terminate_allocations_loop process (Suc i) n s1) (A |` (- alloc_ptr ` set (drop i ?as)))"
    "avail (s1\<lparr>mem := m2\<rparr>) = avail (s\<lparr>mem := m\<rparr>) + allocs_blocks (drop (Suc i) ?as)"
    "space_pages m2 ?c = space_pages m ?c" "m2 0x6E00 AND HEAP_BLOCK_HAS_NEXT = 0"
    "\<forall>a. \<not> table_byte boot_heap a \<longrightarrow> a \<noteq> 0x6E00 \<longrightarrow> (\<forall>q \<in> space_pages m ?c. \<not> in_range q 4096 a) \<longrightarrow> m2 a = m a"
    by blast
  have l: "terminate_allocations_loop process i (Suc n) s = terminate_allocations_loop process (Suc i) n s1"
    by (simp add: s1_def)
  have "set_allocs process (take i ?as @ replicate (Suc n) ?z) m2 s1 =
      set_allocs process (take i ?as @ replicate (Suc n) ?z) m2 s" "avail (s1\<lparr>mem := m2\<rparr>) = avail (s\<lparr>mem := m2\<rparr>)"
    using m(1) by (simp_all add: s1_def upd_proc_def avail_def)
  then show ?case
    unfolding l using m2 m(3,4,6) by (intro exI[of _ m2]) (simp add: d(2))
qed

subsection \<open>Terminating a process\<close>

text \<open>The regions of the heap that belong to a process, without the struct itself.\<close>

definition process_regions :: "addr \<Rightarrow> 'z task_state_scheme \<Rightarrow> addr set" where
  "process_regions process s =
     {pr_ptr (procs s process), pr_stack (procs s process), pr_task (procs s process)} \<union>
     alloc_ptr ` set (pr_allocations (procs s process)) \<union> space_pages (mem s) (proc_chunk process s)"

text \<open>Program data, stack and task are live regions of their own.\<close>

definition process_owns :: "addr \<Rightarrow> 'z task_state_scheme \<Rightarrow> (addr \<rightharpoonup> nat) \<Rightarrow> bool" where
  "process_owns process s A \<longleftrightarrow> proc_mem_ok process s A \<and>
     distinct [pr_ptr (procs s process), pr_stack (procs s process), pr_task (procs s process)] \<and>
     (\<forall>r \<in> {pr_ptr (procs s process), pr_stack (procs s process), pr_task (procs s process)}.
        A r \<noteq> None \<and> r \<notin> alloc_ptr ` set (pr_allocations (procs s process)) \<union>
          space_pages (mem s) (proc_chunk process s))"

lemma kfree_keeps [simp]:
  "tasks (kfree s p) = tasks s" "procs (kfree s p) = procs s" "task_head (kfree s p) = task_head s"
  "task_tail (kfree s p) = task_tail s" "current_task (kfree s p) = current_task s"
  "processes (kfree t p) = processes t" "current_process (kfree t p) = current_process t"
  by (simp_all add: kfree_def)

lemma paging_free_tables_keeps:
  fixes s :: "'z task_state_scheme" and u :: "'y process_state_scheme"
  shows "tasks (paging_free_tables s c i) = tasks s" "procs (paging_free_tables s c i) = procs s"
    "kernel_heap (paging_free_tables s c i) = kernel_heap s"
    "processes (paging_free_tables u c i) = processes u"
    "current_process (paging_free_tables u c i) = current_process u"
  by (induction "1024 - i" arbitrary: i s u; subst paging_free_tables.simps; simp add: Let_def)+

lemma paging_free_4gb_keeps [simp]:
  "tasks (paging_free_4gb s c) = tasks s" "procs (paging_free_4gb s c) = procs s"
  "kernel_heap (paging_free_4gb s c) = kernel_heap s"
  "processes (paging_free_4gb u c) = processes u" "current_process (paging_free_4gb u c) = current_process u"
  by (simp_all add: paging_free_4gb_def paging_free_tables_keeps Let_def)

lemma task_list_remove_keeps [simp]:
  "mem (task_list_remove t s) = mem s" "kernel_heap (task_list_remove t s) = kernel_heap s"
  "procs (task_list_remove t s) = procs s"
  "processes (task_list_remove t u) = processes u" "current_process (task_list_remove t u) = current_process u"
  by (simp_all add: task_list_remove_def upd_task_def Let_def)

lemma heap_state_cong:
  "mem s' = mem s \<Longrightarrow> kernel_heap s' = kernel_heap s \<Longrightarrow> live_regions s' A = live_regions s A"
  "mem s' = mem s \<Longrightarrow> kernel_heap s' = kernel_heap s \<Longrightarrow> avail s' = avail s"
  by (simp_all add: live_regions_def kheap_ok_def avail_def)

text \<open>Releasing a region that is no page of an address space.\<close>

lemma space_live_release:
  assumes "live_regions s A" "space_live s A c" "A p = Some n" "p \<notin> space_pages (mem s) c"
  shows "live_regions (kfree s p) (A(p := None))" "space_live (kfree s p) (A(p := None)) c"
    "space_pages (mem (kfree s p)) c = space_pages (mem s) c" "avail (kfree s p) = avail s + n div 4096"
    "\<And>a. \<not> table_byte (kernel_heap s) a \<Longrightarrow> mem (kfree s p) a = mem s a"
proof -
  note rel = kpages.release_live[OF assms(1,3)]
  have "mem (kfree s p) a = mem s a" if "q \<in> space_pages (mem s) c" "in_range q 4096 a" for q a
    using rel kpages.live_private[OF assms(1), of q 4096 a] assms(2) that by (auto simp: space_live_def)
  then have "\<forall>q \<in> space_pages (mem s) c. \<forall>a. in_range q 4096 a \<longrightarrow> mem (kfree s p) a = mem s a" by blast
  note c = space_cong[OF this]
  show "space_pages (mem (kfree s p)) c = space_pages (mem s) c" by (rule c(3))
  show "space_live (kfree s p) (A(p := None)) c"
    using assms(2,4) c(3,4) by (auto simp: space_live_def)
qed (use kpages.release_live[OF assms(1,3)] in simp_all)

text \<open>The address space and the task itself are released.\<close>

lemma task_free_ok:
  assumes live: "live_regions s A" and sp: "space_live s A (t_page_directory (tasks s t))"
    and t: "A t = Some n" "t \<notin> space_pages (mem s) (t_page_directory (tasks s t))"
  shows "live_regions (task_free t s) ((A |` (- space_pages (mem s) (t_page_directory (tasks s t))))(t := None))"
    "avail (task_free t s) = avail s + 1026 + n div 4096"
    "\<And>a. \<not> table_byte (kernel_heap s) a \<Longrightarrow> mem (task_free t s) a = mem s a"
proof -
  let ?c = "t_page_directory (tasks s t)"
  define s1 where "s1 = task_list_remove t (paging_free_4gb s ?c)"
  have k: "kernel_heap s1 = kernel_heap s" "mem s1 = mem (paging_free_4gb s ?c)"
    by (simp_all add: s1_def)
  have pages: "space_ok (mem s) ?c" "\<And>q. q \<in> space_pages (mem s) ?c \<Longrightarrow> A q = Some 4096"
    using sp by (auto simp: space_live_def)
  note free = paging_free_4gb_ok[OF live pages]
  have B: "(\<lambda>a. if a \<in> space_pages (mem s) ?c then None else A a) = A |` (- space_pages (mem s) ?c)"
    by (auto simp: restrict_map_def)
  have live1: "live_regions s1 (A |` (- space_pages (mem s) ?c))" and av1: "avail s1 = avail s + 1026"
    using free(1,2) k heap_state_cong[of s1 "paging_free_4gb s ?c"] by (simp_all add: B)
  have t1: "(A |` (- space_pages (mem s) ?c)) t = Some n" using t by simp
  note rel = kpages.release_live[OF live1 t1]
  have f: "task_free t s = kfree s1 t" by (simp add: task_free_def s1_def)
  show "live_regions (task_free t s) ((A |` (- space_pages (mem s) ?c))(t := None))"
    "avail (task_free t s) = avail s + 1026 + n div 4096"
    using rel av1 by (simp_all add: f)
  show "mem (task_free t s) a = mem s a" if "\<not> table_byte (kernel_heap s) a" for a
    using rel free(3)[of a] that k by (simp add: f)
qed

lemma task_free_keeps [simp]:
  "procs (task_free t s) = procs s" "kernel_heap (task_free t s) = kernel_heap s"
  "processes (task_free t u) = processes u" "current_process (task_free t u) = current_process u"
  by (simp_all add: task_free_def)

lemma process_unlink_keeps:
  "process_unlink p s = Some s' \<Longrightarrow> mem s' = mem s \<and> kernel_heap s' = kernel_heap s \<and> procs s' = procs s"
  using switch_to_any_loop_run(2)
  by (fastforce simp: process_unlink_def process_switch_to_any_def process_switch_def Let_def split: if_splits)

text \<open>The memory of a process that is a binary, on the way to its end.\<close>

lemma terminate_frees:
  fixes s :: "'z process_state_scheme"
  assumes owns: "process_owns process s A" and quiet: "null_entry_quiet s"
  defines "p \<equiv> procs s process"
  obtains s1 where
    "process_terminate_allocations process s = (0, s1)"
    "pr_ptr (procs s1 process) = pr_ptr p" "pr_stack (procs s1 process) = pr_stack p"
    "pr_task (procs s1 process) = pr_task p" "pr_filetype (procs s1 process) = pr_filetype p"
    "\<And>q. pr_pid (procs s1 q) = pr_pid (procs s q)" "processes s1 = processes s"
    "current_process s1 = current_process s" "kernel_heap s1 = boot_heap"
    "live_regions (task_free (pr_task p) (kfree (kfree s1 (pr_ptr p)) (pr_stack p))) (A |` (- process_regions process s))"
    "avail (task_free (pr_task p) (kfree (kfree s1 (pr_ptr p)) (pr_stack p))) =
       avail s + allocs_blocks (pr_allocations p) + 1026 +
       (\<Sum>r \<leftarrow> [pr_ptr p, pr_stack p, pr_task p]. the (A r) div 4096)"
    "\<And>q n a. (A |` (- process_regions process s)) q = Some n \<Longrightarrow> in_range q n a \<Longrightarrow>
       mem (task_free (pr_task p) (kfree (kfree s1 (pr_ptr p)) (pr_stack p))) a = mem s a"
proof -
  let ?c = "proc_chunk process s" and ?as = "pr_allocations p" and ?z = "\<lparr>alloc_ptr = 0, alloc_size = 0\<rparr>"
  let ?S = "space_pages (mem s) ?c" and ?P = "alloc_ptr ` set ?as"
  have ok: "proc_mem_ok process s A" using owns by (simp add: process_owns_def)
  have live: "live_regions s A" and kh: "kernel_heap s = boot_heap" using ok by (simp_all add: proc_mem_ok_def)
  define s1 where "s1 = terminate_allocations_loop process 0 BOIOS_MAX_PROGRAM_ALLOCATIONS s"
  have "(0::nat) + BOIOS_MAX_PROGRAM_ALLOCATIONS = BOIOS_MAX_PROGRAM_ALLOCATIONS" by simp
  from terminate_allocations_loop_ok[OF ok quiet this] obtain m where
    m: "s1 = set_allocs process (replicate 1024 ?z) m s" "proc_mem_ok process s1 (A |` (- ?P))"
    "avail (s\<lparr>mem := m\<rparr>) = avail s + allocs_blocks ?as" "space_pages m ?c = ?S"
    "\<forall>a. \<not> table_byte boot_heap a \<longrightarrow> a \<noteq> 0x6E00 \<longrightarrow> (\<forall>q \<in> ?S. \<not> in_range q 4096 a) \<longrightarrow> m a = mem s a"
    by (auto simp: s1_def p_def)
  have f: "mem s1 = m" "kernel_heap s1 = boot_heap" "procs s1 process = p\<lparr>pr_allocations := replicate 1024 ?z\<rparr>"
    "tasks s1 = tasks s" "avail s1 = avail (s\<lparr>mem := m\<rparr>)" "processes s1 = processes s" "current_process s1 = current_process s"
    "pr_pid (procs s1 q) = pr_pid (procs s q)" for q
    using kh by (simp_all add: m(1) p_def upd_proc_def)
  have own: "distinct [pr_ptr p, pr_stack p, pr_task p]"
    "\<And>r. r \<in> {pr_ptr p, pr_stack p, pr_task p} \<Longrightarrow> A r \<noteq> None \<and> r \<notin> ?P \<and> r \<notin> ?S"
    using owns by (auto simp: process_owns_def p_def)
  have out: "pr_ptr p \<notin> ?P" "pr_stack p \<notin> ?P" "pr_task p \<notin> ?P" "pr_ptr p \<notin> ?S" "pr_stack p \<notin> ?S" "pr_task p \<notin> ?S"
    "pr_ptr p \<noteq> pr_stack p" "pr_ptr p \<noteq> pr_task p" "pr_stack p \<noteq> pr_task p"
    using own by auto
  have "A (pr_ptr p) \<noteq> None" "A (pr_stack p) \<noteq> None" "A (pr_task p) \<noteq> None" using own(2) by simp_all
  then obtain n1 n2 n3 where n: "A (pr_ptr p) = Some n1" "A (pr_stack p) = Some n2" "A (pr_task p) = Some n3"
    by auto
  have live1: "live_regions s1 (A |` (- ?P))" and sp1: "space_live s1 (A |` (- ?P)) ?c"
    using m(2) f(3,4) by (simp_all add: proc_mem_ok_def p_def)
  have a1: "(A |` (- ?P)) (pr_ptr p) = Some n1" "pr_ptr p \<notin> space_pages (mem s1) ?c"
    using n out m(4) by (simp_all add: f(1))
  note r1 = space_live_release[OF live1 sp1 a1]
  let ?s2 = "kfree s1 (pr_ptr p)"
  have a2: "((A |` (- ?P))(pr_ptr p := None)) (pr_stack p) = Some n2" "pr_stack p \<notin> space_pages (mem ?s2) ?c"
    using n out m(4) r1(3) by (simp_all add: f(1))
  note r2 = space_live_release[OF r1(1,2) a2]
  let ?s3 = "kfree ?s2 (pr_stack p)"
  have c3: "t_page_directory (tasks ?s3 (pr_task p)) = ?c" by (simp add: f(4) p_def)
  have a3: "((A |` (- ?P))(pr_ptr p := None, pr_stack p := None)) (pr_task p) = Some n3"
    "pr_task p \<notin> space_pages (mem ?s3) ?c"
    using n out m(4) r1(3) r2(3) by (simp_all add: f(1))
  note r3 = task_free_ok[OF r2(1), of "pr_task p", unfolded c3, OF r2(2) a3]
  have pg: "space_pages (mem ?s3) ?c = ?S" using r1(3) r2(3) m(4) by (simp add: f(1))
  have A: "(((A |` (- ?P))(pr_ptr p := None, pr_stack p := None)) |` (- ?S))(pr_task p := None) =
      A |` (- process_regions process s)"
    by (auto simp: process_regions_def restrict_map_def fun_eq_iff p_def)
  have keep: "mem (task_free (pr_task p) ?s3) a = mem s a"
    if q: "(A |` (- process_regions process s)) q = Some k" "in_range q k a" for q k a
  proof -
    have Aq: "A q = Some k" "q \<notin> ?S" using q(1) by (auto simp: process_regions_def restrict_map_def split: if_splits)
    have tb: "\<not> table_byte boot_heap a" using kpages.live_private[OF live Aq(1) q(2)] kh by simp
    have "a \<noteq> 0x6E00" using kpages.live_pool[OF live Aq(1) q(2)] kh null_entry_apart(2) by auto
    moreover have "\<not> in_range r 4096 a" if "r \<in> ?S" for r
    proof -
      have "A r = Some 4096" using ok that by (auto simp: proc_mem_ok_def space_live_def)
      then show ?thesis
        using kpages.live_apart[OF live Aq(1)] Aq(2) that q(2) by (auto simp: disjoint_ranges_def)
    qed
    ultimately have "m a = mem s a" using m(5) tb by blast
    then show ?thesis using r3(3)[of a] r2(5)[of a] r1(5)[of a] tb f(1,2) by simp
  qed
  have "live_regions (task_free (pr_task p) ?s3) (A |` (- process_regions process s))"
    using r3(1) by (simp only: pg A)
  moreover have "avail (task_free (pr_task p) ?s3) = avail s + allocs_blocks ?as + 1026 +
      (\<Sum>r \<leftarrow> [pr_ptr p, pr_stack p, pr_task p]. the (A r) div 4096)"
    using r3(2) r2(4) r1(4) f(5) m(3) by (simp add: n)
  moreover have "process_terminate_allocations process s = (0, s1)"
    by (simp add: process_terminate_allocations_def s1_def)
  ultimately show thesis using that[of s1] f keep by simp
qed

text \<open>
  C9: terminating a process that was loaded as a binary releases its allocations, program, stack, task and address
  space: these and no other regions are no longer live, all their blocks are free again, and no byte of a region
  that is left has changed.  The table of processes stays consistent without it, and another process runs when it was
  the current one.  The process's own struct, 9384 bytes in three blocks, is not among them: it stays allocated when
  nothing refers to it any more.  The statement asks that the byte at \<^verbatim>\<open>0x6E00\<close> does not say that a chain of blocks goes
  on: the code frees every slot of the allocation table, and for an empty one \<^verbatim>\<open>kfree(NULL)\<close> takes this byte for a
  table entry.
\<close>

theorem process_terminate_frees:
  assumes "process_owns process s A" "null_entry_quiet s"
    and "A process = Some 12288" "process \<notin> process_regions process s"
    and "pr_filetype (procs s process) = PROCESS_FILE_TYPE_BIN"
    and "process_table_ok s" "process \<in> set (processes s) - {0}" "\<not> set (processes s) \<subseteq> {0, process}"
  shows "\<exists>s'. process_terminate process s = Some (0, s') \<and>
     live_regions s' (A |` (- process_regions process s)) \<and>
     avail s' = avail s + allocs_blocks (pr_allocations (procs s process)) + 1026 +
       (\<Sum>r \<leftarrow> [pr_ptr (procs s process), pr_stack (procs s process), pr_task (procs s process)]. the (A r) div 4096) \<and>
     (\<forall>q n a. (A |` (- process_regions process s)) q = Some n \<and> in_range q n a \<longrightarrow> mem s' a = mem s a) \<and>
     process_table_ok s' \<and> set (processes s') - {0} = set (processes s) - {0, process} \<and>
     (A |` (- process_regions process s)) process = Some 12288 \<and> process \<notin> set (processes s')"
proof -
  let ?p = "procs s process"
  obtain s1 where s1: "process_terminate_allocations process s = (0, s1)"
    "pr_ptr (procs s1 process) = pr_ptr ?p" "pr_stack (procs s1 process) = pr_stack ?p"
    "pr_task (procs s1 process) = pr_task ?p" "pr_filetype (procs s1 process) = pr_filetype ?p"
    "\<And>q. pr_pid (procs s1 q) = pr_pid (procs s q)" "processes s1 = processes s"
    "current_process s1 = current_process s" "kernel_heap s1 = boot_heap"
    "live_regions (task_free (pr_task ?p) (kfree (kfree s1 (pr_ptr ?p)) (pr_stack ?p))) (A |` (- process_regions process s))"
    "avail (task_free (pr_task ?p) (kfree (kfree s1 (pr_ptr ?p)) (pr_stack ?p))) =
       avail s + allocs_blocks (pr_allocations ?p) + 1026 +
       (\<Sum>r \<leftarrow> [pr_ptr ?p, pr_stack ?p, pr_task ?p]. the (A r) div 4096)"
    "\<And>q n a. (A |` (- process_regions process s)) q = Some n \<Longrightarrow> in_range q n a \<Longrightarrow>
       mem (task_free (pr_task ?p) (kfree (kfree s1 (pr_ptr ?p)) (pr_stack ?p))) a = mem s a"
    by (rule terminate_frees[OF assms(1,2)]) blast
  let ?s4 = "task_free (pr_task ?p) (kfree (kfree s1 (pr_ptr ?p)) (pr_stack ?p))"
  have "process_table_ok ?s4" "process \<in> set (processes ?s4) - {0}" "processes ?s4 = processes s"
    using assms(6,7) s1(6-8) by (simp_all add: process_table_ok_def)
  then obtain s' where s': "process_unlink process ?s4 = Some s'" "process_table_ok s'"
    "set (processes s') - {0} = set (processes s) - {0, process}"
    using process_unlink_runs[of ?s4 process] assms(8) by (auto split: option.splits)
  have "process_terminate process s = Some (0, s')"
    using s1(1-5) s'(1) assms(5) by (simp add: process_terminate_def process_free_program_data_def process_free_binary_data_def)
  moreover note k = process_unlink_keeps[OF s'(1)]
  moreover have "live_regions s' B = live_regions ?s4 B" "avail s' = avail ?s4" for B
    using k by (intro heap_state_cong; simp)+
  moreover have "mem s' a = mem s a" if "(A |` (- process_regions process s)) q = Some n" "in_range q n a" for q n a
    using s1(12)[OF that] k by simp
  moreover have "(A |` (- process_regions process s)) process = Some 12288" using assms(3,4) by simp
  moreover have "process \<notin> set (processes s')" using s'(3) assms(7) by blast
  ultimately show ?thesis using s1(10,11) s'(2,3) by (intro exI[of _ s']) (simp only:; blast)
qed

text \<open>Other blocks for a process are apart from everything it has.\<close>

lemma proc_mem_ok_blocks:
  fixes s :: "'z process_state_scheme"
  assumes ok: "proc_mem_ok process s A" and sz: "0 < unat sz" "unat sz \<le> 4294963200" and room: "room_for s 0 (blocks_for sz)"
    and z: "kzalloc s sz = (p, s')"
  shows "proc_mem_ok process s' (A(p \<mapsto> blocks_for sz * 4096))" "avail s = avail s' + blocks_for sz" "A p = None" "p \<noteq> 0"
    "procs s' = procs s" "tasks s' = tasks s"
    "space_pages (mem s') (proc_chunk process s) = space_pages (mem s) (proc_chunk process s)"
    "p \<notin> space_pages (mem s) (proc_chunk process s)"
proof -
  let ?c = "proc_chunk process s" and ?B = "A(p \<mapsto> blocks_for sz * 4096)"
  have live: "live_regions s A" and sp: "space_live s A ?c" using ok by (simp_all add: proc_mem_ok_def)
  note law = alloc_blocks[OF live sz room z]
  obtain m where m: "s' = s\<lparr>mem := m\<rparr>" using law(6) by blast
  have new: "A p = None" "p \<noteq> 0" using law(1,3) by simp_all
  have res: "kreserved s A a" if "A q = Some n" "in_range q n a" for q n a
    using that kpages.live_private[OF live that] unfolding reserved_def by blast
  have "\<forall>q \<in> space_pages (mem s) ?c. \<forall>a. in_range q 4096 a \<longrightarrow> mem s' a = mem s a"
    using law(8)[OF res] sp by (auto simp: space_live_def)
  note c = space_cong[OF this]
  show pg: "space_pages (mem s') ?c = space_pages (mem s) ?c" by (rule c(3))
  show np: "p \<notin> space_pages (mem s) ?c" using sp new by (auto simp: space_live_def)
  show "avail s = avail s' + blocks_for sz" "A p = None" "p \<noteq> 0" using law by simp_all
  show same: "procs s' = procs s" "tasks s' = tasks s" by (simp_all add: m)
  have "allocs_ok A (space_pages (mem s) ?c) (pr_allocations (procs s process))" using ok by (simp add: proc_mem_ok_def)
  then have "allocs_ok ?B (space_pages (mem s) ?c) (pr_allocations (procs s process))"
    using new(1) by (fastforce simp: allocs_ok_def alloc_ok_def)
  then show "proc_mem_ok process s' ?B"
    using ok law(4) sp c(4) pg np same by (auto simp: proc_mem_ok_def space_live_def m)
qed

lemma avail_le_blocks: "avail st \<le> heap_blocks (kernel_heap st)"
  by (simp add: avail_def order_trans[OF length_filter_le])

lemma proc_mem_ok_kzalloc:
  fixes s :: "'z process_state_scheme"
  assumes ok: "proc_mem_ok process s A" and sz: "0 < unat sz" "unat sz \<le> 4096" and av: "0 < avail s"
    and z: "kzalloc s sz = (p, s')"
  shows "proc_mem_ok process s' (A(p \<mapsto> 4096))" "avail s = Suc (avail s')" "A p = None" "p \<noteq> 0"
    "procs s' = procs s" "tasks s' = tasks s"
    "space_pages (mem s') (proc_chunk process s) = space_pages (mem s) (proc_chunk process s)"
    "p \<notin> space_pages (mem s) (proc_chunk process s)"
proof -
  have n: "blocks_for sz = 1" by (rule blocks_for_page[OF sz])
  have room: "room_for s 0 (blocks_for sz)" using av avail_le_blocks[of s] unfolding n by (simp add: room_for_def)
  have sz': "unat sz \<le> 4294963200" using sz(2) by simp
  note b = proc_mem_ok_blocks[OF ok sz(1) sz' room z]
  show "proc_mem_ok process s' (A(p \<mapsto> 4096))" "avail s = Suc (avail s')" using b(1,2) unfolding n by simp_all
  show "A p = None" "p \<noteq> 0" "procs s' = procs s" "tasks s' = tasks s"
    "space_pages (mem s') (proc_chunk process s) = space_pages (mem s) (proc_chunk process s)"
    "p \<notin> space_pages (mem s) (proc_chunk process s)" by (rule b(3-8))+
qed

text \<open>A process with a program, a stack and a task in a page each and its struct in three, and another process.\<close>

definition ending_state :: "addr \<times> process_state" where
  "ending_state =
     (let (b, s) = kzalloc loaded_procs 4096; (k, s) = kzalloc s 4096; (t, s) = kzalloc s 64; (pr, s) = kzalloc s 9384
      in (pr, s\<lparr>mem := (mem s)(0x6E00 := 0), tasks := (tasks s)(t := tasks s (pr_task (procs s 0x5000))),
           procs := (\<lambda>_. zero_process)(pr := (procs s 0x5000)\<lparr>pr_filetype := PROCESS_FILE_TYPE_BIN,
             pr_ptr := b, pr_stack := k, pr_task := t, pr_pid := 0\<rparr>, 0x6000 := zero_process\<lparr>pr_pid := 1\<rparr>),
           processes := pr # 0x6000 # replicate 10 0, current_process := pr\<rparr>))"

lemma ending_state_owns:
  defines "pr \<equiv> fst ending_state" and "s \<equiv> snd ending_state"
  obtains A where "process_owns pr s A" "avail s = 24567"
    "A (pr_ptr (procs s pr)) = Some 4096" "A (pr_stack (procs s pr)) = Some 4096" "A (pr_task (procs s pr)) = Some 4096"
    "A pr = Some 12288" "pr \<notin> process_regions pr s" "pr \<noteq> 0" "pr \<noteq> 0x6000"
    "pr_allocations (procs s pr) = replicate 1024 \<lparr>alloc_ptr = 0, alloc_size = 0\<rparr>"
proof -
  obtain A where A: "proc_mem_ok 0x5000 loaded_procs A" "avail loaded_procs = 24573"
    "procs loaded_procs 0x5000 = zero_process\<lparr>pr_task := pr_task (procs loaded_procs 0x5000)\<rparr>"
    by (rule loaded_procs_ok)
  obtain b s1 where z1: "kzalloc loaded_procs 4096 = (b, s1)" by fastforce
  obtain k s2 where z2: "kzalloc s1 4096 = (k, s2)" by fastforce
  obtain t s3 where z3: "kzalloc s2 64 = (t, s3)" by fastforce
  obtain q s4 where z4: "kzalloc s3 9384 = (q, s4)" by fastforce
  have sz: "0 < unat (4096 :: u32)" "unat (4096 :: u32) \<le> 4096" "0 < unat (64 :: u32)" "unat (64 :: u32) \<le> 4096"
    "0 < unat (9384 :: u32)" "unat (9384 :: u32) \<le> 4294963200" and nb: "blocks_for 9384 = 3"
    by (simp_all add: blocks_for_def)
  have av1: "0 < avail loaded_procs" using A(2) by simp
  note k1 = proc_mem_ok_kzalloc[OF A(1) sz(1,2) av1 z1]
  have av2: "0 < avail s1" using A(2) k1(2) by simp
  note k2 = proc_mem_ok_kzalloc[OF k1(1) sz(1,2) av2 z2]
  have av3: "0 < avail s2" using A(2) k1(2) k2(2) by simp
  note k3 = proc_mem_ok_kzalloc[OF k2(1) sz(3,4) av3 z3]
  have kh: "kernel_heap s3 = boot_heap" using k3(1) by (simp add: proc_mem_ok_def)
  have room: "room_for s3 0 (blocks_for 9384)"
    using A(2) k1(2) k2(2) k3(2) kh by (simp add: nb room_for_def boot_heap_def)
  note k4 = proc_mem_ok_blocks[OF k3(1) sz(5,6) room z4]
  let ?p = "procs loaded_procs 0x5000"
  let ?A = "A(b \<mapsto> 4096, k \<mapsto> 4096, t \<mapsto> 4096, q \<mapsto> 12288)"
  let ?c = "t_page_directory (tasks loaded_procs (pr_task ?p))"
  let ?m = "(mem s4)(0x6E00 := 0)"
  have ok4: "proc_mem_ok 0x5000 s4 ?A" using k4(1) by (simp add: nb)
  have c: "proc_chunk 0x5000 s4 = ?c" "proc_chunk 0x5000 s3 = ?c" "proc_chunk 0x5000 s2 = ?c" "proc_chunk 0x5000 s1 = ?c"
    using k1(5,6) k2(5,6) k3(5,6) k4(5,6) by simp_all
  have same: "procs s4 = procs loaded_procs" "tasks s4 = tasks loaded_procs"
    using k1(5,6) k2(5,6) k3(5,6) k4(5,6) by simp_all
  have "?m a = mem s4 a" if "table_byte boot_heap a \<or> (\<exists>x \<in> space_pages (mem s4) (proc_chunk 0x5000 s4). in_range x 4096 a)" for a
    using that null_entry_apart(1) null_entry_apart(3)[OF ok4] by (metis fun_upd_other)
  note cong = proc_mem_ok_cong[OF ok4 this]
  have pool: "unat q \<noteq> 0x6000"
  proof -
    have "live_regions s4 ?A" "kernel_heap s4 = boot_heap" using ok4 by (simp_all add: proc_mem_ok_def)
    then have "pool_byte boot_heap q" using kpages.live_pool[of s4 ?A q 12288 q] by (simp add: in_range_def)
    then show ?thesis using in_range_nat[of "0x1000000" 104857600 q] by (simp add: pool_byte_def boot_heap_def)
  qed
  have q6: "q \<noteq> 0x6000" using pool by auto
  have pr: "pr = q" and s: "s = s4\<lparr>mem := ?m, tasks := (tasks s4)(t := tasks s4 (pr_task (procs s4 0x5000))),
           procs := (\<lambda>_. zero_process)(q := (procs s4 0x5000)\<lparr>pr_filetype := PROCESS_FILE_TYPE_BIN,
             pr_ptr := b, pr_stack := k, pr_task := t, pr_pid := 0\<rparr>, 0x6000 := zero_process\<lparr>pr_pid := 1\<rparr>),
           processes := q # 0x6000 # replicate 10 0, current_process := q\<rparr>"
    using z1 z2 z3 z4 by (simp_all add: pr_def s_def ending_state_def)
  have e: "procs s q = ?p\<lparr>pr_filetype := PROCESS_FILE_TYPE_BIN, pr_ptr := b, pr_stack := k, pr_task := t, pr_pid := 0\<rparr>"
    "mem s = ?m" "kernel_heap s = kernel_heap s4" "t_page_directory (tasks s t) = ?c"
    using q6 same by (simp_all add: s)
  have as: "pr_allocations ?p = replicate 1024 \<lparr>alloc_ptr = 0, alloc_size = 0\<rparr>"
    by (subst A(3)) (simp add: zero_process_def)
  have heap: "live_regions s B = live_regions (s4\<lparr>mem := ?m\<rparr>) B" "avail s = avail (s4\<lparr>mem := ?m\<rparr>)" for B
    using e(2,3) heap_state_cong[of s "s4\<lparr>mem := ?m\<rparr>"] by simp_all
  have "proc_mem_ok q s ?A"
    using cong(1) unfolding proc_mem_ok_def heap c unfolding e by (simp add: e space_live_def same)
  moreover have pg: "space_pages ?m ?c = space_pages (mem loaded_procs) ?c"
    using cong(3) k1(7) k2(7) k3(7) k4(7) c by metis
  moreover have np: "b \<notin> space_pages (mem loaded_procs) ?c" "k \<notin> space_pages (mem loaded_procs) ?c"
    "t \<notin> space_pages (mem loaded_procs) ?c" "q \<notin> space_pages (mem loaded_procs) ?c"
    using k1(7,8) k2(7,8) k3(7,8) k4(8) c by metis+
  moreover have ne: "b \<noteq> k" "b \<noteq> t" "k \<noteq> t" "q \<noteq> b" "q \<noteq> k" "q \<noteq> t"
    using k2(3) k3(3) k4(3) by (auto split: if_splits)
  moreover have z: "set (replicate 1024 \<lparr>alloc_ptr = 0 :: addr, alloc_size = 0 :: u32\<rparr>) = {\<lparr>alloc_ptr = 0, alloc_size = 0\<rparr>}"
    by simp
  moreover have c5: "proc_chunk q s = ?c" using e by simp
  ultimately have own: "process_owns q s ?A"
    unfolding process_owns_def c5 e(2) pg using k1(4) k2(4) k3(4) by (simp add: e(1) as)
  have "q \<notin> process_regions q s"
    unfolding process_regions_def c5 e(2) pg using ne np k4(4) by (simp add: e(1) as)
  moreover have "avail s = avail s4" using heap(2) cong(2) by metis
  ultimately show thesis
    using own k1(2) k2(2) k3(2) k4(2,4) nb A(2) as ne q6 unfolding pr by (intro that[of ?A]) (simp_all add: e(1) pr)
qed

theorem process_terminate_frees_witness:
  "\<exists>s'. process_terminate (fst ending_state) (snd ending_state) = Some (0, s') \<and> avail s' = 25596 \<and>
     set (processes s') - {0} = {0x6000}"
proof -
  let ?pr = "fst ending_state" and ?s = "snd ending_state"
  obtain A where A: "process_owns ?pr ?s A" "avail ?s = 24567"
    "A (pr_ptr (procs ?s ?pr)) = Some 4096" "A (pr_stack (procs ?s ?pr)) = Some 4096" "A (pr_task (procs ?s ?pr)) = Some 4096"
    "A ?pr = Some 12288" "?pr \<notin> process_regions ?pr ?s" "?pr \<noteq> 0" "?pr \<noteq> 0x6000"
    "pr_allocations (procs ?s ?pr) = replicate 1024 \<lparr>alloc_ptr = 0, alloc_size = 0\<rparr>"
    by (rule ending_state_owns)
  have t: "processes ?s = ?pr # 0x6000 # replicate 10 0" "current_process ?s = ?pr"
    "pr_pid (procs ?s 0x6000) = 1" "mem ?s 0x6E00 = 0"
    by (simp_all add: ending_state_def Let_def split: prod.splits)
  have u: "pr_filetype (procs ?s ?pr) = PROCESS_FILE_TYPE_BIN" "pr_pid (procs ?s ?pr) = 0"
    using A(9) by (auto simp: ending_state_def Let_def split: prod.splits)
  have "process_table_ok ?s" "null_entry_quiet ?s"
    using t u(2) A(8,9) by (auto simp: process_table_ok_def null_entry_quiet_def nth_Cons split: nat.splits)
  from process_terminate_frees[OF A(1) this(2) A(6,7) u(1) this(1)] t(1) A(2-5,8-10)
  show ?thesis by (auto simp: blocks_for_def sum_list_replicate)
qed

subsection \<open>Mapping the segments of a program\<close>

text \<open>The number of pages a segment is mapped to, and these pages in the address space.\<close>

definition segment_count :: "elf_file \<Rightarrow> elf32_phdr \<Rightarrow> nat" where
  "segment_count f ph = blocks_for (elf_phdr_phys_address f ph mod 4096 + p_memsz ph)"

definition segment_pages :: "elf_file \<Rightarrow> elf32_phdr \<Rightarrow> addr set" where
  "segment_pages f ph =
     (\<lambda>k. paging_align_to_lower_page (p_vaddr ph) + of_nat k * 4096) ` {..<segment_count f ph}"

text \<open>
  A segment starts behind the stack of the program, ends in the address space and in the memory of the
  heap, and is at the same offset of a page in both.
\<close>

definition segment_ok :: "elf_file \<Rightarrow> elf32_phdr \<Rightarrow> bool" where
  "segment_ok f ph \<longleftrightarrow> 0x400000 \<le> unat (p_vaddr ph) \<and> unat (p_vaddr ph) + unat (p_memsz ph) \<le> 4294963200 \<and>
     unat (elf_phdr_phys_address f ph) + unat (p_memsz ph) \<le> 0x7400000 \<and>
     p_vaddr ph mod 4096 = elf_phdr_phys_address f ph mod 4096"

lemma lower_page_split: "a = paging_align_to_lower_page a + a mod 4096"
  "unat (paging_align_to_lower_page a) = unat a - unat a mod 4096"
proof -
  show "a = paging_align_to_lower_page a + a mod 4096" by (simp add: paging_align_to_lower_page_def)
  show "unat (paging_align_to_lower_page a) = unat a - unat a mod 4096"
    unfolding paging_align_to_lower_page_def by (subst unat_diff32) (simp_all add: unat_mod)
qed

lemma segment_ok_pages:
  assumes "segment_ok f ph"
  defines "p \<equiv> elf_phdr_phys_address f ph" and "n \<equiv> segment_count f ph"
  shows "paging_align_address (p + p_memsz ph) = paging_align_to_lower_page p + of_nat (n * 4096)"
    "unat (paging_align_to_lower_page p) + n * 4096 < 4294967296"
    "unat (p_vaddr ph mod 4096) + unat (p_memsz ph) \<le> n * 4096"
    "unat (paging_align_to_lower_page (p_vaddr ph)) + n * 4096 < 4294967296"
    "unat (segment_flags ph) < 4096"
    "w \<in> segment_pages f ph \<Longrightarrow> 0x400000 \<le> unat w"
proof -
  let ?d = "p mod 4096 + p_memsz ph"
  have v: "p_vaddr ph mod 4096 = p mod 4096" and b: "unat p + unat (p_memsz ph) \<le> 0x7400000"
    "0x400000 \<le> unat (p_vaddr ph)" "unat (p_vaddr ph) + unat (p_memsz ph) \<le> 4294963200"
    using assms(1) by (simp_all add: segment_ok_def p_def)
  have vm: "unat (p_vaddr ph) mod 4096 = unat p mod 4096" using arg_cong[OF v, of unat] by (simp add: unat_mod)
  have pm: "unat (p mod 4096) = unat p mod 4096" "unat p mod 4096 \<le> unat p" "unat p mod 4096 < 4096"
    "unat p mod 4096 \<le> unat (p_vaddr ph)"
    using vm mod_less_eq_dividend[of "unat (p_vaddr ph)" 4096] by (simp_all add: unat_mod)
  have d: "unat ?d = unat p mod 4096 + unat (p_memsz ph)"
    using unat_add_no_wrap[of "p mod 4096" "p_memsz ph"] b(1) pm by simp
  have n: "unat ?d \<le> n * 4096" "n * 4096 < unat ?d + 4096" unfolding n_def segment_count_def p_def[symmetric]
    by (rule blocks_for_bounds) (simp add: blocks_for_def; linarith)
  have "p + p_memsz ph = paging_align_to_lower_page p + ?d"
    unfolding paging_align_to_lower_page_def by (simp only: diff_add_cancel add.assoc[symmetric])
  then show "paging_align_address (p + p_memsz ph) = paging_align_to_lower_page p + of_nat (n * 4096)"
    using paging_align_address_up[OF lower_page(1), of p ?d] unfolding n_def segment_count_def p_def[symmetric] by metis
  show "unat (paging_align_to_lower_page p) + n * 4096 < 4294967296"
    using n b(1) pm d lower_page_split(2)[of p] by linarith
  show "unat (p_vaddr ph mod 4096) + unat (p_memsz ph) \<le> n * 4096" using n d pm v by simp
  show up: "unat (paging_align_to_lower_page (p_vaddr ph)) + n * 4096 < 4294967296"
    using n b(3) pm d lower_page_split(2)[of "p_vaddr ph"] vm by linarith
  show "unat (segment_flags ph) < 4096" by (simp add: segment_flags_def)
  show "0x400000 \<le> unat w" if "w \<in> segment_pages f ph"
  proof -
    obtain k where k: "k < n" "w = paging_align_to_lower_page (p_vaddr ph) + of_nat (k * 4096)"
      using \<open>w \<in> segment_pages f ph\<close> by (auto simp: segment_pages_def n_def)
    have "unat (of_nat (k * 4096) :: u32) = k * 4096" using k(1) up by (intro unat_of_nat32) linarith
    then have "unat w = unat (paging_align_to_lower_page (p_vaddr ph)) + k * 4096"
      unfolding k(2) using up k(1) by (subst unat_add_no_wrap) simp_all
    moreover have "0x400000 \<le> unat (paging_align_to_lower_page (p_vaddr ph))"
      unfolding lower_page_split(2) minus_mod_eq_div_mult using div_le_mono[OF b(2), of 4096] by simp
    ultimately show ?thesis by linarith
  qed
qed

lemma elf32_phdr_cong:
  assumes "\<And>a. in_range p 32 a \<Longrightarrow> m a = m' a"
  shows "elf32_phdr_at m p = elf32_phdr_at m' p"
proof -
  have "read32 m (p + of_nat k) = read32 m' (p + of_nat k)" if "k \<le> 28" for k
  proof (rule read32_cong, rule assms)
    fix x assume x: "in_range (p + of_nat k) 4 x"
    then obtain j where j: "x = p + of_nat k + of_nat j" "j < 4" by (rule in_rangeE)
    have "unat (of_nat (k + j) :: u32) = k + j" using that j(2) by (intro unat_of_nat32) simp
    then show "in_range p 32 x" using j that by (simp add: in_range_def add.assoc)
  qed
  from this[of 0] this[of 4] this[of 8] this[of 12] this[of 16] this[of 20] this[of 24] this[of 28]
  show ?thesis by (simp add: elf32_phdr_at_def)
qed

lemma map_segment_ok:
  assumes live: "live_regions s A" and sp: "space_live s A chunk" and ok: "segment_ok f ph"
  defines "phys \<equiv> elf_phdr_phys_address f ph" and "v \<equiv> paging_align_to_lower_page (p_vaddr ph)"
  obtains m where "map_to chunk v (paging_align_to_lower_page phys) (paging_align_address (phys + p_memsz ph))
       (segment_flags ph) s = (0, s\<lparr>mem := m\<rparr>)"
    "live_regions (s\<lparr>mem := m\<rparr>) A" "avail (s\<lparr>mem := m\<rparr>) = avail s" "space_live (s\<lparr>mem := m\<rparr>) A chunk"
    "space_pages m chunk = space_pages (mem s) chunk"
    "\<And>k. k < segment_count f ph \<Longrightarrow> paging_get m (read32 m chunk) (v + of_nat k * 4096) =
       (paging_align_to_lower_page phys + of_nat k * 4096) OR segment_flags ph"
    "\<And>w. page_aligned w \<Longrightarrow> w \<notin> segment_pages f ph \<Longrightarrow>
       paging_get m (read32 m chunk) w = paging_get (mem s) (read32 (mem s) chunk) w"
    "\<And>a. (\<forall>q \<in> space_pages (mem s) chunk. \<not> in_range q 4096 a) \<Longrightarrow> m a = mem s a"
proof -
  note g = segment_ok_pages[OF ok, folded phys_def]
  show thesis
  proof (rule map_to_ok[OF live sp lower_page(1)[of "p_vaddr ph", folded v_def] lower_page(1)[of phys] g(2) g(1),
        where f = "segment_flags ph"], goal_cases)
    case (1 m)
    have fr: "m a = mem s a" if "\<forall>q \<in> space_pages (mem s) chunk. \<not> in_range q 4096 a" for a
      using 1(7)[of a] space_table_byte_page[of "mem s" chunk a] that by blast
    show ?case
      by (rule that[OF 1(1-4) 1(8) 1(5)])
        (use 1(6) fr in \<open>auto simp: segment_pages_def v_def\<close>)
  qed
qed

text \<open>
  The headers from \<open>i\<close> to \<open>e\<close> are in memory that no page table uses, and no page belongs to two segments.
\<close>

definition segments_ok :: "elf_file \<Rightarrow> memory \<Rightarrow> addr \<Rightarrow> addr \<Rightarrow> nat \<Rightarrow> nat \<Rightarrow> bool" where
  "segments_ok f m chunk phdrs i e \<longleftrightarrow>
     (\<forall>j \<in> {i..<e}. segment_ok f (elf32_phdr_at m (phdrs + 32 * of_nat j)) \<and>
        (\<forall>a. in_range (phdrs + 32 * of_nat j) 32 a \<longrightarrow> (\<forall>q \<in> space_pages m chunk. \<not> in_range q 4096 a)) \<and>
        (\<forall>k \<in> {i..<e}. j \<noteq> k \<longrightarrow> segment_pages f (elf32_phdr_at m (phdrs + 32 * of_nat j)) \<inter>
           segment_pages f (elf32_phdr_at m (phdrs + 32 * of_nat k)) = {}))"

abbreviation segment_mapped :: "elf_file \<Rightarrow> elf32_phdr \<Rightarrow> memory \<Rightarrow> addr \<Rightarrow> bool" where
  "segment_mapped f ph m chunk \<equiv> (\<forall>k < segment_count f ph.
     paging_get m (read32 m chunk) (paging_align_to_lower_page (p_vaddr ph) + of_nat k * 4096) =
       (paging_align_to_lower_page (elf_phdr_phys_address f ph) + of_nat k * 4096) OR segment_flags ph)"

lemma map_elf_loop_ok:
  fixes s :: "'z process_state_scheme"
  assumes "live_regions s A" "space_live s A (proc_chunk process s)"
    and "segments_ok f (mem s) (proc_chunk process s) phdrs i (i + n)"
  shows "\<exists>m. process_map_elf_loop process f phdrs i n s = (0, s\<lparr>mem := m\<rparr>) \<and>
     live_regions (s\<lparr>mem := m\<rparr>) A \<and> avail (s\<lparr>mem := m\<rparr>) = avail s \<and> space_live (s\<lparr>mem := m\<rparr>) A (proc_chunk process s) \<and>
     space_pages m (proc_chunk process s) = space_pages (mem s) (proc_chunk process s) \<and>
     (\<forall>j \<in> {i..<i + n}. segment_mapped f (elf32_phdr_at (mem s) (phdrs + 32 * of_nat j)) m (proc_chunk process s)) \<and>
     (\<forall>w. page_aligned w \<and> (\<forall>j \<in> {i..<i + n}. w \<notin> segment_pages f (elf32_phdr_at (mem s) (phdrs + 32 * of_nat j))) \<longrightarrow>
        paging_get m (read32 m (proc_chunk process s)) w =
        paging_get (mem s) (read32 (mem s) (proc_chunk process s)) w) \<and>
     (\<forall>a. (\<forall>q \<in> space_pages (mem s) (proc_chunk process s). \<not> in_range q 4096 a) \<longrightarrow> m a = mem s a)"
  using assms
proof (induction n arbitrary: i s)
  case 0
  have "s\<lparr>mem := mem s\<rparr> = s" by simp
  then show ?case using 0 by (intro exI[of _ "mem s"]) simp
next
  case (Suc n)
  let ?c = "proc_chunk process s"
  let ?ph = "\<lambda>j. elf32_phdr_at (mem s) (phdrs + 32 * of_nat j)"
  have seg: "segment_ok f (?ph j)" "in_range (phdrs + 32 * of_nat j) 32 a \<Longrightarrow> (\<forall>q \<in> space_pages (mem s) ?c. \<not> in_range q 4096 a)"
    "k \<in> {i..<i + Suc n} \<Longrightarrow> j \<noteq> k \<Longrightarrow> segment_pages f (?ph j) \<inter> segment_pages f (?ph k) = {}"
    if "j \<in> {i..<i + Suc n}" for j k a
    using Suc.prems(3) that unfolding segments_ok_def by blast+
  have i: "i \<in> {i..<i + Suc n}" by simp
  obtain m where m: "map_to ?c (paging_align_to_lower_page (p_vaddr (?ph i)))
       (paging_align_to_lower_page (elf_phdr_phys_address f (?ph i)))
       (paging_align_address (elf_phdr_phys_address f (?ph i) + p_memsz (?ph i))) (segment_flags (?ph i)) s = (0, s\<lparr>mem := m\<rparr>)"
    "live_regions (s\<lparr>mem := m\<rparr>) A" "avail (s\<lparr>mem := m\<rparr>) = avail s" "space_live (s\<lparr>mem := m\<rparr>) A ?c"
    "space_pages m ?c = space_pages (mem s) ?c" "segment_mapped f (?ph i) m ?c"
    "\<And>w. page_aligned w \<Longrightarrow> w \<notin> segment_pages f (?ph i) \<Longrightarrow>
       paging_get m (read32 m ?c) w = paging_get (mem s) (read32 (mem s) ?c) w"
    "\<And>a. (\<forall>q \<in> space_pages (mem s) ?c. \<not> in_range q 4096 a) \<Longrightarrow> m a = mem s a"
    by (rule map_segment_ok[OF Suc.prems(1,2) seg(1)[OF i]]) blast
  let ?s1 = "s\<lparr>mem := m\<rparr>"
  have hdr: "elf32_phdr_at m (phdrs + 32 * of_nat j) = ?ph j" if "j \<in> {i..<i + Suc n}" for j
    using seg(2)[OF that] m(8) by (intro elf32_phdr_cong) blast
  have c1: "proc_chunk process ?s1 = ?c" "mem ?s1 = m" by simp_all
  have "segments_ok f (mem ?s1) (proc_chunk process ?s1) phdrs (Suc i) (Suc i + n)"
    unfolding segments_ok_def c1
  proof (intro ballI conjI allI impI, goal_cases)
    case (1 j)
    then have "j \<in> {i..<i + Suc n}" by simp
    then show ?case using hdr seg(1) by metis
  next
    case (2 j a q)
    then have "j \<in> {i..<i + Suc n}" by simp
    from seg(2)[OF this 2(2)] 2(3) m(5) show ?case by blast
  next
    case (3 j k)
    then have "j \<in> {i..<i + Suc n}" "k \<in> {i..<i + Suc n}" by simp_all
    then show ?case using hdr seg(3) 3(3) by metis
  qed
  from Suc.IH[OF m(2) _ this, unfolded c1, OF m(4)] obtain m2 where m2:
    "process_map_elf_loop process f phdrs (Suc i) n ?s1 = (0, s\<lparr>mem := m2\<rparr>)"
    "live_regions (s\<lparr>mem := m2\<rparr>) A" "avail (s\<lparr>mem := m2\<rparr>) = avail ?s1" "space_live (s\<lparr>mem := m2\<rparr>) A ?c"
    "space_pages m2 ?c = space_pages m ?c"
    "\<forall>j \<in> {Suc i..<Suc i + n}. segment_mapped f (elf32_phdr_at m (phdrs + 32 * of_nat j)) m2 ?c"
    "\<forall>w. page_aligned w \<and> (\<forall>j \<in> {Suc i..<Suc i + n}. w \<notin> segment_pages f (elf32_phdr_at m (phdrs + 32 * of_nat j))) \<longrightarrow>
       paging_get m2 (read32 m2 ?c) w = paging_get m (read32 m ?c) w"
    "\<forall>a. (\<forall>q \<in> space_pages m ?c. \<not> in_range q 4096 a) \<longrightarrow> m2 a = m a"
    by auto
  have rest: "paging_get m2 (read32 m2 ?c) w = paging_get m (read32 m ?c) w"
    if "page_aligned w" "\<forall>j \<in> {Suc i..<Suc i + n}. w \<notin> segment_pages f (?ph j)" for w
  proof -
    have "w \<notin> segment_pages f (elf32_phdr_at m (phdrs + 32 * of_nat j))" if "j \<in> {Suc i..<Suc i + n}" for j
    proof -
      have "j \<in> {i..<i + Suc n}" using that by simp
      then show ?thesis using hdr \<open>\<forall>j \<in> {Suc i..<Suc i + n}. w \<notin> segment_pages f (?ph j)\<close> that by metis
    qed
    then show ?thesis using m2(7) that(1) by blast
  qed
  have first: "segment_mapped f (?ph i) m2 ?c"
  proof (intro allI impI)
    fix k assume k: "k < segment_count f (?ph i)"
    let ?w = "paging_align_to_lower_page (p_vaddr (?ph i)) + of_nat k * 4096"
    have "?w \<in> segment_pages f (?ph i)" using k by (auto simp: segment_pages_def)
    moreover have "segment_pages f (?ph i) \<inter> segment_pages f (?ph j) = {}" if "j \<in> {Suc i..<Suc i + n}" for j
      by (rule seg(3)[OF i]) (use that in auto)
    ultimately have "\<forall>j \<in> {Suc i..<Suc i + n}. ?w \<notin> segment_pages f (?ph j)" by blast
    from rest[OF page_aligned_add[OF lower_page(1)] this]
    show "paging_get m2 (read32 m2 ?c) ?w =
        (paging_align_to_lower_page (elf_phdr_phys_address f (?ph i)) + of_nat k * 4096) OR segment_flags (?ph i)"
      using m(6) k by simp
  qed
  have "process_map_elf_loop process f phdrs i (Suc n) s = (0, s\<lparr>mem := m2\<rparr>)"
    using m(1) m2(1) by (simp add: Let_def)
  moreover have "segment_mapped f (?ph j) m2 ?c" if "j \<in> {i..<i + Suc n}" for j
  proof (cases "j = i")
    case False
    then have "j \<in> {Suc i..<Suc i + n}" using that by simp
    then show ?thesis using m2(6) hdr[OF that] by metis
  qed (use first in simp)
  moreover have "paging_get m2 (read32 m2 ?c) w = paging_get (mem s) (read32 (mem s) ?c) w"
    if "page_aligned w" "\<forall>j \<in> {i..<i + Suc n}. w \<notin> segment_pages f (?ph j)" for w
    using rest[of w] m(7)[of w] that by simp
  moreover have "m2 a = mem s a" if "\<forall>q \<in> space_pages (mem s) ?c. \<not> in_range q 4096 a" for a
    using m2(8) m(5,8) that by simp
  ultimately show ?case
    using m2(2-5) m(3,5) by (intro exI[of _ m2]) simp
qed

lemma writable_entry:
  assumes "page_aligned p"
  shows "(p OR segment_flags ph) AND PAGING_IS_WRITABLE \<noteq> 0 \<longleftrightarrow> p_flags ph AND PF_W \<noteq> 0"
proof -
  have "p AND 4095 = 0" using assms and_mask_dvd_nat[of 12 p] by (simp add: mask_eq_exp_minus_1)
  then have "(p AND 4095) AND 2 = 0" by (simp only: and_zero_eq zero_and_eq)
  then have "p AND PAGING_IS_WRITABLE = 0" unfolding and.assoc by simp
  then show ?thesis by (simp add: segment_flags_def bit.conj_disj_distrib2)
qed

text \<open>A byte of a mapped segment: its page, and where the byte is.\<close>

lemma segment_mapped_byte:
  assumes ok: "segment_ok f ph" and map: "segment_mapped f ph m chunk" and b: "unat b < unat (p_memsz ph)"
  shows "paging_get_physical_address m (read32 m chunk) (p_vaddr ph + b) = elf_phdr_phys_address f ph + b"
    "paging_get m (read32 m chunk) (paging_align_to_lower_page (p_vaddr ph + b)) AND PAGING_IS_WRITABLE \<noteq> 0 \<longleftrightarrow>
       p_flags ph AND PF_W \<noteq> 0"
proof -
  let ?p = "elf_phdr_phys_address f ph" and ?v = "p_vaddr ph" and ?n = "segment_count f ph"
  let ?lv = "paging_align_to_lower_page ?v" and ?lp = "paging_align_to_lower_page ?p"
  note g = segment_ok_pages[OF ok]
  have v: "?v mod 4096 = ?p mod 4096" using ok by (simp add: segment_ok_def)
  let ?d = "?v mod 4096 + b"
  have "unat (?v mod 4096) + unat b < 4294967296" using g(2,3) b by linarith
  then have d: "unat ?d < ?n * 4096" using unat_add_no_wrap[of "?v mod 4096" b] g(3) b by linarith
  have vb: "?v + b = ?lv + ?d" "?p + b = ?lp + ?d"
    unfolding paging_align_to_lower_page_def v[symmetric] by (simp_all add: v)
  have get: "\<And>k. k < ?n \<Longrightarrow> paging_get m (read32 m chunk) (?lv + of_nat k * 4096) = (?lp + of_nat k * 4096) OR segment_flags ph"
    using map by blast
  show "paging_get_physical_address m (read32 m chunk) (?v + b) = ?p + b"
    unfolding vb by (rule entries_translate[OF lower_page(1) lower_page(1) g(5) get d])
  let ?k = "unat ?d div 4096"
  have "?k < ?n" using d by (simp add: div_less_iff_less_mult)
  note gk = get[OF this]
  have "?lv + ?d = (?lv + of_nat ?k * 4096) + ?d mod 4096"
    using split_offset(1)[of ?d] by (simp only: add.assoc)
  then have "paging_align_to_lower_page (?lv + ?d) = ?lv + of_nat ?k * 4096"
    using lower_page_offset[OF page_aligned_add[OF lower_page(1)] split_offset(2)] by metis
  then show "paging_get m (read32 m chunk) (paging_align_to_lower_page (?v + b)) AND PAGING_IS_WRITABLE \<noteq> 0 \<longleftrightarrow>
      p_flags ph AND PF_W \<noteq> 0"
    unfolding vb(1) using gk writable_entry[OF page_aligned_add[OF lower_page(1)], of ?p ?k ph] by simp
qed

lemma process_map_elf_runs:
  assumes "live_regions s A" "space_live s A (proc_chunk process s)"
    and "pr_filetype (procs s process) = PROCESS_FILE_TYPE_ELF"
    and "f = elf_files s (pr_ptr (procs s process))"
    and "elf_has_program_header (elf32_header_at (mem s) (elf_memory_ptr f))"
    and "n = unat (e_phnum (elf32_header_at (mem s) (elf_memory_ptr f)))"
    and "segments_ok f (mem s) (proc_chunk process s) (elf_pheader (mem s) (elf_memory_ptr f)) 0 n"
    and "page_aligned (pr_stack (procs s process))" "unat (pr_stack (procs s process)) < 0x7400000"
  obtains m where "process_map_memory process s = Some (0, s\<lparr>mem := m\<rparr>)" "live_regions (s\<lparr>mem := m\<rparr>) A"
    "avail (s\<lparr>mem := m\<rparr>) = avail s" "space_live (s\<lparr>mem := m\<rparr>) A (proc_chunk process s)"
    "space_pages m (proc_chunk process s) = space_pages (mem s) (proc_chunk process s)"
    "\<And>ph b. ph \<in> set (elf_phdrs (mem s) (elf_memory_ptr f)) \<Longrightarrow> unat b < unat (p_memsz ph) \<Longrightarrow>
        task_virtual_address_to_physical (pr_task (procs s process)) (p_vaddr ph + b) (s\<lparr>mem := m\<rparr>) =
          elf_phdr_phys_address f ph + b \<and>
        (proc_entry process (s\<lparr>mem := m\<rparr>) (paging_align_to_lower_page (p_vaddr ph + b)) AND PAGING_IS_WRITABLE \<noteq> 0 \<longleftrightarrow>
           p_flags ph AND PF_W \<noteq> 0)"
    "\<And>b. unat b < 16384 \<Longrightarrow>
        task_virtual_address_to_physical (pr_task (procs s process)) (0x3FB000 + b) (s\<lparr>mem := m\<rparr>) =
          pr_stack (procs s process) + b"
    "\<And>a. (\<forall>q \<in> space_pages (mem s) (proc_chunk process s). \<not> in_range q 4096 a) \<Longrightarrow> m a = mem s a"
proof -
  let ?p = "procs s process" and ?c = "proc_chunk process s"
  let ?hdrs = "elf_pheader (mem s) (elf_memory_ptr f)"
  let ?ph = "\<lambda>j. elf32_phdr_at (mem s) (?hdrs + 32 * of_nat j)"
  have "segments_ok f (mem s) ?c ?hdrs 0 (0 + n)" using assms(7) by simp
  from map_elf_loop_ok[OF assms(1,2) this] obtain m1 where
    m1: "process_map_elf_loop process f ?hdrs 0 n s = (0, s\<lparr>mem := m1\<rparr>)"
    "live_regions (s\<lparr>mem := m1\<rparr>) A" "avail (s\<lparr>mem := m1\<rparr>) = avail s" "space_live (s\<lparr>mem := m1\<rparr>) A ?c"
    "\<And>j. j < n \<Longrightarrow> segment_mapped f (?ph j) m1 ?c"
    "\<And>a. (\<forall>q \<in> space_pages (mem s) ?c. \<not> in_range q 4096 a) \<Longrightarrow> m1 a = mem s a"
    "space_pages m1 ?c = space_pages (mem s) ?c" by auto
  have bd: "unat (pr_stack ?p) + 4 * 4096 < 4294967296" using assms(9) by simp
  have e: "paging_align_address (pr_stack ?p + 16384) = pr_stack ?p + of_nat (4 * 4096)"
    using paging_align_address_up[OF assms(8), of 16384] by (simp add: blocks_for_def)
  have al: "page_aligned (0x3FB000 :: addr)" by simp
  obtain m2 where m2: "map_to ?c 0x3FB000 (pr_stack ?p) (paging_align_address (pr_stack ?p + 16384)) 7 (s\<lparr>mem := m1\<rparr>) =
      (0, s\<lparr>mem := m1\<rparr>\<lparr>mem := m2\<rparr>)"
    "live_regions (s\<lparr>mem := m1\<rparr>\<lparr>mem := m2\<rparr>) A" "avail (s\<lparr>mem := m1\<rparr>\<lparr>mem := m2\<rparr>) = avail (s\<lparr>mem := m1\<rparr>)"
    "\<And>k. k < 4 \<Longrightarrow> paging_get m2 (read32 m2 ?c) (0x3FB000 + of_nat k * 4096) = (pr_stack ?p + of_nat k * 4096) OR 7"
    "\<And>w. page_aligned w \<Longrightarrow> (\<And>k. k < 4 \<Longrightarrow> w \<noteq> 0x3FB000 + of_nat k * 4096) \<Longrightarrow>
       paging_get m2 (read32 m2 ?c) w = paging_get m1 (read32 m1 ?c) w"
    "space_live (s\<lparr>mem := m1\<rparr>\<lparr>mem := m2\<rparr>) A ?c"
    "\<And>a. \<not> space_table_byte (mem (s\<lparr>mem := m1\<rparr>)) ?c a \<Longrightarrow> m2 a = mem (s\<lparr>mem := m1\<rparr>) a"
    "space_pages m2 ?c = space_pages (mem (s\<lparr>mem := m1\<rparr>)) ?c"
    by (rule map_to_ok[OF m1(2,4) al assms(8) bd e, where f = 7]) simp
  have call: "process_map_memory process s = Some (0, s\<lparr>mem := m2\<rparr>)"
    using assms(3-6) m1(1) m2(1)
    by (simp add: process_map_memory_def process_map_elf_def process_map_stack_def elf_header_def Let_def)
  have stack: "unat (0x3FB000 + of_nat k * 4096 :: addr) < 0x400000" if "k < 4" for k
  proof -
    have "k = 0 \<or> k = 1 \<or> k = 2 \<or> k = 3" using that by linarith
    then show ?thesis by auto
  qed
  have ok: "segment_ok f (?ph j)" if "j < n" for j using assms(7) that by (simp add: segments_ok_def)
  have "segment_mapped f (?ph j) m2 ?c" if "j < n" for j
  proof (intro allI impI)
    fix k assume k: "k < segment_count f (?ph j)"
    let ?w = "paging_align_to_lower_page (p_vaddr (?ph j)) + of_nat k * 4096"
    have "?w \<in> segment_pages f (?ph j)" using k by (auto simp: segment_pages_def)
    then have "0x400000 \<le> unat ?w" by (rule segment_ok_pages(6)[OF ok[OF that]])
    then have "?w \<noteq> 0x3FB000 + of_nat k' * 4096" if "k' < 4" for k' using stack[OF that] by (metis not_less)
    from m2(5)[OF page_aligned_add[OF lower_page(1)] this] m1(5)[OF that] k
    show "paging_get m2 (read32 m2 ?c) ?w =
        (paging_align_to_lower_page (elf_phdr_phys_address f (?ph j)) + of_nat k * 4096) OR segment_flags (?ph j)" by simp
  qed
  note byte = segment_mapped_byte[OF ok this]
  have stk: "paging_get_physical_address m2 (read32 m2 ?c) (0x3FB000 + b) = pr_stack ?p + b" if "unat b < 16384" for b
  proof (rule entries_translate[OF al assms(8) _ m2(4)])
    show "unat b < 4 * 4096" using that by (simp del: word_less_nat_alt)
  qed simp_all
  have phs: "\<exists>j < n. ph = ?ph j" if "ph \<in> set (elf_phdrs (mem s) (elf_memory_ptr f))" for ph
    using that assms(5,6) by (auto simp: elf_phdrs_def elf_program_header_def)
  have keep: "m2 a = mem s a" if "\<forall>q \<in> space_pages (mem s) ?c. \<not> in_range q 4096 a" for a
    using m2(7)[of a] m1(6)[OF that] space_table_byte_page[of m1 ?c a] m1(7) that by auto
  have bytes: "task_virtual_address_to_physical (pr_task ?p) (p_vaddr ph + b) (s\<lparr>mem := m2\<rparr>) = elf_phdr_phys_address f ph + b \<and>
      (proc_entry process (s\<lparr>mem := m2\<rparr>) (paging_align_to_lower_page (p_vaddr ph + b)) AND PAGING_IS_WRITABLE \<noteq> 0 \<longleftrightarrow>
        p_flags ph AND PF_W \<noteq> 0)"
    if ph: "ph \<in> set (elf_phdrs (mem s) (elf_memory_ptr f))" and b: "unat b < unat (p_memsz ph)" for ph and b :: u32
  proof -
    obtain j where j: "j < n" "ph = ?ph j" using phs[OF ph] by blast
    show ?thesis using byte[OF j(1) j(1), of b] b j(2) by (simp add: task_virtual_address_to_physical_def proc_entry_def)
  qed
  show thesis
    by (rule that[OF call _ _ _ _ bytes]) (use m1(3,7) m2(2,3,6,8) stk keep in \<open>simp_all add: task_virtual_address_to_physical_def\<close>)
qed

text \<open>
  C24: a program loaded from an ELF image is visible where its headers say: after
  \<^verbatim>\<open>process_map_memory\<close> every byte of every segment is at its virtual address in the
  address space of the task, the program may write it exactly when the header has the
  write flag, and the stack is at its place; no live allocation is lost.
\<close>

theorem process_map_memory_elf:
  assumes "live_regions s A" "space_live s A (proc_chunk process s)"
    and "pr_filetype (procs s process) = PROCESS_FILE_TYPE_ELF"
    and "f = elf_files s (pr_ptr (procs s process))"
    and "elf_has_program_header (elf32_header_at (mem s) (elf_memory_ptr f))"
    and "n = unat (e_phnum (elf32_header_at (mem s) (elf_memory_ptr f)))"
    and "segments_ok f (mem s) (proc_chunk process s) (elf_pheader (mem s) (elf_memory_ptr f)) 0 n"
    and "page_aligned (pr_stack (procs s process))" "unat (pr_stack (procs s process)) < 0x7400000"
  shows "\<exists>s'. process_map_memory process s = Some (0, s') \<and> live_regions s' A \<and> avail s' = avail s \<and>
     (\<forall>ph \<in> set (elf_phdrs (mem s) (elf_memory_ptr f)). \<forall>b. unat b < unat (p_memsz ph) \<longrightarrow>
        task_virtual_address_to_physical (pr_task (procs s process)) (p_vaddr ph + b) s' = elf_phdr_phys_address f ph + b \<and>
        (proc_entry process s' (paging_align_to_lower_page (p_vaddr ph + b)) AND PAGING_IS_WRITABLE \<noteq> 0 \<longleftrightarrow>
           p_flags ph AND PF_W \<noteq> 0)) \<and>
     (\<forall>b. unat b < 16384 \<longrightarrow>
        task_virtual_address_to_physical (pr_task (procs s process)) (0x3FB000 + b) s' =
          pr_stack (procs s process) + b)"
proof (rule process_map_elf_runs[OF assms], goal_cases)
  case (1 m)
  then show ?case by (intro exI[of _ "s\<lparr>mem := m\<rparr>"]) simp
qed

text \<open>An image at \<open>0x1000\<close> with a segment at \<open>0x402000\<close> and a writable one at \<open>0x400000\<close>.\<close>

definition program_image :: memory where
  "program_image = sample_elf_bytes(0x1048 := 0x20, 0x1068 := 0x80, 0x106C := 2)"

definition elf_procs :: process_state where
  "elf_procs = loaded_procs\<lparr>mem := (\<lambda>a. if in_range 0x1000 256 a then program_image a else mem loaded_procs a),
     elf_files := (\<lambda>_. zero_elf_file\<lparr>elf_memory_ptr := 0x1000\<rparr>),
     procs := (procs loaded_procs)(0x5000 := (procs loaded_procs 0x5000)\<lparr>pr_filetype := PROCESS_FILE_TYPE_ELF,
       pr_stack := 0x3000000\<rparr>)\<rparr>"

lemma elf_procs_image:
  "elf32_phdr_at (mem elf_procs) 0x1034 = (sample_phdr 0x402000 0x10)\<lparr>p_memsz := 0x20\<rparr>"
  "elf32_phdr_at (mem elf_procs) 0x1054 = (sample_phdr 0x400000 0x80)\<lparr>p_memsz := 0x80, p_flags := 2\<rparr>"
  "e_phnum (elf32_header_at (mem elf_procs) 0x1000) = 2" "e_phoff (elf32_header_at (mem elf_procs) 0x1000) = 0x34"
  by (simp_all add: elf_procs_def elf32_phdr_at_def elf32_header_at_def read32_def read16_def program_image_def
      sample_elf_bytes_def sample_phdr_def in_range_def)

theorem process_map_memory_elf_witness:
  "\<exists>s'. process_map_memory 0x5000 elf_procs = Some (0, s') \<and>
     task_virtual_address_to_physical (pr_task (procs loaded_procs 0x5000)) 0x402010 s' = 0x1010 \<and>
     proc_entry 0x5000 s' 0x402000 AND PAGING_IS_WRITABLE = 0 \<and> proc_entry 0x5000 s' 0x400000 AND PAGING_IS_WRITABLE \<noteq> 0"
proof -
  let ?m = "\<lambda>a. if in_range 0x1000 256 a then program_image a else mem loaded_procs a"
  let ?f = "zero_elf_file\<lparr>elf_memory_ptr := 0x1000\<rparr>"
  let ?c = "proc_chunk 0x5000 loaded_procs"
  obtain A where A: "proc_mem_ok 0x5000 loaded_procs A" by (rule loaded_procs_ok)
  have low: "\<not> table_byte boot_heap a" "\<not> pool_byte boot_heap a" if "in_range 0x1000 256 a" for a
    using that in_range_nat[of "0x1000" 256 a] by (simp_all add: boot_ranges)
  have pool: "\<not> in_range q 4096 a" if "in_range 0x1000 256 a" "q \<in> space_pages (mem loaded_procs) ?c" for q a
    using low(2)[OF that(1)] A that kpages.live_pool[of loaded_procs A q 4096 a]
    by (auto simp: proc_mem_ok_def space_live_def)
  have same: "?m a = mem loaded_procs a" if "table_byte boot_heap a \<or> (\<exists>q \<in> space_pages (mem loaded_procs) ?c. in_range q 4096 a)" for a
    using that low pool by auto
  have live: "live_regions loaded_procs A" "kernel_heap loaded_procs = boot_heap" "space_live loaded_procs A ?c"
    using A by (simp_all add: proc_mem_ok_def)
  have "\<forall>q \<in> space_pages (mem loaded_procs) ?c. \<forall>a. in_range q 4096 a \<longrightarrow> ?m a = mem loaded_procs a"
    using same by blast
  note c = space_cong(3,4)[OF this]
  have p: "procs elf_procs 0x5000 = (procs loaded_procs 0x5000)\<lparr>pr_filetype := PROCESS_FILE_TYPE_ELF, pr_stack := 0x3000000\<rparr>"
    "tasks elf_procs = tasks loaded_procs" "mem elf_procs = ?m" "elf_files elf_procs x = ?f" for x
    by (simp_all add: elf_procs_def)
  have chunk: "proc_chunk 0x5000 elf_procs = ?c" by (simp add: p)
  have l: "live_regions (loaded_procs\<lparr>mem := ?m\<rparr>) A"
    by (rule live_regions_mem(1)[OF live(1)]) (use same live(2) in auto)
  then have l: "live_regions elf_procs A" by (simp add: elf_procs_def live_regions_def kheap_ok_def)
  have sp: "space_live elf_procs A (proc_chunk 0x5000 elf_procs)"
    unfolding chunk using live(3) c by (simp add: space_live_def p(3))
  have ph: "elf_pheader (mem elf_procs) 0x1000 = 0x1034" "elf_has_program_header (elf32_header_at (mem elf_procs) 0x1000)"
    by (simp_all add: elf_pheader_def elf_has_program_header_def elf_procs_image)
  have c2: "j = 0 \<or> j = 1" if "j \<in> {0..<2}" for j :: nat using that by auto
  have img: "in_range 0x1000 256 a" if "in_range (0x1034 + 32 * of_nat j) 32 a" "j \<in> {0..<2}" for j and a :: addr
    using that(1) c2[OF that(2)] in_range_nat[of "0x1034" 32 a] in_range_nat[of "0x1054" 32 a] in_range_nat[of "0x1000" 256 a]
    by auto
  have seg: "segments_ok ?f (mem elf_procs) (proc_chunk 0x5000 elf_procs) 0x1034 0 2"
    unfolding segments_ok_def
  proof (intro ballI conjI allI impI)
    fix j :: nat assume "j \<in> {0..<2}"
    from c2[OF this] show "segment_ok ?f (elf32_phdr_at (mem elf_procs) (0x1034 + 32 * of_nat j))"
      by (elim disjE) (simp_all add: elf_procs_image segment_ok_def sample_phdr_def elf_phdr_phys_address_def elf_memory_def)
  next
    fix j a q
    assume j: "j \<in> {0..<2}" "in_range (0x1034 + 32 * of_nat j) 32 a"
      and q: "q \<in> space_pages (mem elf_procs) (proc_chunk 0x5000 elf_procs)"
    show "\<not> in_range q 4096 a"
      by (rule pool[OF img[OF j(2,1)] q[unfolded chunk p(3) c(1)]])
  next
    fix j k :: nat assume j: "j \<in> {0..<2}" "k \<in> {0..<2}" "j \<noteq> k"
    from c2[OF j(1)] c2[OF j(2)] j(3) show "segment_pages ?f (elf32_phdr_at (mem elf_procs) (0x1034 + 32 * of_nat j)) \<inter>
       segment_pages ?f (elf32_phdr_at (mem elf_procs) (0x1034 + 32 * of_nat k)) = {}"
      by (elim disjE) (simp_all add: elf_procs_image lessThan_Suc segment_pages_def segment_count_def sample_phdr_def
          elf_phdr_phys_address_def elf_memory_def paging_align_to_lower_page_def blocks_for_def)
  qed
  have n: "2 = unat (e_phnum (elf32_header_at (mem elf_procs) (elf_memory_ptr ?f)))" by (simp add: elf_procs_image)
  have phs: "elf_phdrs (mem elf_procs) 0x1000 =
      [(sample_phdr 0x402000 0x10)\<lparr>p_memsz := 0x20\<rparr>, (sample_phdr 0x400000 0x80)\<lparr>p_memsz := 0x80, p_flags := 2\<rparr>]"
  proof -
    have u: "[0..<2] = [0, Suc 0]" by (simp add: upt_conv_Cons)
    show ?thesis using ph by (simp add: elf_phdrs_def elf_procs_image elf_program_header_def u)
  qed
  have al: "page_aligned (pr_stack (procs elf_procs 0x5000))" "unat (pr_stack (procs elf_procs 0x5000)) < 0x7400000"
    "pr_filetype (procs elf_procs 0x5000) = PROCESS_FILE_TYPE_ELF" by (simp_all add: p)
  have f: "?f = elf_files elf_procs (pr_ptr (procs elf_procs 0x5000))" by (simp add: p)
  have "elf_has_program_header (elf32_header_at (mem elf_procs) (elf_memory_ptr ?f))"
    "segments_ok ?f (mem elf_procs) (proc_chunk 0x5000 elf_procs) (elf_pheader (mem elf_procs) (elf_memory_ptr ?f)) 0 2"
    using ph seg by simp_all
  from process_map_memory_elf[OF l sp al(3) f this(1) n this(2) al(1,2)] obtain s' where
    s': "process_map_memory 0x5000 elf_procs = Some (0, s')"
    "\<And>ph b. ph \<in> set (elf_phdrs (mem elf_procs) 0x1000) \<Longrightarrow> unat b < unat (p_memsz ph) \<Longrightarrow>
       task_virtual_address_to_physical (pr_task (procs elf_procs 0x5000)) (p_vaddr ph + b) s' = elf_phdr_phys_address ?f ph + b \<and>
       (proc_entry 0x5000 s' (paging_align_to_lower_page (p_vaddr ph + b)) AND PAGING_IS_WRITABLE \<noteq> 0 \<longleftrightarrow> p_flags ph AND PF_W \<noteq> 0)"
    by auto
  from s'(2)[of "(sample_phdr 0x402000 0x10)\<lparr>p_memsz := 0x20\<rparr>" "0x10"]
    s'(2)[of "(sample_phdr 0x402000 0x10)\<lparr>p_memsz := 0x20\<rparr>" 0]
    s'(2)[of "(sample_phdr 0x400000 0x80)\<lparr>p_memsz := 0x80, p_flags := 2\<rparr>" 0] phs
  show ?thesis
    by (intro exI[of _ s']) (simp add: s'(1) sample_phdr_def elf_phdr_phys_address_def elf_memory_def
        paging_align_to_lower_page_def p)
qed

end
