(* ===== verification/Boi_Idt.thy ===== *)
theory Boi_Idt
  imports Boi_Process Boi_Terminal Boi_Pit
begin

text \<open>
  Interrupts (\<^verbatim>\<open>src/src/idt/idt.c\<close>): the descriptor table, the callbacks of the
  interrupts and the table of system commands, and the state of the kernel as a whole.
  The handlers that run the callbacks and commands are in \<^verbatim>\<open>Boi_Isr80h\<close>, after the
  components they call.
\<close>

subsection \<open>State of the kernel\<close>

abbreviation BOIOS_TOTAL_INTERRUPTS :: nat where "BOIOS_TOTAL_INTERRUPTS \<equiv> 512"
abbreviation BOIOS_MAX_ISR80H_COMMANDS :: nat where "BOIOS_MAX_ISR80H_COMMANDS \<equiv> 1024"
abbreviation KERNEL_CODE_SELECTOR :: u16 where "KERNEL_CODE_SELECTOR \<equiv> 8"

record idt_desc =
  offset_1 :: u16
  selector :: u16
  zero_byte :: u8
  type_attr :: u8
  offset_2 :: u16

text \<open>The functions the code registers as callbacks and as commands.\<close>

datatype interrupt_callback =
    Idt_handle_exception | Pit_callback | Classic_keyboard_handle_interrupt

datatype isr80h_command =
    Command0_sum | Command1_print | Command2_get_key | Command3_putchar | Command4_malloc
  | Command5_free | Command6_process_load_start | Command7_invoke_system_command
  | Command8_get_program_arguments | Command9_exit | Command10_open_file | Command11_sleep
  | Command12_clr_terminal

datatype keyboard_init_function = Classic_keyboard_init

datatype capslock_state = KEYBOARD_CAPS_LOCK_OFF | KEYBOARD_CAPS_LOCK_ON

record keyboard =
  kbd_init :: "keyboard_init_function option"
  kbd_name :: string
  kbd_next :: addr
  kbd_capslock_state :: capslock_state

text \<open>
  The timer's log of \<^verbatim>\<open>outb\<close> calls is the log of the kernel.
\<close>

record kernel_state = process_state +
  idt_descriptors :: "idt_desc list"
  interrupt_callbacks :: "interrupt_callback option list"
  isr80h_commands :: "isr80h_command option list"
  keyboards :: "addr \<Rightarrow> keyboard"
  keyboard_list_head :: addr
  keyboard_list_tail :: addr
  screen :: terminal
  timer :: pit

definition port_out :: "nat \<Rightarrow> u8 \<Rightarrow> 'z kernel_state_scheme \<Rightarrow> 'z kernel_state_scheme" where
  "port_out port v s = s\<lparr>timer := outb port v (timer s)\<rparr>"

text \<open>
  What a call of a handler comes to: it returns a value, it leaves the kernel for user
  mode, or it never returns, as after a panic.
\<close>

datatype 's outcome = Returns u32 's | User_mode 's | Stops

subsection \<open>The descriptor table\<close>

definition zero_desc :: idt_desc where
  "zero_desc = \<lparr>offset_1 = 0, selector = 0, zero_byte = 0, type_attr = 0, offset_2 = 0\<rparr>"

definition idt_set :: "nat \<Rightarrow> addr \<Rightarrow> 'z kernel_state_scheme \<Rightarrow> 'z kernel_state_scheme" where
  "idt_set interrupt_no address s =
     s\<lparr>idt_descriptors := (idt_descriptors s)[interrupt_no :=
       \<lparr>offset_1 = ucast (address AND 0xFFFF), selector = KERNEL_CODE_SELECTOR, zero_byte = 0,
        type_attr = 0xEE, offset_2 = ucast (drop_bit 16 address)\<rparr>]\<rparr>"

definition idt_register_interrupt_callback ::
    "int \<Rightarrow> interrupt_callback \<Rightarrow> 'z kernel_state_scheme \<Rightarrow> int \<times> 'z kernel_state_scheme" where
  "idt_register_interrupt_callback interrupt f s =
     (if interrupt < 0 \<or> interrupt \<ge> int BOIOS_TOTAL_INTERRUPTS then (- errno EINVARG, s)
      else (0, s\<lparr>interrupt_callbacks := (interrupt_callbacks s)[nat interrupt := Some f]\<rparr>))"

definition idt_unregister_interrupt_callback ::
    "int \<Rightarrow> 'z kernel_state_scheme \<Rightarrow> int \<times> 'z kernel_state_scheme" where
  "idt_unregister_interrupt_callback interrupt s =
     (if interrupt < 0 \<or> interrupt \<ge> int BOIOS_TOTAL_INTERRUPTS then (- errno EINVARG, s)
      else (0, s\<lparr>interrupt_callbacks := (interrupt_callbacks s)[nat interrupt := None]\<rparr>))"

text \<open>
  The table of the assembly entry points is the parameter \<open>interrupt_pointer_table\<close>;
  \<open>idt_zero_addr\<close> and \<open>isr80h_wrapper\<close> are addresses of code.
\<close>

definition idt_init :: "addr list \<Rightarrow> addr \<Rightarrow> addr \<Rightarrow> 'z kernel_state_scheme \<Rightarrow> 'z kernel_state_scheme" where
  "idt_init interrupt_pointer_table idt_zero_addr isr80h_wrapper s =
     (let s = s\<lparr>idt_descriptors := replicate BOIOS_TOTAL_INTERRUPTS zero_desc\<rparr>;
          s = foldl (\<lambda>s i. idt_set i (interrupt_pointer_table ! i) s) s [0..<BOIOS_TOTAL_INTERRUPTS];
          s = idt_set 0 idt_zero_addr s;
          s = idt_set 0x80 isr80h_wrapper s;
          s = foldl (\<lambda>s i. snd (idt_register_interrupt_callback (int i) Idt_handle_exception s)) s [0..<0x20]
      in snd (idt_register_interrupt_callback 0x20 Pit_callback s))"

definition no_interrupt_handler :: "'z kernel_state_scheme \<Rightarrow> 'z kernel_state_scheme" where
  "no_interrupt_handler s = port_out 0x20 0x20 s"

subsection \<open>Printing\<close>

text \<open>\<open>None\<close>: the scan for the end of the string does not stop.\<close>

definition kernel_print :: "addr \<Rightarrow> 'z kernel_state_scheme \<Rightarrow> 'z kernel_state_scheme option" where
  "kernel_print str s =
     map_option (\<lambda>(m, t). s\<lparr>mem := m, screen := t\<rparr>) (print (mem s, screen s) str)"

definition idt_zero :: "addr \<Rightarrow> 'z kernel_state_scheme \<Rightarrow> 'z kernel_state_scheme option" where
  "idt_zero msg s = kernel_print msg (port_out 0x20 0x20 s)"

definition idt_clock :: "addr \<Rightarrow> 'z kernel_state_scheme \<Rightarrow> 'z kernel_state_scheme option" where
  "idt_clock msg s = kernel_print msg (port_out 0x20 0x20 s)"

subsection \<open>System commands\<close>

text \<open>An id out of range or already taken panics: \<open>None\<close>.\<close>

definition isr80h_register_command ::
    "int \<Rightarrow> isr80h_command \<Rightarrow> 'z kernel_state_scheme \<Rightarrow> 'z kernel_state_scheme option" where
  "isr80h_register_command command_id command s =
     (if command_id < 0 \<or> command_id \<ge> int BOIOS_MAX_ISR80H_COMMANDS then None
      else if isr80h_commands s ! nat command_id \<noteq> None then None
      else Some (s\<lparr>isr80h_commands := (isr80h_commands s)[nat command_id := Some command]\<rparr>))"

definition isr80h_register_commands :: "'z kernel_state_scheme \<Rightarrow> 'z kernel_state_scheme option" where
  "isr80h_register_commands s =
     do {
       s \<leftarrow> isr80h_register_command 0 Command0_sum s;
       s \<leftarrow> isr80h_register_command 1 Command1_print s;
       s \<leftarrow> isr80h_register_command 2 Command2_get_key s;
       s \<leftarrow> isr80h_register_command 3 Command3_putchar s;
       s \<leftarrow> isr80h_register_command 4 Command4_malloc s;
       s \<leftarrow> isr80h_register_command 5 Command5_free s;
       s \<leftarrow> isr80h_register_command 6 Command6_process_load_start s;
       s \<leftarrow> isr80h_register_command 7 Command7_invoke_system_command s;
       s \<leftarrow> isr80h_register_command 8 Command8_get_program_arguments s;
       s \<leftarrow> isr80h_register_command 9 Command9_exit s;
       s \<leftarrow> isr80h_register_command 10 Command10_open_file s;
       s \<leftarrow> isr80h_register_command 11 Command11_sleep s;
       isr80h_register_command 12 Command12_clr_terminal s
     }"

subsection \<open>What the processor reads\<close>

text \<open>The handler address of a gate.\<close>

definition gate_address :: "idt_desc \<Rightarrow> addr" where
  "gate_address d = ucast (offset_1 d) OR push_bit 16 (ucast (offset_2 d))"

lemma gate_address_set:
  "gate_address \<lparr>offset_1 = ucast (a AND 0xFFFF), selector = x, zero_byte = y, type_attr = z,
     offset_2 = ucast (drop_bit 16 a)\<rparr> = a"
proof -
  have "(ucast (ucast (a AND 0xFFFF) :: u16) :: addr) OR push_bit 16 (ucast (ucast (drop_bit 16 a) :: u16)) = a"
  proof (rule bit_word_eqI)
    fix n
    assume n: "n < LENGTH(32)"
    have m: "a AND 0xFFFF = take_bit 16 a" by (simp add: take_bit_eq_mask mask_eq_exp_minus_1)
    from n consider "n < 16" | "16 \<le> n" "n < 32" by fastforce
    then show "bit ((ucast (ucast (a AND 0xFFFF) :: u16) :: addr) OR push_bit 16 (ucast (ucast (drop_bit 16 a) :: u16))) n = bit a n"
      unfolding m by cases (auto simp: bit_simps)
  qed
  then show ?thesis by (simp add: gate_address_def)
qed

definition gate :: "addr \<Rightarrow> idt_desc" where
  "gate a = \<lparr>offset_1 = ucast (a AND 0xFFFF), selector = KERNEL_CODE_SELECTOR, zero_byte = 0,
     type_attr = 0xEE, offset_2 = ucast (drop_bit 16 a)\<rparr>"

lemma gate_fields: "gate_address (gate a) = a" "selector (gate a) = 8" "type_attr (gate a) = 0xEE"
  by (simp_all add: gate_def gate_address_set)

lemma idt_set_gate: "idt_set i a s = s\<lparr>idt_descriptors := (idt_descriptors s)[i := gate a]\<rparr>"
  by (simp add: idt_set_def gate_def)

lemma idt_set_fold:
  "foldl (\<lambda>s i. idt_set i (f i) s) s is =
     s\<lparr>idt_descriptors := foldl (\<lambda>ds i. ds[i := gate (f i)]) (idt_descriptors s) is\<rparr>"
  by (induction "is" arbitrary: s) (simp_all add: idt_set_gate)

lemma foldl_update_nth:
  "n \<le> length xs \<Longrightarrow>
     length (foldl (\<lambda>xs i. xs[i := f i]) xs [0..<n]) = length xs \<and>
     (\<forall>i < length xs. foldl (\<lambda>xs i. xs[i := f i]) xs [0..<n] ! i = (if i < n then f i else xs ! i))"
  by (induction n) (auto simp: nth_list_update)

lemma callbacks_fold:
  "n \<le> 512 \<Longrightarrow> foldl (\<lambda>s i. snd (idt_register_interrupt_callback (int i) f s)) s [0..<n] =
     s\<lparr>interrupt_callbacks := foldl (\<lambda>xs i. xs[i := Some f]) (interrupt_callbacks s) [0..<n]\<rparr>"
  by (induction n) (auto simp: idt_register_interrupt_callback_def)

subsection \<open>Properties\<close>

text \<open>
  The state of a kernel that has only its tables and its heap yet.
\<close>

definition blank_kernel :: kernel_state where
  "blank_kernel = \<lparr>mem = \<lambda>_. 0, kernel_heap = boot_heap, current_directory = 0, cr3 = 0,
     disk_ports = \<lparr>sent = [], status_reads = 0\<rparr>, streams = sample_streams,
     the_disk = \<lparr>disk_type = 0, sector_size = 512, disk_id = 0, filesystem = 0x9000, fs_private = 9\<rparr>,
     privates = \<lambda>_. sample_private, dir_items = \<lambda>_. [sample_item],
     directories = \<lambda>_. zero_directory, fat_items = \<lambda>_. \<lparr>item_ptr = 0, item_type = 0\<rparr>,
     descriptors = \<lambda>_. \<lparr>desc_item = 0, desc_position = 0\<rparr>, fat16_name = [],
     filesystems = 0x9000 # replicate 11 0, file_descriptors = replicate 512 0,
     file_descs = \<lambda>_. \<lparr>fd_index = 0, fd_filesystem = 0, fd_private = 0, fd_disk = None\<rparr>,
     elf_files = \<lambda>_. zero_elf_file, tasks = \<lambda>_. zero_task, procs = \<lambda>_. zero_process,
     current_task = 0, task_tail = 0, task_head = 0, kernel_chunk = 0, user_mode = None,
     current_process = 0, processes = replicate 12 0, idt_descriptors = replicate 512 zero_desc,
     interrupt_callbacks = replicate 512 None, isr80h_commands = replicate 1024 None,
     keyboards = \<lambda>_. \<lparr>kbd_init = Some Classic_keyboard_init, kbd_name = ''classic'', kbd_next = 0,
       kbd_capslock_state = KEYBOARD_CAPS_LOCK_OFF\<rparr>,
     keyboard_list_head = 0, keyboard_list_tail = 0,
     screen = \<lparr>video_mem = 0xB8000, terminal_row = 0, terminal_col = 0\<rparr>,
     timer = \<lparr>time_in_millis = 1, ticks = 0, port_log = []\<rparr>\<rparr>"

lemma idt_init_eq:
  "idt_init tbl z w s =
     s\<lparr>idt_descriptors := (foldl (\<lambda>ds i. ds[i := gate (tbl ! i)]) (replicate 512 zero_desc) [0..<512])
         [0 := gate z, 0x80 := gate w],
       interrupt_callbacks := (foldl (\<lambda>xs i. xs[i := Some Idt_handle_exception]) (interrupt_callbacks s) [0..<0x20])
         [0x20 := Some Pit_callback]\<rparr>"
  unfolding idt_init_def Let_def idt_set_fold
  unfolding idt_set_gate
  by (subst callbacks_fold) (simp_all add: idt_register_interrupt_callback_def)

text \<open>
  after \<^verbatim>\<open>idt_init\<close> every gate leads to its handler: the processor assembles the
  address of \<^verbatim>\<open>idt_zero\<close> from gate 0, of the system call wrapper from gate 0x80 and
  of the entry of the table from every other one, in the kernel's code segment and open to user
  mode.  The 32 exceptions terminate the process, interrupt 0x20 is the timer, and
  the other callbacks are kept.
\<close>

theorem idt_init_gates:
  assumes "length (interrupt_callbacks s) = 512" "i < 512"
  shows "gate_address (idt_descriptors (idt_init tbl z w s) ! i) =
      (if i = 0x80 then w else if i = 0 then z else tbl ! i) \<and>
    selector (idt_descriptors (idt_init tbl z w s) ! i) = 8 \<and>
    type_attr (idt_descriptors (idt_init tbl z w s) ! i) = 0xEE \<and>
    interrupt_callbacks (idt_init tbl z w s) ! i =
      (if i < 0x20 then Some Idt_handle_exception else if i = 0x20 then Some Pit_callback
       else interrupt_callbacks s ! i)"
proof -
  note ds = foldl_update_nth[of 512 "replicate 512 zero_desc" "\<lambda>i. gate (tbl ! i)"]
  note cs = foldl_update_nth[of 32 "interrupt_callbacks s" "\<lambda>_. Some Idt_handle_exception"]
  have len: "32 \<le> length (interrupt_callbacks s)" using assms(1) by simp
  have "idt_descriptors (idt_init tbl z w s) ! i = gate (if i = 0x80 then w else if i = 0 then z else tbl ! i)"
    using ds assms(2) unfolding idt_init_eq by (simp add: nth_list_update)
  moreover have "interrupt_callbacks (idt_init tbl z w s) ! i =
      (if i < 0x20 then Some Idt_handle_exception else if i = 0x20 then Some Pit_callback
       else interrupt_callbacks s ! i)"
    using cs[OF len] assms unfolding idt_init_eq by (simp add: nth_list_update)
  ultimately show ?thesis by (simp only: gate_fields)
qed

theorem idt_init_gates_witness:
  "gate_address (idt_descriptors (idt_init (replicate 512 0x100000) 0x200000 0x300ABC blank_kernel) ! 0x80) = 0x300ABC \<and>
   interrupt_callbacks (idt_init (replicate 512 0x100000) 0x200000 0x300ABC blank_kernel) ! 0xE = Some Idt_handle_exception"
  using idt_init_gates[of blank_kernel "0x80" "replicate 512 0x100000" "0x200000" "0x300ABC"]
    idt_init_gates[of blank_kernel "0xE" "replicate 512 0x100000" "0x200000" "0x300ABC"]
  by (simp add: blank_kernel_def)

text \<open>The table of commands after registration.\<close>

definition system_commands :: "isr80h_command list" where
  "system_commands = [Command0_sum, Command1_print, Command2_get_key, Command3_putchar, Command4_malloc,
     Command5_free, Command6_process_load_start, Command7_invoke_system_command,
     Command8_get_program_arguments, Command9_exit, Command10_open_file, Command11_sleep,
     Command12_clr_terminal]"

lemma register_commands_table:
  assumes "isr80h_commands s = replicate 1024 None"
  shows "isr80h_register_commands s =
     Some (s\<lparr>isr80h_commands := map Some system_commands @ replicate 1011 None\<rparr>)"
proof -
  have "isr80h_commands s = replicate 13 None @ replicate 1011 None"
    unfolding assms replicate_add[symmetric] by simp
  then have "isr80h_commands s = [None, None, None, None, None, None, None, None, None, None, None, None, None]
      @ replicate 1011 None" by (simp add: numeral_eq_Suc)
  then show ?thesis
    by (simp add: isr80h_register_commands_def isr80h_register_command_def nth_append list_update_append
        system_commands_def)
qed

end
