(* ===== verification/Boi_Keyboard.thy ===== *)
theory Boi_Keyboard
  imports Boi_Idt
begin

text \<open>
  The keyboard (\<^verbatim>\<open>src/src/keyboard/keyboard.c\<close>, \<^verbatim>\<open>classic.c\<close>): the list of keyboards, the
  ring buffer of typed characters of each process, and the interrupt handler that
  turns scancodes into characters.
\<close>

subsection \<open>Keyboards\<close>

definition keyboard_set_capslock :: "addr \<Rightarrow> capslock_state \<Rightarrow> 'z kernel_state_scheme \<Rightarrow> 'z kernel_state_scheme" where
  "keyboard_set_capslock kbd st s =
     s\<lparr>keyboards := (keyboards s)(kbd := (keyboards s kbd)\<lparr>kbd_capslock_state := st\<rparr>)\<rparr>"

definition keyboard_get_capslock :: "addr \<Rightarrow> 'z kernel_state_scheme \<Rightarrow> capslock_state" where
  "keyboard_get_capslock kbd s = kbd_capslock_state (keyboards s kbd)"

abbreviation ISR_KEYBOARD_INTERRUPT :: int where "ISR_KEYBOARD_INTERRUPT \<equiv> 0x21"

text \<open>\<open>classic\<close> is the address of the static \<^verbatim>\<open>classic_keyboard\<close>.\<close>

definition classic_keyboard :: keyboard where
  "classic_keyboard = \<lparr>kbd_init = Some Classic_keyboard_init, kbd_name = ''classic'', kbd_next = 0,
     kbd_capslock_state = KEYBOARD_CAPS_LOCK_OFF\<rparr>"

definition classic_keyboard_init :: "addr \<Rightarrow> 'z kernel_state_scheme \<Rightarrow> int \<times> 'z kernel_state_scheme" where
  "classic_keyboard_init classic s =
     (let s = snd (idt_register_interrupt_callback ISR_KEYBOARD_INTERRUPT Classic_keyboard_handle_interrupt s);
          s = keyboard_set_capslock classic KEYBOARD_CAPS_LOCK_OFF s
      in (0, port_out 0x64 0xAE s))"

definition classic_init :: "addr \<Rightarrow> addr" where
  "classic_init classic = classic"

fun run_keyboard_init ::
    "keyboard_init_function \<Rightarrow> addr \<Rightarrow> 'z kernel_state_scheme \<Rightarrow> int \<times> 'z kernel_state_scheme" where
  "run_keyboard_init Classic_keyboard_init classic s = classic_keyboard_init classic s"

definition keyboard_insert :: "addr \<Rightarrow> addr \<Rightarrow> 'z kernel_state_scheme \<Rightarrow> int \<times> 'z kernel_state_scheme" where
  "keyboard_insert classic kbd s =
     (case kbd_init (keyboards s kbd) of
        None \<Rightarrow> (- errno EINVARG, s)
      | Some f \<Rightarrow>
          let s = (if keyboard_list_tail s \<noteq> 0
                   then s\<lparr>keyboards := (keyboards s)(keyboard_list_tail s :=
                            (keyboards s (keyboard_list_tail s))\<lparr>kbd_next := kbd\<rparr>), keyboard_list_tail := kbd\<rparr>
                   else s\<lparr>keyboard_list_head := kbd, keyboard_list_tail := kbd\<rparr>)
          in run_keyboard_init f classic s)"

definition keyboard_init :: "addr \<Rightarrow> 'z kernel_state_scheme \<Rightarrow> 'z kernel_state_scheme" where
  "keyboard_init classic s = snd (keyboard_insert classic (classic_init classic) s)"

subsection \<open>The buffer of a process\<close>

text \<open>
  The positions are \<^verbatim>\<open>int\<close>s; \<^verbatim>\<open>sizeof\<close> makes the remainder unsigned, so they are kept as
  32-bit words.
\<close>

definition keyboard_get_tail_index :: "addr \<Rightarrow> 'z process_state_scheme \<Rightarrow> nat" where
  "keyboard_get_tail_index process s =
     unat (kb_tail (pr_keyboard (procs s process)) mod of_nat BOIOS_KEYBOARD_BUFFER_SIZE)"

definition keyboard_push :: "u8 \<Rightarrow> 'z process_state_scheme \<Rightarrow> 'z process_state_scheme" where
  "keyboard_push c s =
     (let process = process_current s
      in if process = 0 then s
         else if c = 0 then s
         else
           let real_index = keyboard_get_tail_index process s
           in upd_proc process (\<lambda>p. p\<lparr>pr_keyboard := (pr_keyboard p)\<lparr>
                kb_buffer := (kb_buffer (pr_keyboard p))[real_index := c],
                kb_tail := kb_tail (pr_keyboard p) + 1\<rparr>\<rparr>) s)"

definition keyboard_pop :: "'z process_state_scheme \<Rightarrow> u8 \<times> 'z process_state_scheme" where
  "keyboard_pop s =
     (if task_current s = 0 then (0, s)
      else
        let process = t_process (tasks s (task_current s));
            k = pr_keyboard (procs s process);
            real_index = unat (kb_head k mod of_nat BOIOS_KEYBOARD_BUFFER_SIZE);
            c = kb_buffer k ! real_index
        in if c = 0 then (0, s)
           else (c, upd_proc process (\<lambda>p. p\<lparr>pr_keyboard := (pr_keyboard p)\<lparr>
                  kb_buffer := (kb_buffer (pr_keyboard p))[real_index := 0],
                  kb_head := kb_head (pr_keyboard p) + 1\<rparr>\<rparr>) s))"

definition keyboard_backspace :: "addr \<Rightarrow> 'z process_state_scheme \<Rightarrow> 'z process_state_scheme" where
  "keyboard_backspace process s =
     (let s = upd_proc process (\<lambda>p. p\<lparr>pr_keyboard := (pr_keyboard p)\<lparr>kb_tail := kb_tail (pr_keyboard p) - 1\<rparr>\<rparr>) s;
          real_index = keyboard_get_tail_index process s
      in upd_proc process (\<lambda>p. p\<lparr>pr_keyboard := (pr_keyboard p)\<lparr>
           kb_buffer := (kb_buffer (pr_keyboard p))[real_index := 0]\<rparr>\<rparr>) s)"

subsection \<open>Scancodes\<close>

definition keyboard_scan_set_one :: "u8 list" where
  "keyboard_scan_set_one =
     [0x00, 0x1B, 49, 50, 51, 52, 53,
      54, 55, 56, 57, 48, 45, 61,
      0x08, 0x09, 81, 87, 69, 82, 84,
      89, 85, 73, 79, 80, 91, 93,
      0x0D, 0x1E, 65, 83, 68, 70, 71,
      72, 74, 75, 76, 59, 39, 96,
      0x1E, 92, 90, 88, 67, 86, 66,
      78, 77, 44, 46, 47, 0x1E, 42,
      0x1E, 0x20, 0x00, 0x1E, 0x1E, 0x1E, 0x1E,
      0x1E, 0x1E, 0x1E, 0x1E, 0x1E, 0x1E, 0x1E,
      0x1E, 55, 56, 57, 45, 52, 53,
      54, 43, 49, 50, 51, 48, 46]"

text \<open>
  The bound lets one scancode past the end through; \<open>past\<close> is the byte behind the table.
\<close>

definition classic_keyboard_scancode_to_char :: "addr \<Rightarrow> u8 \<Rightarrow> u8 \<Rightarrow> 'z kernel_state_scheme \<Rightarrow> u8" where
  "classic_keyboard_scancode_to_char classic past scancode s =
     (if unat scancode > length keyboard_scan_set_one then 0
      else
        let c = (keyboard_scan_set_one @ [past]) ! unat scancode
        in if keyboard_get_capslock classic s = KEYBOARD_CAPS_LOCK_OFF \<and> 65 \<le> c \<and> c \<le> 90 then c + 32 else c)"

text \<open>\<open>scancode\<close> is what \<^verbatim>\<open>insb\<close> reads; the second byte it reads is dropped.\<close>

definition classic_keyboard_handle_interrupt ::
    "addr \<Rightarrow> u8 \<Rightarrow> u8 \<Rightarrow> 'z kernel_state_scheme \<Rightarrow> 'z kernel_state_scheme" where
  "classic_keyboard_handle_interrupt classic past scancode s =
     (let s = kernel_page s
      in if scancode AND 0x80 \<noteq> 0 then task_page s
         else
           let s = (if scancode = 0x3A
                    then keyboard_set_capslock classic
                      (if keyboard_get_capslock classic s = KEYBOARD_CAPS_LOCK_ON then KEYBOARD_CAPS_LOCK_OFF
                       else KEYBOARD_CAPS_LOCK_ON) s
                    else s);
               character = classic_keyboard_scancode_to_char classic past scancode s;
               s = (if character \<noteq> 0 then keyboard_push character s else s)
           in task_page s)"

subsection \<open>The buffer as a queue\<close>

definition kb_queue :: "keyboard_buffer \<Rightarrow> u8 list \<Rightarrow> bool" where
  "kb_queue k q \<longleftrightarrow> length (kb_buffer k) = 1024 \<and> length q \<le> 1024 \<and> 0 \<notin> set q \<and>
     kb_tail k = kb_head k + of_nat (length q) \<and>
     (\<forall>i < 1024. kb_buffer k ! ((unat (kb_head k) + i) mod 1024) = (if i < length q then q ! i else 0))"

lemma index_1024: "unat (x mod 1024 :: u32) = unat x mod 1024"
  by (simp add: unat_mod)

lemma unat_add_1024: "unat (x + of_nat n :: u32) mod 1024 = (unat x + n) mod 1024"
proof -
  have "unat (x + of_nat n) = (unat x + n) mod 4294967296"
    by (simp add: unat_word_ariths mod_simps unsigned_of_nat take_bit_eq_mod)
  moreover have "k mod 4294967296 mod 1024 = k mod 1024" for k :: nat by (rule mod_mod_cancel) simp
  ultimately show ?thesis by simp
qed

lemma ring_index_inj:
  assumes "i < 1024" "j < 1024" "(h + i) mod 1024 = (h + j) mod (1024 :: nat)"
  shows "i = j"
proof -
  have "i mod 1024 = j mod 1024" using assms(3) by (simp add: nat_mod_eq_iff)
  then show ?thesis using assms(1,2) by simp
qed

lemma kb_queue_push:
  assumes "kb_queue k q" "length q < 1024" "c \<noteq> 0"
  shows "kb_queue (k\<lparr>kb_buffer := (kb_buffer k)[unat (kb_tail k mod 1024) := c], kb_tail := kb_tail k + 1\<rparr>) (q @ [c])"
proof -
  let ?h = "unat (kb_head k)"
  have t: "unat (kb_tail k mod 1024) = (?h + length q) mod 1024"
    using assms(1) unat_add_1024[of "kb_head k" "length q"] by (simp add: kb_queue_def index_1024)
  have "((kb_buffer k)[(?h + length q) mod 1024 := c]) ! ((?h + i) mod 1024) =
      (if i < Suc (length q) then (q @ [c]) ! i else 0)" if "i < 1024" for i
  proof (cases "i = length q")
    case False
    then have "(?h + length q) mod 1024 \<noteq> (?h + i) mod 1024"
      using ring_index_inj[OF that assms(2), of ?h] by auto
    then show ?thesis using assms(1) that False by (auto simp: kb_queue_def nth_append)
  qed (use assms(1) in \<open>simp add: kb_queue_def\<close>)
  then show ?thesis unfolding t using assms by (simp add: kb_queue_def)
qed

lemma kb_queue_head:
  assumes "kb_queue k q"
  shows "kb_buffer k ! unat (kb_head k mod 1024) = (if q = [] then 0 else hd q)"
proof -
  have "kb_buffer k ! ((unat (kb_head k) + 0) mod 1024) = (if 0 < length q then q ! 0 else 0)"
    using assms unfolding kb_queue_def by fastforce
  then show ?thesis by (cases q) (simp_all add: index_1024)
qed

lemma kb_queue_pop:
  assumes "kb_queue k (c # q)"
  shows "kb_queue (k\<lparr>kb_buffer := (kb_buffer k)[unat (kb_head k mod 1024) := 0], kb_head := kb_head k + 1\<rparr>) q"
proof -
  let ?h = "unat (kb_head k)"
  have idx: "(unat (kb_head k + 1) + i) mod 1024 = (?h + Suc i) mod 1024" for i
  proof -
    have "unat (kb_head k + 1) mod 1024 = (?h + 1) mod 1024" using unat_add_1024[of "kb_head k" 1] by simp
    then have "(unat (kb_head k + 1) + i) mod 1024 = (?h + 1 + i) mod 1024" by (metis mod_add_left_eq)
    then show ?thesis by simp
  qed
  have "((kb_buffer k)[?h mod 1024 := 0]) ! ((?h + Suc i) mod 1024) = (if i < length q then q ! i else 0)"
    if i: "i < 1024" for i
  proof (cases "i = 1023")
    case True
    then have "(?h + Suc i) mod 1024 = ?h mod 1024" by simp
    moreover have "\<not> i < length q" using assms True by (simp add: kb_queue_def)
    ultimately show ?thesis using assms by (simp add: kb_queue_def)
  next
    case False
    then have s: "Suc i < 1024" using i by simp
    then have "(?h + 0) mod 1024 \<noteq> (?h + Suc i) mod 1024"
      using ring_index_inj[of 0 "Suc i" ?h] by auto
    moreover have "kb_buffer k ! ((?h + Suc i) mod 1024) = (if Suc i < length (c # q) then (c # q) ! Suc i else 0)"
      using assms s unfolding kb_queue_def by blast
    ultimately show ?thesis by simp
  qed
  then show ?thesis using assms by (simp add: kb_queue_def idx index_1024)
qed

lemma kb_queue_backspace:
  assumes "kb_queue k (q @ [c])"
  shows "kb_queue (k\<lparr>kb_tail := kb_tail k - 1, kb_buffer := (kb_buffer k)[unat ((kb_tail k - 1) mod 1024) := 0]\<rparr>) q"
proof -
  let ?h = "unat (kb_head k)"
  have n: "length q < 1024" using assms by (simp add: kb_queue_def)
  have tl: "kb_tail k - 1 = kb_head k + of_nat (length q)" using assms by (simp add: kb_queue_def)
  then have t: "unat ((kb_tail k - 1) mod 1024) = (?h + length q) mod 1024"
    using unat_add_1024[of "kb_head k" "length q"] by (simp add: index_1024)
  have "((kb_buffer k)[(?h + length q) mod 1024 := 0]) ! ((?h + i) mod 1024) =
      (if i < length q then q ! i else 0)" if "i < 1024" for i
  proof (cases "i = length q")
    case False
    then have "(?h + length q) mod 1024 \<noteq> (?h + i) mod 1024"
      using ring_index_inj[OF that n, of ?h] by auto
    then show ?thesis using assms that False by (auto simp: kb_queue_def nth_append)
  qed (use assms in \<open>simp add: kb_queue_def\<close>)
  then show ?thesis unfolding t using assms tl by (simp add: kb_queue_def)
qed

subsection \<open>The interface of a bounded queue\<close>

text \<open>
  What the readers of typed characters rely on: elements come out in the order they
  went in as long as no more than \<open>capacity\<close> of them wait, and reading an empty queue
  gives \<open>none\<close> and changes nothing.
\<close>

datatype 'e queue_event = Push 'e | Pop

fun list_queue :: "'e \<Rightarrow> 'e queue_event list \<Rightarrow> 'e list \<Rightarrow> 'e list \<times> 'e list" where
  "list_queue none [] q = ([], q)"
| "list_queue none (Push e # evs) q = list_queue none evs (q @ [e])"
| "list_queue none (Pop # evs) q =
     (let (out, q') = list_queue none evs (tl q) in ((if q = [] then none else hd q) # out, q'))"

fun run_queue :: "('e \<Rightarrow> 's \<Rightarrow> 's) \<Rightarrow> ('s \<Rightarrow> 'e \<times> 's) \<Rightarrow> 'e queue_event list \<Rightarrow> 's \<Rightarrow> 'e list \<times> 's" where
  "run_queue push pop [] s = ([], s)"
| "run_queue push pop (Push e # evs) s = run_queue push pop evs (push e s)"
| "run_queue push pop (Pop # evs) s =
     (let (e, s) = pop s; (out, s') = run_queue push pop evs s in (e # out, s'))"

text \<open>The events never have more than \<open>cap\<close> elements wait, and push no \<open>none\<close>.\<close>

fun queue_fits :: "'e \<Rightarrow> nat \<Rightarrow> 'e queue_event list \<Rightarrow> nat \<Rightarrow> bool" where
  "queue_fits none cap [] n \<longleftrightarrow> True"
| "queue_fits none cap (Push e # evs) n \<longleftrightarrow> e \<noteq> none \<and> n < cap \<and> queue_fits none cap evs (Suc n)"
| "queue_fits none cap (Pop # evs) n \<longleftrightarrow> queue_fits none cap evs (n - 1)"

locale bounded_queue =
  fixes push :: "'e \<Rightarrow> 's \<Rightarrow> 's"
    and pop :: "'s \<Rightarrow> 'e \<times> 's"
    and holds :: "'s \<Rightarrow> 'e list \<Rightarrow> bool"
    and capacity :: nat
    and none :: 'e
  assumes push_holds: "holds s q \<Longrightarrow> length q < capacity \<Longrightarrow> e \<noteq> none \<Longrightarrow> holds (push e s) (q @ [e])"
    and pop_holds: "holds s (e # q) \<Longrightarrow> fst (pop s) = e \<and> holds (snd (pop s)) q"
    and pop_empty: "holds s [] \<Longrightarrow> pop s = (none, s)"
begin

lemma run_is_list_queue:
  assumes "holds s q" "queue_fits none capacity evs (length q)"
  shows "fst (run_queue push pop evs s) = fst (list_queue none evs q) \<and>
    holds (snd (run_queue push pop evs s)) (snd (list_queue none evs q))"
  using assms
proof (induction evs arbitrary: s q)
  case (Cons ev evs)
  show ?case
  proof (cases ev)
    case (Push e)
    then show ?thesis using Cons.IH[of "push e s" "q @ [e]"] push_holds Cons.prems by simp
  next
    case Pop
    show ?thesis
    proof (cases q)
      case Nil
      then show ?thesis using Cons.IH[of s "[]"] Cons.prems pop_empty[of s] Pop
        by (simp add: case_prod_beta Let_def)
    next
      case (Cons e q')
      then show ?thesis using Cons.IH[of "snd (pop s)" q'] Cons.prems pop_holds[of s e q'] Pop
        by (simp add: case_prod_beta Let_def)
    qed
  qed
qed simp

lemma push_all_holds:
  "holds s q \<Longrightarrow> length q + length es \<le> capacity \<Longrightarrow> none \<notin> set es \<Longrightarrow> holds (fold push es s) (q @ es)"
proof (induction es arbitrary: s q)
  case (Cons e es)
  then have "holds (push e s) (q @ [e])" by (intro push_holds) auto
  from Cons.IH[OF this] Cons.prems show ?case by simp
qed simp

end

text \<open>
  The buffer of process \<open>p\<close> holds the characters \<open>q\<close>: \<open>p\<close> is the current process, which
  is the one typed into, and the process of the current task, which is the one that reads.
\<close>

definition keyboard_holds :: "addr \<Rightarrow> 'z process_state_scheme \<Rightarrow> u8 list \<Rightarrow> bool" where
  "keyboard_holds p s q \<longleftrightarrow> p \<noteq> 0 \<and> process_current s = p \<and> task_current s \<noteq> 0 \<and>
     t_process (tasks s (task_current s)) = p \<and> kb_queue (pr_keyboard (procs s p)) q"

interpretation kbd: bounded_queue keyboard_push keyboard_pop "keyboard_holds p" 1024 0
proof (unfold_locales, goal_cases)
  case (1 s q e)
  then show ?case
    using kb_queue_push[of "pr_keyboard (procs s p)" q e]
    by (simp add: keyboard_holds_def keyboard_push_def keyboard_get_tail_index_def process_current_def
        task_current_def upd_proc_def Let_def)
next
  case (2 s e q)
  then have k: "kb_queue (pr_keyboard (procs s p)) (e # q)" by (simp add: keyboard_holds_def)
  then have "e \<noteq> 0" by (simp add: kb_queue_def)
  then show ?case
    using 2 kb_queue_head[OF k] kb_queue_pop[OF k]
    by (simp add: keyboard_holds_def keyboard_pop_def process_current_def task_current_def upd_proc_def Let_def)
next
  case (3 s)
  then have k: "kb_queue (pr_keyboard (procs s p)) []" by (simp add: keyboard_holds_def)
  then show ?case
    using 3 kb_queue_head[OF k] by (simp add: keyboard_holds_def keyboard_pop_def Let_def)
qed

subsection \<open>Typing\<close>

text \<open>
  The specification of typing: the state of caps lock and the characters that
  a list of scancodes gives.
\<close>

definition key_char :: "capslock_state \<Rightarrow> u8 \<Rightarrow> u8" where
  "key_char caps sc =
     (if unat sc < 84
      then let c = keyboard_scan_set_one ! unat sc in if caps = KEYBOARD_CAPS_LOCK_OFF then tolower c else c
      else 0)"

fun typed :: "capslock_state \<Rightarrow> u8 list \<Rightarrow> capslock_state \<times> u8 list" where
  "typed caps [] = (caps, [])"
| "typed caps (sc # scs) =
     (if sc AND 0x80 \<noteq> 0 then typed caps scs
      else
        let caps = (if sc = 0x3A
              then (if caps = KEYBOARD_CAPS_LOCK_ON then KEYBOARD_CAPS_LOCK_OFF else KEYBOARD_CAPS_LOCK_ON) else caps);
            (caps', cs) = typed caps scs
        in (caps', (if key_char caps sc = 0 then [] else [key_char caps sc]) @ cs))"

lemma keyboard_holds_paging:
  "keyboard_holds p (kernel_page s) q = keyboard_holds p s q"
  "keyboard_holds p (task_page s) q = keyboard_holds p s q"
  "keyboard_holds p (keyboard_set_capslock k st s) q = keyboard_holds p s q"
  "keyboards (kernel_page s) = keyboards s" "keyboards (task_page s) = keyboards s"
  by (simp_all add: keyboard_holds_def kernel_page_def task_page_def task_switch_def paging_switch_def
      process_current_def task_current_def keyboard_set_capslock_def Let_def)

lemma scancode_to_char_eq:
  assumes "sc \<noteq> 84"
  shows "classic_keyboard_scancode_to_char classic past sc s = key_char (keyboard_get_capslock classic s) sc"
proof -
  have n: "unat sc \<noteq> 84"
  proof
    assume "unat sc = 84"
    then have "sc = of_nat 84" by (metis of_nat_unat ucast_id)
    then show False using assms by simp
  qed
  have len: "length keyboard_scan_set_one = 84" by (simp add: keyboard_scan_set_one_def)
  show ?thesis
  proof (cases "unat sc < 84")
    case True
    then have "(keyboard_scan_set_one @ [past]) ! unat sc = keyboard_scan_set_one ! unat sc"
      by (simp add: nth_append len)
    moreover have "tolower c = (if 65 \<le> c \<and> c \<le> 90 then c + 32 else c)" if "c \<in> set keyboard_scan_set_one" for c
      using that by (auto simp: keyboard_scan_set_one_def tolower_def)
    ultimately show ?thesis using True len
      by (auto simp: classic_keyboard_scancode_to_char_def key_char_def Let_def)
  next
    case False
    then show ?thesis using n len by (simp add: classic_keyboard_scancode_to_char_def key_char_def)
  qed
qed

lemma typed_length: "length (snd (typed caps scs)) \<le> length scs"
  by (induction scs arbitrary: caps) (auto simp: Let_def case_prod_beta intro: le_SucI)

lemma typed_run:
  assumes "keyboard_holds p s q" "84 \<notin> set scs" "length q + length (snd (typed (keyboard_get_capslock classic s) scs)) \<le> 1024"
  shows "keyboard_holds p (fold (classic_keyboard_handle_interrupt classic past) scs s)
      (q @ snd (typed (keyboard_get_capslock classic s) scs)) \<and>
    keyboard_get_capslock classic (fold (classic_keyboard_handle_interrupt classic past) scs s) =
      fst (typed (keyboard_get_capslock classic s) scs)"
  using assms
proof (induction scs arbitrary: s q)
  case (Cons sc scs)
  let ?s1 = "kernel_page s"
  have caps1: "keyboard_get_capslock classic ?s1 = keyboard_get_capslock classic s"
    by (simp add: keyboard_get_capslock_def keyboard_holds_paging)
  have page: "keyboard_get_capslock classic (task_page t) = keyboard_get_capslock classic t" for t :: "'a kernel_state_scheme"
    by (simp add: keyboard_get_capslock_def keyboard_holds_paging)
  show ?case
  proof (cases "sc AND 0x80 = 0")
    case False
    then have h: "classic_keyboard_handle_interrupt classic past sc s = task_page ?s1"
      by (simp add: classic_keyboard_handle_interrupt_def Let_def)
    show ?thesis
      using Cons.IH[of "task_page ?s1" q] Cons.prems False by (simp add: h keyboard_holds_paging page caps1)
  next
    case True
    define caps where "caps = (if sc = 0x3A
      then (if keyboard_get_capslock classic s = KEYBOARD_CAPS_LOCK_ON then KEYBOARD_CAPS_LOCK_OFF else KEYBOARD_CAPS_LOCK_ON)
      else keyboard_get_capslock classic s)"
    define s2 where "s2 = (if sc = 0x3A then keyboard_set_capslock classic
      (if keyboard_get_capslock classic s = KEYBOARD_CAPS_LOCK_ON then KEYBOARD_CAPS_LOCK_OFF else KEYBOARD_CAPS_LOCK_ON) ?s1
      else ?s1)"
    define c where "c = key_char caps sc"
    have s2: "keyboard_get_capslock classic s2 = caps" "keyboard_holds p s2 q"
      using Cons.prems(1) by (simp_all add: s2_def caps_def caps1 keyboard_holds_paging)
        (simp_all add: keyboard_get_capslock_def keyboard_set_capslock_def keyboard_holds_paging)
    have ch: "classic_keyboard_scancode_to_char classic past sc s2 = c"
      using scancode_to_char_eq[of sc classic past s2] Cons.prems(2) s2(1) by (auto simp: c_def)
    have h: "classic_keyboard_handle_interrupt classic past sc s =
        task_page (if c \<noteq> 0 then keyboard_push c s2 else s2)"
      unfolding classic_keyboard_handle_interrupt_def Let_def caps1 s2_def[symmetric] ch using True by simp
    have ty: "typed (keyboard_get_capslock classic s) (sc # scs) =
        (fst (typed caps scs), (if c = 0 then [] else [c]) @ snd (typed caps scs))"
      using True by (simp add: caps_def c_def Let_def case_prod_beta)
    have kp: "keyboard_get_capslock classic (keyboard_push c s2) = caps"
      using s2(1) by (simp add: keyboard_get_capslock_def keyboard_push_def upd_proc_def Let_def)
    show ?thesis
    proof (cases "c = 0")
      case True
      then show ?thesis
        using Cons.IH[of "task_page s2" q] Cons.prems s2 ty by (simp add: h keyboard_holds_paging page)
    next
      case False
      then have "length q < 1024" using Cons.prems(3) ty by simp
      then have "keyboard_holds p (keyboard_push c s2) (q @ [c])"
        using kbd.push_holds[OF s2(2)] False by blast
      then show ?thesis
        using Cons.IH[of "task_page (keyboard_push c s2)" "q @ [c]"] Cons.prems False ty kp
        by (simp add: h keyboard_holds_paging page)
    qed
  qed
qed simp

subsection \<open>Properties\<close>

text \<open>
  C21: the keyboard buffer is a queue: for any sequence of characters typed and read, of
  which at most 1024 wait at a time, the reads return what the same reads of a list
  return, in order, with 0 when nothing waits.
\<close>

theorem keyboard_is_queue:
  assumes "keyboard_holds p s q" "queue_fits 0 1024 evs (length q)"
  shows "fst (run_queue keyboard_push keyboard_pop evs s) = fst (list_queue 0 evs q) \<and>
    keyboard_holds p (snd (run_queue keyboard_push keyboard_pop evs s)) (snd (list_queue 0 evs q))"
  using assms by (rule kbd.run_is_list_queue)

definition typing_kernel :: kernel_state where
  "typing_kernel = blank_kernel\<lparr>current_process := 0x5000, current_task := 0x2000,
     tasks := (\<lambda>_. zero_task\<lparr>t_process := 0x5000\<rparr>)\<rparr>"

lemma typing_kernel_holds: "keyboard_holds 0x5000 typing_kernel []"
  by (simp add: keyboard_holds_def typing_kernel_def blank_kernel_def process_current_def task_current_def
      zero_process_def kb_queue_def)

theorem keyboard_is_queue_witness:
  "fst (run_queue keyboard_push keyboard_pop [Push 104, Push 105, Pop, Pop, Pop] typing_kernel) = [104, 105, 0]"
  using keyboard_is_queue[OF typing_kernel_holds, of "[Push 104, Push 105, Pop, Pop, Pop]"] by simp

text \<open>
  C22: typing: the interrupts of a sequence of scancodes append to the buffer of the
  current process the characters of the pressed keys, in lower case unless caps lock
  is on, and leave caps lock as the presses of its key toggled it.  Releases give
  nothing.
\<close>

theorem keyboard_typing:
  assumes "keyboard_holds p s q" "84 \<notin> set scs"
    and "length q + length (snd (typed (keyboard_get_capslock classic s) scs)) \<le> 1024"
  shows "keyboard_holds p (fold (classic_keyboard_handle_interrupt classic past) scs s)
      (q @ snd (typed (keyboard_get_capslock classic s) scs)) \<and>
    keyboard_get_capslock classic (fold (classic_keyboard_handle_interrupt classic past) scs s) =
      fst (typed (keyboard_get_capslock classic s) scs)"
  using assms by (rule typed_run)

text \<open>The keys h, caps lock, its release, and i type \<^verbatim>\<open>hI\<close>.\<close>

theorem keyboard_typing_witness:
  "keyboard_holds 0x5000 (fold (classic_keyboard_handle_interrupt 0x4000 0) [0x23, 0x3A, 0xBA, 0x17] typing_kernel)
     [104, 73]"
proof -
  have c: "keyboard_get_capslock 0x4000 typing_kernel = KEYBOARD_CAPS_LOCK_OFF"
    by (simp add: keyboard_get_capslock_def typing_kernel_def blank_kernel_def)
  have t: "typed KEYBOARD_CAPS_LOCK_OFF [0x23, 0x3A, 0xBA, 0x17] = (KEYBOARD_CAPS_LOCK_ON, [104, 73])"
    by (simp add: key_char_def keyboard_scan_set_one_def tolower_def)
  have "84 \<notin> set [0x23, 0x3A, 0xBA, 0x17 :: u8]" by simp
  note typing = keyboard_typing[OF typing_kernel_holds this, of "0x4000" 0, unfolded c t snd_conv append_Nil]
  show ?thesis by (rule conjunct1[OF typing]) simp
qed

text \<open>
  a full buffer is not refused: the 1025th waiting character overwrites the oldest
  one, and the reader then sees the newest character first.
\<close>

theorem keyboard_overrun:
  assumes "keyboard_holds p s q" "length q = 1024" "c \<noteq> 0"
  shows "fst (keyboard_pop (keyboard_push c s)) = c"
proof -
  have k: "kb_queue (pr_keyboard (procs s p)) q" using assms(1) by (simp add: keyboard_holds_def)
  let ?k = "pr_keyboard (procs s p)"
  have "unat (kb_tail ?k mod 1024) = unat (kb_head ?k mod 1024)"
    using k assms(2) unat_add_1024[of "kb_head ?k" 1024] by (simp add: kb_queue_def index_1024)
  moreover have "unat (kb_head ?k mod 1024) < length (kb_buffer ?k)" using k by (simp add: kb_queue_def index_1024)
  ultimately show ?thesis
    using assms by (simp add: keyboard_holds_def keyboard_push_def keyboard_pop_def keyboard_get_tail_index_def
        process_current_def task_current_def upd_proc_def Let_def)
qed

theorem keyboard_overrun_witness:
  "fst (keyboard_pop (keyboard_push 66 (fold keyboard_push (replicate 1024 65) typing_kernel))) = 66"
proof -
  have "keyboard_holds 0x5000 (fold keyboard_push (replicate 1024 65) typing_kernel) ([] @ replicate 1024 65)"
    by (rule kbd.push_all_holds[OF typing_kernel_holds]) simp_all
  from keyboard_overrun[OF this, of 66] show ?thesis by simp
qed

end
