(* ===== verification/Boi_Isr80h.thy ===== *)
theory Boi_Isr80h
  imports Boi_Keyboard
begin

text \<open>
  System calls (\<^verbatim>\<open>src/src/isr80h\<close>) and the handlers of \<^verbatim>\<open>src/src/idt/idt.c\<close> that run
  callbacks and commands.
\<close>

subsection \<open>Commands\<close>

text \<open>
  Addresses the build and the kernel stack determine: the stack buffers of the
  commands, the string literals, and the keyboard with the byte behind its table.
\<close>

record statics =
  buf_addr :: addr
  filename_addr :: addr
  path_addr :: addr
  root_literal :: addr
  mode_r_literal :: addr
  uninit_process :: addr
  classic_addr :: addr
  past_table :: u8

definition stack_item :: "nat \<Rightarrow> 'z kernel_state_scheme \<Rightarrow> u32 \<times> 'z kernel_state_scheme" where
  "stack_item i s = task_get_stack_item (task_current s) i s"

definition current_proc :: "'z kernel_state_scheme \<Rightarrow> addr" where
  "current_proc s = t_process (tasks s (task_current s))"

definition isr80h_command0_sum :: "'z kernel_state_scheme \<Rightarrow> 'z kernel_state_scheme outcome" where
  "isr80h_command0_sum s =
     (let (v2, s) = stack_item 1 s; (v1, s) = stack_item 0 s in Returns (v1 + v2) s)"

definition isr80h_command1_print :: "statics \<Rightarrow> 'z kernel_state_scheme \<Rightarrow> 'z kernel_state_scheme outcome" where
  "isr80h_command1_print k s =
     (let (msg, s) = stack_item 0 s;
          (res, s) = copy_string_from_task (task_current s) msg (buf_addr k) 1024 s
      in case kernel_print (buf_addr k) s of None \<Rightarrow> Stops | Some s \<Rightarrow> Returns 0 s)"

text \<open>A \<^verbatim>\<open>char\<close> is signed.\<close>

definition isr80h_command2_get_key :: "'z kernel_state_scheme \<Rightarrow> 'z kernel_state_scheme outcome" where
  "isr80h_command2_get_key s = (let (c, s) = keyboard_pop s in Returns (scast c) s)"

definition isr80h_command3_putchar :: "'z kernel_state_scheme \<Rightarrow> 'z kernel_state_scheme outcome" where
  "isr80h_command3_putchar s =
     (let (c, s) = stack_item 0 s;
          (m, t) = terminal_writechar (mem s, screen s) (ucast c) 15
      in Returns 0 (s\<lparr>mem := m, screen := t\<rparr>))"

definition isr80h_command4_malloc :: "'z kernel_state_scheme \<Rightarrow> 'z kernel_state_scheme outcome" where
  "isr80h_command4_malloc s =
     (let (sz, s) = stack_item 0 s; (p, s) = process_malloc (current_proc s) sz s in Returns p s)"

definition isr80h_command5_free :: "'z kernel_state_scheme \<Rightarrow> 'z kernel_state_scheme outcome" where
  "isr80h_command5_free s =
     (let (p, s) = stack_item 0 s in Returns 0 (process_free (current_proc s) p s))"

definition enter_process :: "addr \<Rightarrow> 'z kernel_state_scheme \<Rightarrow> 'z kernel_state_scheme outcome" where
  "enter_process process s =
     (let t = pr_task (procs s process); s = task_switch t s
      in User_mode (user_mode_enter (t_registers (tasks s t)) s))"

text \<open>The name is copied behind the root prefix; both buffers have 128 bytes.\<close>

definition isr80h_command6_process_load_start ::
    "(addr \<Rightarrow> ('z kernel_state_scheme) filesystem_ops) \<Rightarrow> statics \<Rightarrow> 'z kernel_state_scheme \<Rightarrow>
     'z kernel_state_scheme outcome" where
  "isr80h_command6_process_load_start ops k s =
     (let (name, s) = stack_item 0 s;
          (res, s) = copy_string_from_task (task_current s) name (filename_addr k) 128 s
      in if res < 0 then Returns 0 s
         else
           case do {
             m \<leftarrow> strcpy (mem s) (path_addr k) (root_literal k);
             m \<leftarrow> strcpy m (path_addr k + 3) (filename_addr k);
             process_load_switch ops (mode_r_literal k) (uninit_process k) (path_addr k) 0 (s\<lparr>mem := m\<rparr>)
           } of
             None \<Rightarrow> Stops
           | Some (res, process, s) \<Rightarrow> if res < 0 then Returns 0 s else enter_process process s)"

definition isr80h_command7_invoke_system_command ::
    "(addr \<Rightarrow> ('z kernel_state_scheme) filesystem_ops) \<Rightarrow> statics \<Rightarrow> 'z kernel_state_scheme \<Rightarrow>
     'z kernel_state_scheme outcome" where
  "isr80h_command7_invoke_system_command ops k s =
     (let (item, s) = stack_item 0 s;
          arguments = task_virtual_address_to_physical (task_current s) item s
      in if arguments = 0 then Returns (ERROR (- errno EINVARG)) s
         else
           case strlen (mem s) arguments of
             None \<Rightarrow> Stops
           | Some len \<Rightarrow>
               if len = 0 then Returns (ERROR (- errno EINVARG)) s
               else
                 case do {
                   m \<leftarrow> strcpy (mem s) (path_addr k) (root_literal k);
                   let m = strncpy m (path_addr k + 3) arguments 128;
                   process_load_switch ops (mode_r_literal k) (uninit_process k) (path_addr k) 0 (s\<lparr>mem := m\<rparr>)
                 } of
                   None \<Rightarrow> Stops
                 | Some (res, process, s) \<Rightarrow>
                     if res < 0 then Returns (ERROR res) s
                     else
                       case process_inject_arguments process arguments s of
                         None \<Rightarrow> Stops
                       | Some (res, s) \<Rightarrow> if res < 0 then Returns (ERROR res) s else enter_process process s)"

definition isr80h_command8_get_program_arguments :: "'z kernel_state_scheme \<Rightarrow> 'z kernel_state_scheme outcome" where
  "isr80h_command8_get_program_arguments s =
     (let process = current_proc s;
          (item, s) = stack_item 0 s;
          arguments = task_virtual_address_to_physical (task_current s) item s;
          (argc, argv) = process_get_arguments process s;
          m = write32 (mem s) arguments argc
      in Returns 0 (s\<lparr>mem := write32 m (arguments + 4) argv\<rparr>))"

definition exit_process :: "'z kernel_state_scheme \<Rightarrow> 'z kernel_state_scheme outcome" where
  "exit_process s =
     (case do { (res, s) \<leftarrow> process_terminate (current_proc s) s; task_next s } of
        None \<Rightarrow> Stops | Some s \<Rightarrow> User_mode s)"

definition isr80h_command9_exit :: "'z kernel_state_scheme \<Rightarrow> 'z kernel_state_scheme outcome" where
  "isr80h_command9_exit s = exit_process s"

definition isr80h_command10_open_file ::
    "(addr \<Rightarrow> ('z kernel_state_scheme) filesystem_ops) \<Rightarrow> statics \<Rightarrow> 'z kernel_state_scheme \<Rightarrow>
     'z kernel_state_scheme outcome" where
  "isr80h_command10_open_file ops k s =
     (let (name, s) = stack_item 0 s;
          (res, s) = copy_string_from_task (task_current s) name (buf_addr k) 1024 s
      in case fopen ops (buf_addr k) (mode_r_literal k) s of
           None \<Rightarrow> Stops
         | Some (fd, s) \<Rightarrow> Returns (word_of_int fd) s)"

definition isr80h_command12_clr_terminal :: "'z kernel_state_scheme \<Rightarrow> 'z kernel_state_scheme outcome" where
  "isr80h_command12_clr_terminal s =
     (let (m, t) = terminal_initialize (mem s) in Returns 0 (s\<lparr>mem := m, screen := t\<rparr>))"

subsection \<open>Interrupts\<close>

definition idt_handle_exception :: "'z kernel_state_scheme \<Rightarrow> 'z kernel_state_scheme outcome" where
  "idt_handle_exception s = exit_process s"

text \<open>\<open>scancode\<close> is the byte the keyboard's port has when it is read.\<close>

fun run_callback ::
    "statics \<Rightarrow> u8 \<Rightarrow> interrupt_callback \<Rightarrow> 'z kernel_state_scheme \<Rightarrow> 'z kernel_state_scheme outcome" where
  "run_callback k scancode Idt_handle_exception s = idt_handle_exception s"
| "run_callback k scancode Pit_callback s = Returns 0 (s\<lparr>timer := pit_callback (timer s)\<rparr>)"
| "run_callback k scancode Classic_keyboard_handle_interrupt s =
     Returns 0 (classic_keyboard_handle_interrupt (classic_addr k) (past_table k) scancode s)"

text \<open>A handler that leaves for user mode does not come back to \<^verbatim>\<open>task_page\<close>.\<close>

definition interrupt_handler ::
    "statics \<Rightarrow> u8 \<Rightarrow> nat \<Rightarrow> interrupt_frame \<Rightarrow> 'z kernel_state_scheme \<Rightarrow> 'z kernel_state_scheme outcome" where
  "interrupt_handler k scancode interrupt frame s =
     (let s = kernel_page s;
          done = (\<lambda>s. Returns 0 (port_out 0x20 0x20 (task_page s)))
      in case interrupt_callbacks s ! interrupt of
           None \<Rightarrow> done s
         | Some f \<Rightarrow>
             (case task_current_save_state frame s of
                None \<Rightarrow> Stops
              | Some s \<Rightarrow>
                  (case run_callback k scancode f s of
                     Returns r s \<Rightarrow> done s | User_mode s \<Rightarrow> User_mode s | Stops \<Rightarrow> Stops)))"

text \<open>
  While a command sleeps, the timer interrupts arrive in the kernel: each element of
  the list gives the frames of those before one poll, and every one of them runs the
  handler of interrupt 0x20.  \<open>None\<close>: still waiting at the end of the list, or a
  handler that did not return.
\<close>

fun timer_interrupts ::
    "statics \<Rightarrow> interrupt_frame list \<Rightarrow> 'z kernel_state_scheme \<Rightarrow> 'z kernel_state_scheme option" where
  "timer_interrupts k [] s = Some s"
| "timer_interrupts k (f # fs) s =
     (case interrupt_handler k 0 0x20 f s of Returns r s \<Rightarrow> timer_interrupts k fs s | _ \<Rightarrow> None)"

fun kernel_sleep_loop ::
    "statics \<Rightarrow> int \<Rightarrow> interrupt_frame list list \<Rightarrow> 'z kernel_state_scheme \<Rightarrow> 'z kernel_state_scheme option" where
  "kernel_sleep_loop k tot [] s = None"
| "kernel_sleep_loop k tot (fs # fss) s =
     do {
       s \<leftarrow> timer_interrupts k fs s;
       if sint (ticks (timer s)) < tot then kernel_sleep_loop k tot fss s else Some s
     }"

definition isr80h_command11_sleep ::
    "statics \<Rightarrow> interrupt_frame list list \<Rightarrow> 'z kernel_state_scheme \<Rightarrow> 'z kernel_state_scheme outcome" where
  "isr80h_command11_sleep k polls s =
     (let (millis, s) = stack_item 0 s
      in case kernel_sleep_loop k (sint millis sdiv 10) polls (s\<lparr>timer := (timer s)\<lparr>ticks := 0\<rparr>\<rparr>) of
           None \<Rightarrow> Stops | Some s \<Rightarrow> Returns 0 s)"

subsection \<open>Dispatch\<close>

fun run_command ::
    "(addr \<Rightarrow> ('z kernel_state_scheme) filesystem_ops) \<Rightarrow> statics \<Rightarrow> interrupt_frame list list \<Rightarrow>
     isr80h_command \<Rightarrow> 'z kernel_state_scheme \<Rightarrow> 'z kernel_state_scheme outcome" where
  "run_command ops k polls Command0_sum s = isr80h_command0_sum s"
| "run_command ops k polls Command1_print s = isr80h_command1_print k s"
| "run_command ops k polls Command2_get_key s = isr80h_command2_get_key s"
| "run_command ops k polls Command3_putchar s = isr80h_command3_putchar s"
| "run_command ops k polls Command4_malloc s = isr80h_command4_malloc s"
| "run_command ops k polls Command5_free s = isr80h_command5_free s"
| "run_command ops k polls Command6_process_load_start s = isr80h_command6_process_load_start ops k s"
| "run_command ops k polls Command7_invoke_system_command s = isr80h_command7_invoke_system_command ops k s"
| "run_command ops k polls Command8_get_program_arguments s = isr80h_command8_get_program_arguments s"
| "run_command ops k polls Command9_exit s = isr80h_command9_exit s"
| "run_command ops k polls Command10_open_file s = isr80h_command10_open_file ops k s"
| "run_command ops k polls Command11_sleep s = isr80h_command11_sleep k polls s"
| "run_command ops k polls Command12_clr_terminal s = isr80h_command12_clr_terminal s"

definition isr80h_handle_command ::
    "(addr \<Rightarrow> ('z kernel_state_scheme) filesystem_ops) \<Rightarrow> statics \<Rightarrow> interrupt_frame list list \<Rightarrow>
     int \<Rightarrow> 'z kernel_state_scheme \<Rightarrow> 'z kernel_state_scheme outcome" where
  "isr80h_handle_command ops k polls command s =
     (if command < 0 \<or> command \<ge> int BOIOS_MAX_ISR80H_COMMANDS then Returns 0 s
      else case isr80h_commands s ! nat command of
          None \<Rightarrow> Returns 0 s
        | Some f \<Rightarrow> run_command ops k polls f s)"

definition isr80h_handler ::
    "(addr \<Rightarrow> ('z kernel_state_scheme) filesystem_ops) \<Rightarrow> statics \<Rightarrow> interrupt_frame list list \<Rightarrow>
     int \<Rightarrow> interrupt_frame \<Rightarrow> 'z kernel_state_scheme \<Rightarrow> 'z kernel_state_scheme outcome" where
  "isr80h_handler ops k polls command frame s =
     (let s = kernel_page s
      in case task_current_save_state frame s of
           None \<Rightarrow> Stops
         | Some s \<Rightarrow>
             (case isr80h_handle_command ops k polls command s of
                Returns r s \<Rightarrow> Returns r (task_page s) | User_mode s \<Rightarrow> User_mode s | Stops \<Rightarrow> Stops))"

subsection \<open>Paging inside the handlers\<close>

definition frame_registers :: "interrupt_frame \<Rightarrow> registers" where
  "frame_registers frame = \<lparr>r_edi = f_edi frame, r_esi = f_esi frame, r_ebp = f_ebp frame,
     r_ebx = f_ebx frame, r_edx = f_edx frame, r_ecx = f_ecx frame, r_eax = f_eax frame, r_ip = f_ip frame,
     r_cs = f_cs frame, r_flags = f_flags frame, r_esp = f_esp frame, r_ss = f_ss frame\<rparr>"

text \<open>The directory of the current task.\<close>

definition task_directory :: "'z kernel_state_scheme \<Rightarrow> addr" where
  "task_directory s = read32 (mem s) (t_page_directory (tasks s (current_task s)))"

lemma save_state_eq:
  "current_task s \<noteq> 0 \<Longrightarrow> task_current_save_state frame s =
     Some (upd_task (current_task s) (\<lambda>t. t\<lparr>t_registers := frame_registers frame\<rparr>) s)"
  by (simp add: task_current_save_state_def task_current_def task_save_state_def frame_registers_def)

lemma stack_item_eq:
  "stack_item i s = (read32 (virtual_memory (mem s) (task_directory s))
      (r_esp (t_registers (tasks s (current_task s))) + 4 * of_nat i), kernel_page s)"
  by (simp add: stack_item_def task_get_stack_item_def task_page_task_def task_current_def task_directory_def
      paging_switch_def kernel_page_def Let_def)

lemma kernel_page_simps [simp]:
  "mem (kernel_page s) = mem s" "tasks (kernel_page s) = tasks s" "current_task (kernel_page s) = current_task s"
  "kernel_chunk (kernel_page s) = kernel_chunk s" "procs (kernel_page s) = procs s"
  "kernel_page (kernel_page s) = kernel_page s"
  by (simp_all add: kernel_page_def paging_switch_def Let_def)

lemma kernel_page_tables [simp]:
  "isr80h_commands (kernel_page s) = isr80h_commands s"
  "interrupt_callbacks (kernel_page s) = interrupt_callbacks s" "timer (kernel_page s) = timer s"
  by (simp_all add: kernel_page_def paging_switch_def Let_def)

lemma task_page_simps [simp]:
  "mem (task_page s) = mem s" "tasks (task_page s) = tasks s" "current_task (task_page s) = current_task s"
  "procs (task_page s) = procs s" "cr3 (task_page s) = read32 (mem s) (t_page_directory (tasks s (current_task s)))"
  by (simp_all add: task_page_def task_switch_def paging_switch_def Let_def)

lemma task_page_tables [simp]:
  "isr80h_commands (task_page s) = isr80h_commands s"
  "interrupt_callbacks (task_page s) = interrupt_callbacks s" "timer (task_page s) = timer s"
  by (simp_all add: task_page_def task_switch_def paging_switch_def Let_def)

subsection \<open>Timer interrupts\<close>

text \<open>The timer is registered and a task is current.\<close>

definition timer_ready :: "'z kernel_state_scheme \<Rightarrow> bool" where
  "timer_ready s \<longleftrightarrow> interrupt_callbacks s ! 0x20 = Some Pit_callback \<and> current_task s \<noteq> 0"

lemma timer_interrupt:
  assumes "timer_ready s"
  obtains s' where "interrupt_handler k sc 0x20 f s = Returns 0 s'" "timer_ready s'"
    "ticks (timer s') = ticks (timer s) + 1" "current_task s' = current_task s"
    "t_registers (tasks s' (current_task s')) = frame_registers f" "procs s' = procs s" "mem s' = mem s"
proof -
  let ?s1 = "upd_task (current_task s) (\<lambda>t. t\<lparr>t_registers := frame_registers f\<rparr>) (kernel_page s)"
  let ?s' = "port_out 0x20 0x20 (task_page (?s1\<lparr>timer := pit_callback (timer s)\<rparr>))"
  have "interrupt_handler k sc 0x20 f s = Returns 0 ?s'"
    using assms save_state_eq[of "kernel_page s" f]
    by (simp add: interrupt_handler_def timer_ready_def upd_task_def Let_def)
  then show thesis
    using assms by (intro that[where s' = ?s']) (simp_all add: timer_ready_def port_out_def upd_task_def pit_callback_def outb_def)
qed

lemma timer_interrupts_ok:
  assumes "timer_ready s"
  shows "\<exists>s'. timer_interrupts k fs s = Some s' \<and> timer_ready s' \<and>
     ticks (timer s') = ticks (timer s) + of_nat (length fs) \<and> current_task s' = current_task s \<and>
     mem s' = mem s \<and>
     (fs \<noteq> [] \<longrightarrow> t_registers (tasks s' (current_task s')) = frame_registers (last fs)) \<and> procs s' = procs s"
  using assms
proof (induction fs arbitrary: s)
  case (Cons f fs)
  obtain s1 where s1: "interrupt_handler k 0 0x20 f s = Returns 0 s1" "timer_ready s1"
    "ticks (timer s1) = ticks (timer s) + 1" "current_task s1 = current_task s"
    "t_registers (tasks s1 (current_task s1)) = frame_registers f" "procs s1 = procs s" "mem s1 = mem s"
    by (rule timer_interrupt[OF Cons.prems])
  from Cons.IH[OF s1(2)] s1 show ?case by (cases fs) auto
qed simp

lemma sleep_loop_ticks_cong:
  "ticks p = ticks p' \<Longrightarrow>
     map_option (ticks \<circ> snd) (sleep_loop tot ns p) = map_option (ticks \<circ> snd) (sleep_loop tot ns p')"
  by (induction ns arbitrary: p p') (auto simp: ticks_callbacks Let_def)

lemma kernel_sleep_ticks:
  assumes "timer_ready s"
  shows "map_option (ticks \<circ> timer) (kernel_sleep_loop k tot fss s) =
     map_option (ticks \<circ> snd) (sleep_loop tot (map length fss) (timer s))"
  using assms
proof (induction fss arbitrary: s)
  case (Cons fs fss)
  obtain s1 where s1: "timer_interrupts k fs s = Some s1" "timer_ready s1"
    "ticks (timer s1) = ticks (timer s) + of_nat (length fs)"
    using timer_interrupts_ok[OF Cons.prems] by blast
  let ?p = "(pit_callback ^^ length fs) (timer s)"
  have t: "ticks ?p = ticks (timer s1)" using s1(3) by (simp add: ticks_callbacks)
  show ?case
    using s1(1) Cons.IH[OF s1(2)] sleep_loop_ticks_cong[OF t, of tot "map length fss"] t
    by (simp add: Let_def comp_def)
qed simp

subsection \<open>Properties\<close>

text \<open>
  C32: sleeping inside a system call is the timer's \<^verbatim>\<open>sleep\<close>: with the timer registered, running
  the full interrupt handler for every tick returns at the same poll and tick as
  \<^verbatim>\<open>sleep\<close> does on the bare timer, or not at all when that does not.
\<close>

theorem kernel_sleep_is_sleep:
  assumes "interrupt_callbacks s ! 0x20 = Some Pit_callback" "current_task s \<noteq> 0"
  shows "map_option (ticks \<circ> timer)
      (kernel_sleep_loop k (sint millis sdiv 10) polls (s\<lparr>timer := (timer s)\<lparr>ticks := 0\<rparr>\<rparr>)) =
    map_option (ticks \<circ> snd) (sleep millis (map length polls) (timer s))"
proof -
  have "timer_ready (s\<lparr>timer := (timer s)\<lparr>ticks := 0\<rparr>\<rparr>)" using assms by (simp add: timer_ready_def)
  from kernel_sleep_ticks[OF this] show ?thesis by (simp add: sleep_def)
qed

definition sample_statics :: statics where
  "sample_statics = \<lparr>buf_addr = 0x6000, filename_addr = 0x6800, path_addr = 0x6900, root_literal = 0x6A00,
     mode_r_literal = 0x508, uninit_process = 0, classic_addr = 0x4000, past_table = 0\<rparr>"

definition sample_frame :: interrupt_frame where
  "sample_frame = \<lparr>f_edi = 1, f_esi = 2, f_ebp = 3, f_reserved = 0, f_ebx = 4, f_edx = 5, f_ecx = 6, f_eax = 7,
     f_ip = 0x400100, f_cs = 0x1B, f_flags = 0x202, f_esp = 0x3FEFF0, f_ss = 0x23\<rparr>"

definition timer_kernel :: kernel_state where
  "timer_kernel = typing_kernel\<lparr>interrupt_callbacks := (replicate 512 None)[0x20 := Some Pit_callback]\<rparr>"

lemma timer_kernel_fields:
  "interrupt_callbacks timer_kernel ! 0x20 = Some Pit_callback" "current_task timer_kernel = 0x2000"
  "timer timer_kernel = \<lparr>time_in_millis = 1, ticks = 0, port_log = []\<rparr>"
  by (simp_all add: timer_kernel_def typing_kernel_def blank_kernel_def)

theorem kernel_sleep_is_sleep_witness:
  "map_option (ticks \<circ> timer) (kernel_sleep_loop sample_statics (sint (20 :: u32) sdiv 10)
     [[sample_frame], [], [sample_frame, sample_frame]] (timer_kernel\<lparr>timer := (timer timer_kernel)\<lparr>ticks := 0\<rparr>\<rparr>)) = Some 3"
proof -
  have c: "current_task timer_kernel \<noteq> 0" by (simp add: timer_kernel_fields)
  show ?thesis
    using kernel_sleep_is_sleep[OF timer_kernel_fields(1) c, of sample_statics 20
        "[[sample_frame], [], [sample_frame, sample_frame]]"]
    by (simp add: sleep_def timer_kernel_fields pit_callback_def outb_def Let_def signed_divide_int_def)
qed

text \<open>
  a timer interrupt that arrives while a system call runs overwrites the registers
  saved for the current task: after any such interrupts, the task would continue with
  the frame of the last of them, which holds the state of the kernel, instead of the
  state it made the call in.
\<close>

theorem timer_overwrites_saved_state:
  assumes "interrupt_callbacks s ! 0x20 = Some Pit_callback" "current_task s \<noteq> 0"
  shows "\<exists>s'. timer_interrupts k (fs @ [f]) s = Some s' \<and> current_task s' = current_task s \<and>
     t_registers (tasks s' (current_task s)) = frame_registers f"
proof -
  have "timer_ready s" using assms by (simp add: timer_ready_def)
  from timer_interrupts_ok[OF this, of k "fs @ [f]"] show ?thesis by auto
qed

theorem timer_overwrites_saved_state_witness:
  "\<exists>s'. timer_interrupts sample_statics [sample_frame, sample_frame\<lparr>f_cs := 8, f_ip := 0x100200\<rparr>] timer_kernel = Some s' \<and>
     r_cs (t_registers (tasks s' 0x2000)) = 8"
proof -
  have c: "current_task timer_kernel \<noteq> 0" by (simp add: timer_kernel_fields)
  show ?thesis
    using timer_overwrites_saved_state[OF timer_kernel_fields(1) c, of sample_statics "[sample_frame]"
        "sample_frame\<lparr>f_cs := 8, f_ip := 0x100200\<rparr>"]
    by (auto simp: timer_kernel_fields frame_registers_def)
qed

text \<open>
  system call 0 adds: with the registered commands, the handler returns the
  wrap-around sum of the two words on top of the user's stack, read through the page
  tables of the task.  It saves the user's registers, changes no memory, and goes back
  to the address space of the task.
\<close>

theorem isr80h_sum:
  assumes "isr80h_commands s = map Some system_commands @ replicate 1011 None" "current_task s \<noteq> 0"
  shows "\<exists>s'. isr80h_handler ops k polls 0 frame s =
      Returns (read32 (virtual_memory (mem s) (task_directory s)) (f_esp frame) +
        read32 (virtual_memory (mem s) (task_directory s)) (f_esp frame + 4)) s' \<and>
     mem s' = mem s \<and> t_registers (tasks s' (current_task s)) = frame_registers frame \<and>
     cr3 s' = task_directory s"
proof -
  let ?s1 = "upd_task (current_task s) (\<lambda>t. t\<lparr>t_registers := frame_registers frame\<rparr>) (kernel_page s)"
  have sv: "task_current_save_state frame (kernel_page s) = Some ?s1"
    using save_state_eq[of "kernel_page s" frame] assms(2) by simp
  have dir: "task_directory ?s1 = task_directory s" by (simp add: task_directory_def upd_task_def)
  have esp: "r_esp (t_registers (tasks ?s1 (current_task ?s1))) = f_esp frame"
    by (simp add: upd_task_def frame_registers_def)
  have dirk: "task_directory (kernel_page t) = task_directory t" for t :: "'a kernel_state_scheme"
    by (simp add: task_directory_def)
  have m: "mem ?s1 = mem s" by (simp add: upd_task_def)
  have h: "isr80h_handle_command ops k polls 0 ?s1 =
      Returns (read32 (virtual_memory (mem s) (task_directory s)) (f_esp frame) +
        read32 (virtual_memory (mem s) (task_directory s)) (f_esp frame + 4)) (kernel_page ?s1)"
    using assms(1) dir esp m
    by (simp add: isr80h_handle_command_def upd_task_def system_commands_def nth_append
        isr80h_command0_sum_def stack_item_eq dirk)
  show ?thesis
    using sv h by (simp add: isr80h_handler_def upd_task_def task_directory_def)
qed

theorem isr80h_sum_witness:
  "\<exists>s'. isr80h_handler (\<lambda>_. fat16_filesystem (image_disk of_nat) 0x600 0x9000) sample_statics [] 0 sample_frame
      (typing_kernel\<lparr>isr80h_commands := map Some system_commands @ replicate 1011 None, mem := \<lambda>_. 1\<rparr>) =
     Returns 0x2020202 s'"
proof -
  let ?s = "typing_kernel\<lparr>isr80h_commands := map Some system_commands @ replicate 1011 None, mem := \<lambda>_. 1\<rparr>"
  have "current_task ?s \<noteq> 0" by (simp add: typing_kernel_def blank_kernel_def)
  moreover have "read32 (virtual_memory (mem ?s) d) a = 0x1010101" for d a
    by (simp add: read32_def virtual_memory_def)
  ultimately show ?thesis
    using isr80h_sum[of ?s "\<lambda>_. fat16_filesystem (image_disk of_nat) 0x600 0x9000" sample_statics "[]" sample_frame]
    by auto
qed

text \<open>
  C34: dispatch: after \<^verbatim>\<open>isr80h_register_commands\<close> on an empty table, a command number
  below 13 runs the command registered under it, and every other number, negative
  ones and those out of the table included, returns 0 and changes nothing.
\<close>

theorem isr80h_dispatch:
  assumes "isr80h_commands s = replicate 1024 None"
  shows "\<exists>s'. isr80h_register_commands s = Some s' \<and>
     (\<forall>c. isr80h_handle_command ops k polls c s' =
        (if 0 \<le> c \<and> c < 13 then run_command ops k polls (system_commands ! nat c) s' else Returns 0 s'))"
proof -
  let ?s = "s\<lparr>isr80h_commands := map Some system_commands @ replicate 1011 None\<rparr>"
  have len: "length system_commands = 13" by (simp add: system_commands_def)
  have "isr80h_handle_command ops k polls c ?s =
      (if 0 \<le> c \<and> c < 13 then run_command ops k polls (system_commands ! nat c) ?s else Returns 0 ?s)" for c
  proof -
    consider "c < 0" | "0 \<le> c" "c < 13" | "13 \<le> c" "c < 1024" | "1024 \<le> c" by linarith
    then show ?thesis
    proof cases
      case 2
      then have "nat c < 13" by linarith
      then show ?thesis using 2 len by (simp add: isr80h_handle_command_def nth_append)
    next
      case 3
      then have "nat c - 13 < 1011" "\<not> nat c < 13" by linarith+
      then show ?thesis using 3 len by (simp add: isr80h_handle_command_def nth_append)
    qed (simp_all add: isr80h_handle_command_def nth_append len)
  qed
  then show ?thesis using register_commands_table[OF assms] by blast
qed

theorem isr80h_dispatch_witness:
  "\<exists>s'. isr80h_register_commands blank_kernel = Some s' \<and>
     isr80h_handle_command (\<lambda>_. fat16_filesystem (image_disk of_nat) 0x600 0x9000) sample_statics [] 13 s' = Returns 0 s'"
proof -
  have "isr80h_commands blank_kernel = replicate 1024 None" by (simp add: blank_kernel_def)
  from isr80h_dispatch[OF this, of "\<lambda>_. fat16_filesystem (image_disk of_nat) 0x600 0x9000" sample_statics "[]"]
  show ?thesis by auto
qed

end
