(* ===== verification/Boi_Kernel.thy ===== *)
theory Boi_Kernel
  imports Boi_Isr80h Boi_Gdt Boi_Mount
begin

text \<open>
  The boot of the kernel (\<^verbatim>\<open>src/src/kernel.c\<close>): \<^verbatim>\<open>kernel_main\<close> composes all components.
\<close>

subsection \<open>kernel\_main\<close>

text \<open>
  What the linker decides: the addresses of the static tables, of the entry points and of
  the path literal.
\<close>

record boot_data =
  gdt_real :: addr
  tss_addr :: addr
  fat16_fs_addr :: addr
  entry_table :: "addr list"
  idt_zero_entry :: addr
  isr80h_entry :: addr
  shell_path :: addr

text \<open>
  \<^verbatim>\<open>kernel_main\<close> up to the loading of the shell.  Loading the descriptor tables and
  turning paging on is assembly.  \<open>None\<close>: the kernel panics or a call does not return.
\<close>

definition kernel_setup ::
    "(addr \<Rightarrow> ('z kernel_state_scheme) filesystem_ops) \<Rightarrow> boot_data \<Rightarrow> statics \<Rightarrow>
     'z kernel_state_scheme \<Rightarrow> 'z kernel_state_scheme option" where
  "kernel_setup ops b k s =
     do {
       let (m, t) = terminal_initialize (mem s);
       let s = s\<lparr>mem := memset m (gdt_real b) 0 48, screen := t\<rparr>;
       m \<leftarrow> gdt_structured_to_gdt (mem s) (gdt_real b) (kernel_gdt (tss_addr b));
       let s = snd (kheap_init (s\<lparr>mem := m\<rparr>));
       s \<leftarrow> fs_init (fat16_fs_addr b) s;
       s \<leftarrow> disk_search_and_init ops s;
       let s = idt_init (entry_table b) (idt_zero_entry b) (isr80h_entry b) s;
       let s = s\<lparr>timer := pit_init 100 (timer s)\<rparr>;
       let m = memset (mem s) (tss_addr b) 0 100;
       let m = write32 m (tss_addr b + 4) 0x600000;
       let s = s\<lparr>mem := write32 m (tss_addr b + 8) 0x10\<rparr>;
       let (chunk, s) = paging_new_4gb s 7;
       let s = paging_switch (s\<lparr>kernel_chunk := chunk\<rparr>) chunk;
       s \<leftarrow> isr80h_register_commands s;
       Some (keyboard_init (classic_addr k) s)
     }"

definition kernel_main ::
    "(addr \<Rightarrow> ('z kernel_state_scheme) filesystem_ops) \<Rightarrow> boot_data \<Rightarrow> statics \<Rightarrow>
     'z kernel_state_scheme \<Rightarrow> 'z kernel_state_scheme option" where
  "kernel_main ops b k s =
     do {
       s \<leftarrow> kernel_setup ops b k s;
       (res, process, s) \<leftarrow> process_load_switch ops (mode_r_literal k) (uninit_process k) (shell_path b) 0 s;
       if res \<noteq> 0 then None else task_run_first_ever_task s
     }"

subsection \<open>The task state segment\<close>

text \<open>What \<^verbatim>\<open>struct tss\<close> says the segment holds, read from memory: 25 words, so 100 bytes.\<close>

record tss =
  tss_link :: u32
  tss_esp0 :: u32
  tss_ss0 :: u32
  tss_esp1 :: u32
  tss_esp2 :: u32
  tss_ss2 :: u32
  tss_sr3 :: u32
  tss_eip :: u32
  tss_eflags :: u32
  tss_eax :: u32
  tss_ecx :: u32
  tss_edx :: u32
  tss_ebx :: u32
  tss_esp :: u32
  tss_ebp :: u32
  tss_esi :: u32
  tss_edi :: u32
  tss_es :: u32
  tss_cs :: u32
  tss_ss :: u32
  tss_ds :: u32
  tss_fs :: u32
  tss_gs :: u32
  tss_ldtr :: u32
  tss_iopb :: u32

definition tss_word :: "memory \<Rightarrow> addr \<Rightarrow> nat \<Rightarrow> u32" where
  "tss_word m p k = read32 m (p + of_nat (4 * k))"

definition tss_at :: "memory \<Rightarrow> addr \<Rightarrow> tss" where
  "tss_at m p =
     (let w = tss_word m p
      in \<lparr>tss_link = w 0, tss_esp0 = w 1, tss_ss0 = w 2, tss_esp1 = w 3, tss_esp2 = w 4, tss_ss2 = w 5, tss_sr3 = w 6,
          tss_eip = w 7, tss_eflags = w 8, tss_eax = w 9, tss_ecx = w 10, tss_edx = w 11, tss_ebx = w 12, tss_esp = w 13,
          tss_ebp = w 14, tss_esi = w 15, tss_edi = w 16, tss_es = w 17, tss_cs = w 18, tss_ss = w 19, tss_ds = w 20,
          tss_fs = w 21, tss_gs = w 22, tss_ldtr = w 23, tss_iopb = w 24\<rparr>)"

definition zero_tss :: tss where
  "zero_tss = tss_at (\<lambda>_. 0) 0"

lemma word_slots_apart:
  assumes "i < 25" "k < 25" "i \<noteq> k"
  shows "disjoint_ranges (p + of_nat (4 * i)) 4 (p + of_nat (4 * k)) 4"
  unfolding disjoint_ranges_def
proof (intro allI notI, elim conjE)
  fix a assume a: "in_range (p + of_nat (4 * i)) 4 a" "in_range (p + of_nat (4 * k)) 4 a"
  obtain j where j: "a = p + of_nat (4 * i) + of_nat j" "j < 4" using a(1) by (rule in_rangeE)
  obtain l where l: "a = p + of_nat (4 * k) + of_nat l" "l < 4" using a(2) by (rule in_rangeE)
  have "(of_nat (4 * i + j) :: u32) = of_nat (4 * k + l)" using j(1) l(1) by (simp add: add.assoc)
  moreover have "unat (of_nat (4 * i + j) :: u32) = 4 * i + j" "unat (of_nat (4 * k + l) :: u32) = 4 * k + l"
    using assms j(2) l(2) by (simp_all only: unat_of_nat32)
  ultimately have "4 * i + j = 4 * k + l" by metis
  then show False using j(2) l(2) assms(3) by presburger
qed

lemma word_slot_inside:
  assumes "k < 25" "in_range (p + of_nat (4 * k)) 4 a"
  shows "in_range p 100 a"
proof -
  obtain j where j: "a = p + of_nat (4 * k) + of_nat j" "j < 4" using assms(2) by (rule in_rangeE)
  have "a - p = of_nat (4 * k + j)" using j(1) by simp
  moreover have "unat (of_nat (4 * k + j) :: u32) = 4 * k + j" using assms(1) j(2) by (simp only: unat_of_nat32)
  ultimately have "unat (a - p) = 4 * k + j" by (simp only:)
  then show ?thesis using assms(1) j(2) by (simp add: in_range_def)
qed

lemma tss_at_cong:
  assumes "\<And>a. in_range p 100 a \<Longrightarrow> m' a = m a"
  shows "tss_at m' p = tss_at m p"
proof -
  have "tss_word m' p k = tss_word m p k" if "k < 25" for k
    unfolding tss_word_def by (rule read32_cong) (rule assms[OF word_slot_inside[OF that]])
  then show ?thesis unfolding tss_at_def Let_def by simp
qed

lemma tss_at_init:
  "tss_at (write32 (write32 (memset m p 0 100) (p + 4) e) (p + 8) d) p = zero_tss\<lparr>tss_esp0 := e, tss_ss0 := d\<rparr>"
proof -
  define m1 where "m1 = write32 (write32 (memset m p 0 100) (p + of_nat (4 * 1)) e) (p + of_nat (4 * 2)) d"
  have z: "read32 (memset m p 0 100) (p + of_nat (4 * k)) = 0" if "k < 25" for k
  proof -
    have "read32 (memset m p 0 100) (p + of_nat (4 * k)) = read32 (\<lambda>_. 0) (p + of_nat (4 * k))"
      by (rule read32_cong) (use word_slot_inside[OF that] in \<open>simp add: memset_read\<close>)
    then show ?thesis by (simp add: read32_def)
  qed
  have w: "tss_word m1 p k = (if k = 2 then d else if k = 1 then e else 0)" if "k < 25" for k
    using word_slots_apart[OF that, of 2 p] word_slots_apart[OF that, of 1 p] z[OF that]
    unfolding tss_word_def m1_def by (auto simp: read32_write32_disjoint simp del: of_nat_mult of_nat_numeral)
  have n: "tss_word (\<lambda>_. 0) 0 k = 0" for k by (simp add: tss_word_def read32_def)
  have e: "p + of_nat (4 * 1) = p + 4" "p + of_nat (4 * 2) = p + 8" by simp_all
  have "tss_at m1 p = zero_tss\<lparr>tss_esp0 := e, tss_ss0 := d\<rparr>"
    unfolding tss_at_def Let_def zero_tss_def by (simp add: w n)
  then show ?thesis unfolding m1_def e .
qed

subsection \<open>The state after the set-up\<close>

text \<open>The tables no file system driver touches.\<close>

definition kernel_tables :: "'z kernel_state_scheme \<Rightarrow>
    interrupt_callback option list \<times> isr80h_command option list \<times> (addr \<Rightarrow> keyboard) \<times> addr \<times> addr" where
  "kernel_tables s = (interrupt_callbacks s, isr80h_commands s, keyboards s, keyboard_list_head s, keyboard_list_tail s)"

text \<open>What the disk layer knows, and what it has decided about the disk with an image.\<close>

definition disk_tables :: "'z fat_state_scheme \<Rightarrow>
    disk \<times> (addr \<Rightarrow> fat_private) \<times> (addr \<Rightarrow> fat_directory_item list) \<times> (addr \<Rightarrow> disk_stream)" where
  "disk_tables s = (the_disk s, privates s, dir_items s, streams s)"

definition disk_decided :: "'z fat_state_scheme \<Rightarrow> addr \<Rightarrow> (nat \<Rightarrow> u8) \<Rightarrow> nat \<Rightarrow> bool" where
  "disk_decided s fs img k \<longleftrightarrow>
     (if img 38 = 0x29 then filesystem (the_disk s) = fs \<and> fs_private (the_disk s) \<noteq> 0 \<and> volume_mounted s img k
      else filesystem (the_disk s) = 0 \<and> fs_private (the_disk s) = 0)"

lemma disk_decided_cong:
  assumes "disk_tables s' = disk_tables s"
  shows "disk_decided s' fs img k = disk_decided s fs img k"
proof -
  have e: "the_disk s' = the_disk s" "privates s' = privates s" "dir_items s' = dir_items s" "streams s' = streams s"
    using assms by (simp_all add: disk_tables_def)
  have "disk_private s' = disk_private s" by (simp add: disk_private_def e)
  then show ?thesis unfolding disk_decided_def volume_mounted_def by (simp add: e)
qed

lemma heap_update_cong:
  "live_regions (s\<lparr>filesystems := x, file_descriptors := y\<rparr>) A = live_regions s A"
  "live_regions (s\<lparr>the_disk := d\<rparr>) A = live_regions s A" "live_regions (s\<lparr>fat16_name := n\<rparr>) A = live_regions s A"
  "live_regions (s\<lparr>filesystems := x\<rparr>) A = live_regions s A"
  "avail (s\<lparr>filesystems := x, file_descriptors := y\<rparr>) = avail s" "avail (s\<lparr>the_disk := d\<rparr>) = avail s"
  "avail (s\<lparr>fat16_name := n\<rparr>) = avail s" "avail (s\<lparr>filesystems := x\<rparr>) = avail s"
  for s :: "'z file_state_scheme"
  by (simp_all add: live_regions_def kheap_ok_def avail_def)

lemma resolve_loop_rest:
  "(\<forall>j < n. filesystems s ! (i + j) = 0) \<Longrightarrow> fs_resolve_loop ops i n s = Some (0, s)"
proof (induction n arbitrary: i)
  case (Suc n)
  have "filesystems s ! i = 0" using Suc.prems by (metis add_0_right zero_less_Suc)
  moreover have "\<forall>j < n. filesystems s ! (i + 1 + j) = 0" using Suc.prems by auto
  ultimately show ?case using Suc.IH[of "i + 1"] by simp
qed simp

lemma disk_search_ok:
  assumes drv: "ops fs = fat16_filesystem d tmp fs" "fs \<noteq> 0"
    and img: "holds_image d img" "img 38 = 0x29 \<Longrightarrow> root_ends img k"
    and s: "live_regions s (region_map boot_heap Map.empty)" "avail s = 25600" "kernel_heap s = boot_heap"
    and tab: "filesystems s = fs # replicate 11 0"
  obtains s' A where "disk_search_and_init ops s = Some s'" "live_regions s' A" "1026 \<le> avail s'"
    "kernel_heap s' = boot_heap" "kernel_tables s' = kernel_tables s" "disk_decided s' fs img k"
proof -
  let ?s0 = "s\<lparr>the_disk := \<lparr>disk_type = 0, sector_size = 512, disk_id = 0, filesystem = 0, fs_private = 0\<rparr>\<rparr>"
  have live0: "live_regions ?s0 (region_map boot_heap Map.empty)" and av0: "avail ?s0 = 25600"
    using s by (simp_all add: heap_update_cong)
  have nb: "root_blocks img \<le> 512"
  proof -
    have "unat (of_nat (root_bytes img) :: u32) = root_bytes img"
      using root_bytes_less[of img] by (intro unat_of_nat32) simp
    then show ?thesis using root_bytes_less[of img] by (simp add: root_blocks_def blocks_for_def)
  qed
  then have room: "room_for ?s0 5 (root_blocks img)"
    using av0 s(3) by (simp add: room_for_def boot_heap_def)
  obtain s1 A m io S di P D where r: "fat16_resolve d fs ?s0 = Some (if img 38 = 0x29 then 0 else - errno EFSNOTUS, s1)"
    "s1 = ?s0\<lparr>mem := m, disk_ports := io, streams := S, dir_items := di, privates := P, the_disk := D\<rparr>"
    "live_regions s1 A" "region_map boot_heap Map.empty \<subseteq>\<^sub>m A"
    "avail ?s0 = avail s1 + (if img 38 = 0x29 then 4 + root_blocks img else 3)"
    "if img 38 = 0x29 then D = (the_disk ?s0)\<lparr>fs_private := fs_private D, filesystem := fs\<rparr> \<and> fs_private D \<noteq> 0 \<and> volume_mounted s1 img k
     else D = (the_disk ?s0)\<lparr>fs_private := 0, filesystem := fs\<rparr>"
    by (rule fat16_resolve_image[OF live0 room img(1) _ _ img(2), where fs = fs]) (simp, simp, assumption, rule that)
  have av1: "1026 \<le> avail s1" using r(5) av0 nb by (auto split: if_splits)
  have tb: "kernel_heap s1 = boot_heap" "filesystems s1 = filesystems s" "kernel_tables s1 = kernel_tables s" "the_disk s1 = D"
    using s(3) by (simp_all add: r(2) kernel_tables_def)
  have res: "resolve_op (ops fs) ?s0 = Some (if img 38 = 0x29 then 0 else - errno EFSNOTUS, s1)"
    using r(1) by (simp add: drv(1) fat16_filesystem_def)
  have fs: "filesystems ?s0 ! 0 = fs" using tab by simp
  have rest: "fs_resolve_loop ops 1 11 s1 = Some (0, s1)"
    by (rule resolve_loop_rest) (auto simp: tb(2) tab nth_Cons')
  have "fs_resolve ops ?s0 = Some (if img 38 = 0x29 then fs else 0, s1)"
  proof -
    have e: "fs_resolve ops ?s0 = fs_resolve_loop ops 0 (Suc 11) ?s0" by (simp add: fs_resolve_def)
    show ?thesis unfolding e fs_resolve_loop.simps using res drv(2) rest tab fs tb(2) by (simp add: Let_def)
  qed
  then have d: "disk_search_and_init ops s = Some (s1\<lparr>the_disk := (the_disk s1)\<lparr>filesystem := if img 38 = 0x29 then fs else 0\<rparr>\<rparr>)"
    by (simp add: disk_search_and_init_def)
  let ?s2 = "s1\<lparr>the_disk := (the_disk s1)\<lparr>filesystem := if img 38 = 0x29 then fs else 0\<rparr>\<rparr>"
  have "disk_private ?s2 = disk_private s1" by (simp add: disk_private_def)
  then have "volume_mounted ?s2 img k = volume_mounted s1 img k" by (simp add: volume_mounted_def)
  then have "disk_decided ?s2 fs img k" using r(6) tb(4) by (auto simp: disk_decided_def)
  then show thesis
    by (intro that[OF d]) (use r(3) av1 tb in \<open>simp_all add: heap_update_cong kernel_tables_def\<close>)
qed

lemma keyboard_init_first:
  assumes "kbd_init (keyboards s classic) = Some Classic_keyboard_init" "keyboard_list_tail s = 0"
    "length (interrupt_callbacks s) = 512"
  defines "s' \<equiv> keyboard_init classic s"
  shows "keyboard_list_head s' = classic" "keyboard_list_tail s' = classic"
    "keyboard_get_capslock classic s' = KEYBOARD_CAPS_LOCK_OFF"
    "interrupt_callbacks s' = (interrupt_callbacks s)[0x21 := Some Classic_keyboard_handle_interrupt]"
    "mem s' = mem s" "cr3 s' = cr3 s" "kernel_chunk s' = kernel_chunk s" "isr80h_commands s' = isr80h_commands s"
    "idt_descriptors s' = idt_descriptors s" "disk_tables s' = disk_tables s"
  using assms(1,2)
  by (simp_all add: s'_def keyboard_init_def keyboard_insert_def classic_init_def classic_keyboard_init_def port_out_def
      keyboard_set_capslock_def keyboard_get_capslock_def idt_register_interrupt_callback_def disk_tables_def)

text \<open>The memory a boot may use: the tables of the processor lie in the kernel image.\<close>

definition boot_layout :: "boot_data \<Rightarrow> bool" where
  "boot_layout b \<longleftrightarrow> fat16_fs_addr b \<noteq> 0 \<and> length (entry_table b) = 512 \<and>
     0x100000 \<le> unat (tss_addr b) \<and> unat (tss_addr b) + 100 \<le> 0x1000000"

text \<open>What a kernel image holds when \<^verbatim>\<open>kernel_main\<close> starts: empty tables and the static keyboard.\<close>

definition kernel_image :: "addr \<Rightarrow> 'z kernel_state_scheme \<Rightarrow> bool" where
  "kernel_image classic s \<longleftrightarrow> interrupt_callbacks s = replicate 512 None \<and>
     isr80h_commands s = replicate 1024 None \<and> keyboards s classic = classic_keyboard \<and>
     keyboard_list_head s = 0 \<and> keyboard_list_tail s = 0"

lemma idt_init_tables:
  assumes "length (interrupt_callbacks s) = 512" "i < 512"
  shows "gate_address (idt_descriptors (idt_init tbl z w s) ! i) = (if i = 0x80 then w else if i = 0 then z else tbl ! i)"
    "interrupt_callbacks (idt_init tbl z w s) ! i =
      (if i < 0x20 then Some Idt_handle_exception else if i = 0x20 then Some Pit_callback
       else interrupt_callbacks s ! i)"
    "length (interrupt_callbacks (idt_init tbl z w s)) = 512"
proof -
  note ds = foldl_update_nth[of 512 "replicate 512 zero_desc" "\<lambda>i. gate (tbl ! i)"]
  have len: "32 \<le> length (interrupt_callbacks s)" using assms(1) by simp
  note cs = foldl_update_nth[OF len, of "\<lambda>_. Some Idt_handle_exception"]
  have "idt_descriptors (idt_init tbl z w s) ! i = gate (if i = 0x80 then w else if i = 0 then z else tbl ! i)"
    using ds assms(2) unfolding idt_init_eq by (simp add: nth_list_update)
  then show "gate_address (idt_descriptors (idt_init tbl z w s) ! i) = (if i = 0x80 then w else if i = 0 then z else tbl ! i)"
    by (simp only: gate_fields)
  show "interrupt_callbacks (idt_init tbl z w s) ! i =
      (if i < 0x20 then Some Idt_handle_exception else if i = 0x20 then Some Pit_callback
       else interrupt_callbacks s ! i)" "length (interrupt_callbacks (idt_init tbl z w s)) = 512"
    using cs assms unfolding idt_init_eq by (simp_all add: nth_list_update)
qed

text \<open>From a fresh heap, the rest of the set-up.\<close>

lemma setup_tail:
  assumes ok: "live_regions s A" "1026 \<le> avail s" "kernel_heap s = boot_heap" and b: "boot_layout b"
    and img: "kernel_image classic s"
  defines "s1 \<equiv> (idt_init (entry_table b) (idt_zero_entry b) (isr80h_entry b) s)"
  defines "s2 \<equiv> s1\<lparr>timer := pit_init 100 (timer s1)\<rparr>"
  defines "s3 \<equiv> s2\<lparr>mem := write32 (write32 (memset (mem s2) (tss_addr b) 0 100) (tss_addr b + 4) 0x600000)
      (tss_addr b + 8) 0x10\<rparr>"
  obtains chunk s4 s5 where "paging_new_4gb s3 7 = (chunk, s4)"
    "isr80h_register_commands (paging_switch (s4\<lparr>kernel_chunk := chunk\<rparr>) chunk) = Some s5"
    "linear_space (mem s5) chunk 7" "kernel_chunk s5 = chunk" "cr3 s5 = read32 (mem s5) chunk"
    "isr80h_commands s5 = map Some system_commands @ replicate 1011 None"
    "idt_descriptors s5 = idt_descriptors s1" "interrupt_callbacks s5 = interrupt_callbacks s1"
    "keyboards s5 = keyboards s" "keyboard_list_tail s5 = 0" "disk_tables s5 = disk_tables s"
    "tss_at (mem s5) (tss_addr b) = zero_tss\<lparr>tss_esp0 := 0x600000, tss_ss0 := 0x10\<rparr>"
proof -
  have tss: "mem s3 a = mem s a" if "table_byte boot_heap a" for a
  proof -
    have "\<not> in_range (tss_addr b) 100 a" "\<not> in_range (tss_addr b + 4) 4 a" "\<not> in_range (tss_addr b + 8) 4 a"
    proof -
      have a: "unat a < 0xE200" using that by (simp add: boot_ranges)
      have t: "0x100000 \<le> unat (tss_addr b)" "unat (tss_addr b) + 100 \<le> 0x1000000" using b by (simp_all add: boot_layout_def)
      have "unat (tss_addr b + 4) = unat (tss_addr b) + 4" "unat (tss_addr b + 8) = unat (tss_addr b) + 8"
        using unat_add_no_wrap[of "tss_addr b" 4] unat_add_no_wrap[of "tss_addr b" 8] t by simp_all
      then show "\<not> in_range (tss_addr b) 100 a" "\<not> in_range (tss_addr b + 4) 4 a" "\<not> in_range (tss_addr b + 8) 4 a"
        using a t in_range_nat[of "tss_addr b" 100 a] in_range_nat[of "tss_addr b + 4" 4 a]
          in_range_nat[of "tss_addr b + 8" 4 a] by simp_all
    qed
    then show ?thesis
      by (simp add: s3_def s2_def s1_def idt_init_eq write32_outside memset_read)
  qed
  have "live_regions (s\<lparr>mem := mem s3\<rparr>) A" "avail (s\<lparr>mem := mem s3\<rparr>) = avail s"
    by (rule live_regions_mem[OF ok(1)]; simp add: tss ok(3))+
  then have live3: "live_regions s3 A" "1026 \<le> avail s3"
    using ok by (simp_all add: live_regions_def kheap_ok_def avail_def s3_def s2_def s1_def idt_init_eq)
  obtain chunk s4 where c: "paging_new_4gb s3 7 = (chunk, s4)" by fastforce
  obtain m where m: "s4 = s3\<lparr>mem := m\<rparr>" using paging_new_4gb_mem[OF c] by blast
  have lin: "linear_space m chunk 7" using paging_new_4gb_ok(1)[OF live3 c] m by simp
  have "mem s4 a = mem s3 a" if "in_range (tss_addr b) 100 a" for a
  proof (rule paging_new_4gb_ok(6)[OF live3 c])
    have h: "kernel_heap s3 = boot_heap" using ok(3) by (simp add: s3_def s2_def s1_def idt_init_eq)
    have "0x100000 \<le> unat a" "unat a < 0x1000000"
      using that b in_range_nat[of "tss_addr b" 100 a] by (auto simp: boot_layout_def)
    then show "\<not> table_byte (kernel_heap s3) a" "\<not> pool_byte (kernel_heap s3) a" by (simp_all add: h boot_ranges)
  qed
  then have "tss_at m (tss_addr b) = tss_at (mem s3) (tss_addr b)" by (intro tss_at_cong) (simp add: m)
  also have "\<dots> = zero_tss\<lparr>tss_esp0 := 0x600000, tss_ss0 := 0x10\<rparr>" by (simp add: s3_def tss_at_init)
  finally have seg: "tss_at m (tss_addr b) = zero_tss\<lparr>tss_esp0 := 0x600000, tss_ss0 := 0x10\<rparr>" .
  let ?s = "paging_switch (s4\<lparr>kernel_chunk := chunk\<rparr>) chunk"
  have cmds: "isr80h_commands ?s = replicate 1024 None"
    using img by (simp add: kernel_image_def paging_switch_def m s3_def s2_def s1_def idt_init_eq Let_def)
  note reg = register_commands_table[OF cmds]
  show thesis
    by (rule that[OF c reg])
      (use lin img seg in \<open>simp_all add: kernel_image_def disk_tables_def paging_switch_def m s3_def s2_def s1_def idt_init_eq Let_def\<close>)
qed

lemma kernel_gdt_encodes: "\<exists>m'. gdt_structured_to_gdt m g (kernel_gdt t) = Some m'"
proof -
  have "\<forall>s \<in> set (kernel_gdt t). limit s > 65536 \<longrightarrow> limit s AND 0xFFF = 0xFFF" "8 * length (kernel_gdt t) \<le> 4294967296"
    by (simp_all add: kernel_gdt_def)
  from gdt_structured_to_gdt_ok[OF this, of m g] show ?thesis by blast
qed

lemma kheap_init_live:
  "live_regions (snd (kheap_init s)) (region_map boot_heap Map.empty)" "avail (snd (kheap_init s)) = 25600"
  "kernel_heap (snd (kheap_init s)) = boot_heap" "\<exists>m. snd (kheap_init s) = s\<lparr>mem := m, kernel_heap := boot_heap\<rparr>"
proof -
  let ?m = "memset (mem s) 0x7E00 0 25600"
  have i: "snd (kheap_init s) = s\<lparr>mem := ?m, kernel_heap := boot_heap\<rparr>"
    by (simp add: kheap_init_def heap_create_def heap_validate_alignment_def
        heap_validate_table_def boot_heap_def Let_def)
  have z: "mem (snd (kheap_init s)) a = 0" if "table_byte boot_heap a" for a
    using that by (simp add: i memset_read table_byte_def boot_heap_def)
  show h: "kernel_heap (snd (kheap_init s)) = boot_heap" by (simp add: i)
  show "live_regions (snd (kheap_init s)) (region_map boot_heap Map.empty)" "avail (snd (kheap_init s)) = 25600"
    by (rule boot_heap_live[OF h z], assumption)+
  show "\<exists>m. snd (kheap_init s) = s\<lparr>mem := m, kernel_heap := boot_heap\<rparr>" using i by blast
qed

subsection \<open>Properties\<close>

text \<open>
  C23: the kernel boots from a disk with the FAT16 driver in the table of file systems.  The set-up returns, for an
  image without the FAT16 signature (then no file system is bound to the disk) and for one with it whose root
  directory ends with a blank entry (then the volume is mounted: the private data hold the boot sector's header, and
  the root directory with its entries is in the heap).  In the state before the first program is loaded the kernel runs in an
  identity-mapped address space of its own, all thirteen system commands are registered,
  every gate leads to its entry, exceptions, timer and keyboard have their callbacks, and
  the keyboard is in the list with caps lock off, and the task state segment sends every interrupt of user
  mode to the kernel stack at \<^verbatim>\<open>0x600000\<close>.
\<close>

theorem kernel_setup_ok:
  assumes "boot_layout b" "kernel_image (classic_addr st) s" "classic_addr st \<noteq> 0"
    and "ops (fat16_fs_addr b) = fat16_filesystem d tmp (fat16_fs_addr b)" "holds_image d img"
    and "img 38 = 0x29 \<Longrightarrow> root_ends img k"
  shows "\<exists>s'. kernel_setup ops b st s = Some s' \<and>
     disk_decided s' (fat16_fs_addr b) img k \<and>
     linear_space (mem s') (kernel_chunk s') 7 \<and> cr3 s' = read32 (mem s') (kernel_chunk s') \<and>
     isr80h_commands s' = map Some system_commands @ replicate 1011 None \<and>
     (\<forall>i < 512. gate_address (idt_descriptors s' ! i) =
        (if i = 0x80 then isr80h_entry b else if i = 0 then idt_zero_entry b else entry_table b ! i)) \<and>
     (\<forall>i < 512. interrupt_callbacks s' ! i =
        (if i < 0x20 then Some Idt_handle_exception else if i = 0x20 then Some Pit_callback
         else if i = 0x21 then Some Classic_keyboard_handle_interrupt else None)) \<and>
     keyboard_list_head s' = classic_addr st \<and>
     keyboard_get_capslock (classic_addr st) s' = KEYBOARD_CAPS_LOCK_OFF \<and>
     tss_at (mem s') (tss_addr b) = zero_tss\<lparr>tss_esp0 := 0x600000, tss_ss0 := 0x10\<rparr>"
proof -
  obtain m0 t0 where t: "terminal_initialize (mem s) = (m0, t0)" by fastforce
  let ?s0 = "s\<lparr>mem := memset m0 (gdt_real b) 0 48, screen := t0\<rparr>"
  obtain m1 where g: "gdt_structured_to_gdt (mem ?s0) (gdt_real b) (kernel_gdt (tss_addr b)) = Some m1"
    using kernel_gdt_encodes by blast
  let ?h = "snd (kheap_init (?s0\<lparr>mem := m1\<rparr>))"
  obtain mh where mh: "?h = ?s0\<lparr>mem := m1\<rparr>\<lparr>mem := mh, kernel_heap := boot_heap\<rparr>" using kheap_init_live(4) by blast
  let ?f = "?h\<lparr>filesystems := fat16_fs_addr b # replicate 11 0, file_descriptors := replicate 512 0,
      fat16_name := [70, 65, 84, 49, 54, 0]\<rparr>"
  have f: "fs_init (fat16_fs_addr b) ?h = Some ?f"
    by (simp add: fs_init_def fs_load_def fs_static_load_def fat16_init_def fs_insert_filesystem_def
        fs_get_free_filesystem_def mh numeral_eq_Suc)
  have fl: "live_regions ?f (region_map boot_heap Map.empty)" "avail ?f = 25600" "kernel_heap ?f = boot_heap"
    using kheap_init_live[of "?s0\<lparr>mem := m1\<rparr>"] by (simp_all add: live_regions_def kheap_ok_def avail_def)
  have ft: "filesystems ?f = fat16_fs_addr b # replicate 11 0" by simp
  have fk: "kernel_tables ?f = kernel_tables s" by (simp add: mh[simplified] kernel_tables_def)
  obtain s2 A where d: "disk_search_and_init ops ?f = Some s2" "live_regions s2 A" "1026 \<le> avail s2"
    "kernel_heap s2 = boot_heap" "kernel_tables s2 = kernel_tables ?f" "disk_decided s2 (fat16_fs_addr b) img k"
    by (rule disk_search_ok[where ops = ops and fs = "fat16_fs_addr b", OF assms(4) _ assms(5,6) fl ft])
      (use assms(1) in \<open>simp add: boot_layout_def\<close>)
  have img: "kernel_image (classic_addr st) s2"
    using assms(2) d(5) fk by (simp add: kernel_image_def kernel_tables_def)
  let ?i = "idt_init (entry_table b) (idt_zero_entry b) (isr80h_entry b) s2"
  let ?p = "?i\<lparr>timer := pit_init 100 (timer ?i)\<rparr>"
  let ?t = "?p\<lparr>mem := write32 (write32 (memset (mem ?p) (tss_addr b) 0 100) (tss_addr b + 4) 0x600000)
      (tss_addr b + 8) 0x10\<rparr>"
  obtain chunk s4 s5 where p: "paging_new_4gb ?t 7 = (chunk, s4)"
    "isr80h_register_commands (paging_switch (s4\<lparr>kernel_chunk := chunk\<rparr>) chunk) = Some s5"
    "linear_space (mem s5) chunk 7" "kernel_chunk s5 = chunk" "cr3 s5 = read32 (mem s5) chunk"
    "isr80h_commands s5 = map Some system_commands @ replicate 1011 None"
    "idt_descriptors s5 = idt_descriptors ?i" "interrupt_callbacks s5 = interrupt_callbacks ?i"
    "keyboards s5 = keyboards s2" "keyboard_list_tail s5 = 0" "disk_tables s5 = disk_tables s2"
    "tss_at (mem s5) (tss_addr b) = zero_tss\<lparr>tss_esp0 := 0x600000, tss_ss0 := 0x10\<rparr>"
    by (rule setup_tail[OF d(2-4) assms(1) img]) blast
  have run: "kernel_setup ops b st s = Some (keyboard_init (classic_addr st) s5)"
    unfolding kernel_setup_def using t g f d(1) p(1,2) by (simp add: Let_def)
  have kb: "kbd_init (keyboards s5 (classic_addr st)) = Some Classic_keyboard_init"
    using p(9) img by (simp add: kernel_image_def classic_keyboard_def)
  have len2: "length (interrupt_callbacks s2) = 512" using img by (simp add: kernel_image_def)
  have len: "length (interrupt_callbacks s5) = 512" using idt_init_tables(3)[OF len2, of 0] p(8) by simp
  note k = keyboard_init_first[OF kb p(10) len]
  have none: "interrupt_callbacks s2 ! i = None" if "i < 512" for i
    using img that by (simp add: kernel_image_def)
  have gates: "gate_address (idt_descriptors s5 ! i) =
      (if i = 0x80 then isr80h_entry b else if i = 0 then idt_zero_entry b else entry_table b ! i)" if "i < 512" for i
    using idt_init_tables(1)[OF len2 that] p(7) by simp
  have cbs: "interrupt_callbacks (keyboard_init (classic_addr st) s5) ! i =
      (if i < 0x20 then Some Idt_handle_exception else if i = 0x20 then Some Pit_callback
       else if i = 0x21 then Some Classic_keyboard_handle_interrupt else None)" if "i < 512" for i
    unfolding k(4) p(8) using idt_init_tables(2,3)[OF len2 that] none[OF that] that
    by (auto simp: nth_list_update)
  have "disk_tables (keyboard_init (classic_addr st) s5) = disk_tables s2" using k(10) p(11) by simp
  then have "disk_decided (keyboard_init (classic_addr st) s5) (fat16_fs_addr b) img k"
    using d(6) disk_decided_cong by blast
  then show ?thesis
    using run k p(3-6,12) gates cbs by simp
qed

definition sample_boot :: boot_data where
  "sample_boot = \<lparr>gdt_real = 0x110000, tss_addr = 0x111000, fat16_fs_addr = 0x9000,
     entry_table = replicate 512 0x101000, idt_zero_entry = 0x102000, isr80h_entry = 0x103000, shell_path = 0x500\<rparr>"

definition sample_driver :: "('z kernel_state_scheme) filesystem_ops" where
  "sample_driver = fat16_filesystem (image_disk of_nat) 0x600 0x9000"

text \<open>A volume with two tables of one sector behind two reserved sectors and one entry in its root directory.\<close>

definition boot_image :: "nat \<Rightarrow> u8" where
  "boot_image i = (if i = 14 then 2 else if i = 16 then 2 else if i = 17 then 16 else if i = 22 then 1
     else if i = 38 then 0x29 else if i = 2048 then 65 else 0)"

lemma boot_image_root: "root_sector boot_image = 4" "root_bytes boot_image = 512" "root_ends boot_image 1"
  by (simp_all add: root_sector_def root_bytes_def image_half_def root_ends_def boot_image_def)

theorem kernel_setup_ok_witness:
  "\<exists>s'. kernel_setup (\<lambda>_. fat16_filesystem (image_disk boot_image) 0x600 0x9000) sample_boot sample_statics blank_kernel = Some s' \<and>
     gate_address (idt_descriptors s' ! 0x80) = 0x103000 \<and> linear_space (mem s') (kernel_chunk s') 7 \<and>
     filesystem (the_disk s') = 0x9000 \<and> total_items (root_directory (disk_private s')) = 1 \<and>
     ending_sector_position (root_directory (disk_private s')) = 5"
proof -
  let ?ops = "\<lambda>_. fat16_filesystem (image_disk boot_image) 0x600 0x9000"
  have "boot_layout sample_boot" by (simp add: boot_layout_def sample_boot_def)
  moreover have "kernel_image (classic_addr sample_statics) blank_kernel"
    by (simp add: kernel_image_def blank_kernel_def classic_keyboard_def)
  moreover have "classic_addr sample_statics \<noteq> 0" by (simp add: sample_statics_def)
  moreover have "?ops (fat16_fs_addr sample_boot) = fat16_filesystem (image_disk boot_image) 0x600 (fat16_fs_addr sample_boot)"
    by (simp add: sample_boot_def)
  ultimately obtain s' where s': "kernel_setup ?ops sample_boot sample_statics blank_kernel = Some s'"
    "disk_decided s' (fat16_fs_addr sample_boot) boot_image 1"
    "linear_space (mem s') (kernel_chunk s') 7"
    "\<forall>i < 512. gate_address (idt_descriptors s' ! i) =
        (if i = 0x80 then isr80h_entry sample_boot else if i = 0 then idt_zero_entry sample_boot else entry_table sample_boot ! i)"
    using kernel_setup_ok[of sample_boot sample_statics blank_kernel ?ops "image_disk boot_image" "0x600" boot_image 1,
        OF _ _ _ _ image_disk_holds boot_image_root(3)] by blast
  have "root_count boot_image 1 = 1" by (simp add: root_count_def boot_image_root boot_image_def)
  moreover have "boot_image 38 = 0x29" by (simp add: boot_image_def)
  ultimately have r: "filesystem (the_disk s') = 0x9000"
    "root_directory (disk_private s') = root_of boot_image 1 (dir_item (root_directory (disk_private s')))"
    and c: "root_count boot_image 1 = 1"
    using s'(2) by (simp_all add: disk_decided_def volume_mounted_def Let_def sample_boot_def)
  have "total_items (root_directory (disk_private s')) = 1" "ending_sector_position (root_directory (disk_private s')) = 5"
    by (subst r(2), simp add: root_of_def c[simplified] boot_image_root)+
  then show ?thesis using s' r(1) by (intro exI[of _ s']) (simp add: sample_boot_def)
qed

end
