(* ===== verification/Boi_Stdlib.thy ===== *)
theory Boi_Stdlib
  imports Boi_String "HOL-Library.Signed_Division" "HOL-Library.Monad_Syntax"
begin

text \<open>
  The library of the user programs (\<^verbatim>\<open>src/programs/stdlib\<close>): decimal conversion, reading and
  splitting of a command line, formatted output.  Its string functions are the
  kernel's (\<^verbatim>\<open>Boi_String\<close>), and system calls are visible as what they are asked to do.
\<close>

subsection \<open>Decimal conversion\<close>

text \<open>Writing to the static buffer of 12 bytes; \<open>None\<close> is a write outside of it.\<close>

definition put_text :: "int \<Rightarrow> u8 \<Rightarrow> u8 list \<Rightarrow> u8 list option" where
  "put_text i c buf = (if 0 \<le> i \<and> i < 12 then Some (buf[nat i := c]) else None)"

lemma sdiv_10_smaller: "i \<noteq> 0 \<Longrightarrow> nat \<bar>i sdiv 10\<bar> < nat \<bar>i\<bar>" for i :: int
proof -
  assume "i \<noteq> 0"
  have "\<bar>i sdiv 10\<bar> = \<bar>i\<bar> div 10" by (simp add: signed_divide_int_def sgn_if)
  then show ?thesis using \<open>i \<noteq> 0\<close> by linarith
qed

function itoa_loop :: "int \<Rightarrow> int \<Rightarrow> u8 list \<Rightarrow> (int \<times> u8 list) option" where
  "itoa_loop i loc buf =
     (if i = 0 then Some (loc, buf)
      else case put_text (loc - 1) (word_of_int (48 - i smod 10)) buf of
          None \<Rightarrow> None
        | Some buf \<Rightarrow> itoa_loop (i sdiv 10) (loc - 1) buf)"
  by pat_completeness auto
termination
  by (relation "measure (\<lambda>(i, loc, buf). nat \<bar>i\<bar>)") (use sdiv_10_smaller in auto)

declare itoa_loop.simps [simp del]

text \<open>The result is the index the returned pointer has in the buffer.\<close>

definition itoa :: "int \<Rightarrow> u8 list \<Rightarrow> (int \<times> u8 list) option" where
  "itoa i buf =
     do {
       buf \<leftarrow> put_text 11 0 buf;
       let neg = \<not> i \<ge> 0;
       let i = (if i \<ge> 0 then - i else i);
       (loc, buf) \<leftarrow> itoa_loop i 11 buf;
       (loc, buf) \<leftarrow> (if loc = 1 then map_option (\<lambda>t. (loc - 1, t)) (put_text (loc - 1) 48 buf) else Some (loc, buf));
       if neg then map_option (\<lambda>t. (loc - 1, t)) (put_text (loc - 1) 45 buf) else Some (loc, buf)
     }"

text \<open>The decimal digits of a number; none for 0.\<close>

fun dec_digits :: "nat \<Rightarrow> u8 list" where
  "dec_digits n = (if n = 0 then [] else dec_digits (n div 10) @ [48 + of_nat (n mod 10)])"

declare dec_digits.simps [simp del]

lemma dec_digits_0 [simp]: "dec_digits 0 = []"
  by (simp add: dec_digits.simps)

lemma dec_digits_length: "length (dec_digits n) \<le> k \<longleftrightarrow> n < 10 ^ k"
proof (induction k arbitrary: n)
  case 0
  show ?case by (subst dec_digits.simps) simp
next
  case (Suc k)
  show ?case
  proof (cases "n = 0")
    case False
    then have "length (dec_digits n) = Suc (length (dec_digits (n div 10)))" by (subst dec_digits.simps) simp
    moreover have "n div 10 < 10 ^ k \<longleftrightarrow> n < 10 ^ Suc k"
      by (simp add: div_less_iff_less_mult mult.commute)
    ultimately show ?thesis using Suc.IH[of "n div 10"] by simp
  qed simp
qed

lemma dec_digits_nonzero: "0 \<notin> set (dec_digits n)"
proof (induction n rule: dec_digits.induct)
  case (1 n)
  have "(48 + of_nat (n mod 10) :: u8) \<noteq> 0"
  proof
    assume z: "(48 + of_nat (n mod 10) :: u8) = 0"
    have "unat (of_nat (48 + n mod 10) :: u8) = 48 + n mod 10"
      by (subst unsigned_of_nat) (simp add: take_bit_nat_eq_self)
    then show False using z by simp
  qed
  then show ?case using 1 by (subst dec_digits.simps) auto
qed

lemma smod_sdiv_neg: "(- int n) smod 10 = - int (n mod 10)" "(- int n) sdiv 10 = - int (n div 10)"
  "int n smod 10 = int (n mod 10)" "int n sdiv 10 = int (n div 10)"
  by (simp_all add: signed_modulo_int_def signed_divide_int_def sgn_if zdiv_int zmod_int minus_mult_div_eq_mod)

lemma itoa_loop_digits:
  assumes "length (dec_digits n) \<le> l" "l \<le> 12" "length buf = 12"
  shows "itoa_loop (- int n) (int l) buf =
    Some (int (l - length (dec_digits n)), take (l - length (dec_digits n)) buf @ dec_digits n @ drop l buf)"
  using assms
proof (induction n arbitrary: l buf rule: dec_digits.induct)
  case (1 n)
  show ?case
  proof (cases "n = 0")
    case True
    then show ?thesis using 1(2-4) by (simp add: itoa_loop.simps)
  next
    case False
    let ?d = "48 + of_nat (n mod 10) :: u8"
    have dn: "dec_digits n = dec_digits (n div 10) @ [?d]" using False by (subst dec_digits.simps) simp
    then obtain k where l: "l = Suc k" "length (dec_digits (n div 10)) \<le> k" using 1(2) by (cases l) auto
    let ?t = "buf[k := ?d]"
    have w: "word_of_int (48 - (- int n) smod 10) = ?d" by (simp add: smod_sdiv_neg)
    have p: "put_text (int l - 1) (word_of_int (48 - (- int n) smod 10)) buf = Some ?t"
      unfolding w using l 1(3) by (simp add: put_text_def)
    have ih: "itoa_loop (- int (n div 10)) (int k) ?t = Some (int (k - length (dec_digits (n div 10))),
        take (k - length (dec_digits (n div 10))) ?t @ dec_digits (n div 10) @ drop k ?t)"
      by (rule 1(1)[OF False l(2)]) (use l 1(3,4) in simp_all)
    have dr: "drop k ?t = ?d # drop (Suc k) buf" using l 1(3,4)
      by (simp add: drop_update_swap Cons_nth_drop_Suc[symmetric])
    show ?thesis
      using ih p False l(1) by (subst itoa_loop.simps) (simp add: smod_sdiv_neg dr dn)
  qed
qed

subsection \<open>Reading a line\<close>

text \<open>
  The keys that \<^verbatim>\<open>boios_getkeyblock\<close> returns are a list; \<open>None\<close>: it waits for another one.
  The characters sent to \<^verbatim>\<open>boios_putchar\<close> are collected.
\<close>

fun readline_loop ::
    "bool \<Rightarrow> int \<Rightarrow> int \<Rightarrow> u8 list \<Rightarrow> u8 list \<Rightarrow> u8 list \<Rightarrow> (int \<times> u8 list \<times> u8 list \<times> u8 list) option" where
  "readline_loop echo mx i out put keys =
     (if \<not> i < mx - 1 then Some (i, out, put, keys)
      else
        (case keys of
           [] \<Rightarrow> None
         | key # keys \<Rightarrow>
             let put = put @ [179]
             in if key = 13 then Some (i, out, put, keys)
                else
                  let put = (if echo then put @ [0x08] else put)
                  in if echo \<and> key = 0x08 \<and> i = 0 then readline_loop echo mx i out put keys
                     else
                       let put = (if echo then put @ [key] else put)
                       in if key = 0x08 \<and> i \<ge> 1
                          then readline_loop echo mx (i - 1) (out[nat (i - 1) := 0]) put keys
                          else readline_loop echo mx (i + 1) (out[nat i := key]) put keys))"

declare readline_loop.simps [simp del]

definition boios_terminal_readline ::
    "u8 list \<Rightarrow> int \<Rightarrow> bool \<Rightarrow> u8 list \<Rightarrow> (u8 list \<times> u8 list \<times> u8 list) option" where
  "boios_terminal_readline out mx echo keys =
     map_option (\<lambda>(i, out, put, keys). (out[nat i := 0], put, keys)) (readline_loop echo mx 0 out [] keys)"

text \<open>The line an editor with backspace has, which takes at most \<open>m\<close> characters.\<close>

fun edit_line :: "nat \<Rightarrow> u8 list \<Rightarrow> u8 list \<Rightarrow> (u8 list \<times> u8 list) option" where
  "edit_line m line keys =
     (if \<not> length line < m then Some (line, keys)
      else
        (case keys of
           [] \<Rightarrow> None
         | key # keys \<Rightarrow>
             if key = 13 then Some (line, keys)
             else if key = 0x08 then edit_line m (butlast line) keys
             else edit_line m (line @ [key]) keys))"

declare edit_line.simps [simp del]

lemma readline_edit:
  assumes "take (length line) out = line" "length line \<le> m" "length out = Suc m"
  shows "(\<exists>line' rest out' put'. edit_line m line keys = Some (line', rest) \<and>
        readline_loop True (int (Suc m)) (int (length line)) out put keys = Some (int (length line'), out', put', rest) \<and>
        take (length line') out' = line' \<and> length line' \<le> m \<and> length out' = Suc m) \<or>
     (edit_line m line keys = None \<and>
        readline_loop True (int (Suc m)) (int (length line)) out put keys = None)"
  using assms
proof (induction keys arbitrary: line out put)
  case Nil
  then show ?case by (subst (1 2) edit_line.simps, subst (1 2) readline_loop.simps) auto
next
  case (Cons key keys)
  show ?case
  proof (cases "length line < m")
    case False
    then show ?thesis using Cons.prems by (subst (1 2) edit_line.simps, subst (1 2) readline_loop.simps) auto
  next
    case room: True
    consider "key = 13" | "key = 8" "line = []" | "key = 8" "line \<noteq> []" | "key \<noteq> 13" "key \<noteq> 8" by blast
    then show ?thesis
    proof cases
      case 1
      then show ?thesis using Cons.prems room by (subst (1 2) edit_line.simps, subst (1 2) readline_loop.simps) auto
    next
      case 2
      have "edit_line m line (key # keys) = edit_line m line keys"
        using 2 room by (subst edit_line.simps) simp
      moreover have "readline_loop True (int (Suc m)) (int (length line)) out put (key # keys) =
         readline_loop True (int (Suc m)) (int (length line)) out (put @ [179] @ [8]) keys"
        using 2 room by (subst readline_loop.simps) simp
      ultimately show ?thesis using Cons.IH[OF Cons.prems, of "put @ [179] @ [8]"] by simp
    next
      case 3
      obtain l c where l: "line = l @ [c]" using 3(2) by (cases line rule: rev_cases) auto
      let ?out = "out[length l := 0]"
      have "take (length l) (take (Suc (length l)) out) = take (length l) (l @ [c])" using Cons.prems(1) l by simp
      then have "take (length l) ?out = l" by (simp add: min_def)
      then have ih: "take (length l) ?out = l" "length l \<le> m" "length ?out = Suc m" using Cons.prems l by simp_all
      have "edit_line m line (key # keys) = edit_line m l keys"
        using 3 room l by (subst edit_line.simps) simp
      moreover have "readline_loop True (int (Suc m)) (int (length line)) out put (key # keys) =
         readline_loop True (int (Suc m)) (int (length l)) ?out (put @ [179, 8, 8]) keys"
        using 3 room l by (subst readline_loop.simps) simp
      ultimately show ?thesis using Cons.IH[OF ih, of "put @ [179, 8, 8]"] by simp
    next
      case 4
      let ?out = "out[length line := key]"
      have "take (Suc (length line)) ?out = line @ [key]"
        using Cons.prems room by (simp add: take_Suc_conv_app_nth)
      then have ih: "take (length (line @ [key])) ?out = line @ [key]" "length (line @ [key]) \<le> m" "length ?out = Suc m"
        using Cons.prems room by simp_all
      have "edit_line m line (key # keys) = edit_line m (line @ [key]) keys"
        using 4 room by (subst edit_line.simps) simp
      moreover have "readline_loop True (int (Suc m)) (int (length line)) out put (key # keys) =
         readline_loop True (int (Suc m)) (int (length (line @ [key]))) ?out (put @ [179, 8, key]) keys"
        using 4 room by (subst readline_loop.simps) (simp add: add.commute)
      ultimately show ?thesis using Cons.IH[OF ih, of "put @ [179, 8, key]"] by simp
    qed
  qed
qed

text \<open>Writing in front of what the buffer holds from an index on.\<close>

lemma put_front:
  "length (xs @ ys) = 12 \<Longrightarrow>
     put_text (int (length xs) - 1) c (xs @ ys) = (if xs = [] then None else Some (butlast xs @ c # ys))"
  by (cases xs rule: rev_cases) (auto simp: put_text_def nat_add_distrib)

lemma takeWhile_digits:
  "0 \<notin> set xs \<Longrightarrow> takeWhile (\<lambda>c. c \<noteq> 0) (xs @ dec_digits n @ [0]) = xs @ dec_digits n"
proof -
  assume "0 \<notin> set xs"
  then have "\<forall>c \<in> set (xs @ dec_digits n). c \<noteq> 0" using dec_digits_nonzero[of n] by auto
  then have "takeWhile (\<lambda>c. c \<noteq> 0) ((xs @ dec_digits n) @ [0]) = (xs @ dec_digits n) @ takeWhile (\<lambda>c. c \<noteq> 0) [0]"
    by (intro takeWhile_append2) simp
  then show ?thesis by simp
qed

subsection \<open>Properties\<close>

text \<open>
  C38: \<^verbatim>\<open>itoa\<close> on every \<^verbatim>\<open>int\<close>: the string is the decimal digits with the sign in front of
  them, except that 0 gives the empty string and a number of ten digits a leading zero;
  negative numbers of ten digits write in front of the static buffer.
\<close>

theorem itoa_result:
  assumes "- 2147483648 \<le> i" "i < 2147483648" "length buf = 12"
  shows "if i \<le> - 1000000000 then itoa i buf = None
    else \<exists>loc t. itoa i buf = Some (loc, t) \<and> 0 \<le> loc \<and> takeWhile (\<lambda>c. c \<noteq> 0) (drop (nat loc) t) =
      (if i < 0 then [45] else []) @ (if 1000000000 \<le> i then [48] else []) @ dec_digits (nat \<bar>i\<bar>)"
proof -
  define n where "n = nat \<bar>i\<bar>"
  define len where "len = length (dec_digits n)"
  define xs where "xs = take (11 - len) buf"
  define ys where "ys = dec_digits n @ [0]"
  have n: "(if i \<ge> 0 then - i else i) = - int n" by (simp add: n_def)
  have ni: "nat \<bar>i\<bar> = n" "\<not> i < 0 \<Longrightarrow> nat i = n" by (simp_all add: n_def)
  have l10: "len \<le> 10" unfolding len_def dec_digits_length using assms(1,2) by (simp add: n_def)
  have l9: "len \<le> 9 \<longleftrightarrow> n < 1000000000" unfolding len_def dec_digits_length by simp
  have lx: "length xs = 11 - len" "length (xs @ ys) = 12"
    using assms(3) l10 by (simp_all add: xs_def ys_def len_def)
  have "length (buf[11 := 0]) = 12" using assms(3) by simp
  then have "itoa_loop (- int n) 11 (buf[11 := 0]) = Some (int (length xs), xs @ ys)"
    using itoa_loop_digits[of n 11 "buf[11 := 0]"] l10 assms(3)
    by (simp add: len_def[symmetric] xs_def ys_def drop_update_swap Cons_nth_drop_Suc[symmetric])
  then have run: "itoa i buf = do {
       (loc, t) \<leftarrow> (if int (length xs) = 1 then map_option (\<lambda>t. (int (length xs) - 1, t)) (put_text (int (length xs) - 1) 48 (xs @ ys))
          else Some (int (length xs), xs @ ys));
       if i < 0 then map_option (\<lambda>t. (loc - 1, t)) (put_text (loc - 1) 45 t) else Some (loc, t) }"
    unfolding itoa_def n Let_def by (simp add: put_text_def not_le)
  show ?thesis
  proof (cases "n < 1000000000")
    case True
    then have l: "length xs \<noteq> 1" "xs \<noteq> []" using l9 lx(1) by auto
    have i: "\<not> i \<le> - 1000000000" "\<not> 1000000000 \<le> i" using True by (auto simp: n_def)
    have "itoa i buf = (if i < 0 then Some (int (length xs) - 1, butlast xs @ 45 # ys) else Some (int (length xs), xs @ ys))"
      unfolding run using l put_front[OF lx(2), of 45] by simp
    moreover have "nat (int (length xs) - 1) = length (butlast xs)" "0 \<le> int (length xs) - 1" using l by (cases xs; simp)+
    ultimately show ?thesis using i takeWhile_digits[of "[45]" n] takeWhile_digits[of "[]" n]
      by (auto simp: ys_def ni)
  next
    case False
    then have "len = 10" using l9 l10 by simp
    then obtain x where x: "xs = [x]" using lx(1) by (cases xs) auto
    have p: "put_text 0 48 (x # ys) = Some (48 # ys)" "length ([] @ 48 # ys) = 12"
      using put_front[OF lx(2), of 48] lx(2) by (simp_all add: x)
    then have "itoa i buf = (if i < 0 then None else Some (0, 48 # ys))"
      unfolding run x using put_front[OF p(2), of 45] by simp
    moreover have "i \<le> - 1000000000 \<longleftrightarrow> i < 0" "1000000000 \<le> i \<longleftrightarrow> \<not> i < 0" using False by (auto simp: n_def)
    ultimately show ?thesis using takeWhile_digits[of "[48]" n]
      by (auto simp: ys_def ni)
  qed
qed

theorem itoa_result_witness:
  "(\<exists>loc t. itoa (- 42) (replicate 12 0) = Some (loc, t) \<and>
     takeWhile (\<lambda>c. c \<noteq> 0) (drop (nat loc) t) = [45, 52, 50]) \<and> itoa (- 1000000000) (replicate 12 0) = None"
proof -
  have "dec_digits 42 = [52, 50]" by (simp add: dec_digits.simps)
  then show ?thesis
    using itoa_result[of "- 42" "replicate 12 0"] itoa_result[of "- 1000000000" "replicate 12 0"] by auto
qed

text \<open>
  C37: reading a line with echo is a line editor: \<^verbatim>\<open>boios_terminal_readline\<close> with room for
  \<open>m\<close> characters and the terminator waits exactly while the editor does, and returns
  its line with a NUL behind it and the same keys unread.
\<close>

theorem readline_is_editor:
  assumes "length out = Suc m"
  shows "case boios_terminal_readline out (int (Suc m)) True keys of
      None \<Rightarrow> edit_line m [] keys = None
    | Some (out', put, rest) \<Rightarrow> \<exists>line. edit_line m [] keys = Some (line, rest) \<and>
        take (Suc (length line)) out' = line @ [0]"
proof -
  have t: "take (Suc (length line)) (out'[length line := 0]) = line @ [0]"
    if "take (length line) out' = line" "length line \<le> m" "length out' = Suc m" for line out' :: "u8 list"
    using that by (simp add: take_Suc_conv_app_nth)
  show ?thesis
    using readline_edit[of "[]" out m keys "[]"] assms t
    by (auto simp: boios_terminal_readline_def)
qed

theorem readline_is_editor_witness:
  "\<exists>out' put. boios_terminal_readline (replicate 8 0) 8 True [104, 105, 8, 111, 13, 120] = Some (out', put, [120]) \<and>
     take 3 out' = [104, 111, 0]"
proof -
  have "edit_line 7 [] [104, 105, 8, 111, 13, 120] = Some ([104, 111], [120])"
    by (simp add: edit_line.simps)
  then show ?thesis
    using readline_is_editor[of "replicate 8 0" 7 "[104, 105, 8, 111, 13, 120]"]
    by (auto split: option.splits simp: numeral_3_eq_3)
qed

subsection \<open>Splitting a line\<close>

definition is_delim :: "memory \<Rightarrow> addr \<Rightarrow> nat \<Rightarrow> u8 \<Rightarrow> bool" where
  "is_delim m d len c \<longleftrightarrow> list_ex (\<lambda>i. c = m (d + of_nat i)) [0..<len]"

partial_function (option) skip_delims :: "memory \<Rightarrow> addr \<Rightarrow> nat \<Rightarrow> addr \<Rightarrow> addr option" where
  "skip_delims m d len p = (if is_delim m d len (m p) then skip_delims m d len (p + 1) else Some p)"

partial_function (option) token_end :: "memory \<Rightarrow> addr \<Rightarrow> nat \<Rightarrow> addr \<Rightarrow> (memory \<times> addr) option" where
  "token_end m d len sp =
     (if m sp = 0 then Some (m, sp)
      else if is_delim m d len (m sp) then Some (m(sp := 0), sp + 1)
      else token_end m d len (sp + 1))"

text \<open>
  \<open>sp\<close> is the static position.  The result is the token, the memory and the new position;
  a string given while the position is not null is ignored, as in the code.
\<close>

definition strtok :: "memory \<Rightarrow> addr \<Rightarrow> addr \<Rightarrow> addr \<Rightarrow> (addr \<times> memory \<times> addr) option" where
  "strtok m sp str d =
     do {
       len \<leftarrow> strlen m d;
       if str = 0 \<and> sp = 0 then Some (0, m, sp)
       else
         let sp = (if str \<noteq> 0 \<and> sp = 0 then str else sp)
         in do {
           p_start \<leftarrow> skip_delims m d (unat len) sp;
           if m p_start = 0 then Some (0, m, 0)
           else do {
             (m, sp) \<leftarrow> token_end m d (unat len) p_start;
             Some (p_start, m, sp)
           }
         }
     }"

subsection \<open>Formatted output\<close>

datatype printf_arg = Int_arg int | String_arg addr

text \<open>What is sent to the terminal: single characters, strings in memory, and numbers.\<close>

datatype terminal_output = Put_char u8 | Put_string addr | Put_text "u8 list"

text \<open>
  \<open>text\<close> is the static buffer of \<^verbatim>\<open>itoa\<close>.  \<open>None\<close> is an access the C code does not define:
  a missing or mistyped argument, or \<^verbatim>\<open>itoa\<close> writing outside its buffer.
\<close>

partial_function (option) printf_loop ::
    "memory \<Rightarrow> addr \<Rightarrow> printf_arg list \<Rightarrow> u8 list \<Rightarrow> terminal_output list \<Rightarrow> terminal_output list option" where
  "printf_loop m p args buf out =
     (if m p = 0 then Some out
      else if m p \<noteq> 37 then printf_loop m (p + 1) args buf (out @ [Put_char (m p)])
      else if m (p + 1) = 105 then
        (case args of
           Int_arg i # args \<Rightarrow>
             (case itoa i buf of
                None \<Rightarrow> None
              | Some (loc, buf) \<Rightarrow> printf_loop m (p + 2) args buf
                  (out @ [Put_text (takeWhile (\<lambda>c. c \<noteq> 0) (drop (nat loc) buf))]))
         | _ \<Rightarrow> None)
      else if m (p + 1) = 115 then
        (case args of String_arg q # args \<Rightarrow> printf_loop m (p + 2) args buf (out @ [Put_string q]) | _ \<Rightarrow> None)
      else printf_loop m (p + 2) args buf (out @ [Put_char (m (p + 1))]))"

definition printf :: "memory \<Rightarrow> addr \<Rightarrow> printf_arg list \<Rightarrow> u8 list \<Rightarrow> terminal_output list option" where
  "printf m format args buf = printf_loop m format args buf []"

subsection \<open>Tokens\<close>

text \<open>The delimiters are the bytes \<open>ds\<close>.\<close>

lemma is_delim_set:
  assumes "cstr m d ds"
  shows "is_delim m d (length ds) c \<longleftrightarrow> c \<in> set ds"
proof -
  have "is_delim m d (length ds) c \<longleftrightarrow> (\<exists>i < length ds. c = m (d + of_nat i))"
    by (auto simp: is_delim_def list_ex_iff)
  also have "\<dots> \<longleftrightarrow> (\<exists>i < length ds. c = ds ! i)" using cstr_nth[OF assms] by auto
  also have "\<dots> \<longleftrightarrow> c \<in> set ds" by (auto simp: in_set_conv_nth)
  finally show ?thesis .
qed

lemma skip_delims_cstr:
  assumes "cstr m d ds" "cstr m p cs"
  shows "skip_delims m d (length ds) p = Some (p + of_nat (length (takeWhile (\<lambda>c. c \<in> set ds) cs)))"
  using assms(2)
proof (induction cs arbitrary: p)
  case Nil
  then have "\<not> is_delim m d (length ds) (m p)"
    unfolding is_delim_set[OF assms(1)] using cstr_no_nul[OF assms(1)] by auto
  then show ?case by (subst skip_delims.simps) simp
next
  case (Cons c cs)
  then have c: "m p = c" "cstr m (p + 1) cs" by auto
  show ?case
    using Cons.IH[OF c(2)] c(1) by (subst skip_delims.simps) (simp add: is_delim_set[OF assms(1)] add.assoc)
qed

lemma token_end_cstr:
  assumes "cstr m d ds" "cstr m p cs"
  defines "t \<equiv> takeWhile (\<lambda>c. c \<notin> set ds) cs"
  shows "token_end m d (length ds) p =
    Some (if length t = length cs then (m, p + of_nat (length t))
      else (m(p + of_nat (length t) := 0), p + of_nat (length t) + 1))"
  using assms(2) unfolding t_def
proof (induction cs arbitrary: p)
  case Nil
  then show ?case by (subst token_end.simps) simp
next
  case (Cons c cs)
  then have c: "m p = c" "c \<noteq> 0" "cstr m (p + 1) cs" by auto
  show ?case
    using Cons.IH[OF c(3)] c by (subst token_end.simps) (simp add: is_delim_set[OF assms(1)] add.assoc)
qed

lemma cstr_cut:
  "cstr m p s \<Longrightarrow> n < length s \<Longrightarrow> cstr (m(p + of_nat n := 0)) p (take n s)"
proof (induction s arbitrary: p n)
  case (Cons c s)
  show ?case
  proof (cases n)
    case (Suc k)
    have "length (c # s) < 4294967296" by (rule cstr_length[OF Cons.prems(1)])
    then have "unat (of_nat (Suc k) :: u32) = Suc k" using Cons.prems(2) Suc by (intro unat_of_nat32) simp
    then have "(of_nat (Suc k) :: u32) \<noteq> 0" by (metis nat.distinct(1) unat_0)
    then have "p \<noteq> p + of_nat (Suc k)" by (metis add_cancel_right_right)
    moreover have "cstr (m(p + 1 + of_nat k := 0)) (p + 1) (take k s)"
      by (rule Cons.IH) (use Cons.prems Suc in auto)
    moreover have "p + 1 + of_nat k = p + of_nat (Suc k)" by simp
    ultimately have "cstr (m(p + of_nat (Suc k) := 0)) (p + 1) (take k s)" "(m(p + of_nat (Suc k) := 0)) p = m p"
      by (metis, metis fun_upd_other)
    then show ?thesis using Cons.prems(1) unfolding Suc take_Suc_Cons cstr.simps by simp
  qed simp
qed simp

lemma cstr_behind_cut:
  assumes "cstr m p s" "n < length s"
  shows "cstr (m(p + of_nat n := 0)) (p + of_nat n + 1) (drop (Suc n) s)"
proof -
  have "cstr m (p + of_nat (Suc n)) (drop (Suc n) s)" by (rule cstr_drop[OF assms(1)]) (use assms(2) in simp)
  moreover have "p + of_nat (Suc n) = p + of_nat n + 1" by simp
  ultimately have "cstr m (p + of_nat n + 1) (drop (Suc n) s)" by metis
  moreover have "\<not> in_range (p + of_nat n + 1) (Suc (length (drop (Suc n) s))) (p + of_nat n)"
    using cstr_length[OF assms(1)] assms(2) by (simp add: in_range_def unat_minus_1)
  ultimately show ?thesis by (simp add: cstr_upd)
qed

lemma strtok_run:
  assumes "cstr m d ds" "cstr m p cs" "p \<noteq> 0" "sp = 0 \<and> str = p \<or> str = 0 \<and> sp = p"
  shows "let n = length (takeWhile (\<lambda>c. c \<in> set ds) cs);
      rest = drop n cs; t = takeWhile (\<lambda>c. c \<notin> set ds) rest; q = p + of_nat n
    in if rest = [] then strtok m sp str d = Some (0, m, 0)
       else if t = rest then strtok m sp str d = Some (q, m, q + of_nat (length t)) \<and> cstr m q t
       else \<exists>m'. strtok m sp str d = Some (q, m', q + of_nat (length t) + 1) \<and> cstr m' q t \<and>
          cstr m' (q + of_nat (length t) + 1) (drop (Suc (length t)) rest) \<and>
          m' = m(q + of_nat (length t) := 0)"
proof -
  define n where "n = length (takeWhile (\<lambda>c. c \<in> set ds) cs)"
  define rest where "rest = drop n cs"
  define t where "t = takeWhile (\<lambda>c. c \<notin> set ds) rest"
  define q where "q = p + of_nat n"
  have nl: "n \<le> length cs" by (simp add: n_def length_takeWhile_le)
  have cq: "cstr m q rest" unfolding q_def rest_def by (rule cstr_drop[OF assms(2) nl])
  have len: "strlen m d = Some (of_nat (length ds))" "unat (of_nat (length ds) :: u32) = length ds"
    using assms(1) cstr_length[OF assms(1)] by (simp_all add: strlen_cstr unat_of_nat32)
  have skip: "skip_delims m d (length ds) p = Some q"
    using skip_delims_cstr[OF assms(1,2)] by (simp add: q_def n_def)
  have call: "strtok m sp str d = (if m q = 0 then Some (0, m, 0)
      else map_option (\<lambda>(m, sp). (q, m, sp)) (token_end m d (length ds) q))"
    using assms(3,4) len skip
    by (auto simp: strtok_def Let_def map_option_case split: option.splits prod.splits)
  show ?thesis
  proof (cases rest)
    case Nil
    then have "strtok m sp str d = Some (0, m, 0)" using cq call by simp
    then show ?thesis using Nil unfolding Let_def n_def[symmetric] rest_def[symmetric] by simp
  next
    case (Cons c cs')
    then have "m q \<noteq> 0" "rest \<noteq> []" using cq by auto
    note ne = this(2)
    note te = token_end_cstr[OF assms(1) cq, folded t_def]
    have tl: "length t \<le> length rest" by (simp add: t_def length_takeWhile_le)
    have tt: "t = take (length t) rest" unfolding t_def by (rule takeWhile_eq_take)
    have full: "length t = length rest \<longleftrightarrow> t = rest" using tt by (metis take_all order_refl)
    show ?thesis
    proof (cases "t = rest")
      case True
      have "strtok m sp str d = Some (q, m, q + of_nat (length t))"
        unfolding call te using \<open>m q \<noteq> 0\<close> True by simp
      then show ?thesis using True cq ne
        unfolding Let_def n_def[symmetric] rest_def[symmetric] t_def[symmetric] q_def[symmetric] by metis
    next
      case False
      let ?m = "m(q + of_nat (length t) := 0)"
      have lt: "length t < length rest" using tl full False by linarith
      have lr: "length rest < 4294967296" by (rule cstr_length[OF cq])
      have t1: "cstr ?m q t"
        using cstr_cut[OF cq lt] tt by simp
      have t2: "cstr ?m (q + of_nat (length t) + 1) (drop (Suc (length t)) rest)"
        by (rule cstr_behind_cut[OF cq lt])
      have "strtok m sp str d = Some (q, ?m, q + of_nat (length t) + 1)"
        unfolding call te using \<open>m q \<noteq> 0\<close> lt by simp
      then show ?thesis using False ne t1 t2
        unfolding Let_def n_def[symmetric] rest_def[symmetric] t_def[symmetric] q_def[symmetric] by metis
    qed
  qed
qed

text \<open>
  one call of \<^verbatim>\<open>strtok\<close> at a string \<open>cs\<close> and with delimiters \<open>ds\<close>: without any other
  character the result is null and the position is reset.  Otherwise the result is the
  first longest run of other characters, which is now a string of its own; the position
  is behind its delimiter, where the rest of the line still is, and no byte
  but that delimiter has changed.
\<close>

theorem strtok_token:
  assumes "cstr m d ds" "cstr m p cs" "p \<noteq> 0" "sp = 0 \<and> str = p \<or> str = 0 \<and> sp = p"
  shows "let n = length (takeWhile (\<lambda>c. c \<in> set ds) cs);
      rest = drop n cs; t = takeWhile (\<lambda>c. c \<notin> set ds) rest; q = p + of_nat n
    in if rest = [] then strtok m sp str d = Some (0, m, 0)
       else if t = rest then strtok m sp str d = Some (q, m, q + of_nat (length t)) \<and> cstr m q t
       else \<exists>m'. strtok m sp str d = Some (q, m', q + of_nat (length t) + 1) \<and> cstr m' q t \<and>
          cstr m' (q + of_nat (length t) + 1) (drop (Suc (length t)) rest) \<and>
          m' = m(q + of_nat (length t) := 0)"
  using assms by (rule strtok_run)

text \<open>The line \<^verbatim>\<open> hi x\<close> at \<open>0x100\<close> and a space as the delimiter at \<open>0x200\<close>.\<close>

theorem strtok_token_witness:
  "\<exists>m'. strtok (store_bytes (store_bytes (\<lambda>_. 0) 0x100 [32, 104, 105, 32, 120, 0]) 0x200 [32, 0]) 0 0x100 0x200 =
     Some (0x101, m', 0x104) \<and> cstr m' 0x101 [104, 105] \<and> cstr m' 0x104 [120]"
proof -
  let ?m = "store_bytes (store_bytes (\<lambda>_. 0) 0x100 [32, 104, 105, 32, 120, 0]) 0x200 [32, 0]"
  have d: "cstr ?m 0x200 [32]" "cstr ?m 0x100 [32, 104, 105, 32, 120]" by simp_all
  show ?thesis using strtok_token[OF d, of 0 "0x100"] by (simp add: Let_def)
qed

end
