(* ===== verification/Boi_Command.thy ===== *)
theory Boi_Command
  imports Boi_Lifecycle Boi_Stdlib
begin

text \<open>
  A command line on its way from the keyboard to the \<^verbatim>\<open>argv\<close> of a program: the loop of the shell, \<^verbatim>\<open>boios_system_run\<close> and
  \<^verbatim>\<open>boios_parse_command\<close> in the program (\<^verbatim>\<open>src/programs\<close>), \<^verbatim>\<open>process_inject_arguments\<close> of \<^verbatim>\<open>src/task/process.c\<close> in the kernel.
  A program's own memory is the kernel's: the addresses that \<^verbatim>\<open>process_malloc\<close> returns are mapped to themselves.
\<close>

subsection \<open>The words of a line\<close>

text \<open>The longest runs of other characters than the delimiters \<open>ds\<close>.\<close>

function line_words :: "u8 set \<Rightarrow> u8 list \<Rightarrow> u8 list list" where
  "line_words D cs =
     (let rest = dropWhile (\<lambda>c. c \<in> D) cs; t = takeWhile (\<lambda>c. c \<notin> D) rest
      in if rest = [] then [] else t # line_words D (drop (Suc (length t)) rest))"
  by pat_completeness auto
termination
proof (relation "measure (\<lambda>(D, cs). length cs)", goal_cases)
  case (2 D cs rest t)
  then have "0 < length rest" "length rest \<le> length cs" by (simp_all add: length_dropWhile_le)
  then have "length (drop (Suc (length t)) rest) < length cs" unfolding length_drop by linarith
  then show ?case by simp
qed simp

declare line_words.simps [simp del]

lemma line_words_Nil [simp]: "line_words D [] = []"
  by (subst line_words.simps) simp

lemma line_words_no_nul:
  "w \<in> set (line_words D cs) \<Longrightarrow> set w \<subseteq> set cs \<and> length w \<le> length cs"
proof (induction D cs rule: line_words.induct)
  case (1 D cs)
  let ?rest = "dropWhile (\<lambda>c. c \<in> D) cs" and ?t = "takeWhile (\<lambda>c. c \<notin> D) (dropWhile (\<lambda>c. c \<in> D) cs)"
  have ne: "?rest \<noteq> []" using 1(2) by (subst (asm) line_words.simps) (auto simp: Let_def split: if_splits)
  have r: "set ?rest \<subseteq> set cs" "length ?rest \<le> length cs" by (auto simp: set_dropWhileD length_dropWhile_le)
  have "w = ?t \<or> w \<in> set (line_words D (drop (Suc (length ?t)) ?rest))"
    using 1(2) ne by (subst (asm) line_words.simps) (auto simp: Let_def split: if_splits)
  then show ?case
  proof
    assume "w = ?t"
    moreover have "set ?t \<subseteq> set ?rest" "length ?t \<le> length ?rest" by (auto dest: set_takeWhileD simp: length_takeWhile_le)
    ultimately show ?thesis using r by auto
  next
    assume "w \<in> set (line_words D (drop (Suc (length ?t)) ?rest))"
    then have "set w \<subseteq> set (drop (Suc (length ?t)) ?rest) \<and> length w \<le> length (drop (Suc (length ?t)) ?rest)"
      by (rule 1(1)[OF refl refl ne])
    moreover have "set (drop (Suc (length ?t)) ?rest) \<subseteq> set ?rest" by (rule set_drop_subset)
    ultimately show ?thesis using r by auto
  qed
qed

text \<open>
  The position between two calls of \<^verbatim>\<open>strtok\<close> on a buffer of the bytes \<open>B\<close>: the token just
  found and the words still to come.
\<close>

definition tokens_left :: "memory \<Rightarrow> (addr \<Rightarrow> bool) \<Rightarrow> u8 set \<Rightarrow> addr \<Rightarrow> addr \<Rightarrow> u8 list list \<Rightarrow> bool" where
  "tokens_left m B D token sp ws \<longleftrightarrow>
     (if token = 0 then sp = 0 \<and> ws = []
      else \<exists>t rest. ws = t # line_words D rest \<and> cstr m token t \<and> cstr m sp rest \<and>
        (\<forall>a. in_range token (Suc (length t)) a \<or> in_range sp (Suc (length rest)) a \<longrightarrow> B a))"

lemma tokens_left_cong:
  "tokens_left m B D token sp ws \<Longrightarrow> (\<And>a. B a \<Longrightarrow> m' a = m a) \<Longrightarrow> tokens_left m' B D token sp ws"
  unfolding tokens_left_def by (metis cstr_cong)

lemma in_range_sub:
  assumes "in_range (p + of_nat k) n a" "k + n \<le> j" "j \<le> 4294967296"
  shows "in_range p j a"
proof -
  obtain i where i: "a = p + of_nat k + of_nat i" "i < n" using assms(1) by (rule in_rangeE)
  have "unat (of_nat (k + i) :: u32) = k + i" using assms(2,3) i(2) by (intro unat_of_nat32) linarith
  moreover have "a - p = of_nat (k + i)" using i(1) by simp
  ultimately show ?thesis using assms(2) i(2) by (simp add: in_range_def)
qed

lemma strtok_words:
  assumes d: "cstr m d ds" and p: "cstr m p cs" and sp: "sp = 0 \<and> str = p \<or> str = 0 \<and> sp = p"
    and B: "\<And>a. in_range p (Suc (length cs)) a \<Longrightarrow> B a" "\<not> B 0"
  obtains token m' sp' where "strtok m sp str d = Some (token, m', sp')"
    "\<And>a. \<not> B a \<Longrightarrow> m' a = m a" "tokens_left m' B (set ds) token sp' (line_words (set ds) cs)"
proof -
  define n where "n = length (takeWhile (\<lambda>c. c \<in> set ds) cs)"
  define rest where "rest = drop n cs"
  define t where "t = takeWhile (\<lambda>c. c \<notin> set ds) rest"
  define q where "q = p + of_nat n"
  have lc: "length cs < 4294967296" by (rule cstr_length[OF p])
  have nl: "n \<le> length cs" by (simp add: n_def length_takeWhile_le)
  have tl: "length t \<le> length rest" by (simp add: t_def length_takeWhile_le)
  have lr: "n + length rest = length cs" using nl by (simp add: rest_def)
  have sub: "B a" if "in_range (p + of_nat k) i a" "k + i \<le> Suc (length cs)" for k i a
    by (rule B(1), rule in_range_sub[OF that]) (use lc in simp)
  have p0: "p \<noteq> 0" using sub[of 0 1 p] B(2) by (auto simp: in_range_def)
  have q0: "q \<noteq> 0" using sub[of n 1 q] B(2) nl by (auto simp: in_range_def q_def)
  have dw: "dropWhile (\<lambda>c. c \<in> set ds) cs = rest" by (simp add: dropWhile_eq_drop rest_def n_def)
  have w: "line_words (set ds) cs = (if rest = [] then [] else t # line_words (set ds) (drop (Suc (length t)) rest))"
    by (subst line_words.simps) (simp add: dw t_def Let_def)
  note run = strtok_run[OF d p p0 sp, unfolded Let_def, folded n_def, folded rest_def q_def, folded t_def]
  show thesis
  proof (cases "rest = []")
    case True
    then show ?thesis using run w by (intro that[of 0 m 0]) (simp_all add: tokens_left_def)
  next
    case False
    have in_t: "B a" if "in_range q (Suc (length t)) a" for a
      by (rule sub[of n "Suc (length t)"]) (use that lr tl in \<open>simp_all add: q_def\<close>)
    show ?thesis
    proof (cases "t = rest")
      case True
      have e: "q + of_nat (length t) = p + of_nat (length cs)" using lr True by (simp add: q_def flip: of_nat_add)
      then have e': "q + of_nat (length rest) = p + of_nat (length cs)" using True by simp
      have "cstr m (p + of_nat (length cs)) []" using cstr_end[OF p] by simp
      moreover have "B a" if "in_range (p + of_nat (length cs)) (Suc 0) a" for a
        by (rule sub[OF that]) simp
      ultimately show ?thesis using run w True False in_t q0
        by (intro that[of q m "q + of_nat (length t)"]) (auto simp: tokens_left_def e e' intro!: exI[of _ "[]"])
    next
      case False
      let ?m = "m(q + of_nat (length t) := 0)" and ?r = "drop (Suc (length t)) rest"
      have lt: "length t < length rest"
        using tl False takeWhile_eq_take[of "\<lambda>c. c \<notin> set ds" rest] unfolding t_def[symmetric]
        by (metis le_neq_implies_less order_refl take_all)
      have "B (q + of_nat (length t))"
        by (rule in_t) (use lt lr lc in \<open>simp add: in_range_def unat_of_nat32\<close>)
      then have fr: "?m a = m a" if "\<not> B a" for a using that by auto
      have e: "q + of_nat (length t) + 1 = p + of_nat (n + Suc (length t))" by (simp add: q_def add.commute add.left_commute)
      have in_r: "B a" if "in_range (q + of_nat (length t) + 1) (Suc (length ?r)) a" for a
        by (rule sub[of "n + Suc (length t)" "Suc (length ?r)"]) (use that lt lr in \<open>simp_all only: e, simp_all\<close>)
      show ?thesis
        by (rule that[of q ?m "q + of_nat (length t) + 1"])
          (use run w False \<open>rest \<noteq> []\<close> fr in_t in_r q0 in \<open>auto simp: tokens_left_def intro!: exI[of _ ?r]\<close>)
    qed
  qed
qed

subsection \<open>Memory the programs hold\<close>

text \<open>A byte of a live region that is no page table of the process.\<close>

definition held :: "addr \<Rightarrow> 'z task_state_scheme \<Rightarrow> (addr \<rightharpoonup> nat) \<Rightarrow> addr \<Rightarrow> bool" where
  "held process s A a \<longleftrightarrow>
     (\<exists>q n. A q = Some n \<and> in_range q n a \<and> q \<notin> space_pages (mem s) (proc_chunk process s))"

lemma held_nonzero:
  assumes "live_regions s A" "kernel_heap s = boot_heap" "held process s A a"
  shows "a \<noteq> 0" "\<not> table_byte boot_heap a"
proof -
  obtain q n where q: "A q = Some n" "in_range q n a" using assms(3) by (auto simp: held_def)
  show "a \<noteq> 0" using kpages.live_pool[OF assms(1) q] assms(2) by (auto simp: boot_ranges)
  show "\<not> table_byte boot_heap a" using kpages.live_private[OF assms(1) q] assms(2) by simp
qed

lemma held_no_page:
  assumes "live_regions s A" "space_live s A (proc_chunk process s)" "held process s A a"
    and "r \<in> space_pages (mem s) (proc_chunk process s)"
  shows "\<not> in_range r 4096 a"
proof -
  obtain q n where q: "A q = Some n" "in_range q n a" "q \<notin> space_pages (mem s) (proc_chunk process s)"
    using assms(3) by (auto simp: held_def)
  have "A r = Some 4096" "r \<noteq> q" using assms(2,4) q(3) by (auto simp: space_live_def)
  then show ?thesis using kpages.live_apart[OF assms(1) q(1)] q(2) by (auto simp: disjoint_ranges_def)
qed

text \<open>Writing to such bytes keeps the process consistent.\<close>

lemma held_write:
  assumes ok: "proc_mem_ok process s A" and w: "\<And>a. \<not> held process s A a \<Longrightarrow> m a = mem s a"
  shows "proc_mem_ok process (s\<lparr>mem := m\<rparr>) A" "avail (s\<lparr>mem := m\<rparr>) = avail s"
    "held process (s\<lparr>mem := m\<rparr>) A = held process s A"
    "page_aligned v \<Longrightarrow> proc_entry process (s\<lparr>mem := m\<rparr>) v = proc_entry process s v"
proof -
  have l: "live_regions s A" "kernel_heap s = boot_heap" "space_live s A (proc_chunk process s)"
    using ok by (simp_all add: proc_mem_ok_def)
  have "m a = mem s a"
    if "table_byte boot_heap a \<or> (\<exists>q \<in> space_pages (mem s) (proc_chunk process s). in_range q 4096 a)" for a
    using that held_nonzero(2)[OF l(1,2)] held_no_page[OF l(1,3)] w by blast
  note c = proc_mem_ok_cong[OF ok this]
  have "\<forall>q \<in> space_pages (mem s) (proc_chunk process s). \<forall>a. in_range q 4096 a \<longrightarrow> m a = mem s a"
    using held_no_page[OF l(1,3)] w by blast
  from space_cong(5)[OF this]
  show "page_aligned v \<Longrightarrow> proc_entry process (s\<lparr>mem := m\<rparr>) v = proc_entry process s v"
    by (simp add: proc_entry_def)
  show "proc_mem_ok process (s\<lparr>mem := m\<rparr>) A" "avail (s\<lparr>mem := m\<rparr>) = avail s" using c by blast+
  show "held process (s\<lparr>mem := m\<rparr>) A = held process s A" using c(3) by (simp add: held_def fun_eq_iff)
qed

definition free_slots :: "process_allocation list \<Rightarrow> nat" where
  "free_slots as = length (filter (\<lambda>a. alloc_ptr a = 0) as)"

lemma free_slots_take:
  assumes "find_allocation as 0 0 = Some i" "alloc_ptr x \<noteq> 0"
  shows "free_slots as = Suc (free_slots (as[i := x]))"
proof -
  have i: "i < length as" "alloc_ptr (as ! i) = 0" using find_allocation_Some[OF assms(1)] by simp_all
  have "as = take i as @ as ! i # drop (Suc i) as" using i(1) by (rule id_take_nth_drop)
  then have "free_slots as = free_slots (take i as @ as ! i # drop (Suc i) as)" by metis
  then show ?thesis using i assms(2) by (simp add: free_slots_def upd_conv_take_nth_drop)
qed

lemma free_slots_find: "0 < free_slots as \<Longrightarrow> \<exists>i. find_allocation as 0 0 = Some i"
  by (auto simp: free_slots_def filter_empty_conv in_set_conv_nth intro: find_allocation_some)

text \<open>What a program sees of one allocation.\<close>

lemma process_malloc_keeps:
  fixes s :: "'z process_state_scheme"
  assumes ok: "proc_mem_ok process s A" and sz: "0 < unat sz" "unat sz \<le> 4096" and av: "0 < avail s"
    and slots: "0 < free_slots (pr_allocations (procs s process))"
  obtains p s' where "process_malloc process sz s = (p, s')" "p \<noteq> 0" "A p = None" "page_aligned p"
    "proc_mem_ok process s' (A(p \<mapsto> 4096))" "avail s = Suc (avail s')"
    "free_slots (pr_allocations (procs s process)) = Suc (free_slots (pr_allocations (procs s' process)))"
    "\<And>a. held process s A a \<Longrightarrow> mem s' a = mem s a \<and> held process s' (A(p \<mapsto> 4096)) a \<and> \<not> in_range p 4096 a"
    "\<And>a. in_range p 4096 a \<Longrightarrow> held process s' (A(p \<mapsto> 4096)) a"
    "proc_entry process s' p = p OR 7"
    "\<And>w. page_aligned w \<Longrightarrow> w \<noteq> p \<Longrightarrow> proc_entry process s' w = proc_entry process s w"
    "pr_argc (procs s' process) = pr_argc (procs s process)"
proof -
  let ?c = "proc_chunk process s"
  obtain i where i: "find_allocation (pr_allocations (procs s process)) 0 0 = Some i" using free_slots_find[OF slots] ..
  have l: "live_regions s A" "kernel_heap s = boot_heap" "space_live s A ?c"
    using ok by (simp_all add: proc_mem_ok_def)
  obtain p m where c: "process_malloc process sz s = (p, upd_proc process (\<lambda>q. q\<lparr>pr_allocations :=
       (pr_allocations q)[i := \<lparr>alloc_ptr = p, alloc_size = sz\<rparr>]\<rparr>) (s\<lparr>mem := m\<rparr>))"
    "p \<noteq> 0" "A p = None" "page_aligned p" "live_regions (s\<lparr>mem := m\<rparr>) (A(p \<mapsto> 4096))"
    "\<And>q n a. A q = Some n \<Longrightarrow> in_range q n a \<Longrightarrow> \<not> space_table_byte (mem s) ?c a \<Longrightarrow> m a = mem s a"
    "space_pages m ?c = space_pages (mem s) ?c"
    by (rule process_malloc_runs[OF l(1-3) sz av i]) blast
  obtain p' s' where spec: "process_malloc process sz s = (p', s')" "proc_mem_ok process s' (A(p' \<mapsto> 4096))"
    "avail s = Suc (avail s')"
    "pr_allocations (procs s' process) = (pr_allocations (procs s process))[i := \<lparr>alloc_ptr = p', alloc_size = sz\<rparr>]"
    "proc_entry process s' p' = p' OR PAGING_IS_WRITABLE OR PAGING_IS_PRESENT OR PAGING_ACCESS_FROM_ALL"
    "\<forall>w. page_aligned w \<and> w \<noteq> p' \<longrightarrow> proc_entry process s' w = proc_entry process s w"
    using process_malloc_spec[OF ok sz av i] by blast
  have p': "p' = p" "s' = upd_proc process (\<lambda>q. q\<lparr>pr_allocations :=
       (pr_allocations q)[i := \<lparr>alloc_ptr = p, alloc_size = sz\<rparr>]\<rparr>) (s\<lparr>mem := m\<rparr>)"
    using c(1) spec(1) by simp_all
  have ch: "mem s' = m" "proc_chunk process s' = ?c" by (simp_all add: p'(2) upd_proc_def)
  have np: "p \<notin> space_pages (mem s) ?c" using l(3) c(3) by (auto simp: space_live_def)
  have old: "mem s' a = mem s a \<and> held process s' (A(p \<mapsto> 4096)) a \<and> \<not> in_range p 4096 a" if h: "held process s A a" for a
  proof -
    obtain q n where q: "A q = Some n" "in_range q n a" "q \<notin> space_pages (mem s) ?c" using h by (auto simp: held_def)
    have "\<not> space_table_byte (mem s) ?c a"
      using held_no_page[OF l(1,3) h] space_table_byte_page[of "mem s" ?c a] by blast
    then have "m a = mem s a" using c(6) q by blast
    moreover have "(A(p \<mapsto> 4096)) q = Some n" "p \<noteq> q" using q(1) c(3) by auto
    moreover from this have "\<not> in_range p 4096 a"
      using kpages.live_apart[OF c(5), of p 4096 q n] q(2) by (auto simp: disjoint_ranges_def)
    ultimately show ?thesis using q ch c(7) by (auto simp: held_def)
  qed
  have new: "held process s' (A(p \<mapsto> 4096)) a" if "in_range p 4096 a" for a
    using that np c(7) ch by (auto simp: held_def intro!: exI[of _ p])
  have "free_slots (pr_allocations (procs s process)) = Suc (free_slots (pr_allocations (procs s' process)))"
    unfolding spec(4) p'(1) by (rule free_slots_take[OF i]) (simp add: c(2))
  moreover have "proc_entry process s' p = p OR 7" using spec(5) p'(1) by (simp add: or.assoc)
  moreover have "pr_argc (procs s' process) = pr_argc (procs s process)" by (simp add: p'(2) upd_proc_def)
  ultimately show thesis using that[of p s'] spec(1-3,6) c(2-4) old new p'(1) by blast
qed

subsection \<open>Argument lists\<close>

text \<open>
  The \<^verbatim>\<open>struct command_argument\<close>s from \<open>p\<close> to \<open>q\<close> in memory: at \<open>bs\<close>, with the texts \<open>ts\<close>.
\<close>

fun arg_seg :: "memory \<Rightarrow> addr \<Rightarrow> addr list \<Rightarrow> u8 list list \<Rightarrow> addr \<Rightarrow> bool" where
  "arg_seg m p [] [] q \<longleftrightarrow> p = q"
| "arg_seg m p (b # bs) (t # ts) q \<longleftrightarrow>
     p = b \<and> b \<noteq> 0 \<and> length t < 512 \<and> cstr m b t \<and> arg_seg m (read32 m (b + 512)) bs ts q"
| "arg_seg m p _ _ q \<longleftrightarrow> False"

lemma arg_seg_length: "arg_seg m p bs ts q \<Longrightarrow> length bs = length ts"
  by (induction m p bs ts q rule: arg_seg.induct) auto

lemma arg_seg_append:
  "length bs = length ts \<Longrightarrow> arg_seg m p (bs @ cs) (ts @ us) q \<longleftrightarrow> (\<exists>r. arg_seg m p bs ts r \<and> arg_seg m r cs us q)"
  by (induction bs ts arbitrary: p rule: list_induct2) auto

lemma arg_seg_list: "arg_seg m p bs ts 0 \<Longrightarrow> argument_list m p bs"
  by (induction m p bs ts "0 :: addr" rule: arg_seg.induct) auto

text \<open>The parts of a block: the text and the pointer behind it.\<close>

lemma block_parts:
  "in_range b n a \<Longrightarrow> n \<le> 4096 \<Longrightarrow> in_range b 4096 a" "in_range (b + 512) 4 a \<Longrightarrow> in_range b 4096 a"
  "in_range b 512 a \<Longrightarrow> \<not> in_range (b + 512) 4 a"
proof -
  show "in_range b n a \<Longrightarrow> n \<le> 4096 \<Longrightarrow> in_range b 4096 a" by (rule in_range_mono)
  show "in_range (b + 512) 4 a \<Longrightarrow> in_range b 4096 a"
    using in_range_sub[of b 512 4 a 4096] by simp
  show "in_range b 512 a \<Longrightarrow> \<not> in_range (b + 512) 4 a"
  proof
    assume a: "in_range b 512 a" and "in_range (b + 512) 4 a"
    then obtain k where k: "a = b + 512 + of_nat k" "k < 4" by (auto elim: in_rangeE)
    have "unat (of_nat (512 + k) :: u32) = 512 + k" using k(2) by (intro unat_of_nat32) simp
    then have "unat (a - b) = 512 + k" using k(1) by (simp add: add.assoc)
    then show False using a by (simp add: in_range_def)
  qed
qed

lemma arg_seg_cong:
  "(\<And>b a. b \<in> set bs \<Longrightarrow> in_range b 4096 a \<Longrightarrow> m' a = m a) \<Longrightarrow> arg_seg m' p bs ts q = arg_seg m p bs ts q"
proof (induction m' p bs ts q rule: arg_seg.induct)
  case (2 m' p b bs t ts q)
  have c: "cstr m' b t = cstr m b t" if "length t < 512"
    using 2(2)[of b] that in_range_mono[of b "Suc (length t)" _ 4096] by (intro cstr_cong) auto
  have r: "read32 m' (b + 512) = read32 m (b + 512)"
    using 2(2)[of b] block_parts(2) by (intro read32_cong) auto
  show ?case using 2 c r by (cases "length t < 512") auto
qed simp_all

text \<open>Blocks that are live regions of their own.\<close>

definition own_blocks :: "addr \<Rightarrow> 'z task_state_scheme \<Rightarrow> (addr \<rightharpoonup> nat) \<Rightarrow> addr list \<Rightarrow> bool" where
  "own_blocks process s A bs \<longleftrightarrow> distinct bs \<and>
     (\<forall>b \<in> set bs. A b = Some 4096 \<and> b \<notin> space_pages (mem s) (proc_chunk process s))"

lemma own_blocks_held:
  "own_blocks process s A bs \<Longrightarrow> b \<in> set bs \<Longrightarrow> in_range b 4096 a \<Longrightarrow> held process s A a"
  by (auto simp: own_blocks_def held_def)

lemma own_blocks_apart:
  assumes "live_regions s A" "own_blocks process s A bs" "b \<in> set bs" "c \<in> set bs" "b \<noteq> c" "in_range b 4096 a"
  shows "\<not> in_range c 4096 a"
proof -
  have "A b = Some 4096" "A c = Some 4096" using assms(2-4) by (auto simp: own_blocks_def)
  from kpages.live_apart[OF assms(1) this assms(5)] assms(6) show ?thesis by (auto simp: disjoint_ranges_def)
qed

subsection \<open>Parsing a command line\<close>

text \<open>
  The command line is copied to the buffer \<open>scommand\<close> of 1025 bytes and split at the
  delimiters \<open>d\<close>; \<open>sp\<close> is the static position of \<^verbatim>\<open>strtok\<close>.  The memory comes from system call 4
  (\<open>process_malloc\<close>) of the process that runs the library.  A program sees the pages that it was
  given at their own addresses; its stack and static data are named by the memory behind them.
\<close>

partial_function (option) parse_command_loop ::
    "addr \<Rightarrow> addr \<Rightarrow> addr \<Rightarrow> addr \<Rightarrow> addr \<Rightarrow> 'z process_state_scheme \<Rightarrow> (addr \<times> 'z process_state_scheme) option" where
  "parse_command_loop process d current sp token s =
     (if token = 0 then Some (sp, s)
      else
        let (new_command, s) = process_malloc process 516 s
        in if new_command = 0 then Some (sp, s)
           else
             let m = strncpy (mem s) new_command token 512;
                 m = write32 m (new_command + 512) 0;
                 m = write32 m (current + 512) new_command
             in do {
               (token, m, sp) \<leftarrow> strtok m sp 0 d;
               parse_command_loop process d new_command sp token (s\<lparr>mem := m\<rparr>)
             })"

definition boios_parse_command ::
    "addr \<Rightarrow> addr \<Rightarrow> addr \<Rightarrow> addr \<Rightarrow> addr \<Rightarrow> int \<Rightarrow> 'z process_state_scheme \<Rightarrow>
     (addr \<times> addr \<times> 'z process_state_scheme) option" where
  "boios_parse_command process scommand d sp command mx s =
     (if mx \<ge> 1025 then Some (0, sp, s)
      else do {
        (token, m, sp) \<leftarrow> strtok (strncpy (mem s) scommand command 1025) sp scommand d;
        let s = s\<lparr>mem := m\<rparr>;
        if token = 0 then Some (0, sp, s)
        else
          let (root_command, s) = process_malloc process 516 s
          in if root_command = 0 then Some (0, sp, s)
             else
               let m = strncpy (mem s) root_command token 512;
                   m = write32 m (root_command + 512) 0
               in do {
                 (token, m, sp) \<leftarrow> strtok m sp 0 d;
                 (sp, s) \<leftarrow> parse_command_loop process d root_command sp token (s\<lparr>mem := m\<rparr>);
                 Some (root_command, sp, s)
               }
      })"

text \<open>Filling a new block with a token.\<close>

lemma fill_block:
  fixes m :: memory
  assumes c: "cstr m token t" and dj: "disjoint_ranges b 512 token (Suc (length t))"
  defines "m' \<equiv> write32 (strncpy m b token 512) (b + 512) 0"
  shows "cstr m' b (take 511 t)" "read32 m' (b + 512) = 0" "\<not> in_range b 4096 a \<Longrightarrow> m' a = m a"
proof -
  let ?t = "take 511 t"
  have l: "Suc (length ?t) \<le> 512" by simp
  have "disjoint_ranges b (Suc (length ?t)) token (Suc (length t))"
    using dj in_range_mono[OF _ l] by (auto simp: disjoint_ranges_def)
  then have st: "strncpy m b token 512 = store_bytes m b (?t @ [0])"
    using strncpy_store[OF c, of b 512] by simp
  have "0 \<notin> set ?t" using cstr_no_nul[OF c] by (meson in_set_takeD)
  then have "cstr (store_bytes m b (?t @ [0])) b ?t" by (intro cstr_store_bytes) simp_all
  moreover have "m' a = store_bytes m b (?t @ [0]) a" if "in_range b 512 a" for a
    unfolding m'_def st by (rule write32_outside[OF block_parts(3)[OF that]])
  ultimately show "cstr m' b ?t"
    using in_range_mono[OF _ l] by (subst cstr_cong[of b ?t m' "store_bytes m b (?t @ [0])"]) auto
  show "read32 m' (b + 512) = 0" by (simp add: m'_def)
  assume a: "\<not> in_range b 4096 a"
  have l2: "length (?t @ [0]) \<le> 4096" by simp
  from a have "\<not> in_range (b + 512) 4 a" "\<not> in_range b (length (?t @ [0])) a"
    using block_parts(2) in_range_mono[OF _ l2] by blast+
  then show "m' a = m a" unfolding m'_def st by (simp add: write32_outside store_bytes_outside)
qed

text \<open>
  The process, the buffer \<open>B\<close>, the delimiters and the blocks so far: all held, and apart from each other.
\<close>

definition parse_base ::
    "addr \<Rightarrow> (addr \<Rightarrow> bool) \<Rightarrow> addr \<Rightarrow> u8 list \<Rightarrow> 'z task_state_scheme \<Rightarrow> (addr \<rightharpoonup> nat) \<Rightarrow> addr list \<Rightarrow> bool" where
  "parse_base process B d ds s A bs \<longleftrightarrow> proc_mem_ok process s A \<and> cstr (mem s) d ds \<and>
     (\<forall>a. in_range d (Suc (length ds)) a \<longrightarrow> held process s A a \<and> \<not> B a) \<and> (\<forall>a. B a \<longrightarrow> held process s A a) \<and>
     own_blocks process s A bs \<and>
     (\<forall>b \<in> set bs. \<forall>a. in_range b 4096 a \<longrightarrow> \<not> B a \<and> \<not> in_range d (Suc (length ds)) a)"

lemma parse_baseD:
  assumes "parse_base process B d ds s A bs"
  shows "proc_mem_ok process s A" "cstr (mem s) d ds" "own_blocks process s A bs"
    "in_range d (Suc (length ds)) a \<Longrightarrow> held process s A a" "in_range d (Suc (length ds)) a \<Longrightarrow> \<not> B a"
    "B a \<Longrightarrow> held process s A a" "b \<in> set bs \<Longrightarrow> in_range b 4096 a \<Longrightarrow> \<not> B a"
    "b \<in> set bs \<Longrightarrow> in_range b 4096 a \<Longrightarrow> \<not> in_range d (Suc (length ds)) a"
  using assms unfolding parse_base_def by blast+

lemma parse_base_mem:
  assumes base: "parse_base process B d ds s A bs"
    and w: "\<And>a. \<not> held process s A a \<or> in_range d (Suc (length ds)) a \<Longrightarrow> m a = mem s a"
  shows "parse_base process B d ds (s\<lparr>mem := m\<rparr>) A bs" "avail (s\<lparr>mem := m\<rparr>) = avail s"
    "held process (s\<lparr>mem := m\<rparr>) A = held process s A"
proof -
  have ok: "proc_mem_ok process s A" using base by (simp add: parse_base_def)
  note h = held_write[OF ok, of m, OF w[OF disjI1]]
  show "avail (s\<lparr>mem := m\<rparr>) = avail s" by (rule h(2))
  show "held process (s\<lparr>mem := m\<rparr>) A = held process s A" using h(3) by blast
  have "cstr m d ds = cstr (mem s) d ds" using w by (intro cstr_cong) blast
  moreover have pg: "space_pages m (proc_chunk process s) = space_pages (mem s) (proc_chunk process s)"
  proof -
    have l: "live_regions s A" "kernel_heap s = boot_heap" "space_live s A (proc_chunk process s)"
      using ok by (simp_all add: proc_mem_ok_def)
    show ?thesis using held_no_page[OF l(1,3)] held_nonzero(2)[OF l(1,2)] w
      by (intro proc_mem_ok_cong(3)[OF ok]) blast
  qed
  ultimately show "parse_base process B d ds (s\<lparr>mem := m\<rparr>) A bs"
    using base h(1,3) by (simp add: parse_base_def own_blocks_def)
qed

lemma parse_base_live:
  "parse_base process B d ds s A bs \<Longrightarrow> live_regions s A \<and> kernel_heap s = boot_heap \<and> \<not> B 0"
  using held_nonzero(1)[of s A process 0] by (auto simp: parse_base_def proc_mem_ok_def)

text \<open>A new block with the next token.\<close>

lemma parse_block:
  fixes s :: "'z process_state_scheme"
  assumes base: "parse_base process B d ds s A bs" and tok: "tokens_left (mem s) B D token sp (t # ws)" "token \<noteq> 0"
    and av: "0 < avail s" "0 < free_slots (pr_allocations (procs s process))"
  obtains p s1 where "process_malloc process 516 s = (p, s1)" "p \<noteq> 0" "A p = None"
    "parse_base process B d ds (s1\<lparr>mem := write32 (strncpy (mem s1) p token 512) (p + 512) 0\<rparr>) (A(p \<mapsto> 4096)) (bs @ [p])"
    "cstr (write32 (strncpy (mem s1) p token 512) (p + 512) 0) p (take 511 t)"
    "read32 (write32 (strncpy (mem s1) p token 512) (p + 512) 0) (p + 512) = 0"
    "tokens_left (write32 (strncpy (mem s1) p token 512) (p + 512) 0) B D token sp (t # ws)"
    "\<And>a. held process s A a \<Longrightarrow> write32 (strncpy (mem s1) p token 512) (p + 512) 0 a = mem s a \<and>
       held process (s1\<lparr>mem := write32 (strncpy (mem s1) p token 512) (p + 512) 0\<rparr>) (A(p \<mapsto> 4096)) a \<and>
       \<not> in_range p 4096 a"
    "avail s = Suc (avail (s1\<lparr>mem := write32 (strncpy (mem s1) p token 512) (p + 512) 0\<rparr>))"
    "free_slots (pr_allocations (procs s process)) = Suc (free_slots (pr_allocations (procs s1 process)))"
proof -
  have ok: "proc_mem_ok process s A" using base by (simp add: parse_base_def)
  have sz: "0 < unat (516 :: u32)" "unat (516 :: u32) \<le> 4096" by simp_all
  obtain p s1 where c: "process_malloc process 516 s = (p, s1)" "p \<noteq> 0" "A p = None" "page_aligned p"
    "proc_mem_ok process s1 (A(p \<mapsto> 4096))" "avail s = Suc (avail s1)"
    "free_slots (pr_allocations (procs s process)) = Suc (free_slots (pr_allocations (procs s1 process)))"
    "\<And>a. held process s A a \<Longrightarrow> mem s1 a = mem s a \<and> held process s1 (A(p \<mapsto> 4096)) a \<and> \<not> in_range p 4096 a"
    "\<And>a. in_range p 4096 a \<Longrightarrow> held process s1 (A(p \<mapsto> 4096)) a"
    by (rule process_malloc_keeps[OF ok sz av]) blast
  let ?A = "A(p \<mapsto> 4096)"
  have Bh: "\<And>a. B a \<Longrightarrow> held process s A a" "\<And>a. in_range d (Suc (length ds)) a \<Longrightarrow> held process s A a \<and> \<not> B a"
    using base by (auto simp: parse_base_def)
  have bh: "\<And>b a. b \<in> set bs \<Longrightarrow> in_range b 4096 a \<Longrightarrow> held process s A a"
    using base own_blocks_held by (auto simp: parse_base_def)
  have tok1: "tokens_left (mem s1) B D token sp (t # ws)"
    by (rule tokens_left_cong[OF tok(1)]) (use Bh c(8) in blast)
  then have t: "cstr (mem s1) token t" "\<forall>a. in_range token (Suc (length t)) a \<longrightarrow> B a"
    using tok(2) by (auto simp: tokens_left_def)
  have dj: "disjoint_ranges p 512 token (Suc (length t))"
    using t(2) c(8)[OF Bh(1)] block_parts(1)[of p 512] by (auto simp: disjoint_ranges_def)
  let ?m = "write32 (strncpy (mem s1) p token 512) (p + 512) 0"
  note f = fill_block[OF t(1) dj]
  have same: "?m a = mem s a \<and> held process s1 ?A a \<and> \<not> in_range p 4096 a" if "held process s A a" for a
    using f(3)[of a] c(8)[OF that] by simp
  have cd: "cstr (mem s) d ds" using base by (simp add: parse_base_def)
  have "p \<notin> space_pages (mem s1) (proc_chunk process s1)"
  proof
    assume "p \<in> space_pages (mem s1) (proc_chunk process s1)"
    moreover have "in_range p 4096 p" by (simp add: in_range_def)
    ultimately show False
      using held_no_page[of s1 ?A process p p] c(5,9) by (auto simp: proc_mem_ok_def)
  qed
  moreover have "b \<notin> space_pages (mem s1) (proc_chunk process s1)" if "b \<in> set bs" for b
  proof
    assume b: "b \<in> space_pages (mem s1) (proc_chunk process s1)"
    have i: "in_range b 4096 b" by (simp add: in_range_def)
    show False using held_no_page[of s1 ?A process b b] b i c(5) c(8)[OF bh[OF that i]] by (auto simp: proc_mem_ok_def)
  qed
  ultimately have own: "own_blocks process s1 ?A (bs @ [p])"
    using base c(3) by (auto simp: parse_base_def own_blocks_def)
  have "cstr (mem s1) d ds = cstr (mem s) d ds"
    using Bh(2) c(8) by (intro cstr_cong) blast
  then have base1: "parse_base process B d ds s1 ?A (bs @ [p])"
    using c(5,8) Bh base own unfolding parse_base_def by (auto simp: cd)
  have w: "?m a = mem s1 a" if "\<not> held process s1 ?A a \<or> in_range d (Suc (length ds)) a" for a
  proof (rule f(3))
    show "\<not> in_range p 4096 a" using that c(8,9) Bh(2) by blast
  qed
  note b2 = parse_base_mem[OF base1 w]
  have tok2: "tokens_left ?m B D token sp (t # ws)"
    by (rule tokens_left_cong[OF tok(1)]) (use Bh(1) same in blast)
  have av': "avail s = Suc (avail (s1\<lparr>mem := ?m\<rparr>))" using c(6) b2(2) by simp
  have "held process (s1\<lparr>mem := ?m\<rparr>) ?A = held process s1 ?A" using b2(3) by blast
  then have same': "\<And>a. held process s A a \<Longrightarrow> ?m a = mem s a \<and> held process (s1\<lparr>mem := ?m\<rparr>) ?A a \<and> \<not> in_range p 4096 a"
    using same by metis
  show thesis by (rule that[OF c(1-3) b2(1) f(1,2) tok2 same' av' c(7)])
qed

text \<open>The next call of \<^verbatim>\<open>strtok\<close>.\<close>

lemma parse_strtok:
  assumes base: "parse_base process B d ds s A bs"
    and tok: "tokens_left (mem s) B (set ds) token sp (t # ws)" "token \<noteq> 0"
  obtains token' m sp' where "strtok (mem s) sp 0 d = Some (token', m, sp')"
    "tokens_left m B (set ds) token' sp' ws" "\<And>a. \<not> B a \<Longrightarrow> m a = mem s a"
    "parse_base process B d ds (s\<lparr>mem := m\<rparr>) A bs" "avail (s\<lparr>mem := m\<rparr>) = avail s"
    "held process (s\<lparr>mem := m\<rparr>) A = held process s A" "arg_seg m p bs ts q = arg_seg (mem s) p bs ts q"
proof -
  obtain rest where r: "ws = line_words (set ds) rest" "cstr (mem s) sp rest"
    "\<And>a. in_range sp (Suc (length rest)) a \<Longrightarrow> B a"
    using tok by (auto simp: tokens_left_def)
  have d: "cstr (mem s) d ds" and z: "\<not> B 0" using base parse_base_live[OF base] by (simp_all add: parse_base_def)
  have c: "sp = 0 \<and> (0 :: addr) = sp \<or> (0 :: addr) = 0 \<and> sp = sp" by simp
  have "\<exists>token' m sp'. strtok (mem s) sp 0 d = Some (token', m, sp') \<and> (\<forall>a. \<not> B a \<longrightarrow> m a = mem s a) \<and>
      tokens_left m B (set ds) token' sp' ws"
  proof (rule strtok_words[OF d r(2) c, of B])
    show "\<And>a. in_range sp (Suc (length rest)) a \<Longrightarrow> B a" by (rule r(3))
    show "\<not> B 0" by (rule z)
  qed (use r(1) in blast)
  then obtain token' m sp' where st: "strtok (mem s) sp 0 d = Some (token', m, sp')"
    "\<And>a. \<not> B a \<Longrightarrow> m a = mem s a" "tokens_left m B (set ds) token' sp' ws" by metis
  have w: "m a = mem s a" if "\<not> held process s A a \<or> in_range d (Suc (length ds)) a" for a
    using that st(2) parse_baseD(5,6)[OF base] by metis
  note b = parse_base_mem[OF base w]
  have "arg_seg m p bs ts q = arg_seg (mem s) p bs ts q"
    using st(2) parse_baseD(7)[OF base] by (intro arg_seg_cong) blast
  then show thesis using that[of token' m sp'] st r(1) b by simp
qed

text \<open>A new block linked behind the last one.\<close>

lemma parse_link:
  assumes base: "parse_base process B d ds s A (bs @ [c, p])" and p: "p \<noteq> 0"
    and segs: "arg_seg (mem s) root (bs @ [c]) (ts @ [u]) 0" "cstr (mem s) p t" "length t < 512" "read32 (mem s) (p + 512) = 0"
    and len: "length bs = length ts"
  defines "m \<equiv> write32 (mem s) (c + 512) p"
  shows "arg_seg m root (bs @ [c, p]) (ts @ [u, t]) 0" "parse_base process B d ds (s\<lparr>mem := m\<rparr>) A (bs @ [c, p])"
    "avail (s\<lparr>mem := m\<rparr>) = avail s" "held process (s\<lparr>mem := m\<rparr>) A = held process s A"
    "\<And>a. \<not> in_range c 4096 a \<Longrightarrow> m a = mem s a"
proof -
  have live: "live_regions s A" using parse_base_live[OF base] by blast
  have own: "own_blocks process s A (bs @ [c, p])" "c \<notin> set bs" "p \<notin> set bs" "c \<noteq> p"
    using base by (auto simp: parse_base_def own_blocks_def)
  have m: "m a = mem s a" if "\<not> in_range c 4096 a" for a
    unfolding m_def using that block_parts(2) by (intro write32_outside) blast
  then show "\<And>a. \<not> in_range c 4096 a \<Longrightarrow> m a = mem s a" .
  have ap: "\<not> in_range c 4096 a" if "b \<in> set (bs @ [p])" "in_range b 4096 a" for b a
    by (rule own_blocks_apart[OF live own(1) _ _ _ that(2)]) (use that(1) own in auto)
  have "arg_seg (mem s) root bs ts c" "c \<noteq> 0" "length u < 512" "cstr (mem s) c u"
    using segs(1) by (auto simp: arg_seg_append[OF len])
  moreover have "arg_seg m root bs ts c = arg_seg (mem s) root bs ts c"
    using m ap by (intro arg_seg_cong) auto
  moreover have "cstr m c u = cstr (mem s) c u"
    using \<open>length u < 512\<close> in_range_mono[of c "Suc (length u)" _ 512] block_parts(3)[of c]
    unfolding m_def by (intro cstr_cong write32_outside) auto
  moreover have "cstr m p t = cstr (mem s) p t"
    using segs(3) in_range_mono[of p "Suc (length t)" _ 4096] m ap[of p] by (intro cstr_cong) auto
  moreover have "read32 m (p + 512) = read32 (mem s) (p + 512)"
    using m ap[of p] block_parts(2) by (intro read32_cong) auto
  moreover have "read32 m (c + 512) = p" by (simp add: m_def)
  ultimately show "arg_seg m root (bs @ [c, p]) (ts @ [u, t]) 0"
    using segs p by (auto simp: arg_seg_append[OF len])
  have "m a = mem s a" if "\<not> held process s A a \<or> in_range d (Suc (length ds)) a" for a
  proof (rule m)
    show "\<not> in_range c 4096 a"
      using that parse_baseD(8)[OF base, of c a] own_blocks_held[OF own(1), of c a] by auto
  qed
  from parse_base_mem[OF base this]
  show "parse_base process B d ds (s\<lparr>mem := m\<rparr>) A (bs @ [c, p])" "avail (s\<lparr>mem := m\<rparr>) = avail s"
    "held process (s\<lparr>mem := m\<rparr>) A = held process s A" by blast+
qed

lemma parse_command_loop_ok:
  fixes s :: "'z process_state_scheme"
  assumes "parse_base process B d ds s A (bs @ [c])" "arg_seg (mem s) root (bs @ [c]) (ts @ [u]) 0" "length bs = length ts"
    and "tokens_left (mem s) B (set ds) token sp ws"
    and "length ws \<le> avail s" "length ws \<le> free_slots (pr_allocations (procs s process))"
  shows "\<exists>s' A' bs'. parse_command_loop process d c sp token s = Some (0, s') \<and>
     parse_base process B d ds s' A' (bs @ [c] @ bs') \<and>
     arg_seg (mem s') root (bs @ [c] @ bs') (ts @ [u] @ map (take 511) ws) 0 \<and>
     (\<forall>q n. A q = Some n \<longrightarrow> A' q = Some n) \<and> (\<forall>b \<in> set bs'. A b = None) \<and>
     (\<forall>a. held process s A a \<and> \<not> B a \<and> (\<forall>b \<in> set (bs @ [c]). \<not> in_range b 4096 a) \<longrightarrow> mem s' a = mem s a)"
  using assms
proof (induction ws arbitrary: s A bs c ts u token sp)
  case Nil
  then have "token = 0" "sp = 0" by (auto simp: tokens_left_def split: if_splits)
  then have "parse_command_loop process d c sp token s = Some (0, s)" by (subst parse_command_loop.simps) simp
  then show ?case using Nil by (intro exI[of _ s] exI[of _ A] exI[of _ "[]"]) simp
next
  case (Cons t ws)
  have tk: "token \<noteq> 0" using Cons.prems(4) by (auto simp: tokens_left_def split: if_splits)
  have av: "0 < avail s" "0 < free_slots (pr_allocations (procs s process))" using Cons.prems(5,6) by simp_all
  obtain p s1 where p: "process_malloc process 516 s = (p, s1)" "p \<noteq> 0" "A p = None"
    and "parse_base process B d ds (s1\<lparr>mem := write32 (strncpy (mem s1) p token 512) (p + 512) 0\<rparr>) (A(p \<mapsto> 4096)) ((bs @ [c]) @ [p])"
    "cstr (write32 (strncpy (mem s1) p token 512) (p + 512) 0) p (take 511 t)"
    "read32 (write32 (strncpy (mem s1) p token 512) (p + 512) 0) (p + 512) = 0"
    "tokens_left (write32 (strncpy (mem s1) p token 512) (p + 512) 0) B (set ds) token sp (t # ws)"
    "\<And>a. held process s A a \<Longrightarrow> write32 (strncpy (mem s1) p token 512) (p + 512) 0 a = mem s a \<and>
       held process (s1\<lparr>mem := write32 (strncpy (mem s1) p token 512) (p + 512) 0\<rparr>) (A(p \<mapsto> 4096)) a \<and>
       \<not> in_range p 4096 a"
    "avail s = Suc (avail (s1\<lparr>mem := write32 (strncpy (mem s1) p token 512) (p + 512) 0\<rparr>))"
    "free_slots (pr_allocations (procs s process)) = Suc (free_slots (pr_allocations (procs s1 process)))"
    by (rule parse_block[OF Cons.prems(1,4) tk av]) blast
  moreover define m1 where "m1 = write32 (strncpy (mem s1) p token 512) (p + 512) 0"
  ultimately have b1: "parse_base process B d ds (s1\<lparr>mem := m1\<rparr>) (A(p \<mapsto> 4096)) (bs @ [c, p])"
    "cstr m1 p (take 511 t)" "read32 m1 (p + 512) = 0" "tokens_left m1 B (set ds) token sp (t # ws)"
    "\<And>a. held process s A a \<Longrightarrow> m1 a = mem s a \<and> held process (s1\<lparr>mem := m1\<rparr>) (A(p \<mapsto> 4096)) a \<and> \<not> in_range p 4096 a"
    "avail s = Suc (avail (s1\<lparr>mem := m1\<rparr>))"
    "free_slots (pr_allocations (procs s process)) = Suc (free_slots (pr_allocations (procs s1 process)))"
    by simp_all
  let ?A = "A(p \<mapsto> 4096)" and ?s1 = "s1\<lparr>mem := m1\<rparr>"
  define m2 where "m2 = write32 m1 (c + 512) p"
  have own: "own_blocks process s A (bs @ [c])" using Cons.prems(1) by (simp add: parse_base_def)
  have "arg_seg m1 root (bs @ [c]) (ts @ [u]) 0 = arg_seg (mem s) root (bs @ [c]) (ts @ [u]) 0"
    using b1(5) own_blocks_held[OF own] by (intro arg_seg_cong) blast
  then have seg1: "arg_seg (mem ?s1) root (bs @ [c]) (ts @ [u]) 0" using Cons.prems(2) by simp
  have len: "length (take 511 t) < 512" by simp
  have q: "cstr (mem ?s1) p (take 511 t)" "read32 (mem ?s1) (p + 512) = 0" using b1(2,3) by simp_all
  have e: "write32 (mem ?s1) (c + 512) p = m2" "?s1\<lparr>mem := m2\<rparr> = s1\<lparr>mem := m2\<rparr>" by (simp_all add: m2_def)
  note lk = parse_link[OF b1(1) p(2) seg1 q(1) len q(2) Cons.prems(3), unfolded e]
  let ?s2 = "s1\<lparr>mem := m2\<rparr>"
  have B2: "m2 a = m1 a" if "B a" for a
    using lk(5)[of a] parse_baseD(7)[OF Cons.prems(1), of c a] that by auto
  have tok2: "tokens_left (mem ?s2) B (set ds) token sp (t # ws)"
    using tokens_left_cong[OF b1(4)] B2 by simp
  have base2: "parse_base process B d ds ?s2 ?A (bs @ [c, p])" by (rule lk(2))
  obtain token' m3 sp' where st: "strtok (mem ?s2) sp 0 d = Some (token', m3, sp')"
    "tokens_left m3 B (set ds) token' sp' ws" "\<And>a. \<not> B a \<Longrightarrow> m3 a = mem ?s2 a"
    "parse_base process B d ds (?s2\<lparr>mem := m3\<rparr>) ?A (bs @ [c, p])" "avail (?s2\<lparr>mem := m3\<rparr>) = avail ?s2"
    "held process (?s2\<lparr>mem := m3\<rparr>) ?A = held process ?s2 ?A"
    "arg_seg m3 root (bs @ [c, p]) (ts @ [u, take 511 t]) 0 = arg_seg (mem ?s2) root (bs @ [c, p]) (ts @ [u, take 511 t]) 0"
    by (rule parse_strtok[OF base2 tok2 tk]) blast
  let ?s3 = "?s2\<lparr>mem := m3\<rparr>"
  have seg3: "arg_seg (mem ?s3) root ((bs @ [c]) @ [p]) ((ts @ [u]) @ [take 511 t]) 0" using st(7) lk(1) by simp
  have base3: "parse_base process B d ds ?s3 ?A ((bs @ [c]) @ [p])" using st(4) by simp
  have tok3: "tokens_left (mem ?s3) B (set ds) token' sp' ws" using st(2) by simp
  have av3: "length ws \<le> avail ?s3" "length ws \<le> free_slots (pr_allocations (procs ?s3 process))"
    using st(5) lk(3) b1(6,7) Cons.prems(5,6) by simp_all
  have len3: "length (bs @ [c]) = length (ts @ [u])" using Cons.prems(3) by simp
  from Cons.IH[OF base3 seg3 len3 tok3 av3] obtain s' A' bs' where ih:
    "parse_command_loop process d p sp' token' ?s3 = Some (0, s')"
    "parse_base process B d ds s' A' (bs @ [c] @ p # bs')"
    "arg_seg (mem s') root (bs @ [c] @ p # bs') (ts @ [u] @ map (take 511) (t # ws)) 0"
    "\<forall>q n. ?A q = Some n \<longrightarrow> A' q = Some n" "\<forall>b \<in> set bs'. ?A b = None"
    "\<forall>a. held process ?s3 ?A a \<and> \<not> B a \<and> (\<forall>b \<in> set (bs @ [c, p]). \<not> in_range b 4096 a) \<longrightarrow> mem s' a = mem ?s3 a"
    by (auto simp del: fun_upd_apply)
  have "parse_command_loop process d c sp token s = Some (0, s')"
    using p(1,2) tk st(1) ih(1)
    by (subst parse_command_loop.simps) (simp add: Let_def m1_def[symmetric] m2_def[symmetric])
  moreover have "\<forall>q n. A q = Some n \<longrightarrow> A' q = Some n"
    using ih(4) p(3) by (metis fun_upd_other option.distinct(1))
  moreover have "\<forall>b \<in> set (p # bs'). A b = None" using ih(5) p(3) by (auto split: if_splits)
  moreover have "mem s' a = mem s a"
    if h: "held process s A a" "\<not> B a" "\<forall>b \<in> set (bs @ [c]). \<not> in_range b 4096 a" for a
  proof -
    note f = b1(5)[OF h(1)]
    have "m2 a = m1 a" using lk(5)[of a] h(3) by simp
    moreover have "held process ?s3 ?A a" using f st(6) lk(4) by simp
    ultimately show ?thesis using f st(3)[OF h(2)] ih(6) h(2,3) by (auto simp del: fun_upd_apply)
  qed
  ultimately show ?case using ih(2,3) by (intro exI[of _ s'] exI[of _ A'] exI[of _ "p # bs'"]) simp
qed

lemma parse_command_runs:
  fixes s :: "'z process_state_scheme"
  assumes ok: "proc_mem_ok process s A" and cs: "cstr (mem s) command cs" "length cs \<le> 1024" and d: "cstr (mem s) d ds"
    and buf: "\<forall>a. in_range scommand 1025 a \<longrightarrow> held process s A a"
    and dbuf: "\<forall>a. in_range d (Suc (length ds)) a \<longrightarrow> held process s A a \<and> \<not> in_range scommand 1025 a"
    and apart: "disjoint_ranges scommand 1025 command (Suc (length cs))"
    and room: "length (line_words (set ds) cs) \<le> avail s"
      "length (line_words (set ds) cs) \<le> free_slots (pr_allocations (procs s process))"
    and mx: "mx < 1025"
  obtains root s' A' bs where "boios_parse_command process scommand d 0 command mx s = Some (root, 0, s')"
    "proc_mem_ok process s' A'" "arg_seg (mem s') root bs (map (take 511) (line_words (set ds) cs)) 0"
    "own_blocks process s' A' bs" "\<forall>q n. A q = Some n \<longrightarrow> A' q = Some n" "\<forall>b \<in> set bs. A b = None"
    "\<forall>a. held process s A a \<and> \<not> in_range scommand 1025 a \<longrightarrow> mem s' a = mem s a"
proof -
  let ?B = "in_range scommand 1025" and ?D = "set ds"
  have l: "live_regions s A" "kernel_heap s = boot_heap" using ok by (simp_all add: proc_mem_ok_def)
  have base: "parse_base process ?B d ds s A []"
    using ok d buf dbuf by (simp add: parse_base_def own_blocks_def)
  let ?m0 = "strncpy (mem s) scommand command 1025"
  have tk: "take (nat (1025 - 1)) cs = cs" using cs(2) by simp
  have le: "Suc (length cs) \<le> 1025" using cs(2) by simp
  have "disjoint_ranges scommand (Suc (length cs)) command (Suc (length cs))"
    using apart in_range_mono[OF _ le] by (auto simp: disjoint_ranges_def)
  then have m0: "?m0 = store_bytes (mem s) scommand (cs @ [0])"
    using strncpy_store[OF cs(1), of scommand 1025] unfolding tk by blast
  have l0: "length (cs @ [0]) \<le> 1025" using le by simp
  have fr0: "?m0 a = mem s a" if "\<not> ?B a" for a
    unfolding m0 using that in_range_mono[OF _ l0] by (intro store_bytes_outside) blast
  have "\<not> held process s A a \<or> in_range d (Suc (length ds)) a \<Longrightarrow> \<not> ?B a" for a using buf dbuf by blast
  then have w0: "\<not> held process s A a \<or> in_range d (Suc (length ds)) a \<Longrightarrow> ?m0 a = mem s a" for a using fr0 by blast
  define s0 where "s0 = s\<lparr>mem := ?m0\<rparr>"
  have s0: "parse_base process ?B d ds s0 A []" "avail s0 = avail s" "held process s0 A = held process s A" "mem s0 = ?m0"
    "procs s0 = procs s"
    using parse_base_mem[OF base w0] by (simp_all add: s0_def)
  have c0: "cstr ?m0 scommand cs" unfolding m0
    using cs le by (intro cstr_store_bytes cstr_no_nul[OF cs(1)]) simp
  have z: "\<not> ?B 0" using parse_base_live[OF s0(1)] by blast
  have rng: "?B a" if "in_range scommand (Suc (length cs)) a" for a using that le by (rule in_range_mono)
  have "scommand = scommand" "(0 :: addr) = 0 \<and> scommand = scommand \<or> scommand = 0 \<and> (0 :: addr) = scommand" by simp_all
  note c = this(2)
  have "\<exists>token m sp. strtok ?m0 0 scommand d = Some (token, m, sp) \<and> (\<forall>a. \<not> ?B a \<longrightarrow> m a = ?m0 a) \<and>
      tokens_left m ?B ?D token sp (line_words ?D cs)"
  proof (rule strtok_words[OF _ c0 c, of d ds ?B])
    show "cstr ?m0 d ds" using parse_baseD(2)[OF s0(1)] s0(4) by simp
    show "\<And>a. in_range scommand (Suc (length cs)) a \<Longrightarrow> ?B a" by (rule rng)
    show "\<not> ?B 0" by (rule z)
  qed blast
  then obtain token m1 sp where st: "strtok ?m0 0 scommand d = Some (token, m1, sp)"
    "\<And>a. \<not> ?B a \<Longrightarrow> m1 a = ?m0 a" "tokens_left m1 ?B ?D token sp (line_words ?D cs)" by metis
  have w1: "m1 a = mem s0 a" if "\<not> held process s0 A a \<or> in_range d (Suc (length ds)) a" for a
    using that st(2) buf dbuf s0(3,4) by metis
  define s1 where "s1 = s0\<lparr>mem := m1\<rparr>"
  have s1: "parse_base process ?B d ds s1 A []" "avail s1 = avail s" "held process s1 A = held process s A" "mem s1 = m1"
    "procs s1 = procs s" "s\<lparr>mem := m1\<rparr> = s1"
    using parse_base_mem[OF s0(1) w1] s0(2,3,5) by (simp_all add: s1_def s0_def)
  have fr1: "m1 a = mem s a" if "\<not> ?B a" for a using st(2) fr0 that by metis
  show thesis
  proof (cases "line_words ?D cs")
    case Nil
    then have t: "token = 0" "sp = 0" using st(3) by (auto simp: tokens_left_def split: if_splits)
    then have "boios_parse_command process scommand d 0 command mx s = Some (0, 0, s1)"
      using st(1) mx s1(6) by (simp add: boios_parse_command_def)
    then show ?thesis
      using Nil fr1 s1(4) parse_baseD(1)[OF s1(1)] by (intro that[of 0 s1 A "[]"]) (simp_all add: own_blocks_def)
  next
    case (Cons t ws)
    have tk: "token \<noteq> 0" "tokens_left (mem s1) ?B ?D token sp (t # ws)"
      using st(3) Cons s1(4) by (auto simp: tokens_left_def split: if_splits)
    have av: "0 < avail s1" "0 < free_slots (pr_allocations (procs s1 process))" using room Cons s1(2,5) by simp_all
    obtain p s2 where p: "process_malloc process 516 s1 = (p, s2)" "p \<noteq> 0" "A p = None"
      and pm: "parse_base process ?B d ds (s2\<lparr>mem := write32 (strncpy (mem s2) p token 512) (p + 512) 0\<rparr>) (A(p \<mapsto> 4096)) ([] @ [p])"
      "cstr (write32 (strncpy (mem s2) p token 512) (p + 512) 0) p (take 511 t)"
      "read32 (write32 (strncpy (mem s2) p token 512) (p + 512) 0) (p + 512) = 0"
      "tokens_left (write32 (strncpy (mem s2) p token 512) (p + 512) 0) ?B ?D token sp (t # ws)"
      "\<And>a. held process s1 A a \<Longrightarrow> write32 (strncpy (mem s2) p token 512) (p + 512) 0 a = mem s1 a \<and>
         held process (s2\<lparr>mem := write32 (strncpy (mem s2) p token 512) (p + 512) 0\<rparr>) (A(p \<mapsto> 4096)) a \<and>
         \<not> in_range p 4096 a"
      "avail s1 = Suc (avail (s2\<lparr>mem := write32 (strncpy (mem s2) p token 512) (p + 512) 0\<rparr>))"
      "free_slots (pr_allocations (procs s1 process)) = Suc (free_slots (pr_allocations (procs s2 process)))"
      by (rule parse_block[OF s1(1) tk(2,1) av]) blast
    define m2 where "m2 = write32 (strncpy (mem s2) p token 512) (p + 512) 0"
    let ?s2 = "s2\<lparr>mem := m2\<rparr>" and ?A = "A(p \<mapsto> 4096)"
    note pm = pm[folded m2_def]
    have tk2: "tokens_left (mem ?s2) ?B ?D token sp (t # ws)" using pm(4) by simp
    have base2: "parse_base process ?B d ds ?s2 ?A ([] @ [p])" by (rule pm(1))
    obtain token' m3 sp' where st3: "strtok (mem ?s2) sp 0 d = Some (token', m3, sp')"
      "tokens_left m3 ?B ?D token' sp' ws" "\<And>a. \<not> ?B a \<Longrightarrow> m3 a = mem ?s2 a"
      "parse_base process ?B d ds (?s2\<lparr>mem := m3\<rparr>) ?A ([] @ [p])" "avail (?s2\<lparr>mem := m3\<rparr>) = avail ?s2"
      "held process (?s2\<lparr>mem := m3\<rparr>) ?A = held process ?s2 ?A"
      "arg_seg m3 p ([] @ [p]) ([] @ [take 511 t]) 0 = arg_seg (mem ?s2) p ([] @ [p]) ([] @ [take 511 t]) 0"
      by (rule parse_strtok[OF base2 tk2 tk(1), where p = p and ts = "[] @ [take 511 t]" and q = 0]) blast
    let ?s3 = "?s2\<lparr>mem := m3\<rparr>"
    have seg3: "arg_seg (mem ?s3) p ([] @ [p]) ([] @ [take 511 t]) 0" using st3(7) pm(2,3) p(2) by simp
    have len0: "length ([] :: addr list) = length ([] :: u8 list list)" by simp
    have tk3: "tokens_left (mem ?s3) ?B ?D token' sp' ws" using st3(2) by simp
    have av3: "length ws \<le> avail ?s3" "length ws \<le> free_slots (pr_allocations (procs ?s3 process))"
      using st3(5) pm(6,7) room Cons s1(2,5) by simp_all
    from parse_command_loop_ok[OF st3(4) seg3 len0 tk3 av3] obtain s' A' bs' where ih:
      "parse_command_loop process d p sp' token' ?s3 = Some (0, s')"
      "parse_base process ?B d ds s' A' (p # bs')" "arg_seg (mem s') p (p # bs') (take 511 t # map (take 511) ws) 0"
      "\<forall>q n. ?A q = Some n \<longrightarrow> A' q = Some n" "\<forall>b \<in> set bs'. ?A b = None"
      "\<forall>a. held process ?s3 ?A a \<and> \<not> ?B a \<and> \<not> in_range p 4096 a \<longrightarrow> mem s' a = mem ?s3 a"
      by (auto simp del: fun_upd_apply)
    have call: "boios_parse_command process scommand d 0 command mx s = Some (p, 0, s')"
      using st(1) mx s1(6) tk(1) p(1,2) st3(1) ih(1)
      by (simp add: boios_parse_command_def Let_def m2_def[symmetric])
    have sub: "\<forall>q n. A q = Some n \<longrightarrow> A' q = Some n" using ih(4) p(3) by (metis fun_upd_other option.distinct(1))
    have new: "\<forall>b \<in> set (p # bs'). A b = None" using ih(5) p(3) by (auto split: if_splits)
    have "mem s' a = mem s a" if h: "held process s A a" "\<not> ?B a" for a
    proof -
      have h1: "held process s1 A a" using h(1) s1(3) by simp
      have "held process ?s3 ?A a" using pm(5)[OF h1] st3(6) by simp
      then show ?thesis using pm(5)[OF h1] st3(3)[OF h(2)] ih(6) h(2) fr1[OF h(2)] s1(4)
        by (auto simp del: fun_upd_apply)
    qed
    then show ?thesis
      using ih(3) parse_baseD(1,3)[OF ih(2)] call sub new Cons by (intro that[of p s' A' "p # bs'"]) simp_all
  qed
qed

subsection \<open>Arguments of a process\<close>

text \<open>Argument \<open>k\<close> of the vector at \<open>argv\<close> is a string in a page the process may read and write.\<close>

definition argument_at :: "addr \<Rightarrow> 'z task_state_scheme \<Rightarrow> addr \<Rightarrow> nat \<Rightarrow> u8 list \<Rightarrow> bool" where
  "argument_at process s argv k t \<longleftrightarrow>
     (let p = read32 (mem s) (argv + 4 * of_nat k)
      in cstr (mem s) p t \<and> page_aligned p \<and> proc_entry process s p = p OR 7)"

lemma vector_slot:
  assumes "i < k" "k \<le> 1024" "in_range (argv + 4 * of_nat i) 4 a"
  shows "in_range argv 4096 a" "\<not> in_range (argv + 4 * of_nat k) (4 * n) a \<or> 4096 < 4 * k + 4 * n"
proof -
  obtain j where j: "a = argv + 4 * of_nat i + of_nat j" "j < 4" using assms(3) by (rule in_rangeE)
  have e: "a - argv = of_nat (4 * i + j)" using j(1) by simp
  have u: "unat (a - argv) = 4 * i + j" unfolding e using assms(1,2) j(2) by (intro unat_of_nat32) linarith
  show "in_range argv 4096 a" using u assms(1,2) j(2) by (simp add: in_range_def)
  show "\<not> in_range (argv + 4 * of_nat k) (4 * n) a \<or> 4096 < 4 * k + 4 * n"
  proof (rule ccontr)
    assume c: "\<not> ?thesis"
    then have "in_range (argv + 4 * of_nat k) (4 * n) a" by simp
    then obtain l where l: "a = argv + 4 * of_nat k + of_nat l" "l < 4 * n" by (rule in_rangeE)
    have e: "a - argv = of_nat (4 * k + l)" using l(1) by simp
    have "unat (a - argv) = 4 * k + l" unfolding e using c l(2) by (intro unat_of_nat32) linarith
    then show False using u assms(1) j(2) by linarith
  qed
qed

lemma inject_loop_ok:
  fixes s :: "'z process_state_scheme"
  assumes "proc_mem_ok process s A" "arg_seg (mem s) cur bs ts 0"
    and "\<forall>b \<in> set bs. \<forall>a. in_range b 4096 a \<longrightarrow> held process s A a \<and> \<not> in_range argv 4096 a"
    and "\<forall>a. in_range argv 4096 a \<longrightarrow> held process s A a" "i + length bs \<le> 1024"
    and "length bs \<le> avail s" "length bs \<le> free_slots (pr_allocations (procs s process))"
  shows "\<exists>s' A'. inject_arguments_loop process argv cur (of_nat i) s = Some (0, s') \<and> proc_mem_ok process s' A' \<and>
     (\<forall>k < length bs. argument_at process s' argv (i + k) (ts ! k)) \<and>
     (\<forall>q n. A q = Some n \<longrightarrow> A' q = Some n) \<and>
     (\<forall>a. held process s A a \<longrightarrow> held process s' A' a \<and>
        (\<not> in_range (argv + 4 * of_nat i) (4 * length bs) a \<longrightarrow> mem s' a = mem s a)) \<and>
     (\<forall>w. page_aligned w \<and> (A w \<noteq> None \<or> A' w = None) \<longrightarrow> proc_entry process s' w = proc_entry process s w)"
  using assms
proof (induction bs arbitrary: s A cur ts i)
  case Nil
  then have "cur = 0" by (cases ts) auto
  then show ?case using Nil by (intro exI[of _ s] exI[of _ A]) (simp add: inject_arguments_loop.simps)
next
  case (Cons b bs)
  obtain t us where ts: "ts = t # us" using Cons.prems(2) by (cases ts) auto
  have b: "cur = b" "b \<noteq> 0" "length t < 512" "cstr (mem s) b t" "arg_seg (mem s) (read32 (mem s) (b + 512)) bs us 0"
    using Cons.prems(2) ts by auto
  have sz: "0 < unat (512 :: u32)" "unat (512 :: u32) \<le> 4096" by simp_all
  have av: "0 < avail s" "0 < free_slots (pr_allocations (procs s process))" using Cons.prems(6,7) by simp_all
  obtain p s1 where p: "process_malloc process 512 s = (p, s1)" "p \<noteq> 0" "A p = None" "page_aligned p"
    "proc_mem_ok process s1 (A(p \<mapsto> 4096))" "avail s = Suc (avail s1)"
    "free_slots (pr_allocations (procs s process)) = Suc (free_slots (pr_allocations (procs s1 process)))"
    "\<And>a. held process s A a \<Longrightarrow> mem s1 a = mem s a \<and> held process s1 (A(p \<mapsto> 4096)) a \<and> \<not> in_range p 4096 a"
    "\<And>a. in_range p 4096 a \<Longrightarrow> held process s1 (A(p \<mapsto> 4096)) a" "proc_entry process s1 p = p OR 7"
    "\<And>w. page_aligned w \<Longrightarrow> w \<noteq> p \<Longrightarrow> proc_entry process s1 w = proc_entry process s w"
    by (rule process_malloc_keeps[OF Cons.prems(1) sz av]) blast
  let ?A = "A(p \<mapsto> 4096)" and ?slot = "argv + 4 * of_nat i"
  have bh: "held process s A a" "\<not> in_range argv 4096 a" if "in_range c 4096 a" "c \<in> set (b # bs)" for c a
    using Cons.prems(3) that by blast+
  have ah: "held process s A a" if "in_range argv 4096 a" for a using Cons.prems(4) that by blast
  have slot: "in_range argv 4096 a" if "in_range ?slot 4 a" for a
    by (rule vector_slot(1)[of i "Suc i", OF _ _ that]) (use Cons.prems(5) in simp_all)
  have lt: "Suc (length t) \<le> 512" using b(3) by simp
  have tb: "in_range b 4096 a" if "in_range b (Suc (length t)) a" for a using that lt in_range_mono by fastforce
  have "cstr (mem s1) b t = cstr (mem s) b t" using tb bh(1)[of b] p(8) by (intro cstr_cong) simp
  then have c1: "cstr (mem s1) b t" using b(4) by simp
  have take: "take (nat (512 - 1)) t = t" using b(3) by simp
  have "disjoint_ranges p (Suc (length t)) b (Suc (length t))"
    using tb bh(1)[of b] p(8) in_range_mono[of p "Suc (length t)" _ 4096] lt by (auto simp: disjoint_ranges_def)
  then have st: "strncpy (mem s1) p b 512 = store_bytes (mem s1) p (t @ [0])"
    using strncpy_store[OF c1, of p 512] unfolding take by blast
  define m where "m = write32 (store_bytes (mem s1) p (t @ [0])) ?slot p"
  have lt2: "length (t @ [0]) \<le> 4096" using lt by simp
  have m: "m a = mem s1 a" if "\<not> in_range p 4096 a" "\<not> in_range ?slot 4 a" for a
  proof -
    have "\<not> in_range p (length (t @ [0])) a" using that(1) in_range_mono[OF _ lt2] by blast
    then show ?thesis unfolding m_def using write32_outside[OF that(2)] store_bytes_outside by metis
  qed
  have np: "\<not> in_range ?slot 4 a" if "in_range p 4096 a" for a
    using slot ah p(8) that by blast
  have "cstr (store_bytes (mem s1) p (t @ [0])) p t"
    using lt cstr_no_nul[OF b(4)] by (intro cstr_store_bytes) simp_all
  moreover have "cstr m p t = cstr (store_bytes (mem s1) p (t @ [0])) p t"
    using np in_range_mono[of p "Suc (length t)" _ 4096] lt unfolding m_def
    by (intro cstr_cong write32_outside) auto
  ultimately have cp: "cstr m p t" by simp
  have rp: "read32 m ?slot = p" by (simp add: m_def)
  have w: "m a = mem s1 a" if "\<not> held process s1 ?A a" for a
    using that p(8,9) slot ah by (intro m) blast+
  define s2 where "s2 = s1\<lparr>mem := m\<rparr>"
  note hw = held_write[OF p(5) w, folded s2_def]
  have h2: "held process s2 ?A = held process s1 ?A" "avail s2 = avail s1" "proc_mem_ok process s2 ?A"
    "mem s2 = m" "procs s2 = procs s1"
    using hw(1-3) by (simp_all add: s2_def)
  have e2: "proc_entry process s2 v = proc_entry process s1 v" if "page_aligned v" for v using hw(4) that by blast
  have old: "held process s2 ?A a \<and> \<not> in_range p 4096 a \<and> (\<not> in_range ?slot 4 a \<longrightarrow> m a = mem s a)" if "held process s A a" for a
    using p(8)[OF that] m[of a] h2(1) by auto
  have blk: "m a = mem s a" if "in_range c 4096 a" "c \<in> set (b # bs)" for c a
    using old[OF bh(1)[OF that]] bh(2)[OF that] slot by blast
  have next_ptr: "read32 m (b + 512) = read32 (mem s) (b + 512)"
    using blk[of b] block_parts(2)[of b] by (intro read32_cong) auto
  have seg2: "arg_seg (mem s2) (read32 m (b + 512)) bs us 0"
    using b(5) next_ptr blk h2(4) arg_seg_cong[of bs m "mem s"] by simp
  have blk2: "\<forall>c \<in> set bs. \<forall>a. in_range c 4096 a \<longrightarrow> held process s2 ?A a \<and> \<not> in_range argv 4096 a"
    using old bh by auto
  have av2: "\<forall>a. in_range argv 4096 a \<longrightarrow> held process s2 ?A a" using old ah by blast
  have room2: "Suc i + length bs \<le> 1024" "length bs \<le> avail s2" "length bs \<le> free_slots (pr_allocations (procs s2 process))"
    using Cons.prems(5-7) p(6,7) h2(2,5) by simp_all
  from Cons.IH[OF h2(3) seg2 blk2 av2 room2] obtain s' A' where ih:
    "inject_arguments_loop process argv (read32 m (b + 512)) (of_nat (Suc i)) s2 = Some (0, s')" "proc_mem_ok process s' A'"
    "\<forall>k < length bs. argument_at process s' argv (Suc i + k) (us ! k)" "\<forall>q n. ?A q = Some n \<longrightarrow> A' q = Some n"
    "\<forall>a. held process s2 ?A a \<longrightarrow> held process s' A' a \<and>
        (\<not> in_range (argv + 4 * of_nat (Suc i)) (4 * length bs) a \<longrightarrow> mem s' a = mem s2 a)"
    "\<forall>w. page_aligned w \<and> (?A w \<noteq> None \<or> A' w = None) \<longrightarrow> proc_entry process s' w = proc_entry process s2 w"
    by (auto simp del: fun_upd_apply of_nat_Suc)
  have call: "inject_arguments_loop process argv cur (of_nat i) s = Some (0, s')"
    using p(1,2) b(1,2) ih(1) st
    by (subst inject_arguments_loop.simps) (simp add: Let_def m_def[symmetric] s2_def add.commute)
  have later: "\<not> in_range (argv + 4 * of_nat (Suc i)) (4 * length bs) a" if "in_range ?slot 4 a" for a
    using vector_slot(2)[of i "Suc i", OF _ _ that, of "length bs"] Cons.prems(5) by simp
  have tail: "in_range argv 4096 a" "in_range ?slot (4 * length (b # bs)) a"
    if "in_range (argv + 4 * of_nat (Suc i)) (4 * length bs) a" for a
  proof -
    have e: "argv + 4 * of_nat (Suc i) = argv + of_nat (4 * Suc i)" "argv + 4 * of_nat (Suc i) = ?slot + of_nat 4" by simp_all
    show "in_range argv 4096 a"
      by (rule in_range_sub[OF that[unfolded e(1)]]) (use Cons.prems(5) in simp_all)
    show "in_range ?slot (4 * length (b # bs)) a"
      by (rule in_range_sub[OF that[unfolded e(2)]]) (use Cons.prems(5) in simp_all)
  qed
  have keep: "mem s' a = m a" if "held process s2 ?A a" "\<not> in_range (argv + 4 * of_nat (Suc i)) (4 * length bs) a" for a
    using ih(5) that h2(4) by auto
  have "mem s' a = m a" if "in_range ?slot 4 a" for a
    using keep old ah[OF slot[OF that]] later[OF that] by blast
  then have "read32 (mem s') ?slot = p" using rp by (metis read32_cong)
  moreover have "mem s' a = m a" if "in_range p (Suc (length t)) a" for a
  proof -
    have a: "in_range p 4096 a" using that lt in_range_mono by fastforce
    then have "held process s2 ?A a" using p(9) h2(1) by simp
    moreover have "\<not> in_range argv 4096 a" using old ah a by blast
    ultimately show ?thesis using keep tail(1) by blast
  qed
  then have "cstr (mem s') p t" using cp by (metis cstr_cong)
  moreover have "proc_entry process s' p = p OR 7" using ih(6) e2 p(4,10) by simp
  ultimately have first: "argument_at process s' argv i t" using p(4) by (simp add: argument_at_def Let_def)
  have "argument_at process s' argv (i + k) (ts ! k)" if "k < length (b # bs)" for k
    using first ih(3) that ts by (cases k) auto
  moreover have "\<forall>q n. A q = Some n \<longrightarrow> A' q = Some n"
    using ih(4) p(3) by (metis fun_upd_other option.distinct(1))
  moreover have "held process s' A' a \<and> (\<not> in_range ?slot (4 * length (b # bs)) a \<longrightarrow> mem s' a = mem s a)"
    if h: "held process s A a" for a
  proof -
    have "\<not> in_range ?slot 4 a" if "\<not> in_range ?slot (4 * length (b # bs)) a"
      using that in_range_mono[of ?slot 4 a "4 * length (b # bs)"] by auto
    then show ?thesis using old[OF h] ih(5) keep tail(2) by metis
  qed
  moreover have "proc_entry process s' v = proc_entry process s v" if "page_aligned v \<and> (A v \<noteq> None \<or> A' v = None)" for v
  proof -
    have "A' p = Some 4096" using ih(4) by simp
    then have "v \<noteq> p" using that p(3) by auto
    then show ?thesis using ih(6) e2[of v] p(11)[of v] that by auto
  qed
  ultimately show ?case using call ih(2) by (intro exI[of _ s'] exI[of _ A']) blast
qed

subsection \<open>Running a command line\<close>

text \<open>
  \<open>Inl\<close> is the result of \<^verbatim>\<open>boios_system_run\<close> when it returns without a system call; \<open>Inr\<close> is the
  argument list that \<^verbatim>\<open>boios_system\<close> hands to system call 7.  \<open>buf\<close> is its buffer of 1024 bytes.
\<close>

definition boios_system_run ::
    "addr \<Rightarrow> addr \<Rightarrow> addr \<Rightarrow> addr \<Rightarrow> addr \<Rightarrow> addr \<Rightarrow> 'z process_state_scheme \<Rightarrow>
     ((int + addr) \<times> addr \<times> 'z process_state_scheme) option" where
  "boios_system_run process buf scommand d sp command s =
     do {
       let s = s\<lparr>mem := strncpy (mem s) buf command 1024\<rparr>;
       (root, sp, s) \<leftarrow> boios_parse_command process scommand d sp buf 1024 s;
       Some (if root = 0 then Inl (- 1) else Inr root, sp, s)
     }"

text \<open>\<^verbatim>\<open>chdir\<close> and \<^verbatim>\<open>getcwd\<close> of \<^verbatim>\<open>unistd.c\<close>; \<open>cwd\<close> is the static buffer.\<close>

definition chdir :: "addr \<Rightarrow> addr \<Rightarrow> memory \<Rightarrow> int \<times> memory" where
  "chdir cwd path m = (0, strncpy m cwd path 128)"

definition getcwd :: "addr \<Rightarrow> addr \<Rightarrow> u32 \<Rightarrow> addr" where
  "getcwd cwd buf sz = cwd"

text \<open>
  One round of the loop of the shell (\<^verbatim>\<open>src/programs/shell/src/shell.c\<close>) up to the system call: the prompt,
  the line, a line break and the command.  The result also has what is sent to the terminal and the keys that are left.
\<close>

record shell_statics =
  sh_prompt :: addr
  sh_newline :: addr
  sh_cwd :: addr
  sh_line :: addr
  sh_run :: addr
  sh_split :: addr
  sh_space :: addr
  sh_digits :: "u8 list"

definition shell_round ::
    "shell_statics \<Rightarrow> addr \<Rightarrow> addr \<Rightarrow> u8 list \<Rightarrow> 'z process_state_scheme \<Rightarrow>
     ((int + addr) \<times> terminal_output list \<times> addr \<times> u8 list \<times> 'z process_state_scheme) option" where
  "shell_round k process sp keys s =
     do {
       prompt \<leftarrow> printf (mem s) (sh_prompt k) [String_arg (getcwd (sh_cwd k) 0 128)] (sh_digits k);
       (line, echo, keys) \<leftarrow>
         boios_terminal_readline (map (\<lambda>i. mem s (sh_line k + of_nat i)) [0..<1024]) 1024 True keys;
       let s = s\<lparr>mem := store_bytes (mem s) (sh_line k) line\<rparr>;
       (res, sp, s) \<leftarrow> boios_system_run process (sh_run k) (sh_split k) (sh_space k) sp (sh_line k) s;
       Some (res, prompt @ map Put_char echo @ [Put_string (sh_newline k)], sp, keys, s)
     }"

lemma held_store:
  assumes ok: "proc_mem_ok process s A" and r: "\<forall>a. in_range p n a \<longrightarrow> held process s A a" and n: "length bs \<le> n"
  shows "proc_mem_ok process (s\<lparr>mem := store_bytes (mem s) p bs\<rparr>) A" "avail (s\<lparr>mem := store_bytes (mem s) p bs\<rparr>) = avail s"
    "held process (s\<lparr>mem := store_bytes (mem s) p bs\<rparr>) A = held process s A"
    "\<not> in_range p n a \<Longrightarrow> store_bytes (mem s) p bs a = mem s a"
proof -
  have fr: "store_bytes (mem s) p bs a = mem s a" if "\<not> in_range p n a" for a
    using that in_range_mono[OF _ n] by (intro store_bytes_outside) blast
  then show "\<not> in_range p n a \<Longrightarrow> store_bytes (mem s) p bs a = mem s a" .
  have w: "store_bytes (mem s) p bs a = mem s a" if "\<not> held process s A a" for a using fr r that by blast
  show "proc_mem_ok process (s\<lparr>mem := store_bytes (mem s) p bs\<rparr>) A" by (rule held_write(1)[OF ok w])
  show "avail (s\<lparr>mem := store_bytes (mem s) p bs\<rparr>) = avail s" by (rule held_write(2)[OF ok w])
  show "held process (s\<lparr>mem := store_bytes (mem s) p bs\<rparr>) A = held process s A" by (rule held_write(3)[OF ok w])
qed

text \<open>Buffers of a program that a line passes through.\<close>

definition line_buffers :: "addr \<Rightarrow> 'z task_state_scheme \<Rightarrow> (addr \<rightharpoonup> nat) \<Rightarrow> (addr \<times> nat) list \<Rightarrow> bool" where
  "line_buffers process s A bufs \<longleftrightarrow>
     (\<forall>(p, n) \<in> set bufs. \<forall>a. in_range p n a \<longrightarrow> held process s A a) \<and>
     (\<forall>i < length bufs. \<forall>j < length bufs. i \<noteq> j \<longrightarrow>
        disjoint_ranges (fst (bufs ! i)) (snd (bufs ! i)) (fst (bufs ! j)) (snd (bufs ! j)))"

lemma system_run_words:
  fixes s :: "'z process_state_scheme"
  assumes ok: "proc_mem_ok process s A" and cs: "cstr (mem s) command cs" "length cs \<le> 1023" and d: "cstr (mem s) d ds"
    and bufs: "line_buffers process s A [(command, Suc (length cs)), (buf, 1024), (scommand, 1025), (d, Suc (length ds))]"
    and room: "length (line_words (set ds) cs) \<le> avail s"
      "length (line_words (set ds) cs) \<le> free_slots (pr_allocations (procs s process))"
  obtains res s' A' bs where "boios_system_run process buf scommand d 0 command s = Some (res, 0, s')"
    "proc_mem_ok process s' A'" "own_blocks process s' A' bs"
    "if line_words (set ds) cs = [] then res = Inl (- 1) else
       \<exists>root. res = Inr root \<and> arg_seg (mem s') root bs (map (take 511) (line_words (set ds) cs)) 0"
    "\<forall>q n. A q = Some n \<longrightarrow> A' q = Some n"
proof -
  have h: "\<And>a. in_range buf 1024 a \<Longrightarrow> held process s A a" "\<And>a. in_range scommand 1025 a \<Longrightarrow> held process s A a"
    "\<And>a. in_range d (Suc (length ds)) a \<Longrightarrow> held process s A a"
    using bufs by (auto simp: line_buffers_def)
  have dj: "disjoint_ranges buf 1024 command (Suc (length cs))" "disjoint_ranges scommand 1025 buf 1024"
    "disjoint_ranges buf 1024 d (Suc (length ds))" "disjoint_ranges scommand 1025 d (Suc (length ds))"
  proof -
    note D = bufs[unfolded line_buffers_def, THEN conjunct2, rule_format]
    show "disjoint_ranges buf 1024 command (Suc (length cs))" using D[of 1 0] by simp
    show "disjoint_ranges scommand 1025 buf 1024" using D[of 2 1] by simp
    show "disjoint_ranges buf 1024 d (Suc (length ds))" using D[of 1 3] by simp
    show "disjoint_ranges scommand 1025 d (Suc (length ds))" using D[of 2 3] by simp
  qed
  have tk: "take (nat (1024 - 1)) cs = cs" using cs(2) by simp
  have le: "length (cs @ [0]) \<le> 1024" using cs(2) by simp
  have "disjoint_ranges buf (Suc (length cs)) command (Suc (length cs))"
    using dj(1) in_range_mono[OF _ le] by (auto simp: disjoint_ranges_def)
  then have cp: "strncpy (mem s) buf command 1024 = store_bytes (mem s) buf (cs @ [0])"
    using strncpy_store[OF cs(1), of buf 1024] unfolding tk by blast
  define s1 where "s1 = s\<lparr>mem := store_bytes (mem s) buf (cs @ [0])\<rparr>"
  have hb: "\<forall>a. in_range buf 1024 a \<longrightarrow> held process s A a" using h(1) by blast
  note hs = held_store[OF ok hb le, folded s1_def]
  have c1: "cstr (mem s1) buf cs"
    using cs cstr_store_bytes[of cs "mem s" buf] cstr_no_nul[OF cs(1)] by (simp add: s1_def)
  have "\<not> in_range buf 1024 a" if "in_range d (Suc (length ds)) a" for a using dj(3) that by (auto simp: disjoint_ranges_def)
  then have "cstr (store_bytes (mem s) buf (cs @ [0])) d ds = cstr (mem s) d ds" using hs(4) by (intro cstr_cong) blast
  then have d1: "cstr (mem s1) d ds" using d by (simp add: s1_def)
  have b1: "\<forall>a. in_range scommand 1025 a \<longrightarrow> held process s1 A a"
    "\<forall>a. in_range d (Suc (length ds)) a \<longrightarrow> held process s1 A a \<and> \<not> in_range scommand 1025 a"
    using h dj(4) hs(3) by (auto simp: disjoint_ranges_def)
  have le2: "Suc (length cs) \<le> 1024" using cs(2) by simp
  have ap: "disjoint_ranges scommand 1025 buf (Suc (length cs))"
    using dj(2) in_range_mono[OF _ le2] by (auto simp: disjoint_ranges_def)
  have rm: "length (line_words (set ds) cs) \<le> avail s1"
    "length (line_words (set ds) cs) \<le> free_slots (pr_allocations (procs s1 process))"
    using room hs(2) by (simp_all add: s1_def)
  have l: "length cs \<le> 1024" "(1024 :: int) < 1025" using cs(2) by simp_all
  obtain root s' A' bs where r: "boios_parse_command process scommand d 0 buf 1024 s1 = Some (root, 0, s')"
    "proc_mem_ok process s' A'" "arg_seg (mem s') root bs (map (take 511) (line_words (set ds) cs)) 0"
    "own_blocks process s' A' bs" "\<forall>q n. A q = Some n \<longrightarrow> A' q = Some n"
    by (rule parse_command_runs[OF hs(1) c1 l(1) d1 b1 ap rm l(2)]) blast
  have "root = 0 \<longleftrightarrow> line_words (set ds) cs = []"
    using r(3) by (cases bs; cases "line_words (set ds) cs") auto
  then have "if line_words (set ds) cs = [] then (if root = 0 then Inl (- 1) else Inr root) = (Inl (- 1) :: int + addr) else
       \<exists>r. (if root = 0 then Inl (- 1) else Inr root) = (Inr r :: int + addr) \<and>
         arg_seg (mem s') r bs (map (take 511) (line_words (set ds) cs)) 0"
    using r(3) by auto
  moreover have "boios_system_run process buf scommand d 0 command s = Some (if root = 0 then Inl (- 1) else Inr root, 0, s')"
    using r(1) by (simp add: boios_system_run_def cp s1_def)
  ultimately show thesis using r(2,4,5) by (intro that[of "if root = 0 then Inl (- 1) else Inr root" s' A' bs]) blast+
qed

lemma edit_line_set: "edit_line m line keys = Some (line', rest) \<Longrightarrow> set line' \<subseteq> set line \<union> set keys"
proof (induction m line keys rule: edit_line.induct)
  case (1 m line keys)
  show ?case
  proof (cases "length line < m \<and> keys \<noteq> [] \<and> hd keys \<noteq> 13")
    case False
    then show ?thesis using 1(3) by (subst (asm) edit_line.simps) (auto split: list.splits if_splits)
  next
    case True
    then obtain key ks where k: "keys = key # ks" "length line < m" "key \<noteq> 13" by (cases keys) auto
    show ?thesis
    proof (cases "key = 8")
      case True
      then have "edit_line m (butlast line) ks = Some (line', rest)"
        using 1(3) k by (subst (asm) edit_line.simps) simp
      then show ?thesis using 1(1)[of key ks] k True by (auto dest: in_set_butlastD)
    next
      case False
      then have "edit_line m (line @ [key]) ks = Some (line', rest)"
        using 1(3) k by (subst (asm) edit_line.simps) simp
      then show ?thesis using 1(2)[of key ks] k False by auto
    qed
  qed
qed

lemma cstr_of_line:
  assumes "take (Suc (length cs)) bs = cs @ [0]" "0 \<notin> set cs" "length bs < 4294967296"
  shows "cstr (store_bytes m p bs) p cs"
proof -
  have l: "Suc (length cs) \<le> length bs"
  proof (rule ccontr)
    assume "\<not> Suc (length cs) \<le> length bs"
    then have "length (take (Suc (length cs)) bs) < Suc (length cs)" by simp
    then show False using assms(1) by simp
  qed
  have "cstr (store_bytes m p (cs @ [0])) p cs" using assms l by (intro cstr_store_bytes) simp_all
  moreover have "store_bytes m p (cs @ [0]) a = store_bytes m p bs a" if "in_range p (Suc (length cs)) a" for a
  proof -
    obtain i where i: "a = p + of_nat i" "i < Suc (length cs)" using \<open>in_range p (Suc (length cs)) a\<close> by (rule in_rangeE)
    have "(cs @ [0]) ! i = bs ! i" using i(2) nth_take[of i "Suc (length cs)" bs] assms(1) by metis
    then show ?thesis using i l assms(3) by (simp add: store_bytes_nth)
  qed
  ultimately show ?thesis using cstr_cong by blast
qed

text \<open>What \<^verbatim>\<open>printf\<close> prints of a format without a percent sign.\<close>

lemma printf_plain:
  "cstr m p cs \<Longrightarrow> 37 \<notin> set cs \<Longrightarrow> printf_loop m p args buf out = Some (out @ map Put_char cs)"
  by (induction cs arbitrary: p out) (subst printf_loop.simps; simp)+

lemma prompt_output:
  assumes "cstr m p (37 # 115 # cs)" "37 \<notin> set cs"
  shows "printf m p [String_arg q] digits = Some (Put_string q # map Put_char cs)"
proof -
  have c: "m p = 37" "m (p + 1) = 115" "cstr m (p + 2) cs" using assms(1) by (simp_all add: add.assoc)
  then show ?thesis
    unfolding printf_def by (subst printf_loop.simps) (simp add: printf_plain[OF c(3) assms(2)])
qed

lemma shell_round_runs:
  fixes s :: "'z process_state_scheme"
  assumes ok: "proc_mem_ok process s A"
    and lits: "cstr (mem s) (sh_prompt k) [37, 115, 32, 62, 62, 32]" "cstr (mem s) (sh_space k) [32]"
    and bufs: "line_buffers process s A [(sh_line k, 1024), (sh_run k, 1024), (sh_split k, 1025), (sh_space k, 2)]"
    and keys: "edit_line 1023 [] keys = Some (line, rest)" "0 \<notin> set keys"
    and room: "length (line_words {32} line) \<le> avail s"
      "length (line_words {32} line) \<le> free_slots (pr_allocations (procs s process))"
  obtains res out s' A' bs where "shell_round k process 0 keys s = Some (res, out, 0, rest, s')"
    "\<exists>echo. out = Put_string (sh_cwd k) # map Put_char ([32, 62, 62, 32] @ echo) @ [Put_string (sh_newline k)]"
    "proc_mem_ok process s' A'" "own_blocks process s' A' bs"
    "if line_words {32} line = [] then res = Inl (- 1) else
       \<exists>root. res = Inr root \<and> arg_seg (mem s') root bs (map (take 511) (line_words {32} line)) 0"
    "\<forall>q n. A q = Some n \<longrightarrow> A' q = Some n"
proof -
  let ?b = "map (\<lambda>i. mem s (sh_line k + of_nat i)) [0..<1024]"
  have lb: "length ?b = Suc 1023" by simp
  obtain out' put where r: "readline_loop True (int (Suc 1023)) 0 ?b [] keys = Some (int (length line), out', put, rest)"
    "take (length line) out' = line" "length line \<le> 1023" "length out' = 1024"
    using readline_edit[of "[]" ?b 1023 keys "[]"] keys(1) lb by auto
  define bs where "bs = out'[length line := 0]"
  have bs: "length bs = 1024" "take (Suc (length line)) bs = line @ [0]"
    using r(2-4) by (simp_all add: bs_def take_Suc_conv_app_nth)
  have rl: "boios_terminal_readline ?b 1024 True keys = Some (bs, put, rest)"
    using r(1) by (simp add: boios_terminal_readline_def bs_def)
  have z: "0 \<notin> set line" using edit_line_set[OF keys(1)] keys(2) by auto
  define s1 where "s1 = s\<lparr>mem := store_bytes (mem s) (sh_line k) bs\<rparr>"
  have hl: "\<forall>a. in_range (sh_line k) 1024 a \<longrightarrow> held process s A a" using bufs by (auto simp: line_buffers_def)
  have le: "length bs \<le> 1024" using bs(1) by simp
  note hs = held_store[OF ok hl le, folded s1_def]
  have c: "cstr (mem s1) (sh_line k) line" unfolding s1_def using cstr_of_line[OF bs(2) z] bs(1) by simp
  have D: "disjoint_ranges (sh_line k) 1024 (sh_space k) 2"
    using bufs[unfolded line_buffers_def, THEN conjunct2, rule_format, of 0 3] by simp
  have dd: "disjoint_ranges (sh_line k) 1024 (sh_space k) (Suc (length [32 :: u8]))"
    using D by (simp add: numeral_2_eq_2)
  have "\<not> in_range (sh_line k) 1024 a" if "in_range (sh_space k) (Suc (length [32 :: u8])) a" for a
    using dd that unfolding disjoint_ranges_def by blast
  then have "cstr (store_bytes (mem s) (sh_line k) bs) (sh_space k) [32] = cstr (mem s) (sh_space k) [32]"
    using hs(4) by (intro cstr_cong) blast
  then have d: "cstr (mem s1) (sh_space k) [32]" using lits(2) by (simp add: s1_def)
  have mono: "disjoint_ranges (sh_line k) (Suc (length line)) q n" "disjoint_ranges q n (sh_line k) (Suc (length line))"
    if "disjoint_ranges (sh_line k) 1024 q n" for q n
    using that r(3) in_range_mono[of "sh_line k" "Suc (length line)" _ 1024] unfolding disjoint_ranges_def by auto
  have b1: "line_buffers process s1 A [(sh_line k, Suc (length line)), (sh_run k, 1024), (sh_split k, 1025), (sh_space k, Suc (length [32 :: u8]))]"
  proof -
    have h: "held process s1 A a" if "in_range p n a" "(p, n) \<in> {(sh_line k, Suc (length line)), (sh_run k, 1024), (sh_split k, 1025), (sh_space k, 2)}" for p n a
      unfolding hs(3) using bufs that r(3) in_range_mono[of "sh_line k" "Suc (length line)" a 1024]
      by (auto simp: line_buffers_def)
    have P: "disjoint_ranges (sh_line k) 1024 (sh_run k) 1024" "disjoint_ranges (sh_line k) 1024 (sh_split k) 1025"
      "disjoint_ranges (sh_run k) 1024 (sh_split k) 1025" "disjoint_ranges (sh_run k) 1024 (sh_space k) 2"
      "disjoint_ranges (sh_split k) 1025 (sh_space k) 2"
      using bufs[unfolded line_buffers_def, THEN conjunct2, rule_format, of 0 1]
        bufs[unfolded line_buffers_def, THEN conjunct2, rule_format, of 0 2]
        bufs[unfolded line_buffers_def, THEN conjunct2, rule_format, of 1 2]
        bufs[unfolded line_buffers_def, THEN conjunct2, rule_format, of 1 3]
        bufs[unfolded line_buffers_def, THEN conjunct2, rule_format, of 2 3] by simp_all
    have sym: "disjoint_ranges q n p i" if "disjoint_ranges p i q n" for p i q n
      using that unfolding disjoint_ranges_def by blast
    show ?thesis unfolding line_buffers_def
    proof (intro conjI)
      show "\<forall>(p, n) \<in> set [(sh_line k, Suc (length line)), (sh_run k, 1024), (sh_split k, 1025), (sh_space k, Suc (length [32 :: u8]))].
          \<forall>a. in_range p n a \<longrightarrow> held process s1 A a"
        using h by (auto simp: numeral_2_eq_2)
      show "\<forall>i < length [(sh_line k, Suc (length line)), (sh_run k, 1024), (sh_split k, 1025), (sh_space k, Suc (length [32 :: u8]))]. \<forall>j < length [(sh_line k, Suc (length line)), (sh_run k, 1024), (sh_split k, 1025), (sh_space k, Suc (length [32 :: u8]))]. i \<noteq> j \<longrightarrow>
        disjoint_ranges (fst ([(sh_line k, Suc (length line)), (sh_run k, 1024), (sh_split k, 1025), (sh_space k, Suc (length [32 :: u8]))] ! i)) (snd ([(sh_line k, Suc (length line)), (sh_run k, 1024), (sh_split k, 1025), (sh_space k, Suc (length [32 :: u8]))] ! i)) (fst ([(sh_line k, Suc (length line)), (sh_run k, 1024), (sh_split k, 1025), (sh_space k, Suc (length [32 :: u8]))] ! j)) (snd ([(sh_line k, Suc (length line)), (sh_run k, 1024), (sh_split k, 1025), (sh_space k, Suc (length [32 :: u8]))] ! j))"
        using P[THEN sym] P mono D D[THEN sym] dd dd[THEN sym]
        by (auto simp: less_Suc_eq nth_Cons' numeral_2_eq_2)
    qed
  qed
  have rm: "length (line_words (set [32]) line) \<le> avail s1"
    "length (line_words (set [32]) line) \<le> free_slots (pr_allocations (procs s1 process))"
    using room hs(2) by (simp_all add: s1_def)
  obtain res s' A' cs where f: "boios_system_run process (sh_run k) (sh_split k) (sh_space k) 0 (sh_line k) s1 = Some (res, 0, s')"
    "proc_mem_ok process s' A'" "own_blocks process s' A' cs"
    "if line_words (set [32]) line = [] then res = Inl (- 1) else
       \<exists>root. res = Inr root \<and> arg_seg (mem s') root cs (map (take 511) (line_words (set [32]) line)) 0"
    "\<forall>q n. A q = Some n \<longrightarrow> A' q = Some n"
    by (rule system_run_words[OF hs(1) c r(3) d b1 rm]) blast
  have "shell_round k process 0 keys s = Some (res, [Put_string (sh_cwd k), Put_char 32, Put_char 62, Put_char 62, Put_char 32] @
      map Put_char put @ [Put_string (sh_newline k)], 0, rest, s')"
    using f(1) by (simp add: shell_round_def prompt_output[OF lits(1)] getcwd_def rl s1_def)
  moreover have "if line_words {32} line = [] then res = Inl (- 1) else
       \<exists>root. res = Inr root \<and> arg_seg (mem s') root cs (map (take 511) (line_words {32} line)) 0"
    using f(4) by (simp only: list.set)
  ultimately show thesis using f(2,3,5) by (intro that) auto
qed

lemma proc_fields_cong [simp]:
  "proc_mem_ok process (upd_proc process (\<lambda>p. p\<lparr>pr_argc := c, pr_argv := v\<rparr>) s) A = proc_mem_ok process s A"
  "argument_at process (upd_proc process (\<lambda>p. p\<lparr>pr_argc := c, pr_argv := v\<rparr>) s) = argument_at process s"
  "held process (upd_proc process (\<lambda>p. p\<lparr>pr_argc := c, pr_argv := v\<rparr>) s) = held process s"
  "proc_entry process (upd_proc process (\<lambda>p. p\<lparr>pr_argc := c, pr_argv := v\<rparr>) s) = proc_entry process s"
  by (simp_all add: proc_mem_ok_def upd_proc_def argument_at_def held_def proc_entry_def fun_eq_iff)

lemma inject_arguments_runs:
  fixes s :: "'z process_state_scheme"
  assumes ok: "proc_mem_ok process s A" and seg: "arg_seg (mem s) root bs ts 0" "own_blocks process s A bs"
    and n: "bs \<noteq> []" "length bs \<le> 1024"
    and room: "length bs < avail s" "length bs < free_slots (pr_allocations (procs s process))"
  obtains s' A' where "process_inject_arguments process root s = Some (0, s')" "proc_mem_ok process s' A'"
    "pr_argc (procs s' process) = of_nat (length bs)"
    "\<forall>k < length bs. argument_at process s' (pr_argv (procs s' process)) k (ts ! k)"
    "\<forall>q n. A q = Some n \<longrightarrow> A' q = Some n" "\<forall>a. held process s A a \<longrightarrow> mem s' a = mem s a \<and> held process s' A' a"
    "\<forall>w. page_aligned w \<and> (A w \<noteq> None \<or> A' w = None) \<longrightarrow> proc_entry process s' w = proc_entry process s w"
proof -
  have cnt: "process_count_command_arguments (mem s) root 0 = Some (of_nat (length bs))"
    using process_count_loop[OF arg_seg_list[OF seg(1)], of 0] by simp
  have u: "unat (of_nat (length bs) :: u32) = length bs" "unat (4 * of_nat (length bs) :: u32) = 4 * length bs"
    using n(2) unat_of_nat32[of "4 * length bs"] by (simp_all add: unat_of_nat32)
  have argc: "of_nat (length bs) \<noteq> (0 :: u32)" using u(1) n(1) by (metis length_0_conv unat_0)
  have sz: "0 < unat (4 * of_nat (length bs) :: u32)" "unat (4 * of_nat (length bs) :: u32) \<le> 4096"
    using u(2) n by simp_all
  have av: "0 < avail s" "0 < free_slots (pr_allocations (procs s process))" using room by simp_all
  obtain v s1 where v: "process_malloc process (4 * of_nat (length bs)) s = (v, s1)" "v \<noteq> 0" "A v = None" "page_aligned v"
    "proc_mem_ok process s1 (A(v \<mapsto> 4096))" "avail s = Suc (avail s1)"
    "free_slots (pr_allocations (procs s process)) = Suc (free_slots (pr_allocations (procs s1 process)))"
    "\<And>a. held process s A a \<Longrightarrow> mem s1 a = mem s a \<and> held process s1 (A(v \<mapsto> 4096)) a \<and> \<not> in_range v 4096 a"
    "\<And>a. in_range v 4096 a \<Longrightarrow> held process s1 (A(v \<mapsto> 4096)) a"
    "\<And>w. page_aligned w \<Longrightarrow> w \<noteq> v \<Longrightarrow> proc_entry process s1 w = proc_entry process s w"
    by (rule process_malloc_keeps[OF ok sz av]) blast
  have bh: "held process s A a" if "b \<in> set bs" "in_range b 4096 a" for b a
    by (rule own_blocks_held[OF seg(2) that])
  have seg1: "arg_seg (mem s1) root bs ts 0"
    using seg(1) bh v(8) arg_seg_cong[of bs "mem s1" "mem s"] by blast
  have blk: "\<forall>b \<in> set bs. \<forall>a. in_range b 4096 a \<longrightarrow> held process s1 (A(v \<mapsto> 4096)) a \<and> \<not> in_range v 4096 a"
    using bh v(8) by blast
  have vh: "\<forall>a. in_range v 4096 a \<longrightarrow> held process s1 (A(v \<mapsto> 4096)) a" using v(9) by blast
  have room1: "0 + length bs \<le> 1024" "length bs \<le> avail s1" "length bs \<le> free_slots (pr_allocations (procs s1 process))"
    using n(2) room v(6,7) by simp_all
  from inject_loop_ok[OF v(5) seg1 blk vh room1] obtain s' A' where l:
    "inject_arguments_loop process v root 0 s1 = Some (0, s')" "proc_mem_ok process s' A'"
    "\<forall>k < length bs. argument_at process s' v k (ts ! k)" "\<forall>q n. (A(v \<mapsto> 4096)) q = Some n \<longrightarrow> A' q = Some n"
    "\<forall>a. held process s1 (A(v \<mapsto> 4096)) a \<longrightarrow> held process s' A' a \<and> (\<not> in_range v (4 * length bs) a \<longrightarrow> mem s' a = mem s1 a)"
    "\<forall>w. page_aligned w \<and> ((A(v \<mapsto> 4096)) w \<noteq> None \<or> A' w = None) \<longrightarrow> proc_entry process s' w = proc_entry process s1 w"
    by (auto simp del: fun_upd_apply)
  let ?s' = "upd_proc process (\<lambda>p. p\<lparr>pr_argc := of_nat (length bs), pr_argv := v\<rparr>) s'"
  have "process_inject_arguments process root s = Some (0, ?s')"
    using cnt argc v(1,2) l(1) by (simp add: process_inject_arguments_def)
  moreover have "\<forall>q n. A q = Some n \<longrightarrow> A' q = Some n"
    using l(4) v(3) by (metis fun_upd_other option.distinct(1))
  moreover have "mem s' a = mem s a \<and> held process s' A' a" if h: "held process s A a" for a
  proof -
    have "4 * length bs \<le> 4096" using n(2) by simp
    then have "\<not> in_range v (4 * length bs) a" using v(8)[OF h] in_range_mono by blast
    then show ?thesis using v(8)[OF h] l(5) by auto
  qed
  moreover have "proc_entry process s' w = proc_entry process s w" if "page_aligned w \<and> (A w \<noteq> None \<or> A' w = None)" for w
  proof -
    have "A' v = Some 4096" using l(4) by simp
    then have "w \<noteq> v" using that v(3) by auto
    then show ?thesis using l(6) v(10)[of w] that by simp
  qed
  ultimately show thesis using l(2,3) by (intro that[of ?s' A']) simp_all
qed

subsection \<open>Properties\<close>

text \<open>
  C15: \<^verbatim>\<open>boios_parse_command\<close> ends on every line of up to 1024 characters, and with room for the blocks
  it returns the list of the words of the line, each in a new block of its own and cut
  to 511 characters, a null pointer for a line without words; nothing else that is live
  changes but its line buffer, and \<^verbatim>\<open>strtok\<close> is ready for the next line.
\<close>

theorem parse_command_words:
  assumes "proc_mem_ok process s A" "cstr (mem s) command cs" "length cs \<le> 1024" "cstr (mem s) d ds"
    and "\<forall>a. in_range scommand 1025 a \<longrightarrow> held process s A a"
    and "\<forall>a. in_range d (Suc (length ds)) a \<longrightarrow> held process s A a \<and> \<not> in_range scommand 1025 a"
    and "disjoint_ranges scommand 1025 command (Suc (length cs))"
    and "length (line_words (set ds) cs) \<le> avail s"
    and "length (line_words (set ds) cs) \<le> free_slots (pr_allocations (procs s process))"
    and "mx < 1025"
  shows "\<exists>root s' A' bs. boios_parse_command process scommand d 0 command mx s = Some (root, 0, s') \<and>
     arg_seg (mem s') root bs (map (take 511) (line_words (set ds) cs)) 0 \<and>
     proc_mem_ok process s' A' \<and> own_blocks process s' A' bs \<and> (\<forall>b \<in> set bs. A b = None) \<and>
     (\<forall>q n. A q = Some n \<longrightarrow> A' q = Some n) \<and>
     (\<forall>a. held process s A a \<and> \<not> in_range scommand 1025 a \<longrightarrow> mem s' a = mem s a)"
  by (rule parse_command_runs[OF assms]) blast

text \<open>
  C25: \<^verbatim>\<open>process_inject_arguments\<close> copies a list of up to 1024 arguments to the process: \<^verbatim>\<open>argc\<close> is their number, and
  every entry of \<^verbatim>\<open>argv\<close> points to a string with the same text, in a page that the process may
  read and write; no other live byte and no other translation changes.
\<close>

theorem process_inject_arguments_ok:
  assumes "proc_mem_ok process s A" "arg_seg (mem s) root bs ts 0" "own_blocks process s A bs"
    and "bs \<noteq> []" "length bs \<le> 1024"
    and "length bs < avail s" "length bs < free_slots (pr_allocations (procs s process))"
  shows "\<exists>s' A'. process_inject_arguments process root s = Some (0, s') \<and> proc_mem_ok process s' A' \<and>
     pr_argc (procs s' process) = of_nat (length ts) \<and>
     (\<forall>k < length ts. argument_at process s' (pr_argv (procs s' process)) k (ts ! k)) \<and>
     (\<forall>q n. A q = Some n \<longrightarrow> A' q = Some n) \<and> (\<forall>a. held process s A a \<longrightarrow> mem s' a = mem s a) \<and>
     (\<forall>w. page_aligned w \<and> A w \<noteq> None \<longrightarrow> proc_entry process s' w = proc_entry process s w)"
  by (rule inject_arguments_runs[OF assms]) (use arg_seg_length[OF assms(2)] in \<open>simp, blast\<close>)

text \<open>A page of the process with a line buffer, the delimiter at \<open>0x800\<close> and the line \<^verbatim>\<open>hi x\<close> at \<open>0xC00\<close> in it.\<close>

definition line_page :: "addr \<times> process_state" where
  "line_page = (let (b, s) = kzalloc loaded_procs 4096
     in (b, s\<lparr>mem := store_bytes (store_bytes (mem s) (b + of_nat 0x800) [32, 0]) (b + of_nat 0xC00) [104, 105, 32, 120, 0]\<rparr>))"

lemma zero_allocs: "pr_allocations (procs loaded_procs 0x5000) = replicate 1024 \<lparr>alloc_ptr = 0, alloc_size = 0\<rparr>"
proof -
  have e: "procs loaded_procs 0x5000 = zero_process\<lparr>pr_task := pr_task (procs loaded_procs 0x5000)\<rparr>"
    by (rule loaded_procs_ok) blast
  show ?thesis by (subst e) (simp add: zero_process_def)
qed

lemma page_process:
  obtains b s A where "kzalloc loaded_procs 4096 = (b, s)" "proc_mem_ok 0x5000 s A" "avail s = 24572"
    "own_blocks 0x5000 s A [b]" "free_slots (pr_allocations (procs s 0x5000)) = 1024" "b \<noteq> 0"
    "\<And>a. in_range b 4096 a \<Longrightarrow> mem s a = 0"
proof -
  obtain A where A: "proc_mem_ok 0x5000 loaded_procs A" "avail loaded_procs = 24573" by (rule loaded_procs_ok)
  obtain b s where z: "kzalloc loaded_procs 4096 = (b, s)" by fastforce
  have sz: "0 < unat (4096 :: u32)" "unat (4096 :: u32) \<le> 4096" "0 < avail loaded_procs" using A by simp_all
  note k = proc_mem_ok_kzalloc[OF A(1) sz z]
  have live: "live_regions loaded_procs A" using A(1) by (simp add: proc_mem_ok_def)
  have "proc_chunk 0x5000 s = proc_chunk 0x5000 loaded_procs" using k(5,6) by simp
  then have "own_blocks 0x5000 s (A(b \<mapsto> 4096)) [b]" using k(7,8) by (simp add: own_blocks_def)
  moreover have "free_slots (pr_allocations (procs s 0x5000)) = 1024" using k(5) zero_allocs by (simp add: free_slots_def)
  moreover have "mem s a = 0" if "in_range b 4096 a" for a
    using kpages.alloc_zeroed[OF live sz z] that by simp
  ultimately show thesis using that[OF z k(1)] k(2,4) A(2) by simp
qed

text \<open>Parts of such a page, and writing to one.\<close>

lemma page_part:
  assumes "in_range (b + of_nat k) n a" "k + n \<le> 4096"
  shows "k \<le> unat (a - b)" "unat (a - b) < k + n"
proof -
  obtain j where j: "a = b + of_nat k + of_nat j" "j < n" using assms(1) by (rule in_rangeE)
  have "a - b = of_nat (k + j)" using j(1) by simp
  moreover have "unat (of_nat (k + j) :: u32) = k + j" using j(2) assms(2) by (intro unat_of_nat32) linarith
  ultimately have "unat (a - b) = k + j" by metis
  then show "k \<le> unat (a - b)" "unat (a - b) < k + n" using j(2) by simp_all
qed

lemma page_parts_apart:
  "k + n \<le> j \<Longrightarrow> j + i \<le> 4096 \<Longrightarrow> disjoint_ranges (b + of_nat k) n (b + of_nat j) i"
  "k + n \<le> j \<Longrightarrow> j + i \<le> 4096 \<Longrightarrow> disjoint_ranges (b + of_nat j) i (b + of_nat k) n"
proof -
  assume j: "k + n \<le> j" "j + i \<le> 4096"
  have "False" if "in_range (b + of_nat k) n a" "in_range (b + of_nat j) i a" for a
  proof -
    have "k + n \<le> 4096" using j by simp
    then show False using page_part(2)[OF that(1)] page_part(1)[OF that(2) j(2)] j(1) by simp
  qed
  then show "disjoint_ranges (b + of_nat k) n (b + of_nat j) i" "disjoint_ranges (b + of_nat j) i (b + of_nat k) n"
    unfolding disjoint_ranges_def by blast+
qed

lemma page_held:
  assumes "held process s A = held process s0 A" "own_blocks process s0 A [b]" "k + n \<le> 4096"
  shows "\<forall>a. in_range (b + of_nat k) n a \<longrightarrow> held process s A a"
proof (intro allI impI)
  fix a assume a: "in_range (b + of_nat k) n a"
  show "held process s A a" unfolding assms(1)
    by (rule own_blocks_held[OF assms(2), of b]) (use page_part[OF a assms(3)] assms(3) in \<open>simp_all add: in_range_def\<close>)
qed

lemma page_cstr:
  assumes "cstr m (b + of_nat k) cs" "k + Suc (length cs) \<le> j" "j + length bs \<le> 4096"
  shows "cstr (store_bytes m (b + of_nat j) bs) (b + of_nat k) cs"
proof -
  have d: "disjoint_ranges (b + of_nat k) (Suc (length cs)) (b + of_nat j) (length bs)"
    by (rule page_parts_apart(1)[OF assms(2,3)])
  have "cstr (store_bytes m (b + of_nat j) bs) (b + of_nat k) cs = cstr m (b + of_nat k) cs"
    by (rule cstr_cong, rule store_bytes_outside) (use d in \<open>auto simp: disjoint_ranges_def\<close>)
  then show ?thesis using assms(1) by simp
qed

lemma line_page_words: "line_words {32} [104, 105, 32, 120] = [[104, 105], [120]]"
  by (subst line_words.simps, subst line_words.simps, simp add: Let_def)

theorem parse_command_words_witness:
  "case line_page of (b, s) \<Rightarrow> \<exists>root s' bs.
     boios_parse_command 0x5000 b (b + of_nat 0x800) 0 (b + of_nat 0xC00) 1024 s = Some (root, 0, s') \<and>
     arg_seg (mem s') root bs [[104, 105], [120]] 0"
proof -
  obtain b s A where s: "kzalloc loaded_procs 4096 = (b, s)" "proc_mem_ok 0x5000 s A" "avail s = 24572"
    "own_blocks 0x5000 s A [b]" "free_slots (pr_allocations (procs s 0x5000)) = 1024" by (rule page_process) blast
  define s1 where "s1 = s\<lparr>mem := store_bytes (mem s) (b + of_nat 0x800) [32, 0]\<rparr>"
  define s2 where "s2 = s1\<lparr>mem := store_bytes (mem s1) (b + of_nat 0xC00) [104, 105, 32, 120, 0]\<rparr>"
  note h1 = held_store[OF s(2) page_held[OF refl s(4)] order_refl, of "0x800" "[32, 0]", folded s1_def]
  have h: "0x800 + length [32, 0 :: u8] \<le> 4096" "0xC00 + length [104, 105, 32, 120, 0 :: u8] \<le> 4096" by simp_all
  note k1 = h1(1-3)[OF h(1)]
  note h2 = held_store[OF k1(1) page_held[OF k1(3) s(4) h(2)] order_refl, folded s2_def]
  have hw: "held 0x5000 s2 A = held 0x5000 s A" "avail s2 = 24572" using h2(2,3) k1(2,3) s(3) by simp_all
  have "cstr (mem s1) (b + of_nat 0x800) [32]"
    using cstr_store_bytes[of "[32]" "mem s" "b + of_nat 0x800"] by (simp add: s1_def)
  then have d: "cstr (mem s2) (b + of_nat 0x800) [32]"
    using page_cstr[of "mem s1" b "0x800" "[32]" "0xC00" "[104, 105, 32, 120, 0]"] by (simp add: s2_def)
  have c: "cstr (mem s2) (b + of_nat 0xC00) [104, 105, 32, 120]"
    using cstr_store_bytes[of "[104, 105, 32, 120]" "mem s1" "b + of_nat 0xC00"] by (simp add: s2_def)
  have buf: "\<forall>a. in_range b 1025 a \<longrightarrow> held 0x5000 s2 A a" using page_held[OF hw(1) s(4), of 0 1025] by simp
  have db: "\<forall>a. in_range (b + of_nat 0x800) (Suc (length [32 :: u8])) a \<longrightarrow> held 0x5000 s2 A a \<and> \<not> in_range b 1025 a"
    using page_held[OF hw(1) s(4), of "0x800" "Suc (length [32 :: u8])"]
      page_parts_apart(1)[of 0 1025 "0x800" "Suc (length [32 :: u8])" b] by (auto simp: disjoint_ranges_def)
  have dj: "disjoint_ranges b 1025 (b + of_nat 0xC00) (Suc (length [104, 105, 32, 120 :: u8]))"
    using page_parts_apart(1)[of 0 1025 "0xC00" "Suc (length [104, 105, 32, 120 :: u8])" b] by simp
  have ws: "line_words (set [32]) [104, 105, 32, 120] = [[104, 105], [120]]" using line_page_words by simp
  have "free_slots (pr_allocations (procs s2 0x5000)) = 1024" using s(5) by (simp add: s2_def s1_def)
  then have room: "length (line_words (set [32]) [104, 105, 32, 120]) \<le> avail s2"
    "length (line_words (set [32]) [104, 105, 32, 120]) \<le> free_slots (pr_allocations (procs s2 0x5000))"
    unfolding ws hw(2) by simp_all
  have "length [104, 105, 32, 120 :: u8] \<le> 1024" "(1024 :: int) < 1025" by simp_all
  from parse_command_words[OF h2(1) c this(1) d buf db dj room this(2)] show ?thesis
    unfolding line_page_def s(1) ws by (auto simp: s2_def s1_def)
qed

text \<open>A page with one argument, the text \<^verbatim>\<open>hi\<close>.\<close>

definition argument_page :: "addr \<times> process_state" where
  "argument_page = (let (b, s) = kzalloc loaded_procs 4096 in (b, s\<lparr>mem := store_bytes (mem s) b [104, 105, 0]\<rparr>))"

theorem process_inject_arguments_ok_witness:
  "case argument_page of (b, s) \<Rightarrow> \<exists>s'. process_inject_arguments 0x5000 b s = Some (0, s') \<and>
     pr_argc (procs s' 0x5000) = 1 \<and> argument_at 0x5000 s' (pr_argv (procs s' 0x5000)) 0 [104, 105]"
proof -
  obtain b s A where s: "kzalloc loaded_procs 4096 = (b, s)" "proc_mem_ok 0x5000 s A" "avail s = 24572"
    "own_blocks 0x5000 s A [b]" "free_slots (pr_allocations (procs s 0x5000)) = 1024" "b \<noteq> 0"
    "\<And>a. in_range b 4096 a \<Longrightarrow> mem s a = 0" by (rule page_process) blast
  let ?m = "store_bytes (mem s) b [104, 105, 0]"
  have w: "?m a = mem s a" if "\<not> held 0x5000 s A a" for a
  proof -
    have "\<not> in_range b (length [104, 105, 0 :: u8]) a"
      using own_blocks_held[OF s(4), of b a] in_range_mono[of b "length [104, 105, 0 :: u8]" a 4096] that by auto
    then show ?thesis by (rule store_bytes_outside)
  qed
  have hw: "proc_mem_ok 0x5000 (s\<lparr>mem := ?m\<rparr>) A" "avail (s\<lparr>mem := ?m\<rparr>) = 24572"
  proof -
    have "avail (s\<lparr>mem := ?m\<rparr>) = avail s" by (rule held_write(2)[OF s(2) w])
    then show "avail (s\<lparr>mem := ?m\<rparr>) = 24572" using s(3) by (rule trans)
    show "proc_mem_ok 0x5000 (s\<lparr>mem := ?m\<rparr>) A" by (rule held_write(1)[OF s(2) w])
  qed
  have c: "cstr ?m b [104, 105]" using cstr_store_bytes[of "[104, 105]" "mem s" b] by simp
  have "?m a = 0" if a: "in_range (b + 512) 4 a" for a
  proof -
    have "\<not> in_range b 512 a" using block_parts(3) a by blast
    then have "\<not> in_range b (length [104, 105, 0 :: u8]) a"
      using in_range_mono[of b "length [104, 105, 0 :: u8]" a 512] by auto
    then have "?m a = mem s a" by (rule store_bytes_outside)
    then show ?thesis using s(7) block_parts(2)[OF a] by simp
  qed
  then have "read32 ?m (b + 512) = read32 (\<lambda>_. 0) (b + 512)" by (intro read32_cong) simp
  then have seg: "arg_seg (mem (s\<lparr>mem := ?m\<rparr>)) b [b] [[104, 105]] 0" using c s(6) by (simp add: read32_def)
  have "space_pages ?m (proc_chunk 0x5000 s) = space_pages (mem s) (proc_chunk 0x5000 s)"
  proof (rule proc_mem_ok_cong(3)[OF s(2)])
    show "?m a = mem s a" if "table_byte boot_heap a \<or> (\<exists>q \<in> space_pages (mem s) (proc_chunk 0x5000 s). in_range q 4096 a)" for a
    proof (rule w)
      have l: "live_regions s A" "kernel_heap s = boot_heap" "space_live s A (proc_chunk 0x5000 s)"
        using s(2) by (simp_all add: proc_mem_ok_def)
      show "\<not> held 0x5000 s A a" using that held_nonzero(2)[OF l(1,2)] held_no_page[OF l(1,3)] by blast
    qed
  qed
  then have own: "own_blocks 0x5000 (s\<lparr>mem := ?m\<rparr>) A [b]" using s(4) by (simp add: own_blocks_def)
  have room: "length [b] < avail (s\<lparr>mem := ?m\<rparr>)" "length [b] < free_slots (pr_allocations (procs (s\<lparr>mem := ?m\<rparr>) 0x5000))"
    using hw(2) s(5) by simp_all
  have "[b] \<noteq> []" "length [b] \<le> 1024" by simp_all
  from process_inject_arguments_ok[OF hw(1) seg own this room] show ?thesis
    unfolding argument_page_def s(1) by auto
qed

text \<open>
  C14: a round of the shell, from the keys to the system call: it prints the prompt with the working directory, reads what a
  line editor makes of the keys, echoes it, and asks for the program of the first word of the line with all words,
  cut to 511 characters, as its arguments; for a line without words no system call is made.  The keys behind
  the line are not consumed, and the splitter is ready for the next line.
\<close>

theorem shell_round_words:
  assumes "proc_mem_ok process s A"
    and "cstr (mem s) (sh_prompt k) [37, 115, 32, 62, 62, 32]" "cstr (mem s) (sh_space k) [32]"
    and "line_buffers process s A [(sh_line k, 1024), (sh_run k, 1024), (sh_split k, 1025), (sh_space k, 2)]"
    and "edit_line 1023 [] keys = Some (line, rest)" "0 \<notin> set keys"
    and "length (line_words {32} line) \<le> avail s"
    and "length (line_words {32} line) \<le> free_slots (pr_allocations (procs s process))"
  shows "\<exists>res echo s' A' bs. shell_round k process 0 keys s =
      Some (res, Put_string (sh_cwd k) # map Put_char ([32, 62, 62, 32] @ echo) @ [Put_string (sh_newline k)], 0, rest, s') \<and>
      proc_mem_ok process s' A' \<and> own_blocks process s' A' bs \<and> (\<forall>q n. A q = Some n \<longrightarrow> A' q = Some n) \<and>
      (if line_words {32} line = [] then res = Inl (- 1)
       else \<exists>root. res = Inr root \<and> arg_seg (mem s') root bs (map (take 511) (line_words {32} line)) 0)"
  by (rule shell_round_runs[OF assms]) blast

text \<open>A page with the buffers and the literals of the shell, and the keys \<^verbatim>\<open>lt\<close>, backspace, \<^verbatim>\<open>s a\<close>, return.\<close>

definition shell_page :: "shell_statics \<times> process_state" where
  "shell_page = (let (b, s) = kzalloc loaded_procs 4096
     in (\<lparr>sh_prompt = b + of_nat 0xE00, sh_newline = b + of_nat 0xE80, sh_cwd = b + of_nat 0xF00, sh_line = b,
          sh_run = b + of_nat 0x400, sh_split = b + of_nat 0x800, sh_space = b + of_nat 0xD00, sh_digits = replicate 12 0\<rparr>,
         s\<lparr>mem := store_bytes (store_bytes (mem s) (b + of_nat 0xD00) [32, 0]) (b + of_nat 0xE00) [37, 115, 32, 62, 62, 32, 0]\<rparr>))"

lemma shell_page_words: "line_words {32} [108, 115, 32, 97] = [[108, 115], [97]]"
  by (subst line_words.simps, subst line_words.simps, simp add: Let_def)

theorem shell_round_words_witness:
  "case shell_page of (k, s) \<Rightarrow> \<exists>root out s' bs.
     shell_round k 0x5000 0 [108, 116, 8, 115, 32, 97, 13, 120] s = Some (Inr root, out, 0, [120], s') \<and>
     arg_seg (mem s') root bs [[108, 115], [97]] 0"
proof -
  obtain b s A where s: "kzalloc loaded_procs 4096 = (b, s)" "proc_mem_ok 0x5000 s A" "avail s = 24572"
    "own_blocks 0x5000 s A [b]" "free_slots (pr_allocations (procs s 0x5000)) = 1024" by (rule page_process) blast
  let ?f = "[37, 115, 32, 62, 62, 32, 0] :: u8 list"
  define s1 where "s1 = s\<lparr>mem := store_bytes (mem s) (b + of_nat 0xD00) [32, 0]\<rparr>"
  define s2 where "s2 = s1\<lparr>mem := store_bytes (mem s1) (b + of_nat 0xE00) ?f\<rparr>"
  define k where "k = \<lparr>sh_prompt = b + of_nat 0xE00, sh_newline = b + of_nat 0xE80, sh_cwd = b + of_nat 0xF00, sh_line = b,
    sh_run = b + of_nat 0x400, sh_split = b + of_nat 0x800, sh_space = b + of_nat 0xD00, sh_digits = replicate 12 0\<rparr>"
  have h: "0xD00 + length [32, 0 :: u8] \<le> 4096" "0xE00 + length ?f \<le> 4096" by simp_all
  note k1 = held_store(1-3)[OF s(2) page_held[OF refl s(4) h(1)] order_refl, folded s1_def]
  note k2 = held_store(1-3)[OF k1(1) page_held[OF k1(3) s(4) h(2)] order_refl, folded s2_def]
  have hw: "held 0x5000 s2 A = held 0x5000 s A" "avail s2 = 24572" using k2(2,3) k1(2,3) s(3) by simp_all
  have "cstr (mem s1) (b + of_nat 0xD00) [32]"
    using cstr_store_bytes[of "[32]" "mem s" "b + of_nat 0xD00"] by (simp add: s1_def)
  then have d: "cstr (mem s2) (sh_space k) [32]"
    using page_cstr[of "mem s1" b "0xD00" "[32]" "0xE00" ?f] by (simp add: s2_def k_def)
  have c: "cstr (mem s2) (sh_prompt k) [37, 115, 32, 62, 62, 32]"
    using cstr_store_bytes[of "[37, 115, 32, 62, 62, 32]" "mem s1" "b + of_nat 0xE00"] by (simp add: s2_def k_def)
  have e: "sh_line k = b + of_nat 0" "sh_run k = b + of_nat 0x400" "sh_split k = b + of_nat 0x800" "sh_space k = b + of_nat 0xD00"
    by (simp_all add: k_def)
  note A = page_parts_apart[of 0 1024 "0x400" 1024 b] page_parts_apart[of 0 1024 "0x800" 1025 b]
    page_parts_apart[of 0 1024 "0xD00" 2 b] page_parts_apart[of "0x400" 1024 "0x800" 1025 b]
    page_parts_apart[of "0x400" 1024 "0xD00" 2 b] page_parts_apart[of "0x800" 1025 "0xD00" 2 b]
  note H = page_held[OF hw(1) s(4), of 0 1024] page_held[OF hw(1) s(4), of "0x400" 1024]
    page_held[OF hw(1) s(4), of "0x800" 1025] page_held[OF hw(1) s(4), of "0xD00" 2]
  have b: "line_buffers 0x5000 s2 A [(sh_line k, 1024), (sh_run k, 1024), (sh_split k, 1025), (sh_space k, 2)]"
    unfolding e line_buffers_def
  proof (intro conjI)
    show "\<forall>(p, n) \<in> set [(b + of_nat 0, 1024), (b + of_nat 0x400, 1024), (b + of_nat 0x800, 1025), (b + of_nat 0xD00, 2)].
        \<forall>a. in_range p n a \<longrightarrow> held 0x5000 s2 A a"
      using H by (auto simp del: of_nat_numeral of_nat_0)
  qed (use A in \<open>auto simp: less_Suc_eq nth_Cons' simp del: of_nat_numeral of_nat_0\<close>)
  have ed: "edit_line 1023 [] [108, 116, 8, 115, 32, 97, 13, 120] = Some ([108, 115, 32, 97], [120])"
    by (simp add: edit_line.simps)
  have "free_slots (pr_allocations (procs s2 0x5000)) = 1024" using s(5) by (simp add: s2_def s1_def)
  then have room: "length (line_words {32} [108, 115, 32, 97]) \<le> avail s2"
    "length (line_words {32} [108, 115, 32, 97]) \<le> free_slots (pr_allocations (procs s2 0x5000))"
    unfolding shell_page_words hw(2) by simp_all
  have "0 \<notin> set [108, 116, 8, 115, 32, 97, 13, 120 :: u8]" by simp
  from shell_round_words[OF k2(1) c d b ed this room] show ?thesis
    unfolding shell_page_def s(1) shell_page_words by (auto simp: s2_def s1_def k_def)
qed

end
