(* ===== verification/Boi_Loader.thy ===== *)
theory Boi_Loader
  imports Boi_Command
begin

text \<open>
  A program from its file to its process's memory: what loading a file leaves
  alone (\<open>load_frame\<close>), and \<^verbatim>\<open>process_load_data\<close> (\<^verbatim>\<open>src/task/process.c\<close>) on a FAT16 disk, which first tries \<^verbatim>\<open>elf_load\<close>
  and then reads the file again as a binary.
\<close>

subsection \<open>What loading leaves alone\<close>

text \<open>
  From \<open>s\<close> to \<open>s'\<close> nothing that was live or outside of the heap has changed but the buffer at \<open>tmp\<close>, and
  of the records only what files and their streams are made of.
\<close>

definition load_frame ::
    "addr \<Rightarrow> 'z elf_state_scheme \<Rightarrow> (addr \<rightharpoonup> nat) \<Rightarrow> 'z elf_state_scheme \<Rightarrow> (addr \<rightharpoonup> nat) \<Rightarrow> bool" where
  "load_frame tmp s A s' A' \<longleftrightarrow> live_regions s' A' \<and> (\<forall>p n. A p = Some n \<longrightarrow> A' p = Some n) \<and>
     (\<forall>a. kreserved s A a \<and> \<not> in_range tmp 128 a \<longrightarrow> mem s' a = mem s a) \<and>
     (\<forall>p. A p \<noteq> None \<longrightarrow> dir_items s' p = dir_items s p) \<and>
     (\<forall>x. stream_disk (streams s' x) = stream_disk (streams s x)) \<and>
     (\<exists>m io st di fi de fd fds ef. s' = s\<lparr>mem := m, disk_ports := io, streams := st, dir_items := di, fat_items := fi,
        descriptors := de, file_descs := fd, file_descriptors := fds, elf_files := ef\<rparr>)"

lemma load_frame_refl: "live_regions s A \<Longrightarrow> load_frame tmp s A s A"
  unfolding load_frame_def
  by (intro conjI exI[of _ "mem s"] exI[of _ "disk_ports s"] exI[of _ "streams s"] exI[of _ "dir_items s"]
      exI[of _ "fat_items s"] exI[of _ "descriptors s"] exI[of _ "file_descs s"] exI[of _ "file_descriptors s"]
      exI[of _ "elf_files s"]) simp_all

lemma load_frameD:
  assumes "load_frame tmp s A s' A'"
  shows "live_regions s' A'" "A p = Some n \<Longrightarrow> A' p = Some n"
    "kreserved s A a \<Longrightarrow> \<not> in_range tmp 128 a \<Longrightarrow> mem s' a = mem s a"
    "A p \<noteq> None \<Longrightarrow> dir_items s' p = dir_items s p" "stream_disk (streams s' x) = stream_disk (streams s x)"
    "kernel_heap s' = kernel_heap s" "the_disk s' = the_disk s" "privates s' = privates s"
    "kreserved s A a \<Longrightarrow> kreserved s' A' a"
proof -
  show "live_regions s' A'" "A p = Some n \<Longrightarrow> A' p = Some n"
    "kreserved s A a \<Longrightarrow> \<not> in_range tmp 128 a \<Longrightarrow> mem s' a = mem s a"
    "A p \<noteq> None \<Longrightarrow> dir_items s' p = dir_items s p" "stream_disk (streams s' x) = stream_disk (streams s x)"
    using assms by (simp_all add: load_frame_def)
  obtain m io st di fi de fd fds ef where e: "s' = s\<lparr>mem := m, disk_ports := io, streams := st, dir_items := di, fat_items := fi,
        descriptors := de, file_descs := fd, file_descriptors := fds, elf_files := ef\<rparr>"
    using assms unfolding load_frame_def by blast
  show "kernel_heap s' = kernel_heap s" "the_disk s' = the_disk s" "privates s' = privates s" by (simp_all add: e)
  show "kreserved s' A' a" if "kreserved s A a"
    using that assms unfolding reserved_def load_frame_def by (auto simp: e)
qed

lemma load_frame_trans:
  assumes "load_frame tmp s A s1 A1" "load_frame tmp s1 A1 s2 A2"
  shows "load_frame tmp s A s2 A2"
proof -
  note d = load_frameD[OF assms(1)] and e = load_frameD[OF assms(2)]
  obtain m io st di fi de fd fds ef where 1: "s1 = s\<lparr>mem := m, disk_ports := io, streams := st, dir_items := di, fat_items := fi,
        descriptors := de, file_descs := fd, file_descriptors := fds, elf_files := ef\<rparr>"
    using assms(1) unfolding load_frame_def by blast
  obtain m' io' st' di' fi' de' fd' fds' ef' where 2: "s2 = s1\<lparr>mem := m', disk_ports := io', streams := st', dir_items := di', fat_items := fi',
        descriptors := de', file_descs := fd', file_descriptors := fds', elf_files := ef'\<rparr>"
    using assms(2) unfolding load_frame_def by blast
  have st: "s2 = s\<lparr>mem := m', disk_ports := io', streams := st', dir_items := di', fat_items := fi',
        descriptors := de', file_descs := fd', file_descriptors := fds', elf_files := ef'\<rparr>" by (simp add: 1 2)
  show ?thesis unfolding load_frame_def
  proof (intro conjI allI impI)
    show "live_regions s2 A2" by (rule e(1))
    show "A2 p = Some n" if "A p = Some n" for p n using that d(2) e(2) by blast
    show "mem s2 a = mem s a" if "kreserved s A a \<and> \<not> in_range tmp 128 a" for a
      using that d(3) d(9)[of a] e(3) by metis
    show "dir_items s2 p = dir_items s p" if "A p \<noteq> None" for p using that d(2,4) e(4) by force
    show "stream_disk (streams s2 x) = stream_disk (streams s x)" for x using d(5) e(5) by simp
  qed (use st in blast)
qed

text \<open>Allocations, new ELF records and stores to new regions.\<close>

lemma frame_mem:
  assumes "live_regions (s\<lparr>mem := m\<rparr>) A'" "\<And>p n. A p = Some n \<Longrightarrow> A' p = Some n"
    and "\<And>a. kreserved s A a \<Longrightarrow> \<not> in_range tmp 128 a \<Longrightarrow> m a = mem s a"
  shows "load_frame tmp s A (s\<lparr>mem := m\<rparr>) A'"
  unfolding load_frame_def using assms
  by (intro conjI exI[of _ "m"] exI[of _ "disk_ports s"] exI[of _ "streams s"] exI[of _ "dir_items s"]
      exI[of _ "fat_items s"] exI[of _ "descriptors s"] exI[of _ "file_descs s"] exI[of _ "file_descriptors s"]
      exI[of _ "elf_files s"]) simp_all

lemma frame_alloc:
  assumes "live_regions s A" "0 < unat sz" "unat sz \<le> 4294963200" "room_for s 0 (blocks_for sz)" "kzalloc s sz = (p, s')"
  shows "load_frame tmp s A s' (A(p \<mapsto> blocks_for sz * 4096))"
proof -
  note a = alloc_blocks[OF assms]
  obtain m where m: "s' = s\<lparr>mem := m\<rparr>" using a(6) by blast
  have "(A(p \<mapsto> blocks_for sz * 4096)) q = Some n" if "A q = Some n" for q n using that a(3) by auto
  moreover have "m x = mem s x" if "kreserved s A x" for x using a(8)[OF that] by (simp add: m)
  ultimately show ?thesis unfolding m by (intro frame_mem[OF a(4)[unfolded m]])
qed

lemma frame_elf: "load_frame tmp s A s' A' \<Longrightarrow> load_frame tmp s A (s'\<lparr>elf_files := ef\<rparr>) A'"
proof -
  assume f: "load_frame tmp s A s' A'"
  then obtain m io st di fi de fd fds ef' where 1: "s' = s\<lparr>mem := m, disk_ports := io, streams := st, dir_items := di, fat_items := fi,
        descriptors := de, file_descs := fd, file_descriptors := fds, elf_files := ef'\<rparr>"
    unfolding load_frame_def by blast
  have e: "s'\<lparr>elf_files := ef\<rparr> = s\<lparr>mem := m, disk_ports := io, streams := st, dir_items := di, fat_items := fi,
        descriptors := de, file_descs := fd, file_descriptors := fds, elf_files := ef\<rparr>" by (simp add: 1)
  note d = load_frameD[OF f]
  show ?thesis unfolding load_frame_def
  proof (intro conjI)
    show "live_regions (s'\<lparr>elf_files := ef\<rparr>) A'" using d(1) by (simp add: live_regions_def kheap_ok_def)
    show "\<exists>m io st di fi de fd fds ef'. s'\<lparr>elf_files := ef\<rparr> = s\<lparr>mem := m, disk_ports := io, streams := st, dir_items := di,
        fat_items := fi, descriptors := de, file_descs := fd, file_descriptors := fds, elf_files := ef'\<rparr>"
      using e by blast
  qed (use f in \<open>auto simp: load_frame_def\<close>)
qed

subsection \<open>A file of the root directory\<close>

text \<open>The file \<open>name\<close> with the directory entry \<open>item\<close> can be opened by the path \<^verbatim>\<open>0:/name\<close> at \<open>path\<close>.\<close>

definition file_ready ::
    "addr \<Rightarrow> addr \<Rightarrow> addr \<Rightarrow> u8 list \<Rightarrow> fat_directory_item \<Rightarrow> 'z file_state_scheme \<Rightarrow> (addr \<rightharpoonup> nat) \<Rightarrow> bool" where
  "file_ready tmp r_str path name item s A \<longleftrightarrow>
     (let root = root_directory (disk_private s); n = nat (total_items root)
      in kstring s A path (48 # 58 # 47 # name) \<and> name \<noteq> [] \<and> 47 \<notin> set name \<and> length name \<le> 125 \<and>
         kreserved s A r_str \<and> mem s r_str = 114 \<and> filesystem (the_disk s) \<noteq> 0 \<and> A (dir_item root) \<noteq> None \<and>
         (\<forall>k < n. item_wf (nth_item s root k)) \<and>
         (\<exists>j < n. item = nth_item s root j \<and> (\<forall>k < n. item_matches (nth_item s root k) name \<longleftrightarrow> k = j)) \<and>
         attributes item AND FAT_FILE_SUBDIRECTORY = 0 \<and>
         (\<forall>a. in_range tmp 128 a \<longrightarrow> \<not> table_byte (kernel_heap s) a \<and> \<not> pool_byte (kernel_heap s) a \<and>
            \<not> in_range path (length name + 4) a \<and> a \<noteq> r_str) \<and>
         (\<forall>a. pool_byte (kernel_heap s) a \<longrightarrow> unat a < 2147483648))"

lemma file_ready_frame:
  assumes r: "file_ready tmp r_str path name item s A" and f: "load_frame tmp s A s' A'"
  shows "file_ready tmp r_str path name item s' A'"
proof -
  note d = load_frameD[OF f]
  let ?root = "root_directory (disk_private s)"
  have p: "disk_private s' = disk_private s" by (simp add: disk_private_def d(7,8))
  have A: "A' (dir_item ?root) \<noteq> None" "A (dir_item ?root) \<noteq> None"
    using r d(2) by (auto simp: file_ready_def Let_def)
  have it: "dir_items s' (dir_item ?root) = dir_items s (dir_item ?root)" by (rule d(4)[OF A(2)])
  have len: "Suc (length (48 # 58 # 47 # name)) = length name + 4" by simp
  have ks: "cstr (mem s) path (48 # 58 # 47 # name)" "\<And>a. in_range path (length name + 4) a \<Longrightarrow> kreserved s A a \<and> \<not> in_range tmp 128 a"
    using r unfolding file_ready_def Let_def kstring_def len by blast+
  have "cstr (mem s') path (48 # 58 # 47 # name) = cstr (mem s) path (48 # 58 # 47 # name)"
    by (rule cstr_cong, unfold len) (use ks(2) d(3) in blast)
  then have "kstring s' A' path (48 # 58 # 47 # name)"
    using ks d(9) unfolding kstring_def len by blast
  moreover have "mem s' r_str = mem s r_str" "kreserved s' A' r_str"
    using r d(3)[of r_str] d(9)[of r_str] unfolding file_ready_def Let_def by blast+
  ultimately show ?thesis
    using r A(1) unfolding file_ready_def Let_def p it d(6,7) by metis
qed

text \<open>An open file: its descriptor, the driver's descriptor, the item and the copy of the directory entry.\<close>

definition opened ::
    "'z file_state_scheme \<Rightarrow> (addr \<rightharpoonup> nat) \<Rightarrow> nat \<Rightarrow> addr \<Rightarrow> addr \<Rightarrow> addr \<Rightarrow> addr \<Rightarrow> fat_directory_item \<Rightarrow> bool" where
  "opened s B i desc pv f c item \<longleftrightarrow> i < 511 \<and> i < length (file_descriptors s) \<and> file_descriptors s ! i = desc \<and> desc \<noteq> 0 \<and>
     fd_index (file_descs s desc) = int i + 1 \<and> fd_private (file_descs s desc) = pv \<and>
     descriptors s pv = \<lparr>desc_item = f, desc_position = 0\<rparr> \<and>
     fat_items s f = \<lparr>item_ptr = c, item_type = FAT_ITEM_TYPE_FILE\<rparr> \<and> dir_items s c = [item] \<and>
     (\<forall>p \<in> {desc, pv, f, c}. B p = Some 4096) \<and> distinct [desc, pv, f, c]"

lemma opened_descriptor: "opened s B i desc pv f c item \<Longrightarrow> file_get_descriptor (int i + 1) s = desc"
  by (simp add: opened_def file_get_descriptor_def)

lemma open_ready:
  fixes s :: "'z elf_state_scheme"
  assumes live: "live_regions s A" and r: "file_ready tmp r_str path name item s A" and av: "7 \<le> avail s"
    and slot: "free_slot (file_descriptors s) 0 = Some i" "i < 511"
  obtains s' desc pv f c B where
    "fopen (\<lambda>_. fat16_filesystem d tmp fs) path r_str s = Some (int i + 1, s')" "opened s' B i desc pv f c item"
    "load_frame tmp s A s' B" "avail s = avail s' + 7" "\<forall>p \<in> {desc, pv, f, c}. A p = None"
    "file_descriptors s' = (file_descriptors s)[i := desc]" "elf_files s' = elf_files s"
proof -
  let ?root = "root_directory (disk_private s)"
  obtain j where j: "j < nat (total_items ?root)" "item = nth_item s ?root j"
    "\<And>k. k < nat (total_items ?root) \<Longrightarrow> item_matches (nth_item s ?root k) name \<longleftrightarrow> k = j"
    using r by (auto simp: file_ready_def Let_def)
  have k: "kstring s A path (48 # 58 # 47 # name)" "name \<noteq> []" "47 \<notin> set name" "length name \<le> 125"
    "kreserved s A r_str" "mem s r_str = 114" "filesystem (the_disk s) \<noteq> 0" "A (dir_item ?root) \<noteq> None"
    "\<And>k. k < nat (total_items ?root) \<Longrightarrow> item_wf (nth_item s ?root k)"
    "\<And>a. in_range tmp 128 a \<Longrightarrow> \<not> table_byte (kernel_heap s) a \<and> \<not> pool_byte (kernel_heap s) a"
    "\<And>a. pool_byte (kernel_heap s) a \<Longrightarrow> unat a < 2147483648"
    using r by (simp_all add: file_ready_def Let_def)
  have plain: "attributes (nth_item s ?root j) AND FAT_FILE_SUBDIRECTORY = 0"
    using r unfolding j(2)[symmetric] by (simp add: file_ready_def Let_def)
  have i: "i < length (file_descriptors s)" using slot(1) by (simp add: free_slot_0)
  show thesis
  proof ((rule fopen_file_spec[where d = d and fs = fs, OF live av k(1-7) refl k(8) refl j(1) k(9) j(3) plain k(10,11) slot(1)]; assumption?), goal_cases)
  case (1 s' desc pv f c B)
  note o = 1
  obtain m where m: "s' = s\<lparr>mem := m, dir_items := (dir_items s)(c := [nth_item s ?root j]),
       fat_items := (fat_items s)(f := \<lparr>item_ptr = c, item_type = FAT_ITEM_TYPE_FILE\<rparr>),
       descriptors := (descriptors s)(pv := \<lparr>desc_item = f, desc_position = 0\<rparr>),
       file_descs := (file_descs s)(desc := \<lparr>fd_index = int i + 1, fd_filesystem = filesystem (the_disk s),
         fd_private = pv, fd_disk = Some ()\<rparr>),
       file_descriptors := (file_descriptors s)[i := desc]\<rparr>" using o(13) by blast
  have e: "streams s' = streams s" "elf_files s' = elf_files s" "\<And>p. p \<noteq> c \<Longrightarrow> dir_items s' p = dir_items s p"
    by (simp_all add: m)
  have frame: "load_frame tmp s A s' B"
    unfolding load_frame_def
  proof (intro conjI)
    show "\<forall>p. A p \<noteq> None \<longrightarrow> dir_items s' p = dir_items s p"
    proof (intro allI impI)
      fix p assume "A p \<noteq> None"
      then have "p \<noteq> c" using o(11) by auto
      then show "dir_items s' p = dir_items s p" by (rule e(3))
    qed
    show "\<exists>m io st di fi de fd fds ef. s' = s\<lparr>mem := m, disk_ports := io, streams := st, dir_items := di, fat_items := fi,
        descriptors := de, file_descs := fd, file_descriptors := fds, elf_files := ef\<rparr>"
      by (intro exI[of _ m] exI[of _ "disk_ports s"] exI[of _ "streams s"] exI[of _ "dir_items s'"]
          exI[of _ "fat_items s'"] exI[of _ "descriptors s'"] exI[of _ "file_descs s'"] exI[of _ "file_descriptors s'"]
          exI[of _ "elf_files s"]) (simp add: m)
  qed (use o(8,10,14) e in auto)
  have "opened s' B i desc pv f c item"
    unfolding opened_def using o(2-7,11,12) slot(2) i j(2) by simp
  then show ?thesis using that[OF o(1) _ frame o(9) _ o(2) e(2)] o(11) by blast
  qed
qed

lemma stat_opened:
  assumes "opened s B i desc pv f c item"
  shows "fst (fstat (\<lambda>_. fat16_filesystem d tmp fs) (int i + 1) st s) = 0"
    "stat_file_size (snd (fstat (\<lambda>_. fat16_filesystem d tmp fs) (int i + 1) st s)) = file_size item"
  using assms opened_descriptor[OF assms]
  by (simp_all add: fstat_def fat16_filesystem_def fat16_stat_def opened_def Let_def)

lemma read_opened:
  assumes o: "opened s B i desc pv f c item" and img: "holds_image d img"
    and cl: "cluster_at s (sint (fat16_get_first_cluster item)) cs b"
    and n: "0 < n" "n \<le> cs" "b + n < 2147483648"
  obtains st io where "fread (\<lambda>_. fat16_filesystem d tmp fs) out (of_nat n) 1 (int i + 1) s =
      Some (1, s\<lparr>mem := store_bytes (mem s) out (map (\<lambda>k. img (b + k)) [0..<n]), streams := st, disk_ports := io\<rparr>)"
    "\<And>x. stream_disk (st x) = stream_disk (streams s x)"
proof -
  have d: "desc \<noteq> 0" "fd_private (file_descs s desc) = pv" "descriptors s pv = \<lparr>desc_item = f, desc_position = 0\<rparr>"
    "fat_items s f = \<lparr>item_ptr = c, item_type = FAT_ITEM_TYPE_FILE\<rparr>" "dir_items s c = [item]"
    using o by (simp_all add: opened_def)
  have n1: "0 + n * 1 \<le> cs" "b + 0 + n * 1 < 2147483648" using n by simp_all
  obtain st io where r: "fat16_read_loop d item 0 (of_nat n) 1 out s =
      Some (0, s\<lparr>mem := store_bytes (mem s) out (map (\<lambda>k. img (b + k)) [0..<n]), streams := st, disk_ports := io\<rparr>)"
    "\<forall>x. stream_disk (st x) = stream_disk (streams s x)"
    using read_loop_cluster[OF img cl n1(1) n(1) n1(2), of out] by auto
  have "unat (of_nat n :: u32) = n" using n by (intro unat_of_nat32) linarith
  then have nz: "(of_nat n :: u32) \<noteq> 0" using n(1) by (metis less_not_refl unat_0)
  have "fread (\<lambda>_. fat16_filesystem d tmp fs) out (of_nat n) 1 (int i + 1) s = fat16_read d pv (of_nat n) 1 out s"
    using nz d(1,2) opened_descriptor[OF o] by (simp add: fread_def fat16_filesystem_def)
  also have "\<dots> = Some (1, s\<lparr>mem := store_bytes (mem s) out (map (\<lambda>k. img (b + k)) [0..<n]), streams := st, disk_ports := io\<rparr>)"
    using r(1) d(3-5) by (simp add: fat16_read_def Let_def del: fat16_read_loop.simps)
  finally show thesis using that r(2) by blast
qed

lemma close_opened:
  assumes o: "opened s B i desc pv f c item" and live: "live_regions s B"
  obtains m where "fclose (\<lambda>_. fat16_filesystem d tmp fs) (int i + 1) s =
      (0, s\<lparr>mem := m, file_descriptors := (file_descriptors s)[i := 0]\<rparr>)"
    "live_regions (s\<lparr>mem := m\<rparr>) (B(c := None, f := None, pv := None, desc := None))"
    "avail (s\<lparr>mem := m\<rparr>) = avail s + 4" "\<And>a. \<not> table_byte (kernel_heap s) a \<Longrightarrow> m a = mem s a"
proof -
  have d: "desc \<noteq> 0" "fd_index (file_descs s desc) = int i + 1" "fd_private (file_descs s desc) = pv"
    "descriptors s pv = \<lparr>desc_item = f, desc_position = 0\<rparr>" "fat_items s f = \<lparr>item_ptr = c, item_type = FAT_ITEM_TYPE_FILE\<rparr>"
    "B desc = Some 4096" "B pv = Some 4096" "B f = Some 4096" "B c = Some 4096" "distinct [desc, pv, f, c]"
    using o by (simp_all add: opened_def)
  let ?s1 = "kfree s c" let ?s2 = "kfree ?s1 f" let ?s3 = "kfree ?s2 pv" let ?s4 = "kfree ?s3 desc"
  note l1 = kpages.release_live[OF live d(9)]
  have B1: "(B(c := None)) f = Some 4096" using d by auto
  note l2 = kpages.release_live[OF l1[THEN conjunct1] B1]
  have B2: "(B(c := None, f := None)) pv = Some 4096" using d by auto
  note l3 = kpages.release_live[OF l2[THEN conjunct1] B2]
  have B3: "(B(c := None, f := None, pv := None)) desc = Some 4096" using d by auto
  note l4 = kpages.release_live[OF l3[THEN conjunct1] B3]
  have s4: "?s4 = s\<lparr>mem := mem ?s4\<rparr>" by (simp add: kfree_def)
  have "fclose (\<lambda>_. fat16_filesystem d tmp fs) (int i + 1) s =
      (0, s\<lparr>mem := mem ?s4, file_descriptors := (file_descriptors s)[i := 0]\<rparr>)"
    using d(1-5) opened_descriptor[OF o]
    by (simp add: fclose_def fat16_filesystem_def fat16_close_def fat16_free_file_descriptor_def fat16_fat_item_free_def
        file_free_descriptor_def Let_def kfree_def)
  moreover have "live_regions (s\<lparr>mem := mem ?s4\<rparr>) (B(c := None, f := None, pv := None, desc := None))"
    by (subst s4[symmetric]) (rule l4[THEN conjunct1])
  moreover have "avail (s\<lparr>mem := mem ?s4\<rparr>) = avail s + 4"
    using l1 l2 l3 l4 s4 by simp
  moreover have "mem ?s4 a = mem s a" if "\<not> table_byte (kernel_heap s) a" for a
    using that l1 l2 l3 l4 by simp
  ultimately show thesis by (rule that)
qed

subsection \<open>The contents of a file in memory\<close>

lemma store_live:
  assumes live: "live_regions s B" and p: "B p = Some n" and n: "length bs \<le> n"
  shows "live_regions (s\<lparr>mem := store_bytes (mem s) p bs\<rparr>) B" "avail (s\<lparr>mem := store_bytes (mem s) p bs\<rparr>) = avail s"
proof -
  have "store_bytes (mem s) p bs a = mem s a" if "table_byte (kernel_heap s) a" for a
    using kpages.live_private[OF live p, of a] that in_range_mono[OF _ n, of p a] by (intro store_bytes_outside) blast
  from live_regions_mem[OF live this]
  show "live_regions (s\<lparr>mem := store_bytes (mem s) p bs\<rparr>) B" "avail (s\<lparr>mem := store_bytes (mem s) p bs\<rparr>) = avail s" by blast+
qed

text \<open>Reading to a new region.\<close>

lemma frame_store:
  fixes s :: "'z elf_state_scheme"
  assumes f: "load_frame tmp s A s' B" and p: "A p = None" "B p = Some n" "length bs \<le> n"
    and st: "\<And>x. stream_disk (st x) = stream_disk (streams s' x)"
  shows "load_frame tmp s A (s'\<lparr>mem := store_bytes (mem s') p bs, streams := st, disk_ports := io\<rparr>) B"
proof -
  note d = load_frameD[OF f]
  obtain m io' st' di fi de fd fds ef where 1: "s' = s\<lparr>mem := m, disk_ports := io', streams := st', dir_items := di, fat_items := fi,
        descriptors := de, file_descs := fd, file_descriptors := fds, elf_files := ef\<rparr>"
    using f unfolding load_frame_def by blast
  have e: "s'\<lparr>mem := store_bytes (mem s') p bs, streams := st, disk_ports := io\<rparr> =
      s\<lparr>mem := store_bytes (mem s') p bs, disk_ports := io, streams := st, dir_items := di, fat_items := fi,
        descriptors := de, file_descs := fd, file_descriptors := fds, elf_files := ef\<rparr>" by (simp add: 1)
  have keep: "store_bytes (mem s') p bs a = mem s' a" if k: "kreserved s A a" for a
  proof -
    have "\<not> in_range p n a"
    proof (rule kpages.reserved_not_new[OF d(1)])
      show "reserved (table_byte (kernel_heap s')) (pool_byte (kernel_heap s')) A a" using k d(6) by simp
      show "B q = Some k" if "A q = Some k" for q k by (rule d(2)[OF that])
    qed (rule p)+
    then show ?thesis using in_range_mono[OF _ p(3), of p a] by (intro store_bytes_outside) blast
  qed
  show ?thesis unfolding load_frame_def
  proof (intro conjI)
    show "live_regions (s'\<lparr>mem := store_bytes (mem s') p bs, streams := st, disk_ports := io\<rparr>) B"
      using store_live(1)[OF d(1) p(2,3)] by (simp add: live_regions_def kheap_ok_def)
    show "\<exists>m io' st' di fi de fd fds ef. s'\<lparr>mem := store_bytes (mem s') p bs, streams := st, disk_ports := io\<rparr> =
        s\<lparr>mem := m, disk_ports := io', streams := st', dir_items := di, fat_items := fi,
          descriptors := de, file_descs := fd, file_descriptors := fds, elf_files := ef\<rparr>"
      using e by blast
  qed (use d st keep in \<open>auto\<close>)
qed

lemma opened_cong:
  assumes "opened s B i desc pv f c item" "file_descriptors s' = file_descriptors s" "file_descs s' = file_descs s"
    "descriptors s' = descriptors s" "fat_items s' = fat_items s" "dir_items s' = dir_items s"
    "\<And>q. B q = Some 4096 \<Longrightarrow> B' q = Some 4096"
  shows "opened s' B' i desc pv f c item"
  using assms unfolding opened_def by simp

lemma cluster_at_frame:
  assumes "load_frame tmp s A s' B" "cluster_at s cl cs b"
  shows "cluster_at s' cl cs b"
proof -
  have e: "disk_private s' = disk_private s" "the_disk s' = the_disk s"
    using load_frameD(7,8)[OF assms(1)] by (simp_all add: disk_private_def)
  show ?thesis using assms(2) unfolding cluster_at_driver size_of_cluster_bytes_def e load_frameD(5)[OF assms(1)] .
qed

lemma load_contents:
  fixes s :: "'z elf_state_scheme"
  assumes live: "live_regions s A" and r: "file_ready tmp r_str path name item s A"
    and img: "holds_image d img" and cl: "cluster_at s (sint (fat16_get_first_cluster item)) cs b"
    and n: "n = unat (file_size item)" "0 < n" "n \<le> cs" "b + n < 2147483648"
    and room: "room_for s 7 (blocks_for (file_size item))"
    and slot: "free_slot (file_descriptors s) 0 = Some i" "i < 511"
  obtains s1 p s2 where "fopen (\<lambda>_. fat16_filesystem d tmp fs) path r_str s = Some (int i + 1, s1)"
    "\<And>st. fst (fstat (\<lambda>_. fat16_filesystem d tmp fs) (int i + 1) st s1) = 0"
    "\<And>st. stat_file_size (snd (fstat (\<lambda>_. fat16_filesystem d tmp fs) (int i + 1) st s1)) = file_size item"
    "kzalloc s1 (file_size item) = (p, s2)" "p \<noteq> 0" "page_aligned p" "A p = None" "elf_files s2 = elf_files s"
    "\<And>ef. \<exists>s3 B desc pv f c. fread (\<lambda>_. fat16_filesystem d tmp fs) p (file_size item) 1 (int i + 1) (s2\<lparr>elf_files := ef\<rparr>) = Some (1, s3) \<and>
       opened s3 B i desc pv f c item \<and> load_frame tmp s A s3 B \<and> (\<forall>q \<in> {desc, pv, f, c}. A q = None \<and> q \<noteq> p) \<and>
       B p = Some (blocks_for (file_size item) * 4096) \<and> avail s = avail s3 + 7 + blocks_for (file_size item) \<and>
       file_descriptors s3 = (file_descriptors s)[i := desc] \<and> elf_files s3 = ef \<and> (\<forall>k < n. mem s3 (p + of_nat k) = img (b + k))"
proof -
  let ?sz = "file_size item" let ?nb = "blocks_for ?sz"
  have av: "7 \<le> avail s" using room by (simp add: room_for_def)
  have sz: "0 < unat ?sz" "unat ?sz \<le> 4294963200" "of_nat n = ?sz" using n by simp_all
  show thesis
  proof (rule open_ready[OF live r av slot, where d = d and fs = fs], goal_cases)
    case (1 s1 desc pv f c B1)
    note o = 1
    obtain p s2 where z: "kzalloc s1 ?sz = (p, s2)" by fastforce
    have room1: "room_for s1 0 ?nb" using room_for_less[OF room load_frameD(6)[OF o(3)], of 7] o(4) by simp
    note a = alloc_blocks[OF load_frameD(1)[OF o(3)] sz(1,2) room1 z]
    let ?B = "B1(p \<mapsto> ?nb * 4096)"
    obtain m where m: "s2 = s1\<lparr>mem := m\<rparr>" using a(6) by blast
    have f2: "load_frame tmp s A s2 ?B"
      by (rule load_frame_trans[OF o(3) frame_alloc[OF load_frameD(1)[OF o(3)] sz(1,2) room1 z]])
    have pn: "A p = None" "\<forall>q \<in> {desc, pv, f, c}. A q = None \<and> q \<noteq> p"
    proof -
      show "A p = None"
      proof (rule ccontr)
        assume "A p \<noteq> None"
        then obtain x where "A p = Some x" by blast
        then show False using load_frameD(2)[OF o(3), of p x] a(3) by simp
      qed
      have "B1 q = Some 4096" if "q \<in> {desc, pv, f, c}" for q using o(2) that by (auto simp: opened_def)
      then show "\<forall>q \<in> {desc, pv, f, c}. A q = None \<and> q \<noteq> p" using o(5) a(3) by force
    qed
    have o2: "opened (s2\<lparr>elf_files := ef\<rparr>) ?B i desc pv f c item" for ef
      by (rule opened_cong[OF o(2)]) (use a(3) in \<open>auto simp: m\<close>)
    have le: "length (map (\<lambda>k. img (b + k)) [0..<n]) \<le> ?nb * 4096" using blocks_for_bounds(2)[of ?sz] n(1) by simp
    have "\<exists>s3 B desc pv f c. fread (\<lambda>_. fat16_filesystem d tmp fs) p ?sz 1 (int i + 1) (s2\<lparr>elf_files := ef\<rparr>) = Some (1, s3) \<and>
       opened s3 B i desc pv f c item \<and> load_frame tmp s A s3 B \<and> (\<forall>q \<in> {desc, pv, f, c}. A q = None \<and> q \<noteq> p) \<and>
       B p = Some (?nb * 4096) \<and> avail s = avail s3 + 7 + ?nb \<and>
       file_descriptors s3 = (file_descriptors s)[i := desc] \<and> elf_files s3 = ef \<and> (\<forall>k < n. mem s3 (p + of_nat k) = img (b + k))" for ef
    proof -
      let ?s2 = "s2\<lparr>elf_files := ef\<rparr>"
      have f2': "load_frame tmp s A ?s2 ?B" by (rule frame_elf[OF f2])
      obtain st io where rd: "fread (\<lambda>_. fat16_filesystem d tmp fs) p (of_nat n) 1 (int i + 1) ?s2 =
          Some (1, ?s2\<lparr>mem := store_bytes (mem ?s2) p (map (\<lambda>k. img (b + k)) [0..<n]), streams := st, disk_ports := io\<rparr>)"
        "\<And>x. stream_disk (st x) = stream_disk (streams ?s2 x)"
        by (rule read_opened[OF o2 img cluster_at_frame[OF f2' cl] n(2-4), where fs = fs and tmp = tmp and out = p]) blast
      let ?s3 = "?s2\<lparr>mem := store_bytes (mem ?s2) p (map (\<lambda>k. img (b + k)) [0..<n]), streams := st, disk_ports := io\<rparr>"
      have "opened ?s3 ?B i desc pv f c item" by (rule opened_cong[OF o2[of ef]]) simp_all
      moreover have "load_frame tmp s A ?s3 ?B" by (rule frame_store[OF f2' pn(1) _ le rd(2)]) simp
      moreover have "avail s = avail ?s3 + 7 + ?nb"
      proof -
        have "avail ?s3 = avail (s2\<lparr>mem := store_bytes (mem s2) p (map (\<lambda>k. img (b + k)) [0..<n])\<rparr>)" by (simp add: avail_def)
        also have "\<dots> = avail s2" by (rule store_live(2)[OF a(4) _ le]) simp
        finally show ?thesis using a(5) o(4) by simp
      qed
      moreover have "mem ?s3 (p + of_nat k) = img (b + k)" if "k < n" for k
        using store_bytes_nth[of "map (\<lambda>k. img (b + k)) [0..<n]" k "mem s2" p] that n(4) by simp
      ultimately show ?thesis using rd(1) pn(2) o(6)
        by (intro exI[of _ ?s3] exI[of _ ?B] exI[of _ desc] exI[of _ pv] exI[of _ f] exI[of _ c]) (simp add: sz(3) m)
    qed
    then show ?case
      by (intro that[OF o(1) _ _ z a(1,2) pn(1)]) (use stat_opened[OF o(2)] o(7) in \<open>simp_all add: m\<close>)
  qed
qed

lemma close_frame:
  fixes s :: "'z elf_state_scheme"
  assumes o: "opened s3 B i desc pv f c item" and fr: "load_frame tmp s A s3 B" and new: "\<forall>q \<in> {desc, pv, f, c}. A q = None"
  obtains m B' where "fclose (\<lambda>_. fat16_filesystem d tmp fs) (int i + 1) s3 =
      (0, s3\<lparr>mem := m, file_descriptors := (file_descriptors s3)[i := 0]\<rparr>)"
    "load_frame tmp s A (s3\<lparr>mem := m, file_descriptors := (file_descriptors s3)[i := 0]\<rparr>) B'"
    "avail (s3\<lparr>mem := m, file_descriptors := (file_descriptors s3)[i := 0]\<rparr>) = avail s3 + 4"
    "\<And>q. q \<notin> {desc, pv, f, c} \<Longrightarrow> B' q = B q" "\<And>a. \<not> table_byte (kernel_heap s3) a \<Longrightarrow> m a = mem s3 a"
proof -
  note d = load_frameD[OF fr]
  obtain m where m: "fclose (\<lambda>_. fat16_filesystem d tmp fs) (int i + 1) s3 =
      (0, s3\<lparr>mem := m, file_descriptors := (file_descriptors s3)[i := 0]\<rparr>)"
    "live_regions (s3\<lparr>mem := m\<rparr>) (B(c := None, f := None, pv := None, desc := None))"
    "avail (s3\<lparr>mem := m\<rparr>) = avail s3 + 4" "\<And>a. \<not> table_byte (kernel_heap s3) a \<Longrightarrow> m a = mem s3 a"
    by (rule close_opened[OF o d(1), where d = d and tmp = tmp and fs = fs]) blast
  let ?s = "s3\<lparr>mem := m, file_descriptors := (file_descriptors s3)[i := 0]\<rparr>"
  let ?B = "B(c := None, f := None, pv := None, desc := None)"
  obtain m' io st di fi de fd fds ef where 1: "s3 = s\<lparr>mem := m', disk_ports := io, streams := st, dir_items := di, fat_items := fi,
        descriptors := de, file_descs := fd, file_descriptors := fds, elf_files := ef\<rparr>"
    using fr unfolding load_frame_def by blast
  have "load_frame tmp s A ?s ?B" unfolding load_frame_def
  proof (intro conjI allI impI)
    show "live_regions ?s ?B" using m(2) by (simp add: live_regions_def kheap_ok_def)
    show "?B p = Some n" if "A p = Some n" for p n using d(2)[OF that] new that by auto
    show "mem ?s a = mem s a" if "kreserved s A a \<and> \<not> in_range tmp 128 a" for a
      using that d(3)[of a] m(4)[of a] d(6) by (simp add: reserved_def)
    show "\<exists>m'' io st di fi de fd fds ef. ?s = s\<lparr>mem := m'', disk_ports := io, streams := st, dir_items := di, fat_items := fi,
        descriptors := de, file_descs := fd, file_descriptors := fds, elf_files := ef\<rparr>"
      by (intro exI[of _ m] exI[of _ io] exI[of _ st] exI[of _ di] exI[of _ fi] exI[of _ de] exI[of _ fd]
          exI[of _ "(file_descriptors s3)[i := 0]"] exI[of _ ef]) (simp add: 1)
  qed (use d(4,5) in auto)
  moreover have "avail ?s = avail s3 + 4" using m(3) by (simp add: avail_def)
  ultimately show thesis using that[OF m(1), of ?B] m(4) by simp
qed

text \<open>
  Loading an ELF file up to what \<^verbatim>\<open>elf_process_loaded\<close> makes of the contents: the loader keeps a block for the record and one for the
  contents, whatever the result.
\<close>

lemma elf_load_result:
  fixes s :: "'z elf_state_scheme"
  assumes live: "live_regions s A" and r: "file_ready tmp r_str path name item s A"
    and img: "holds_image d img" and cl: "cluster_at s (sint (fat16_get_first_cluster item)) cs b"
    and n: "n = unat (file_size item)" "0 < n" "n \<le> cs" "b + n < 2147483648"
    and room: "room_for s 8 (blocks_for (file_size item))"
    and slot: "free_slot (file_descriptors s) 0 = Some i" "i < 511"
  obtains e p res m0 s' B where
    "elf_load (\<lambda>_. fat16_filesystem d tmp fs) r_str path s = Some (res, if res < 0 then None else Some e, s')"
    "elf_process_loaded m0 (zero_elf_file\<lparr>elf_memory_ptr := p\<rparr>) = (res, elf_files s' e)"
    "\<forall>k < n. m0 (p + of_nat k) = img (b + k)" "\<forall>k < n. mem s' (p + of_nat k) = img (b + k)"
    "load_frame tmp s A s' B" "avail s = avail s' + 4 + blocks_for (file_size item)" "file_descriptors s' = file_descriptors s"
    "e \<noteq> 0" "A e = None" "B e = Some 4096" "p \<noteq> 0" "page_aligned p" "A p = None" "B p = Some (blocks_for (file_size item) * 4096)"
    "p \<noteq> e"
proof -
  let ?ops = "\<lambda>_ :: addr. fat16_filesystem d tmp fs :: ('z elf_state_scheme) filesystem_ops" and ?nb = "blocks_for (file_size item)"
  obtain e s0 where z: "kzalloc s 152 = (e, s0)" by fastforce
  have sz: "0 < unat (152 :: u32)" "unat (152 :: u32) \<le> 4294963200" "blocks_for 152 = 1" by (simp_all add: blocks_for_def)
  have room_e: "room_for s 0 (blocks_for 152)"
    by (rule room_for_mono[OF room]) (use blocks_for_bounds(1)[of "file_size item"] n(1,2) sz(3) in simp_all)
  note a = alloc_blocks[OF live sz(1,2) room_e z, unfolded sz(3)]
  let ?t = "s0\<lparr>elf_files := (elf_files s0)(e := zero_elf_file)\<rparr>" and ?A = "A(e \<mapsto> 1 * 4096)"
  have f0: "load_frame tmp s A ?t ?A"
    using frame_elf[OF frame_alloc[OF live sz(1,2) room_e z]] sz(3) by simp
  note d0 = load_frameD[OF f0]
  have av0: "avail s = avail ?t + 1" using a(5) by (simp add: avail_def)
  have room0: "room_for ?t 7 ?nb" using room_for_less[OF room d0(6), of 1] av0 by simp
  have slot0: "free_slot (file_descriptors ?t) 0 = Some i"
  proof -
    obtain m where "s0 = s\<lparr>mem := m\<rparr>" using a(6) by blast
    then show ?thesis using slot(1) by simp
  qed
  show thesis
  proof (rule load_contents[OF d0(1) file_ready_frame[OF r f0] img cluster_at_frame[OF f0 cl] n room0 slot0 slot(2),
        where fs = fs], goal_cases)
    case (1 s1 p s2)
    note l = 1
    let ?f = "zero_elf_file\<lparr>elf_memory_ptr := p\<rparr>"
    let ?ef = "(elf_files s2)(e := ?f)"
    have e2: "elf_files s2 e = zero_elf_file" using l(8) by simp
    obtain s3 B desc pv f c where c: "fread ?ops p (file_size item) 1 (int i + 1) (s2\<lparr>elf_files := ?ef\<rparr>) = Some (1, s3)"
      "opened s3 B i desc pv f c item" "load_frame tmp ?t ?A s3 B"
      "\<forall>q \<in> {desc, pv, f, c}. ?A q = None \<and> q \<noteq> p" "B p = Some (?nb * 4096)" "avail ?t = avail s3 + 7 + ?nb"
      "file_descriptors s3 = (file_descriptors ?t)[i := desc]" "elf_files s3 = ?ef" "\<forall>k < n. mem s3 (p + of_nat k) = img (b + k)"
      using l(9)[of ?ef] by (elim exE conjE) (rule that)
    have e3: "elf_files s3 e = ?f" by (simp add: c(8))
    obtain res g where g: "elf_process_loaded (mem s3) ?f = (res, g)" by fastforce
    let ?s3 = "s3\<lparr>elf_files := (elf_files s3)(e := g)\<rparr>"
    have new: "\<forall>q \<in> {desc, pv, f, c}. ?A q = None"
      by (rule ballI) (rule c(4)[THEN bspec, THEN conjunct1])
    have o3: "opened ?s3 B i desc pv f c item" by (rule opened_cong[OF c(2)]) simp_all
    obtain m B' where cls: "fclose ?ops (int i + 1) ?s3 = (0, ?s3\<lparr>mem := m, file_descriptors := (file_descriptors ?s3)[i := 0]\<rparr>)"
      "load_frame tmp ?t ?A (?s3\<lparr>mem := m, file_descriptors := (file_descriptors ?s3)[i := 0]\<rparr>) B'"
      "avail (?s3\<lparr>mem := m, file_descriptors := (file_descriptors ?s3)[i := 0]\<rparr>) = avail ?s3 + 4"
      "\<And>q. q \<notin> {desc, pv, f, c} \<Longrightarrow> B' q = B q" "\<And>a. \<not> table_byte (kernel_heap ?s3) a \<Longrightarrow> m a = mem ?s3 a"
      by (rule close_frame[OF o3 frame_elf[OF c(3)] new, where d = d and fs = fs]) blast
    obtain stat where st: "fstat ?ops (int i + 1) \<lparr>stat_flags = 0, stat_file_size = 0\<rparr> s1 = (0, stat)"
      "stat_file_size stat = file_size item"
      using l(2,3)[of "\<lparr>stat_flags = 0, stat_file_size = 0\<rparr>"] by (metis prod.collapse)
    let ?s' = "?s3\<lparr>mem := m, file_descriptors := (file_descriptors ?s3)[i := 0]\<rparr>"
    have run: "elf_load ?ops r_str path s = Some (res, if res < 0 then None else Some e, ?s')"
      using l(1) by (simp add: elf_load_def z st l(4) e2 c(1) e3 g cls(1) Let_def)
    have notin: "q \<notin> {desc, pv, f, c}" if "?A q \<noteq> None \<or> q = p" for q
    proof
      assume "q \<in> {desc, pv, f, c}"
      from c(4)[THEN bspec, OF this] that show False by auto
    qed
    have B: "B' e = Some 4096" "B' p = Some (?nb * 4096)"
      using cls(4)[OF notin, of e] cls(4)[OF notin, of p] load_frameD(2)[OF c(3), of e 4096] c(5) by simp_all
    have p: "A p = None" "p \<noteq> e" using l(7) by (auto split: if_splits)
    have fr: "load_frame tmp s A ?s' B'" by (rule load_frame_trans[OF f0 cls(2)])
    have av: "avail s = avail ?s' + 4 + ?nb" using cls(3) av0 c(6) by (simp add: avail_def)
    have fds: "file_descriptors ?s' = file_descriptors s"
    proof -
      obtain m where "s0 = s\<lparr>mem := m\<rparr>" using a(6) by blast
      moreover have "file_descriptors s ! i = 0" using slot(1) by (simp add: free_slot_0)
      ultimately show ?thesis by (simp add: c(7)) (metis list_update_id)
    qed
    have data: "\<forall>k < n. mem ?s' (p + of_nat k) = img (b + k)"
    proof (intro allI impI)
      fix k assume k: "k < n"
      then have "in_range p (?nb * 4096) (p + of_nat k)"
        using blocks_for_bounds(2)[of "file_size item"] n(1,4) by (simp add: in_range_def unat_of_nat32)
      then have "\<not> table_byte (kernel_heap s3) (p + of_nat k)"
        by (rule kpages.live_private[OF load_frameD(1)[OF c(3)] c(5)])
      then show "mem ?s' (p + of_nat k) = img (b + k)" using cls(5) c(9) k by simp
    qed
    have ef: "elf_process_loaded (mem s3) ?f = (res, elf_files ?s' e)" by (simp add: g)
    show ?case by (rule that[OF run ef c(9) data fr av fds a(1,3) B(1) l(5,6) p(1) B(2) p(2)])
  qed
qed

text \<open>A file that does not start as an ELF file is refused.\<close>

lemma elf_load_refuses:
  fixes s :: "'z elf_state_scheme"
  assumes live: "live_regions s A" and r: "file_ready tmp r_str path name item s A"
    and img: "holds_image d img" and cl: "cluster_at s (sint (fat16_get_first_cluster item)) cs b"
    and n: "n = unat (file_size item)" "0 < n" "n \<le> cs" "b + n < 2147483648" and no_elf: "img b \<noteq> 0x7F"
    and room: "room_for s 8 (blocks_for (file_size item))"
    and slot: "free_slot (file_descriptors s) 0 = Some i" "i < 511"
  obtains s' B where "elf_load (\<lambda>_. fat16_filesystem d tmp fs) r_str path s = Some (- errno EINFORMAT, None, s')"
    "load_frame tmp s A s' B" "avail s = avail s' + 4 + blocks_for (file_size item)" "file_descriptors s' = file_descriptors s"
proof (rule elf_load_result[OF live r img cl n room slot, where fs = fs], goal_cases)
  case (1 e p res m0 s' B)
  have "m0 p = img b" using 1(4) n(2) by (auto dest: spec[of _ 0])
  then have "res = - errno EINFORMAT"
    using 1(3) no_elf by (simp add: elf_process_loaded_def elf_validate_loaded_def elf_header_def elf_valid_signature_def Let_def)
  then show ?case using 1(1)[of s' B] 1(2,6-8) by simp
qed

subsection \<open>ELF programs in a file\<close>

text \<open>The file that starts at byte \<open>b\<close> of the disk image as a memory of its own, and what makes it an ELF program of \<open>n\<close> bytes.\<close>

definition file_memory :: "(nat \<Rightarrow> u8) \<Rightarrow> nat \<Rightarrow> memory" where
  "file_memory img b = (\<lambda>a. img (b + unat a))"

definition elf_program :: "(nat \<Rightarrow> u8) \<Rightarrow> nat \<Rightarrow> nat \<Rightarrow> bool" where
  "elf_program img b n \<longleftrightarrow>
     (let m = file_memory img b; h = elf32_header_at m 0
      in 52 \<le> n \<and> elf_validate_loaded m 0 = 0 \<and> unat (e_phoff h) + 32 * unat (e_phnum h) \<le> n)"

lemma read_file_memory:
  assumes m: "\<forall>k < n. m (p + of_nat k) = img (b + k)" and n: "n < 4294967296"
  shows "k + 4 \<le> n \<Longrightarrow> read32 m (p + of_nat k) = read32 (file_memory img b) (of_nat k)"
    "k + 2 \<le> n \<Longrightarrow> read16 m (p + of_nat k) = read16 (file_memory img b) (of_nat k)"
    "k < n \<Longrightarrow> m (p + of_nat k) = file_memory img b (of_nat k)"
proof -
  have byte: "m (p + of_nat k) = file_memory img b (of_nat k)" if "k < n" for k
  proof -
    have "unat (of_nat k :: u32) = k" using that n by (intro unat_of_nat32) simp
    then show ?thesis using m that by (simp add: file_memory_def)
  qed
  then show "k < n \<Longrightarrow> m (p + of_nat k) = file_memory img b (of_nat k)" by blast
  show "read32 m (p + of_nat k) = read32 (file_memory img b) (of_nat k)" if "k + 4 \<le> n"
    using byte[of k] byte[of "k + 1"] byte[of "k + 2"] byte[of "k + 3"] that by (simp add: read32_def ac_simps)
  show "read16 m (p + of_nat k) = read16 (file_memory img b) (of_nat k)" if "k + 2 \<le> n"
    using byte[of k] byte[of "k + 1"] that by (simp add: read16_def ac_simps)
qed

lemma header_file_memory:
  assumes "\<forall>k < n. m (p + of_nat k) = img (b + k)" "n < 4294967296" "52 \<le> n"
  shows "elf32_header_at m p = elf32_header_at (file_memory img b) 0"
    "elf_validate_loaded m p = elf_validate_loaded (file_memory img b) 0"
proof -
  note r = read_file_memory[OF assms(1,2)]
  have "map (\<lambda>i. m (p + of_nat i)) [0..<16] = map (\<lambda>i. file_memory img b (0 + of_nat i)) [0..<16]"
    using r(3) assms(3) by (intro map_cong) simp_all
  then show h: "elf32_header_at m p = elf32_header_at (file_memory img b) 0"
    unfolding elf32_header_at_def
    using r(1)[of 20] r(1)[of 24] r(1)[of 28] r(1)[of 32] r(1)[of 36] r(2)[of 16] r(2)[of 18] r(2)[of 40] r(2)[of 42]
      r(2)[of 44] r(2)[of 46] r(2)[of 48] r(2)[of 50] assms(3) by simp
  show "elf_validate_loaded m p = elf_validate_loaded (file_memory img b) 0"
    unfolding elf_validate_loaded_def h elf_valid_signature_def
    using r(3)[of 0] r(3)[of 1] r(3)[of 2] r(3)[of 3] assms(3) by simp
qed

lemma phdr_file_memory:
  assumes "\<forall>k < n. m (p + of_nat k) = img (b + k)" "n < 4294967296" "k + 32 \<le> n"
  shows "elf32_phdr_at m (p + of_nat k) = elf32_phdr_at (file_memory img b) (of_nat k)"
proof -
  note r = read_file_memory(1)[OF assms(1,2)]
  show ?thesis unfolding elf32_phdr_at_def
    using r[of k] r[of "k + 4"] r[of "k + 8"] r[of "k + 12"] r[of "k + 16"] r[of "k + 20"] r[of "k + 24"] r[of "k + 28"] assms(3)
    by (simp add: ac_simps)
qed

text \<open>The headers of a loaded program are the headers of its file.\<close>

lemma elf_phdrs_file_memory:
  assumes m: "\<forall>k < n. m (p + of_nat k) = img (b + k)" and n: "n < 4294967296" and e: "elf_program img b n"
  shows "elf_phdrs m p = elf_phdrs (file_memory img b) 0" "elf32_header_at m p = elf32_header_at (file_memory img b) 0"
    "elf_has_program_header (elf32_header_at m p)" "elf_pheader m p = p + e_phoff (elf32_header_at (file_memory img b) 0)"
    "j < unat (e_phnum (elf32_header_at m p)) \<Longrightarrow>
       elf32_phdr_at m (elf_pheader m p + 32 * of_nat j) = elf_phdrs (file_memory img b) 0 ! j"
    "j < unat (e_phnum (elf32_header_at m p)) \<Longrightarrow>
       \<exists>k. elf_pheader m p + 32 * of_nat j = p + of_nat k \<and> k + 32 \<le> n"
proof -
  let ?f = "file_memory img b" let ?h = "elf32_header_at ?f 0"
  have e: "52 \<le> n" "elf_validate_loaded ?f 0 = 0" "unat (e_phoff ?h) + 32 * unat (e_phnum ?h) \<le> n"
    using assms(3) by (simp_all add: elf_program_def Let_def)
  show h: "elf32_header_at m p = ?h" by (rule header_file_memory(1)[OF m n e(1)])
  have ph: "elf_has_program_header ?h" using e(2) by (simp add: elf_validate_loaded_def Let_def split: if_splits)
  then show "elf_has_program_header (elf32_header_at m p)" by (simp add: h)
  show hp: "elf_pheader m p = p + e_phoff ?h" using ph by (simp add: elf_pheader_def h)
  have at: "elf_pheader m p + 32 * of_nat j = p + of_nat (unat (e_phoff ?h) + 32 * j)"
    "unat (e_phoff ?h) + 32 * j + 32 \<le> n" if "j < unat (e_phnum ?h)" for j
    using that e(3) by (simp_all add: hp)
  then show "j < unat (e_phnum (elf32_header_at m p)) \<Longrightarrow> \<exists>k. elf_pheader m p + 32 * of_nat j = p + of_nat k \<and> k + 32 \<le> n"
    unfolding h by blast
  have same: "elf32_phdr_at m (elf_pheader m p + 32 * of_nat j) = elf32_phdr_at ?f (elf_program_header ?f 0 j)"
    if "j < unat (e_phnum ?h)" for j
    unfolding at(1)[OF that] phdr_file_memory[OF m n at(2)[OF that]]
    using ph by (simp add: elf_program_header_def elf_pheader_def)
  then show "j < unat (e_phnum (elf32_header_at m p)) \<Longrightarrow>
      elf32_phdr_at m (elf_pheader m p + 32 * of_nat j) = elf_phdrs ?f 0 ! j"
    unfolding h elf_phdrs_def by simp
  show "elf_phdrs m p = elf_phdrs ?f 0"
    unfolding elf_phdrs_def h
    by (intro map_cong refl) (use same ph in \<open>simp add: elf_program_header_def h\<close>)
qed

lemma elf_load_runs:
  fixes s :: "'z elf_state_scheme"
  assumes live: "live_regions s A" and r: "file_ready tmp r_str path name item s A"
    and img: "holds_image d img" and cl: "cluster_at s (sint (fat16_get_first_cluster item)) cs b"
    and n: "n = unat (file_size item)" "0 < n" "n \<le> cs" "b + n < 2147483648" and elf: "elf_program img b n"
    and room: "room_for s 8 (blocks_for (file_size item))"
    and slot: "free_slot (file_descriptors s) 0 = Some i" "i < 511"
  obtains e p s' B where "elf_load (\<lambda>_. fat16_filesystem d tmp fs) r_str path s = Some (0, Some e, s')"
    "elf_memory_ptr (elf_files s' e) = p" "\<forall>k < n. mem s' (p + of_nat k) = img (b + k)"
    "load_frame tmp s A s' B" "avail s = avail s' + 4 + blocks_for (file_size item)" "file_descriptors s' = file_descriptors s"
    "e \<noteq> 0" "A e = None" "B e = Some 4096" "p \<noteq> 0" "page_aligned p" "A p = None" "B p = Some (blocks_for (file_size item) * 4096)"
    "p \<noteq> e"
proof -
  have ptr: "elf_memory_ptr (foldl elf_process_phdr_pt_load f L) = elf_memory_ptr f" for f L
    by (induction L arbitrary: f) simp_all
  show thesis
  proof (rule elf_load_result[OF live r img cl n room slot, where fs = fs], goal_cases)
    case (1 e p res m0 s' B)
    have "elf_validate_loaded m0 p = 0"
      using header_file_memory(2)[OF 1(3)] elf n(4) by (simp add: elf_program_def Let_def)
    then have "res = 0" "foldl elf_process_phdr_pt_load (zero_elf_file\<lparr>elf_memory_ptr := p\<rparr>) (load_segments m0 p) = elf_files s' e"
      using 1(2) by (simp_all add: elf_process_loaded_def elf_header_def process_pheaders_segments Let_def)
    then have res: "res = 0" "elf_memory_ptr (elf_files s' e) = p"
      using ptr[of "zero_elf_file\<lparr>elf_memory_ptr := p\<rparr>" "load_segments m0 p"] by simp_all
    have run: "elf_load (\<lambda>_. fat16_filesystem d tmp fs) r_str path s = Some (0, Some e, s')" using 1(1) res(1) by simp
    show ?case by (rule that[OF run res(2) 1(4-15)])
  qed
qed

subsection \<open>The data of a process\<close>

lemma frame_proc:
  fixes s s' :: "'z process_state_scheme"
  assumes "load_frame tmp s A s' B"
  shows "load_frame tmp (upd_proc process g s) A (upd_proc process g s') B"
proof -
  note d = load_frameD[OF assms]
  obtain m io st di fi de fd fds ef where 1: "s' = s\<lparr>mem := m, disk_ports := io, streams := st, dir_items := di, fat_items := fi,
        descriptors := de, file_descs := fd, file_descriptors := fds, elf_files := ef\<rparr>"
    using assms unfolding load_frame_def by blast
  have e: "upd_proc process g s' = (upd_proc process g s)\<lparr>mem := m, disk_ports := io, streams := st, dir_items := di, fat_items := fi,
        descriptors := de, file_descs := fd, file_descriptors := fds, elf_files := ef\<rparr>" by (simp add: 1 upd_proc_def)
  have f: "mem (upd_proc process g t) = mem t" "kernel_heap (upd_proc process g t) = kernel_heap t"
    "dir_items (upd_proc process g t) = dir_items t" "streams (upd_proc process g t) = streams t"
    "live_regions (upd_proc process g t) C = live_regions t C" for t :: "'z process_state_scheme" and C
    by (simp_all add: upd_proc_def live_regions_def kheap_ok_def)
  show ?thesis unfolding load_frame_def f
  proof (intro conjI)
    show "\<exists>m io st di fi de fd fds ef. upd_proc process g s' = (upd_proc process g s)\<lparr>mem := m, disk_ports := io, streams := st,
        dir_items := di, fat_items := fi, descriptors := de, file_descs := fd, file_descriptors := fds, elf_files := ef\<rparr>"
      using e by blast
  qed (use assms in \<open>simp_all add: load_frame_def\<close>)
qed

lemma process_load_binary_runs:
  fixes s :: "'z process_state_scheme"
  assumes live: "live_regions s A" and r: "file_ready tmp r_str path name item s A"
    and img: "holds_image d img" and cl: "cluster_at s (sint (fat16_get_first_cluster item)) cs b"
    and n: "n = unat (file_size item)" "0 < n" "n \<le> cs" "b + n < 2147483648"
    and room: "room_for s 7 (blocks_for (file_size item))"
    and slot: "free_slot (file_descriptors s) 0 = Some i" "i < 511"
  obtains p s' B where "process_load_binary (\<lambda>_. fat16_filesystem d tmp fs) r_str path process s = Some (0, s')"
    "load_frame tmp (upd_proc process (\<lambda>q. q\<lparr>pr_filetype := PROCESS_FILE_TYPE_BIN, pr_ptr := p, pr_size := file_size item\<rparr>) s) A s' B"
    "p \<noteq> 0" "page_aligned p" "A p = None" "B p = Some (blocks_for (file_size item) * 4096)"
    "avail s = avail s' + 3 + blocks_for (file_size item)"
    "file_descriptors s' = file_descriptors s" "\<forall>k < n. mem s' (p + of_nat k) = img (b + k)"
proof -
  let ?ops = "\<lambda>_ :: addr. fat16_filesystem d tmp fs :: ('z process_state_scheme) filesystem_ops" and ?nb = "blocks_for (file_size item)"
  show thesis
  proof (rule load_contents[OF live r img cl n room slot, where fs = fs], goal_cases)
    case (1 s1 p s2)
    note l = 1
    have same: "s2\<lparr>elf_files := elf_files s2\<rparr> = s2" by simp
    obtain s3 B desc pv f c where c: "fread ?ops p (file_size item) 1 (int i + 1) s2 = Some (1, s3)"
      "opened s3 B i desc pv f c item" "load_frame tmp s A s3 B"
      "\<forall>q \<in> {desc, pv, f, c}. A q = None \<and> q \<noteq> p" "B p = Some (?nb * 4096)" "avail s = avail s3 + 7 + ?nb"
      "file_descriptors s3 = (file_descriptors s)[i := desc]" "elf_files s3 = elf_files s2" "\<forall>k < n. mem s3 (p + of_nat k) = img (b + k)"
      using l(9)[of "elf_files s2", unfolded same] by (elim exE conjE) (rule that)
    let ?g = "\<lambda>q. q\<lparr>pr_filetype := PROCESS_FILE_TYPE_BIN, pr_ptr := p, pr_size := file_size item\<rparr>"
    let ?s3 = "upd_proc process ?g s3"
    have o3: "opened ?s3 B i desc pv f c item" by (rule opened_cong[OF c(2)]) (simp_all add: upd_proc_def)
    have new: "\<forall>q \<in> {desc, pv, f, c}. A q = None" by (rule ballI) (rule c(4)[THEN bspec, THEN conjunct1])
    obtain m B' where cls: "fclose ?ops (int i + 1) ?s3 = (0, ?s3\<lparr>mem := m, file_descriptors := (file_descriptors ?s3)[i := 0]\<rparr>)"
      "load_frame tmp (upd_proc process ?g s) A (?s3\<lparr>mem := m, file_descriptors := (file_descriptors ?s3)[i := 0]\<rparr>) B'"
      "avail (?s3\<lparr>mem := m, file_descriptors := (file_descriptors ?s3)[i := 0]\<rparr>) = avail ?s3 + 4"
      "\<And>q. q \<notin> {desc, pv, f, c} \<Longrightarrow> B' q = B q" "\<And>a. \<not> table_byte (kernel_heap ?s3) a \<Longrightarrow> m a = mem ?s3 a"
      by (rule close_frame[OF o3 frame_proc[OF c(3)] new, where d = d and fs = fs]) blast
    obtain stat where st: "fstat ?ops (int i + 1) \<lparr>stat_flags = 0, stat_file_size = 0\<rparr> s1 = (0, stat)"
      "stat_file_size stat = file_size item"
      using l(2,3)[of "\<lparr>stat_flags = 0, stat_file_size = 0\<rparr>"] by (metis prod.collapse)
    let ?s' = "?s3\<lparr>mem := m, file_descriptors := (file_descriptors ?s3)[i := 0]\<rparr>"
    have run: "process_load_binary ?ops r_str path process s = Some (0, ?s')"
      using l(1) l(5) by (simp add: process_load_binary_def st l(4) c(1) cls(1))
    have Bp: "B' p = Some (?nb * 4096)"
    proof -
      have "p \<notin> {desc, pv, f, c}"
      proof
        assume "p \<in> {desc, pv, f, c}"
        then show False using c(4)[THEN bspec, THEN conjunct2] by blast
      qed
      then show ?thesis using cls(4) c(5) by simp
    qed
    have av: "avail s = avail ?s' + 3 + ?nb" using cls(3) c(6) by (simp add: avail_def upd_proc_def)
    have fds: "file_descriptors ?s' = file_descriptors s"
    proof -
      have "file_descriptors s ! i = 0" using slot(1) by (simp add: free_slot_0)
      then show ?thesis using c(7) by (simp add: upd_proc_def) (metis list_update_id)
    qed
    have mm: "\<forall>k < n. mem ?s' (p + of_nat k) = img (b + k)"
    proof (intro allI impI)
      fix k assume k: "k < n"
      then have "in_range p (?nb * 4096) (p + of_nat k)"
        using blocks_for_bounds(2)[of "file_size item"] n(1,4) by (simp add: in_range_def unat_of_nat32)
      then have "\<not> table_byte (kernel_heap s3) (p + of_nat k)"
        by (rule kpages.live_private[OF load_frameD(1)[OF c(3)] c(5)])
      then show "mem ?s' (p + of_nat k) = img (b + k)" using cls(5) c(9) k by (simp add: upd_proc_def)
    qed
    show ?case by (rule that[OF run cls(2) l(5-7) Bp av fds mm])
  qed
qed

lemma process_load_data_runs:
  fixes s :: "'z process_state_scheme"
  assumes live: "live_regions s A" and r: "file_ready tmp r_str path name item s A"
    and img: "holds_image d img" and cl: "cluster_at s (sint (fat16_get_first_cluster item)) cs b"
    and n: "n = unat (file_size item)" "0 < n" "n \<le> cs" "b + n < 2147483648" and no_elf: "img b \<noteq> 0x7F"
    and room: "room_for s (11 + blocks_for (file_size item)) (blocks_for (file_size item))"
    and slot: "free_slot (file_descriptors s) 0 = Some i" "i < 511"
  obtains p s' B where "process_load_data (\<lambda>_. fat16_filesystem d tmp fs) r_str path process s = Some (0, s')"
    "load_frame tmp (upd_proc process (\<lambda>q. q\<lparr>pr_filetype := PROCESS_FILE_TYPE_BIN, pr_ptr := p, pr_size := file_size item\<rparr>) s) A s' B"
    "p \<noteq> 0" "page_aligned p" "A p = None" "B p = Some (blocks_for (file_size item) * 4096)"
    "avail s = avail s' + 7 + 2 * blocks_for (file_size item)"
    "file_descriptors s' = file_descriptors s" "\<forall>k < n. mem s' (p + of_nat k) = img (b + k)"
proof -
  let ?nb = "blocks_for (file_size item)"
  have room1: "room_for s 8 ?nb" by (rule room_for_mono[OF room]) simp_all
  obtain s1 B1 where e: "elf_load (\<lambda>_. fat16_filesystem d tmp fs) r_str path s = Some (- errno EINFORMAT, None, s1)"
    "load_frame tmp s A s1 B1" "avail s = avail s1 + 4 + ?nb" "file_descriptors s1 = file_descriptors s"
    by (rule elf_load_refuses[OF live r img cl n no_elf room1 slot, where fs = fs]) blast
  note d = load_frameD[OF e(2)]
  have elf: "process_load_elf (\<lambda>_. fat16_filesystem d tmp fs) r_str path process s = Some (- errno EINFORMAT, s1)"
    using e(1) by (simp add: process_load_elf_def)
  have room2: "room_for s1 7 ?nb"
    using room_for_less[OF room d(6), of "4 + ?nb"] e(3) by simp
  have slot2: "free_slot (file_descriptors s1) 0 = Some i" using slot(1) e(4) by simp
  show thesis
  proof (rule process_load_binary_runs[OF d(1) file_ready_frame[OF r e(2)] img cluster_at_frame[OF e(2) cl] n room2 slot2 slot(2),
        where fs = fs and process = process], goal_cases)
    case (1 p s' B)
    let ?g = "\<lambda>q. q\<lparr>pr_filetype := PROCESS_FILE_TYPE_BIN, pr_ptr := p, pr_size := file_size item\<rparr>"
    have run: "process_load_data (\<lambda>_. fat16_filesystem d tmp fs) r_str path process s = Some (0, s')"
      using elf 1(1) by (simp add: process_load_data_def)
    have fr: "load_frame tmp (upd_proc process ?g s) A s' B"
      by (rule load_frame_trans[OF frame_proc[OF e(2)] 1(2)])
    have p: "A p = None" using 1(5) d(2)[of p] by (cases "A p") auto
    have av: "avail s = avail s' + 7 + 2 * ?nb" using e(3) 1(7) by simp
    have fds: "file_descriptors s' = file_descriptors s" using 1(8) e(4) by simp
    show ?case by (rule that[OF run fr 1(3,4) p 1(6) av fds 1(9)])
  qed
qed

text \<open>The same for an ELF program: the process keeps the record of the loader.\<close>

lemma process_load_data_elf_runs:
  fixes s :: "'z process_state_scheme"
  assumes live: "live_regions s A" and r: "file_ready tmp r_str path name item s A"
    and img: "holds_image d img" and cl: "cluster_at s (sint (fat16_get_first_cluster item)) cs b"
    and n: "n = unat (file_size item)" "0 < n" "n \<le> cs" "b + n < 2147483648" and elf: "elf_program img b n"
    and room: "room_for s 8 (blocks_for (file_size item))"
    and slot: "free_slot (file_descriptors s) 0 = Some i" "i < 511"
  obtains e p s' B where "process_load_data (\<lambda>_. fat16_filesystem d tmp fs) r_str path process s = Some (0, s')"
    "load_frame tmp (upd_proc process (\<lambda>q. q\<lparr>pr_filetype := PROCESS_FILE_TYPE_ELF, pr_ptr := e\<rparr>) s) A s' B"
    "elf_memory_ptr (elf_files s' e) = p" "\<forall>k < n. mem s' (p + of_nat k) = img (b + k)"
    "avail s = avail s' + 4 + blocks_for (file_size item)" "file_descriptors s' = file_descriptors s"
    "A e = None" "B e = Some 4096" "page_aligned p" "A p = None" "B p = Some (blocks_for (file_size item) * 4096)" "p \<noteq> e"
proof -
  show thesis
  proof (rule elf_load_runs[OF live r img cl n elf room slot, where fs = fs], goal_cases)
    case (1 e p s' B)
    let ?g = "\<lambda>q. q\<lparr>pr_filetype := PROCESS_FILE_TYPE_ELF, pr_ptr := e\<rparr>"
    let ?s' = "upd_proc process ?g s'"
    have run: "process_load_data (\<lambda>_. fat16_filesystem d tmp fs) r_str path process s = Some (0, ?s')"
      using 1(1) by (simp add: process_load_data_def process_load_elf_def)
    have f: "elf_memory_ptr (elf_files ?s' e) = p" "\<forall>k < n. mem ?s' (p + of_nat k) = img (b + k)"
      "avail s = avail ?s' + 4 + blocks_for (file_size item)" "file_descriptors ?s' = file_descriptors s"
      using 1(2,3,5,6) by (simp_all add: upd_proc_def avail_def)
    show ?case by (rule that[OF run frame_proc[OF 1(4)] f 1(8,9,11-14)])
  qed
qed

end
