(* ===== verification/Boi_Exec.thy ===== *)
theory Boi_Exec
  imports Boi_Loader
begin

text \<open>
  Starting a program: \<^verbatim>\<open>process_load\<close> and \<^verbatim>\<open>process_load_switch\<close> (\<^verbatim>\<open>src/task/process.c\<close>) from the name of a file on
  a FAT16 disk to a process with its task, data and stack in an address space of its own.
\<close>

subsection \<open>Loading a program\<close>

lemma bytes_until_nul_cstr: "cstr m p cs \<Longrightarrow> bytes_until_nul m p n = take n cs"
proof (induction n arbitrary: p cs)
  case (Suc n)
  then show ?case by (cases cs) auto
qed simp

lemma upd_proc_fields [simp]:
  fixes s :: "'z process_state_scheme"
  shows "mem (upd_proc p g s) = mem s" "kernel_heap (upd_proc p g s) = kernel_heap s"
    "live_regions (upd_proc p g s) A = live_regions s A" "avail (upd_proc p g s) = avail s"
    "file_descriptors (upd_proc p g s) = file_descriptors s" "tasks (upd_proc p g s) = tasks s"
    "task_links (upd_proc p g s) S ts = task_links s S ts" "room_for (upd_proc p g s) k n = room_for s k n"
    "file_ready tmp r_str path name item (upd_proc p g s) A = file_ready tmp r_str path name item s A"
    "cluster_at (upd_proc p g s) cl cs b = cluster_at s cl cs b" "processes (upd_proc p g s) = processes s"
    "procs (upd_proc p g s) = (procs s)(p := g (procs s p))" "current_process (upd_proc p g s) = current_process s"
  by (simp_all add: upd_proc_def live_regions_def kheap_ok_def avail_def task_links_def room_for_def file_ready_def kstring_def
      cluster_at_driver size_of_cluster_bytes_def disk_private_def Let_def)

lemma load_frame_process:
  fixes s s' :: "'z process_state_scheme"
  assumes "load_frame tmp s A s' B"
  shows "procs s' = procs s" "tasks s' = tasks s" "processes s' = processes s" "current_process s' = current_process s"
    "task_links s' S ts = task_links s S ts"
proof -
  obtain m io st di fi de fd fds ef where 1: "s' = s\<lparr>mem := m, disk_ports := io, streams := st, dir_items := di, fat_items := fi,
        descriptors := de, file_descs := fd, file_descriptors := fds, elf_files := ef\<rparr>"
    using assms unfolding load_frame_def by blast
  show "procs s' = procs s" "tasks s' = tasks s" "processes s' = processes s" "current_process s' = current_process s"
    "task_links s' S ts = task_links s S ts" by (simp_all add: 1 task_links_def)
qed

lemma load_frame_live:
  assumes "load_frame tmp s A s' B" "live_regions s A" "A q = Some n" "in_range q n a"
    and "\<And>a. in_range tmp 128 a \<Longrightarrow> \<not> pool_byte (kernel_heap s) a"
  shows "mem s' a = mem s a"
proof -
  have "kreserved s A a" "pool_byte (kernel_heap s) a" using live_reserved[OF assms(2-4)] by blast+
  then show ?thesis using load_frameD(3)[OF assms(1)] assms(5) by blast
qed

lemma blocks_pool:
  assumes "live_regions s A" "kernel_heap s = boot_heap" "A p = Some (n * 4096)" "0 < n"
  shows "unat p < 0x7400000" "n \<le> 25600"
proof -
  have h: "pool_byte boot_heap a" if "in_range p (n * 4096) a" for a
    using kpages.live_pool[OF assms(1,3) that] assms(2) by simp
  have "in_range p (n * 4096) p" using assms(4) by (simp add: in_range_def)
  from h[OF this] show p: "unat p < 0x7400000" by (simp add: boot_ranges)
  show "n \<le> 25600"
  proof (rule ccontr)
    assume "\<not> n \<le> 25600"
    then have "25600 * 4096 < n * 4096" by simp
    moreover have "unat (25600 * 4096 :: u32) = 25600 * 4096" by simp
    ultimately have "in_range p (n * 4096) (p + 25600 * 4096)" by (simp add: in_range_def)
    from h[OF this] have "unat (p + 25600 * 4096) < 0x7400000" "0x1000000 \<le> unat (p + 25600 * 4096)" by (simp_all add: boot_ranges)
    moreover have "0x1000000 \<le> unat p" using h[OF \<open>in_range p (n * 4096) p\<close>] by (simp add: boot_ranges)
    moreover have "unat (p + 25600 * 4096) = unat p + 25600 * 4096"
      using unat_add_no_wrap[of p "25600 * 4096"] p by simp
    ultimately show False by simp
  qed
qed

lemma upd_proc_upd_proc [simp]: "upd_proc p g (upd_proc p f s) = upd_proc p (\<lambda>q. g (f q)) s"
  by (simp add: upd_proc_def)

text \<open>A new process's record, its file in a block of its own, and its stack.\<close>

definition binary_process :: "addr \<Rightarrow> u32 \<Rightarrow> process" where
  "binary_process p sz = zero_process\<lparr>pr_filetype := PROCESS_FILE_TYPE_BIN, pr_ptr := p, pr_size := sz\<rparr>"

subsection \<open>The memory of a new process\<close>

text \<open>The record of the process and its stack.\<close>

lemma process_block:
  fixes s :: "'z process_state_scheme"
  assumes live: "live_regions s A" and room: "room_for s 0 3" and z: "kzalloc s 9384 = (process, s1)"
  shows "process \<noteq> 0" "A process = None"
    "load_frame tmp (upd_proc process (\<lambda>_. zero_process) s) A (process_init process s1) (A(process \<mapsto> 12288))"
    "avail s = avail (process_init process s1) + 3" "file_descriptors (process_init process s1) = file_descriptors s"
proof -
  have sz: "0 < unat (9384 :: u32)" "unat (9384 :: u32) \<le> 4294963200" "blocks_for 9384 = 3" by (simp_all add: blocks_for_def)
  note a = alloc_blocks[OF live sz(1,2) room[folded sz(3)] z, unfolded sz(3)]
  show "process \<noteq> 0" "A process = None" by (rule a(1), rule a(3))
  show "load_frame tmp (upd_proc process (\<lambda>_. zero_process) s) A (process_init process s1) (A(process \<mapsto> 12288))"
    unfolding process_init_def using frame_proc[OF frame_alloc[OF live sz(1,2) room[folded sz(3)] z, unfolded sz(3)]] by simp
  show "avail s = avail (process_init process s1) + 3" using a(5) by (simp add: process_init_def)
  obtain m where "s1 = s\<lparr>mem := m\<rparr>" using a(6) by blast
  then show "file_descriptors (process_init process s1) = file_descriptors s" by (simp add: process_init_def upd_proc_def)
qed

lemma stack_block:
  fixes s :: "'z process_state_scheme"
  assumes f: "load_frame tmp t A s B" and room: "room_for s 0 4" and z: "kzalloc s 16384 = (stack, s')"
  shows "stack \<noteq> 0" "page_aligned stack" "A stack = None" "B stack = None" "load_frame tmp t A s' (B(stack \<mapsto> 16384))"
    "avail s = avail s' + 4" "in_range stack 16384 a \<Longrightarrow> mem s' a = 0" "elf_files s' = elf_files s"
    "B p = Some n \<Longrightarrow> in_range p n a \<Longrightarrow> mem s' a = mem s a"
proof -
  have sz: "0 < unat (16384 :: u32)" "unat (16384 :: u32) \<le> 4294963200" "blocks_for 16384 = 4" by (simp_all add: blocks_for_def)
  note d = load_frameD[OF f]
  note a = alloc_blocks[OF d(1) sz(1,2) room[folded sz(3)] z, unfolded sz(3)]
  note fa = frame_alloc[OF d(1) sz(1,2) room[folded sz(3)] z, where tmp = tmp, unfolded sz(3)]
  show "stack \<noteq> 0" "page_aligned stack" "B stack = None" "avail s = avail s' + 4" by (rule a)+
  show "A stack = None" using a(3) d(2)[of stack] by (cases "A stack") auto
  show fr: "load_frame tmp t A s' (B(stack \<mapsto> 16384))" using load_frame_trans[OF f fa] by simp
  show "mem s' a = 0" if i: "in_range stack 16384 a"
  proof -
    have "\<not> table_byte (kernel_heap s') a" by (rule kpages.live_private[OF load_frameD(1)[OF fr] _ i]) simp
    then show ?thesis using a(7)[of a] i load_frameD(6)[OF fa] by simp
  qed
  obtain m where "s' = s\<lparr>mem := m\<rparr>" using a(6) by blast
  then show "elf_files s' = elf_files s" by simp
  show "mem s' a = mem s a" if "B p = Some n" "in_range p n a"
    using a(8) live_reserved[OF d(1) that] by blast
qed

text \<open>
  The task of the process and the mapping of its memory.  What \<^verbatim>\<open>process_map_memory\<close> does is a parameter: it
  succeeds, changes page tables only (\<open>map_keeps\<close>), and establishes \<open>P\<close>.
\<close>

definition map_keeps :: "addr \<Rightarrow> 'z process_state_scheme \<Rightarrow> (addr \<rightharpoonup> nat) \<Rightarrow> memory \<Rightarrow> bool" where
  "map_keeps process s A m \<longleftrightarrow> live_regions (s\<lparr>mem := m\<rparr>) A \<and> avail (s\<lparr>mem := m\<rparr>) = avail s \<and>
     space_live (s\<lparr>mem := m\<rparr>) A (proc_chunk process s) \<and>
     space_pages m (proc_chunk process s) = space_pages (mem s) (proc_chunk process s) \<and>
     (\<forall>a. (\<forall>q \<in> space_pages (mem s) (proc_chunk process s). \<not> in_range q 4096 a) \<longrightarrow> m a = mem s a)"

lemma task_and_map:
  fixes s :: "'z process_state_scheme"
  assumes live: "live_regions s A" "kernel_heap s = boot_heap" and av: "1027 \<le> avail s"
    and ts: "task_links s S ts" "\<forall>t \<in> set ts. A t \<noteq> None"
    and q: "procs s process = q" "pr_allocations q = pr_allocations zero_process"
    and map: "\<And>t s1 B. procs s1 process = q\<lparr>pr_task := t\<rparr> \<Longrightarrow> live_regions s1 B \<Longrightarrow> kernel_heap s1 = boot_heap \<Longrightarrow>
      space_live s1 B (proc_chunk process s1) \<Longrightarrow> (\<And>p n. A p = Some n \<Longrightarrow> B p = Some n) \<Longrightarrow>
      (\<And>p n a. A p = Some n \<Longrightarrow> in_range p n a \<Longrightarrow> mem s1 a = mem s a) \<Longrightarrow>
      (\<And>p n a q. A p = Some n \<Longrightarrow> in_range p n a \<Longrightarrow> q \<in> space_pages (mem s1) (proc_chunk process s1) \<Longrightarrow> \<not> in_range q 4096 a) \<Longrightarrow>
      elf_files s1 = elf_files s \<Longrightarrow>
      \<exists>m. process_map_memory process s1 = Some (0, s1\<lparr>mem := m\<rparr>) \<and> map_keeps process s1 B m \<and> P t (s1\<lparr>mem := m\<rparr>)"
  obtains t s1 s2 B where "task_new process s = (t, s1)" "t \<noteq> 0" "A t = None"
    "process_map_memory process (upd_proc process (\<lambda>q. q\<lparr>pr_task := t\<rparr>) s1) = Some (0, s2)" "P t s2"
    "proc_mem_ok process s2 B" "avail s = avail s2 + 1027" "\<And>p n. A p = Some n \<Longrightarrow> B p = Some n"
    "task_links s2 S (ts @ [t])" "procs s2 = (procs s)(process := q\<lparr>pr_task := t\<rparr>)"
    "t_process (tasks s2 t) = process"
    "t_registers (tasks s2 t) = t_registers (init_task 0 (entry_point (mem s1) process s) process)"
    "processes s2 = processes s" "current_process s2 = current_process s" "file_descriptors s2 = file_descriptors s"
    "\<And>p n a. A p = Some n \<Longrightarrow> in_range p n a \<Longrightarrow> mem s2 a = mem s a"
    "\<And>p n a. A p = Some n \<Longrightarrow> in_range p n a \<Longrightarrow> mem s1 a = mem s a"
    "\<And>q. q \<in> space_pages (mem s2) (proc_chunk process s2) \<Longrightarrow> A q = None"
proof -
  obtain t chunk ip s1 where n: "task_new process s = (t, s1)" "t \<noteq> 0" "A t = None"
    "task_links s1 S (ts @ [t])" "tasks s1 t = (init_task chunk ip process)\<lparr>t_prev := last_or 0 ts\<rparr>"
    "linear_space (mem s1) chunk 5"
    "live_regions s1 (add_pages (A(t \<mapsto> 4096)) (space_pages (mem s1) chunk))" "avail s = avail s1 + 1027"
    "\<And>q n a. A q = Some n \<Longrightarrow> in_range q n a \<Longrightarrow> mem s1 a = mem s a"
    "kernel_heap s1 = kernel_heap s" "procs s1 = procs s" "ip = entry_point (mem s1) process s"
    "\<exists>tk h tl ct. s1 = s\<lparr>mem := mem s1, tasks := tk, task_head := h, task_tail := tl, current_task := ct\<rparr>"
    "\<And>a. a \<in> space_pages (mem s1) chunk \<Longrightarrow> a \<noteq> t \<and> A a = None"
    by (rule task_new_ok[OF live(1) av ts, of process]) (rule that; assumption)
  let ?B = "add_pages (A(t \<mapsto> 4096)) (space_pages (mem s1) chunk)"
  obtain m0 tk h tl ct where s1: "s1 = s\<lparr>mem := m0, tasks := tk, task_head := h, task_tail := tl, current_task := ct\<rparr>"
    using n(13) by blast
  let ?s = "upd_proc process (\<lambda>q. q\<lparr>pr_task := t\<rparr>) s1"
  have pq: "procs ?s process = q\<lparr>pr_task := t\<rparr>" using n(11) q(1) by simp
  have tk: "tasks ?s = tasks s1" "t_page_directory (tasks s1 t) = chunk" using n(5) by (simp_all add: init_task_def)
  have ch: "proc_chunk process ?s = chunk" unfolding pq using tk by simp
  have ext: "?B p = Some n" if "A p = Some n" for p n
  proof -
    have "p \<notin> space_pages (mem s1) chunk" "p \<noteq> t" using n(3) n(14)[of p] that by auto
    then show ?thesis using that by (simp add: add_pages_def)
  qed
  have live1: "live_regions ?s ?B" "kernel_heap ?s = boot_heap" using n(7,10) live(2) by simp_all
  have sp: "space_live ?s ?B (proc_chunk process ?s)"
    unfolding ch using n(6) by (simp add: space_live_def linear_space_def)
  have keep1: "mem ?s a = mem s a" if "A p = Some k" "in_range p k a" for p k a using n(9)[OF that] by simp
  have apart: "\<not> in_range q 4096 a" if r: "A p = Some k" "in_range p k a" "q \<in> space_pages (mem ?s) (proc_chunk process ?s)" for p k a q
  proof -
    have d: "?B q = Some 4096" "p \<noteq> q" using n(14)[of q] r(1,3) unfolding ch by auto
    show ?thesis using kpages.live_apart[OF n(7) ext[OF r(1)] d] r(2) unfolding disjoint_ranges_def by blast
  qed
  have ef: "elf_files ?s = elf_files s" by (simp add: s1 upd_proc_def)
  have "\<exists>m. process_map_memory process ?s = Some (0, ?s\<lparr>mem := m\<rparr>) \<and> map_keeps process ?s ?B m \<and> P t (?s\<lparr>mem := m\<rparr>)"
    by (rule map[OF pq live1 sp]) (rule ext, assumption, rule keep1, assumption+, rule apart, assumption+, rule ef)
  then obtain m where m: "process_map_memory process ?s = Some (0, ?s\<lparr>mem := m\<rparr>)" "map_keeps process ?s ?B m" "P t (?s\<lparr>mem := m\<rparr>)"
    by blast
  let ?s2 = "?s\<lparr>mem := m\<rparr>"
  note k = m(2)[unfolded map_keeps_def]
  have keep: "mem ?s2 a = mem s a" if r: "A p = Some i" "in_range p i a" for p i a
  proof -
    have "\<forall>q \<in> space_pages (mem ?s) (proc_chunk process ?s). \<not> in_range q 4096 a" using apart[OF r] by blast
    then have "m a = mem ?s a" using k by blast
    then show ?thesis using keep1[OF r] by simp
  qed
  have pm: "proc_mem_ok process ?s2 ?B"
    unfolding proc_mem_ok_def
  proof (intro conjI)
    show "live_regions ?s2 ?B" using k by blast
    show "kernel_heap ?s2 = boot_heap" using live1(2) by simp
    show "space_live ?s2 ?B (proc_chunk process ?s2)" using k by simp
    show "allocs_ok ?B (space_pages (mem ?s2) (proc_chunk process ?s2)) (pr_allocations (procs ?s2 process))"
      using pq q(2) zero_process_allocs by (simp add: n(11))
  qed
  have av2: "avail s = avail ?s2 + 1027" using k n(8) by simp
  have f: "task_links ?s2 S (ts @ [t])" "procs ?s2 = (procs s)(process := q\<lparr>pr_task := t\<rparr>)"
    "t_process (tasks ?s2 t) = process"
    "t_registers (tasks ?s2 t) = t_registers (init_task 0 (entry_point (mem s1) process s) process)"
    "processes ?s2 = processes s" "current_process ?s2 = current_process s" "file_descriptors ?s2 = file_descriptors s"
    subgoal using n(4) by (simp add: task_links_def upd_proc_def)
    subgoal using n(11) q(1) by simp
    subgoal using n(5) tk(1) by (simp add: init_task_def)
    subgoal using n(5,12) tk(1) by (simp add: init_task_def)
    by (simp_all add: s1 upd_proc_def)
  have pages: "A q = None" if "q \<in> space_pages (mem ?s2) (proc_chunk process ?s2)" for q
  proof -
    have "space_pages (mem ?s2) (proc_chunk process ?s2) = space_pages (mem s1) chunk"
      using k unfolding ch by (simp add: tk)
    then show ?thesis using n(14) that by blast
  qed
  show thesis by (rule that[OF n(1-3) m(1,3) pm av2 ext f keep n(9) pages])
qed

text \<open>The process record after loading the file \<^verbatim>\<open>0:/name\<close>, from the record \<open>q\<close> with the data of the program.\<close>

definition finish_process :: "u8 list \<Rightarrow> nat \<Rightarrow> addr \<Rightarrow> addr \<Rightarrow> process \<Rightarrow> process" where
  "finish_process name k stack t q =
     (let fname = take 127 (48 # 58 # 47 # name)
      in q\<lparr>pr_filename := fname @ replicate (128 - length fname) 0, pr_stack := stack, pr_pid := of_nat k, pr_task := t\<rparr>)"

lemma finish_process_fields [simp]:
  "pr_filetype (finish_process name k stack t q) = pr_filetype q" "pr_ptr (finish_process name k stack t q) = pr_ptr q"
  "pr_size (finish_process name k stack t q) = pr_size q" "pr_stack (finish_process name k stack t q) = stack"
  "pr_task (finish_process name k stack t q) = t" "pr_pid (finish_process name k stack t q) = of_nat k"
  "pr_allocations (finish_process name k stack t q) = pr_allocations q"
  by (simp_all add: finish_process_def Let_def)

text \<open>The entry of a program whose record is \<open>q\<close>.\<close>

definition program_entry :: "memory \<Rightarrow> (addr \<Rightarrow> elf_file) \<Rightarrow> process \<Rightarrow> u32" where
  "program_entry m ef q = (if pr_filetype q = PROCESS_FILE_TYPE_ELF then e_entry (elf32_header_at m (elf_memory_ptr (ef (pr_ptr q))))
     else 0x400000)"

lemma proc_mem_ok_processes [simp]: "proc_mem_ok process (s\<lparr>processes := ps\<rparr>) A = proc_mem_ok process s A"
  by (simp add: proc_mem_ok_def space_live_def live_regions_def kheap_ok_def)

lemma process_load_by:
  fixes s :: "'z process_state_scheme"
  assumes live: "live_regions s A" "kernel_heap s = boot_heap" and r: "file_ready tmp r_str path name item s A"
    and z: "kzalloc s 9384 = (process, s1)" "process \<noteq> 0"
    and data: "process_load_data ops r_str path process (process_init process s1) = Some (0, s3)"
    and f: "load_frame tmp (upd_proc process (\<lambda>_. q) s) A s3 B" and qa: "pr_allocations q = pr_allocations zero_process"
    and room: "room_for s3 0 4" and av: "1031 \<le> avail s3"
    and pslot: "free_slot (processes s) 0 = Some k" "length (processes s) = 12"
    and ts: "task_links s S ts" "\<forall>t \<in> set ts. A t \<noteq> None"
    and ip: "\<And>m. (\<And>p n a. B p = Some n \<Longrightarrow> in_range p n a \<Longrightarrow> m a = mem s3 a) \<Longrightarrow> program_entry m (elf_files s3) q = ip"
    and map: "\<And>t stack s5 C. procs s5 process = finish_process name k stack t q \<Longrightarrow> page_aligned stack \<Longrightarrow>
      C stack = Some 16384 \<Longrightarrow> live_regions s5 C \<Longrightarrow> kernel_heap s5 = boot_heap \<Longrightarrow>
      space_live s5 C (proc_chunk process s5) \<Longrightarrow> (\<And>p n. B p = Some n \<Longrightarrow> C p = Some n) \<Longrightarrow>
      (\<And>p n a. B p = Some n \<Longrightarrow> in_range p n a \<Longrightarrow> mem s5 a = mem s3 a) \<Longrightarrow>
      (\<And>p n a q. B p = Some n \<Longrightarrow> in_range p n a \<Longrightarrow> q \<in> space_pages (mem s5) (proc_chunk process s5) \<Longrightarrow> \<not> in_range q 4096 a) \<Longrightarrow>
      elf_files s5 = elf_files s3 \<Longrightarrow>
      \<exists>m. process_map_memory process s5 = Some (0, s5\<lparr>mem := m\<rparr>) \<and> map_keeps process s5 C m \<and> P stack t (s5\<lparr>mem := m\<rparr>)"
  obtains stack t s7 s' C where
    "process_load ops r_str uninit path s = Some (0, Some process, s')"
    "P stack t s7" "s' = s7\<lparr>processes := (processes s)[k := process]\<rparr>" "current_process s' = current_process s"
    "procs s' = (procs s)(process := finish_process name k stack t q)"
    "proc_mem_ok process s' C" "avail s3 = avail s' + 1031"
    "\<And>p n. A p = Some n \<Longrightarrow> C p = Some n" "\<And>p n a. A p = Some n \<Longrightarrow> in_range p n a \<Longrightarrow> mem s' a = mem s a"
    "\<And>p n a. B p = Some n \<Longrightarrow> in_range p n a \<Longrightarrow> mem s' a = mem s3 a"
    "\<And>a. in_range stack 16384 a \<Longrightarrow> mem s' a = 0"
    "A t = None" "task_links s' S (ts @ [t])" "t_process (tasks s' t) = process"
    "t_registers (tasks s' t) = t_registers (init_task 0 ip process)"
    "file_descriptors s' = file_descriptors s3" "\<And>p n. B p = Some n \<Longrightarrow> C p = Some n"
    "\<And>q. q \<in> space_pages (mem s') (proc_chunk process s') \<Longrightarrow> B q = None" "C stack = Some 16384" "B stack = None"
    "stack \<notin> space_pages (mem s') (proc_chunk process s')"
proof -
  have k: "k < 12" "processes s ! k = 0" using pslot by (simp_all add: free_slot_0)
  have tmp: "\<not> pool_byte (kernel_heap s) a" if "in_range tmp 128 a" for a using r that by (simp add: file_ready_def Let_def)
  obtain stack s4 where z4: "kzalloc s3 16384 = (stack, s4)" by fastforce
  note b = stack_block[OF f room z4]
  let ?B = "B(stack \<mapsto> 16384)"
  note d = load_frameD[OF b(5)] and fp = load_frame_process[OF b(5)]
  define fname where "fname = take 127 (48 # 58 # 47 # name)"
  let ?g = "\<lambda>q. q\<lparr>pr_filename := fname @ replicate (128 - length fname) 0, pr_stack := stack, pr_pid := of_nat k\<rparr>"
  let ?s5 = "upd_proc process ?g s4"
  have fr: "file_ready tmp r_str path name item s4 ?B" using file_ready_frame[OF _ b(5)] r by simp
  have nm: "bytes_until_nul (mem s4) path 127 = fname"
    unfolding fname_def by (rule bytes_until_nul_cstr) (use fr in \<open>simp add: file_ready_def kstring_def Let_def\<close>)
  have q: "procs ?s5 process = ?g q" "pr_allocations (?g q) = pr_allocations zero_process"
    "(?g q)\<lparr>pr_task := t\<rparr> = finish_process name k stack t q" for t
    using fp(1) qa by (simp_all add: finish_process_def fname_def Let_def)
  have live5: "live_regions ?s5 ?B" "kernel_heap ?s5 = boot_heap" using d(1,6) live(2) by simp_all
  have av5: "1027 \<le> avail ?s5" using b(6) av by simp
  have ts5: "task_links ?s5 S ts" using ts(1) fp(5) by simp
  have ts6: "\<forall>t \<in> set ts. ?B t \<noteq> None"
  proof
    fix t assume "t \<in> set ts"
    then obtain y where "A t = Some y" using ts(2) by blast
    from d(2)[OF this] show "?B t \<noteq> None" by simp
  qed
  have sub: "?B p = Some n" if "B p = Some n" for p n using that b(4) by auto
  have m5: "mem ?s5 a = mem s3 a" if "B p = Some n" "in_range p n a" for p n a using b(9)[OF that] by simp
  have ef: "elf_files ?s5 = elf_files s3" using b(8) by (simp add: upd_proc_def)
  show thesis
  proof (rule task_and_map[OF live5 av5 ts5 ts6 q(1,2), where P = "P stack"], goal_cases)
    case (1 t s6 C)
    show ?case
    proof (rule map[OF _ b(2) _ 1(2-4)])
      show "procs s6 process = finish_process name k stack t q" using 1(1) q(3) by simp
      show "C stack = Some 16384" by (rule 1(5)) simp
      show "C p = Some n" if "B p = Some n" for p n by (rule 1(5)[OF sub[OF that]])
      show "mem s6 a = mem s3 a" if "B p = Some n" "in_range p n a" for p n a
        using 1(6)[OF sub[OF that(1)] that(2)] m5[OF that] by simp
      show "\<not> in_range q 4096 a" if "B p = Some n" "in_range p n a" "q \<in> space_pages (mem s6) (proc_chunk process s6)" for p n a q
        by (rule 1(7)[OF sub[OF that(1)] that(2,3)])
      show "elf_files s6 = elf_files s3" using 1(8) ef by simp
    qed
  next
    case (2 t s6 s7 C)
    note m = 2
    let ?s' = "s7\<lparr>processes := (processes s)[k := process]\<rparr>"
    have ps: "processes s7 = processes s" using m(13) fp(3) by simp
    have g: "process_get (int k) s = 0" "process_get_free_slot s = int k"
      using k pslot(1) by (simp_all add: process_get_def process_get_free_slot_def)
    have run: "process_load ops r_str uninit path s = Some (0, Some process, ?s')"
      using z(2) b(1) m(2) by (simp add: process_load_def process_load_for_slot_def g z(1) data z4 nm m(1,4) ps Let_def)
    have cur: "current_process ?s' = current_process s" using m(14) fp(4) by simp
    have pr: "procs ?s' = (procs s)(process := finish_process name k stack t q)" using m(10) fp(1) q(3) by simp
    have ok: "proc_mem_ok process ?s' C" using m(6) by simp
    have av': "avail s3 = avail ?s' + 1031" using m(7) b(6) by (simp add: avail_def)
    have ext: "C p = Some n" if "A p = Some n" for p n using that d(2) m(8) by blast
    have keep: "mem ?s' a = mem s a" if "A p = Some n" "in_range p n a" for p n a
    proof -
      have "mem s7 a = mem s4 a" using m(16)[OF d(2)[OF that(1)] that(2)] by simp
      moreover have "mem s4 a = mem s a" using load_frame_live[OF b(5) _ that] live(1) tmp by simp
      ultimately show ?thesis by simp
    qed
    have keep3: "mem ?s' a = mem s3 a" if "B p = Some n" "in_range p n a" for p n a
      using m(16)[OF sub[OF that(1)] that(2)] m5[OF that] by simp
    have zero: "mem ?s' a = 0" if "in_range stack 16384 a" for a
      using m(16)[of stack 16384, OF _ that] b(7)[OF that] by simp
    have A: "A t = None" using m(3) d(2)[of t] by (cases "A t") auto
    have tl: "task_links ?s' S (ts @ [t])" "t_process (tasks ?s' t) = process" using m(9,11) by (simp_all add: task_links_def)
    have "program_entry (mem s6) (elf_files s3) q = ip"
      by (rule ip) (use m(17) sub m5 in metis)
    then have "entry_point (mem s6) process ?s5 = ip"
      unfolding entry_point_def q(1) ef by (auto simp: program_entry_def elf_header_def)
    then have rg: "t_registers (tasks ?s' t) = t_registers (init_task 0 ip process)" using m(12) by simp
    have fds: "file_descriptors ?s' = file_descriptors s3"
    proof -
      have "file_descriptors s4 = file_descriptors s3" using kzalloc_mem[OF z4] by force
      then show ?thesis using m(15) by simp
    qed
    have ext3: "C p = Some n" if "B p = Some n" for p n by (rule m(8)[OF sub[OF that]])
    have pages: "B q = None" "q \<noteq> stack" if "q \<in> space_pages (mem ?s') (proc_chunk process ?s')" for q
      using m(18)[of q] that by (auto split: if_splits)
    have st: "C stack = Some 16384" "stack \<notin> space_pages (mem ?s') (proc_chunk process ?s')" using m(8)[of stack] pages(2) by auto
    show ?case by (rule that[OF run m(5) refl cur pr ok av' ext keep keep3 zero A tl rg fds ext3 pages(1) st(1) b(4) st(2)])
  qed
qed

text \<open>Address \<open>v\<close> of the program is backed by an allocation that is not a page table, and holds \<open>c\<close>.\<close>

definition program_byte :: "addr \<Rightarrow> 'z process_state_scheme \<Rightarrow> (addr \<rightharpoonup> nat) \<Rightarrow> addr \<Rightarrow> u8 \<Rightarrow> bool" where
  "program_byte process s A v c \<longleftrightarrow>
     (let x = task_virtual_address_to_physical (pr_task (procs s process)) v s in held process s A x \<and> mem s x = c)"

subsection \<open>Loading a binary\<close>

lemma load_binary:
  fixes s :: "'z process_state_scheme"
  assumes live: "live_regions s A" "kernel_heap s = boot_heap" and r: "file_ready tmp r_str path name item s A"
    and img: "holds_image d img" and cl: "cluster_at s (sint (fat16_get_first_cluster item)) cs b"
    and n: "n = unat (file_size item)" "0 < n" "n \<le> cs" "b + n < 2147483648" and no_elf: "img b \<noteq> 0x7F"
    and room: "room_for s (14 + 2 * blocks_for (file_size item)) (max 4 (blocks_for (file_size item)))"
    and av: "1041 + 2 * blocks_for (file_size item) \<le> avail s"
    and slot: "free_slot (file_descriptors s) 0 = Some i" "i < 511"
    and pslot: "free_slot (processes s) 0 = Some k" "length (processes s) = 12"
    and ts: "task_links s S ts" "\<forall>t \<in> set ts. A t \<noteq> None"
  obtains process p stack t s' B where
    "process_load (\<lambda>_. fat16_filesystem d tmp fs) r_str uninit path s = Some (0, Some process, s')"
    "process \<noteq> 0" "A process = None" "processes s' = (processes s)[k := process]" "current_process s' = current_process s"
    "procs s' = (procs s)(process := finish_process name k stack t (binary_process p (file_size item)))"
    "proc_mem_ok process s' B" "avail s = avail s' + 1041 + 2 * blocks_for (file_size item)"
    "\<And>p n. A p = Some n \<Longrightarrow> B p = Some n" "\<And>p n a. A p = Some n \<Longrightarrow> in_range p n a \<Longrightarrow> mem s' a = mem s a"
    "A t = None" "task_links s' S (ts @ [t])" "t_process (tasks s' t) = process"
    "t_registers (tasks s' t) = t_registers (init_task 0 0x400000 process)" "file_descriptors s' = file_descriptors s"
    "\<And>j. j < n \<Longrightarrow> program_byte process s' B (0x400000 + of_nat j) (img (b + j))"
    "\<And>j. j < 16384 \<Longrightarrow> program_byte process s' B (0x3FB000 + of_nat j) 0"
    "\<And>q. q \<in> space_pages (mem s') (proc_chunk process s') \<Longrightarrow> A q = None"
proof -
  let ?nb = "blocks_for (file_size item)" and ?ops = "\<lambda>_ :: addr. fat16_filesystem d tmp fs :: ('z process_state_scheme) filesystem_ops"
  obtain process s1 where z: "kzalloc s 9384 = (process, s1)" by fastforce
  have room0: "room_for s 0 3" by (rule room_for_mono[OF room]) simp_all
  note a = process_block[OF live(1) room0 z]
  let ?s1 = "process_init process s1" and ?A = "A(process \<mapsto> 12288)"
  note fr = a(3)[of tmp]
  note d1 = load_frameD[OF fr]
  have r1: "file_ready tmp r_str path name item ?s1 ?A" using file_ready_frame[OF _ fr] r by simp
  have cl1: "cluster_at ?s1 (sint (fat16_get_first_cluster item)) cs b" using cluster_at_frame[OF fr] cl by simp
  have rm: "room_for ?s1 (11 + 2 * ?nb) (max 4 ?nb)"
    using room_for_less[OF room, of ?s1 3] a(4) d1(6) by simp
  have room1: "room_for ?s1 (11 + ?nb) ?nb" by (rule room_for_mono[OF rm]) simp_all
  have slot1: "free_slot (file_descriptors ?s1) 0 = Some i" using slot(1) a(5) by simp
  show thesis
  proof (rule process_load_data_runs[OF d1(1) r1 img cl1 n no_elf room1 slot1 slot(2), where fs = fs and process = process],
      goal_cases)
    case (1 p s3 B)
    note l = 1
    let ?q = "binary_process p (file_size item)"
    let ?g = "\<lambda>q. q\<lparr>pr_filetype := PROCESS_FILE_TYPE_BIN, pr_ptr := p, pr_size := file_size item\<rparr>"
    have f: "load_frame tmp (upd_proc process (\<lambda>_. ?q) s) A s3 B"
      using load_frame_trans[OF frame_proc[OF fr, of process ?g] l(2)] by (simp add: binary_process_def)
    have q: "pr_allocations ?q = pr_allocations zero_process" "pr_filetype ?q = PROCESS_FILE_TYPE_BIN"
      "pr_ptr ?q = p" "pr_size ?q = file_size item" by (simp_all add: binary_process_def)
    have room3: "room_for s3 0 4"
    proof -
      have "room_for s3 4 (max 4 ?nb)" using room_for_less[OF rm, of s3 "7 + 2 * ?nb"] load_frameD(6)[OF l(2)] l(7) by simp
      then show ?thesis by (rule room_for_mono) simp_all
    qed
    have av3: "1031 \<le> avail s3" using av a(4) l(7) by simp
    have p: "A p = None" "p \<noteq> process" using l(5) by (auto split: if_splits)
    have nb: "0 < ?nb" by (rule blocks_for_bounds(1)) (use n in simp)
    have "kernel_heap s3 = boot_heap" using load_frameD(6)[OF f] live(2) by simp
    note bp = blocks_pool[OF load_frameD(1)[OF f] this l(6) nb]
    have "unat (file_size item) \<le> ?nb * 4096" by (rule blocks_for_bounds(2))
    then have big: "unat (file_size item) \<le> 104857600" using bp(2) by linarith
    define P where "P = (\<lambda>stack t s. (\<forall>b. unat b < n \<longrightarrow> task_virtual_address_to_physical t (0x400000 + b) s = p + b) \<and>
      (\<forall>b. unat b < 16384 \<longrightarrow> task_virtual_address_to_physical t (0x3FB000 + b) (s :: 'z process_state_scheme) = stack + b))"
    show ?case
    proof (rule process_load_by[OF live r z a(1) l(1) f q(1) room3 av3 pslot ts, where P = P and ip = "0x400000" and uninit = uninit],
        goal_cases)
      case (1 m)
      show ?case by (simp add: program_entry_def q(2))
    next
      case (2 t stack s5 C)
      have "C stack = Some (4 * 4096)" using 2(3) by simp
      note bs = blocks_pool[OF 2(4,5) this]
      show ?case
      proof ((rule process_map_binary_runs[OF 2(4,6)]; (unfold 2(1))?), goal_cases)
        case (7 m)
        then show ?case by (intro exI[of _ m]) (simp add: map_keeps_def P_def q n(1) 2(1))
      qed (use q 2(2) l(4) big bp(1) bs(1) in simp_all)
    next
      case (3 stack t s7 s' C)
      note m = 3
      have tr: "task_virtual_address_to_physical t v s' = task_virtual_address_to_physical t v s7" for v
        by (simp add: m(3) task_virtual_address_to_physical_def)
      have P: "task_virtual_address_to_physical t (0x400000 + of_nat j) s' = p + of_nat j" if "j < n" for j
        using m(2) that unat_of_nat32[of j] n(4) by (simp add: P_def tr)
      have Q: "task_virtual_address_to_physical t (0x3FB000 + of_nat j) s' = stack + of_nat j" if "j < 16384" for j
        using m(2) that unat_of_nat32[of j] by (simp add: P_def tr)
      have pt: "pr_task (procs s' process) = t" by (simp add: m(5))
      have bytes: "program_byte process s' C (0x400000 + of_nat j) (img (b + j))" if j: "j < n" for j
      proof -
        have i: "in_range p (?nb * 4096) (p + of_nat j)"
          using j blocks_for_bounds(2)[of "file_size item"] n(1,4) by (simp add: in_range_def unat_of_nat32)
        have "p \<notin> space_pages (mem s') (proc_chunk process s')" using m(18)[of p] l(6) by auto
        then have "held process s' C (p + of_nat j)" unfolding held_def using m(17)[OF l(6)] i by blast
        then show ?thesis unfolding program_byte_def pt P[OF j] Let_def using m(10)[OF l(6) i] l(9) j by simp
      qed
      have zero: "program_byte process s' C (0x3FB000 + of_nat j) 0" if j: "j < 16384" for j
      proof -
        have i: "in_range stack 16384 (stack + of_nat j)" using j by (simp add: in_range_def unat_of_nat32)
        then have "held process s' C (stack + of_nat j)" unfolding held_def using m(19,21) by blast
        then show ?thesis unfolding program_byte_def pt Q[OF j] Let_def using m(11)[OF i] by simp
      qed
      have pages: "A q = None" if "q \<in> space_pages (mem s') (proc_chunk process s')" for q
        using m(18)[OF that] load_frameD(2)[OF f, of q] by (cases "A q") auto
      have pr: "processes s' = (processes s)[k := process]" by (simp add: m(3))
      have av': "avail s = avail s' + 1041 + 2 * ?nb" using m(7) l(7) a(4) by simp
      have fds: "file_descriptors s' = file_descriptors s" using m(16) l(8) a(5) by simp
      show ?case by (rule that[OF m(1) a(1,2) pr m(4-6) av' m(8,9,12-15) fds bytes zero pages])
    qed
  qed
qed

subsection \<open>Loading an ELF program\<close>

lemma blocks_pool_end:
  assumes "live_regions s A" "kernel_heap s = boot_heap" "A p = Some (n * 4096)" "0 < n"
  shows "unat p + n * 4096 \<le> 0x7400000"
proof -
  note b = blocks_pool[OF assms]
  have u: "unat (of_nat (n * 4096 - 1) :: u32) = n * 4096 - 1" using b(2) by (intro unat_of_nat32) linarith
  then have "in_range p (n * 4096) (p + of_nat (n * 4096 - 1))" using assms(4) by (simp add: in_range_def)
  then have "pool_byte boot_heap (p + of_nat (n * 4096 - 1))" using kpages.live_pool[OF assms(1,3)] assms(2) by simp
  then have "unat (p + of_nat (n * 4096 - 1)) < 0x7400000" by (simp add: boot_ranges)
  moreover have "unat (p + of_nat (n * 4096 - 1)) = unat p + (n * 4096 - 1)"
    using unat_add_no_wrap[of p "of_nat (n * 4096 - 1)"] u b by simp
  ultimately show ?thesis using assms(4) by linarith
qed

text \<open>
  An ELF program of \<open>sz\<close> bytes whose segments are above the stack, each at the same offset of a page in the file and in
  memory and within the blocks of the file, no two of them on the same page.  All program headers count: the kernel maps them
  without looking at their type.
\<close>

definition elf_layout :: "(nat \<Rightarrow> u8) \<Rightarrow> nat \<Rightarrow> u32 \<Rightarrow> bool" where
  "elf_layout img b sz \<longleftrightarrow> elf_program img b (unat sz) \<and>
     (let phs = elf_phdrs (file_memory img b) 0
      in (\<forall>ph \<in> set phs. 0x400000 \<le> unat (p_vaddr ph) \<and> unat (p_vaddr ph) + unat (p_memsz ph) \<le> 4294963200 \<and>
            unat (p_offset ph) + unat (p_memsz ph) \<le> blocks_for sz * 4096 \<and> p_vaddr ph mod 4096 = p_offset ph mod 4096) \<and>
         (\<forall>i < length phs. \<forall>j < length phs. i \<noteq> j \<longrightarrow>
            segment_pages zero_elf_file (phs ! i) \<inter> segment_pages zero_elf_file (phs ! j) = {}))"

lemma aligned_mod_add: "page_aligned p \<Longrightarrow> (p + x) mod 4096 = x mod (4096 :: u32)"
proof -
  assume p: "page_aligned p"
  have "unat ((p + x) mod 4096) = unat (x mod 4096)"
  proof -
    have d: "(4096 :: nat) dvd 4294967296" by (simp add: dvd_def exI[of _ 1048576])
    have "unat ((p + x) mod 4096) = (unat p + unat x) mod 4294967296 mod 4096" by (simp add: unat_mod unat_word_ariths)
    also have "\<dots> = (unat p + unat x) mod 4096" by (rule mod_mod_cancel[OF d])
    also have "\<dots> = unat x mod 4096" using p by (elim dvdE) simp
    finally show ?thesis by (simp add: unat_mod)
  qed
  then show ?thesis by (rule unsigned_word_eqI)
qed

lemma layout_segments:
  assumes lay: "elf_layout img b sz" and m: "\<forall>k < unat sz. m (p + of_nat k) = img (b + k)"
    and p: "page_aligned p" "unat p + blocks_for sz * 4096 \<le> 0x7400000" and f: "elf_memory_ptr f = p"
    and apart: "\<And>a q. in_range p (blocks_for sz * 4096) a \<Longrightarrow> q \<in> space_pages m chunk \<Longrightarrow> \<not> in_range q 4096 a"
  shows "segments_ok f m chunk (elf_pheader m p) 0 (unat (e_phnum (elf32_header_at m p)))"
    "elf_phdrs m p = elf_phdrs (file_memory img b) 0" "elf_has_program_header (elf32_header_at m p)"
    "e_entry (elf32_header_at m p) = e_entry (elf32_header_at (file_memory img b) 0)"
proof -
  let ?phs = "elf_phdrs (file_memory img b) 0"
  have e: "elf_program img b (unat sz)" using lay by (simp add: elf_layout_def)
  have sz: "unat sz < 4294967296" using unsigned_less[of sz, where 'a = nat] by simp
  note h = elf_phdrs_file_memory[OF m sz e]
  show "elf_phdrs m p = ?phs" "elf_has_program_header (elf32_header_at m p)"
    "e_entry (elf32_header_at m p) = e_entry (elf32_header_at (file_memory img b) 0)" using h(1-3) by simp_all
  have len: "length ?phs = unat (e_phnum (elf32_header_at m p))" unfolding elf_phdrs_def h(2) by simp
  have bound: "0x400000 \<le> unat (p_vaddr ph) \<and> unat (p_vaddr ph) + unat (p_memsz ph) \<le> 4294963200 \<and>
      unat (p_offset ph) + unat (p_memsz ph) \<le> blocks_for sz * 4096 \<and> p_vaddr ph mod 4096 = p_offset ph mod 4096"
    if "ph \<in> set ?phs" for ph
    using lay that unfolding elf_layout_def Let_def by blast
  have dis: "segment_pages zero_elf_file (?phs ! i) \<inter> segment_pages zero_elf_file (?phs ! j) = {}"
    if "i < length ?phs" "j < length ?phs" "i \<noteq> j" for i j
    using lay that unfolding elf_layout_def Let_def by blast
  have off: "elf_phdr_phys_address f ph mod 4096 = p_offset ph mod 4096"
    "elf_phdr_phys_address zero_elf_file ph mod 4096 = p_offset ph mod 4096" for ph
    using aligned_mod_add[OF p(1), of "p_offset ph"] f by (simp_all add: elf_phdr_phys_address_def elf_memory_def zero_elf_file_def)
  have pages: "segment_pages f ph = segment_pages zero_elf_file ph" for ph
    by (simp add: segment_pages_def segment_count_def off)
  have ok: "segment_ok f ph" if "ph \<in> set ?phs" for ph
  proof -
    have "unat p + unat (p_offset ph) < 4294967296" using bound[OF that] p(2) by linarith
    then have "unat (elf_phdr_phys_address f ph) = unat p + unat (p_offset ph)"
      using f by (simp add: elf_phdr_phys_address_def elf_memory_def unat_add_no_wrap)
    then show ?thesis using bound[OF that] p(2) off(1)[of ph] by (simp add: segment_ok_def)
  qed
  show "segments_ok f m chunk (elf_pheader m p) 0 (unat (e_phnum (elf32_header_at m p)))"
    unfolding segments_ok_def
  proof (intro ballI conjI allI impI, goal_cases)
    case (1 j)
    then show ?case using h(5)[of j] ok nth_mem[of j ?phs] len by simp
  next
    case (2 j a q)
    then obtain k where k: "elf_pheader m p + 32 * of_nat j = p + of_nat k" "k + 32 \<le> unat sz" using h(6)[of j] by auto
    obtain i where i: "a = p + of_nat k + of_nat i" "i < 32" using 2(2) unfolding k(1) by (rule in_rangeE)
    have "unat (of_nat (k + i) :: u32) = k + i" using k(2) i(2) sz by (intro unat_of_nat32) linarith
    then have "in_range p (blocks_for sz * 4096) a"
      using k(2) i blocks_for_bounds(2)[of sz] by (simp add: in_range_def add.assoc)
    then show ?case using apart 2(3) by blast
  next
    case (3 j i)
    then show ?case using h(5)[of j] h(5)[of i] dis[of j i] len pages by simp
  qed
qed

definition elf_process :: "addr \<Rightarrow> process" where
  "elf_process e = zero_process\<lparr>pr_filetype := PROCESS_FILE_TYPE_ELF, pr_ptr := e\<rparr>"

lemma load_elf:
  fixes s :: "'z process_state_scheme"
  assumes live: "live_regions s A" "kernel_heap s = boot_heap" and r: "file_ready tmp r_str path name item s A"
    and img: "holds_image d img" and cl: "cluster_at s (sint (fat16_get_first_cluster item)) cs b"
    and n: "n = unat (file_size item)" "0 < n" "n \<le> cs" "b + n < 2147483648" and elf: "elf_layout img b (file_size item)"
    and room: "room_for s (11 + blocks_for (file_size item)) (max 4 (blocks_for (file_size item)))"
    and av: "1038 + blocks_for (file_size item) \<le> avail s"
    and slot: "free_slot (file_descriptors s) 0 = Some i" "i < 511"
    and pslot: "free_slot (processes s) 0 = Some k" "length (processes s) = 12"
    and ts: "task_links s S ts" "\<forall>t \<in> set ts. A t \<noteq> None"
  obtains process e stack t s' B where
    "process_load (\<lambda>_. fat16_filesystem d tmp fs) r_str uninit path s = Some (0, Some process, s')"
    "process \<noteq> 0" "A process = None" "processes s' = (processes s)[k := process]" "current_process s' = current_process s"
    "procs s' = (procs s)(process := finish_process name k stack t (elf_process e))"
    "proc_mem_ok process s' B" "avail s = avail s' + 1038 + blocks_for (file_size item)"
    "\<And>p n. A p = Some n \<Longrightarrow> B p = Some n" "\<And>p n a. A p = Some n \<Longrightarrow> in_range p n a \<Longrightarrow> mem s' a = mem s a"
    "A t = None" "task_links s' S (ts @ [t])" "t_process (tasks s' t) = process"
    "t_registers (tasks s' t) = t_registers (init_task 0 (e_entry (elf32_header_at (file_memory img b) 0)) process)"
    "file_descriptors s' = file_descriptors s"
    "\<And>ph j. ph \<in> set (elf_phdrs (file_memory img b) 0) \<Longrightarrow> j < unat (p_memsz ph) \<Longrightarrow> unat (p_offset ph) + j < n \<Longrightarrow>
       program_byte process s' B (p_vaddr ph + of_nat j) (img (b + unat (p_offset ph) + j))"
    "\<And>ph v. ph \<in> set (elf_phdrs (file_memory img b) 0) \<Longrightarrow> unat v < unat (p_memsz ph) \<Longrightarrow>
       proc_entry process s' (paging_align_to_lower_page (p_vaddr ph + v)) AND PAGING_IS_WRITABLE \<noteq> 0 \<longleftrightarrow> p_flags ph AND PF_W \<noteq> 0"
    "\<And>j. j < 16384 \<Longrightarrow> program_byte process s' B (0x3FB000 + of_nat j) 0"
    "\<And>q. q \<in> space_pages (mem s') (proc_chunk process s') \<Longrightarrow> A q = None"
proof -
  let ?nb = "blocks_for (file_size item)" and ?ops = "\<lambda>_ :: addr. fat16_filesystem d tmp fs :: ('z process_state_scheme) filesystem_ops"
  let ?phs = "elf_phdrs (file_memory img b) 0"
  obtain process s1 where z: "kzalloc s 9384 = (process, s1)" by fastforce
  have room0: "room_for s 0 3" by (rule room_for_mono[OF room]) simp_all
  note a = process_block[OF live(1) room0 z]
  let ?s1 = "process_init process s1" and ?A = "A(process \<mapsto> 12288)"
  note fr = a(3)[of tmp]
  note d1 = load_frameD[OF fr]
  have r1: "file_ready tmp r_str path name item ?s1 ?A" using file_ready_frame[OF _ fr] r by simp
  have cl1: "cluster_at ?s1 (sint (fat16_get_first_cluster item)) cs b" using cluster_at_frame[OF fr] cl by simp
  have rm: "room_for ?s1 (8 + ?nb) (max 4 ?nb)"
    using room_for_less[OF room, of ?s1 3] a(4) d1(6) by simp
  have room1: "room_for ?s1 8 ?nb" by (rule room_for_mono[OF rm]) simp_all
  have slot1: "free_slot (file_descriptors ?s1) 0 = Some i" using slot(1) a(5) by simp
  have prog: "elf_program img b n" using elf n(1) by (simp add: elf_layout_def)
  show thesis
  proof (rule process_load_data_elf_runs[OF d1(1) r1 img cl1 n prog room1 slot1 slot(2), where fs = fs and process = process],
      goal_cases)
    case (1 e p s3 B)
    note l = 1
    let ?q = "elf_process e"
    let ?g = "\<lambda>q. q\<lparr>pr_filetype := PROCESS_FILE_TYPE_ELF, pr_ptr := e\<rparr>"
    have f: "load_frame tmp (upd_proc process (\<lambda>_. ?q) s) A s3 B"
      using load_frame_trans[OF frame_proc[OF fr, of process ?g] l(2)] by (simp add: elf_process_def)
    have q: "pr_allocations ?q = pr_allocations zero_process" "pr_filetype ?q = PROCESS_FILE_TYPE_ELF" "pr_ptr ?q = e"
      by (simp_all add: elf_process_def)
    have room3: "room_for s3 0 4"
    proof -
      have "room_for s3 4 (max 4 ?nb)" using room_for_less[OF rm, of s3 "4 + ?nb"] load_frameD(6)[OF l(2)] l(5) by simp
      then show ?thesis by (rule room_for_mono) simp_all
    qed
    have av3: "1031 \<le> avail s3" using av a(4) l(5) by simp
    have nb: "0 < ?nb" by (rule blocks_for_bounds(1)) (use n in simp)
    have "kernel_heap s3 = boot_heap" using load_frameD(6)[OF f] live(2) by simp
    note bp = blocks_pool_end[OF load_frameD(1)[OF f] this l(11) nb]
    have inp: "in_range p (?nb * 4096) (p + of_nat j)" if "j < n" for j
      using that blocks_for_bounds(2)[of "file_size item"] n(1,4) by (simp add: in_range_def unat_of_nat32)
    have data: "\<forall>k < unat (file_size item). m (p + of_nat k) = img (b + k)"
      if "\<And>x k a. B x = Some k \<Longrightarrow> in_range x k a \<Longrightarrow> m a = mem s3 a" for m
      using l(4) that[OF l(11) inp] n(1) by simp
    define P where "P = (\<lambda>stack t s. (\<forall>ph \<in> set ?phs. \<forall>v. unat v < unat (p_memsz ph) \<longrightarrow>
        task_virtual_address_to_physical t (p_vaddr ph + v) s = p + p_offset ph + v \<and>
        (proc_entry process s (paging_align_to_lower_page (p_vaddr ph + v)) AND PAGING_IS_WRITABLE \<noteq> 0 \<longleftrightarrow> p_flags ph AND PF_W \<noteq> 0)) \<and>
      (\<forall>b. unat b < 16384 \<longrightarrow> task_virtual_address_to_physical t (0x3FB000 + b) (s :: 'z process_state_scheme) = stack + b))"
    show ?case
    proof (rule process_load_by[OF live r z a(1) l(1) f q(1) room3 av3 pslot ts, where P = P and uninit = uninit
          and ip = "e_entry (elf32_header_at (file_memory img b) 0)"], goal_cases)
      case (1 m)
      have "\<not> in_range q 4096 a" if "in_range p (?nb * 4096) a" "q \<in> {}" for a q :: addr using that by simp
      have "elf32_header_at m p = elf32_header_at (file_memory img b) 0"
        by (rule header_file_memory(1)[OF data[OF 1]]) (use prog n in \<open>simp_all add: elf_program_def Let_def\<close>)
      then show ?case by (simp add: program_entry_def q l(3))
    next
      case (2 t stack s5 C)
      have "C stack = Some (4 * 4096)" using 2(3) by simp
      note bs = blocks_pool[OF 2(4,5) this]
      have ef: "elf_memory_ptr (elf_files s5 (pr_ptr (procs s5 process))) = p" unfolding 2(1,10) by (simp add: q l(3))
      have ef2: "elf_memory_ptr (elf_files s5 e) = p" using l(3) unfolding 2(10) .
      note seg = layout_segments[OF elf data[OF 2(8)] l(9) bp ef 2(9)[OF l(11)]]
      show ?case
      proof ((rule process_map_elf_runs[OF 2(4,6) _ refl _ refl]; (unfold ef)?), goal_cases)
        case (6 m)
        have P: "P stack t (s5\<lparr>mem := m\<rparr>)"
          using 6(6,7) unfolding P_def 2(1) by (simp add: elf_phdr_phys_address_def elf_memory_def q ef2 seg(2))
        show ?case by (intro exI[of _ m]) (use 6(1-5,8) P in \<open>simp add: map_keeps_def\<close>)
      qed (use seg(1,3) q 2(1,2) bs(1) in simp_all)
    next
      case (3 stack t s7 s' C)
      note m = 3
      have tr: "task_virtual_address_to_physical t v s' = task_virtual_address_to_physical t v s7"
        "proc_entry process s' v = proc_entry process s7 v" for v
        by (simp_all add: m(3) task_virtual_address_to_physical_def proc_entry_def)
      have Q: "task_virtual_address_to_physical t (0x3FB000 + of_nat j) s' = stack + of_nat j" if "j < 16384" for j
        using m(2) that unat_of_nat32[of j] by (simp add: P_def tr)
      have pt: "pr_task (procs s' process) = t" by (simp add: m(5))
      have np: "p \<notin> space_pages (mem s') (proc_chunk process s')" using m(18)[of p] l(11) by auto
      have bytes: "program_byte process s' C (p_vaddr ph + of_nat j) (img (b + unat (p_offset ph) + j))"
        if ph: "ph \<in> set ?phs" and j: "j < unat (p_memsz ph)" "unat (p_offset ph) + j < n" for ph j
      proof -
        have "unat (of_nat j :: u32) = j" using j(2) n(4) by (intro unat_of_nat32) linarith
        then have t: "task_virtual_address_to_physical t (p_vaddr ph + of_nat j) s' = p + of_nat (unat (p_offset ph) + j)"
          using m(2) ph j(1) by (simp add: P_def tr)
        have "held process s' C (p + of_nat (unat (p_offset ph) + j))"
          unfolding held_def using m(17)[OF l(11)] inp[OF j(2)] np by blast
        moreover have "mem s3 (p + of_nat (unat (p_offset ph) + j)) = img (b + (unat (p_offset ph) + j))" using l(4) j(2) by blast
        ultimately show ?thesis
          unfolding program_byte_def pt t Let_def m(10)[OF l(11) inp[OF j(2)]] by (simp only: add.assoc simp_thms)
      qed
      have wr: "proc_entry process s' (paging_align_to_lower_page (p_vaddr ph + v)) AND PAGING_IS_WRITABLE \<noteq> 0 \<longleftrightarrow> p_flags ph AND PF_W \<noteq> 0"
        if "ph \<in> set ?phs" "unat v < unat (p_memsz ph)" for ph v
        using m(2) that unfolding P_def tr by blast
      have zero: "program_byte process s' C (0x3FB000 + of_nat j) 0" if j: "j < 16384" for j
      proof -
        have i: "in_range stack 16384 (stack + of_nat j)" using j by (simp add: in_range_def unat_of_nat32)
        then have "held process s' C (stack + of_nat j)" unfolding held_def using m(19,21) by blast
        then show ?thesis unfolding program_byte_def pt Q[OF j] Let_def using m(11)[OF i] by simp
      qed
      have pages: "A q = None" if "q \<in> space_pages (mem s') (proc_chunk process s')" for q
        using m(18)[OF that] load_frameD(2)[OF f, of q] by (cases "A q") auto
      have pr: "processes s' = (processes s)[k := process]" by (simp add: m(3))
      have av': "avail s = avail s' + 1038 + ?nb" using m(7) l(5) a(4) by simp
      have fds: "file_descriptors s' = file_descriptors s" using m(16) l(6) a(5) by simp
      show ?case by (rule that[OF m(1) a(1,2) pr m(4-6) av' m(8,9,12-15) fds bytes wr zero pages])
    qed
  qed
qed

lemma switch_fields [simp]:
  "mem (process_switch p s) = mem s" "processes (process_switch p s) = processes s" "procs (process_switch p s) = procs s"
  "tasks (process_switch p s) = tasks s" "current_process (process_switch p s) = p"
  "task_links (process_switch p s) S ts = task_links s S ts" "proc_mem_ok q (process_switch p s) B = proc_mem_ok q s B"
  "task_virtual_address_to_physical t v (process_switch p s) = task_virtual_address_to_physical t v s"
  "proc_entry q (process_switch p s) v = proc_entry q s v" "kernel_heap (process_switch p s) = kernel_heap s"
  "avail (process_switch p s) = avail s"
  by (simp_all add: process_switch_def task_links_def task_virtual_address_to_physical_def proc_mem_ok_def
      space_live_def live_regions_def kheap_ok_def proc_entry_def avail_def)

lemma load_switch: "process_load ops r_str uninit path s = Some (0, Some process, s') \<Longrightarrow>
    process_load_switch ops r_str uninit path w s = Some (0, process, process_switch process s')"
  by (simp add: process_load_switch_def)

subsection \<open>Properties\<close>

text \<open>
  C12: with the file \<^verbatim>\<open>0:/name\<close> in the root directory, not an ELF file, of at most one cluster, a free process slot and room
  on the heap, \<^verbatim>\<open>process_load_switch\<close> succeeds.  The new process is in the first free slot with that number as its identifier,
  and it is current; its task is appended to the list of tasks and starts at \<open>0x400000\<close>; through the task's address space byte
  \<open>j\<close> of the file is at \<open>0x400000 + j\<close> and the stack below \<open>0x3FF000\<close> is zero; the process is consistent with the heap, and
  all that was live before is live and unchanged.
\<close>

theorem process_load_switch_runs:
  fixes s :: "'z process_state_scheme"
  assumes "live_regions s A" "kernel_heap s = boot_heap" "file_ready tmp r_str path name item s A"
    and "holds_image d img" "cluster_at s (sint (fat16_get_first_cluster item)) cs b"
    and "n = unat (file_size item)" "0 < n" "n \<le> cs" "b + n < 2147483648" "img b \<noteq> 0x7F"
    and "room_for s (14 + 2 * blocks_for (file_size item)) (max 4 (blocks_for (file_size item)))"
    and "1041 + 2 * blocks_for (file_size item) \<le> avail s"
    and "free_slot (file_descriptors s) 0 = Some i" "i < 511"
    and "free_slot (processes s) 0 = Some k" "length (processes s) = 12"
    and "task_links s S ts" "\<forall>t \<in> set ts. A t \<noteq> None"
  shows "\<exists>process t s' B. process_load_switch (\<lambda>_. fat16_filesystem d tmp fs) r_str uninit path w s = Some (0, process, s') \<and>
     A process = None \<and> processes s' = (processes s)[k := process] \<and> current_process s' = process \<and>
     pr_pid (procs s' process) = of_nat k \<and> pr_task (procs s' process) = t \<and>
     (\<forall>q. q \<noteq> process \<longrightarrow> procs s' q = procs s q) \<and>
     task_links s' S (ts @ [t]) \<and> t_process (tasks s' t) = process \<and> r_ip (t_registers (tasks s' t)) = 0x400000 \<and>
     (\<forall>j < n. mem s' (task_virtual_address_to_physical t (0x400000 + of_nat j) s') = img (b + j)) \<and>
     (\<forall>j < 16384. mem s' (task_virtual_address_to_physical t (0x3FB000 + of_nat j) s') = 0) \<and>
     proc_mem_ok process s' B \<and> A \<subseteq>\<^sub>m B \<and> (\<forall>q n a. A q = Some n \<and> in_range q n a \<longrightarrow> mem s' a = mem s a)"
proof (rule load_binary[OF assms, where fs = fs and uninit = uninit], goal_cases)
  case (1 process p stack t s' B)
  note run = load_switch[OF 1(1), of w]
  show ?case
    unfolding map_le_def
    by (intro exI[of _ process] exI[of _ t] exI[of _ "process_switch process s'"] exI[of _ B])
      (use run 1 in \<open>auto simp: init_task_def program_byte_def Let_def\<close>)
qed

text \<open>The mounted disk with the file \<^verbatim>\<open>a.b\<close>, and no process yet.\<close>

definition mounted_procs :: process_state where
  "mounted_procs = \<lparr>mem = mem mounted, kernel_heap = kernel_heap mounted, current_directory = current_directory mounted,
     cr3 = cr3 mounted, disk_ports = disk_ports mounted, streams = streams mounted, the_disk = the_disk mounted,
     privates = privates mounted, dir_items = dir_items mounted, directories = directories mounted,
     fat_items = fat_items mounted, descriptors = descriptors mounted, fat16_name = fat16_name mounted,
     filesystems = filesystems mounted, file_descriptors = file_descriptors mounted, file_descs = file_descs mounted,
     elf_files = \<lambda>_. zero_elf_file, tasks = \<lambda>_. zero_task, procs = \<lambda>_. zero_process,
     current_task = 0, task_tail = 0, task_head = 0, kernel_chunk = 0, user_mode = None,
     current_process = 0, processes = replicate 12 0\<rparr>"

lemma mounted_procs_fields:
  "live_regions mounted_procs A = live_regions mounted A" "avail mounted_procs = avail mounted"
  "kernel_heap mounted_procs = boot_heap" "file_descriptors mounted_procs = replicate 512 0"
  "processes mounted_procs = replicate 12 0" "task_list mounted_procs []"
  by (simp_all add: mounted_procs_def live_regions_def kheap_ok_def avail_def mounted_heap(3) mounted_fields(4) task_links_def)

lemma mounted_procs_disk:
  "disk_private mounted_procs = disk_private mounted" "the_disk mounted_procs = the_disk mounted"
  "dir_items mounted_procs = dir_items mounted" "mem mounted_procs = mem mounted"
  "kreserved mounted_procs A a = kreserved mounted A a" "kstring mounted_procs A p cs = kstring mounted A p cs"
  "nth_item mounted_procs = nth_item mounted"
  by (simp_all add: mounted_procs_def disk_private_def kstring_def mounted_heap(3) fun_eq_iff)

lemma mounted_procs_ready:
  "file_ready 0x600 0x508 0x500 [97, 46, 98] sample_item mounted_procs mounted_live"
  unfolding file_ready_def Let_def mounted_procs_disk mounted_procs_fields mounted_setting(9)
proof (intro conjI)
  let ?root = "root_directory (disk_private mounted)"
  have it: "nth_item mounted ?root 0 = sample_item" by (simp add: mounted_fields)
  show "\<exists>j < 1. sample_item = nth_item mounted ?root j \<and>
      (\<forall>k < 1. item_matches (nth_item mounted ?root k) [97, 46, 98] \<longleftrightarrow> k = j)"
    using it mounted_setting(12) by simp
  show "\<forall>a. in_range 0x600 128 a \<longrightarrow> \<not> table_byte boot_heap a \<and> \<not> pool_byte boot_heap a \<and>
      \<not> in_range 0x500 (length [97 :: u8, 46, 98] + 4) a \<and> a \<noteq> 0x508"
    using low_range[of 7] in_range_nat[of "0x600" 128] by (auto simp: boot_ranges)
  show "attributes sample_item AND FAT_FILE_SUBDIRECTORY = 0" using mounted_setting(13) it by simp
  show "\<forall>k < 1. item_wf (nth_item mounted ?root k)" using mounted_setting(11) by blast
  show "\<forall>a. pool_byte boot_heap a \<longrightarrow> unat a < 2147483648" by (simp add: boot_ranges)
qed (use mounted_path mounted_setting(2-8) in \<open>simp_all add: mounted_heap(3)\<close>)

lemma mounted_procs_cluster: "cluster_at mounted_procs (sint (fat16_get_first_cluster sample_item)) 512 5632"
proof -
  obtain s1 where c: "kzalloc boot_files 4096 = (mounted_root, s1)"
    by (metis mounted_root_def prod.collapse)
  have snd: "snd (kzalloc boot_files 4096) = s1" by (simp add: c)
  obtain m where "s1 = boot_files\<lparr>mem := m\<rparr>" using kzalloc_mem[OF c] by blast
  note m = mounted_def[unfolded snd this]
  have "streams mounted = sample_streams" "sector_size (the_disk mounted) = 512"
    by (simp_all add: m) (simp_all add: boot_files_def)
  moreover have "streams mounted_procs = streams mounted" by (simp add: mounted_procs_def)
  ultimately show ?thesis
    by (simp add: cluster_at_driver size_of_cluster_bytes_def mounted_procs_disk mounted_fields(1) sample_private_def
        fat16_cluster_to_sector_def fat16_get_first_cluster_def sample_item_def sample_streams_def)
qed

theorem process_load_switch_runs_witness:
  "\<exists>process s'. process_load_switch (\<lambda>_. fat16_filesystem (image_disk of_nat) 0x600 0x9000) 0x508 0 0x500 0 mounted_procs =
       Some (0, process, s') \<and> processes s' ! 0 = process \<and>
     mem s' (task_virtual_address_to_physical (pr_task (procs s' process)) 0x400005 s') = 5"
proof -
  have sz: "file_size sample_item = 100" "blocks_for 100 = 1" by (simp_all add: sample_item_def blocks_for_def)
  have room: "room_for mounted_procs (14 + 2 * blocks_for (file_size sample_item)) (max 4 (blocks_for (file_size sample_item)))"
    by (simp add: room_for_def sz mounted_procs_fields mounted_heap(2) boot_heap_def)
  have slots: "free_slot (file_descriptors mounted_procs) 0 = Some 0" "free_slot (processes mounted_procs) 0 = Some 0"
    "length (processes mounted_procs) = 12"
    unfolding free_slot_0 mounted_procs_fields by simp_all
  have av: "1041 + 2 * blocks_for (file_size sample_item) \<le> avail mounted_procs"
    by (simp add: sz mounted_procs_fields mounted_heap(2))
  have n: "0 < unat (file_size sample_item)" "unat (file_size sample_item) \<le> 512"
    "5632 + unat (file_size sample_item) < 2147483648" "(of_nat 5632 :: u8) \<noteq> 0x7F" "0 < (511 :: nat)"
    "\<forall>t \<in> set []. mounted_live t \<noteq> None" by (simp_all add: sz)
  obtain process t s' where r:
    "process_load_switch (\<lambda>_. fat16_filesystem (image_disk of_nat) 0x600 0x9000) 0x508 0 0x500 0 mounted_procs = Some (0, process, s')"
    "processes s' = (processes mounted_procs)[0 := process]" "pr_task (procs s' process) = t"
    "\<forall>j < unat (file_size sample_item).
       mem s' (task_virtual_address_to_physical t (0x400000 + of_nat j) s') = (of_nat (5632 + j) :: u8)"
    using process_load_switch_runs[OF mounted_heap(1)[folded mounted_procs_fields(1)] mounted_procs_fields(3)
        mounted_procs_ready image_disk_holds[of of_nat] mounted_procs_cluster refl n(1-4) room av slots(1) n(5) slots(2,3)
        mounted_procs_fields(6) n(6), where fs = "0x9000" and uninit = 0 and w = 0]
    by (elim exE conjE) (rule that)
  have "mem s' (task_virtual_address_to_physical t (0x400000 + of_nat 5) s') = (of_nat (5632 + 5) :: u8)" using r(4)[rule_format, of 5] by (simp add: sz)
  then show ?thesis using r(1-3) by (simp add: mounted_procs_fields(5))
qed

text \<open>
  C13: with an ELF program of at most one cluster as the file \<^verbatim>\<open>0:/name\<close>, a free process slot and room on the heap,
  \<^verbatim>\<open>process_load_switch\<close> succeeds.  The new process is in the first free slot and current; its task is appended to the list of tasks
  and starts at the entry of the file; every byte of every segment that the file has is at its virtual address, in a page that is
  writable exactly when the header says so, and the stack is zero; all that was live before is live and unchanged.
\<close>

theorem process_load_switch_elf:
  fixes s :: "'z process_state_scheme"
  assumes "live_regions s A" "kernel_heap s = boot_heap" "file_ready tmp r_str path name item s A"
    and "holds_image d img" "cluster_at s (sint (fat16_get_first_cluster item)) cs b"
    and "n = unat (file_size item)" "0 < n" "n \<le> cs" "b + n < 2147483648" "elf_layout img b (file_size item)"
    and "room_for s (11 + blocks_for (file_size item)) (max 4 (blocks_for (file_size item)))"
    and "1038 + blocks_for (file_size item) \<le> avail s"
    and "free_slot (file_descriptors s) 0 = Some i" "i < 511"
    and "free_slot (processes s) 0 = Some k" "length (processes s) = 12"
    and "task_links s S ts" "\<forall>t \<in> set ts. A t \<noteq> None"
  shows "\<exists>process t s' B. process_load_switch (\<lambda>_. fat16_filesystem d tmp fs) r_str uninit path w s = Some (0, process, s') \<and>
     A process = None \<and> processes s' = (processes s)[k := process] \<and> current_process s' = process \<and>
     pr_pid (procs s' process) = of_nat k \<and> pr_task (procs s' process) = t \<and>
     (\<forall>q. q \<noteq> process \<longrightarrow> procs s' q = procs s q) \<and>
     task_links s' S (ts @ [t]) \<and> t_process (tasks s' t) = process \<and>
     r_ip (t_registers (tasks s' t)) = e_entry (elf32_header_at (file_memory img b) 0) \<and>
     (\<forall>ph \<in> set (elf_phdrs (file_memory img b) 0).
        (\<forall>j < unat (p_memsz ph). unat (p_offset ph) + j < n \<longrightarrow>
           mem s' (task_virtual_address_to_physical t (p_vaddr ph + of_nat j) s') = img (b + unat (p_offset ph) + j)) \<and>
        (\<forall>v. unat v < unat (p_memsz ph) \<longrightarrow>
           (proc_entry process s' (paging_align_to_lower_page (p_vaddr ph + v)) AND PAGING_IS_WRITABLE \<noteq> 0 \<longleftrightarrow>
            p_flags ph AND PF_W \<noteq> 0))) \<and>
     (\<forall>j < 16384. mem s' (task_virtual_address_to_physical t (0x3FB000 + of_nat j) s') = 0) \<and>
     proc_mem_ok process s' B \<and> A \<subseteq>\<^sub>m B \<and> (\<forall>q n a. A q = Some n \<and> in_range q n a \<longrightarrow> mem s' a = mem s a)"
proof (rule load_elf[OF assms, where fs = fs and uninit = uninit], goal_cases)
  case (1 process e stack t s' B)
  note run = load_switch[OF 1(1), of w]
  show ?case
    unfolding map_le_def
    by (intro exI[of _ process] exI[of _ t] exI[of _ "process_switch process s'"] exI[of _ B])
      (use run 1 in \<open>auto simp: init_task_def program_byte_def Let_def\<close>)
qed

text \<open>An ELF program with one segment, which is the whole file, as the file of \<open>mounted_procs\<close>.\<close>

definition program_bytes :: memory where
  "program_bytes = (\<lambda>_. 0)(0 := 0x7F, 1 := 0x45, 2 := 0x4C, 3 := 0x46, 4 := 1, 5 := 1, 16 := 2, 26 := 0x40, 28 := 0x34,
     44 := 1, 52 := 1, 62 := 0x40, 68 := 100, 72 := 100, 76 := 5)"

definition program_disk :: "nat \<Rightarrow> u8" where
  "program_disk k = (if k < 5632 then 0 else program_bytes (of_nat (k - 5632)))"

lemma program_disk_memory: "file_memory program_disk 5632 = program_bytes"
  by (simp add: file_memory_def program_disk_def)

lemma program_headers:
  "elf32_header_at program_bytes 0 = \<lparr>e_ident = map program_bytes (map of_nat [0..<16]), e_type = 2, e_machine = 0, e_version = 0,
     e_entry = 0x400000, e_phoff = 0x34, e_shoff = 0, e_flags = 0, e_ehsize = 0, e_phentsie = 0, e_phnum = 1,
     e_shentsize = 0, e_shnum = 0, e_shstrndx = 0\<rparr>"
  "elf_phdrs program_bytes 0 = [\<lparr>p_type = 1, p_offset = 0, p_vaddr = 0x400000, p_paddr = 0, p_filesz = 100,
     p_memsz = 100, p_flags = 5, p_align = 0\<rparr>]"
proof -
  show h: "elf32_header_at program_bytes 0 = \<lparr>e_ident = map program_bytes (map of_nat [0..<16]), e_type = 2, e_machine = 0, e_version = 0,
     e_entry = 0x400000, e_phoff = 0x34, e_shoff = 0, e_flags = 0, e_ehsize = 0, e_phentsie = 0, e_phnum = 1,
     e_shentsize = 0, e_shnum = 0, e_shstrndx = 0\<rparr>"
    by (simp add: elf32_header_at_def read32_def read16_def) (simp add: program_bytes_def)
  show "elf_phdrs program_bytes 0 = [\<lparr>p_type = 1, p_offset = 0, p_vaddr = 0x400000, p_paddr = 0, p_filesz = 100,
     p_memsz = 100, p_flags = 5, p_align = 0\<rparr>]"
    unfolding elf_phdrs_def h
    by (simp add: elf_program_header_def elf_has_program_header_def elf_pheader_def h elf32_phdr_at_def read32_def)
      (simp add: program_bytes_def)
qed

lemma program_layout: "elf_layout program_disk 5632 100"
proof -
  have "elf_validate_loaded program_bytes 0 = 0"
    by (simp add: elf_validate_loaded_def program_headers elf_valid_signature_def elf_valid_class_def elf_valid_encoding_def
        elf_has_program_header_def Let_def upt_rec) (simp add: program_bytes_def)
  then show ?thesis
    by (simp add: elf_layout_def elf_program_def program_disk_memory program_headers blocks_for_def Let_def)
qed

theorem process_load_switch_elf_witness:
  "\<exists>process s'. process_load_switch (\<lambda>_. fat16_filesystem (image_disk program_disk) 0x600 0x9000) 0x508 0 0x500 0 mounted_procs =
       Some (0, process, s') \<and> r_ip (t_registers (tasks s' (pr_task (procs s' process)))) = 0x400000 \<and>
     mem s' (task_virtual_address_to_physical (pr_task (procs s' process)) 0x400001 s') = 0x45"
proof -
  have sz: "file_size sample_item = 100" "blocks_for 100 = 1" by (simp_all add: sample_item_def blocks_for_def)
  have room: "room_for mounted_procs (11 + blocks_for (file_size sample_item)) (max 4 (blocks_for (file_size sample_item)))"
    by (simp add: room_for_def sz mounted_procs_fields mounted_heap(2) boot_heap_def)
  have slots: "free_slot (file_descriptors mounted_procs) 0 = Some 0" "free_slot (processes mounted_procs) 0 = Some 0"
    "length (processes mounted_procs) = 12"
    unfolding free_slot_0 mounted_procs_fields by simp_all
  have av: "1038 + blocks_for (file_size sample_item) \<le> avail mounted_procs"
    by (simp add: sz mounted_procs_fields mounted_heap(2))
  have n: "0 < unat (file_size sample_item)" "unat (file_size sample_item) \<le> 512"
    "5632 + unat (file_size sample_item) < 2147483648" "elf_layout program_disk 5632 (file_size sample_item)" "0 < (511 :: nat)"
    "\<forall>t \<in> set []. mounted_live t \<noteq> None" by (simp_all add: sz program_layout)
  let ?ph = "\<lparr>p_type = 1, p_offset = 0, p_vaddr = 0x400000, p_paddr = 0, p_filesz = 100, p_memsz = 100, p_flags = 5, p_align = 0\<rparr>"
  have ph: "?ph \<in> set (elf_phdrs (file_memory program_disk 5632) 0)" by (simp add: program_disk_memory program_headers)
  obtain process t s' where r:
    "process_load_switch (\<lambda>_. fat16_filesystem (image_disk program_disk) 0x600 0x9000) 0x508 0 0x500 0 mounted_procs = Some (0, process, s')"
    "pr_task (procs s' process) = t"
    "r_ip (t_registers (tasks s' t)) = e_entry (elf32_header_at (file_memory program_disk 5632) 0)"
    "\<forall>ph \<in> set (elf_phdrs (file_memory program_disk 5632) 0).
        (\<forall>j < unat (p_memsz ph). unat (p_offset ph) + j < unat (file_size sample_item) \<longrightarrow>
           mem s' (task_virtual_address_to_physical t (p_vaddr ph + of_nat j) s') = program_disk (5632 + unat (p_offset ph) + j)) \<and>
        (\<forall>v. unat v < unat (p_memsz ph) \<longrightarrow>
           (proc_entry process s' (paging_align_to_lower_page (p_vaddr ph + v)) AND PAGING_IS_WRITABLE \<noteq> 0 \<longleftrightarrow>
            p_flags ph AND PF_W \<noteq> 0))"
    using process_load_switch_elf[OF mounted_heap(1)[folded mounted_procs_fields(1)] mounted_procs_fields(3)
        mounted_procs_ready image_disk_holds[of program_disk] mounted_procs_cluster refl n(1-4) room av slots(1) n(5) slots(2,3)
        mounted_procs_fields(6) n(6), where fs = "0x9000" and uninit = 0 and w = 0]
    by (elim exE conjE) (rule that)
  have "mem s' (task_virtual_address_to_physical t (p_vaddr ?ph + of_nat 1) s') = program_disk (5632 + unat (p_offset ?ph) + 1)"
    using r(4)[THEN bspec, OF ph, THEN conjunct1, rule_format, of 1] by (simp add: sz)
  moreover have "program_disk 5633 = 0x45" by (simp add: program_disk_def program_bytes_def)
  ultimately show ?thesis using r(1-3) by (simp add: program_disk_memory program_headers)
qed

text \<open>
  C30: when \<^verbatim>\<open>elf_load\<close> returns, the table of file descriptors is as before, whether the file could not be opened,
  was refused, or was loaded; the result is 0 exactly when a loaded file is returned, and a negative error otherwise.  The one
  exception is a table with only its last slot free: the file may be opened into that slot, its descriptor 512 is
  refused by every later call, \<^verbatim>\<open>fclose\<close> among them, and the load fails with the slot taken for good.
\<close>

theorem elf_load_closes:
  assumes "elf_load (\<lambda>_. fat16_filesystem d tmp fs) r_str filename s = Some (res, file_out, s')"
    and "length (file_descriptors s) = 512"
  shows "filesystems s' = filesystems s \<and> (res = 0 \<longleftrightarrow> file_out \<noteq> None) \<and> res \<le> 0 \<and>
     (file_descriptors s' = file_descriptors s \<or>
      free_slot (file_descriptors s) 0 = Some 511 \<and> file_out = None \<and>
        (\<exists>desc. file_descriptors s' = (file_descriptors s)[511 := desc]))"
  by (rule elf_load_tables[OF assms])

theorem elf_load_closes_witness:
  "\<exists>e s'. elf_load (\<lambda>_. fat16_filesystem (image_disk program_disk) 0x600 0x9000) 0x508 0x500 mounted_procs = Some (0, Some e, s') \<and>
     mem s' (elf_memory_ptr (elf_files s' e)) = 0x7F \<and> file_descriptors s' = replicate 512 0"
proof -
  have sz: "file_size sample_item = 100" "blocks_for 100 = 1" by (simp_all add: sample_item_def blocks_for_def)
  have room: "room_for mounted_procs 8 (blocks_for (file_size sample_item))"
    by (simp add: room_for_def sz mounted_procs_fields mounted_heap(2) boot_heap_def)
  have slot: "free_slot (file_descriptors mounted_procs) 0 = Some 0" unfolding free_slot_0 mounted_procs_fields by simp
  have n: "0 < unat (file_size sample_item)" "unat (file_size sample_item) \<le> 512"
    "5632 + unat (file_size sample_item) < 2147483648" "elf_program program_disk 5632 (unat (file_size sample_item))" "0 < (511 :: nat)"
    using program_layout by (simp_all add: sz elf_layout_def)
  obtain e p s' where r:
    "elf_load (\<lambda>_. fat16_filesystem (image_disk program_disk) 0x600 0x9000) 0x508 0x500 mounted_procs = Some (0, Some e, s')"
    "elf_memory_ptr (elf_files s' e) = p" "\<forall>k < unat (file_size sample_item). mem s' (p + of_nat k) = program_disk (5632 + k)"
    using elf_load_runs[OF mounted_heap(1)[folded mounted_procs_fields(1)] mounted_procs_ready image_disk_holds[of program_disk]
        mounted_procs_cluster refl n(1-4) room slot n(5), where fs = "0x9000"] by metis
  have "mem s' p = 0x7F" using r(3)[rule_format, of 0] by (simp add: sz program_disk_def program_bytes_def)
  moreover have "file_descriptors s' = replicate 512 0"
    using elf_load_closes[OF r(1)] by (simp add: mounted_procs_fields)
  ultimately show ?thesis using r(1,2) by blast
qed

end
