(* ===== verification/Boi_Invoke.thy ===== *)
theory Boi_Invoke
  imports Boi_Exec Boi_Kernel
begin

text \<open>
  A program started by a system call, through every component: the arguments of the caller, the path, the FAT16 disk, the loader, the
  address space and the registers of the new task (\<^verbatim>\<open>isr80h/process.c\<close> on top of the others).
\<close>

subsection \<open>Arguments\<close>

text \<open>What injecting arguments changes: memory and the record of the process.\<close>

definition allocating :: "addr \<Rightarrow> 'z process_state_scheme \<Rightarrow> 'z process_state_scheme \<Rightarrow> bool" where
  "allocating process s s' \<longleftrightarrow> (\<exists>m as. s' = upd_proc process (\<lambda>q. q\<lparr>pr_allocations := as\<rparr>) (s\<lparr>mem := m\<rparr>))"

lemma allocating_mem: "allocating process s (s\<lparr>mem := m\<rparr>)"
  unfolding allocating_def by (rule exI[of _ m], rule exI[of _ "pr_allocations (procs s process)"]) (simp add: upd_proc_def)

lemma allocating_trans: "allocating process s s1 \<Longrightarrow> allocating process s1 s2 \<Longrightarrow> allocating process s s2"
  unfolding allocating_def by (elim exE) (simp add: upd_proc_def, blast)

lemma allocating_kfree: "allocating process s s1 \<Longrightarrow> allocating process s (kfree s1 p)"
  unfolding kfree_def by (rule allocating_trans[OF _ allocating_mem])

lemma process_malloc_state:
  assumes "process_malloc process sz s = (p, s')"
  shows "allocating process s s'"
proof -
  obtain q s1 where z: "kzalloc s sz = (q, s1)" by fastforce
  have a1: "allocating process s s1" using kzalloc_mem[OF z] allocating_mem by metis
  show ?thesis
  proof (cases "q = 0 \<or> process_find_free_allocation_index process s1 < 0")
    case True
    then show ?thesis using assms a1 allocating_kfree by (auto simp: process_malloc_def z Let_def split: if_splits)
  next
    case False
    define e where "e = map_to (t_page_directory (tasks s1 (pr_task (procs s1 process)))) q q (paging_align_address (q + sz)) 7 s1"
    obtain r s2 where m: "e = (r, s2)" by fastforce
    have "allocating process s1 s2" using m allocating_mem by (auto simp: e_def map_to_def split_beta Let_def)
    then have a2: "allocating process s s2" by (rule allocating_trans[OF a1])
    let ?i = "nat (process_find_free_allocation_index process s1)"
    have "allocating process s2 (upd_proc process (\<lambda>p. p\<lparr>pr_allocations := (pr_allocations p)[?i := x]\<rparr>) s2)" for x
      unfolding allocating_def
      by (rule exI[of _ "mem s2"], rule exI[of _ "(pr_allocations (procs s2 process))[?i := x]"]) (simp add: upd_proc_def)
    then show ?thesis using assms False m a2 allocating_kfree allocating_trans[OF a2]
      by (auto simp: process_malloc_def z e_def[symmetric] Let_def split: if_splits)
  qed
qed

lemma inject_loop_state:
  assumes "inject_arguments_loop process argv cur i s = Some (r, s')"
  shows "allocating process s s'"
proof -
  have "allocating process s (snd (r, s'))"
  proof (rule inject_arguments_loop.raw_induct[rotated, where P = "\<lambda>process argv cur i s y. allocating process s (snd y)",
      OF assms], goal_cases)
    case (1 loop process argv cur i s y)
    obtain p s1 where p: "process_malloc process 512 s = (p, s1)" by fastforce
    note a = process_malloc_state[OF p]
    have m: "allocating process s (s1\<lparr>mem := m\<rparr>)" for m by (rule allocating_trans[OF a allocating_mem])
    have s: "allocating process s s" using allocating_mem[of process s "mem s"] by simp
    show ?case
    proof (cases "cur = 0 \<or> p = 0")
      case True
      then show ?thesis using 1(2) a s by (auto simp: p Let_def split: if_splits)
    next
      case False
      let ?m = "write32 (strncpy (mem s1) p cur 512) (argv + 4 * i) p"
      have "loop process argv (read32 ?m (cur + 512)) (i + 1) (s1\<lparr>mem := ?m\<rparr>) = Some y"
        using 1(2) False by (simp add: p Let_def)
      from allocating_trans[OF m 1(1)[OF this]] show ?thesis .
    qed
  qed
  then show ?thesis by simp
qed

text \<open>The rest of the state is as it was, and the record keeps all but its allocations and its arguments.\<close>

lemma inject_arguments_state:
  assumes "process_inject_arguments process root s = Some (0, s')"
  obtains m as c v where "s' = upd_proc process (\<lambda>q. q\<lparr>pr_allocations := as, pr_argc := c, pr_argv := v\<rparr>) (s\<lparr>mem := m\<rparr>)"
proof -
  obtain argc where c: "process_count_command_arguments (mem s) root 0 = Some argc" "argc \<noteq> 0"
    using assms by (auto simp: process_inject_arguments_def split: bind_splits if_splits)
  obtain v s1 where v: "process_malloc process (4 * argc) s = (v, s1)" by fastforce
  have "v \<noteq> 0" using assms by (auto simp: process_inject_arguments_def c v)
  then obtain r s2 where l: "inject_arguments_loop process v root 0 s1 = Some (r, s2)" "\<not> r < 0"
    "s' = upd_proc process (\<lambda>p. p\<lparr>pr_argc := argc, pr_argv := v\<rparr>) s2"
    using assms by (auto simp: process_inject_arguments_def c v split: bind_splits if_splits)
  obtain m as where "s2 = upd_proc process (\<lambda>q. q\<lparr>pr_allocations := as\<rparr>) (s\<lparr>mem := m\<rparr>)"
    using allocating_trans[OF process_malloc_state[OF v] inject_loop_state[OF l(1)]] by (auto simp: allocating_def)
  then have "s' = upd_proc process (\<lambda>q. q\<lparr>pr_allocations := as, pr_argc := argc, pr_argv := v\<rparr>) (s\<lparr>mem := m\<rparr>)"
    by (simp add: l(3) upd_proc_def)
  then show thesis by (rule that)
qed

subsection \<open>A program and its arguments\<close>

text \<open>
  The bytes a file of \<open>sz\<close> bytes at byte \<open>b\<close> of the image puts into the address space of its process, and where it starts: by the segments
  of an ELF program, at \<open>0x400000\<close> otherwise.
\<close>

definition runnable :: "(nat \<Rightarrow> u8) \<Rightarrow> nat \<Rightarrow> u32 \<Rightarrow> bool" where
  "runnable img b sz \<longleftrightarrow> img b \<noteq> 0x7F \<or> elf_layout img b sz"

definition program_text :: "(nat \<Rightarrow> u8) \<Rightarrow> nat \<Rightarrow> u32 \<Rightarrow> (addr \<times> u8) set" where
  "program_text img b sz =
     (if img b = 0x7F then
        (\<Union>ph \<in> set (elf_phdrs (file_memory img b) 0).
           (\<lambda>j. (p_vaddr ph + of_nat j, img (b + unat (p_offset ph) + j))) ` {j. j < unat (p_memsz ph) \<and> unat (p_offset ph) + j < unat sz})
      else (\<lambda>j. (0x400000 + of_nat j, img (b + j))) ` {..<unat sz})"

definition program_start :: "(nat \<Rightarrow> u8) \<Rightarrow> nat \<Rightarrow> u32" where
  "program_start img b = (if img b = 0x7F then e_entry (elf32_header_at (file_memory img b) 0) else 0x400000)"

lemma elf_layout_magic: "elf_layout img b sz \<Longrightarrow> img b = 0x7F"
  by (simp add: elf_layout_def elf_program_def elf_validate_loaded_def elf_valid_signature_def file_memory_def Let_def
      split: if_splits)

lemma free_slots_zero: "free_slots (pr_allocations zero_process) = 1024"
  by (simp add: free_slots_def zero_process_def)

lemma switch_bytes [simp]:
  "file_descriptors (process_switch p s) = file_descriptors s" "held q (process_switch p s) B a = held q s B a"
  "program_byte q (process_switch p s) B v c = program_byte q s B v c"
  by (simp_all add: process_switch_def held_def program_byte_def task_virtual_address_to_physical_def)

lemma load_program:
  fixes s :: "'z process_state_scheme"
  assumes live: "live_regions s A" "kernel_heap s = boot_heap" and r: "file_ready tmp r_str path name item s A"
    and img: "holds_image d img" and cl: "cluster_at s (sint (fat16_get_first_cluster item)) cs b"
    and n: "0 < unat (file_size item)" "unat (file_size item) \<le> cs" "b + unat (file_size item) < 2147483648"
    and prog: "runnable img b (file_size item)"
    and room: "room_for s (14 + 2 * blocks_for (file_size item)) (max 4 (blocks_for (file_size item)))"
    and av: "1041 + 2 * blocks_for (file_size item) \<le> avail s"
    and slot: "free_slot (file_descriptors s) 0 = Some i" "i < 511"
    and pslot: "free_slot (processes s) 0 = Some k" "length (processes s) = 12"
    and ts: "task_links s S ts" "\<forall>t \<in> set ts. A t \<noteq> None"
  obtains process t s' B where
    "process_load_switch (\<lambda>_. fat16_filesystem d tmp fs) r_str uninit path w s = Some (0, process, s')"
    "processes s' = (processes s)[k := process]" "current_process s' = process" "pr_task (procs s' process) = t"
    "free_slots (pr_allocations (procs s' process)) = 1024" "\<And>q. q \<noteq> process \<Longrightarrow> procs s' q = procs s q"
    "proc_mem_ok process s' B" "avail s \<le> avail s' + (1041 + 2 * blocks_for (file_size item))"
    "\<And>p n. A p = Some n \<Longrightarrow> B p = Some n" "\<And>p n a. A p = Some n \<Longrightarrow> in_range p n a \<Longrightarrow> mem s' a = mem s a"
    "A process = None" "A t = None" "task_links s' S (ts @ [t])" "t_process (tasks s' t) = process"
    "t_registers (tasks s' t) = t_registers (init_task 0 (program_start img b) process)" "file_descriptors s' = file_descriptors s"
    "\<And>v c. (v, c) \<in> program_text img b (file_size item) \<Longrightarrow> program_byte process s' B v c"
    "\<And>j. j < 16384 \<Longrightarrow> program_byte process s' B (0x3FB000 + of_nat j) 0"
    "\<And>q. q \<in> space_pages (mem s') (proc_chunk process s') \<Longrightarrow> A q = None"
proof (cases "img b = 0x7F")
  case False
  show thesis
  proof (rule load_binary[OF live r img cl refl n False room av slot pslot ts, where fs = fs and uninit = uninit], goal_cases)
    case (1 process p stack t s' B)
    note run = load_switch[OF 1(1), of w]
    have st: "program_start img b = 0x400000" using False by (simp add: program_start_def)
    have tx: "program_byte process s' B v c" if "(v, c) \<in> program_text img b (file_size item)" for v c
      using that 1(16) False by (auto simp: program_text_def)
    show ?case
      by (rule that[OF run, of t B]) (use 1 st tx free_slots_zero in \<open>simp_all add: binary_process_def\<close>)
  qed
next
  case True
  then have lay: "elf_layout img b (file_size item)" using prog by (simp add: runnable_def)
  have room': "room_for s (11 + blocks_for (file_size item)) (max 4 (blocks_for (file_size item)))"
    by (rule room_for_mono[OF room]) simp_all
  have av': "1038 + blocks_for (file_size item) \<le> avail s" using av by simp
  show thesis
  proof (rule load_elf[OF live r img cl refl n lay room' av' slot pslot ts, where fs = fs and uninit = uninit], goal_cases)
    case (1 process e stack t s' B)
    note run = load_switch[OF 1(1), of w]
    have st: "program_start img b = e_entry (elf32_header_at (file_memory img b) 0)" using True by (simp add: program_start_def)
    have tx: "program_byte process s' B v c" if "(v, c) \<in> program_text img b (file_size item)" for v c
      using that 1(16) True by (auto simp: program_text_def)
    show ?case
      by (rule that[OF run, of t B]) (use 1 st tx free_slots_zero in \<open>simp_all add: elf_process_def\<close>)
  qed
qed

text \<open>Live blocks lie above the first sixteen megabytes, so no low address is one.\<close>

lemma low_not_live:
  assumes "live_regions s A" "kernel_heap s = boot_heap" "unat w < 0x1000000"
  shows "A w = None"
proof (rule ccontr)
  assume "A w \<noteq> None"
  then obtain n where w: "A w = Some n" by blast
  obtain L where L: "heap_layout boot_heap" "heap_inv (mem s) boot_heap L" "A = region_map boot_heap L"
    using assms(1,2) by (auto simp: live_regions_def kheap_ok_def)
  obtain b k where b: "L b = Some k" "w = block_addr boot_heap b" using region_mapE[OF w[unfolded L(3)]] by metis
  have "b < heap_blocks boot_heap" using heap_invD_chunk[OF L(2) b(1)] by linarith
  then have u: "unat (block_addr boot_heap b - start_address boot_heap) = b * 4096" "b < 25600"
    using unat_block_offset[OF L(1)] by (simp_all add: boot_heap_def)
  then have "unat w = 0x1000000 + b * 4096"
    using unat_of_nat32[of "0x1000000 + b * 4096"] unfolding b(2) by (simp add: block_addr_def boot_heap_def)
  then show False using assms(3) by simp
qed

lemma lower_page_low: "unat v < n \<Longrightarrow> unat (paging_align_to_lower_page v) < n"
proof -
  have "v mod 4096 \<le> v" by (simp add: word_le_nat_alt unat_mod)
  then show "unat v < n \<Longrightarrow> unat (paging_align_to_lower_page v) < n"
    by (simp add: paging_align_to_lower_page_def unat_sub)
qed

lemma program_byte_entry:
  "task_virtual_address_to_physical (pr_task (procs s process)) v s =
     (proc_entry process s (paging_align_to_lower_page v) AND PAGE_MASK) + (v - paging_align_to_lower_page v)"
  by (simp add: task_virtual_address_to_physical_def proc_entry_def paging_get_physical_address_def Let_def)

lemma program_byte_kept:
  assumes "program_byte process s A v c" "unat v < 0x1000000" "proc_mem_ok process s A" "proc_mem_ok process s' A'"
    and "\<forall>a. held process s A a \<longrightarrow> mem s' a = mem s a \<and> held process s' A' a"
    and "\<forall>w. page_aligned w \<and> (A w \<noteq> None \<or> A' w = None) \<longrightarrow> proc_entry process s' w = proc_entry process s w"
  shows "program_byte process s' A' v c"
proof -
  let ?w = "paging_align_to_lower_page v"
  have "A' ?w = None" by (rule low_not_live[of s', OF _ _ lower_page_low[OF assms(2)]]) (use assms(4) in \<open>simp_all add: proc_mem_ok_def\<close>)
  moreover have "page_aligned ?w" by (rule lower_page(1))
  ultimately have "proc_entry process s' ?w = proc_entry process s ?w" using assms(6) by blast
  then show ?thesis using assms(1,5) by (simp add: program_byte_def program_byte_entry Let_def)
qed

lemma load_with_arguments:
  fixes s :: "'z process_state_scheme"
  assumes live: "live_regions s A" "kernel_heap s = boot_heap" and r: "file_ready tmp r_str path name item s A"
    and img: "holds_image d img" and cl: "cluster_at s (sint (fat16_get_first_cluster item)) cs b"
    and n: "0 < unat (file_size item)" "unat (file_size item) \<le> cs" "b + unat (file_size item) < 2147483648"
    and prog: "runnable img b (file_size item)"
    and room: "room_for s (14 + 2 * blocks_for (file_size item)) (max 4 (blocks_for (file_size item)))"
    and av: "1041 + 2 * blocks_for (file_size item) + length bs < avail s"
    and slot: "free_slot (file_descriptors s) 0 = Some i" "i < 511"
    and pslot: "free_slot (processes s) 0 = Some k" "length (processes s) = 12"
    and ts: "task_links s S ts" "\<forall>t \<in> set ts. A t \<noteq> None"
    and args: "arg_seg (mem s) root bs args 0" "distinct bs" "\<forall>b \<in> set bs. A b = Some 4096" "bs \<noteq> []" "length bs \<le> 1023"
  obtains process t s1 s' B where
    "process_load_switch (\<lambda>_. fat16_filesystem d tmp fs) r_str uninit path w s = Some (0, process, s1)"
    "process_inject_arguments process root s1 = Some (0, s')"
    "processes s' = (processes s)[k := process]" "current_process s' = process" "pr_task (procs s' process) = t"
    "\<And>q. q \<noteq> process \<Longrightarrow> procs s' q = procs s q"
    "proc_mem_ok process s' B" "\<And>p n. A p = Some n \<Longrightarrow> B p = Some n"
    "\<And>p n a. A p = Some n \<Longrightarrow> in_range p n a \<Longrightarrow> mem s' a = mem s a"
    "A process = None" "A t = None" "t \<noteq> 0" "task_links s' S (ts @ [t])" "t_process (tasks s' t) = process"
    "t_registers (tasks s' t) = t_registers (init_task 0 (program_start img b) process)"
    "\<And>v c. (v, c) \<in> program_text img b (file_size item) \<Longrightarrow> unat v < 0x1000000 \<Longrightarrow> program_byte process s' B v c"
    "\<And>j. j < 16384 \<Longrightarrow> program_byte process s' B (0x3FB000 + of_nat j) 0"
    "pr_argc (procs s' process) = of_nat (length bs)"
    "\<forall>k < length bs. argument_at process s' (pr_argv (procs s' process)) k (args ! k)"
proof -
  have av0: "1041 + 2 * blocks_for (file_size item) \<le> avail s" using av by simp
  show thesis
  proof (rule load_program[OF live r img cl n prog room av0 slot pslot ts, where fs = fs and uninit = uninit and w = w], goal_cases)
    case (1 process t s1 B)
    note ld = this
    have bh: "mem s1 a = mem s a" if "b \<in> set bs" "in_range b 4096 a" for b a using 1(10) args(3) that by blast
    have seg: "arg_seg (mem s1) root bs args 0" by (rule iffD2[OF arg_seg_cong args(1)]) (rule bh)
    have out: "b \<notin> space_pages (mem s1) (proc_chunk process s1)" if "b \<in> set bs" for b
    proof
      assume "b \<in> space_pages (mem s1) (proc_chunk process s1)"
      from 1(19)[OF this] args(3) that show False by simp
    qed
    have own: "own_blocks process s1 B bs" using args(2,3) out 1(9) unfolding own_blocks_def by blast
    have room1: "length bs \<le> 1024" "length bs < avail s1" "length bs < free_slots (pr_allocations (procs s1 process))"
      using args(5) 1(5,8) av by simp_all
    show thesis
    proof (rule inject_arguments_runs[OF 1(7) seg own args(4) room1], goal_cases)
      case (1 s' B')
      note inj = this
      obtain m as c v where s': "s' = upd_proc process (\<lambda>q. q\<lparr>pr_allocations := as, pr_argc := c, pr_argv := v\<rparr>) (s1\<lparr>mem := m\<rparr>)"
        by (rule inject_arguments_state[OF inj(1)])
      have same: "processes s' = processes s1" "current_process s' = current_process s1" "tasks s' = tasks s1"
        "pr_task (procs s' process) = pr_task (procs s1 process)" "task_links s' S (ts @ [t]) = task_links s1 S (ts @ [t])"
        by (simp_all add: s' upd_proc_def task_links_def)
      have others: "procs s' q = procs s q" if "q \<noteq> process" for q using ld(6)[OF that] that by (simp add: s' upd_proc_def)
      have keep: "program_byte process s' B' v c" if "program_byte process s1 B v c" "unat v < 0x1000000" for v c
        by (rule program_byte_kept[OF that ld(7) inj(2,6,7)])
      have mono: "B' p = Some n" if "A p = Some n" for p n using inj(5) ld(9)[OF that] by blast
      have bytes: "mem s' a = mem s a" if "A p = Some n" "in_range p n a" for p n a
      proof -
        have "p \<notin> space_pages (mem s1) (proc_chunk process s1)" using ld(19)[of p] that(1) by auto
        then have "held process s1 B a" unfolding held_def using ld(9)[OF that(1)] that(2) by blast
        then show ?thesis using inj(6) ld(10)[OF that] by simp
      qed
      have low: "unat (0x3FB000 + of_nat j :: u32) < 0x1000000" if "j < 16384" for j
      proof -
        have "unat (of_nat (0x3FB000 + j) :: u32) = 0x3FB000 + j" by (rule unat_of_nat32) (use that in simp)
        then show ?thesis using that by simp
      qed
      have t0: "t \<noteq> 0" using ld(13) by (auto simp: task_links_def)
      show ?case
        by (rule that[OF ld(1) inj(1) same(1)[unfolded ld(2)] same(2)[unfolded ld(3)] same(4)[unfolded ld(4)] others inj(2) mono bytes
            ld(11,12) t0 same(5)[THEN iffD2, OF ld(13)] _ _ keep[OF ld(17)] keep[OF ld(18) low] inj(3,4)])
          (simp_all add: same(3) ld(14,15))
    qed
  qed
qed

text \<open>The state in which the commands run: the kernel's pages, the caller's registers saved.\<close>

definition call_state :: "interrupt_frame \<Rightarrow> 'z kernel_state_scheme \<Rightarrow> 'z kernel_state_scheme" where
  "call_state frame s = kernel_page (upd_task (current_task s) (\<lambda>t. t\<lparr>t_registers := frame_registers frame\<rparr>) (kernel_page s))"

lemma call_state_simps [simp]:
  "mem (call_state frame s) = mem s" "kernel_heap (call_state frame s) = kernel_heap s"
  "file_descriptors (call_state frame s) = file_descriptors s" "processes (call_state frame s) = processes s"
  "procs (call_state frame s) = procs s" "current_task (call_state frame s) = current_task s"
  "disk_private (call_state frame s) = disk_private s" "the_disk (call_state frame s) = the_disk s"
  "streams (call_state frame s) = streams s" "dir_items (call_state frame s) = dir_items s"
  "live_regions (call_state frame s) A = live_regions s A" "avail (call_state frame s) = avail s"
  "proc_entry p (call_state frame s) v = proc_entry p s v" 
  "task_virtual_address_to_physical t v (call_state frame s) = task_virtual_address_to_physical t v s"
  by (simp_all add: call_state_def kernel_page_def paging_switch_def upd_task_def disk_private_def live_regions_def
      kheap_ok_def avail_def proc_entry_def task_virtual_address_to_physical_def Let_def)

lemma call_state_links [simp]: "task_links (call_state frame s) S ts = task_links s S ts"
proof -
  have "dseg (tasks (call_state frame s)) S p us n = dseg (tasks s) S p us n" for p us n
    by (induction us arbitrary: p) (auto simp: call_state_def upd_task_def)
  then show ?thesis by (simp add: task_links_def) (simp add: call_state_def upd_task_def kernel_page_def paging_switch_def Let_def)
qed

lemma call_state_disk [simp]:
  "cluster_at (call_state frame s) c cs b = cluster_at s c cs b"
  "room_for (call_state frame s) j n = room_for s j n"
  by (simp_all add: cluster_at_driver size_of_cluster_bytes_def room_for_def)

lemma call_state_ready: "file_ready tmp r path name item ((call_state frame s)\<lparr>mem := m\<rparr>) A = file_ready tmp r path name item (s\<lparr>mem := m\<rparr>) A"
  by (simp add: file_ready_def Let_def kstring_def call_state_def kernel_page_def paging_switch_def upd_task_def disk_private_def)

text \<open>The path of the program, as the command builds it.\<close>

definition path_text :: "u8 list \<Rightarrow> u8 list" where
  "path_text name = 48 # 58 # 47 # name @ [0]"

lemma invoked_path:
  assumes root: "cstr m root [48, 58, 47]" "disjoint_ranges path 4 root 4"
    and name: "cstr m arg name" "length name \<le> 125" "disjoint_ranges path (length name + 4) arg (Suc (length name))"
  obtains m0 where "strcpy m path root = Some m0" "strncpy m0 (path + 3) arg 128 = store_bytes m path (path_text name)"
proof -
  let ?m = "store_bytes m path [48, 58, 47, 0]"
  have c: "strcpy m path root = Some ?m"
  proof -
    have "disjoint_ranges path (Suc (length [48 :: u8, 58, 47])) root (Suc (length [48 :: u8, 58, 47]))"
      using root(2) by (simp add: numeral_eq_Suc)
    from strcpy_loop_cstr[OF root(1) this] show ?thesis by (simp only: strcpy_def append.simps)
  qed
  have sub: "in_range path (length name + 4) a" if "in_range path (Suc (Suc (Suc (Suc 0)))) a" for a by (rule in_range_mono[OF that]) simp
  have out: "?m a = m a" if "in_range arg (Suc (length name)) a" for a
    using name(3) that sub by (intro store_bytes_outside) (auto simp: disjoint_ranges_def)
  have "cstr ?m arg name" using name(1) cstr_cong[of arg name ?m m] out by blast
  moreover have "disjoint_ranges (path + 3) (Suc (length (take (nat (128 - 1)) name))) arg (Suc (length name))"
  proof -
    have "in_range path (length name + 4) a" if "in_range (path + 3) (Suc (length name)) a" for a
    proof -
      have "length name + 4 = Suc (Suc (Suc (Suc (length name))))" by simp
      moreover have "path + 1 + 1 + 1 = path + 3" by simp
      ultimately show ?thesis using that in_range_Suc[of path "Suc (Suc (Suc (length name)))" a]
          in_range_Suc[of "path + 1" "Suc (Suc (length name))" a] in_range_Suc[of "path + 1 + 1" "Suc (length name)" a]
        by metis
    qed
    then show ?thesis using name(2,3) by (simp add: disjoint_ranges_def)
  qed
  ultimately have "strncpy ?m (path + 3) arg 128 = store_bytes ?m (path + 3) (name @ [0])"
    using strncpy_store[of ?m arg name "path + 3" 128] name(2) by simp
  also have "\<dots> = store_bytes m path (path_text name)"
    by (cases name) (simp_all add: path_text_def add.assoc)
  finally show thesis by (rule that[OF c])
qed

lemma entered [simp]:
  "proc_mem_ok p (task_switch t s) A = proc_mem_ok p s A"
  "mem (task_switch t s) = mem s" "procs (task_switch t s) = procs s" "tasks (task_switch t s) = tasks s"
  "processes (task_switch t s) = processes s" "current_process (task_switch t s) = current_process s"
  "current_task (task_switch t s) = t" "cr3 (task_switch t s) = read32 (mem s) (t_page_directory (tasks s t))"
  "task_links (task_switch t s) S ts = task_links s S ts" "program_byte p (task_switch t s) A v c = program_byte p s A v c"
  "argument_at p (task_switch t s) v i x = argument_at p s v i x"
  by (simp_all add: proc_mem_ok_def task_switch_def paging_switch_def Let_def live_regions_def kheap_ok_def space_live_def
      task_links_def program_byte_def held_def task_virtual_address_to_physical_def argument_at_def proc_entry_def)

lemma mode_entered [simp]:
  "proc_mem_ok p (user_mode_enter r s) A = proc_mem_ok p s A"
  "mem (user_mode_enter r s) = mem s" "procs (user_mode_enter r s) = procs s" "tasks (user_mode_enter r s) = tasks s"
  "processes (user_mode_enter r s) = processes s" "current_process (user_mode_enter r s) = current_process s"
  "current_task (user_mode_enter r s) = current_task s" "cr3 (user_mode_enter r s) = cr3 s" "user_mode (user_mode_enter r s) = Some r"
  "task_links (user_mode_enter r s) S ts = task_links s S ts" "program_byte p (user_mode_enter r s) A v c = program_byte p s A v c"
  "argument_at p (user_mode_enter r s) v i x = argument_at p s v i x"
  by (simp_all add: proc_mem_ok_def user_mode_enter_def Let_def live_regions_def kheap_ok_def space_live_def
      task_links_def program_byte_def held_def task_virtual_address_to_physical_def argument_at_def proc_entry_def)

lemma command7_runs:
  fixes s :: "'z kernel_state_scheme"
  assumes c_def: "c = call_state frame s" and m_def: "m = store_bytes (mem s) (path_addr k) (path_text name)"
    and tab: "isr80h_commands s = map Some system_commands @ replicate 1011 None" "current_task s \<noteq> 0"
    and root: "root = task_virtual_address_to_physical (current_task s)
        (read32 (virtual_memory (mem s) (task_directory s)) (f_esp frame)) s" "root \<noteq> 0"
    and name: "cstr (mem s) root name" "name \<noteq> []" "length name \<le> 125"
    and lit: "cstr (mem s) (root_literal k) [48, 58, 47]" "disjoint_ranges (path_addr k) 4 (root_literal k) 4"
    and apart: "disjoint_ranges (path_addr k) (length name + 4) root (Suc (length name))"
    and ld: "process_load_switch ops (mode_r_literal k) (uninit_process k) (path_addr k) 0 (c\<lparr>mem := m\<rparr>) = Some (0, process, s1)"
    and inj: "process_inject_arguments process root s1 = Some (0, s')"
  shows "isr80h_handler ops k polls 7 frame s = enter_process process s'"
proof -
  let ?t = "upd_task (current_task s) (\<lambda>t. t\<lparr>t_registers := frame_registers frame\<rparr>) (kernel_page s)"
  have item: "stack_item 0 ?t = (read32 (virtual_memory (mem s) (task_directory s)) (f_esp frame), c)"
    unfolding stack_item_eq c_def call_state_def by (simp add: task_directory_def upd_task_def frame_registers_def)
  have arg: "task_virtual_address_to_physical (task_current c) (read32 (virtual_memory (mem s) (task_directory s)) (f_esp frame)) c = root"
    unfolding c_def root(1) task_current_def by simp
  have mc: "mem c = mem s" by (simp add: c_def)
  have len: "strlen (mem c) root = Some (of_nat (length name))" "of_nat (length name) \<noteq> (0 :: u32)"
    using strlen_cstr[OF name(1)] name(2,3) unat_of_nat32[of "length name"] by (auto simp: mc)
  obtain m0 where p: "strcpy (mem c) (path_addr k) (root_literal k) = Some m0" "strncpy m0 (path_addr k + 3) root 128 = m"
    unfolding mc m_def by (rule invoked_path[OF lit name(1,3) apart])
  have "isr80h_handle_command ops k polls 7 ?t = isr80h_command7_invoke_system_command ops k ?t"
    using tab(1) by (simp add: isr80h_handle_command_def nth_append system_commands_def upd_task_def)
  also have "\<dots> = enter_process process s'"
    unfolding isr80h_command7_invoke_system_command_def item Let_def prod.case arg
    using root(2) len p ld inj by simp
  finally have h: "isr80h_handle_command ops k polls 7 ?t = enter_process process s'" .
  have "task_current_save_state frame (kernel_page s) = Some ?t"
    using save_state_eq[of "kernel_page s" frame] tab(2) by simp
  then show ?thesis by (simp add: isr80h_handler_def h) (simp add: enter_process_def Let_def)
qed

text \<open>The command's buffer is on the kernel's stack, outside of the heap, and apart from the string \<^verbatim>\<open>0:/\<close>.\<close>

definition path_buffer :: "statics \<Rightarrow> memory \<Rightarrow> nat \<Rightarrow> bool" where
  "path_buffer k m n \<longleftrightarrow> cstr m (root_literal k) [48, 58, 47] \<and> disjoint_ranges (path_addr k) 4 (root_literal k) 4 \<and>
     (\<forall>a. in_range (path_addr k) (n + 4) a \<longrightarrow> \<not> table_byte boot_heap a \<and> \<not> pool_byte boot_heap a)"

lemma path_buffer_apart:
  assumes "path_buffer k m n" "live_regions s A" "kernel_heap s = boot_heap" "A p = Some j" "in_range p j a"
  shows "\<not> in_range (path_addr k) (n + 4) a"
  using kpages.live_pool[OF assms(2,4,5)] assms(1,3) by (auto simp: path_buffer_def)

text \<open>
  C1: system call 7 runs a program: the caller has a list of arguments, in pages of its own, whose first is the name of a program
  of at most one cluster on the mounted disk, and there is room.  The call does not return; the processor is in user mode at the
  start of the program, in the address space of a new current process, with the user's segments and stack.  Below 16 megabytes the
  address space holds what the file says, binary or ELF, and the zero stack; \<^verbatim>\<open>argc\<close> and \<^verbatim>\<open>argv\<close> are the
  arguments of the call, name included, in pages the program may use.  The task is the last of the list, the process in the first free
  slot, and all that was live before is live and unchanged.
\<close>

theorem invoke_runs_program:
  fixes s :: "'z kernel_state_scheme"
  assumes "live_regions s A" "kernel_heap s = boot_heap"
    and "isr80h_commands s = map Some system_commands @ replicate 1011 None" "current_task s \<noteq> 0"
    and "root = task_virtual_address_to_physical (current_task s)
        (read32 (virtual_memory (mem s) (task_directory s)) (f_esp frame)) s"
    and "arg_seg (mem s) root bs (name # args) 0" "distinct bs" "\<forall>b \<in> set bs. A b = Some 4096" "length bs \<le> 1023"
    and "path_buffer k (mem s) (length name)"
    and "file_ready tmp (mode_r_literal k) (path_addr k) name item (s\<lparr>mem := store_bytes (mem s) (path_addr k) (path_text name)\<rparr>) A"
    and "holds_image d img" "cluster_at s (sint (fat16_get_first_cluster item)) cs b"
    and "0 < unat (file_size item)" "unat (file_size item) \<le> cs" "b + unat (file_size item) < 2147483648"
    and "runnable img b (file_size item)"
    and "room_for s (14 + 2 * blocks_for (file_size item)) (max 4 (blocks_for (file_size item)))"
    and "1041 + 2 * blocks_for (file_size item) + length bs < avail s"
    and "free_slot (file_descriptors s) 0 = Some i" "i < 511" "free_slot (processes s) 0 = Some n" "length (processes s) = 12"
    and "task_links s S ts" "\<forall>t \<in> set ts. A t \<noteq> None"
  shows "\<exists>process t r s' B. isr80h_handler (\<lambda>_. fat16_filesystem d tmp fs) k polls 7 frame s = User_mode s' \<and>
     A process = None \<and> processes s' = (processes s)[n := process] \<and> current_process s' = process \<and>
     pr_task (procs s' process) = t \<and> (\<forall>q. q \<noteq> process \<longrightarrow> procs s' q = procs s q) \<and>
     task_links s' S (ts @ [t]) \<and> t_process (tasks s' t) = process \<and> current_task s' = t \<and>
     cr3 s' = read32 (mem s') (t_page_directory (tasks s' t)) \<and>
     user_mode s' = Some r \<and> r_ip r = program_start img b \<and> r_esp r = 0x3FF000 \<and> r_cs r = 0x1B \<and> r_ss r = 0x23 \<and>
     (\<forall>(v, c) \<in> program_text img b (file_size item). unat v < 0x1000000 \<longrightarrow> program_byte process s' B v c) \<and>
     (\<forall>j < 16384. program_byte process s' B (0x3FB000 + of_nat j) 0) \<and>
     pr_argc (procs s' process) = of_nat (length bs) \<and>
     (\<forall>j < length bs. argument_at process s' (pr_argv (procs s' process)) j ((name # args) ! j)) \<and>
     proc_mem_ok process s' B \<and> A \<subseteq>\<^sub>m B \<and> (\<forall>p n a. A p = Some n \<and> in_range p n a \<longrightarrow> mem s' a = mem s a)"
proof -
  let ?m = "store_bytes (mem s) (path_addr k) (path_text name)"
  let ?c = "(call_state frame s)\<lparr>mem := ?m\<rparr>"
  have lt: "length (path_text name) = length name + 4" by (simp add: path_text_def)
  have tb: "?m a = mem s a" if "table_byte (kernel_heap s) a" for a
    using assms(2,10) that lt by (intro store_bytes_outside) (auto simp: path_buffer_def)
  have lb: "?m a = mem s a" if "A p = Some j" "in_range p j a" for p j a
    unfolding store_bytes_outside[OF path_buffer_apart[OF assms(10,1,2) that, folded lt]] ..
  obtain bs' where bs: "bs = root # bs'" "root \<noteq> 0" "length name < 512" "cstr (mem s) root name"
    using assms(6) by (cases bs) auto
  have r4: "A root = Some 4096" using assms(8) bs(1) by simp
  have nm: "name \<noteq> []" "length name \<le> 125" using assms(11) by (simp_all add: file_ready_def Let_def)
  have ap: "disjoint_ranges (path_addr k) (length name + 4) root (Suc (length name))"
    unfolding disjoint_ranges_def
  proof (intro allI notI, elim conjE)
    fix a assume a: "in_range (path_addr k) (length name + 4) a" "in_range root (Suc (length name)) a"
    have "in_range root 4096 a" by (rule in_range_mono[OF a(2)]) (use nm(2) in simp)
    with path_buffer_apart[OF assms(10,1,2) r4] a(1) show False by blast
  qed
  have live: "live_regions ?c A" "avail ?c = avail s" "kernel_heap ?c = boot_heap"
    using live_regions_mem[of "call_state frame s" A ?m] assms(1,2) tb by simp_all
  have rd: "file_ready tmp (mode_r_literal k) (path_addr k) name item ?c A" unfolding call_state_ready by (rule assms(11))
  have cl: "cluster_at ?c (sint (fat16_get_first_cluster item)) cs b" by (simp add: cluster_at_streams(2) assms(13))
  have rm: "room_for ?c (14 + 2 * blocks_for (file_size item)) (max 4 (blocks_for (file_size item)))"
    using assms(18) unfolding room_for_def live(2,3) assms(2) .
  have av: "1041 + 2 * blocks_for (file_size item) + length bs < avail ?c" using assms(19) live(2) by simp
  have sl: "free_slot (file_descriptors ?c) 0 = Some i" "free_slot (processes ?c) 0 = Some n" "length (processes ?c) = 12"
    using assms(20,22,23) by simp_all
  have tl: "task_links ?c S ts"
  proof -
    have "task_links ?c S ts = task_links (call_state frame s) S ts" by (simp add: task_links_def)
    then show ?thesis using assms(24) by simp
  qed
  have seg: "arg_seg (mem ?c) root bs (name # args) 0"
  proof (rule iffD2[OF arg_seg_cong assms(6)])
    show "mem ?c a = mem s a" if "b \<in> set bs" "in_range b 4096 a" for b a
      using lb[OF bspec[OF assms(8) that(1)] that(2)] by simp
  qed
  have bn: "bs \<noteq> []" by (simp add: bs(1))
  show ?thesis
  proof (rule load_with_arguments[OF live(1,3) rd assms(12) cl assms(14-17) rm av sl(1) assms(21) sl(2,3) tl assms(25) seg
        assms(7,8) bn assms(9), where fs = fs and uninit = "uninit_process k" and w = 0], goal_cases)
    case (1 process t s1 s' B)
    have h: "isr80h_handler (\<lambda>_. fat16_filesystem d tmp fs) k polls 7 frame s = enter_process process s'"
      by (rule command7_runs[OF refl refl assms(3-5) bs(2,4) nm _ _ ap 1(1,2)])
        (use assms(10) in \<open>simp_all add: path_buffer_def\<close>)
    let ?r = "t_registers (tasks s' t)"
    let ?f = "user_mode_enter ?r (task_switch t s')"
    have "isr80h_handler (\<lambda>_. fat16_filesystem d tmp fs) k polls 7 frame s = User_mode ?f"
      unfolding h enter_process_def 1(5) Let_def by simp
    moreover have "r_ip ?r = program_start img b" "r_esp ?r = 0x3FF000" "r_cs ?r = 0x1B" "r_ss ?r = 0x23"
      unfolding 1(15) by (simp_all add: init_task_def)
    moreover have "mem s' a = mem s a" if "A p = Some j" "in_range p j a" for p j a
      using 1(9)[OF that] lb[OF that] by simp
    moreover have "A \<subseteq>\<^sub>m B" unfolding map_le_def using 1(8) by (auto simp: dom_def)
    moreover have "procs s' q = procs s q" if "q \<noteq> process" for q using 1(6)[OF that] by simp
    moreover have "processes s' = (processes s)[n := process]" using 1(3) by simp
    ultimately show ?case
      using 1(4,5,7,10-14,16-19)
      by (intro exI[of _ process] exI[of _ t] exI[of _ ?r] exI[of _ ?f] exI[of _ B] conjI) (auto simp only: entered mode_entered)
  qed
qed

text \<open>
  The mounted disk under a kernel with one program, whose task is at \<^verbatim>\<open>0x700\<close>: the heap block \<open>invoke_page\<close> is its list of one
  argument, \<^verbatim>\<open>a.b\<close>, and the word 1024 bytes into it is the top of its stack and points to the list.
\<close>

definition invoke_space :: "addr \<times> process_state" where
  "invoke_space = paging_new_4gb mounted_procs 5"

definition invoke_heap :: "addr \<times> process_state" where
  "invoke_heap = kzalloc (snd invoke_space) 4096"

abbreviation invoke_page :: addr where "invoke_page \<equiv> fst invoke_heap"

definition invoke_memory :: memory where
  "invoke_memory = (\<lambda>a. if unat a < 0x7E00 then store_bytes (mem mounted) 0x6A00 [48, 58, 47, 0] a
     else write32 (store_bytes (mem (snd invoke_heap)) invoke_page [97, 46, 98, 0]) (invoke_page + 1024) invoke_page a)"

definition invoke_kernel :: kernel_state where
  "invoke_kernel = (process_state.extend mounted_procs (process_state.more blank_kernel))
     \<lparr>mem := invoke_memory, tasks := (\<lambda>_. zero_task)(0x700 := zero_task\<lparr>t_page_directory := fst invoke_space\<rparr>), current_task := 0x700,
      isr80h_commands := map Some system_commands @ replicate 1011 None\<rparr>"

definition invoke_frame :: interrupt_frame where
  "invoke_frame = sample_frame\<lparr>f_esp := invoke_page + 1024\<rparr>"

abbreviation invoke_live :: "addr \<rightharpoonup> nat" where
  "invoke_live \<equiv> (add_pages mounted_live (space_pages (mem (snd invoke_space)) (fst invoke_space)))(invoke_page \<mapsto> 4096)"

lemma invoke_fields:
  "kernel_heap invoke_kernel = boot_heap" "mem invoke_kernel = invoke_memory" "current_task invoke_kernel = 0x700"
  "isr80h_commands invoke_kernel = map Some system_commands @ replicate 1011 None"
  "tasks invoke_kernel 0x700 = zero_task\<lparr>t_page_directory := fst invoke_space\<rparr>"
  "task_links invoke_kernel {} []" "processes invoke_kernel = replicate 12 0" "file_descriptors invoke_kernel = replicate 512 0"
  "disk_private invoke_kernel = disk_private mounted_procs" "the_disk invoke_kernel = the_disk mounted_procs"
  "streams invoke_kernel = streams mounted_procs" "dir_items invoke_kernel = dir_items mounted_procs"
  by (simp_all add: invoke_kernel_def process_state.defs task_links_def mounted_procs_fields disk_private_def)
    (simp_all add: mounted_procs_def)

lemma invoke_heap_ok:
  "live_regions (snd invoke_heap) invoke_live" "avail (snd invoke_heap) = 24572" "kernel_heap (snd invoke_heap) = boot_heap"
  "linear_space (mem (snd invoke_heap)) (fst invoke_space) 5"
  "space_pages (mem (snd invoke_heap)) (fst invoke_space) = space_pages (mem (snd invoke_space)) (fst invoke_space)"
  "in_range invoke_page 4096 a \<Longrightarrow> mem (snd invoke_heap) a = 0"
  "invoke_page \<noteq> 0" "invoke_page \<notin> space_pages (mem (snd invoke_space)) (fst invoke_space)"
proof -
  obtain c s1 where c: "paging_new_4gb mounted_procs 5 = (c, s1)" by fastforce
  obtain p s2 where z: "kzalloc s1 4096 = (p, s2)" by fastforce
  have eq: "invoke_space = (c, s1)" "invoke_heap = (p, s2)" by (simp_all add: invoke_space_def invoke_heap_def c z)
  have av: "1026 \<le> avail mounted_procs" by (simp add: mounted_procs_fields mounted_heap)
  note n = paging_new_4gb_ok[OF mounted_heap(1)[folded mounted_procs_fields(1)] av c]
  have sz: "0 < unat (4096 :: u32)" "unat (4096 :: u32) \<le> 4096" "0 < avail s1"
    using n(3) by (simp_all add: mounted_procs_fields mounted_heap)
  note k = kpages.alloc_page[OF n(2) sz z]
  let ?S = "space_pages (mem s1) c"
  show "live_regions (snd invoke_heap) invoke_live" "avail (snd invoke_heap) = 24572" "invoke_page \<noteq> 0"
    using k n(3) unfolding eq by (simp_all add: mounted_procs_fields mounted_heap)
  show "kernel_heap (snd invoke_heap) = boot_heap"
    using kernel_heap_kzalloc[OF z] paging_new_4gb_mem[OF c] by (auto simp: eq mounted_procs_fields)
  have "add_pages mounted_live ?S p = None" using k by blast
  then show out: "invoke_page \<notin> space_pages (mem (snd invoke_space)) (fst invoke_space)"
    by (auto simp: eq add_pages_def split: if_splits)
  have same: "\<forall>q \<in> ?S. \<forall>a. in_range q 4096 a \<longrightarrow> mem s2 a = mem s1 a"
  proof (intro ballI allI impI)
    fix q a assume "q \<in> ?S" "in_range q 4096 a"
    then show "mem s2 a = mem s1 a" using kpages.alloc_keeps_live[OF n(2) sz z, of q 4096 a] by simp
  qed
  show "space_pages (mem (snd invoke_heap)) (fst invoke_space) = space_pages (mem (snd invoke_space)) (fst invoke_space)"
    unfolding eq using space_cong(3)[OF same] by simp
  have "linear_space (mem s2) c 5" using n(1) space_cong(4,5)[OF same] by (simp add: linear_space_def)
  then show "linear_space (mem (snd invoke_heap)) (fst invoke_space) 5" by (simp add: eq)
  show "mem (snd invoke_heap) a = 0" if "in_range invoke_page 4096 a" for a
    using kpages.alloc_zeroed[OF n(2) sz z] that by (simp add: eq)
qed

text \<open>Where the page is, and its memory, which agrees with the heap's outside of low memory and of the page.\<close>

lemma invoke_page_range:
  "in_range invoke_page 4096 a \<longleftrightarrow> unat invoke_page \<le> unat a \<and> unat a < unat invoke_page + 4096"
  "in_range invoke_page 4 a \<longleftrightarrow> unat invoke_page \<le> unat a \<and> unat a < unat invoke_page + 4"
  "in_range (invoke_page + 512) 4 a \<longleftrightarrow> unat invoke_page + 512 \<le> unat a \<and> unat a < unat invoke_page + 516"
  "in_range (invoke_page + 1024) 4 a \<longleftrightarrow> unat invoke_page + 1024 \<le> unat a \<and> unat a < unat invoke_page + 1028"
  "0x1000000 \<le> unat invoke_page"
proof -
  have p: "unat invoke_page < 0x7400000"
    using boot_live_low[OF invoke_heap_ok(1,3), of invoke_page 4096] by simp
  have "unat (invoke_page + 512) = unat invoke_page + 512" "unat (invoke_page + 1024) = unat invoke_page + 1024"
    using p by (simp_all add: unat_word_ariths)
  then show "in_range invoke_page 4096 a \<longleftrightarrow> unat invoke_page \<le> unat a \<and> unat a < unat invoke_page + 4096"
    "in_range invoke_page 4 a \<longleftrightarrow> unat invoke_page \<le> unat a \<and> unat a < unat invoke_page + 4"
    "in_range (invoke_page + 512) 4 a \<longleftrightarrow> unat invoke_page + 512 \<le> unat a \<and> unat a < unat invoke_page + 516"
    "in_range (invoke_page + 1024) 4 a \<longleftrightarrow> unat invoke_page + 1024 \<le> unat a \<and> unat a < unat invoke_page + 1028"
    using p in_range_nat[of invoke_page 4096 a] in_range_nat[of invoke_page 4 a] in_range_nat[of "invoke_page + 512" 4 a]
      in_range_nat[of "invoke_page + 1024" 4 a] by (simp_all add: ac_simps)
  show "0x1000000 \<le> unat invoke_page" using low_not_live[OF invoke_heap_ok(1,3), of invoke_page] by fastforce
qed

lemma invoke_memory_eq:
  assumes "0x7E00 \<le> unat a" "\<not> in_range invoke_page 4 a" "\<not> in_range (invoke_page + 1024) 4 a"
  shows "invoke_memory a = mem (snd invoke_heap) a"
proof -
  have "\<not> in_range invoke_page (length [97, 46, 98, 0 :: u8]) a" using assms(2) by (simp add: numeral_eq_Suc)
  then show ?thesis using assms(1,3) by (simp add: invoke_memory_def write32_outside store_bytes_outside del: store_bytes.simps)
qed

lemma invoke_memory_high:
  assumes "pool_byte boot_heap a \<or> table_byte boot_heap a" "\<not> in_range invoke_page 4096 a"
  shows "invoke_memory a = mem (snd invoke_heap) a"
proof (rule invoke_memory_eq)
  show "0x7E00 \<le> unat a" using assms(1) by (auto simp: boot_ranges)
qed (use assms(2) in \<open>auto simp: invoke_page_range(1,2,4)\<close>)

lemma invoke_memory_page:
  "cstr invoke_memory invoke_page [97, 46, 98]" "read32 invoke_memory (invoke_page + 512) = 0"
  "read32 invoke_memory (invoke_page + 1024) = invoke_page"
proof -
  let ?m = "write32 (store_bytes (mem (snd invoke_heap)) invoke_page [97, 46, 98, 0]) (invoke_page + 1024) invoke_page"
  have hi: "invoke_memory a = ?m a" if "in_range invoke_page 4096 a" for a
    using that invoke_page_range(1,5) by (auto simp: invoke_memory_def)
  have "read32 invoke_memory (invoke_page + 1024) = read32 ?m (invoke_page + 1024)"
    by (rule read32_cong, rule hi) (simp add: invoke_page_range)
  then show "read32 invoke_memory (invoke_page + 1024) = invoke_page" by simp
  have "read32 invoke_memory (invoke_page + 512) = read32 (\<lambda>_. 0) (invoke_page + 512)"
  proof (rule read32_cong)
    fix a assume a: "in_range (invoke_page + 512) 4 a"
    have "invoke_memory a = mem (snd invoke_heap) a"
      by (rule invoke_memory_eq) (use a invoke_page_range in auto)
    also have "\<dots> = 0" by (rule invoke_heap_ok(6)) (use a in \<open>simp add: invoke_page_range\<close>)
    finally show "invoke_memory a = 0" .
  qed
  then show "read32 invoke_memory (invoke_page + 512) = 0" by (simp add: read32_def)
  have "cstr invoke_memory invoke_page [97, 46, 98] = cstr (store_bytes (mem (snd invoke_heap)) invoke_page ([97, 46, 98] @ [0])) invoke_page [97, 46, 98]"
  proof (rule cstr_cong)
    fix a assume "in_range invoke_page (Suc (length [97, 46, 98 :: u8])) a"
    then have a: "in_range invoke_page 4 a" by (simp add: numeral_eq_Suc)
    then have "in_range invoke_page 4096 a" "\<not> in_range (invoke_page + 1024) 4 a" by (simp_all add: invoke_page_range)
    then show "invoke_memory a = store_bytes (mem (snd invoke_heap)) invoke_page ([97, 46, 98] @ [0]) a"
      using hi by (simp add: write32_outside del: store_bytes.simps)
  qed
  then show "cstr invoke_memory invoke_page [97, 46, 98]" using cstr_store_bytes[of "[97, 46, 98]"] by simp
qed

lemma invoke_space_same:
  "\<forall>q \<in> space_pages (mem (snd invoke_heap)) (fst invoke_space). \<forall>a. in_range q 4096 a \<longrightarrow>
      invoke_memory a = mem (snd invoke_heap) a"
  unfolding invoke_heap_ok(5)
proof (intro ballI allI impI)
  fix q a assume q: "q \<in> space_pages (mem (snd invoke_space)) (fst invoke_space)" "in_range q 4096 a"
  have ne: "q \<noteq> invoke_page" using q(1) invoke_heap_ok(8) by blast
  have l: "invoke_live q = Some 4096" "invoke_live invoke_page = Some 4096" using q(1) ne by simp_all
  have "pool_byte boot_heap a" using kpages.live_pool[OF invoke_heap_ok(1) l(1) q(2)] invoke_heap_ok(3) by simp
  moreover have "\<not> in_range invoke_page 4096 a"
    using kpages.live_apart[OF invoke_heap_ok(1) l ne] q(2) by (auto simp: disjoint_ranges_def)
  ultimately show "invoke_memory a = mem (snd invoke_heap) a" by (intro invoke_memory_high disjI1)
qed

lemma invoke_kernel_live:
  "live_regions invoke_kernel invoke_live" "avail invoke_kernel = 24572"
  "linear_space invoke_memory (fst invoke_space) 5"
proof -
  have nt: "\<not> in_range invoke_page 4096 a" if "table_byte boot_heap a" for a
    using kpages.live_private[OF invoke_heap_ok(1), of invoke_page 4096 a] invoke_heap_ok(3) that by auto
  have tb: "invoke_memory a = mem (snd invoke_heap) a" if "table_byte boot_heap a" for a
    using invoke_memory_high[OF disjI2[OF that] nt[OF that]] .
  have l: "live_regions (snd invoke_heap\<lparr>mem := invoke_memory\<rparr>) invoke_live"
    "avail (snd invoke_heap\<lparr>mem := invoke_memory\<rparr>) = avail (snd invoke_heap)"
    by (rule live_regions_mem[OF invoke_heap_ok(1)], simp add: tb invoke_heap_ok(3))+
  have eq: "live_regions invoke_kernel B = live_regions (snd invoke_heap\<lparr>mem := invoke_memory\<rparr>) B"
    "avail invoke_kernel = avail (snd invoke_heap\<lparr>mem := invoke_memory\<rparr>)" for B
    by (simp_all add: live_regions_def kheap_ok_def avail_def invoke_fields invoke_heap_ok(3))
  show "live_regions invoke_kernel invoke_live" "avail invoke_kernel = 24572"
    using l invoke_heap_ok(2) unfolding eq by simp_all
  from space_cong(4,5)[OF invoke_space_same] show "linear_space invoke_memory (fst invoke_space) 5"
    using invoke_heap_ok(4) by (simp add: linear_space_def)
qed

lemma invoke_low:
  "unat a < 0x7E00 \<Longrightarrow> \<not> in_range 0x6A00 4 a \<Longrightarrow> invoke_memory a = mem mounted a"
  "cstr invoke_memory 0x6A00 [48, 58, 47]"
proof -
  show "invoke_memory a = mem mounted a" if "unat a < 0x7E00" "\<not> in_range 0x6A00 4 a"
  proof -
    have l: "length [48, 58, 47, 0 :: u8] = 4" by simp
    have "\<not> in_range 0x6A00 (length [48, 58, 47, 0 :: u8]) a" unfolding l by (rule that(2))
    then show ?thesis using that(1) by (simp add: invoke_memory_def store_bytes_outside del: store_bytes.simps list.size)
  qed
  have "cstr invoke_memory 0x6A00 [48, 58, 47] = cstr (store_bytes (mem mounted) 0x6A00 ([48, 58, 47] @ [0])) 0x6A00 [48, 58, 47]"
  proof (rule cstr_cong)
    fix a assume "in_range 0x6A00 (Suc (length [48, 58, 47 :: u8])) a"
    moreover have "Suc (length [48, 58, 47 :: u8]) = 4" by simp
    ultimately have "in_range 0x6A00 4 a" by (simp only:)
    then have "unat a < 0x7E00" using in_range_nat[of "0x6A00" 4 a] by simp
    then show "invoke_memory a = store_bytes (mem mounted) 0x6A00 ([48, 58, 47] @ [0]) a"
      by (simp add: invoke_memory_def del: store_bytes.simps)
  qed
  then show "cstr invoke_memory 0x6A00 [48, 58, 47]" using cstr_store_bytes[of "[48, 58, 47]"] by simp
qed

lemma invoke_kernel_ready:
  "file_ready 0x600 0x508 0x6900 [97, 46, 98] sample_item
     (invoke_kernel\<lparr>mem := store_bytes invoke_memory 0x6900 (path_text [97, 46, 98])\<rparr>) invoke_live"
proof -
  let ?m = "store_bytes invoke_memory 0x6900 (path_text [97, 46, 98])"
  let ?s = "invoke_kernel\<lparr>mem := ?m\<rparr>" and ?root = "root_directory (disk_private mounted)"
  have f: "disk_private ?s = disk_private mounted" "the_disk ?s = the_disk mounted" "dir_items ?s = dir_items mounted"
    "kernel_heap ?s = boot_heap" "mem ?s = ?m"
    using invoke_fields(1,9,10,12) mounted_procs_disk(1-3) by (simp_all add: disk_private_def)
  have res: "kreserved ?s invoke_live a" if "unat a < 0x7E00" for a by (rule boot_low_reserved[OF f(4) that])
  have "cstr (store_bytes invoke_memory 0x6900 ([48, 58, 47, 97, 46, 98] @ [0])) 0x6900 [48, 58, 47, 97, 46, 98]"
    by (rule cstr_store_bytes) simp_all
  then have c: "cstr ?m 0x6900 [48, 58, 47, 97, 46, 98]" by (simp add: path_text_def)
  have low: "unat a < 0x7E00" if "in_range 0x6900 7 a" for a using in_range_nat[of "0x6900" 7 a] that by simp
  have "Suc (length [48, 58, 47, 97, 46, 98 :: u8]) = 7" by simp
  then have k: "kstring ?s invoke_live 0x6900 (48 # 58 # 47 # [97, 46, 98])"
    using c res low unfolding kstring_def f(5) by presburger
  have l: "length (path_text [97, 46, 98]) = 7" by (simp add: path_text_def)
  have nr: "\<not> in_range 0x6900 (length (path_text [97, 46, 98])) 0x508" "\<not> in_range 0x6A00 4 (0x508 :: addr)"
    unfolding l using in_range_nat[of "0x6900" 7 "0x508"] in_range_nat[of "0x6A00" 4 "0x508"] by simp_all
  then have mode: "?m 0x508 = 114" unfolding store_bytes_outside[OF nr(1)] using nr(2) invoke_low(1)[of "0x508"] mounted_setting(6) by simp
  have it: "nth_item mounted ?root 0 = sample_item" by (simp add: mounted_fields)
  have live: "invoke_live (dir_item ?root) \<noteq> None"
    using mounted_setting(8) by (simp add: add_pages_def)
  have n: "nth_item ?s = nth_item mounted" by (rule ext, rule ext) (simp add: f(3))
  show ?thesis
    unfolding file_ready_def Let_def f n mounted_setting(9)
  proof (intro conjI)
    show "\<exists>j < 1. sample_item = nth_item mounted ?root j \<and>
        (\<forall>k < 1. item_matches (nth_item mounted ?root k) [97, 46, 98] \<longleftrightarrow> k = j)"
      using it mounted_setting(12) by simp
    show "\<forall>a. in_range 0x600 128 a \<longrightarrow> \<not> table_byte boot_heap a \<and> \<not> pool_byte boot_heap a \<and>
        \<not> in_range 0x6900 (length [97 :: u8, 46, 98] + 4) a \<and> a \<noteq> 0x508"
      using in_range_nat[of "0x6900" 7] in_range_nat[of "0x600" 128] by (auto simp: boot_ranges)
    show "attributes sample_item AND FAT_FILE_SUBDIRECTORY = 0" using mounted_setting(13) it by simp
    show "\<forall>k < 1. item_wf (nth_item mounted ?root k)" using mounted_setting(11) by blast
    show "\<forall>a. pool_byte boot_heap a \<longrightarrow> unat a < 2147483648" by (simp add: boot_ranges)
    show "reserved (table_byte boot_heap) (pool_byte boot_heap) invoke_live 0x508" using res[of "0x508"] unfolding f(4) by simp
  qed (rule k mode live mounted_setting(2-4,7))+
qed

theorem invoke_runs_program_witness:
  "\<exists>s' r. isr80h_handler (\<lambda>_. fat16_filesystem (image_disk of_nat) 0x600 0x9000) sample_statics [] 7 invoke_frame invoke_kernel =
       User_mode s' \<and> user_mode s' = Some r \<and> r_ip r = 0x400000 \<and> processes s' ! 0 = current_process s' \<and>
     pr_argc (procs s' (current_process s')) = 1 \<and>
     argument_at (current_process s') s' (pr_argv (procs s' (current_process s'))) 0 [97, 46, 98]"
proof -
  let ?s = invoke_kernel and ?A = invoke_live and ?path = "[97, 46, 98] :: u8 list"
  have st: "path_addr sample_statics = 0x6900" "mode_r_literal sample_statics = 0x508" "root_literal sample_statics = 0x6A00"
    by (simp_all add: sample_statics_def)
  have cur: "current_task ?s \<noteq> 0" by (simp add: invoke_fields)
  have dir: "task_directory ?s = read32 invoke_memory (fst invoke_space)"
    by (simp add: task_directory_def invoke_fields zero_task_def)
  have id: "paging_get_physical_address invoke_memory (read32 invoke_memory (fst invoke_space)) v = v" for v
    using linear_space_identity[OF invoke_kernel_live(3), of v] by (simp add: paging_4gb_chunk_get_directory_def)
  have vm: "virtual_memory (mem ?s) (task_directory ?s) = invoke_memory"
    by (simp add: virtual_memory_def fun_eq_iff dir invoke_fields id)
  have top: "read32 (virtual_memory (mem ?s) (task_directory ?s)) (f_esp invoke_frame) = invoke_page"
    unfolding vm by (simp add: invoke_frame_def invoke_memory_page(3))
  have root: "invoke_page = task_virtual_address_to_physical (current_task ?s)
      (read32 (virtual_memory (mem ?s) (task_directory ?s)) (f_esp invoke_frame)) ?s"
    unfolding top by (simp add: task_virtual_address_to_physical_def invoke_fields zero_task_def id)
  have seg: "arg_seg (mem ?s) invoke_page [invoke_page] (?path # []) 0"
    using invoke_memory_page(1,2) invoke_heap_ok(7) by (simp add: invoke_fields)
  have own: "distinct [invoke_page]" "\<forall>b \<in> set [invoke_page]. ?A b = Some 4096" "length [invoke_page] \<le> 1023" by simp_all
  have l: "length ?path + 4 = 7" by simp
  have buf: "path_buffer sample_statics (mem ?s) (length ?path)"
    unfolding path_buffer_def st l invoke_fields(2)
    using invoke_low(2) in_range_nat[of "0x6900" 7] in_range_nat[of "0x6900" 4] in_range_nat[of "0x6A00" 4]
    by (auto simp: disjoint_ranges_def boot_ranges simp del: cstr.simps)
  have rd: "file_ready 0x600 (mode_r_literal sample_statics) (path_addr sample_statics) ?path sample_item
      (?s\<lparr>mem := store_bytes (mem ?s) (path_addr sample_statics) (path_text ?path)\<rparr>) ?A"
    unfolding st invoke_fields(2) by (rule invoke_kernel_ready)
  have cl: "cluster_at ?s (sint (fat16_get_first_cluster sample_item)) 512 5632"
    using mounted_procs_cluster unfolding cluster_at_driver size_of_cluster_bytes_def invoke_fields .
  have sz: "file_size sample_item = 100" "blocks_for 100 = 1" by (simp_all add: sample_item_def blocks_for_def)
  have n: "0 < unat (file_size sample_item)" "unat (file_size sample_item) \<le> 512"
    "5632 + unat (file_size sample_item) < 2147483648" "runnable of_nat 5632 (file_size sample_item)"
    "room_for ?s (14 + 2 * blocks_for (file_size sample_item)) (max 4 (blocks_for (file_size sample_item)))"
    "1041 + 2 * blocks_for (file_size sample_item) + length [invoke_page] < avail ?s"
    "free_slot (file_descriptors ?s) 0 = Some 0" "0 < (511 :: nat)" "free_slot (processes ?s) 0 = Some 0" "length (processes ?s) = 12"
    "\<forall>t \<in> set []. ?A t \<noteq> None"
    by (simp_all add: sz runnable_def room_for_def invoke_kernel_live invoke_fields boot_heap_def free_slot_0)
  have ps: "program_start of_nat 5632 = 0x400000" by (simp add: program_start_def)
  obtain process s' r where r:
    "isr80h_handler (\<lambda>_. fat16_filesystem (image_disk of_nat) 0x600 0x9000) sample_statics [] 7 invoke_frame ?s = User_mode s'"
    "processes s' = (processes ?s)[0 := process]" "current_process s' = process" "user_mode s' = Some r"
    "r_ip r = program_start of_nat 5632" "pr_argc (procs s' process) = of_nat (length [invoke_page])"
    "\<forall>j < length [invoke_page]. argument_at process s' (pr_argv (procs s' process)) j ((?path # []) ! j)"
    using invoke_runs_program[OF invoke_kernel_live(1) invoke_fields(1,4) cur root seg own buf rd image_disk_holds[of of_nat] cl n(1-10)
        invoke_fields(6) n(11), where fs = "0x9000" and polls = "[]"]
    by (elim exE conjE) (rule that)
  have "argument_at process s' (pr_argv (procs s' process)) 0 ?path" using r(7) by simp
  then show ?thesis using r(1-6) by (intro exI[of _ s'] exI[of _ r]) (simp add: ps invoke_fields)
qed

subsection \<open>The arguments of a program\<close>

text \<open>Addresses of one page are translated together.\<close>

lemma physical_offset:
  assumes "unat v mod 4096 + i < 4096"
  shows "paging_get_physical_address m d (v + of_nat i) = paging_get_physical_address m d v + of_nat i"
proof -
  let ?w = "paging_align_to_lower_page v"
  have u: "unat (v mod 4096 + of_nat i) < 4096"
  proof -
    have "unat (v mod 4096) + unat (of_nat i :: u32) < 4294967296" using assms unat_of_nat32[of i] by (simp add: unat_mod)
    then show ?thesis using assms unat_of_nat32[of i] unat_add_no_wrap[of "v mod 4096" "of_nat i"] by (simp add: unat_mod)
  qed
  have "v + of_nat i = ?w + (v mod 4096 + of_nat i)"
    by (simp only: add.assoc[symmetric] lower_page_split(1)[of v, symmetric])
  then have l: "paging_align_to_lower_page (v + of_nat i) = ?w"
    using lower_page_offset[OF lower_page(1)[of v] u] by (simp only:)
  show ?thesis unfolding paging_get_physical_address_def Let_def l by (simp add: algebra_simps)
qed

lemma read32_virtual:
  assumes "unat v mod 4096 + 4 \<le> 4096"
  shows "read32 (virtual_memory m d) v = read32 m (paging_get_physical_address m d v)"
proof -
  have o: "paging_get_physical_address m d (v + 1) = paging_get_physical_address m d v + 1"
    "paging_get_physical_address m d (v + 2) = paging_get_physical_address m d v + 2"
    "paging_get_physical_address m d (v + 3) = paging_get_physical_address m d v + 3"
    using assms physical_offset[of v 1 m d] physical_offset[of v 2 m d] physical_offset[of v 3 m d] by simp_all
  show ?thesis by (simp add: read32_def virtual_memory_def o)
qed

lemma command8_runs:
  fixes s :: "'z kernel_state_scheme"
  assumes tab: "isr80h_commands s = map Some system_commands @ replicate 1011 None" "current_task s \<noteq> 0"
    and v: "v = read32 (virtual_memory (mem s) (task_directory s)) (f_esp frame)" "x = task_virtual_address_to_physical (current_task s) v s"
    and p: "p = t_process (tasks s (current_task s))"
    and m: "m = write32 (write32 (mem s) x (pr_argc (procs s p))) (x + 4) (pr_argv (procs s p))"
  shows "isr80h_handler ops k polls 8 frame s = Returns 0 (task_page ((call_state frame s)\<lparr>mem := m\<rparr>))"
proof -
  let ?t = "upd_task (current_task s) (\<lambda>t. t\<lparr>t_registers := frame_registers frame\<rparr>) (kernel_page s)"
  have item: "stack_item 0 ?t = (v, call_state frame s)"
    unfolding stack_item_eq call_state_def v(1) by (simp add: task_directory_def upd_task_def frame_registers_def)
  have arg: "task_virtual_address_to_physical (task_current (call_state frame s)) v (call_state frame s) = x"
    unfolding v(2) task_current_def by simp
  have cp: "current_proc ?t = p" by (simp add: p current_proc_def upd_task_def task_current_def)
  have "isr80h_handle_command ops k polls 8 ?t = isr80h_command8_get_program_arguments ?t"
    using tab(1) by (simp add: isr80h_handle_command_def nth_append system_commands_def upd_task_def)
  also have "\<dots> = Returns 0 ((call_state frame s)\<lparr>mem := m\<rparr>)"
    unfolding isr80h_command8_get_program_arguments_def item Let_def prod.case arg cp process_get_arguments_def m by simp
  finally have h: "isr80h_handle_command ops k polls 8 ?t = Returns 0 ((call_state frame s)\<lparr>mem := m\<rparr>)" .
  have "task_current_save_state frame (kernel_page s) = Some ?t"
    using save_state_eq[of "kernel_page s" frame] tab(2) by simp
  then show ?thesis by (simp add: isr80h_handler_def h)
qed

lemma task_page_keeps [simp]:
  "proc_mem_ok p (task_page s) A = proc_mem_ok p s A" "avail (task_page s) = avail s" "proc_entry p (task_page s) w = proc_entry p s w"
  by (simp_all add: proc_mem_ok_def task_page_def task_switch_def paging_switch_def Let_def
      live_regions_def kheap_ok_def avail_def space_live_def proc_entry_def)

lemma call_state_directory: "t_page_directory (tasks (call_state frame s) t) = t_page_directory (tasks s t)"
  by (simp add: call_state_def upd_task_def)

lemma call_state_keeps [simp]:
  "proc_mem_ok p ((call_state frame s)\<lparr>mem := m\<rparr>) A = proc_mem_ok p (s\<lparr>mem := m\<rparr>) A"
  "avail ((call_state frame s)\<lparr>mem := m\<rparr>) = avail (s\<lparr>mem := m\<rparr>)"
  "proc_entry p ((call_state frame s)\<lparr>mem := m\<rparr>) w = proc_entry p (s\<lparr>mem := m\<rparr>) w"
  by (simp_all add: proc_mem_ok_def live_regions_def kheap_ok_def avail_def space_live_def proc_entry_def call_state_directory)

text \<open>
  C2: system call 8 gives a program the arguments it was started with: at the struct whose address it passes, inside its own memory,
  the program then reads \<^verbatim>\<open>argc\<close> and \<^verbatim>\<open>argv\<close> of its process.  No other byte and no translation changes, and
  the process stays consistent with the heap.
\<close>

theorem isr80h_get_arguments:
  fixes s :: "'z kernel_state_scheme"
  assumes "isr80h_commands s = map Some system_commands @ replicate 1011 None" "current_task s \<noteq> 0"
    and "t_process (tasks s (current_task s)) = p" "pr_task (procs s p) = current_task s" "proc_mem_ok p s A"
    and "v = read32 (virtual_memory (mem s) (task_directory s)) (f_esp frame)" "unat v mod 4096 \<le> 4088"
    and "x = task_virtual_address_to_physical (current_task s) v s" "\<forall>a. in_range x 8 a \<longrightarrow> held p s A a"
  shows "\<exists>s'. isr80h_handler ops k polls 8 frame s = Returns 0 s' \<and> cr3 s' = task_directory s' \<and>
     read32 (virtual_memory (mem s') (task_directory s')) v = pr_argc (procs s p) \<and>
     read32 (virtual_memory (mem s') (task_directory s')) (v + 4) = pr_argv (procs s p) \<and>
     procs s' = procs s \<and> proc_mem_ok p s' A \<and> avail s' = avail s \<and>
     (\<forall>w. page_aligned w \<longrightarrow> proc_entry p s' w = proc_entry p s w) \<and> (\<forall>a. \<not> in_range x 8 a \<longrightarrow> mem s' a = mem s a)"
proof -
  define m where "m = write32 (write32 (mem s) x (pr_argc (procs s p))) (x + 4) (pr_argv (procs s p))"
  let ?s' = "task_page ((call_state frame s)\<lparr>mem := m\<rparr>)"
  have run: "isr80h_handler ops k polls 8 frame s = Returns 0 ?s'"
    by (rule command8_runs[OF assms(1,2,6,8) assms(3)[symmetric] m_def])
  have sub: "in_range x 8 a" if "in_range x 4 a \<or> in_range (x + 4) 4 a" for a
    using that in_range_mono[of x 4 a 8] in_range_sub[of x 4 4 a 8] by auto
  have out: "m a = mem s a" if "\<not> in_range x 8 a" for a
  proof -
    have "\<not> in_range x 4 a" "\<not> in_range (x + 4) 4 a" using that sub by blast+
    then show ?thesis unfolding m_def by (simp add: write32_outside)
  qed
  have w: "m a = mem s a" if "\<not> held p s A a" for a by (rule out) (use assms(9) that in blast)
  have hw: "proc_mem_ok p (s\<lparr>mem := m\<rparr>) A" "avail (s\<lparr>mem := m\<rparr>) = avail s"
    "page_aligned u \<Longrightarrow> proc_entry p (s\<lparr>mem := m\<rparr>) u = proc_entry p s u" for u
    by (rule held_write[OF assms(5)], erule w)+ 
  have ch: "proc_chunk p s = t_page_directory (tasks s (current_task s))" by (simp add: assms(4))
  have dir: "task_directory ?s' = read32 m (proc_chunk p s)"
    by (simp add: task_directory_def assms(4)) (simp add: call_state_def upd_task_def)
  have phys: "paging_get_physical_address m (read32 m (proc_chunk p s)) v = x"
  proof -
    have "proc_entry p (s\<lparr>mem := m\<rparr>) (paging_align_to_lower_page v) = proc_entry p s (paging_align_to_lower_page v)"
      by (rule hw(3)) (rule lower_page(1))
    then show ?thesis
      unfolding assms(8) task_virtual_address_to_physical_def paging_get_physical_address_def Let_def
      by (simp add: proc_entry_def assms(4))
  qed
  have phys4: "paging_get_physical_address m (read32 m (proc_chunk p s)) (v + 4) = x + 4"
    using physical_offset[of v 4 m "read32 m (proc_chunk p s)"] assms(7) phys by simp
  have ap: "disjoint_ranges x 4 (x + 4) 4"
    using word_slots_apart[of 0 1 x] by simp
  have rd: "read32 m x = pr_argc (procs s p)" "read32 m (x + 4) = pr_argv (procs s p)"
    unfolding m_def using read32_write32_disjoint[OF ap] by simp_all
  have v4: "unat v mod 4096 + 4 \<le> 4096" "unat (v + 4) mod 4096 + 4 \<le> 4096"
  proof -
    define q r where "q = unat v div 4096" and "r = unat v mod 4096"
    have e: "unat v = q * 4096 + r" "r \<le> 4088" using assms(7) by (simp_all add: q_def r_def)
    have "q < 1048576" using unat32_lt[of v] by (simp add: q_def less_mult_imp_div_less)
    then have "unat v + 4 < 4294967296" using e by linarith
    then have "unat (v + 4) = q * 4096 + (r + 4)" using unat_add_no_wrap[of v 4] e(1) by simp
    then have "unat (v + 4) mod 4096 = r + 4" using e(2) by (simp only: mod_mult_self3) simp
    then show "unat (v + 4) mod 4096 + 4 \<le> 4096" using e(2) by simp
  qed (use assms(7) in simp)
  have mem: "mem ?s' = m" "procs ?s' = procs s" by simp_all
  have pm: "proc_mem_ok p ?s' A" "avail ?s' = avail s" "proc_entry p ?s' u = proc_entry p (s\<lparr>mem := m\<rparr>) u" for u
    using hw(1,2) by simp_all
  show ?thesis
  proof (intro exI[of _ ?s'] conjI allI impI run)
    show "cr3 ?s' = task_directory ?s'" by (simp add: task_directory_def)
    show "read32 (virtual_memory (mem ?s') (task_directory ?s')) v = pr_argc (procs s p)"
      unfolding mem dir read32_virtual[OF v4(1)] phys by (rule rd)
    show "read32 (virtual_memory (mem ?s') (task_directory ?s')) (v + 4) = pr_argv (procs s p)"
      unfolding mem dir read32_virtual[OF v4(2)] phys4 by (rule rd)
    show "proc_entry p ?s' u = proc_entry p s u" if "page_aligned u" for u unfolding pm(3) by (rule hw(3)[OF that])
    show "mem ?s' a = mem s a" if "\<not> in_range x 8 a" for a unfolding mem by (rule out[OF that])
  qed (rule mem pm)+
qed

text \<open>The program of \<open>invoke_kernel\<close> with two arguments; it passes the start of its page as the struct.\<close>

definition started_kernel :: kernel_state where
  "started_kernel = invoke_kernel\<lparr>procs := \<lambda>_. zero_process\<lparr>pr_task := 0x700, pr_argc := 2, pr_argv := 0x1002000\<rparr>\<rparr>"

lemma started_fields:
  "kernel_heap started_kernel = boot_heap" "mem started_kernel = invoke_memory" "current_task started_kernel = 0x700"
  "isr80h_commands started_kernel = map Some system_commands @ replicate 1011 None"
  "tasks started_kernel 0x700 = zero_task\<lparr>t_page_directory := fst invoke_space\<rparr>"
  "procs started_kernel p = zero_process\<lparr>pr_task := 0x700, pr_argc := 2, pr_argv := 0x1002000\<rparr>"
  "live_regions started_kernel A = live_regions invoke_kernel A"
  using invoke_fields(1-5) by (simp_all add: started_kernel_def live_regions_def kheap_ok_def)

lemma started_space:
  "space_pages invoke_memory (fst invoke_space) = space_pages (mem (snd invoke_space)) (fst invoke_space)"
  "proc_mem_ok 0 started_kernel invoke_live" "\<And>a. in_range invoke_page 8 a \<Longrightarrow> held 0 started_kernel invoke_live a"
proof -
  have same: "\<forall>q \<in> space_pages (mem (snd invoke_heap)) (fst invoke_space). \<forall>a. in_range q 4096 a \<longrightarrow>
      invoke_memory a = mem (snd invoke_heap) a" by (rule invoke_space_same)
  show sp: "space_pages invoke_memory (fst invoke_space) = space_pages (mem (snd invoke_space)) (fst invoke_space)"
    using space_cong(3)[OF same] invoke_heap_ok(5) by simp
  have "invoke_live q = Some 4096" if "q \<in> space_pages (mem (snd invoke_space)) (fst invoke_space)" for q
    using that invoke_heap_ok(8) by simp
  moreover have "space_ok invoke_memory (fst invoke_space)" using invoke_kernel_live(3) by (simp add: linear_space_def)
  ultimately have sl: "space_live started_kernel invoke_live (fst invoke_space)"
    by (simp add: space_live_def started_fields sp)
  have al: "allocs_ok invoke_live S (pr_allocations zero_process)" for S by (rule zero_process_allocs)
  show "proc_mem_ok 0 started_kernel invoke_live"
    using invoke_kernel_live(1) sl al by (simp add: proc_mem_ok_def started_fields)
  show "held 0 started_kernel invoke_live a" if "in_range invoke_page 8 a" for a
    unfolding held_def using in_range_mono[OF that, of 4096] invoke_heap_ok(8)
    by (intro exI[of _ invoke_page] exI[of _ 4096]) (simp add: started_fields sp)
qed

lemma invoke_page_aligned: "page_aligned invoke_page"
proof -
  obtain c s1 where c: "paging_new_4gb mounted_procs 5 = (c, s1)" by fastforce
  obtain p s2 where z: "kzalloc s1 4096 = (p, s2)" by fastforce
  have av: "1026 \<le> avail mounted_procs" by (simp add: mounted_procs_fields mounted_heap)
  note n = paging_new_4gb_ok[OF mounted_heap(1)[folded mounted_procs_fields(1)] av c]
  have sz: "0 < unat (4096 :: u32)" "unat (4096 :: u32) \<le> 4096" "0 < avail s1"
    using n(3) by (simp_all add: mounted_procs_fields mounted_heap)
  show ?thesis using kpages.alloc_page[OF n(2) sz z] by (simp add: invoke_heap_def invoke_space_def c z)
qed

theorem isr80h_get_arguments_witness:
  "\<exists>s'. isr80h_handler (\<lambda>_. sample_driver) sample_statics [] 8 invoke_frame started_kernel = Returns 0 s' \<and>
     read32 (virtual_memory (mem s') (task_directory s')) invoke_page = 2 \<and>
     read32 (virtual_memory (mem s') (task_directory s')) (invoke_page + 4) = 0x1002000"
proof -
  let ?s = started_kernel
  have dir: "task_directory ?s = read32 invoke_memory (fst invoke_space)"
    by (simp add: task_directory_def started_fields zero_task_def)
  have id: "paging_get_physical_address invoke_memory (read32 invoke_memory (fst invoke_space)) v = v" for v
    using linear_space_identity[OF invoke_kernel_live(3), of v] by (simp add: paging_4gb_chunk_get_directory_def)
  have vm: "virtual_memory (mem ?s) (task_directory ?s) = invoke_memory"
    by (simp add: virtual_memory_def fun_eq_iff dir started_fields id)
  have cur: "current_task ?s \<noteq> 0" "t_process (tasks ?s (current_task ?s)) = 0" "pr_task (procs ?s 0) = current_task ?s"
    by (simp_all add: started_fields zero_task_def)
  have v: "invoke_page = read32 (virtual_memory (mem ?s) (task_directory ?s)) (f_esp invoke_frame)"
    unfolding vm by (simp add: invoke_frame_def invoke_memory_page(3))
  have x: "invoke_page = task_virtual_address_to_physical (current_task ?s) invoke_page ?s"
    by (simp add: task_virtual_address_to_physical_def started_fields zero_task_def id)
  have al: "unat invoke_page mod 4096 \<le> 4088" using invoke_page_aligned by simp
  have hd: "\<forall>a. in_range invoke_page 8 a \<longrightarrow> held 0 ?s invoke_live a" using started_space(3) by blast
  from isr80h_get_arguments[OF started_fields(4) cur started_space(2) v al x hd, of "\<lambda>_. sample_driver" sample_statics "[]"]
  show ?thesis by (auto simp: started_fields)
qed

end
