(* ===== verification/Boi_User.thy ===== *)
theory Boi_User
  imports Boi_Command
begin

text \<open>
  The rest of the user library (\<^verbatim>\<open>src/programs/stdlib\<close>) and the sample program: strings and memory, which agree with the
  kernel's, the functions that only ask the kernel, and the start of a program.
\<close>

subsection \<open>Strings and memory\<close>

text \<open>
  \<^verbatim>\<open>string.c\<close> and \<^verbatim>\<open>memory.c\<close> of the user library, linked into each program: their loops as they are written there.
\<close>

partial_function (option) user_strlen_loop :: "memory \<Rightarrow> addr \<Rightarrow> u32 \<Rightarrow> u32 option" where
  "user_strlen_loop m str len = (if m (str + len) \<noteq> 0 then user_strlen_loop m str (len + 1) else Some len)"

definition user_strlen :: "memory \<Rightarrow> addr \<Rightarrow> u32 option" where
  "user_strlen m str = user_strlen_loop m str 0"

function user_strnlen_loop :: "memory \<Rightarrow> addr \<Rightarrow> u32 \<Rightarrow> nat \<Rightarrow> nat" where
  "user_strnlen_loop m str mx i =
     (if i < unat mx then (if m (str + of_nat i) = 0 then i else user_strnlen_loop m str mx (Suc i)) else i)"
  by pat_completeness auto
termination
  by (relation "measure (\<lambda>(m, str, mx, i). unat mx - i)") auto

declare user_strnlen_loop.simps [simp del]

definition user_strnlen :: "memory \<Rightarrow> addr \<Rightarrow> u32 \<Rightarrow> u32" where
  "user_strnlen m str mx = of_nat (user_strnlen_loop m str mx 0)"

partial_function (option) user_strnlen_terminator_loop :: "memory \<Rightarrow> addr \<Rightarrow> u8 \<Rightarrow> u32 \<Rightarrow> u32 option" where
  "user_strnlen_terminator_loop m str terminator len =
     (if m (str + len) \<noteq> 0 \<and> m (str + len) \<noteq> terminator
      then user_strnlen_terminator_loop m str terminator (len + 1) else Some len)"

definition user_strnlen_terminator :: "memory \<Rightarrow> addr \<Rightarrow> u32 \<Rightarrow> u8 \<Rightarrow> u32 option" where
  "user_strnlen_terminator m str mx terminator =
     map_option (\<lambda>len. if len > mx then mx else len) (user_strnlen_terminator_loop m str terminator 0)"

definition user_isdigit :: "u8 \<Rightarrow> bool" where
  "user_isdigit c \<longleftrightarrow> sint c \<ge> 48 \<and> sint c \<le> 57"

definition user_tonumericdigit :: "u8 \<Rightarrow> int" where
  "user_tonumericdigit c = sint c - 48"

partial_function (option) user_strcpy_loop :: "memory \<Rightarrow> addr \<Rightarrow> addr \<Rightarrow> memory option" where
  "user_strcpy_loop m dest src =
     (if m src \<noteq> 0 then user_strcpy_loop (m(dest := m src)) (dest + 1) (src + 1) else Some (m(dest := 0)))"

definition user_strcpy :: "memory \<Rightarrow> addr \<Rightarrow> addr \<Rightarrow> memory option" where
  "user_strcpy m dest src = user_strcpy_loop m dest src"

function user_strncpy_loop :: "memory \<Rightarrow> addr \<Rightarrow> addr \<Rightarrow> int \<Rightarrow> nat \<Rightarrow> memory" where
  "user_strncpy_loop m dest src count i =
     (if int i < count - 1
      then if m (src + of_nat i) = 0 then m(dest + of_nat i := 0)
           else user_strncpy_loop (m(dest + of_nat i := m (src + of_nat i))) dest src count (Suc i)
      else m(dest + of_nat i := 0))"
  by pat_completeness auto
termination
  by (relation "measure (\<lambda>(m, dest, src, count, i). nat (count - 1) - i)") auto

declare user_strncpy_loop.simps [simp del]

definition user_strncpy :: "memory \<Rightarrow> addr \<Rightarrow> addr \<Rightarrow> int \<Rightarrow> memory" where
  "user_strncpy m dest src count = user_strncpy_loop m dest src count 0"

definition user_tolower :: "u8 \<Rightarrow> u8" where
  "user_tolower c = (if sint c \<ge> 65 \<and> sint c \<le> 90 then c + 32 else c)"

fun user_istrncmp_loop :: "memory \<Rightarrow> addr \<Rightarrow> addr \<Rightarrow> nat \<Rightarrow> int" where
  "user_istrncmp_loop m str1 str2 0 = 0"
| "user_istrncmp_loop m str1 str2 (Suc n) =
     (let u1 = m str1; u2 = m str2 in
      if u1 \<noteq> u2 \<and> user_tolower u1 \<noteq> user_tolower u2 then uint u1 - uint u2
      else if u1 = 0 then 0
      else user_istrncmp_loop m (str1 + 1) (str2 + 1) n)"

definition user_istrncmp :: "memory \<Rightarrow> addr \<Rightarrow> addr \<Rightarrow> int \<Rightarrow> int" where
  "user_istrncmp m str1 str2 n = user_istrncmp_loop m str1 str2 (nat n)"

fun user_strncmp_loop :: "memory \<Rightarrow> addr \<Rightarrow> addr \<Rightarrow> nat \<Rightarrow> int" where
  "user_strncmp_loop m str1 str2 0 = 0"
| "user_strncmp_loop m str1 str2 (Suc n) =
     (let u1 = m str1; u2 = m str2 in
      if u1 \<noteq> u2 then uint u1 - uint u2
      else if u1 = 0 then 0
      else user_strncmp_loop m (str1 + 1) (str2 + 1) n)"

definition user_strncmp :: "memory \<Rightarrow> addr \<Rightarrow> addr \<Rightarrow> int \<Rightarrow> int" where
  "user_strncmp m str1 str2 n = user_strncmp_loop m str1 str2 (nat n)"

function user_memset_loop :: "memory \<Rightarrow> addr \<Rightarrow> u8 \<Rightarrow> u32 \<Rightarrow> nat \<Rightarrow> memory" where
  "user_memset_loop m p c sz i =
     (if i < unat sz then user_memset_loop (m(p + of_nat i := c)) p c sz (Suc i) else m)"
  by pat_completeness auto
termination
  by (relation "measure (\<lambda>(m, p, c, sz, i). unat sz - i)") auto

declare user_memset_loop.simps [simp del]

definition user_memset :: "memory \<Rightarrow> addr \<Rightarrow> int \<Rightarrow> u32 \<Rightarrow> memory" where
  "user_memset m p c sz = user_memset_loop m p (word_of_int c) sz 0"

fun user_memcmp_loop :: "memory \<Rightarrow> addr \<Rightarrow> addr \<Rightarrow> nat \<Rightarrow> int" where
  "user_memcmp_loop m c1 c2 0 = 0"
| "user_memcmp_loop m c1 c2 (Suc n) =
     (if m c1 \<noteq> m c2 then (if sint (m c1) < sint (m c2) then - 1 else 1)
      else user_memcmp_loop m (c1 + 1) (c2 + 1) n)"

definition user_memcmp :: "memory \<Rightarrow> addr \<Rightarrow> addr \<Rightarrow> int \<Rightarrow> int" where
  "user_memcmp m s1 s2 count = user_memcmp_loop m s1 s2 (nat count)"

function user_memcpy :: "memory \<Rightarrow> addr \<Rightarrow> addr \<Rightarrow> u32 \<Rightarrow> memory" where
  "user_memcpy m d s len = (if len \<noteq> 0 then user_memcpy (m(d := m s)) (d + 1) (s + 1) (len - 1) else m)"
  by pat_completeness auto
termination
  by (relation "measure (\<lambda>(m, d, s, len). unat len)") (auto intro: measure_unat)

declare user_memcpy.simps [simp del]

text \<open>They compute what the kernel's compute, so all lemmas about those apply to programs.\<close>

named_theorems user_kernel

lemma option_eqI: "(\<And>y. a = Some y \<Longrightarrow> b = Some y) \<Longrightarrow> (\<And>y. b = Some y \<Longrightarrow> a = Some y) \<Longrightarrow> a = b"
  by (metis option.exhaust)

lemma user_strlen_kernel [user_kernel]: "user_strlen = strlen"
proof (intro ext)
  fix m str
  have "user_strlen_loop m str 0 = strlen_loop m str 0"
  proof (rule option_eqI)
    show "strlen_loop m str l = Some y" if "user_strlen_loop m str l = Some y" for l y
      by (rule user_strlen_loop.raw_induct[OF _ that]) (subst strlen_loop.simps, auto split: if_splits)
    show "user_strlen_loop m str l = Some y" if "strlen_loop m str l = Some y" for l y
      by (rule strlen_loop.raw_induct[OF _ that]) (subst user_strlen_loop.simps, auto split: if_splits)
  qed
  then show "user_strlen m str = strlen m str" by (simp add: user_strlen_def strlen_def)
qed

lemma user_strnlen_kernel [user_kernel]: "user_strnlen = strnlen"
proof (intro ext)
  fix m str mx
  have "user_strnlen_loop m str mx i = strnlen_loop m str mx i" for i
    by (induction m str mx i rule: strnlen_loop.induct) (subst strnlen_loop.simps, subst user_strnlen_loop.simps, simp)
  then show "user_strnlen m str mx = strnlen m str mx" by (simp add: user_strnlen_def strnlen_def)
qed

lemma user_strnlen_terminator_kernel [user_kernel]: "user_strnlen_terminator = strnlen_terminator"
proof (intro ext)
  fix m str mx t
  have "user_strnlen_terminator_loop m str t 0 = strnlen_terminator_loop m str t 0"
  proof (rule option_eqI)
    show "strnlen_terminator_loop m str t l = Some y" if "user_strnlen_terminator_loop m str t l = Some y" for l y
      by (rule user_strnlen_terminator_loop.raw_induct[OF _ that]) (subst strnlen_terminator_loop.simps, auto split: if_splits)
    show "user_strnlen_terminator_loop m str t l = Some y" if "strnlen_terminator_loop m str t l = Some y" for l y
      by (rule strnlen_terminator_loop.raw_induct[OF _ that]) (subst user_strnlen_terminator_loop.simps, auto split: if_splits)
  qed
  then show "user_strnlen_terminator m str mx t = strnlen_terminator m str mx t"
    by (simp add: user_strnlen_terminator_def strnlen_terminator_def)
qed

lemma user_chars_kernel [user_kernel]:
  "user_isdigit = isdigit" "user_tonumericdigit = tonumericdigit" "user_tolower = tolower"
  by (intro ext, simp add: user_isdigit_def isdigit_def user_tonumericdigit_def tonumericdigit_def user_tolower_def tolower_def)+

lemma user_strcpy_kernel [user_kernel]: "user_strcpy = strcpy"
proof (intro ext)
  fix m d s
  have "user_strcpy_loop m d s = strcpy_loop m d s"
  proof (rule option_eqI)
    show "strcpy_loop m d s = Some y" if "user_strcpy_loop m d s = Some y" for y
      by (rule user_strcpy_loop.raw_induct[OF _ that]) (subst strcpy_loop.simps, auto split: if_splits)
    show "user_strcpy_loop m d s = Some y" if "strcpy_loop m d s = Some y" for y
      by (rule strcpy_loop.raw_induct[OF _ that]) (subst user_strcpy_loop.simps, auto split: if_splits)
  qed
  then show "user_strcpy m d s = strcpy m d s" by (simp add: user_strcpy_def strcpy_def)
qed

lemma user_strncpy_kernel [user_kernel]: "user_strncpy = strncpy"
proof (intro ext)
  fix m d s n a
  have "user_strncpy_loop m d s n i = strncpy_loop m d s n i" for i
    by (induction m d s n i rule: strncpy_loop.induct) (subst strncpy_loop.simps, subst user_strncpy_loop.simps, simp del: fun_upd_apply)
  then show "user_strncpy m d s n a = strncpy m d s n a" by (simp add: user_strncpy_def strncpy_def)
qed

lemma user_compare_kernel [user_kernel]: "user_istrncmp = istrncmp" "user_strncmp = strncmp" "user_memcmp = memcmp"
proof -
  have "user_istrncmp_loop m p q n = istrncmp_loop m p q n" for m p q n
    by (induction m p q n rule: istrncmp_loop.induct) (simp_all add: user_chars_kernel Let_def)
  then show "user_istrncmp = istrncmp" by (intro ext) (simp add: user_istrncmp_def istrncmp_def)
  have "user_strncmp_loop m p q n = strncmp_loop m p q n" for m p q n
    by (induction m p q n rule: strncmp_loop.induct) (simp_all add: Let_def)
  then show "user_strncmp = strncmp" by (intro ext) (simp add: user_strncmp_def strncmp_def)
  have "user_memcmp_loop m p q n = memcmp_loop m p q n" for m p q n
    by (induction m p q n rule: memcmp_loop.induct) simp_all
  then show "user_memcmp = memcmp" by (intro ext) (simp add: user_memcmp_def memcmp_def)
qed

lemma user_memset_kernel [user_kernel]: "user_memset = memset"
proof (intro ext)
  fix m p c n a
  have "user_memset_loop m p x n i = memset_loop m p x n i" for x i
    by (induction m p x n i rule: memset_loop.induct) (subst memset_loop.simps, subst user_memset_loop.simps, simp del: fun_upd_apply)
  then show "user_memset m p c n a = memset m p c n a" by (simp add: user_memset_def memset_def)
qed

lemma user_memcpy_kernel [user_kernel]: "user_memcpy = memcpy"
proof (intro ext)
  fix m d s n a
  have "user_memcpy m d s n = memcpy m d s n"
    by (induction m d s n rule: memcpy.induct) (subst memcpy.simps, subst user_memcpy.simps, simp del: fun_upd_apply)
  then show "user_memcpy m d s n a = memcpy m d s n a" by simp
qed

subsection \<open>System calls from a program\<close>

text \<open>
  What a program asks the kernel for; the stubs of \<^verbatim>\<open>boios.asm\<close> are a parameter \<open>sys\<close>, which takes the
  request and the state and gives the result in \<^verbatim>\<open>eax\<close> and the state after the call, or \<open>None\<close> when it does not return.
\<close>

datatype request =
    Ask_print addr
  | Ask_getkey
  | Ask_putchar u8
  | Ask_malloc u32
  | Ask_free addr
  | Ask_arguments addr
  | Ask_fopen addr
  | Ask_sleep u32
  | Ask_clear

type_synonym 's kernel_stub = "request \<Rightarrow> 's \<Rightarrow> (u32 \<times> 's) option"

definition malloc :: "'s kernel_stub \<Rightarrow> u32 \<Rightarrow> 's \<Rightarrow> (addr \<times> 's) option" where
  "malloc sys sz s = sys (Ask_malloc sz) s"

definition user_free :: "'s kernel_stub \<Rightarrow> addr \<Rightarrow> 's \<Rightarrow> 's option" where
  "user_free sys p s = map_option snd (sys (Ask_free p) s)"

definition putchar :: "'s kernel_stub \<Rightarrow> u32 \<Rightarrow> 's \<Rightarrow> (int \<times> 's) option" where
  "putchar sys c s = map_option (\<lambda>(r, s). (0, s)) (sys (Ask_putchar (ucast c)) s)"

definition clrscr :: "'s kernel_stub \<Rightarrow> 's \<Rightarrow> 's option" where
  "clrscr sys s = map_option snd (sys Ask_clear s)"

definition user_sleep :: "'s kernel_stub \<Rightarrow> u32 \<Rightarrow> 's \<Rightarrow> 's option" where
  "user_sleep sys millis s = map_option snd (sys (Ask_sleep millis) s)"

text \<open>\<^verbatim>\<open>fopen\<close>, with what its \<^verbatim>\<open>printf\<close> sends to the terminal; \<open>fmt\<close> is the literal and \<open>digits\<close> the buffer of \<^verbatim>\<open>itoa\<close>.\<close>

definition user_fopen ::
    "('z kmem_scheme) kernel_stub \<Rightarrow> addr \<Rightarrow> u8 list \<Rightarrow> addr \<Rightarrow> 'z kmem_scheme \<Rightarrow> (int \<times> terminal_output list \<times> 'z kmem_scheme) option" where
  "user_fopen sys fmt digits path s =
     do {
       (test, s) \<leftarrow> sys (Ask_fopen path) s;
       out \<leftarrow> (if test \<noteq> 0 then printf (mem s) fmt [Int_arg (sint test)] digits else Some []);
       Some (sint test, out, s)
     }"

partial_function (option) boios_getkeyblock :: "'s kernel_stub \<Rightarrow> 's \<Rightarrow> (u32 \<times> 's) option" where
  "boios_getkeyblock sys s =
     do {
       (val, s) \<leftarrow> sys Ask_getkey s;
       if val = 0 then boios_getkeyblock sys s else Some (val, s)
     }"

text \<open>The start of every program; \<open>arguments\<close> is the struct on its stack, and \<open>main\<close> returns a state or does not.\<close>

definition c_start ::
    "('z kmem_scheme) kernel_stub \<Rightarrow> addr \<Rightarrow> (int \<Rightarrow> addr \<Rightarrow> 'z kmem_scheme \<Rightarrow> (int \<times> 'z kmem_scheme) option) \<Rightarrow>
     'z kmem_scheme \<Rightarrow> 'z kmem_scheme option" where
  "c_start sys arguments main s =
     do {
       (r, s) \<leftarrow> sys (Ask_arguments arguments) s;
       (res, s) \<leftarrow> main (sint (read32 (mem s) arguments)) (read32 (mem s) (arguments + 4)) s;
       Some s
     }"

text \<open>The sample program (\<^verbatim>\<open>src/programs/blank/echo.c\<close>): a round of its loop, and the loop.\<close>

definition echo_round :: "('z kmem_scheme) kernel_stub \<Rightarrow> addr \<Rightarrow> 'z kmem_scheme \<Rightarrow> 'z kmem_scheme option" where
  "echo_round sys argv s =
     do {
       s \<leftarrow> user_sleep sys 1000 s;
       (r, s) \<leftarrow> sys (Ask_print (read32 (mem s) argv)) s;
       Some s
     }"

partial_function (option) echo_main ::
    "('z kmem_scheme) kernel_stub \<Rightarrow> int \<Rightarrow> addr \<Rightarrow> 'z kmem_scheme \<Rightarrow> (int \<times> 'z kmem_scheme) option" where
  "echo_main sys argc argv s =
     do {
       s \<leftarrow> echo_round sys argv s;
       echo_main sys argc argv s
     }"

subsection \<open>Properties\<close>

lemma getkeyblock_waits:
  "sys Ask_getkey s = Some (0, s') \<Longrightarrow> boios_getkeyblock sys s = boios_getkeyblock sys s'"
  "sys Ask_getkey s = Some (c, s') \<Longrightarrow> c \<noteq> 0 \<Longrightarrow> boios_getkeyblock sys s = Some (c, s')"
  by (simp_all add: boios_getkeyblock.simps[of sys s])

text \<open>The key it returns is never NUL, and it is what the last of its calls gave.\<close>

lemma getkeyblock_key:
  assumes "boios_getkeyblock sys s = Some (c, s')"
  shows "c \<noteq> 0 \<and> (\<exists>s1. sys Ask_getkey s1 = Some (c, s'))"
proof -
  have "fst y \<noteq> 0 \<and> (\<exists>s1. sys Ask_getkey s1 = Some y)" if "boios_getkeyblock sys s = Some y" for y
    by (rule boios_getkeyblock.raw_induct[OF _ that]) (fastforce split: bind_splits if_splits)
  from this[OF assms] show ?thesis by simp
qed

text \<open>The loop of the sample program never ends.\<close>

lemma echo_main_runs: "echo_main sys argc argv s = None"
proof (rule ccontr)
  assume "echo_main sys argc argv s \<noteq> None"
  then obtain y where "echo_main sys argc argv s = Some y" by blast
  then show False by (rule echo_main.raw_induct[rotated, where P = "\<lambda>_ _ _ _ _. False"]) (auto split: bind_splits)
qed

lemma user_fopen_message:
  assumes "sys (Ask_fopen path) s = Some (test, s')" "test \<noteq> 0" "cstr (mem s') fmt [37, 100, 10]"
  shows "user_fopen sys fmt digits path s = Some (sint test, [Put_char 100, Put_char 10], s')"
proof -
  have a: "fmt + 1 + 1 = fmt + 2" "fmt + 1 + 1 + 1 = 3 + fmt" by simp_all
  have c: "mem s' fmt = 37" "mem s' (fmt + 1) = 100" "mem s' (fmt + 2) = 10" "mem s' (3 + fmt) = 0"
    using assms(3) unfolding a[symmetric] by simp_all
  have "printf (mem s') fmt args digits = Some [Put_char 100, Put_char 10]" for args
    unfolding printf_def by (simp add: printf_loop.simps[of _ fmt] printf_loop.simps[of _ "fmt + 2"]
      printf_loop.simps[of _ "3 + fmt"] c)
  then show ?thesis using assms(1,2) by (simp add: user_fopen_def)
qed

end
