(* ===== verification/Spec2Isabelle.thy ===== *)
theory Spec2Isabelle
  imports Boi_Prelude Boi_Memory Boi_String Boi_Heap Boi_Kheap Boi_Paging Boi_Gdt
    Boi_Terminal Boi_Pit Boi_Path Boi_Blocks Boi_Disk Boi_Fat16 Boi_Mount Boi_File Boi_Elf Boi_Task Boi_Process Boi_Lifecycle
    Boi_Idt Boi_Keyboard Boi_Isr80h Boi_Kernel Boi_Stdlib Boi_Command Boi_Loader Boi_Exec Boi_Invoke Boi_User
begin

text \<open>
  A verification library for boiOS, a 32-bit kernel with paging, preemptible user processes, a
  FAT16 driver and a small user library.  Paths are relative to the repository's
  \<^verbatim>\<open>src\<close> directory.

  \<^bold>\<open>The program.\<close>  \<^verbatim>\<open>src/kernel.c\<close> boots: it blanks the terminal, encodes the segment
  descriptors, creates the heap, mounts the disk, fills the interrupt table, starts the
  timer, builds the address space of the kernel, registers the system commands and the
  keyboard, and loads the shell.  From then on the kernel runs only in the two handlers
  of \<^verbatim>\<open>src/idt/idt.c\<close>: \<^verbatim>\<open>interrupt_handler\<close> calls the callback of an interrupt (timer,
  keyboard, or the termination of a process that caused an exception), \<^verbatim>\<open>isr80h_handler\<close>
  runs a system command for a program.  Everything in the kernel that is allocated comes from the one
  block heap, and nearly every component hands addresses of heap blocks to the next.

  \<^bold>\<open>The model of the state.\<close>  Memory is one function from 32-bit addresses to bytes
  (\<open>memory\<close>), and everything the code computes on as bytes is in it: the heap table, page
  directories and tables, strings, paths, disk buffers, ELF images, descriptor tables,
  the screen.  Structs that are only used through typed pointers are records in a store from
  addresses to records (file system objects, descriptors, tasks, processes, keyboards);
  their addresses still come from the heap in memory.  The state grows by record
  extension in the order of the components: \<open>kmem\<close> (memory and heap), \<open>pmem\<close> (paging),
  \<open>stream_state\<close>, \<open>fat_state\<close>, \<open>file_state\<close>, \<open>elf_state\<close>, \<open>task_state\<close>,
  \<open>process_state\<close>, \<open>kernel_state\<close>; an operation works on every extension of its own state.
  Integers have the width of their C type and wrap; \<^verbatim>\<open>int\<close> results that are error codes are
  integers, the codes of \<^verbatim>\<open>status.h\<close> are the datatype \<open>kerror\<close>.  A call that may never return
  (a scan without a bound, a wait for the disk, a panic) has an option as its result, \<open>None\<close>
  for not returning; handlers distinguish a return from the switch to user mode (\<open>outcome\<close>).

  \<^bold>\<open>Theories\<close>, each with the source it models:
    \<^item> \<open>Boi_Prelude\<close>: words, byte ranges, little-endian reads and writes, C strings in memory;
      the simp collection \<open>mem_simps\<close>.
    \<^item> \<open>Boi_Memory\<close>, \<open>Boi_String\<close>: \<^verbatim>\<open>memory/memory.c\<close>, \<^verbatim>\<open>string/string.c\<close>; every loop on a string
      agrees with the list of its bytes.
    \<^item> \<open>Boi_Heap\<close>, \<open>Boi_Kheap\<close>: \<^verbatim>\<open>memory/heap\<close>.  The table refines a map of live allocations
      (\<open>heap_inv\<close>); the locale \<open>page_allocator\<close> states what clients of up to a page rely on and is
      interpreted on \<^verbatim>\<open>kzalloc\<close> and \<^verbatim>\<open>kfree\<close> (\<open>kpages\<close>).
    \<^item> \<open>Boi_Paging\<close>: \<^verbatim>\<open>memory/paging\<close>.  The locale \<open>translation_table\<close> is interpreted on
      \<^verbatim>\<open>paging_get\<close> and \<^verbatim>\<open>paging_set\<close> (\<open>pspace\<close>); building and freeing address spaces.
    \<^item> \<open>Boi_Gdt\<close>, \<open>Boi_Terminal\<close>, \<open>Boi_Pit\<close>: \<^verbatim>\<open>gdt/gdt.c\<close>, \<^verbatim>\<open>terminal/terminal.c\<close>, \<^verbatim>\<open>timer/pit.c\<close>; decoding
      of descriptors, the screen as cells, waiting for ticks.
    \<^item> \<open>Boi_Path\<close>: \<^verbatim>\<open>fs/pparser.c\<close>; paths against linked lists in the heap.
    \<^item> \<open>Boi_Blocks\<close>: allocations of several blocks, when a run of free ones is certain (\<open>room_for\<close>).
    \<^item> \<open>Boi_Disk\<close>, \<open>Boi_Fat16\<close>, \<open>Boi_Mount\<close>, \<open>Boi_File\<close>: \<^verbatim>\<open>disk\<close>, \<^verbatim>\<open>fs/fat/fat16.c\<close>, \<^verbatim>\<open>fs/file.c\<close>.  Reads against a disk
      image, with the place of a cluster computed from the volume header (\<open>cluster_at\<close>); what mounting makes of an
      image (\<open>volume_mounted\<close>, \<open>root_ends\<close>); the locales \<open>filesystem_driver\<close> and \<open>file_layer\<close> are the interface of the
      function pointers of \<^verbatim>\<open>struct filesystem\<close> and are interpreted on the FAT16 driver.
    \<^item> \<open>Boi_Elf\<close>: \<^verbatim>\<open>loader/formats\<close>; headers decoded from memory, bounds of the loaded image.
    \<^item> \<open>Boi_Task\<close>: \<^verbatim>\<open>task/task.c\<close>; the doubly linked list against a list of addresses
      (\<open>task_links\<close>, with the tasks whose \<^verbatim>\<open>prev\<close> pointer is stale), the step relation \<open>sched_step\<close> of the scheduler and its runs.
    \<^item> \<open>Boi_Process\<close>: \<^verbatim>\<open>task/process.c\<close>; the agreement of a process's allocation table
      with the heap and its address space (\<open>proc_mem_ok\<close>), the table of processes.
    \<^item> \<open>Boi_Lifecycle\<close>: a process from its mapping to its end, over the components it touches: the segments of
      an ELF program in its address space, and the release of its memory (all but the struct of the process).
    \<^item> \<open>Boi_Idt\<close>, \<open>Boi_Keyboard\<close>, \<open>Boi_Isr80h\<close>: \<^verbatim>\<open>idt/idt.c\<close>, \<^verbatim>\<open>keyboard\<close>, \<^verbatim>\<open>isr80h\<close>.  The locale
      \<open>bounded_queue\<close> is the contract of the keyboard buffer, interpreted on \<^verbatim>\<open>keyboard_push\<close> and
      \<^verbatim>\<open>keyboard_pop\<close> (\<open>kbd\<close>).  Function pointers that the code registers are datatypes of
      the functions it registers.
    \<^item> \<open>Boi_Kernel\<close>: \<^verbatim>\<open>kernel.c\<close>, the boot that composes all of them, from the blank kernel to a mounted disk.
    \<^item> \<open>Boi_Stdlib\<close>: \<^verbatim>\<open>programs/stdlib\<close>; \<^verbatim>\<open>itoa\<close>, line input, \<^verbatim>\<open>strtok\<close> and
      \<^verbatim>\<open>printf\<close> of the user library.
    \<^item> \<open>Boi_Command\<close>: a command line from the keys to the \<^verbatim>\<open>argv\<close> of a program: the loop of
      \<^verbatim>\<open>programs/shell\<close>, \<^verbatim>\<open>boios_system_run\<close>, \<^verbatim>\<open>boios_parse_command\<close>, and \<^verbatim>\<open>process_inject_arguments\<close> against
      the words of the line (\<open>line_words\<close>).
    \<^item> \<open>Boi_Loader\<close>, \<open>Boi_Exec\<close>: from the name of a file to a running process: what loading keeps (\<open>load_frame\<close>), \<^verbatim>\<open>process_load_data\<close> and \<^verbatim>\<open>process_load_switch\<close> on a FAT16 disk.
    \<^item> \<open>Boi_User\<close>: the rest of \<^verbatim>\<open>programs/stdlib\<close> and \<^verbatim>\<open>programs/blank/echo.c\<close>; the library's own strings and memory
      functions are equal to the kernel's (\<open>user_kernel\<close>), the assembly stubs of the system calls are a parameter.
    \<^item> \<open>Boi_Invoke\<close>: system call 7 with all of these under it, from the caller's arguments to user mode in the
      new program, and system call 8, by which the program gets its arguments.
    \<^item> this theory: properties that go through several components, from an interrupt or a
      system call down to the heap and the page tables.

  \<^bold>\<open>Loops and bounds.\<close>  Loops with a bound are recursive functions with a measure or on the
  number of rounds left, so they return; scans that end only at a NUL, lists followed through
  memory and waits for hardware are \<^theory_text>\<open>partial_function (option)\<close>, and the theorems say when they
  return.  There is no fuel.  The busy wait of \<^verbatim>\<open>sleep\<close> and the sleeping system command take the
  list of the ticks that arrive before each poll and return \<open>None\<close> when they still wait at its end.

  \<^bold>\<open>Parameters.\<close>  What the disk controller answers (\<open>ata\<close>), the byte the keyboard sends, the
  addresses of static objects, literals and stack buffers (\<open>statics\<close>, \<open>boot_data\<close>), the
  values of uninitialised variables, and the table of assembly entry points are arguments.

  \<^bold>\<open>Not modelled.\<close>  Assembly (boot loader, loading of descriptor tables and segment
  registers, the interrupt stubs, the switch to user mode beyond the registers it loads), page
  faults and access rights of the processor (an entry is taken as present), interrupts at other places than in
  user mode and in the sleeping command, the bytes of records in typed stores, the
  opening animation of \<^verbatim>\<open>shell.c\<close>, 577 calls of \<^verbatim>\<open>printf\<close> with literal pictures.
\<close>

subsection \<open>What the handlers leave alone\<close>

lemma keyboard_holds_save:
  "keyboard_holds p s q \<Longrightarrow> keyboard_holds p (upd_task t (\<lambda>t. t\<lparr>t_registers := r\<rparr>) s) q"
  by (auto simp: keyboard_holds_def upd_task_def process_current_def task_current_def)

lemma keyboard_holds_out: "keyboard_holds p (port_out a v s) q = keyboard_holds p s q"
  by (simp add: keyboard_holds_def port_out_def process_current_def task_current_def)

lemma classic_handler_tables:
  "interrupt_callbacks (classic_keyboard_handle_interrupt c past sc s) = interrupt_callbacks s"
  "isr80h_commands (classic_keyboard_handle_interrupt c past sc s) = isr80h_commands s"
  by (simp_all add: classic_keyboard_handle_interrupt_def keyboard_push_def keyboard_set_capslock_def
      upd_proc_def Let_def)

text \<open>The interrupts of a list of scancodes, each with the frame it interrupts.\<close>

fun keyboard_interrupts ::
    "statics \<Rightarrow> (u8 \<times> interrupt_frame) list \<Rightarrow> 'z kernel_state_scheme \<Rightarrow> 'z kernel_state_scheme option" where
  "keyboard_interrupts k [] s = Some s"
| "keyboard_interrupts k ((sc, f) # ks) s =
     (case interrupt_handler k sc 0x21 f s of Returns r s \<Rightarrow> keyboard_interrupts k ks s | _ \<Rightarrow> None)"

definition keyboard_ready :: "'z kernel_state_scheme \<Rightarrow> bool" where
  "keyboard_ready s \<longleftrightarrow> interrupt_callbacks s ! 0x21 = Some Classic_keyboard_handle_interrupt \<and>
     isr80h_commands s = map Some system_commands @ replicate 1011 None"

lemma keyboard_interrupt:
  assumes "keyboard_ready s" "keyboard_holds p s q" "sc \<noteq> 84"
    and "length q + length (snd (typed (keyboard_get_capslock (classic_addr k) s) [sc])) \<le> 1024"
  obtains s' where "interrupt_handler k sc 0x21 f s = Returns 0 s'" "keyboard_ready s'"
    "keyboard_holds p s' (q @ snd (typed (keyboard_get_capslock (classic_addr k) s) [sc]))"
    "keyboard_get_capslock (classic_addr k) s' = fst (typed (keyboard_get_capslock (classic_addr k) s) [sc])"
proof -
  let ?c = "classic_addr k"
  let ?s1 = "upd_task (current_task s) (\<lambda>t. t\<lparr>t_registers := frame_registers f\<rparr>) (kernel_page s)"
  let ?s2 = "classic_keyboard_handle_interrupt ?c (past_table k) sc ?s1"
  have ct: "current_task s \<noteq> 0" using assms(2) by (simp add: keyboard_holds_def task_current_def)
  have h1: "keyboard_holds p ?s1 q" by (rule keyboard_holds_save) (simp add: keyboard_holds_paging assms(2))
  have caps: "keyboard_get_capslock ?c ?s1 = keyboard_get_capslock ?c s"
    by (simp add: keyboard_get_capslock_def upd_task_def keyboard_holds_paging)
  have "84 \<notin> set [sc]" using assms(3) by simp
  note ty = typed_run[OF h1 this, of ?c "past_table k", unfolded caps, OF assms(4)]
  have run: "interrupt_handler k sc 0x21 f s = Returns 0 (port_out 0x20 0x20 (task_page ?s2))"
    using assms(1) save_state_eq[of "kernel_page s" f] ct
    by (simp add: interrupt_handler_def keyboard_ready_def upd_task_def Let_def)
  show thesis
  proof (rule that[OF run])
    show "keyboard_ready (port_out 0x20 0x20 (task_page ?s2))"
      using assms(1) by (simp add: keyboard_ready_def port_out_def classic_handler_tables upd_task_def)
    show "keyboard_holds p (port_out 0x20 0x20 (task_page ?s2)) (q @ snd (typed (keyboard_get_capslock ?c s) [sc]))"
      using ty by (simp add: keyboard_holds_out keyboard_holds_paging)
    show "keyboard_get_capslock ?c (port_out 0x20 0x20 (task_page ?s2)) = fst (typed (keyboard_get_capslock ?c s) [sc])"
      using ty by (simp add: keyboard_get_capslock_def port_out_def keyboard_holds_paging)
  qed
qed

lemma typed_Cons:
  "typed caps (sc # scs) =
     (fst (typed (fst (typed caps [sc])) scs), snd (typed caps [sc]) @ snd (typed (fst (typed caps [sc])) scs))"
  by (simp add: Let_def case_prod_beta)

lemma keyboard_interrupts_ok:
  assumes "keyboard_ready s" "keyboard_holds p s q" "84 \<notin> fst ` set ks"
    and "length q + length (snd (typed (keyboard_get_capslock (classic_addr k) s) (map fst ks))) \<le> 1024"
  shows "\<exists>s'. keyboard_interrupts k ks s = Some s' \<and> keyboard_ready s' \<and>
     keyboard_holds p s' (q @ snd (typed (keyboard_get_capslock (classic_addr k) s) (map fst ks)))"
  using assms
proof (induction ks arbitrary: s q)
  case (Cons kf ks)
  obtain sc f where kf: "kf = (sc, f)" by (cases kf)
  let ?caps = "keyboard_get_capslock (classic_addr k) s"
  have sc: "sc \<noteq> 84" using Cons.prems(3) kf by auto
  have split: "typed ?caps (map fst (kf # ks)) = (fst (typed (fst (typed ?caps [sc])) (map fst ks)),
      snd (typed ?caps [sc]) @ snd (typed (fst (typed ?caps [sc])) (map fst ks)))"
    unfolding kf list.map fst_conv by (rule typed_Cons)
  have len: "length q + length (snd (typed ?caps [sc])) \<le> 1024"
    "length (q @ snd (typed ?caps [sc])) + length (snd (typed (fst (typed ?caps [sc])) (map fst ks))) \<le> 1024"
    using Cons.prems(4) unfolding split by simp_all
  obtain s1 where s1: "interrupt_handler k sc 0x21 f s = Returns 0 s1" "keyboard_ready s1"
    "keyboard_holds p s1 (q @ snd (typed ?caps [sc]))"
    "keyboard_get_capslock (classic_addr k) s1 = fst (typed ?caps [sc])"
    by (rule keyboard_interrupt[OF Cons.prems(1,2) sc len(1)])
  have "84 \<notin> fst ` set ks" using Cons.prems(3) by auto
  from Cons.IH[OF s1(2,3) this] len(2) show ?case
    unfolding split s1(4) using s1(1) by (simp add: kf)
qed simp

subsection \<open>Properties\<close>

text \<open>
  C11: what is typed is what a program reads: after the interrupts of the keys, system
  call 2 returns the first typed character, sign-extended, and leaves the others waiting
  in order.
\<close>

theorem typed_key_is_read:
  assumes "interrupt_callbacks s ! 0x21 = Some Classic_keyboard_handle_interrupt"
    and "isr80h_commands s = map Some system_commands @ replicate 1011 None"
    and "keyboard_holds p s []" "84 \<notin> fst ` set ks"
    and "snd (typed (keyboard_get_capslock (classic_addr k) s) (map fst ks)) = c # cs" "length cs < 1024"
  shows "\<exists>s1 s2. keyboard_interrupts k ks s = Some s1 \<and>
     isr80h_handler ops k polls 2 frame s1 = Returns (scast c) s2 \<and> keyboard_holds p s2 cs"
proof -
  have rdy: "keyboard_ready s" using assms(1,2) by (simp add: keyboard_ready_def)
  obtain s1 where s1: "keyboard_interrupts k ks s = Some s1" "keyboard_ready s1" "keyboard_holds p s1 (c # cs)"
    using keyboard_interrupts_ok[OF rdy assms(3,4), of k] assms(5,6) by auto
  let ?t = "upd_task (current_task s1) (\<lambda>t. t\<lparr>t_registers := frame_registers frame\<rparr>) (kernel_page s1)"
  have ct: "current_task s1 \<noteq> 0" using s1(3) by (simp add: keyboard_holds_def task_current_def)
  have h: "keyboard_holds p ?t (c # cs)" by (rule keyboard_holds_save) (simp add: keyboard_holds_paging s1(3))
  obtain t' where pop: "keyboard_pop ?t = (c, t')" "keyboard_holds p t' cs"
    using kbd.pop_holds[OF h] by (cases "keyboard_pop ?t") auto
  have "isr80h_commands ?t = map Some system_commands @ replicate 1011 None"
    using s1(2) by (simp add: keyboard_ready_def upd_task_def)
  then have "isr80h_handle_command ops k polls 2 ?t = Returns (scast c) t'"
    using pop(1) by (simp add: isr80h_handle_command_def nth_append system_commands_def isr80h_command2_get_key_def)
  moreover have "task_current_save_state frame (kernel_page s1) = Some ?t"
    using save_state_eq[of "kernel_page s1" frame] ct by simp
  ultimately have "isr80h_handler ops k polls 2 frame s1 = Returns (scast c) (task_page t')"
    by (simp add: isr80h_handler_def)
  then show ?thesis using s1(1) pop(2) by (auto simp: keyboard_holds_paging)
qed

theorem typed_key_is_read_witness:
  "\<exists>s1 s2. keyboard_interrupts sample_statics [(0x23, sample_frame), (0xA3, sample_frame), (0x17, sample_frame)]
      (typing_kernel\<lparr>isr80h_commands := map Some system_commands @ replicate 1011 None,
         interrupt_callbacks := (replicate 512 None)[0x21 := Some Classic_keyboard_handle_interrupt]\<rparr>) = Some s1 \<and>
    isr80h_handler (\<lambda>_. sample_driver) sample_statics [] 2 sample_frame s1 = Returns 104 s2"
proof -
  let ?s = "typing_kernel\<lparr>isr80h_commands := map Some system_commands @ replicate 1011 None,
         interrupt_callbacks := (replicate 512 None)[0x21 := Some Classic_keyboard_handle_interrupt]\<rparr>"
  let ?ks = "[(0x23, sample_frame), (0xA3, sample_frame), (0x17, sample_frame)]"
  have caps: "keyboard_get_capslock (classic_addr sample_statics) ?s = KEYBOARD_CAPS_LOCK_OFF"
    by (simp add: keyboard_get_capslock_def typing_kernel_def blank_kernel_def)
  have h: "keyboard_holds 0x5000 ?s []"
    using typing_kernel_holds by (simp add: keyboard_holds_def process_current_def task_current_def)
  have ty: "snd (typed (keyboard_get_capslock (classic_addr sample_statics) ?s) (map fst ?ks)) = [104, 105]"
    unfolding caps by (simp add: key_char_def keyboard_scan_set_one_def tolower_def)
  have "interrupt_callbacks ?s ! 0x21 = Some Classic_keyboard_handle_interrupt"
    "isr80h_commands ?s = map Some system_commands @ replicate 1011 None" "(84 :: u8) \<notin> fst ` set ?ks" "length [105 :: u8] < 1024"
    by simp_all
  from typed_key_is_read[OF this(1,2) h this(3) ty this(4), of "\<lambda>_. sample_driver" "[]" sample_frame]
  obtain s1 s2 where "keyboard_interrupts sample_statics ?ks ?s = Some s1"
    "isr80h_handler (\<lambda>_. sample_driver) sample_statics [] 2 sample_frame s1 = Returns (scast (104 :: u8)) s2" by blast
  moreover have "(scast (104 :: u8) :: u32) = 104" by simp
  ultimately show ?thesis by metis
qed

lemma proc_mem_paging:
  "proc_mem_ok p (kernel_page s) A = proc_mem_ok p s A" "avail (kernel_page s) = avail s"
  "proc_entry p (kernel_page s) w = proc_entry p s w"
  "proc_mem_ok p (task_page t) A = proc_mem_ok p t A" "avail (task_page t) = avail t"
  "proc_entry p (task_page t) w = proc_entry p t w"
  by (simp_all add: proc_mem_ok_def kernel_page_def task_page_def task_switch_def paging_switch_def Let_def
      live_regions_def kheap_ok_def avail_def space_live_def proc_entry_def)

lemma proc_mem_save:
  "proc_mem_ok p (upd_task t (\<lambda>t. t\<lparr>t_registers := r\<rparr>) s) A = proc_mem_ok p s A"
  "avail (upd_task t (\<lambda>t. t\<lparr>t_registers := r\<rparr>) s) = avail s"
  "proc_entry p (upd_task t (\<lambda>t. t\<lparr>t_registers := r\<rparr>) s) w = proc_entry p s w"
  by (simp_all add: proc_mem_ok_def upd_task_def live_regions_def kheap_ok_def avail_def space_live_def
      proc_entry_def)

lemma proc_mem_tables:
  "proc_mem_ok p (s\<lparr>current_task := t, isr80h_commands := c\<rparr>) A = proc_mem_ok p s A"
  "avail (s\<lparr>current_task := t, isr80h_commands := c\<rparr>) = avail s"
  by (simp_all add: proc_mem_ok_def live_regions_def kheap_ok_def avail_def space_live_def)

text \<open>
  C10: system call 4 gives a program memory: with the size on top of the user's stack, at most
  a page, and room in the table and on the heap, the call returns new zeroed memory
  which the program may write at the address it gets, and changes no other translation.
\<close>

theorem isr80h_malloc:
  assumes "isr80h_commands s = map Some system_commands @ replicate 1011 None" "current_task s \<noteq> 0"
    and "t_process (tasks s (current_task s)) = p" "proc_mem_ok p s A" "0 < avail s"
    and "sz = read32 (virtual_memory (mem s) (task_directory s)) (f_esp frame)" "0 < unat sz" "unat sz \<le> 4096"
    and "find_allocation (pr_allocations (procs s p)) 0 0 = Some i"
  shows "\<exists>ptr s'. isr80h_handler ops k polls 4 frame s = Returns ptr s' \<and> ptr \<noteq> 0 \<and> A ptr = None \<and>
     proc_mem_ok p s' (A(ptr \<mapsto> 4096)) \<and> avail s = Suc (avail s') \<and>
     proc_entry p s' ptr = ptr OR PAGING_IS_WRITABLE OR PAGING_IS_PRESENT OR PAGING_ACCESS_FROM_ALL \<and>
     (\<forall>w. page_aligned w \<and> w \<noteq> ptr \<longrightarrow> proc_entry p s' w = proc_entry p s w) \<and>
     (\<forall>a. in_range ptr (unat sz) a \<longrightarrow> mem s' a = 0)"
proof -
  let ?t = "upd_task (current_task s) (\<lambda>t. t\<lparr>t_registers := frame_registers frame\<rparr>) (kernel_page s)"
  have same: "proc_mem_ok p (kernel_page ?t) A" "avail (kernel_page ?t) = avail s"
    "proc_entry p (kernel_page ?t) w = proc_entry p s w" "procs (kernel_page ?t) = procs s" for w
    using assms(4) proc_mem_paging(1)[of p ?t A] proc_mem_paging(2)[of ?t] proc_mem_paging(3)[of p ?t w]
    by (simp_all add: proc_mem_save proc_mem_paging(1-3)) (simp add: upd_task_def)
  have cp: "current_proc (kernel_page ?t) = p" using assms(3) by (auto simp: current_proc_def upd_task_def task_current_def)
  have item: "stack_item 0 ?t = (sz, kernel_page ?t)"
    unfolding stack_item_eq assms(6) by (simp add: task_directory_def upd_task_def frame_registers_def)
  obtain ptr s' where m: "process_malloc p sz (kernel_page ?t) = (ptr, s')" "ptr \<noteq> 0" "A ptr = None"
    "proc_mem_ok p s' (A(ptr \<mapsto> 4096))" "avail (kernel_page ?t) = Suc (avail s')"
    "proc_entry p s' ptr = ptr OR PAGING_IS_WRITABLE OR PAGING_IS_PRESENT OR PAGING_ACCESS_FROM_ALL"
    "\<forall>w. page_aligned w \<and> w \<noteq> ptr \<longrightarrow> proc_entry p s' w = proc_entry p (kernel_page ?t) w"
    "\<forall>a. in_range ptr (unat sz) a \<longrightarrow> mem s' a = 0"
    using process_malloc_spec[OF same(1) assms(7,8)] assms(5,9) unfolding same by blast
  have "isr80h_handle_command ops k polls 4 ?t = Returns ptr s'"
    using assms(1) item cp m(1)
    by (simp add: isr80h_handle_command_def nth_append system_commands_def isr80h_command4_malloc_def upd_task_def)
  moreover have "task_current_save_state frame (kernel_page s) = Some ?t"
    using save_state_eq[of "kernel_page s" frame] assms(2) by simp
  ultimately have "isr80h_handler ops k polls 4 frame s = Returns ptr (task_page s')"
    by (simp add: isr80h_handler_def)
  then show ?thesis
    using m unfolding same by (intro exI[of _ ptr] exI[of _ "task_page s'"]) (simp add: proc_mem_paging(4-6))
qed

definition calling_kernel :: kernel_state where
  "calling_kernel = (let (t, s) = task_new 0x5000 blank_kernel;
      s = upd_proc 0x5000 (\<lambda>q. q\<lparr>pr_task := t\<rparr>) s
    in s\<lparr>current_task := t, isr80h_commands := map Some system_commands @ replicate 1011 None\<rparr>)"

text \<open>The stack of the call is the first page table, whose first word is 5.\<close>

definition calling_frame :: interrupt_frame where
  "calling_frame = sample_frame\<lparr>f_esp := dir_table (mem calling_kernel) (task_directory calling_kernel) 0\<rparr>"

theorem isr80h_malloc_witness:
  "\<exists>ptr s'. isr80h_handler (\<lambda>_. sample_driver) sample_statics [] 4 calling_frame calling_kernel = Returns ptr s' \<and>
     ptr \<noteq> 0 \<and> proc_entry 0x5000 s' ptr = ptr OR 7"
proof -
  obtain t s1 where n: "task_new 0x5000 blank_kernel = (t, s1)" by fastforce
  let ?s2 = "upd_proc 0x5000 (\<lambda>q. q\<lparr>pr_task := t\<rparr>) s1"
  have b: "live_regions blank_kernel (region_map boot_heap Map.empty)" "avail blank_kernel = 25600"
    "kernel_heap blank_kernel = boot_heap" "task_list blank_kernel []" "procs blank_kernel 0x5000 = zero_process"
    by (rule boot_heap_live; simp add: blank_kernel_def)+ (simp_all add: task_links_def blank_kernel_def)
  obtain B where B: "proc_mem_ok 0x5000 ?s2 B" "avail ?s2 = 24573" "procs ?s2 0x5000 = zero_process\<lparr>pr_task := t\<rparr>"
    "linear_space (mem ?s2) (t_page_directory (tasks ?s2 t)) 5" "t_process (tasks ?s2 t) = 0x5000" "t \<noteq> 0"
    by (rule first_process_ok[OF b n]) blast
  have ck: "calling_kernel = ?s2\<lparr>current_task := t, isr80h_commands := map Some system_commands @ replicate 1011 None\<rparr>"
    using n by (simp add: calling_kernel_def)
  let ?dir = "task_directory calling_kernel" and ?m = "mem calling_kernel" and ?c = "t_page_directory (tasks ?s2 t)"
  have fields: "current_task calling_kernel = t" "tasks calling_kernel = tasks ?s2" "mem calling_kernel = mem ?s2"
    "procs calling_kernel = procs ?s2" "isr80h_commands calling_kernel = map Some system_commands @ replicate 1011 None"
    by (simp_all add: ck)
  have pm: "proc_mem_ok 0x5000 calling_kernel B" "avail calling_kernel = 24573"
    using B(1,2) unfolding ck proc_mem_tables .
  have dir: "?dir = read32 ?m ?c" by (simp add: task_directory_def fields)
  have lin: "linear_space ?m ?c 5" using B(4) by (simp add: fields)
  have id: "virtual_memory ?m ?dir = ?m"
    using linear_space_identity[OF lin] by (simp add: virtual_memory_def fun_eq_iff dir paging_4gb_chunk_get_directory_def)
  have "paging_get ?m ?dir 0 = 5" using lin by (simp add: linear_space_def dir)
  then have "read32 ?m (dir_table ?m ?dir 0) = 5"
    by (simp add: paging_get_eq dir_index_def tab_index_def)
  then have sz: "5 = read32 (virtual_memory ?m ?dir) (f_esp calling_frame)"
    unfolding id calling_frame_def by simp
  have "pr_allocations (procs calling_kernel 0x5000) = replicate 1024 \<lparr>alloc_ptr = 0, alloc_size = 0\<rparr>"
    using B(3) by (simp add: fields zero_process_def)
  then have slot: "find_allocation (pr_allocations (procs calling_kernel 0x5000)) 0 0 = Some (0 + 0)"
    by (intro find_allocation_first) simp_all
  have "current_task calling_kernel \<noteq> 0" "t_process (tasks calling_kernel (current_task calling_kernel)) = 0x5000"
    "0 < avail calling_kernel" "0 < unat (5 :: u32)" "unat (5 :: u32) \<le> 4096"
    using B(5,6) pm(2) by (simp_all add: fields)
  from isr80h_malloc[OF fields(5) this(1,2) pm(1) this(3) sz this(4,5) slot, of "\<lambda>_. sample_driver" sample_statics "[]"]
  show ?thesis by auto
qed

end
